(* ===== verification/FR_Prelude.thy ===== *)
theory FR_Prelude
  imports Main "HOL-Library.List_Lexorder" "HOL-Library.Char_ord"
begin

text \<open>
  The shared vocabulary of the development.  A Python \<open>str\<close> is a HOL \<open>string\<close> holding its
  UTF-8 bytes: equality is the same relation, and the byte order is the code-point order,
  so the library's lexicographic order on lists is Python's \<open><\<close> on \<open>str\<close> and SQLite's
  BINARY collation.  A check that may raise returns \<open>'e option\<close> (\<open>None\<close>: the code falls
  through); a computation that may raise returns \<open>'e + 'a\<close>.
\<close>

named_theorems fr_defs \<open>definitions that unfold to plain case analysis\<close>

subsection \<open>Raising and falling through\<close>

definition bindE :: "'e + 'a \<Rightarrow> ('a \<Rightarrow> 'e + 'b) \<Rightarrow> 'e + 'b" where
  "bindE m f = (case m of Inl e \<Rightarrow> Inl e | Inr a \<Rightarrow> f a)"

lemma bindE_simps [simp]:
  "bindE (Inl e) f = Inl e"
  "bindE (Inr a) f = f a"
  by (simp_all add: bindE_def)

lemma bindE_eq_Inr [simp]: "bindE m f = Inr b \<longleftrightarrow> (\<exists>a. m = Inr a \<and> f a = Inr b)"
  by (cases m) auto

lemma bindE_eq_Inl: "bindE m f = Inl e \<longleftrightarrow> m = Inl e \<or> (\<exists>a. m = Inr a \<and> f a = Inl e)"
  by (cases m) auto

definition raise_if :: "bool \<Rightarrow> 'e \<Rightarrow> 'e option" where
  "raise_if b e = (if b then Some e else None)"

lemma raise_if_None [simp]: "raise_if b e = None \<longleftrightarrow> \<not> b"
  by (simp add: raise_if_def)

lemma raise_if_Some [simp]: "raise_if b e = Some x \<longleftrightarrow> b \<and> x = e"
  by (auto simp: raise_if_def)

text \<open>A sequence of checks stops at the first that raises.\<close>

primrec first_failure :: "'e option list \<Rightarrow> 'e option" where
  "first_failure [] = None"
| "first_failure (c # cs) = (case c of Some e \<Rightarrow> Some e | None \<Rightarrow> first_failure cs)"

lemma first_failure_None [simp]: "first_failure cs = None \<longleftrightarrow> (\<forall>c\<in>set cs. c = None)"
  by (induction cs) (auto split: option.splits)

lemma first_failure_Some: "first_failure cs = Some e \<Longrightarrow> Some e \<in> set cs"
  by (induction cs) (auto split: option.splits)

primrec mapE :: "('a \<Rightarrow> 'e + 'b) \<Rightarrow> 'a list \<Rightarrow> 'e + 'b list" where
  "mapE f [] = Inr []"
| "mapE f (x # xs) =
     bindE (f x) (\<lambda>y. bindE (mapE f xs) (\<lambda>ys. Inr (y # ys)))"

lemma mapE_Inr_iff: "mapE f xs = Inr ys \<longleftrightarrow> list_all2 (\<lambda>x y. f x = Inr y) xs ys"
  by (induction xs arbitrary: ys) (auto simp: list_all2_Cons1)

lemma mapE_Inr_length: "mapE f xs = Inr ys \<Longrightarrow> length ys = length xs"
  by (simp add: mapE_Inr_iff list_all2_lengthD)

lemma mapE_Inr_map: "(\<And>x. x \<in> set xs \<Longrightarrow> f x = Inr (g x)) \<Longrightarrow> mapE f xs = Inr (map g xs)"
  by (induction xs) auto

lemma mapE_cong: "(\<And>x. x \<in> set xs \<Longrightarrow> f x = g x) \<Longrightarrow> mapE f xs = mapE g xs"
  by (induction xs) auto

lemma mapE_Inl: "mapE f xs = Inl e \<Longrightarrow> \<exists>x\<in>set xs. f x = Inl e"
  by (induction xs) (auto simp: bindE_eq_Inl)

lemma list_all2_left: "list_all2 P xs ys \<Longrightarrow> x \<in> set xs \<Longrightarrow> \<exists>y\<in>set ys. P x y"
  by (induction rule: list_all2_induct) auto

lemma list_all2_right: "list_all2 P xs ys \<Longrightarrow> y \<in> set ys \<Longrightarrow> \<exists>x\<in>set xs. P x y"
  by (induction rule: list_all2_induct) auto

definition opt_to_sum :: "'e \<Rightarrow> 'a option \<Rightarrow> 'e + 'a" where
  "opt_to_sum e x = (case x of None \<Rightarrow> Inl e | Some a \<Rightarrow> Inr a)"

lemma opt_to_sum_simps [simp]:
  "opt_to_sum e None = Inl e"
  "opt_to_sum e (Some a) = Inr a"
  "opt_to_sum e x = Inr b \<longleftrightarrow> x = Some b"
  by (auto simp: opt_to_sum_def split: option.splits)

subsection \<open>Lookups\<close>

text \<open>
  \<open>.first()\<close> of a query: the first row that satisfies the condition.  Every query of the
  source that takes \<open>.first()\<close> selects by a primary key or a unique key, so there is at most
  one row.
\<close>

lemma find_Some_in: "find P xs = Some x \<Longrightarrow> x \<in> set xs \<and> P x"
  by (auto simp: find_Some_iff)

lemma find_append: "find P (xs @ ys) = (case find P xs of None \<Rightarrow> find P ys | Some x \<Rightarrow> Some x)"
  by (induction xs) auto

lemma find_None_iff_filter: "find P xs = None \<longleftrightarrow> filter P xs = []"
  by (induction xs) auto

lemma find_eq_hd_filter: "find P xs = (case filter P xs of [] \<Rightarrow> None | x # _ \<Rightarrow> Some x)"
  by (induction xs) auto

lemma find_filter: "find P (filter Q xs) = find (\<lambda>x. Q x \<and> P x) xs"
  by (induction xs) auto

lemma find_distinct_key:
  assumes "distinct (map k xs)" "x \<in> set xs"
  shows "find (\<lambda>y. k y = k x) xs = Some x"
  using assms by (induction xs) (auto simp: rev_image_eqI)

lemma find_distinct_key_iff:
  assumes "distinct (map k xs)"
  shows "find (\<lambda>y. k y = a) xs = Some x \<longleftrightarrow> x \<in> set xs \<and> k x = a"
  using assms find_distinct_key find_Some_in by fastforce

subsection \<open>Repeated keys\<close>

text \<open>The counting dictionary of \<open>_duplicates\<close>: keys in first-seen order with a count.\<close>

fun bump :: "'a \<Rightarrow> ('a \<times> nat) list \<Rightarrow> ('a \<times> nat) list" where
  "bump k [] = [(k, 1)]"
| "bump k ((k', n) # seen) = (if k' = k then (k', n + 1) # seen else (k', n) # bump k seen)"

definition duplicates :: "'a list \<Rightarrow> 'a list" where
  "duplicates keys =
     map fst (filter (\<lambda>(k, n). 1 < n) (fold bump keys []))"

lemma map_of_bump: "map_of (bump k seen) = (map_of seen)(k \<mapsto> (case map_of seen k of None \<Rightarrow> 1 | Some n \<Rightarrow> n + 1))"
  by (induction k seen rule: bump.induct) (auto simp: fun_eq_iff)

lemma keys_bump: "fst ` set (bump k seen) = insert k (fst ` set seen)"
  by (induction k seen rule: bump.induct) auto

lemma distinct_bump: "distinct (map fst seen) \<Longrightarrow> distinct (map fst (bump k seen))"
  by (induction k seen rule: bump.induct) (auto simp: keys_bump)

lemma distinct_fold_bump: "distinct (map fst seen) \<Longrightarrow> distinct (map fst (fold bump keys seen))"
  by (induction keys arbitrary: seen) (auto simp: distinct_bump)

lemma map_of_fold_bump:
  "map_of (fold bump keys seen) k =
     (if k \<in> set keys then Some (count_list keys k + (case map_of seen k of None \<Rightarrow> 0 | Some n \<Rightarrow> n))
      else map_of seen k)"
  by (induction keys arbitrary: seen) (auto simp: map_of_bump split: option.splits)

lemma map_of_counts: "map_of (fold bump keys []) k = (if k \<in> set keys then Some (count_list keys k) else None)"
  by (simp add: map_of_fold_bump)

lemma set_duplicates: "set (duplicates keys) = {k. 1 < count_list keys k}"
proof (rule set_eqI)
  fix k
  let ?s = "fold bump keys []"
  have d: "distinct (map fst ?s)" by (rule distinct_fold_bump) simp
  have "k \<in> set (duplicates keys) \<longleftrightarrow> (\<exists>n. (k, n) \<in> set ?s \<and> 1 < n)"
    by (force simp: duplicates_def)
  also have "\<dots> \<longleftrightarrow> (\<exists>n. map_of ?s k = Some n \<and> 1 < n)"
    using d by simp
  also have "\<dots> \<longleftrightarrow> k \<in> set keys \<and> 1 < count_list keys k"
    by (simp add: map_of_counts)
  also have "\<dots> \<longleftrightarrow> 1 < count_list keys k"
    by (metis count_notin not_less_zero)
  finally show "k \<in> set (duplicates keys) \<longleftrightarrow> k \<in> {k. 1 < count_list keys k}"
    by simp
qed

lemma distinct_count_list: "distinct xs \<longleftrightarrow> (\<forall>k. count_list xs k \<le> 1)"
proof (induction xs)
  case Nil
  then show ?case by simp
next
  case (Cons a xs)
  have "(\<forall>k. count_list (a # xs) k \<le> 1) \<longleftrightarrow> count_list xs a = 0 \<and> (\<forall>k. count_list xs k \<le> 1)"
  proof
    assume l: "\<forall>k. count_list (a # xs) k \<le> 1"
    have "count_list xs k \<le> 1" for k using l [rule_format, of k] by (simp split: if_splits)
    moreover have "count_list xs a = 0" using l [rule_format, of a] by simp
    ultimately show "count_list xs a = 0 \<and> (\<forall>k. count_list xs k \<le> 1)" by blast
  next
    assume r: "count_list xs a = 0 \<and> (\<forall>k. count_list xs k \<le> 1)"
    then show "\<forall>k. count_list (a # xs) k \<le> 1" by simp
  qed
  then show ?case using Cons by (simp add: count_list_0_iff)
qed

lemma duplicates_Nil_iff: "duplicates keys = [] \<longleftrightarrow> distinct keys"
proof -
  have "duplicates keys = [] \<longleftrightarrow> (\<forall>k. \<not> 1 < count_list keys k)"
    using set_duplicates [of keys] by (cases "duplicates keys") auto
  then show ?thesis by (simp add: distinct_count_list not_less)
qed

subsection \<open>Lexicographic order on strings of equal length\<close>

lemma lex_append:
  fixes xs :: "'a::linorder list"
  assumes "length xs = length ys"
  shows "xs @ us < ys @ vs \<longleftrightarrow> xs < ys \<or> (xs = ys \<and> us < vs)"
  using assms by (induction xs ys rule: list_induct2) auto

lemma lex_append_le:
  fixes xs :: "'a::linorder list"
  assumes "length xs = length ys"
  shows "xs @ us \<le> ys @ vs \<longleftrightarrow> xs < ys \<or> (xs = ys \<and> us \<le> vs)"
  using assms by (auto simp: le_less lex_append)

end
