(* ===== verification/Decimal.thy ===== *)
theory Decimal
  imports FR_Prelude
begin

text \<open>
  Decimal numerals: \<open>str(int)\<close>, the zero-padded fields of \<open>strftime\<close>, runs of ASCII digits, and
  the decimal digits of Unicode that \<open>\<backslash>d\<close> and \<open>int\<close> read.  Shared by the timestamp text, the JSON text
  and the rule grammar.
\<close>

definition digit_char :: "nat \<Rightarrow> char" where
  "digit_char n = char_of (48 + n)"

definition is_digit :: "char \<Rightarrow> bool" where
  "is_digit c \<longleftrightarrow> 48 \<le> (of_char c :: nat) \<and> (of_char c :: nat) \<le> 57"

definition digit_val :: "char \<Rightarrow> nat" where
  "digit_val c = of_char c - 48"

lemma of_char_digit_char: "n < 10 \<Longrightarrow> (of_char (digit_char n) :: nat) = 48 + n"
  by (simp add: digit_char_def)

lemma is_digit_char [simp]: "n < 10 \<Longrightarrow> is_digit (digit_char n)"
  by (simp add: is_digit_def of_char_digit_char)

lemma digit_val_char [simp]: "n < 10 \<Longrightarrow> digit_val (digit_char n) = n"
  by (simp add: digit_val_def of_char_digit_char)

lemma digit_char_val [simp]: "is_digit c \<Longrightarrow> digit_char (digit_val c) = c"
  by (simp add: is_digit_def digit_val_def digit_char_def)

lemma digit_val_bound: "is_digit c \<Longrightarrow> digit_val c < 10"
  unfolding is_digit_def digit_val_def by linarith

lemma digit_char_less: "m < 10 \<Longrightarrow> n < 10 \<Longrightarrow> digit_char m < digit_char n \<longleftrightarrow> m < n"
  by (simp add: less_char_def of_char_digit_char)

lemma digit_char_inject: "m < 10 \<Longrightarrow> n < 10 \<Longrightarrow> digit_char m = digit_char n \<longleftrightarrow> m = n"
  by (metis digit_val_char)

subsection \<open>Fixed-width fields\<close>

fun fixed_digits :: "nat \<Rightarrow> nat \<Rightarrow> string" where
  "fixed_digits 0 n = []"
| "fixed_digits (Suc w) n = fixed_digits w (n div 10) @ [digit_char (n mod 10)]"

lemma length_fixed_digits [simp]: "length (fixed_digits w n) = w"
  by (induction w arbitrary: n) auto

lemma fixed_digits_all_digits: "\<forall>c\<in>set (fixed_digits w n). is_digit c"
  by (induction w arbitrary: n) auto

lemma div_less_pow: "n < 10 ^ Suc w \<Longrightarrow> n div 10 < (10::nat) ^ w"
  by (simp add: less_mult_imp_div_less mult.commute)

lemma divmod10_less:
  fixes a b c d :: nat
  assumes "b < 10" "d < 10"
  shows "a * 10 + b < c * 10 + d \<longleftrightarrow> a < c \<or> a = c \<and> b < d"
  using assms by arith

lemma less_by_divmod10: "(m::nat) < n \<longleftrightarrow> m div 10 < n div 10 \<or> m div 10 = n div 10 \<and> m mod 10 < n mod 10"
  using divmod10_less [of "m mod 10" "n mod 10" "m div 10" "n div 10"] by (simp only: div_mult_mod_eq)

lemma fixed_digits_inject:
  "m < 10 ^ w \<Longrightarrow> n < 10 ^ w \<Longrightarrow> fixed_digits w m = fixed_digits w n \<longleftrightarrow> m = n"
proof (induction w arbitrary: m n)
  case 0
  then show ?case by simp
next
  case (Suc w)
  have "fixed_digits (Suc w) m = fixed_digits (Suc w) n \<longleftrightarrow> m div 10 = n div 10 \<and> m mod 10 = n mod 10"
    using Suc.IH [of "m div 10" "n div 10"] Suc.prems [THEN div_less_pow]
    by (simp add: digit_char_inject)
  also have "\<dots> \<longleftrightarrow> m = n" by (metis div_mod_decomp)
  finally show ?case .
qed

lemma fixed_digits_less:
  "m < 10 ^ w \<Longrightarrow> n < 10 ^ w \<Longrightarrow> fixed_digits w m < fixed_digits w n \<longleftrightarrow> m < n"
proof (induction w arbitrary: m n)
  case 0
  then show ?case by simp
next
  case (Suc w)
  note b = Suc.prems [THEN div_less_pow]
  have "fixed_digits (Suc w) m < fixed_digits (Suc w) n \<longleftrightarrow>
      m div 10 < n div 10 \<or> m div 10 = n div 10 \<and> m mod 10 < n mod 10"
    using Suc.IH [OF b] fixed_digits_inject [OF b]
    by (simp add: lex_append digit_char_less)
  also have "\<dots> \<longleftrightarrow> m < n" by (rule less_by_divmod10 [symmetric])
  finally show ?case .
qed

subsection \<open>Reading a run of digits\<close>

definition digits_val :: "string \<Rightarrow> nat" where
  "digits_val = foldl (\<lambda>a c. a * 10 + digit_val c) 0"

lemma digits_val_Nil [simp]: "digits_val [] = 0"
  by (simp add: digits_val_def)

lemma digits_val_snoc [simp]: "digits_val (cs @ [c]) = digits_val cs * 10 + digit_val c"
  by (simp add: digits_val_def)

lemma digits_val_fixed: "n < 10 ^ w \<Longrightarrow> digits_val (fixed_digits w n) = n"
  by (induction w arbitrary: n) (auto simp: div_less_pow less_mult_imp_div_less mult.commute)

subsection \<open>\<open>str(n)\<close>\<close>

fun nat_text :: "nat \<Rightarrow> string" where
  "nat_text n = (if n < 10 then [digit_char n] else nat_text (n div 10) @ [digit_char (n mod 10)])"

declare nat_text.simps [simp del]

lemma nat_text_small: "n < 10 \<Longrightarrow> nat_text n = [digit_char n]"
  by (subst nat_text.simps) simp

lemma nat_text_big: "\<not> n < 10 \<Longrightarrow> nat_text n = nat_text (n div 10) @ [digit_char (n mod 10)]"
  by (subst nat_text.simps) simp

lemma nat_text_not_Nil [simp]: "nat_text n \<noteq> []"
  by (cases "n < 10") (simp_all add: nat_text_small nat_text_big)

lemma nat_text_all_digits: "c \<in> set (nat_text n) \<Longrightarrow> is_digit c"
proof (induction n rule: nat_text.induct)
  case (1 n)
  then show ?case by (cases "n < 10") (auto simp: nat_text_small nat_text_big)
qed

lemma digits_val_single [simp]: "digits_val [c] = digit_val c"
  by (simp add: digits_val_def)

lemma digits_val_nat_text [simp]: "digits_val (nat_text n) = n"
proof (induction n rule: nat_text.induct)
  case (1 n)
  then show ?case by (cases "n < 10") (simp_all add: nat_text_small nat_text_big)
qed

lemma nat_text_hd: "10 \<le> n \<Longrightarrow> hd (nat_text n) \<noteq> CHR ''0''"
proof (induction n rule: nat_text.induct)
  case (1 n)
  then have s: "nat_text n = nat_text (n div 10) @ [digit_char (n mod 10)]"
    by (simp add: nat_text_big)
  show ?case
  proof (cases "n div 10 < 10")
    case True
    have "digit_char (n div 10) \<noteq> digit_char 0"
      using 1(2) True by (subst digit_char_inject) auto
    moreover have "digit_char 0 = CHR ''0''" by code_simp
    ultimately show ?thesis using True s by (simp add: nat_text_small)
  next
    case False
    then show ?thesis using 1 s by (simp add: hd_append)
  qed
qed

definition int_text :: "int \<Rightarrow> string" where
  "int_text i = (if i < 0 then CHR ''-'' # nat_text (nat (- i)) else nat_text (nat i))"

lemma minus_not_digit [simp]: "\<not> is_digit (CHR ''-'')"
  by (simp add: is_digit_def)

lemma nat_text_hd_not_minus: "nat_text n = c # cs \<Longrightarrow> c \<noteq> CHR ''-''"
  using nat_text_all_digits [of c n] by auto

lemma nat_text_inject: "nat_text m = nat_text n \<longleftrightarrow> m = n"
  by (metis digits_val_nat_text)

lemma int_text_inject: "int_text i = int_text j \<longleftrightarrow> i = j"
proof
  assume t: "int_text i = int_text j"
  obtain a as b bs where h: "nat_text (nat i) = a # as" "nat_text (nat j) = b # bs"
    by (meson list.exhaust nat_text_not_Nil)
  then have "a \<noteq> CHR ''-''" "b \<noteq> CHR ''-''" using nat_text_hd_not_minus by auto
  then show "i = j" using t h nat_text_inject [of "nat i" "nat j"] nat_text_inject [of "nat (- i)" "nat (- j)"]
    by (auto simp: int_text_def split: if_splits)
qed simp

subsection \<open>The decimal digits of Unicode\<close>

text \<open>
  \<open>\<backslash>d\<close> matches, and \<open>int\<close> reads, every code point of the category Nd; these are the code points of the zeros, each
  followed by its nine other digits (Unicode 15.1, the version of Python 3.13).  A text is its UTF-8 bytes:
  \<open>next_digit\<close> reads the first code point of one.
\<close>

definition DECIMAL_ZEROS :: "nat list" where
  "DECIMAL_ZEROS =
    [0x30, 0x660, 0x6F0, 0x7C0, 0x966, 0x9E6, 0xA66, 0xAE6, 0xB66, 0xBE6, 0xC66, 0xCE6, 0xD66, 0xDE6, 0xE50, 0xED0,
     0xF20, 0x1040, 0x1090, 0x17E0, 0x1810, 0x1946, 0x19D0, 0x1A80, 0x1A90, 0x1B50, 0x1BB0, 0x1C40, 0x1C50, 0xA620,
     0xA8D0, 0xA900, 0xA9D0, 0xA9F0, 0xAA50, 0xABF0, 0xFF10, 0x104A0, 0x10D30, 0x11066, 0x110F0, 0x11136, 0x111D0,
     0x112F0, 0x11450, 0x114D0, 0x11650, 0x116C0, 0x11730, 0x118E0, 0x11950, 0x11C50, 0x11D50, 0x11DA0, 0x11F50,
     0x16A60, 0x16AC0, 0x16B50, 0x1D7CE, 0x1D7D8, 0x1D7E2, 0x1D7EC, 0x1D7F6, 0x1E140, 0x1E2F0, 0x1E4F0, 0x1E950,
     0x1FBF0]"

definition decimal_value :: "nat \<Rightarrow> nat option" where
  "decimal_value cp = map_option (\<lambda>z. cp - z) (find (\<lambda>z. z \<le> cp \<and> cp < z + 10) DECIMAL_ZEROS)"

definition continues :: "char \<Rightarrow> bool" where
  "continues c \<longleftrightarrow> 128 \<le> (of_char c :: nat) \<and> (of_char c :: nat) < 192"

definition low_bits :: "char \<Rightarrow> nat" where
  "low_bits c = of_char c mod 64"

fun multibyte :: "string \<Rightarrow> (nat \<times> string) option" where
  "multibyte (a # b # s) =
     (if 192 \<le> (of_char a :: nat) \<and> (of_char a :: nat) < 224 \<and> continues b then Some (of_char a mod 32 * 64 + low_bits b, s)
      else (case s of
          [] \<Rightarrow> None
        | c # t \<Rightarrow>
            if 224 \<le> (of_char a :: nat) \<and> (of_char a :: nat) < 240 \<and> continues b \<and> continues c
            then Some (of_char a mod 16 * 4096 + low_bits b * 64 + low_bits c, t)
            else (case t of
                [] \<Rightarrow> None
              | d # u \<Rightarrow>
                  if 240 \<le> (of_char a :: nat) \<and> continues b \<and> continues c \<and> continues d
                  then Some (of_char a mod 8 * 262144 + low_bits b * 4096 + low_bits c * 64 + low_bits d, u) else None)))"
| "multibyte _ = None"

definition next_digit :: "string \<Rightarrow> (nat \<times> string) option" where
  "next_digit s =
     (case s of
        [] \<Rightarrow> None
      | a # r \<Rightarrow>
          if is_digit a then Some (digit_val a, r)
          else if (of_char a :: nat) < 128 then None
          else Option.bind (multibyte s) (\<lambda>(cp, t). map_option (\<lambda>v. (v, t)) (decimal_value cp)))"

lemma multibyte_split:
  assumes "multibyte s = Some (cp, r)"
  shows "\<exists>p. s = p @ r \<and> p \<noteq> [] \<and> continues (last p) \<and> (\<forall>t. multibyte (p @ t) = Some (cp, t))"
  using assms
proof (cases s rule: multibyte.cases)
  case (1 a b s1)
  show ?thesis
  proof (cases "192 \<le> (of_char a :: nat) \<and> (of_char a :: nat) < 224 \<and> continues b")
    case True
    then show ?thesis using assms 1 by (intro exI [of _ "[a, b]"]) auto
  next
    case two: False
    then obtain c s2 where c: "s1 = c # s2" using assms 1 by (cases s1) auto
    show ?thesis
    proof (cases "224 \<le> (of_char a :: nat) \<and> (of_char a :: nat) < 240 \<and> continues b \<and> continues c")
      case True
      then show ?thesis using assms 1 c by (intro exI [of _ "[a, b, c]"]) auto
    next
      case three: False
      then obtain d s3 where d: "s2 = d # s3" using assms two 1 c by (cases s2) auto
      then have "240 \<le> (of_char a :: nat) \<and> continues b \<and> continues c \<and> continues d"
        using assms two three 1 c by (auto split: if_splits)
      then show ?thesis using assms 1 c d by (intro exI [of _ "[a, b, c, d]"]) auto
    qed
  qed
qed simp_all

text \<open>A digit is a non-empty block of bytes that reads the same before any text and does not end in an ASCII non-digit.\<close>

lemma next_digit_split:
  assumes "next_digit s = Some (v, r)"
  shows "\<exists>p. s = p @ r \<and> p \<noteq> [] \<and> (is_digit (last p) \<or> continues (last p)) \<and> (\<forall>t. next_digit (p @ t) = Some (v, t))"
proof -
  obtain a t where s: "s = a # t" using assms by (cases s) (auto simp: next_digit_def)
  show ?thesis
  proof (cases "is_digit a")
    case True
    then show ?thesis using assms by (intro exI [of _ "[a]"]) (auto simp: next_digit_def s)
  next
    case False
    then obtain cp where m: "\<not> (of_char a :: nat) < 128" "multibyte s = Some (cp, r)" "decimal_value cp = Some v"
      using assms by (auto simp: next_digit_def s bind_eq_Some_conv split: if_splits)
    obtain p where p: "s = p @ r" "p \<noteq> []" "continues (last p)" "\<forall>t. multibyte (p @ t) = Some (cp, t)"
      using multibyte_split [OF m(2)] by blast
    obtain q where "p = a # q" using p(1,2) s by (cases p) auto
    then have "next_digit (p @ u) = Some (v, u)" for u using p(4) m(1,3) False by (auto simp: next_digit_def)
    then show ?thesis using p by (intro exI [of _ p]) simp
  qed
qed

lemma next_digit_shorter: "next_digit s = Some (v, r) \<Longrightarrow> length r < length s"
  using next_digit_split by fastforce

text \<open>The longest run of digits at the head of a text, as the values of the digits.\<close>

function digit_run :: "string \<Rightarrow> nat list \<times> string" where
  "digit_run s =
     (case next_digit s of
        None \<Rightarrow> ([], s)
      | Some (v, r) \<Rightarrow> (case digit_run r of (vs, t) \<Rightarrow> (v # vs, t)))"
  by pat_completeness auto

termination by (relation "measure length") (auto dest: next_digit_shorter)

declare digit_run.simps [simp del]

definition decimal_of :: "nat list \<Rightarrow> nat" where
  "decimal_of = foldl (\<lambda>a v. a * 10 + v) 0"

lemma digit_run_None: "next_digit s = None \<Longrightarrow> digit_run s = ([], s)"
  by (simp add: digit_run.simps)

lemma digit_run_append:
  assumes "digit_run a = (vs, [])" "next_digit s = None"
  shows "digit_run (a @ s) = (vs, s)"
  using assms(1)
proof (induction a arbitrary: vs rule: digit_run.induct)
  case (1 a)
  show ?case
  proof (cases "next_digit a")
    case None
    then show ?thesis using 1(2) assms(2) by (simp add: digit_run.simps [of a] digit_run_None)
  next
    case (Some x)
    obtain v r where x: "x = (v, r)" by (cases x)
    obtain ws where ws: "digit_run r = (ws, [])" "vs = v # ws"
      using 1(2) Some x by (auto simp: digit_run.simps [of a] split: prod.splits)
    obtain p where "a = p @ r" "\<forall>t. next_digit (p @ t) = Some (v, t)" using next_digit_split Some x by blast
    then have "next_digit (a @ s) = Some (v, r @ s)" by simp
    then show ?thesis using 1(1) [OF Some x [symmetric] ws(1)] ws(2) by (simp add: digit_run.simps [of "a @ s"])
  qed
qed

lemma digit_run_Nil: "digit_run a = ([], []) \<Longrightarrow> a = []"
  by (auto simp: digit_run.simps [of a] split: option.splits prod.splits)

lemma digit_run_split:
  assumes "digit_run s = (vs, r)"
  shows "\<exists>a. s = a @ r \<and> digit_run a = (vs, []) \<and> (vs \<noteq> [] \<longrightarrow> a \<noteq> [] \<and> (is_digit (last a) \<or> continues (last a)))"
  using assms
proof (induction s arbitrary: vs rule: digit_run.induct)
  case (1 s)
  show ?case
  proof (cases "next_digit s")
    case None
    then show ?thesis using 1(2) by (intro exI [of _ "[]"]) (simp add: digit_run.simps [of s] digit_run.simps [of "[]"] next_digit_def)
  next
    case (Some x)
    obtain v t where x: "x = (v, t)" by (cases x)
    obtain ws where ws: "digit_run t = (ws, r)" "vs = v # ws"
      using 1(2) Some x by (auto simp: digit_run.simps [of s] split: prod.splits)
    obtain a where a: "t = a @ r" "digit_run a = (ws, [])" "ws \<noteq> [] \<longrightarrow> a \<noteq> [] \<and> (is_digit (last a) \<or> continues (last a))"
      using 1(1) [OF Some x [symmetric] ws(1)] by blast
    obtain p where p: "s = p @ t" "p \<noteq> []" "is_digit (last p) \<or> continues (last p)" "\<forall>u. next_digit (p @ u) = Some (v, u)"
      using next_digit_split Some x by blast
    have "digit_run (p @ a) = (vs, [])" using p(4) a(2) ws(2) by (simp add: digit_run.simps [of "p @ a"])
    moreover have "ws = [] \<Longrightarrow> a = []" using a(2) digit_run_Nil by simp
    ultimately show ?thesis using p(1-3) a(1,3) by (intro exI [of _ "p @ a"]) auto
  qed
qed

lemma next_digit_ascii: "is_digit c \<Longrightarrow> next_digit (c # s) = Some (digit_val c, s)"
  by (simp add: next_digit_def)

lemma digit_run_ascii: "list_all is_digit ds \<Longrightarrow> digit_run ds = (map digit_val ds, [])"
  by (induction ds) (simp_all add: digit_run.simps [of "_ # _"] digit_run.simps [of "[]"] next_digit_ascii next_digit_def [of "[]"])

lemma decimal_of_ascii: "decimal_of (map digit_val ds) = digits_val ds"
  by (simp add: decimal_of_def digits_val_def foldl_map)

lemma nat_text_run [simp]: "digit_run (nat_text n) = (map digit_val (nat_text n), [])"
  by (rule digit_run_ascii) (simp add: list_all_iff nat_text_all_digits)

text \<open>\<open>int\<close> refuses a text of more than \<open>sys.get_int_max_str_digits()\<close> digits with a ValueError.\<close>

definition INT_MAX_STR_DIGITS :: nat where
  "INT_MAX_STR_DIGITS = 4300"

text \<open>\<open>n\<close> digits, and exactly \<open>n\<close>.\<close>

primrec eat_digits :: "nat \<Rightarrow> string \<Rightarrow> string option" where
  "eat_digits 0 s = Some s"
| "eat_digits (Suc n) s = Option.bind (next_digit s) (\<lambda>(v, r). eat_digits n r)"

end
