(* ===== verification/Py_Time.thy ===== *)
theory Py_Time
  imports Decimal
begin

text \<open>
  Calendar dates, UTC instants and the persisted timestamp text (D-010).  \<open>date\<close> and
  \<open>utc\<close> are Python's \<open>date\<close> and a \<open>datetime\<close> whose offset is UTC: Python compares both
  field by field, and subtracts them through the proleptic ordinal (\<open>ymd2ord\<close>, the
  arithmetic of \<open>datetime.toordinal\<close>).  A difference is an integer number of
  microseconds.  \<open>format_utc\<close> is the fixed-width text every stored timestamp has;
  \<open>format_utc_less\<close> is the fact the collector and the replay rest on when they compare
  stored timestamps as strings.
\<close>

subsection \<open>Dates\<close>

datatype date = Date (d_year: int) (d_month: int) (d_day: int)

definition is_leap :: "int \<Rightarrow> bool" where
  "is_leap y \<longleftrightarrow> y mod 4 = 0 \<and> (y mod 100 \<noteq> 0 \<or> y mod 400 = 0)"

definition days_in_month :: "int \<Rightarrow> int \<Rightarrow> int" where
  "days_in_month y m =
     (if m = 2 then (if is_leap y then 29 else 28)
      else if m = 4 \<or> m = 6 \<or> m = 9 \<or> m = 11 then 30 else 31)"

definition valid_ymd :: "int \<Rightarrow> int \<Rightarrow> int \<Rightarrow> bool" where
  "valid_ymd y m d \<longleftrightarrow> 1 \<le> y \<and> y \<le> 9999 \<and> 1 \<le> m \<and> m \<le> 12 \<and> 1 \<le> d \<and> d \<le> days_in_month y m"

fun valid_date :: "date \<Rightarrow> bool" where
  "valid_date (Date y m d) = valid_ymd y m d"

definition days_before_year :: "int \<Rightarrow> int" where
  "days_before_year y = (let p = y - 1 in p * 365 + p div 4 - p div 100 + p div 400)"

definition days_before_month :: "int \<Rightarrow> int \<Rightarrow> int" where
  "days_before_month y m =
     [0, 31, 59, 90, 120, 151, 181, 212, 243, 273, 304, 334] ! nat (m - 1)
       + (if 2 < m \<and> is_leap y then 1 else 0)"

definition ymd2ord :: "int \<Rightarrow> int \<Rightarrow> int \<Rightarrow> int" where
  "ymd2ord y m d = days_before_year y + days_before_month y m + d"

lemma month_cases:
  fixes m :: int
  assumes "1 \<le> m" "m \<le> 12"
  obtains "m = 1" | "m = 2" | "m = 3" | "m = 4" | "m = 5" | "m = 6"
    | "m = 7" | "m = 8" | "m = 9" | "m = 10" | "m = 11" | "m = 12"
proof -
  have "m = 1 \<or> m = 2 \<or> m = 3 \<or> m = 4 \<or> m = 5 \<or> m = 6 \<or> m = 7 \<or> m = 8 \<or> m = 9 \<or> m = 10
      \<or> m = 11 \<or> m = 12"
    using assms by arith
  then show thesis using that by blast
qed

lemma days_before_month_step:
  assumes "1 \<le> m" "m < 12"
  shows "days_before_month y (m + 1) = days_before_month y m + days_in_month y m"
proof -
  have "m \<le> 12" using assms by simp
  with assms(1) show ?thesis
    by (cases rule: month_cases) (use assms in \<open>auto simp: days_before_month_def days_in_month_def\<close>)
qed

lemma days_before_month_Dec:
  "days_before_month y 12 + days_in_month y 12 = (if is_leap y then 366 else 365)"
  by (simp add: days_before_month_def days_in_month_def)

lemma days_in_month_bounds: "28 \<le> days_in_month y m \<and> days_in_month y m \<le> 31"
  by (simp add: days_in_month_def)

lemma days_before_month_mono:
  assumes "1 \<le> m" "m < m'" "m' \<le> 12"
  shows "days_before_month y m + days_in_month y m \<le> days_before_month y m'"
proof -
  have "m + 1 \<le> m'" using assms(2) by simp
  then have "m' \<le> 12 \<longrightarrow> days_before_month y m + days_in_month y m \<le> days_before_month y m'"
  proof (induction m' rule: int_ge_induct)
    case base
    show ?case using assms(1) by (simp add: days_before_month_step)
  next
    case (step i)
    have "0 \<le> days_in_month y i" using days_in_month_bounds [of y i] by simp
    then show ?case
      using step days_before_month_step [of i y] assms(1) by (auto simp del: days_before_month_step)
  qed
  with assms(3) show ?thesis by simp
qed

lemma div_step:
  fixes n y :: int
  assumes "1 < n"
  shows "y div n = (y - 1) div n + (if y mod n = 0 then 1 else 0)"
proof -
  have y: "y = n * (y div n) + y mod n" and r: "0 \<le> y mod n" "y mod n < n"
    using assms by auto
  show ?thesis
  proof (cases "y mod n = 0")
    case True
    with y have "y - 1 = n * (y div n - 1) + (n - 1)" by (simp add: algebra_simps)
    then have "(y - 1) div n = y div n - 1"
      using assms by (intro int_div_pos_eq [of _ _ _ "n - 1"]) auto
    with True show ?thesis by simp
  next
    case False
    have "(y - 1) div n = y div n"
      using y r False by (intro int_div_pos_eq [of _ _ _ "y mod n - 1"]) auto
    with False show ?thesis by simp
  qed
qed

lemma leap_count_step:
  fixes y a b c :: int
  assumes "a = a' + i" "b = b' + j" "c = c' + k"
  shows "y * 365 + a - b + c = (y - 1) * 365 + a' - b' + c' + (365 + i - j + k)"
  using assms by simp

lemma leap_cases:
  assumes "q \<Longrightarrow> p" "r \<Longrightarrow> q"
  shows "365 + (if p then 1 else 0) - (if q then 1 else 0) + (if r then 1 else 0)
    = (if p \<and> (\<not> q \<or> r) then 366 else (365 :: int))"
  by (cases p; cases q; cases r) (use assms in simp_all)

lemma days_before_year_step:
  "days_before_year (y + 1) = days_before_year y + (if is_leap y then 366 else 365)"
proof -
  have d: "y mod 100 = 0 \<Longrightarrow> y mod 4 = 0"
    using mod_mod_cancel [of 4 100 y] by simp
  have e: "y mod 400 = 0 \<Longrightarrow> y mod 100 = 0"
    using mod_mod_cancel [of 100 400 y] by simp
  note eqs = div_step [of 4 y, simplified] div_step [of 100 y, simplified] div_step [of 400 y, simplified]
  have "days_before_year (y + 1) = y * 365 + y div 4 - y div 100 + y div 400"
    by (simp add: days_before_year_def)
  also have "\<dots> = days_before_year y + (365 + (if y mod 4 = 0 then 1 else 0)
      - (if y mod 100 = 0 then 1 else 0) + (if y mod 400 = 0 then 1 else 0))"
    unfolding days_before_year_def Let_def by (rule leap_count_step; rule eqs)
  also have "365 + (if y mod 4 = 0 then 1 else 0) - (if y mod 100 = 0 then 1 else 0)
      + (if y mod 400 = 0 then 1 else 0) = (if is_leap y then 366 else (365 :: int))"
    unfolding is_leap_def by (rule leap_cases) (fact d, fact e)
  finally show ?thesis .
qed

lemma days_before_year_mono:
  assumes "y < y'"
  shows "days_before_year y + (if is_leap y then 366 else 365) \<le> days_before_year y'"
proof -
  have "y + 1 \<le> y'" using assms by simp
  then show ?thesis
  proof (induction y' rule: int_ge_induct)
    case base
    show ?case by (simp add: days_before_year_step)
  next
    case (step i)
    then show ?case by (simp add: days_before_year_step)
  qed
qed

lemma ymd2ord_year_bounds:
  assumes "valid_ymd y m d"
  shows "days_before_year y < ymd2ord y m d"
    and "ymd2ord y m d \<le> days_before_year y + (if is_leap y then 366 else 365)"
proof -
  have m: "1 \<le> m" "m \<le> 12" and d: "1 \<le> d" "d \<le> days_in_month y m"
    using assms by (auto simp: valid_ymd_def)
  have "0 \<le> days_before_month y m"
    using m by (cases rule: month_cases) (auto simp: days_before_month_def)
  with d show "days_before_year y < ymd2ord y m d" by (simp add: ymd2ord_def)
  have "days_before_month y m + days_in_month y m \<le> days_before_month y 12 + days_in_month y 12"
  proof (cases "m = 12")
    case False
    with m have "days_before_month y m + days_in_month y m \<le> days_before_month y 12"
      by (intro days_before_month_mono) auto
    then show ?thesis using days_in_month_bounds [of y 12] by simp
  qed simp
  then show "ymd2ord y m d \<le> days_before_year y + (if is_leap y then 366 else 365)"
    using d by (simp add: ymd2ord_def days_before_month_Dec)
qed

lemma ymd2ord_less:
  assumes v: "valid_ymd y m d" and v': "valid_ymd y' m' d'"
    and l: "y < y' \<or> y = y' \<and> (m < m' \<or> m = m' \<and> d < d')"
  shows "ymd2ord y m d < ymd2ord y' m' d'"
proof -
  consider (y) "y < y'" | (m) "y = y'" "m < m'" | (d) "y = y'" "m = m'" "d < d'"
    using l by blast
  then show ?thesis
  proof cases
    case y
    have "ymd2ord y m d \<le> days_before_year y'"
      using ymd2ord_year_bounds(2) [OF v] days_before_year_mono [OF y] by linarith
    then show ?thesis using ymd2ord_year_bounds(1) [OF v'] by linarith
  next
    case m
    have "days_before_month y m + days_in_month y m \<le> days_before_month y m'"
      using v v' m by (intro days_before_month_mono) (auto simp: valid_ymd_def)
    then show ?thesis using v v' m by (auto simp: ymd2ord_def valid_ymd_def)
  next
    case d
    then show ?thesis by (simp add: ymd2ord_def)
  qed
qed

instantiation date :: linorder
begin

definition less_date :: "date \<Rightarrow> date \<Rightarrow> bool" where
  "less_date a b \<longleftrightarrow> d_year a < d_year b \<or> d_year a = d_year b \<and>
     (d_month a < d_month b \<or> d_month a = d_month b \<and> d_day a < d_day b)"

definition less_eq_date :: "date \<Rightarrow> date \<Rightarrow> bool" where
  "less_eq_date a b \<longleftrightarrow> a = b \<or> a < (b :: date)"

instance
proof
  fix x y z :: date
  show "x < y \<longleftrightarrow> x \<le> y \<and> \<not> y \<le> x" and "x \<le> x"
    by (auto simp: less_date_def less_eq_date_def)
  show "x \<le> y \<Longrightarrow> y \<le> z \<Longrightarrow> x \<le> z" and "x \<le> y \<Longrightarrow> y \<le> x \<Longrightarrow> x = y"
    by (auto simp: less_date_def less_eq_date_def)
  show "x \<le> y \<or> y \<le> x"
    by (cases x; cases y) (auto simp: less_date_def less_eq_date_def)
qed

end

definition date_ordinal :: "date \<Rightarrow> int" where
  "date_ordinal a = ymd2ord (d_year a) (d_month a) (d_day a)"

lemma date_ordinal_less:
  assumes "valid_date a" "valid_date b"
  shows "date_ordinal a < date_ordinal b \<longleftrightarrow> a < b"
proof -
  have mono: "date_ordinal x < date_ordinal y" if "valid_date x" "valid_date y" "x < y" for x y
    using that by (cases x; cases y) (auto simp: date_ordinal_def less_date_def intro: ymd2ord_less)
  show ?thesis
    using assms mono [of a b] mono [of b a] by (metis less_linear order_less_asym)
qed

subsection \<open>UTC instants\<close>

text \<open>
  A \<open>datetime\<close> normalized to UTC.  \<open>utc_micros\<close> is the instant as microseconds, so that
  \<open>a - b\<close> of the code is \<open>utc_micros a - utc_micros b\<close>.
\<close>

datatype utc = Utc (u_date: date) (u_hour: int) (u_minute: int) (u_second: int) (u_micro: int)

fun valid_utc :: "utc \<Rightarrow> bool" where
  "valid_utc (Utc d h mi s us) \<longleftrightarrow>
     valid_date d \<and> 0 \<le> h \<and> h < 24 \<and> 0 \<le> mi \<and> mi < 60 \<and> 0 \<le> s \<and> s < 60 \<and> 0 \<le> us \<and> us < 1000000"

definition micros_of_day :: "utc \<Rightarrow> int" where
  "micros_of_day t = ((u_hour t * 60 + u_minute t) * 60 + u_second t) * 1000000 + u_micro t"

definition utc_micros :: "utc \<Rightarrow> int" where
  "utc_micros t = date_ordinal (u_date t) * 86400000000 + micros_of_day t"

definition days_delta :: "int \<Rightarrow> int" where
  "days_delta n = n * 86400000000"

definition hours_delta :: "int \<Rightarrow> int" where
  "hours_delta n = n * 3600000000"

definition u_clock :: "utc \<Rightarrow> int list" where
  "u_clock t = [u_hour t, u_minute t, u_second t, u_micro t]"

lemma utc_eq_iff: "a = b \<longleftrightarrow> u_date a = u_date b \<and> u_clock a = u_clock b"
  by (cases a; cases b) (auto simp: u_clock_def)

instantiation utc :: linorder
begin

definition less_utc :: "utc \<Rightarrow> utc \<Rightarrow> bool" where
  "less_utc a b \<longleftrightarrow> u_date a < u_date b \<or> u_date a = u_date b \<and> u_clock a < u_clock b"

definition less_eq_utc :: "utc \<Rightarrow> utc \<Rightarrow> bool" where
  "less_eq_utc a b \<longleftrightarrow> a = b \<or> a < (b :: utc)"

instance
proof
  fix x y z :: utc
  show "x < y \<longleftrightarrow> x \<le> y \<and> \<not> y \<le> x" and "x \<le> x"
    by (auto simp: less_utc_def less_eq_utc_def)
  show "x \<le> y \<Longrightarrow> y \<le> z \<Longrightarrow> x \<le> z" and "x \<le> y \<Longrightarrow> y \<le> x \<Longrightarrow> x = y"
    by (auto simp: less_utc_def less_eq_utc_def)
  show "x \<le> y \<or> y \<le> x"
    using utc_eq_iff [of x y] by (auto simp: less_utc_def less_eq_utc_def)
qed

end

lemma micros_of_day_bounds:
  assumes "valid_utc t"
  shows "0 \<le> micros_of_day t \<and> micros_of_day t < 86400000000"
  using assms by (cases t) (auto simp: micros_of_day_def)

lemma utc_micros_less:
  assumes "valid_utc a" "valid_utc b"
  shows "utc_micros a < utc_micros b \<longleftrightarrow> a < b"
proof -
  have mono: "utc_micros x < utc_micros y" if "valid_utc x" "valid_utc y" "x < y" for x y
  proof (cases "u_date x < u_date y")
    case True
    then have "date_ordinal (u_date x) + 1 \<le> date_ordinal (u_date y)"
      using that date_ordinal_less by (cases x; cases y) force
    then show ?thesis
      using micros_of_day_bounds [OF that(1)] micros_of_day_bounds [OF that(2)]
      by (simp add: utc_micros_def)
  next
    case False
    with that(3) have e: "u_date x = u_date y"
      and l: "u_hour x < u_hour y \<or> u_hour x = u_hour y \<and> (u_minute x < u_minute y \<or>
        u_minute x = u_minute y \<and> (u_second x < u_second y \<or> u_second x = u_second y \<and> u_micro x < u_micro y))"
      by (auto simp: less_utc_def u_clock_def)
    have b: "0 \<le> u_minute z \<and> u_minute z < 60 \<and> 0 \<le> u_second z \<and> u_second z < 60
        \<and> 0 \<le> u_micro z \<and> u_micro z < 1000000" if "valid_utc z" for z
      using that by (cases z) simp
    have "micros_of_day x < micros_of_day y"
      using l b [OF that(1)] b [OF that(2)] unfolding micros_of_day_def
      by (elim disjE conjE) simp_all
    with e show ?thesis by (simp add: utc_micros_def)
  qed
  show ?thesis
    using assms mono [of a b] mono [of b a] by (metis less_linear order_less_asym)
qed

lemma utc_micros_inject:
  "valid_utc a \<Longrightarrow> valid_utc b \<Longrightarrow> utc_micros a = utc_micros b \<longleftrightarrow> a = b"
  using utc_micros_less by (metis less_linear order_less_irrefl)

subsection \<open>From an ordinal back to a date\<close>

text \<open>
  The inverse of \<open>ymd2ord\<close>, as \<open>datetime.fromordinal\<close> computes it: 400-, 100-, 4- and
  1-year cycles, then a month estimate that is at most one too large.
\<close>

definition month_table :: "int list" where
  "month_table = [0, 31, 59, 90, 120, 151, 181, 212, 243, 273, 304, 334]"

definition month_length :: "bool \<Rightarrow> int \<Rightarrow> int" where
  "month_length leap m =
     (if m = 2 then (if leap then 29 else 28)
      else if m = 4 \<or> m = 6 \<or> m = 9 \<or> m = 11 then 30 else 31)"

definition before_month :: "bool \<Rightarrow> int \<Rightarrow> int" where
  "before_month leap m = month_table ! nat (m - 1) + (if 2 < m \<and> leap then 1 else 0)"

definition month_day :: "bool \<Rightarrow> int \<Rightarrow> int \<times> int" where
  "month_day leap n =
     (let m = (n + 50) div 32; p = before_month leap m
      in if n < p then (m - 1, n - (p - month_length leap (m - 1)) + 1) else (m, n - p + 1))"

definition ord2ymd :: "int \<Rightarrow> int \<times> int \<times> int" where
  "ord2ymd n =
     (let n = n - 1; n400 = n div 146097; n = n mod 146097;
          n100 = n div 36524; n = n mod 36524;
          n4 = n div 1461; n = n mod 1461;
          n1 = n div 365; n = n mod 365;
          y = n400 * 400 + 1 + n100 * 100 + n4 * 4 + n1
      in if n1 = 4 \<or> n100 = 4 then (y - 1, 12, 31)
         else (y, month_day (n1 = 3 \<and> (n4 \<noteq> 24 \<or> n100 = 3)) n))"

lemma days_in_month_length: "days_in_month y m = month_length (is_leap y) m"
  by (simp add: days_in_month_def month_length_def)

lemma days_before_month_before: "days_before_month y m = before_month (is_leap y) m"
  by (simp add: days_before_month_def before_month_def month_table_def)

lemma month_day_table:
  "list_all (\<lambda>leap. list_all (\<lambda>m. list_all (\<lambda>d.
     month_day leap (before_month leap m + d - 1) = (m, d) \<and>
     (before_month leap m + d - 1 = 365 \<longrightarrow> m = 12 \<and> d = 31))
     [1..month_length leap m]) [1..12]) [False, True]"
  by code_simp

lemma month_day_inverse:
  assumes "1 \<le> m" "m \<le> 12" "1 \<le> d" "d \<le> month_length leap m"
  shows "month_day leap (before_month leap m + d - 1) = (m, d)"
    and "before_month leap m + d - 1 = 365 \<Longrightarrow> m = 12 \<and> d = 31"
proof -
  have "\<forall>leap\<in>set [False, True]. \<forall>m\<in>{1..12}. \<forall>d\<in>{1..month_length leap m}.
      month_day leap (before_month leap m + d - 1) = (m, d) \<and>
      (before_month leap m + d - 1 = 365 \<longrightarrow> m = 12 \<and> d = 31)"
    using month_day_table by (simp only: list_all_iff set_upto)
  moreover have "leap \<in> set [False, True]" "m \<in> {1..12}" "d \<in> {1..month_length leap m}"
    using assms by auto
  ultimately have "month_day leap (before_month leap m + d - 1) = (m, d) \<and>
      (before_month leap m + d - 1 = 365 \<longrightarrow> m = 12 \<and> d = 31)"
    by blast
  then show "month_day leap (before_month leap m + d - 1) = (m, d)"
    and "before_month leap m + d - 1 = 365 \<Longrightarrow> m = 12 \<and> d = 31"
    by blast+
qed

text \<open>A year number as 400-, 100- and 4-year cycles.\<close>

lemma year_cycles:
  fixes p :: int
  assumes "p = 400 * a + 100 * b + 4 * c + e" "0 \<le> b" "b \<le> 3" "0 \<le> c" "c \<le> 24" "0 \<le> e" "e \<le> 3"
  shows "p div 4 = 100 * a + 25 * b + c" "p mod 4 = e"
    "p div 100 = 4 * a + b" "p mod 100 = 4 * c + e" "p div 400 = a" "p mod 400 = 100 * b + 4 * c + e"
proof -
  have f: "p = 4 * (100 * a + 25 * b + c) + e" "p = 100 * (4 * a + b) + (4 * c + e)"
    "p = 400 * a + (100 * b + 4 * c + e)"
    using assms(1) by simp_all
  show "p div 4 = 100 * a + 25 * b + c"
    by (rule int_div_pos_eq [OF f(1)]) (use assms(6,7) in simp_all)
  show "p mod 4 = e"
    by (rule int_mod_pos_eq [OF f(1)]) (use assms(6,7) in simp_all)
  show "p div 100 = 4 * a + b"
    by (rule int_div_pos_eq [OF f(2)]) (use assms(2-) in simp_all)
  show "p mod 100 = 4 * c + e"
    by (rule int_mod_pos_eq [OF f(2)]) (use assms(2-) in simp_all)
  show "p div 400 = a"
    by (rule int_div_pos_eq [OF f(3)]) (use assms(2-) in simp_all)
  show "p mod 400 = 100 * b + 4 * c + e"
    by (rule int_mod_pos_eq [OF f(3)]) (use assms(2-) in simp_all)
qed

lemma year_cycles_obtain:
  fixes p :: int
  obtains a b c e where "p = 400 * a + 100 * b + 4 * c + e"
    "0 \<le> b" "b \<le> 3" "0 \<le> c" "c \<le> 24" "0 \<le> e" "e \<le> 3"
proof -
  define q where "q = p mod 400"
  define s where "s = q mod 100"
  have q: "0 \<le> q" "q < 400" and s: "0 \<le> s" "s < 100" by (simp_all add: q_def s_def)
  have b: "0 \<le> q div 100" "q div 100 \<le> 3"
    using q zdiv_mono1 [of q 399 100] by (simp_all add: pos_imp_zdiv_nonneg_iff)
  have c: "0 \<le> s div 4" "s div 4 \<le> 24"
    using s zdiv_mono1 [of s 99 4] by (simp_all add: pos_imp_zdiv_nonneg_iff)
  have "p = 400 * (p div 400) + q" "q = 100 * (q div 100) + s" "s = 4 * (s div 4) + s mod 4"
    by (simp_all add: q_def s_def)
  then have "p = 400 * (p div 400) + 100 * (q div 100) + 4 * (s div 4) + s mod 4"
    by linarith
  moreover have "0 \<le> s mod 4" "s mod 4 \<le> 3" by simp_all
  ultimately show thesis using b c that by blast
qed

lemma mod_succ_0:
  fixes p n :: int
  assumes "1 < n"
  shows "(p + 1) mod n = 0 \<longleftrightarrow> p mod n = n - 1"
proof (cases "p mod n = n - 1")
  case True
  have "p + 1 = n * (p div n + 1) + 0"
    using True mult_div_mod_eq [of n p] by (simp only: distrib_left)
  then have "(p + 1) mod n = 0"
    by (rule int_mod_pos_eq) (use assms in simp_all)
  with True show ?thesis by simp
next
  case False
  have b: "0 \<le> p mod n" "p mod n < n" using assms by simp_all
  have "p + 1 = n * (p div n) + (p mod n + 1)"
    using mult_div_mod_eq [of n p] by simp
  then have "(p + 1) mod n = p mod n + 1"
    by (rule int_mod_pos_eq) (use b False in simp_all)
  with b False show ?thesis by simp
qed

lemma leap_cycles:
  fixes p :: int
  assumes "p = 400 * a + 100 * b + 4 * c + e" "0 \<le> b" "b \<le> 3" "0 \<le> c" "c \<le> 24" "0 \<le> e" "e \<le> 3"
  shows "is_leap (p + 1) \<longleftrightarrow> e = 3 \<and> (c \<noteq> 24 \<or> b = 3)"
proof -
  note y = year_cycles [OF assms]
  have s: "(p + 1) mod n = 0 \<longleftrightarrow> p mod n = n - 1" if "1 < n" for n
    using that by (rule mod_succ_0)
  have "(p + 1) mod 4 = 0 \<longleftrightarrow> e = 3" "(p + 1) mod 100 = 0 \<longleftrightarrow> 4 * c + e = 99"
    "(p + 1) mod 400 = 0 \<longleftrightarrow> 100 * b + 4 * c + e = 399"
    using s [of 4] s [of 100] s [of 400] y by simp_all
  then have "is_leap (p + 1) \<longleftrightarrow> e = 3 \<and> (4 * c + e \<noteq> 99 \<or> 100 * b + 4 * c + e = 399)"
    by (simp only: is_leap_def)
  also have "\<dots> \<longleftrightarrow> e = 3 \<and> (c \<noteq> 24 \<or> b = 3)"
    using assms(2-) by auto
  finally show ?thesis .
qed

lemma days_before_year_cycles:
  fixes p :: int
  assumes "p = 400 * a + 100 * b + 4 * c + e" "0 \<le> b" "b \<le> 3" "0 \<le> c" "c \<le> 24" "0 \<le> e" "e \<le> 3"
  shows "days_before_year (p + 1) = 146097 * a + 36524 * b + 1461 * c + 365 * e"
proof -
  have "days_before_year (p + 1) = p * 365 + p div 4 - p div 100 + p div 400"
    by (simp add: days_before_year_def)
  also have "\<dots> = p * 365 + (100 * a + 25 * b + c) - (4 * a + b) + a"
    by (simp only: year_cycles [OF assms])
  finally show ?thesis using assms(1) by (simp add: algebra_simps)
qed

text \<open>Dividing a day number by the cycle lengths, one level at a time.\<close>

lemma cycle_digits:
  fixes a b c e k :: int
  assumes "0 \<le> k" "k < 365" "0 \<le> e" "e \<le> 4" "0 \<le> c" "c \<le> 24" "0 \<le> b" "b \<le> 4"
    and r3: "365 * e + k < 1461" and r2: "1461 * c + (365 * e + k) < 36524"
    and r1: "36524 * b + (1461 * c + (365 * e + k)) < 146097"
  shows "ord2ymd (146097 * a + (36524 * b + (1461 * c + (365 * e + k))) + 1) =
    (let y = a * 400 + 1 + b * 100 + c * 4 + e
     in if e = 4 \<or> b = 4 then (y - 1, 12, 31)
        else (y, month_day (e = 3 \<and> (c \<noteq> 24 \<or> b = 3)) k))"
proof -
  define x1 where "x1 = 365 * e + k"
  define x2 where "x2 = 1461 * c + x1"
  define x3 where "x3 = 36524 * b + x2"
  define x4 where "x4 = 146097 * a + x3"
  have n: "0 \<le> x1" "0 \<le> x2" "0 \<le> x3"
    using assms by (simp_all add: x1_def x2_def x3_def)
  have d4: "x4 div 146097 = a"
    by (rule int_div_pos_eq [OF x4_def]) (use n r1 in \<open>simp_all add: x1_def x2_def x3_def\<close>)
  have m4: "x4 mod 146097 = x3"
    by (rule int_mod_pos_eq [OF x4_def]) (use n r1 in \<open>simp_all add: x1_def x2_def x3_def\<close>)
  have d3: "x3 div 36524 = b"
    by (rule int_div_pos_eq [OF x3_def]) (use n r2 in \<open>simp_all add: x1_def x2_def x3_def\<close>)
  have m3: "x3 mod 36524 = x2"
    by (rule int_mod_pos_eq [OF x3_def]) (use n r2 in \<open>simp_all add: x1_def x2_def x3_def\<close>)
  have d2: "x2 div 1461 = c"
    by (rule int_div_pos_eq [OF x2_def]) (use n r3 in \<open>simp_all add: x1_def x2_def x3_def\<close>)
  have m2: "x2 mod 1461 = x1"
    by (rule int_mod_pos_eq [OF x2_def]) (use n r3 in \<open>simp_all add: x1_def x2_def x3_def\<close>)
  have d1: "x1 div 365 = e"
    by (rule int_div_pos_eq [OF x1_def]) (use assms(1,2) in \<open>simp_all add: x1_def x2_def x3_def\<close>)
  have m1: "x1 mod 365 = k"
    by (rule int_mod_pos_eq [OF x1_def]) (use assms(1,2) in \<open>simp_all add: x1_def x2_def x3_def\<close>)
  show ?thesis
    unfolding ord2ymd_def x1_def [symmetric] x2_def [symmetric] x3_def [symmetric] x4_def [symmetric]
    by (simp add: Let_def d1 d2 d3 d4 m1 m2 m3 m4)
qed

theorem ord2ymd_ymd2ord:
  assumes v: "valid_ymd y m d"
  shows "ord2ymd (ymd2ord y m d) = (y, m, d)"
proof -
  obtain a b c e where p: "y - 1 = 400 * a + 100 * b + 4 * c + e"
    and r: "0 \<le> b" "b \<le> 3" "0 \<le> c" "c \<le> 24" "0 \<le> e" "e \<le> 3"
    by (rule year_cycles_obtain)
  define leap where "leap = is_leap y"
  define k where "k = before_month leap m + d - 1"
  have leap: "leap \<longleftrightarrow> e = 3 \<and> (c \<noteq> 24 \<or> b = 3)"
    using leap_cycles [OF p r] by (simp add: leap_def)
  have ord: "ymd2ord y m d = 146097 * a + (36524 * b + (1461 * c + (365 * e + k))) + 1"
    using days_before_year_cycles [OF p r]
    by (simp add: ymd2ord_def k_def leap_def days_before_month_before)
  have mb: "1 \<le> m" "m \<le> 12" "1 \<le> d" "d \<le> month_length leap m"
    using v by (auto simp: valid_ymd_def leap_def days_in_month_length)
  note md = month_day_inverse [OF mb, folded k_def]
  have k: "0 \<le> k" "k \<le> 365" "\<not> leap \<Longrightarrow> k < 365"
    using ymd2ord_year_bounds [OF v]
    by (auto simp: ymd2ord_def k_def leap_def days_before_month_before split: if_splits)
  show ?thesis
  proof (cases "k = 365")
    case False
    with k have k': "k < 365" by simp
    have "ord2ymd (ymd2ord y m d) = (a * 400 + 1 + b * 100 + c * 4 + e, month_day leap k)"
      unfolding ord using r k(1) k' leap by (subst cycle_digits) (simp_all add: Let_def)
    also have "\<dots> = (y, m, d)" using p md(1) by simp
    finally show ?thesis .
  next
    case True
    then have l: leap and md': "m = 12" "d = 31" using k md(2) by auto
    from l leap have e: "e = 3" and cb: "c \<noteq> 24 \<or> b = 3" by auto
    show ?thesis
    proof (cases "c = 24")
      case False
      with r have c: "c \<le> 23" by simp
      have "ymd2ord y m d = 146097 * a + (36524 * b + (1461 * c + (365 * 4 + 0))) + 1"
        using ord e True by simp
      then have "ord2ymd (ymd2ord y m d) = (a * 400 + 1 + b * 100 + c * 4 + 4 - 1, 12, 31)"
        using r c by (simp only:) (subst cycle_digits, simp_all add: Let_def)
      with p e md' show ?thesis by simp
    next
      case True
      with cb have b: "b = 3" by simp
      have "ymd2ord y m d = 146097 * a + (36524 * 4 + (1461 * 0 + (365 * 0 + 0))) + 1"
        using ord e True b \<open>k = 365\<close> by simp
      then have "ord2ymd (ymd2ord y m d) = (a * 400 + 1 + 4 * 100 + 0 * 4 + 0 - 1, 12, 31)"
        by (simp only:) (subst cycle_digits, simp_all add: Let_def)
      with p e b True md' show ?thesis by simp
    qed
  qed
qed

end
