(* ===== verification/Timestamp.thy ===== *)
theory Timestamp
  imports Py_Time
begin

text \<open>
  The text forms of dates and instants.  \<open>format_utc\<close> is \<open>collector/schema.py:format_utc\<close>:
  fixed-width ISO-8601 in UTC with microseconds and a \<open>Z\<close>.  \<open>parse_datetime\<close> and
  \<open>parse_date\<close> are \<open>datetime.fromisoformat\<close> and \<open>date.fromisoformat\<close> on the extended
  calendar form (\<open>YYYY-MM-DD\<close>, one separator, \<open>HH:MM:SS\<close>, an optional fraction, an
  optional \<open>Z\<close> or \<open>+HH:MM\<close>); the week, ordinal and basic forms, which no writer of the
  program emits, are outside the model and read as \<open>None\<close>.
\<close>

subsection \<open>Writing\<close>

definition field :: "nat \<Rightarrow> int \<Rightarrow> string" where
  "field w i = fixed_digits w (nat i)"

definition iso_date :: "date \<Rightarrow> string" where
  "iso_date d = field 4 (d_year d) @ ''-'' @ field 2 (d_month d) @ ''-'' @ field 2 (d_day d)"

definition format_utc :: "utc \<Rightarrow> string" where
  "format_utc t =
     iso_date (u_date t) @ ''T'' @ field 2 (u_hour t) @ '':'' @ field 2 (u_minute t) @ '':'' @
     field 2 (u_second t) @ ''.'' @ field 6 (u_micro t) @ ''Z''"

lemma length_field [simp]: "length (field w i) = w"
  by (simp add: field_def)

lemma length_iso_date [simp]: "length (iso_date d) = 10"
  by (simp add: iso_date_def)

lemma length_format_utc [simp]: "length (format_utc t) = 27"
  by (simp add: format_utc_def)

lemma field_less:
  "0 \<le> i \<Longrightarrow> i < 10 ^ w \<Longrightarrow> 0 \<le> j \<Longrightarrow> j < 10 ^ w \<Longrightarrow> field w i < field w j \<longleftrightarrow> i < j"
  unfolding field_def by (subst fixed_digits_less) (auto simp: nat_less_iff)

lemma field_inject:
  "0 \<le> i \<Longrightarrow> i < 10 ^ w \<Longrightarrow> 0 \<le> j \<Longrightarrow> j < 10 ^ w \<Longrightarrow> field w i = field w j \<longleftrightarrow> i = j"
  unfolding field_def by (subst fixed_digits_inject) (auto simp: nat_less_iff)

lemma valid_date_ranges:
  "valid_date d \<Longrightarrow> 0 \<le> d_year d \<and> d_year d < 10 ^ 4 \<and> 0 \<le> d_month d \<and> d_month d < 10 ^ 2
     \<and> 0 \<le> d_day d \<and> d_day d < 10 ^ 2"
  using days_in_month_bounds [of "d_year d" "d_month d"] by (cases d) (auto simp: valid_ymd_def)

lemma valid_utc_ranges:
  "valid_utc t \<Longrightarrow> valid_date (u_date t) \<and> 0 \<le> u_hour t \<and> u_hour t < 10 ^ 2 \<and> 0 \<le> u_minute t
     \<and> u_minute t < 10 ^ 2 \<and> 0 \<le> u_second t \<and> u_second t < 10 ^ 2 \<and> 0 \<le> u_micro t \<and> u_micro t < 10 ^ 6"
  by (cases t) auto

lemma iso_date_less:
  assumes "valid_date a" "valid_date b"
  shows "iso_date a < iso_date b \<longleftrightarrow> a < b"
  using assms [THEN valid_date_ranges]
  by (simp add: iso_date_def lex_append field_less field_inject less_date_def)

lemma iso_date_inject:
  assumes "valid_date a" "valid_date b"
  shows "iso_date a = iso_date b \<longleftrightarrow> a = b"
  using iso_date_less [OF assms] iso_date_less [OF assms(2,1)] by (metis less_irrefl linorder_neqE)

lemma format_utc_less:
  assumes "valid_utc a" "valid_utc b"
  shows "format_utc a < format_utc b \<longleftrightarrow> a < b"
  using assms [THEN valid_utc_ranges]
  by (simp add: format_utc_def lex_append field_less field_inject less_utc_def u_clock_def
      iso_date_less iso_date_inject)

lemma format_utc_inject:
  assumes "valid_utc a" "valid_utc b"
  shows "format_utc a = format_utc b \<longleftrightarrow> a = b"
  using format_utc_less [OF assms] format_utc_less [OF assms(2,1)] by (metis less_irrefl linorder_neqE)

lemma format_utc_le:
  assumes "valid_utc a" "valid_utc b"
  shows "format_utc a \<le> format_utc b \<longleftrightarrow> a \<le> b"
  using format_utc_less [OF assms(2,1)] by (metis linorder_not_less)

subsection \<open>Reading\<close>

definition num_field :: "string \<Rightarrow> int option" where
  "num_field s = (if s \<noteq> [] \<and> list_all is_digit s then Some (int (digits_val s)) else None)"

lemma num_field_field: "0 < w \<Longrightarrow> 0 \<le> i \<Longrightarrow> i < 10 ^ w \<Longrightarrow> num_field (field w i) = Some i"
  using fixed_digits_all_digits [of w "nat i"] length_field [of w i]
  by (auto simp: num_field_def field_def list_all_iff digits_val_fixed nat_less_iff
      simp del: length_fixed_digits length_field)

definition parse_date :: "string \<Rightarrow> date option" where
  "parse_date s =
     (if length s = 10 \<and> s ! 4 = CHR ''-'' \<and> s ! 7 = CHR ''-'' then
        (case (num_field (take 4 s), num_field (take 2 (drop 5 s)), num_field (drop 8 s)) of
           (Some y, Some m, Some d) \<Rightarrow> if valid_ymd y m d then Some (Date y m d) else None
         | _ \<Rightarrow> None)
      else None)"

lemma parse_date_iso: "valid_date d \<Longrightarrow> parse_date (iso_date d) = Some d"
  using valid_date_ranges [of d]
  by (cases d) (simp add: parse_date_def iso_date_def num_field_field nth_append)

text \<open>A parsed \<open>datetime\<close>: its local fields, and its offset in microseconds when it has one.\<close>

datatype py_datetime = Naive utc | Aware utc int

definition split_fraction :: "string \<Rightarrow> (int \<times> string) option" where
  "split_fraction s =
     (case s of
        [] \<Rightarrow> Some (0, [])
      | c # cs \<Rightarrow>
          if c = CHR ''.'' \<or> c = CHR '','' then
            let ds = takeWhile is_digit cs
            in if ds = [] then None
               else Some (int (digits_val (take 6 (ds @ replicate 6 (CHR ''0'')))), dropWhile is_digit cs)
          else Some (0, s))"

definition parse_offset :: "string \<Rightarrow> int option option" where
  "parse_offset s =
     (if s = [] then Some None
      else if s = ''Z'' then Some (Some 0)
      else if length s = 6 \<and> (hd s = CHR ''+'' \<or> hd s = CHR ''-'') \<and> s ! 3 = CHR '':'' then
        (case (num_field (take 2 (drop 1 s)), num_field (drop 4 s)) of
           (Some h, Some m) \<Rightarrow>
             if h < 24 \<and> m < 60
             then Some (Some ((if hd s = CHR ''-'' then -1 else 1) * (h * 60 + m) * 60000000))
             else None
         | _ \<Rightarrow> None)
      else None)"

definition parse_clock :: "string \<Rightarrow> (int \<times> int \<times> int) option" where
  "parse_clock s =
     (if length s = 8 \<and> s ! 2 = CHR '':'' \<and> s ! 5 = CHR '':'' then
        (case (num_field (take 2 s), num_field (take 2 (drop 3 s)), num_field (drop 6 s)) of
           (Some h, Some m, Some sec) \<Rightarrow>
             if h < 24 \<and> m < 60 \<and> sec < 60 then Some (h, m, sec) else None
         | _ \<Rightarrow> None)
      else None)"

definition parse_datetime :: "string \<Rightarrow> py_datetime option" where
  "parse_datetime s =
     (if length s < 19 then None else
      case (parse_date (take 10 s), parse_clock (take 8 (drop 11 s)), split_fraction (drop 19 s)) of
        (Some d, Some (h, m, sec), Some (us, rest)) \<Rightarrow>
          (case parse_offset rest of
             Some None \<Rightarrow> Some (Naive (Utc d h m sec us))
           | Some (Some off) \<Rightarrow> Some (Aware (Utc d h m sec us) off)
           | None \<Rightarrow> None)
      | _ \<Rightarrow> None)"

text \<open>\<open>astimezone(UTC)\<close>; \<open>None\<close> is the OverflowError beyond years 1 to 9999.\<close>

definition utc_of_micros :: "int \<Rightarrow> utc option" where
  "utc_of_micros n =
     (let day = n div 86400000000; us = n mod 86400000000;
          s = us div 1000000; mi = s div 60; (y, m, d) = ord2ymd day
      in if 1 \<le> day \<and> day \<le> 3652059
         then Some (Utc (Date y m d) (mi div 60) (mi mod 60) (s mod 60) (us mod 1000000))
         else None)"

definition to_utc :: "utc \<Rightarrow> int \<Rightarrow> utc option" where
  "to_utc t off = (if off = 0 then Some t else utc_of_micros (utc_micros t - off))"

lemma takeWhile_append_stop: "list_all P xs \<Longrightarrow> \<not> P y \<Longrightarrow> takeWhile P (xs @ y # ys) = xs"
  by (induction xs) auto

lemma dropWhile_append_stop: "list_all P xs \<Longrightarrow> \<not> P y \<Longrightarrow> dropWhile P (xs @ y # ys) = y # ys"
  by (induction xs) auto

lemma field_digits: "list_all is_digit (field w i)"
  using fixed_digits_all_digits [of w "nat i"] by (simp add: field_def list_all_iff)

lemma Z_not_digit [simp]: "\<not> is_digit (CHR ''Z'')"
  by (simp add: is_digit_def)

lemma split_fraction_field:
  assumes "0 \<le> i" "i < 10 ^ 6"
  shows "split_fraction (CHR ''.'' # field 6 i @ ''Z'') = Some (i, ''Z'')"
proof -
  have "int (digits_val (field 6 i)) = i" "field 6 i \<noteq> []"
    using num_field_field [of 6 i] assms by (auto simp: num_field_def split: if_splits)
  then show ?thesis
    by (simp add: split_fraction_def takeWhile_append_stop dropWhile_append_stop field_digits)
qed

lemma parse_clock_fields:
  assumes "0 \<le> h" "h < 24" "0 \<le> m" "m < 60" "0 \<le> s" "s < 60"
  shows "parse_clock (field 2 h @ CHR '':'' # field 2 m @ CHR '':'' # field 2 s) = Some (h, m, s)"
  using assms by (simp add: parse_clock_def num_field_field nth_append)

theorem parse_datetime_format:
  assumes "valid_utc t"
  shows "parse_datetime (format_utc t) = Some (Aware t 0)"
proof -
  obtain d h m s us where t: "t = Utc d h m s us" by (cases t)
  let ?clock = "field 2 h @ CHR '':'' # field 2 m @ CHR '':'' # field 2 s"
  have f: "format_utc t = iso_date d @ CHR ''T'' # ?clock @ CHR ''.'' # field 6 us @ ''Z''"
    by (simp add: format_utc_def t)
  have a: "take 10 (format_utc t) = iso_date d" "take 8 (drop 11 (format_utc t)) = ?clock"
    "drop 19 (format_utc t) = CHR ''.'' # field 6 us @ ''Z''"
    unfolding f by simp_all
  have b: "parse_date (iso_date d) = Some d" "parse_clock ?clock = Some (h, m, s)"
    "split_fraction (CHR ''.'' # field 6 us @ ''Z'') = Some (us, ''Z'')"
    using assms by (simp_all add: t parse_date_iso parse_clock_fields split_fraction_field)
  show ?thesis
    unfolding parse_datetime_def a by (simp add: b parse_offset_def t)
qed

subsection \<open>The instant a stored text denotes\<close>

text \<open>
  \<open>attribution/policy.py:instant\<close> reads a stored timestamp as an aware datetime.  A stored
  text always parses; the value on other texts is the exception the code would raise.
\<close>

definition instant :: "string \<Rightarrow> utc option" where
  "instant text =
     (case parse_datetime text of
        Some (Aware t off) \<Rightarrow> to_utc t off
      | _ \<Rightarrow> None)"

lemma instant_format [simp]: "valid_utc t \<Longrightarrow> instant (format_utc t) = Some t"
  by (simp add: instant_def parse_datetime_format to_utc_def)

text \<open>
  \<open>is_stored_timestamp\<close>: \<open>re.match\<close> of digits, where \<open>\<backslash>d\<close> is any decimal digit of Unicode, with \<open>$\<close>, which
  also matches before a final newline.
\<close>

primrec stored_shape :: "(nat \<times> char) list \<Rightarrow> string \<Rightarrow> string option" where
  "stored_shape [] s = Some s"
| "stored_shape (f # fs) s =
     Option.bind (eat_digits (fst f) s) (\<lambda>t. case t of [] \<Rightarrow> None | c # u \<Rightarrow> if c = snd f then stored_shape fs u else None)"

definition is_stored_timestamp :: "string \<Rightarrow> bool" where
  "is_stored_timestamp s \<longleftrightarrow>
     stored_shape [(4, CHR ''-''), (2, CHR ''-''), (2, CHR ''T''), (2, CHR '':''), (2, CHR '':''), (2, CHR ''.''), (6, CHR ''Z'')] s
       \<in> {Some [], Some [CHR 0x0A]}"

end
