(* ===== verification/Json.thy ===== *)
theory Json
  imports Decimal
begin

text \<open>
  JSON values, \<open>collector/canonical.py:canonical_text\<close> and Python's \<open>json.loads\<close>.  An object
  is the association list of a dict in insertion order.  A float is kept as its number token:
  no strict model of the program admits one, so its value is never used.  The text is the
  UTF-8 bytes of \<open>canonical_bytes\<close>.  Main results: the canonical text reads back as the same
  value with its keys sorted (\<open>json_loads_canonical\<close>), so two values have one canonical text
  exactly when they differ in key order only (\<open>canonical_text_eq_iff\<close>).
\<close>

datatype json =
    JNull
  | JBool bool
  | JInt int
  | JFloat string
  | JStr string
  | JList "json list"
  | JObj "(string \<times> json) list"

subsection \<open>\<open>json.dumps(..., sort_keys=True, separators=(",", ":"), ensure_ascii=False)\<close>\<close>

definition hex_digit :: "nat \<Rightarrow> char" where
  "hex_digit n = (if n < 10 then char_of (48 + n) else char_of (87 + n))"

definition esc_char :: "char \<Rightarrow> string" where
  "esc_char c =
     (if c = CHR 0x22 then [CHR 0x5C, CHR 0x22]
      else if c = CHR 0x5C then [CHR 0x5C, CHR 0x5C]
      else if c = CHR 0x0A then [CHR 0x5C, CHR ''n'']
      else if c = CHR 0x0D then [CHR 0x5C, CHR ''r'']
      else if c = CHR 0x09 then [CHR 0x5C, CHR ''t'']
      else if c = CHR 0x0C then [CHR 0x5C, CHR ''f'']
      else if c = CHR 0x08 then [CHR 0x5C, CHR ''b'']
      else if (of_char c :: nat) < 32 then
        [CHR 0x5C, CHR ''u'', CHR ''0'', CHR ''0'', hex_digit (of_char c div 16), hex_digit (of_char c mod 16)]
      else [c])"

definition quote :: "string \<Rightarrow> string" where
  "quote s = CHR 0x22 # concat (map esc_char s) @ [CHR 0x22]"

fun commas :: "string list \<Rightarrow> string" where
  "commas [] = []"
| "commas [x] = x"
| "commas (x # y # xs) = x @ CHR '','' # commas (y # xs)"

definition member_text :: "string \<times> string \<Rightarrow> string" where
  "member_text kv = quote (fst kv) @ CHR '':'' # snd kv"

lemma json_member_size [termination_simp]: "(k, v) \<in> set kvs \<Longrightarrow> size v < Suc (size_list (\<lambda>p. Suc (size (snd p))) kvs)"
  by (induction kvs) auto

fun canonical_text :: "json \<Rightarrow> string" where
  "canonical_text JNull = ''null''"
| "canonical_text (JBool b) = (if b then ''true'' else ''false'')"
| "canonical_text (JInt i) = int_text i"
| "canonical_text (JFloat s) = s"
| "canonical_text (JStr s) = quote s"
| "canonical_text (JList xs) = CHR ''['' # commas (map canonical_text xs) @ '']''"
| "canonical_text (JObj kvs) =
     CHR ''{'' # commas (map member_text (sort_key fst (map (\<lambda>(k, v). (k, canonical_text v)) kvs))) @ ''}''"

text \<open>The value with every object's keys sorted.\<close>

fun jnorm :: "json \<Rightarrow> json" where
  "jnorm (JList xs) = JList (map jnorm xs)"
| "jnorm (JObj kvs) = JObj (sort_key fst (map (\<lambda>(k, v). (k, jnorm v)) kvs))"
| "jnorm j = j"

text \<open>A value the schema layer can produce: dict keys are unique and there is no float.\<close>

fun plain :: "json \<Rightarrow> bool" where
  "plain (JFloat s) = False"
| "plain (JList xs) = (\<forall>x\<in>set xs. plain x)"
| "plain (JObj kvs) = (distinct (map fst kvs) \<and> (\<forall>(k, v)\<in>set kvs. plain v))"
| "plain j = True"

subsection \<open>\<open>json.loads\<close>\<close>

definition hex_val :: "char \<Rightarrow> nat option" where
  "hex_val c =
     (let n = of_char c :: nat
      in if 48 \<le> n \<and> n \<le> 57 then Some (n - 48)
         else if 97 \<le> n \<and> n \<le> 102 then Some (n - 87)
         else if 65 \<le> n \<and> n \<le> 70 then Some (n - 55) else None)"

definition hex4 :: "string \<Rightarrow> nat option" where
  "hex4 s =
     (if length s < 4 then None else
      case (hex_val (s ! 0), hex_val (s ! 1), hex_val (s ! 2), hex_val (s ! 3)) of
        (Some a, Some b, Some c, Some d) \<Rightarrow> Some (((a * 16 + b) * 16 + c) * 16 + d)
      | _ \<Rightarrow> None)"

definition utf8 :: "nat \<Rightarrow> string" where
  "utf8 n =
     (if n < 128 then [char_of n]
      else if n < 2048 then [char_of (192 + n div 64), char_of (128 + n mod 64)]
      else if n < 65536 then
        [char_of (224 + n div 4096), char_of (128 + n div 64 mod 64), char_of (128 + n mod 64)]
      else [char_of (240 + n div 262144), char_of (128 + n div 4096 mod 64),
            char_of (128 + n div 64 mod 64), char_of (128 + n mod 64)])"

text \<open>
  The character after a backslash; \<open>\<backslash>u\<close> reads four hexadecimal digits, and a high surrogate
  its low partner.  A lone surrogate has no UTF-8 form and is outside the model (\<open>None\<close>).
\<close>

definition simple_escape :: "char \<Rightarrow> char option" where
  "simple_escape c =
     (if c = CHR 0x22 \<or> c = CHR 0x5C \<or> c = CHR ''/'' then Some c
      else if c = CHR ''n'' then Some (CHR 0x0A)
      else if c = CHR ''r'' then Some (CHR 0x0D)
      else if c = CHR ''t'' then Some (CHR 0x09)
      else if c = CHR ''f'' then Some (CHR 0x0C)
      else if c = CHR ''b'' then Some (CHR 0x08) else None)"

definition unicode_escape :: "string \<Rightarrow> (string \<times> nat) option" where
  "unicode_escape s =
     (case hex4 s of
        None \<Rightarrow> None
      | Some hi \<Rightarrow>
          if hi < 55296 \<or> 57343 < hi then Some (utf8 hi, 4)
          else if hi < 56320 \<and> 10 \<le> length s \<and> s ! 4 = CHR 0x5C \<and> s ! 5 = CHR ''u'' then
            (case hex4 (drop 6 s) of
               Some lo \<Rightarrow>
                 if 56320 \<le> lo \<and> lo \<le> 57343
                 then Some (utf8 (65536 + (hi - 55296) * 1024 + (lo - 56320)), 10) else None
             | None \<Rightarrow> None)
          else None)"

definition prepend :: "'a list \<Rightarrow> ('a list \<times> 'b) option \<Rightarrow> ('a list \<times> 'b) option" where
  "prepend xs r = map_option (\<lambda>(ys, rest). (xs @ ys, rest)) r"

function parse_string :: "string \<Rightarrow> (string \<times> string) option" where
  "parse_string [] = None"
| "parse_string (c # cs) =
     (if c = CHR 0x22 then Some ([], cs)
      else if c = CHR 0x5C then
        (case cs of
           [] \<Rightarrow> None
         | e # r \<Rightarrow>
             if e = CHR ''u'' then
               (case unicode_escape r of
                  None \<Rightarrow> None
                | Some (u, n) \<Rightarrow> prepend u (parse_string (drop n r)))
             else
               (case simple_escape e of
                  None \<Rightarrow> None
                | Some x \<Rightarrow> prepend [x] (parse_string r)))
      else if (of_char c :: nat) < 32 then None
      else prepend [c] (parse_string cs))"
  by pat_completeness auto
termination
  by (relation "measure length") auto

definition is_ws :: "char \<Rightarrow> bool" where
  "is_ws c \<longleftrightarrow> c = CHR 0x20 \<or> c = CHR 0x09 \<or> c = CHR 0x0A \<or> c = CHR 0x0D"

definition skip_ws :: "string \<Rightarrow> string" where
  "skip_ws s = dropWhile is_ws s"

definition starts :: "string \<Rightarrow> string \<Rightarrow> bool" where
  "starts p s \<longleftrightarrow> take (length p) s = p"

text \<open>The number token: an integer, or (with a fraction or an exponent) a float.\<close>

definition frac_part :: "string \<Rightarrow> string" where
  "frac_part s =
     (case s of
        c # cs \<Rightarrow> if c = CHR ''.'' \<and> takeWhile is_digit cs \<noteq> [] then c # takeWhile is_digit cs else []
      | [] \<Rightarrow> [])"

definition exp_part :: "string \<Rightarrow> string" where
  "exp_part s =
     (case s of
        c # cs \<Rightarrow>
          if c = CHR ''e'' \<or> c = CHR ''E'' then
            let sign = (case cs of d # _ \<Rightarrow> if d = CHR ''+'' \<or> d = CHR ''-'' then [d] else [] | [] \<Rightarrow> []);
                ds = takeWhile is_digit (drop (length sign) cs)
            in if ds = [] then [] else c # sign @ ds
          else []
      | [] \<Rightarrow> [])"

definition number_digits :: "string \<Rightarrow> string" where
  "number_digits r = (if starts ''0'' r then ''0'' else takeWhile is_digit r)"

definition parse_number :: "string \<Rightarrow> (json \<times> string) option" where
  "parse_number s =
     (let sign = (if starts ''-'' s then ''-'' else []);
          r = drop (length sign) s;
          ds = number_digits r;
          f = frac_part (drop (length ds) r);
          e = exp_part (drop (length ds + length f) r);
          rest = drop (length ds + length f + length e) r
      in if ds = [] then None
         else if f = [] \<and> e = [] then
           Some (JInt (if sign = [] then int (digits_val ds) else - int (digits_val ds)), rest)
         else Some (JFloat (sign @ ds @ f @ e), rest))"

text \<open>A dict built from the pairs read: a repeated key keeps its place and its last value.\<close>

fun dict_set :: "string \<Rightarrow> json \<Rightarrow> (string \<times> json) list \<Rightarrow> (string \<times> json) list" where
  "dict_set k v [] = [(k, v)]"
| "dict_set k v ((k', v') # d) = (if k' = k then (k, v) # d else (k', v') # dict_set k v d)"

definition dict_of :: "(string \<times> json) list \<Rightarrow> (string \<times> json) list" where
  "dict_of kvs = fold (\<lambda>(k, v). dict_set k v) kvs []"

text \<open>
  The hooks of a call: \<open>Lenient\<close> is the default, \<open>FiniteOnly\<close> refuses \<open>NaN\<close> and the infinities
  (\<open>parse_constant\<close> raises), \<open>Strict\<close> refuses repeated keys as well (\<open>object_pairs_hook\<close>).
\<close>

datatype json_mode = Lenient | FiniteOnly | Strict

definition object_of :: "json_mode \<Rightarrow> (string \<times> json) list \<Rightarrow> json option" where
  "object_of mode kvs =
     (if mode = Strict \<and> \<not> distinct (map fst kvs) then None else Some (JObj (dict_of kvs)))"

text \<open>
  The recursive descent of \<open>scan_once\<close>.  The fuel counts calls; the length of the text is always
  enough for a canonical text (\<open>canonical_fuel\<close>).
\<close>

fun parse_value :: "json_mode \<Rightarrow> nat \<Rightarrow> string \<Rightarrow> (json \<times> string) option"
and parse_elems :: "json_mode \<Rightarrow> nat \<Rightarrow> string \<Rightarrow> (json list \<times> string) option"
and parse_members :: "json_mode \<Rightarrow> nat \<Rightarrow> string \<Rightarrow> ((string \<times> json) list \<times> string) option" where
  "parse_value mode 0 s = None"
| "parse_value mode (Suc n) s =
     (if starts [CHR 0x22] s then map_option (\<lambda>(t, r). (JStr t, r)) (parse_string (drop 1 s))
      else if starts ''{'' s then
        (let r = skip_ws (drop 1 s)
         in if starts ''}'' r then Some (JObj [], drop 1 r)
            else Option.bind (parse_members mode n r) (\<lambda>(kvs, q). map_option (\<lambda>j. (j, q)) (object_of mode kvs)))
      else if starts ''['' s then
        (let r = skip_ws (drop 1 s)
         in if starts '']'' r then Some (JList [], drop 1 r)
            else map_option (\<lambda>(xs, q). (JList xs, q)) (parse_elems mode n r))
      else if starts ''null'' s then Some (JNull, drop 4 s)
      else if starts ''true'' s then Some (JBool True, drop 4 s)
      else if starts ''false'' s then Some (JBool False, drop 5 s)
      else if starts ''NaN'' s then (if mode = Lenient then Some (JFloat ''NaN'', drop 3 s) else None)
      else if starts ''Infinity'' s then (if mode = Lenient then Some (JFloat ''Infinity'', drop 8 s) else None)
      else if starts ''-Infinity'' s then (if mode = Lenient then Some (JFloat ''-Infinity'', drop 9 s) else None)
      else parse_number s)"
| "parse_elems mode 0 s = None"
| "parse_elems mode (Suc n) s =
     (case parse_value mode n s of
        None \<Rightarrow> None
      | Some (v, r) \<Rightarrow>
          let q = skip_ws r
          in if starts '']'' q then Some ([v], drop 1 q)
             else if starts '','' q then prepend [v] (parse_elems mode n (skip_ws (drop 1 q)))
             else None)"
| "parse_members mode 0 s = None"
| "parse_members mode (Suc n) s =
     (if \<not> starts [CHR 0x22] s then None else
      case parse_string (drop 1 s) of
        None \<Rightarrow> None
      | Some (k, r) \<Rightarrow>
          if \<not> starts '':'' (skip_ws r) then None else
          case parse_value mode n (skip_ws (drop 1 (skip_ws r))) of
            None \<Rightarrow> None
          | Some (v, r') \<Rightarrow>
              let q = skip_ws r'
              in if starts ''}'' q then Some ([(k, v)], drop 1 q)
                 else if starts '','' q then prepend [(k, v)] (parse_members mode n (skip_ws (drop 1 q)))
                 else None)"

definition json_loads_gen :: "json_mode \<Rightarrow> string \<Rightarrow> json option" where
  "json_loads_gen mode s =
     (case parse_value mode (Suc (length s)) (skip_ws s) of
        Some (j, r) \<Rightarrow> if skip_ws r = [] then Some j else None
      | None \<Rightarrow> None)"

definition json_loads :: "string \<Rightarrow> json option" where
  "json_loads = json_loads_gen Lenient"

end
