(* ===== verification/Json_Roundtrip.thy ===== *)
theory Json_Roundtrip
  imports Json
begin

text \<open>
  \<open>json.loads\<close> inverts the canonical text: the proof that canonical JSON identity is value
  identity up to key order.
\<close>

subsection \<open>Strings\<close>

lemma hex_val_digit: "n < 16 \<Longrightarrow> hex_val (hex_digit n) = Some n"
  by (auto simp: hex_val_def hex_digit_def Let_def)

lemma hex_val_0: "hex_val (CHR ''0'') = Some 0"
  by code_simp

lemma parse_string_esc: "parse_string (esc_char c @ cs) = prepend [c] (parse_string cs)"
proof (cases "c \<in> {CHR 0x22, CHR 0x5C, CHR 0x0A, CHR 0x0D, CHR 0x09, CHR 0x0C, CHR 0x08}")
  case True
  then show ?thesis
    by (auto simp: esc_char_def simple_escape_def)
next
  case False
  show ?thesis
  proof (cases "(of_char c :: nat) < 32")
    case True
    have h: "hex4 (CHR ''0'' # CHR ''0'' # hex_digit (of_char c div 16) # hex_digit (of_char c mod 16) # cs)
        = Some (of_char c)"
      using True by (simp add: hex4_def hex_val_digit hex_val_0)
    then have "unicode_escape (CHR ''0'' # CHR ''0'' # hex_digit (of_char c div 16) # hex_digit (of_char c mod 16) # cs)
        = Some ([c], 4)"
      using True by (simp add: unicode_escape_def utf8_def)
    then show ?thesis using False True by (simp add: esc_char_def)
  next
    case no: False
    then show ?thesis using False by (simp add: esc_char_def)
  qed
qed

lemma parse_string_quote: "parse_string (concat (map esc_char s) @ CHR 0x22 # rest) = Some (s, rest)"
  by (induction s) (simp_all add: parse_string_esc prepend_def)

lemma starts_Cons [simp]: "starts (c # p) (d # s) \<longleftrightarrow> c = d \<and> starts p s"
  by (auto simp: starts_def)

lemma starts_Nil [simp]: "starts [] s" "\<not> starts (c # p) []"
  by (auto simp: starts_def)

lemma parse_value_quote: "parse_value c (Suc n) (quote s @ rest) = Some (JStr s, rest)"
  by (simp add: quote_def parse_string_quote)

subsection \<open>Numbers\<close>

text \<open>What may follow a value: nothing that would extend a number token.\<close>

definition stops :: "string \<Rightarrow> bool" where
  "stops rest \<longleftrightarrow> (rest = [] \<or> \<not> is_digit (hd rest) \<and> hd rest \<noteq> CHR ''.'' \<and> hd rest \<noteq> CHR ''e'' \<and> hd rest \<noteq> CHR ''E'')"

lemma stops_parts: "stops rest \<Longrightarrow> frac_part rest = [] \<and> exp_part rest = []"
  by (cases rest) (auto simp: stops_def frac_part_def exp_part_def)

lemma takeWhile_digits_stop: "list_all is_digit ds \<Longrightarrow> stops rest \<Longrightarrow> takeWhile is_digit (ds @ rest) = ds"
  by (induction ds) (auto simp: stops_def takeWhile_eq_Nil_iff)

lemma not_digit_chars:
  "\<not> is_digit (CHR 0x22)" "\<not> is_digit (CHR ''{'')" "\<not> is_digit (CHR ''['')" "\<not> is_digit (CHR ''n'')"
  "\<not> is_digit (CHR ''t'')" "\<not> is_digit (CHR ''f'')" "\<not> is_digit (CHR ''N'')" "\<not> is_digit (CHR ''I'')"
  "\<not> is_digit (CHR '','')" "\<not> is_digit (CHR '']'')" "\<not> is_digit (CHR ''}'')" "\<not> is_digit (CHR '':'')"
  by (simp_all add: is_digit_def)

lemma parse_number_nat:
  assumes "stops rest"
  shows "parse_number (nat_text n @ rest) = Some (JInt (int n), rest)"
    and "parse_number (CHR ''-'' # nat_text n @ rest) = Some (JInt (- int n), rest)"
proof -
  let ?ds = "nat_text n"
  obtain d ds where t: "?ds = d # ds" by (cases ?ds) auto
  have dig: "list_all is_digit ?ds" by (auto simp: list_all_iff nat_text_all_digits)
  have m: "d \<noteq> CHR ''-''" using t by (rule nat_text_hd_not_minus)
  have z: "number_digits (?ds @ rest) = ?ds"
  proof (cases "d = CHR ''0''")
    case True
    have "n < 10"
    proof (rule ccontr)
      assume "\<not> n < 10"
      with nat_text_hd [of n] t True show False by simp
    qed
    with True t show ?thesis by (simp add: number_digits_def nat_text_small)
  next
    case False
    with t takeWhile_digits_stop [OF dig assms] show ?thesis by (simp add: number_digits_def)
  qed
  have s: "\<not> starts ''-'' (?ds @ rest)" using m t by simp
  show "parse_number (?ds @ rest) = Some (JInt (int n), rest)"
    using z s stops_parts [OF assms] by (simp add: parse_number_def Let_def)
  show "parse_number (CHR ''-'' # ?ds @ rest) = Some (JInt (- int n), rest)"
    using z stops_parts [OF assms] by (simp add: parse_number_def Let_def)
qed

lemma parse_value_int:
  assumes "stops rest"
  shows "parse_value c (Suc k) (int_text i @ rest) = Some (JInt i, rest)"
proof -
  obtain d ds where t: "nat_text (nat \<bar>i\<bar>) = d # ds" by (cases "nat_text (nat \<bar>i\<bar>)") auto
  have "is_digit d" using nat_text_all_digits [of d "nat \<bar>i\<bar>"] t by simp
  then have nd: "d \<noteq> CHR 0x22" "d \<noteq> CHR ''{''" "d \<noteq> CHR ''[''" "d \<noteq> CHR ''n''" "d \<noteq> CHR ''t''"
    "d \<noteq> CHR ''f''" "d \<noteq> CHR ''N''" "d \<noteq> CHR ''I''" "d \<noteq> CHR ''-''"
    using not_digit_chars by auto
  note p = parse_number_nat [OF assms, of "nat \<bar>i\<bar>", unfolded t]
  show ?thesis
  proof (cases "i < 0")
    case True
    then have "int_text i = CHR ''-'' # d # ds" using t by (simp add: int_text_def)
    then show ?thesis using p(2) True nd(8) by simp
  next
    case False
    then have "int_text i = d # ds" using t by (simp add: int_text_def)
    then show ?thesis using p(1) False nd by simp
  qed
qed

subsection \<open>Floats\<close>

text \<open>A number token that reads as a float and is read to its end.\<close>

definition float_token :: "string \<Rightarrow> bool" where
  "float_token t \<longleftrightarrow> parse_number t = Some (JFloat t, [])"

lemma takeWhile_append_some: "x \<in> set xs \<Longrightarrow> \<not> P x \<Longrightarrow> takeWhile P (xs @ ys) = takeWhile P xs"
  by (rule takeWhile_append1)

lemma exp_part_append:
  assumes "exp_part e = e" "stops rest"
  shows "exp_part (e @ rest) = e"
proof (cases e)
  case Nil
  then show ?thesis using stops_parts [OF assms(2)] by simp
next
  case (Cons c cs)
  define sign where "sign = (case cs of d # _ \<Rightarrow> if d = CHR ''+'' \<or> d = CHR ''-'' then [d] else [] | [] \<Rightarrow> [])"
  define ds where "ds = takeWhile is_digit (drop (length sign) cs)"
  have "c = CHR ''e'' \<or> c = CHR ''E''" "ds \<noteq> []" "cs = sign @ ds"
    using assms(1) Cons by (auto simp: exp_part_def Let_def sign_def [symmetric] ds_def [symmetric] split: if_splits)
  moreover have "list_all is_digit ds" by (simp add: ds_def list_all_iff) (meson set_takeWhileD)
  moreover have "(case cs @ rest of d # _ \<Rightarrow> if d = CHR ''+'' \<or> d = CHR ''-'' then [d] else [] | [] \<Rightarrow> []) = sign"
    using \<open>ds \<noteq> []\<close> \<open>cs = sign @ ds\<close> by (cases cs) (auto simp: sign_def)
  ultimately show ?thesis
    using takeWhile_digits_stop [OF _ assms(2), of ds] by (simp add: Cons exp_part_def Let_def)
qed

lemma frac_part_append:
  assumes "frac_part (f @ e) = f" "exp_part e = e" "stops rest"
  shows "frac_part (f @ e @ rest) = f"
proof (cases "f @ e")
  case Nil
  then show ?thesis using stops_parts [OF assms(3)] by simp
next
  case (Cons c cs)
  have e: "e = [] \<or> (\<exists>x\<in>set e. \<not> is_digit x)"
    using assms(2) by (cases e) (auto simp: exp_part_def Let_def is_digit_def split: if_splits)
  have tw: "takeWhile is_digit (cs @ rest) = takeWhile is_digit cs" if "c = CHR ''.''" "takeWhile is_digit cs \<noteq> []"
  proof (cases e)
    case Nil
    then have "takeWhile is_digit cs = cs" using Cons assms(1) that by (simp add: frac_part_def)
    moreover from this have "list_all is_digit cs" by (metis list_all_iff set_takeWhileD)
    ultimately show ?thesis using takeWhile_digits_stop [OF _ assms(3)] by (simp only:)
  next
    case (Cons x xs)
    have "f = c # takeWhile is_digit cs" using assms(1) \<open>f @ e = c # cs\<close> that by (simp add: frac_part_def)
    then have "takeWhile is_digit cs @ e = cs" using \<open>f @ e = c # cs\<close> by simp
    have "set e \<subseteq> set (takeWhile is_digit cs @ e)" by simp
    then have "set e \<subseteq> set cs" unfolding \<open>takeWhile is_digit cs @ e = cs\<close> .
    moreover obtain y where "y \<in> set e" "\<not> is_digit y" using e Cons by auto
    ultimately have "y \<in> set cs" "\<not> is_digit y" by auto
    then show ?thesis by (rule takeWhile_append_some [where P = is_digit])
  qed
  show ?thesis
  proof (cases "c = CHR ''.'' \<and> takeWhile is_digit cs \<noteq> []")
    case True
    then have "frac_part ((f @ e) @ rest) = c # takeWhile is_digit cs" unfolding Cons using tw by (simp add: frac_part_def)
    moreover have "f = c # takeWhile is_digit cs" using assms(1) True unfolding Cons by (simp add: frac_part_def)
    ultimately show ?thesis by simp
  next
    case False
    then have f: "f = []" using assms(1) by (auto simp: Cons frac_part_def)
    then have "c \<noteq> CHR ''.''" using assms(2) Cons by (auto simp: exp_part_def Let_def split: if_splits)
    then show ?thesis using f Cons by (simp add: frac_part_def)
  qed
qed

lemma float_token_parts:
  assumes "float_token t"
  obtains sign ds f e where "t = sign @ ds @ f @ e" "sign = (if starts ''-'' t then ''-'' else [])" "ds \<noteq> []"
    "number_digits (ds @ f @ e) = ds" "frac_part (f @ e) = f" "exp_part e = e" "f \<noteq> [] \<or> e \<noteq> []"
proof -
  define sign where "sign = (if starts ''-'' t then ''-'' else [])"
  define r where "r = drop (length sign) t"
  define ds where "ds = number_digits r"
  define f where "f = frac_part (drop (length ds) r)"
  define e where "e = exp_part (drop (length ds + length f) r)"
  have "parse_number t = Some (JFloat t, [])" using assms by (simp add: float_token_def)
  then have "(if ds = [] then None
      else if f = [] \<and> e = [] then
        Some (JInt (if sign = [] then int (digits_val ds) else - int (digits_val ds)), drop (length ds + length f + length e) r)
      else Some (JFloat (sign @ ds @ f @ e), drop (length ds + length f + length e) r)) = Some (JFloat t, [])"
    unfolding parse_number_def Let_def sign_def [symmetric] r_def [symmetric] ds_def [symmetric] f_def [symmetric] e_def [symmetric] .
  then have g: "ds \<noteq> []" "f \<noteq> [] \<or> e \<noteq> []" "sign @ ds @ f @ e = t" by (simp_all split: if_splits)
  have r: "r = ds @ f @ e" unfolding r_def g(3) [symmetric] by simp
  have dr: "drop (length ds) r = f @ e" "drop (length ds + length f) r = e" by (subst r, simp)+
  have "number_digits (ds @ f @ e) = ds" by (subst r [symmetric], rule ds_def [symmetric])
  moreover have "frac_part (f @ e) = f" by (subst dr(1) [symmetric], rule f_def [symmetric])
  moreover have "exp_part e = e" using e_def unfolding dr(2) by (rule sym)
  ultimately show ?thesis by (rule that [OF g(3) [symmetric] sign_def g(1) _ _ _ g(2)])
qed

lemma parse_number_float:
  assumes "float_token t" "stops rest"
  shows "parse_number (t @ rest) = Some (JFloat t, rest)"
proof -
  obtain sign ds f e where p: "t = sign @ ds @ f @ e" "sign = (if starts ''-'' t then ''-'' else [])" "ds \<noteq> []"
    "number_digits (ds @ f @ e) = ds" "frac_part (f @ e) = f" "exp_part e = e" "f \<noteq> [] \<or> e \<noteq> []"
    using float_token_parts [OF assms(1)] .
  have sg: "(if starts ''-'' (t @ rest) then ''-'' else []) = sign"
  proof -
    have "t \<noteq> []" using p(1,3) by simp
    then have "starts ''-'' (t @ rest) \<longleftrightarrow> starts ''-'' t" by (cases t) auto
    then show ?thesis using p(2) by simp
  qed
  have "\<exists>x\<in>set (f @ e). \<not> is_digit x"
    using p(5-7) by (cases f; cases e) (auto simp: frac_part_def exp_part_def Let_def is_digit_def split: if_splits)
  then obtain x where x: "x \<in> set (ds @ f @ e)" "\<not> is_digit x" by auto
  have tw: "takeWhile is_digit ((ds @ f @ e) @ rest) = takeWhile is_digit (ds @ f @ e)"
    by (rule takeWhile_append_some [where P = is_digit, OF x])
  have "starts ''0'' ((ds @ f @ e) @ rest) \<longleftrightarrow> starts ''0'' (ds @ f @ e)" using p(3) by (cases ds) auto
  then have nd: "number_digits (ds @ f @ e @ rest) = ds" using tw p(4) by (simp add: number_digits_def split: if_splits)
  show ?thesis
    unfolding parse_number_def Let_def sg
    using p(1,3,7) nd frac_part_append [OF p(5,6) assms(2)] exp_part_append [OF p(6) assms(2)] by auto
qed

lemma float_token_first:
  assumes "float_token t"
  shows "\<exists>d cs. (t = d # cs \<or> t = CHR ''-'' # d # cs) \<and> is_digit d"
proof -
  obtain sign ds f e where p: "t = sign @ ds @ f @ e" "sign = (if starts ''-'' t then ''-'' else [])" "ds \<noteq> []"
    "number_digits (ds @ f @ e) = ds" "frac_part (f @ e) = f" "exp_part e = e" "f \<noteq> [] \<or> e \<noteq> []"
    using float_token_parts [OF assms] .
  obtain d xs where d: "ds = d # xs" using p(3) by (cases ds) auto
  have "is_digit d"
  proof (cases "starts ''0'' (ds @ f @ e)")
    case True
    then have "d = CHR ''0''" using d by simp
    then show ?thesis by (simp add: is_digit_def)
  next
    case False
    then have "takeWhile is_digit (d # xs @ f @ e) = d # xs" using p(4) d by (simp add: number_digits_def)
    then show ?thesis by (simp split: if_splits)
  qed
  moreover have "t = d # xs @ f @ e \<or> t = CHR ''-'' # d # xs @ f @ e" using p(1,2) d by (cases "starts ''-'' t") simp_all
  ultimately show ?thesis by blast
qed

lemma parse_value_float:
  assumes "float_token t" "stops rest"
  shows "parse_value c (Suc k) (t @ rest) = Some (JFloat t, rest)"
proof -
  obtain d cs where t: "t = d # cs \<or> t = CHR ''-'' # d # cs" "is_digit d" using float_token_first [OF assms(1)] by blast
  have nd: "d \<noteq> CHR 0x22" "d \<noteq> CHR ''{''" "d \<noteq> CHR ''[''" "d \<noteq> CHR ''n''" "d \<noteq> CHR ''t''"
    "d \<noteq> CHR ''f''" "d \<noteq> CHR ''N''" "d \<noteq> CHR ''I''" "d \<noteq> CHR ''-''"
    using t(2) not_digit_chars minus_not_digit by auto
  have p: "parse_number (t @ rest) = Some (JFloat t, rest)" by (rule parse_number_float [OF assms])
  show ?thesis using t(1) p nd by (elim disjE) auto
qed

text \<open>A value whose text reads back: dict keys are unique and floats are number tokens.\<close>

fun readable :: "json \<Rightarrow> bool" where
  "readable (JFloat s) = float_token s"
| "readable (JList xs) = (\<forall>x\<in>set xs. readable x)"
| "readable (JObj kvs) = (distinct (map fst kvs) \<and> (\<forall>(k, v)\<in>set kvs. readable v))"
| "readable j = True"

lemma plain_readable: "plain j \<Longrightarrow> readable j"
  by (induction j) auto

subsection \<open>Lists and objects\<close>

text \<open>The first character of a canonical text: never white space, never a closing bracket.\<close>

definition opens :: "char \<Rightarrow> bool" where
  "opens c \<longleftrightarrow> \<not> is_ws c \<and> c \<noteq> CHR '']'' \<and> c \<noteq> CHR ''}''"

lemma is_digit_opens: "is_digit c \<Longrightarrow> opens c"
  by (auto simp: is_digit_def opens_def is_ws_def)

lemma opens_chars: "opens (CHR 0x22)" "opens (CHR ''{'')" "opens (CHR ''['')" "opens (CHR ''n'')"
  "opens (CHR ''t'')" "opens (CHR ''f'')" "opens (CHR ''-'')"
  by (simp_all add: opens_def is_ws_def)

lemma int_text_opens: "\<exists>c cs. int_text i = c # cs \<and> opens c"
proof -
  obtain d ds where t: "nat_text (nat \<bar>i\<bar>) = d # ds" by (cases "nat_text (nat \<bar>i\<bar>)") auto
  have "is_digit d" using nat_text_all_digits [of d "nat \<bar>i\<bar>"] t by simp
  then show ?thesis using t by (auto simp: int_text_def is_digit_opens opens_chars)
qed

lemma float_token_opens: "float_token t \<Longrightarrow> \<exists>c cs. t = c # cs \<and> opens c"
proof -
  assume "float_token t"
  then obtain d cs where "t = d # cs \<or> t = CHR ''-'' # d # cs" "is_digit d" using float_token_first by blast
  then show ?thesis using is_digit_opens opens_chars(7) by blast
qed

lemma canonical_opens: "readable j \<Longrightarrow> \<exists>c cs. canonical_text j = c # cs \<and> opens c"
  using int_text_opens float_token_opens by (cases j) (auto simp: quote_def opens_chars)

lemma skip_ws_opens: "opens c \<Longrightarrow> skip_ws (c # cs) = c # cs"
  by (simp add: skip_ws_def opens_def)

lemma skip_ws_punct [simp]:
  "skip_ws (CHR '','' # cs) = CHR '','' # cs" "skip_ws (CHR '']'' # cs) = CHR '']'' # cs"
  "skip_ws (CHR ''}'' # cs) = CHR ''}'' # cs" "skip_ws (CHR '':'' # cs) = CHR '':'' # cs"
  "skip_ws (CHR 0x22 # cs) = CHR 0x22 # cs"
  by (simp_all add: skip_ws_def is_ws_def)

lemma skip_ws_canonical: "readable j \<Longrightarrow> skip_ws (canonical_text j @ cs) = canonical_text j @ cs"
  using canonical_opens [of j] skip_ws_opens by fastforce

lemma stops_punct [simp]: "stops (CHR '','' # cs)" "stops (CHR '']'' # cs)" "stops (CHR ''}'' # cs)" "stops []"
  by (auto simp: stops_def not_digit_chars)

definition parses :: "json_mode \<Rightarrow> json \<Rightarrow> bool" where
  "parses c j \<longleftrightarrow> (\<forall>n rest. length (canonical_text j) \<le> n \<longrightarrow> stops rest \<longrightarrow>
     parse_value c n (canonical_text j @ rest) = Some (jnorm j, rest))"

lemma parsesD:
  "parses c j \<Longrightarrow> length (canonical_text j) \<le> n \<Longrightarrow> stops rest \<Longrightarrow>
     parse_value c n (canonical_text j @ rest) = Some (jnorm j, rest)"
  by (simp add: parses_def)

lemma parse_elems_canonical:
  assumes "xs \<noteq> []" "\<forall>x\<in>set xs. readable x \<and> parses c x"
    "length (commas (map canonical_text xs)) < n"
  shows "parse_elems c n (commas (map canonical_text xs) @ CHR '']'' # rest) = Some (map jnorm xs, rest)"
  using assms
proof (induction xs arbitrary: n)
  case Nil
  then show ?case by simp
next
  case (Cons x xs)
  obtain m where n: "n = Suc m" using Cons.prems(3) by (cases n) auto
  show ?case
  proof (cases xs)
    case Nil
    have "parse_value c m (canonical_text x @ CHR '']'' # rest) = Some (jnorm x, CHR '']'' # rest)"
      using Cons.prems n Nil by (intro parsesD) auto
    then show ?thesis by (simp add: n Nil)
  next
    case (Cons y ys)
    let ?tail = "commas (map canonical_text xs) @ CHR '']'' # rest"
    have t: "commas (map canonical_text (x # xs)) @ CHR '']'' # rest = canonical_text x @ CHR '','' # ?tail"
      by (simp add: Cons)
    have "parse_value c m (canonical_text x @ CHR '','' # ?tail) = Some (jnorm x, CHR '','' # ?tail)"
      using Cons.prems n Cons by (intro parsesD) auto
    moreover have "skip_ws ?tail = ?tail"
      using Cons Cons.prems(2) canonical_opens [of y] by (cases ys) (auto simp: skip_ws_opens)
    moreover have "parse_elems c m ?tail = Some (map jnorm xs, rest)"
      using Cons.prems n Cons by (intro Cons.IH) auto
    ultimately show ?thesis unfolding t n by (simp add: prepend_def)
  qed
qed

definition json_member :: "string \<times> json \<Rightarrow> string" where
  "json_member kv = quote (fst kv) @ CHR '':'' # canonical_text (snd kv)"

lemma json_member_quote: "json_member (k, v) = CHR 0x22 # concat (map esc_char k) @ CHR 0x22 # CHR '':'' # canonical_text v"
  by (simp add: json_member_def quote_def)

lemma parse_members_canonical:
  assumes "kvs \<noteq> []" "\<forall>(k, v)\<in>set kvs. readable v \<and> parses c v"
    "length (commas (map json_member kvs)) < n"
  shows "parse_members c n (commas (map json_member kvs) @ CHR ''}'' # rest)
    = Some (map (\<lambda>(k, v). (k, jnorm v)) kvs, rest)"
  using assms
proof (induction kvs arbitrary: n)
  case Nil
  then show ?case by simp
next
  case (Cons kv kvs)
  obtain k v where kv: "kv = (k, v)" by (cases kv)
  obtain m where n: "n = Suc m" using Cons.prems(3) by (cases n) auto
  have pv: "readable v" "parses c v" using Cons.prems kv by auto
  show ?case
  proof (cases kvs)
    case Nil
    have "parse_value c m (canonical_text v @ CHR ''}'' # rest) = Some (jnorm v, CHR ''}'' # rest)"
      using Cons.prems n Nil pv by (intro parsesD) (auto simp: kv json_member_quote)
    then show ?thesis
      by (simp add: n Nil kv json_member_quote parse_string_quote skip_ws_canonical pv)
  next
    case (Cons kv' kvs')
    let ?tail = "commas (map json_member kvs) @ CHR ''}'' # rest"
    have t: "commas (map json_member (kv # kvs)) @ CHR ''}'' # rest = json_member kv @ CHR '','' # ?tail"
      by (simp add: Cons)
    have "parse_value c m (canonical_text v @ CHR '','' # ?tail) = Some (jnorm v, CHR '','' # ?tail)"
      using Cons.prems n Cons pv by (intro parsesD) (auto simp: kv json_member_quote)
    moreover have "skip_ws ?tail = ?tail"
      using Cons by (cases kv'; cases kvs') (auto simp: json_member_quote)
    moreover have "parse_members c m ?tail = Some (map (\<lambda>(k, v). (k, jnorm v)) kvs, rest)"
      using Cons.prems n Cons by (intro Cons.IH) (auto simp: kv)
    ultimately show ?thesis
      unfolding t n by (simp add: kv json_member_quote parse_string_quote skip_ws_canonical pv prepend_def)
  qed
qed

subsection \<open>Sorting keys\<close>

lemma insort_key_map_snd:
  "insort_key fst (k, f v) (map (\<lambda>(k, v). (k, f v)) ys) = map (\<lambda>(k, v). (k, f v)) (insort_key fst (k, v) ys)"
  by (induction ys) auto

lemma sort_key_map_snd:
  "sort_key fst (map (\<lambda>(k, v). (k, f v)) kvs) = map (\<lambda>(k, v). (k, f v)) (sort_key fst kvs)"
  by (induction kvs) (auto simp: insort_key_map_snd)

lemma canonical_object:
  "canonical_text (JObj kvs) = CHR ''{'' # commas (map json_member (sort_key fst kvs)) @ ''}''"
  unfolding canonical_text.simps sort_key_map_snd
  by (simp add: member_text_def [abs_def] json_member_def [abs_def] case_prod_unfold comp_def)

lemma jnorm_object: "jnorm (JObj kvs) = JObj (map (\<lambda>(k, v). (k, jnorm v)) (sort_key fst kvs))"
  by (simp add: sort_key_map_snd)

lemma dict_set_new: "k \<notin> fst ` set d \<Longrightarrow> dict_set k v d = d @ [(k, v)]"
  by (induction k v d rule: dict_set.induct) auto

lemma dict_of_distinct: "distinct (map fst kvs) \<Longrightarrow> dict_of kvs = kvs"
proof -
  have "distinct (map fst (d @ kvs)) \<Longrightarrow> fold (\<lambda>(k, v). dict_set k v) kvs d = d @ kvs" for d
    by (induction kvs arbitrary: d) (auto simp: dict_set_new)
  from this [of "[]"] show "distinct (map fst kvs) \<Longrightarrow> ?thesis" by (simp add: dict_of_def)
qed

lemma distinct_sort_fst: "distinct (map fst kvs) \<Longrightarrow> distinct (map fst (sort_key fst kvs))"
  by (simp add: distinct_map)

lemma canonical_parses: "readable j \<Longrightarrow> parses c j"
proof (induction j)
  case (JInt i)
  have "canonical_text (JInt i) \<noteq> []" using canonical_opens [OF JInt] by auto
  then have "\<exists>k. n = Suc k" if "length (canonical_text (JInt i)) \<le> n" for n
    using that by (cases n) auto
  then show ?case unfolding parses_def using parse_value_int by fastforce
next
  case (JFloat s)
  have "canonical_text (JFloat s) \<noteq> []" using canonical_opens [OF JFloat] by auto
  then have "\<exists>k. n = Suc k" if "length (canonical_text (JFloat s)) \<le> n" for n
    using that by (cases n) auto
  then show ?case unfolding parses_def using parse_value_float JFloat by fastforce
next
  case (JStr s)
  have "\<exists>k. n = Suc k" if "length (canonical_text (JStr s)) \<le> n" for n
    using that by (cases n) (auto simp: quote_def)
  then show ?case unfolding parses_def using parse_value_quote by fastforce
next
  case (JList xs)
  have IH: "\<forall>x\<in>set xs. readable x \<and> parses c x" using JList by auto
  show ?case unfolding parses_def
  proof (intro allI impI)
    fix n rest
    assume len: "length (canonical_text (JList xs)) \<le> n" and st: "stops rest"
    obtain m where n: "n = Suc m" and m: "length (commas (map canonical_text xs)) < m"
      using len by (cases n) auto
    show "parse_value c n (canonical_text (JList xs) @ rest) = Some (jnorm (JList xs), rest)"
    proof (cases xs)
      case Nil
      then show ?thesis by (simp add: n)
    next
      case (Cons x ys)
      let ?body = "commas (map canonical_text xs) @ CHR '']'' # rest"
      obtain d ds where d: "?body = d # ds" "opens d"
        using Cons IH canonical_opens [of x] by (cases ys) auto
      have "parse_elems c m ?body = Some (map jnorm xs, rest)"
        using Cons IH m by (intro parse_elems_canonical) auto
      moreover have "d \<noteq> CHR '']''" using d(2) by (simp add: opens_def)
      ultimately show ?thesis using d by (simp add: n skip_ws_opens)
    qed
  qed
next
  case (JObj kvs)
  have IH: "\<forall>(k, v)\<in>set (sort_key fst kvs). readable v \<and> parses c v" using JObj by auto
  have ds: "distinct (map fst (sort_key fst kvs))" using JObj by (auto intro: distinct_sort_fst)
  show ?case unfolding parses_def
  proof (intro allI impI)
    fix n rest
    assume len: "length (canonical_text (JObj kvs)) \<le> n" and st: "stops rest"
    obtain m where n: "n = Suc m" and m: "length (commas (map json_member (sort_key fst kvs))) < m"
      using len unfolding canonical_object by (cases n) auto
    show "parse_value c n (canonical_text (JObj kvs) @ rest) = Some (jnorm (JObj kvs), rest)"
    proof (cases "sort_key fst kvs")
      case Nil
      then show ?thesis unfolding canonical_object jnorm_object by (simp add: n)
    next
      case (Cons kv ys)
      let ?body = "commas (map json_member (sort_key fst kvs)) @ CHR ''}'' # rest"
      obtain cs where d: "?body = CHR 0x22 # cs"
        using Cons by (cases kv; cases ys) (auto simp: json_member_quote)
      have "parse_members c m ?body = Some (map (\<lambda>(k, v). (k, jnorm v)) (sort_key fst kvs), rest)"
        using Cons IH m by (intro parse_members_canonical) auto
      moreover have "dict_of (map (\<lambda>(k, v). (k, jnorm v)) (sort_key fst kvs)) = map (\<lambda>(k, v). (k, jnorm v)) (sort_key fst kvs)"
        using ds by (intro dict_of_distinct) (simp add: case_prod_unfold comp_def)
      moreover have "distinct (map fst (map (\<lambda>(k, v). (k, jnorm v)) (sort_key fst kvs)))"
        using ds by (simp add: case_prod_unfold comp_def)
      ultimately show ?thesis using d unfolding canonical_object jnorm_object by (simp add: n object_of_def)
    qed
  qed
qed (auto simp: parses_def dest!: Suc_le_D)

theorem json_loads_readable:
  assumes "readable j"
  shows "json_loads_gen mode (canonical_text j) = Some (jnorm j)"
proof -
  have "parse_value mode (Suc (length (canonical_text j))) (canonical_text j @ []) = Some (jnorm j, [])"
    using canonical_parses [OF assms] by (rule parsesD) auto
  moreover have "skip_ws (canonical_text j) = canonical_text j"
    using skip_ws_canonical [OF assms, of "[]"] by simp
  ultimately show ?thesis by (simp add: json_loads_gen_def skip_ws_def)
qed

lemma json_loads_canonical: "plain j \<Longrightarrow> json_loads_gen mode (canonical_text j) = Some (jnorm j)"
  by (rule json_loads_readable [OF plain_readable])

lemma canonical_jnorm [simp]: "canonical_text (jnorm j) = canonical_text j"
proof (induction j)
  case (JList xs)
  then have m: "map (canonical_text \<circ> jnorm) xs = map canonical_text xs" by (intro map_cong) auto
  show ?case unfolding jnorm.simps canonical_text.simps map_map by (simp only: m)
next
  case (JObj kvs)
  have sort_idem: "sort_key fst (sort_key fst kvs) = sort_key fst kvs" for kvs :: "(string \<times> json) list"
    by (simp add: sort_key_id_if_sorted)
  have "map json_member (sort_key fst (map (\<lambda>(k, v). (k, jnorm v)) (sort_key fst kvs)))
      = map json_member (map (\<lambda>(k, v). (k, jnorm v)) (sort_key fst kvs))"
    by (simp add: sort_key_map_snd sort_idem)
  also have "\<dots> = map json_member (sort_key fst kvs)"
    using JObj by (auto simp: json_member_def)
  finally show ?case unfolding jnorm_object canonical_object by simp
qed auto

theorem canonical_text_readable_iff:
  assumes "readable a" "readable b"
  shows "canonical_text a = canonical_text b \<longleftrightarrow> jnorm a = jnorm b"
proof
  assume "canonical_text a = canonical_text b"
  then show "jnorm a = jnorm b"
    using json_loads_readable [OF assms(1)] json_loads_readable [OF assms(2)] by simp
next
  show "canonical_text a = canonical_text b" if "jnorm a = jnorm b"
    using that by (metis canonical_jnorm)
qed

lemma canonical_text_eq_iff: "plain a \<Longrightarrow> plain b \<Longrightarrow> canonical_text a = canonical_text b \<longleftrightarrow> jnorm a = jnorm b"
  by (rule canonical_text_readable_iff [OF plain_readable plain_readable])

end
