(* ===== verification/Sha256.thy ===== *)
theory Sha256
  imports "HOL-Library.Word" Json_Roundtrip
begin

text \<open>
  \<open>hashlib.sha256(...).hexdigest()\<close> (FIPS 180-4) on 32-bit words, and the identity hash of
  \<open>collector/canonical.py\<close>.  Nothing below unfolds the compression function: the development
  uses only that it is a function of the canonical bytes, and states what it needs of
  collision freedom where it needs it.
\<close>

unbundle bit_operations_syntax

type_synonym word32 = "32 word"

definition sha_k :: "word32 list" where
  "sha_k = [
    1116352408, 1899447441, 3049323471, 3921009573, 961987163, 1508970993, 2453635748, 2870763221,
    3624381080, 310598401, 607225278, 1426881987, 1925078388, 2162078206, 2614888103, 3248222580,
    3835390401, 4022224774, 264347078, 604807628, 770255983, 1249150122, 1555081692, 1996064986,
    2554220882, 2821834349, 2952996808, 3210313671, 3336571891, 3584528711, 113926993, 338241895,
    666307205, 773529912, 1294757372, 1396182291, 1695183700, 1986661051, 2177026350, 2456956037,
    2730485921, 2820302411, 3259730800, 3345764771, 3516065817, 3600352804, 4094571909, 275423344,
    430227734, 506948616, 659060556, 883997877, 958139571, 1322822218, 1537002063, 1747873779,
    1955562222, 2024104815, 2227730452, 2361852424, 2428436474, 2756734187, 3204031479, 3329325298]"

definition sha_init :: "word32 list" where
  "sha_init = [1779033703, 3144134277, 1013904242, 2773480762, 1359893119, 2600822924, 528734635, 1541459225]"

definition rotr32 :: "nat \<Rightarrow> word32 \<Rightarrow> word32" where
  "rotr32 n x = drop_bit n x OR push_bit (32 - n) x"

definition small_sigma0 :: "word32 \<Rightarrow> word32" where
  "small_sigma0 x = rotr32 7 x XOR rotr32 18 x XOR drop_bit 3 x"

definition small_sigma1 :: "word32 \<Rightarrow> word32" where
  "small_sigma1 x = rotr32 17 x XOR rotr32 19 x XOR drop_bit 10 x"

definition big_sigma0 :: "word32 \<Rightarrow> word32" where
  "big_sigma0 x = rotr32 2 x XOR rotr32 13 x XOR rotr32 22 x"

definition big_sigma1 :: "word32 \<Rightarrow> word32" where
  "big_sigma1 x = rotr32 6 x XOR rotr32 11 x XOR rotr32 25 x"

text \<open>The message schedule, newest word first: words \<open>t - 2\<close>, \<open>t - 7\<close>, \<open>t - 15\<close>, \<open>t - 16\<close>.\<close>

fun schedule :: "nat \<Rightarrow> word32 list \<Rightarrow> word32 list" where
  "schedule 0 ws = ws"
| "schedule (Suc n) ws =
     schedule n ((small_sigma1 (ws ! 1) + ws ! 6 + small_sigma0 (ws ! 14) + ws ! 15) # ws)"

fun sha_round :: "word32 list \<Rightarrow> word32 \<times> word32 \<Rightarrow> word32 list" where
  "sha_round [a, b, c, d, e, f, g, h] (k, w) =
     (let t1 = h + big_sigma1 e + ((e AND f) XOR (NOT e AND g)) + k + w;
          t2 = big_sigma0 a + ((a AND b) XOR (a AND c) XOR (b AND c))
      in [t1 + t2, a, b, c, d + t1, e, f, g])"
| "sha_round s kw = s"

definition compress :: "word32 list \<Rightarrow> word32 list \<Rightarrow> word32 list" where
  "compress s block =
     map2 (+) s (foldl sha_round s (zip sha_k (rev (schedule 48 (rev block)))))"

fun words_of :: "int list \<Rightarrow> word32 list" where
  "words_of (a # b # c # d # bs) =
     word_of_int (((a * 256 + b) * 256 + c) * 256 + d) # words_of bs"
| "words_of _ = []"

fun be_bytes :: "nat \<Rightarrow> int \<Rightarrow> int list" where
  "be_bytes 0 n = []"
| "be_bytes (Suc w) n = be_bytes w (n div 256) @ [n mod 256]"

definition sha_pad :: "int list \<Rightarrow> int list" where
  "sha_pad bs =
     bs @ [128] @ replicate ((119 - length bs mod 64) mod 64) 0 @ be_bytes 8 (8 * int (length bs))"

fun sha_blocks :: "nat \<Rightarrow> word32 list \<Rightarrow> word32 list \<Rightarrow> word32 list" where
  "sha_blocks 0 s ws = s"
| "sha_blocks (Suc n) s ws = sha_blocks n (compress s (take 16 ws)) (drop 16 ws)"

definition hex_byte :: "int \<Rightarrow> string" where
  "hex_byte n = [hex_digit (nat (n div 16)), hex_digit (nat (n mod 16))]"

definition sha256_hex :: "string \<Rightarrow> string" where
  "sha256_hex s =
     (let bs = sha_pad (map of_char s)
      in concat (map (\<lambda>w. concat (map hex_byte (be_bytes 4 (uint w))))
           (sha_blocks (length bs div 64) sha_init (words_of bs))))"

subsection \<open>The identity hash\<close>

definition canonical_hash :: "json \<Rightarrow> string" where
  "canonical_hash obj = sha256_hex (canonical_text obj)"

end
