(* ===== verification/Rules.thy ===== *)
theory Rules
  imports Json_Roundtrip Timestamp
begin

text \<open>
  \<open>logic/rules.py\<close>: the closed rule grammar of \<open>evaluator-v1\<close>, the match of each shape and
  the boundary checks.  A preserved scalar is the JSON value it was stored as.  Error messages
  are reduced to the fields the exception objects carry.  \<open>\<backslash>d\<close> is any decimal digit of Unicode, and
  \<open>int\<close> refuses more than 4300 of them.
\<close>

subsection \<open>Failures\<close>

datatype type_detail =
    NeedsInteger string   \<comment> \<open>the rule shape that needs it\<close>
  | NeedsString
  | BooleanFitsNoRule
  | NeedsObservedAt

datatype rule_error =
    UnsupportedRule string string
  | RuleKeyMismatch string string string
  | RuleTypeError string type_detail
  | UnsupportedBoundary string string
  | PyOverflow   \<comment> \<open>Python's OverflowError: not a \<open>RuleError\<close> of the program\<close>
  | PyValueError   \<comment> \<open>the ValueError of \<open>int\<close> on too many digits: not a \<open>RuleError\<close> either\<close>

text \<open>Failures the code names (subclasses of \<open>RuleError\<close>).\<close>

fun named_rule_error :: "rule_error \<Rightarrow> bool" where
  "named_rule_error PyOverflow = False"
| "named_rule_error PyValueError = False"
| "named_rule_error _ = True"

subsection \<open>Scalars\<close>

text \<open>Python's \<open>==\<close> on scalars, where \<open>True == 1\<close>, and \<open>schema.py:same_scalar\<close>, which also compares types.\<close>

datatype py_tag = TNone | TBool | TInt | TFloat | TStr | TList | TDict

fun py_type :: "json \<Rightarrow> py_tag" where
  "py_type JNull = TNone"
| "py_type (JBool _) = TBool"
| "py_type (JInt _) = TInt"
| "py_type (JFloat _) = TFloat"
| "py_type (JStr _) = TStr"
| "py_type (JList _) = TList"
| "py_type (JObj _) = TDict"

fun py_eq :: "json \<Rightarrow> json \<Rightarrow> bool" where
  "py_eq (JBool b) (JInt i) = (i = of_bool b)"
| "py_eq (JInt i) (JBool b) = (i = of_bool b)"
| "py_eq l r = (l = r)"

definition same_scalar :: "json \<Rightarrow> json \<Rightarrow> bool" where
  "same_scalar l r \<longleftrightarrow> py_type l = py_type r \<and> py_eq l r"

lemma same_scalar_eq: "same_scalar l r \<longleftrightarrow> l = r"
  by (cases l; cases r) (auto simp: same_scalar_def)

fun is_scalar :: "json \<Rightarrow> bool" where
  "is_scalar (JInt _) = True"
| "is_scalar (JStr _) = True"
| "is_scalar (JBool _) = True"
| "is_scalar JNull = True"
| "is_scalar _ = False"

subsection \<open>Rules and their text\<close>

datatype rule =
    BetweenRule string int int
  | EqualsRule string string
  | AtLeastRule string int
  | ObservedWithinRule string int

fun rule_key :: "rule \<Rightarrow> string" where
  "rule_key (BetweenRule k _ _) = k"
| "rule_key (EqualsRule k _) = k"
| "rule_key (AtLeastRule k _) = k"
| "rule_key (ObservedWithinRule k _) = k"

definition is_key_start :: "char \<Rightarrow> bool" where
  "is_key_start c \<longleftrightarrow> (65 \<le> (of_char c :: nat) \<and> (of_char c :: nat) \<le> 90) \<or>
     (97 \<le> (of_char c :: nat) \<and> (of_char c :: nat) \<le> 122) \<or> c = CHR ''_''"

definition is_key_char :: "char \<Rightarrow> bool" where
  "is_key_char c \<longleftrightarrow> is_key_start c \<or> is_digit c"

definition is_key :: "string \<Rightarrow> bool" where
  "is_key k \<longleftrightarrow> k \<noteq> [] \<and> is_key_start (hd k) \<and> list_all is_key_char k"

text \<open>
  Each pattern is a key, then literals and captured runs; a match object holds the groups, the numbers as
  their digits.  \<open>eat\<close> consumes a literal, \<open>eat_int\<close> the run \<open>-?\<backslash>d+\<close>, \<open>eat_nat\<close> the run \<open>\<backslash>d+\<close>.  No captured run
  can contain the character that follows it, so the greedy reading is the only full match.
\<close>

type_synonym numeral_text = "bool \<times> nat list"   \<comment> \<open>a minus sign; the digits\<close>

datatype rule_match_object =
    BetweenMatch string numeral_text numeral_text
  | EqualsMatch string string
  | AtLeastMatch string numeral_text
  | ObservedWithinMatch string numeral_text

fun match_key :: "rule_match_object \<Rightarrow> string" where
  "match_key (BetweenMatch k _ _) = k"
| "match_key (EqualsMatch k _) = k"
| "match_key (AtLeastMatch k _) = k"
| "match_key (ObservedWithinMatch k _) = k"

definition eat :: "string \<Rightarrow> string \<Rightarrow> string option" where
  "eat p s = (if starts p s then Some (drop (length p) s) else None)"

definition eat_key :: "string \<Rightarrow> (string \<times> string) option" where
  "eat_key s =
     (let k = takeWhile is_key_char s
      in if is_key k then Some (k, drop (length k) s) else None)"

definition eat_nat :: "string \<Rightarrow> (numeral_text \<times> string) option" where
  "eat_nat s = (case digit_run s of (vs, r) \<Rightarrow> if vs = [] then None else Some ((False, vs), r))"

definition eat_int :: "string \<Rightarrow> (numeral_text \<times> string) option" where
  "eat_int s =
     (if starts ''-'' s then map_option (\<lambda>((_, vs), r). ((True, vs), r)) (eat_nat (drop 1 s)) else eat_nat s)"

definition match_between :: "string \<Rightarrow> rule_match_object option" where
  "match_between text =
     Option.bind (eat_key text) (\<lambda>(k, s1).
     Option.bind (eat '' between '' s1) (\<lambda>s2.
     Option.bind (eat_int s2) (\<lambda>(low, s3).
     Option.bind (eat '' and '' s3) (\<lambda>s4.
     Option.bind (eat_int s4) (\<lambda>(high, s5).
       if s5 = '' inclusive'' then Some (BetweenMatch k low high) else None)))))"

definition match_equals :: "string \<Rightarrow> rule_match_object option" where
  "match_equals text =
     Option.bind (eat_key text) (\<lambda>(k, s1).
     Option.bind (eat ('' equals '' @ [CHR 0x27]) s1) (\<lambda>s2.
       let lit = takeWhile (\<lambda>c. c \<noteq> CHR 0x27) s2
       in if drop (length lit) s2 = [CHR 0x27] then Some (EqualsMatch k lit) else None))"

definition match_at_least :: "string \<Rightarrow> rule_match_object option" where
  "match_at_least text =
     Option.bind (eat_key text) (\<lambda>(k, s1).
     Option.bind (eat '' at least '' s1) (\<lambda>s2.
     Option.bind (eat_int s2) (\<lambda>(n, s3).
       if s3 = [] then Some (AtLeastMatch k n) else None)))"

definition match_observed_within :: "string \<Rightarrow> rule_match_object option" where
  "match_observed_within text =
     Option.bind (eat_key text) (\<lambda>(k, s1).
     Option.bind (eat '' observed within '' s1) (\<lambda>s2.
     Option.bind (eat_nat s2) (\<lambda>(n, s3).
       if s3 = '' days before the decision boundary'' then Some (ObservedWithinMatch k n) else None)))"

text \<open>\<open>int\<close> of a captured run, and the rule built of a match.\<close>

definition py_int :: "numeral_text \<Rightarrow> rule_error + int" where
  "py_int n =
     (case n of (neg, vs) \<Rightarrow>
        if INT_MAX_STR_DIGITS < length vs then Inl PyValueError
        else Inr (if neg then - int (decimal_of vs) else int (decimal_of vs)))"

fun build_rule :: "rule_match_object \<Rightarrow> rule_error + rule" where
  "build_rule (BetweenMatch k low high) = bindE (py_int low) (\<lambda>l. bindE (py_int high) (\<lambda>h. Inr (BetweenRule k l h)))"
| "build_rule (EqualsMatch k lit) = Inr (EqualsRule k lit)"
| "build_rule (AtLeastMatch k n) = bindE (py_int n) (\<lambda>m. Inr (AtLeastRule k m))"
| "build_rule (ObservedWithinMatch k n) = bindE (py_int n) (\<lambda>d. Inr (ObservedWithinRule k d))"

text \<open>\<open>parse_rule\<close>: the first pattern that matches in full decides, key mismatch included.\<close>

definition first_match :: "string \<Rightarrow> rule_match_object option" where
  "first_match text =
     (case match_between text of Some m \<Rightarrow> Some m | None \<Rightarrow>
      case match_equals text of Some m \<Rightarrow> Some m | None \<Rightarrow>
      case match_at_least text of Some m \<Rightarrow> Some m | None \<Rightarrow>
      match_observed_within text)"

definition parse_rule :: "string \<Rightarrow> string \<Rightarrow> rule_error + rule" where
  "parse_rule key text =
     (case first_match text of
        None \<Rightarrow> Inl (UnsupportedRule key text)
      | Some m \<Rightarrow>
          if match_key m \<noteq> key then Inl (RuleKeyMismatch key (match_key m) text) else build_rule m)"

subsection \<open>The decision boundary\<close>

definition require_aware_boundary :: "py_datetime \<Rightarrow> rule_error + utc" where
  "require_aware_boundary b =
     (case b of
        Naive t \<Rightarrow> Inl (UnsupportedBoundary (format_utc t) ''must carry an explicit UTC offset'')
      | Aware t off \<Rightarrow> opt_to_sum PyOverflow (to_utc t off))"

definition parse_boundary :: "string \<Rightarrow> rule_error + utc" where
  "parse_boundary text =
     (case parse_datetime text of
        None \<Rightarrow> Inl (UnsupportedBoundary text ''is not an ISO-8601 instant'')
      | Some (Naive t) \<Rightarrow> Inl (UnsupportedBoundary text ''carries no UTC designator'')
      | Some (Aware t off) \<Rightarrow> opt_to_sum PyOverflow (to_utc t off))"

subsection \<open>Matching\<close>

definition require_int :: "string \<Rightarrow> json \<Rightarrow> string \<Rightarrow> rule_error + int" where
  "require_int key v shape =
     (case v of JInt i \<Rightarrow> Inr i | _ \<Rightarrow> Inl (RuleTypeError key (NeedsInteger shape)))"

definition reject_bool :: "string \<Rightarrow> json \<Rightarrow> rule_error option" where
  "reject_bool key v = (case v of JBool _ \<Rightarrow> Some (RuleTypeError key BooleanFitsNoRule) | _ \<Rightarrow> None)"

definition midnight :: "date \<Rightarrow> utc" where
  "midnight d = Utc d 0 0 0 0"

text \<open>\<open>timedelta(days=n)\<close> refuses a magnitude above 999999999 days.\<close>

definition timedelta_days :: "int \<Rightarrow> rule_error + int" where
  "timedelta_days n = (if \<bar>n\<bar> \<le> 999999999 then Inr (days_delta n) else Inl PyOverflow)"

fun rule_matches :: "rule \<Rightarrow> json \<Rightarrow> date option \<Rightarrow> utc \<Rightarrow> rule_error + bool" where
  "rule_matches (BetweenRule k low high) v obs b =
     bindE (require_int k v ''an inclusive range rule'') (\<lambda>n. Inr (low \<le> n \<and> n \<le> high))"
| "rule_matches (EqualsRule k lit) v obs b =
     (case reject_bool k v of
        Some e \<Rightarrow> Inl e
      | None \<Rightarrow> (case v of JStr s \<Rightarrow> Inr (s = lit) | _ \<Rightarrow> Inl (RuleTypeError k NeedsString)))"
| "rule_matches (AtLeastRule k minimum) v obs b =
     bindE (require_int k v ''an at-least rule'') (\<lambda>n. Inr (minimum \<le> n))"
| "rule_matches (ObservedWithinRule k days) v obs b =
     (case reject_bool k v of
        Some e \<Rightarrow> Inl e
      | None \<Rightarrow>
          (case obs of
             None \<Rightarrow> Inl (RuleTypeError k NeedsObservedAt)
           | Some o' \<Rightarrow>
               if b < midnight o' then Inr False
               else bindE (timedelta_days days)
                      (\<lambda>w. Inr (utc_micros b - utc_micros (midnight o') \<le> w))))"

subsection \<open>The grammar the parser accepts\<close>

text \<open>
  A numeral is an optional minus sign and Unicode decimal digits; the four shapes of the module's documentation
  are a relation between a text and what it captures.
\<close>

definition unsigned :: "string \<Rightarrow> numeral_text \<Rightarrow> bool" where
  "unsigned a n \<longleftrightarrow> \<not> fst n \<and> snd n \<noteq> [] \<and> digit_run a = (snd n, [])"

definition signed :: "string \<Rightarrow> numeral_text \<Rightarrow> bool" where
  "signed a n \<longleftrightarrow> unsigned a n \<or> (\<exists>b. a = CHR ''-'' # b \<and> fst n \<and> unsigned b (False, snd n))"

fun spells :: "string \<Rightarrow> rule_match_object \<Rightarrow> bool" where
  "spells text (BetweenMatch k low high) \<longleftrightarrow>
     (\<exists>a b. text = k @ '' between '' @ a @ '' and '' @ b @ '' inclusive'' \<and> signed a low \<and> signed b high)"
| "spells text (EqualsMatch k lit) \<longleftrightarrow>
     text = k @ '' equals '' @ CHR 0x27 # lit @ [CHR 0x27] \<and> CHR 0x27 \<notin> set lit"
| "spells text (AtLeastMatch k n) \<longleftrightarrow> (\<exists>a. text = k @ '' at least '' @ a \<and> signed a n)"
| "spells text (ObservedWithinMatch k n) \<longleftrightarrow>
     (\<exists>a. text = k @ '' observed within '' @ a @ '' days before the decision boundary'' \<and> unsigned a n)"

lemma eat_append [simp]: "eat p (p @ s) = Some s"
  by (simp add: eat_def starts_def)

lemma eat_SomeD: "eat p s = Some r \<Longrightarrow> s = p @ r"
  unfolding eat_def starts_def by (metis append_take_drop_id option.distinct(1) option.inject)

lemma space_not_key: "\<not> is_key_char (CHR '' '')" "\<not> is_digit (CHR '' '')" "\<not> is_digit (CHR 0x27)"
  by (simp_all add: is_key_char_def is_key_start_def is_digit_def)

lemma eat_key_append:
  assumes "is_key k"
  shows "eat_key (k @ CHR '' '' # s) = Some (k, CHR '' '' # s)"
proof -
  have "takeWhile is_key_char (k @ CHR '' '' # s) = k"
    using assms space_not_key by (intro takeWhile_append_stop) (auto simp: is_key_def)
  with assms show ?thesis by (simp add: eat_key_def)
qed

lemma eat_key_SomeD: "eat_key s = Some (k, r) \<Longrightarrow> s = k @ r \<and> is_key k"
  using takeWhile_dropWhile_id [of is_key_char s]
  by (auto simp: eat_key_def Let_def dropWhile_eq_drop split: if_splits)

lemma eat_nat_append:
  assumes "unsigned a n" "next_digit s = None"
  shows "eat_nat (a @ s) = Some (n, s)"
  using assms digit_run_append [of a "snd n" s] by (cases n) (simp add: eat_nat_def unsigned_def)

lemma eat_nat_SomeD:
  assumes "eat_nat s = Some (n, r)"
  shows "\<exists>a. s = a @ r \<and> unsigned a n"
proof -
  obtain vs where vs: "digit_run s = (vs, r)" "vs \<noteq> []" "n = (False, vs)"
    using assms by (auto simp: eat_nat_def split: prod.splits if_splits)
  then show ?thesis using digit_run_split [OF vs(1)] by (auto simp: unsigned_def)
qed

lemma unsigned_not_minus: "unsigned a n \<Longrightarrow> \<not> starts ''-'' (a @ s)"
proof
  assume a: "unsigned a n" "starts ''-'' (a @ s)"
  then have "a \<noteq> []" by (auto simp: unsigned_def digit_run.simps [of "[]"] next_digit_def)
  then obtain b where "a = CHR ''-'' # b" using a(2) by (cases a) (auto simp: starts_def)
  then show False using a(1) by (simp add: unsigned_def digit_run.simps [of "_ # _"] next_digit_def)
qed

lemma eat_int_append:
  assumes "signed a n" "next_digit s = None"
  shows "eat_int (a @ s) = Some (n, s)"
  using assms(1) unfolding signed_def
proof
  assume "unsigned a n"
  then show ?thesis using assms(2) unsigned_not_minus by (simp add: eat_int_def eat_nat_append)
next
  assume "\<exists>b. a = CHR ''-'' # b \<and> fst n \<and> unsigned b (False, snd n)"
  then show ?thesis using assms(2) by (cases n) (auto simp: eat_int_def eat_nat_append starts_def)
qed

lemma eat_int_SomeD:
  assumes "eat_int s = Some (n, r)"
  shows "\<exists>a. s = a @ r \<and> signed a n"
proof (cases "starts ''-'' s")
  case True
  then obtain t where t: "s = CHR ''-'' # t" by (cases s) (auto simp: starts_def)
  then obtain b vs where m: "eat_nat t = Some ((b, vs), r)" "n = (True, vs)"
    using assms True by (auto simp: eat_int_def)
  obtain a where a: "t = a @ r" "unsigned a (b, vs)" using eat_nat_SomeD [OF m(1)] by blast
  then have "s = (CHR ''-'' # a) @ r" "signed (CHR ''-'' # a) n" using t m(2) by (auto simp: signed_def unsigned_def)
  then show ?thesis by blast
next
  case False
  then show ?thesis using assms eat_nat_SomeD [of s n r] by (auto simp: eat_int_def signed_def)
qed

lemma next_digit_simps [simp]: "next_digit (CHR '' '' # s) = None" "next_digit [] = None"
  by (simp_all add: next_digit_def space_not_key)

lemma match_between_iff:
  "match_between text = Some r \<longleftrightarrow> (\<exists>k l h. r = BetweenMatch k l h \<and> is_key k \<and> spells text r)"
proof
  assume "match_between text = Some r"
  then obtain k s1 s2 l s3 s4 h where m: "eat_key text = Some (k, s1)" "eat '' between '' s1 = Some s2"
    "eat_int s2 = Some (l, s3)" "eat '' and '' s3 = Some s4" "eat_int s4 = Some (h, '' inclusive'')"
    and r: "r = BetweenMatch k l h"
    unfolding match_between_def by (auto simp: bind_eq_Some_conv split: if_splits)
  obtain a b where i: "s2 = a @ s3" "signed a l" "s4 = b @ '' inclusive''" "signed b h"
    using eat_int_SomeD [OF m(3)] eat_int_SomeD [OF m(5)] by blast
  have t: "text = k @ '' between '' @ a @ '' and '' @ b @ '' inclusive''" and k: "is_key k"
    using eat_key_SomeD [OF m(1)] eat_SomeD [OF m(2)] eat_SomeD [OF m(4)] i by simp_all
  have "spells text r"
    unfolding r spells.simps by (rule exI [of _ a], rule exI [of _ b]) (intro conjI t i)
  with r k show "\<exists>k l h. r = BetweenMatch k l h \<and> is_key k \<and> spells text r"
    by (intro exI conjI)
next
  assume "\<exists>k l h. r = BetweenMatch k l h \<and> is_key k \<and> spells text r"
  then obtain k l h a b where r: "r = BetweenMatch k l h" and k: "is_key k"
    and t: "text = k @ '' between '' @ a @ '' and '' @ b @ '' inclusive''"
    and ab: "signed a l" "signed b h"
    unfolding spells.simps by auto
  have "eat_key text = Some (k, '' between '' @ a @ '' and '' @ b @ '' inclusive'')"
    using eat_key_append [OF k] by (simp add: t)
  moreover have "eat_int (a @ '' and '' @ b @ '' inclusive'') = Some (l, '' and '' @ b @ '' inclusive'')"
    "eat_int (b @ '' inclusive'') = Some (h, '' inclusive'')"
    using eat_int_append ab by simp_all
  ultimately show "match_between text = Some r"
    unfolding match_between_def r by (simp only: Option.bind.simps prod.case eat_append if_True refl)
qed

lemma match_at_least_iff:
  "match_at_least text = Some r \<longleftrightarrow> (\<exists>k n. r = AtLeastMatch k n \<and> is_key k \<and> spells text r)"
proof
  assume "match_at_least text = Some r"
  then obtain k s1 s2 n where m: "eat_key text = Some (k, s1)" "eat '' at least '' s1 = Some s2"
    "eat_int s2 = Some (n, [])" and r: "r = AtLeastMatch k n"
    unfolding match_at_least_def by (auto simp: bind_eq_Some_conv split: if_splits)
  have t: "text = k @ '' at least '' @ s2" and k: "is_key k" and n: "signed s2 n"
    using eat_key_SomeD [OF m(1)] eat_SomeD [OF m(2)] eat_int_SomeD [OF m(3)] by simp_all
  have "spells text r"
    unfolding r spells.simps by (rule exI [of _ s2]) (intro conjI t n)
  with r k show "\<exists>k n. r = AtLeastMatch k n \<and> is_key k \<and> spells text r"
    by (intro exI conjI)
next
  assume "\<exists>k n. r = AtLeastMatch k n \<and> is_key k \<and> spells text r"
  then obtain k n a where r: "r = AtLeastMatch k n" and k: "is_key k"
    and t: "text = k @ '' at least '' @ a" and a: "signed a n"
    unfolding spells.simps by auto
  have "eat_key text = Some (k, '' at least '' @ a)"
    using eat_key_append [OF k] by (simp add: t)
  moreover have "eat_int a = Some (n, [])"
    using eat_int_append [OF a, of "[]"] by simp
  ultimately show "match_at_least text = Some r"
    unfolding match_at_least_def r by (simp only: Option.bind.simps prod.case eat_append if_True refl)
qed

lemma match_observed_within_iff:
  "match_observed_within text = Some r \<longleftrightarrow>
     (\<exists>k n. r = ObservedWithinMatch k n \<and> is_key k \<and> spells text r)"
proof
  assume "match_observed_within text = Some r"
  then obtain k s1 s2 n where m: "eat_key text = Some (k, s1)" "eat '' observed within '' s1 = Some s2"
    "eat_nat s2 = Some (n, '' days before the decision boundary'')" and r: "r = ObservedWithinMatch k n"
    unfolding match_observed_within_def by (auto simp: bind_eq_Some_conv split: if_splits)
  obtain ds where i: "s2 = ds @ '' days before the decision boundary''" "unsigned ds n"
    using eat_nat_SomeD [OF m(3)] by blast
  have t: "text = k @ '' observed within '' @ ds @ '' days before the decision boundary''" and k: "is_key k"
    using eat_key_SomeD [OF m(1)] eat_SomeD [OF m(2)] i by simp_all
  have "spells text r"
    unfolding r spells.simps by (rule exI [of _ ds]) (intro conjI t i)
  with r k show "\<exists>k n. r = ObservedWithinMatch k n \<and> is_key k \<and> spells text r"
    by (intro exI conjI)
next
  assume "\<exists>k n. r = ObservedWithinMatch k n \<and> is_key k \<and> spells text r"
  then obtain k n a where r: "r = ObservedWithinMatch k n" and k: "is_key k"
    and t: "text = k @ '' observed within '' @ a @ '' days before the decision boundary''"
    and a: "unsigned a n"
    unfolding spells.simps by auto
  have "eat_key text = Some (k, '' observed within '' @ a @ '' days before the decision boundary'')"
    using eat_key_append [OF k] by (simp add: t)
  moreover have "eat_nat (a @ '' days before the decision boundary'') = Some (n, '' days before the decision boundary'')"
    using eat_nat_append [OF a] by simp
  ultimately show "match_observed_within text = Some r"
    unfolding match_observed_within_def r by (simp only: Option.bind.simps prod.case eat_append if_True refl)
qed

lemma match_equals_iff:
  "match_equals text = Some r \<longleftrightarrow> (\<exists>k lit. r = EqualsMatch k lit \<and> is_key k \<and> spells text r)"
proof
  assume "match_equals text = Some r"
  then obtain k s1 s2 where m: "eat_key text = Some (k, s1)" "eat ('' equals '' @ [CHR 0x27]) s1 = Some s2"
    and d: "drop (length (takeWhile (\<lambda>c. c \<noteq> CHR 0x27) s2)) s2 = [CHR 0x27]"
    and r: "r = EqualsMatch k (takeWhile (\<lambda>c. c \<noteq> CHR 0x27) s2)"
    unfolding match_equals_def by (auto simp: bind_eq_Some_conv Let_def split: if_splits)
  define lit where "lit = takeWhile (\<lambda>c. c \<noteq> CHR 0x27) s2"
  have "s2 = lit @ [CHR 0x27]"
    using d takeWhile_dropWhile_id [of "\<lambda>c. c \<noteq> CHR 0x27" s2] by (simp add: lit_def dropWhile_eq_drop)
  then have t: "text = k @ '' equals '' @ CHR 0x27 # lit @ [CHR 0x27]" and k: "is_key k"
    using eat_key_SomeD [OF m(1)] eat_SomeD [OF m(2)] by simp_all
  have q: "CHR 0x27 \<notin> set lit" unfolding lit_def by (auto dest: set_takeWhileD)
  have r': "r = EqualsMatch k lit" using r by (simp add: lit_def)
  have "spells text r" unfolding r' spells.simps by (intro conjI t q)
  with r' k show "\<exists>k lit. r = EqualsMatch k lit \<and> is_key k \<and> spells text r"
    by (intro exI conjI)
next
  assume "\<exists>k lit. r = EqualsMatch k lit \<and> is_key k \<and> spells text r"
  then obtain k lit where r: "r = EqualsMatch k lit" and k: "is_key k"
    and t: "text = k @ '' equals '' @ CHR 0x27 # lit @ [CHR 0x27]" and q: "CHR 0x27 \<notin> set lit"
    unfolding spells.simps by auto
  have "eat_key text = Some (k, ('' equals '' @ [CHR 0x27]) @ lit @ [CHR 0x27])"
    using eat_key_append [OF k] by (simp add: t)
  moreover have tw: "takeWhile (\<lambda>c. c \<noteq> CHR 0x27) (lit @ [CHR 0x27]) = lit"
    using q by (intro takeWhile_append_stop) (auto simp: list_all_iff)
  have "drop (length lit) (lit @ [CHR 0x27]) = [CHR 0x27]" by simp
  ultimately show "match_equals text = Some r"
    unfolding match_equals_def r
    by (simp only: Option.bind.simps prod.case eat_append Let_def tw if_True refl)
qed

text \<open>The shapes exclude one another: the character after the key and its space differs.\<close>

fun match_tag :: "rule_match_object \<Rightarrow> char" where
  "match_tag (BetweenMatch _ _ _) = CHR ''b''"
| "match_tag (EqualsMatch _ _) = CHR ''e''"
| "match_tag (AtLeastMatch _ _) = CHR ''a''"
| "match_tag (ObservedWithinMatch _ _) = CHR ''o''"

lemma captures_tag: "spells text r \<Longrightarrow> \<exists>s. text = match_key r @ CHR '' '' # match_tag r # s"
  by (cases r) auto

lemma key_prefix_unique:
  assumes "is_key k" "is_key k'" "k @ CHR '' '' # s = k' @ CHR '' '' # s'"
  shows "k = k' \<and> s = s'"
proof -
  have "eat_key (k @ CHR '' '' # s) = eat_key (k' @ CHR '' '' # s')"
    using assms(3) by (rule arg_cong)
  then show ?thesis
    by (simp only: eat_key_append [OF assms(1)] eat_key_append [OF assms(2)]) simp
qed

lemma same_tag:
  assumes "spells text r" "spells text r'" "is_key (match_key r)" "is_key (match_key r')"
  shows "match_tag r = match_tag r'"
proof -
  obtain s s' where "text = match_key r @ CHR '' '' # match_tag r # s"
    "text = match_key r' @ CHR '' '' # match_tag r' # s'"
    using captures_tag [OF assms(1)] captures_tag [OF assms(2)] by blast
  then have "match_key r @ CHR '' '' # match_tag r # s = match_key r' @ CHR '' '' # match_tag r' # s'"
    by metis
  from key_prefix_unique [OF assms(3,4) this] show ?thesis by simp
qed

definition is_match :: "string \<Rightarrow> rule_match_object \<Rightarrow> bool" where
  "is_match text r \<longleftrightarrow> is_key (match_key r) \<and> spells text r"

lemma matcher_iffs:
  "match_between text = Some r \<longleftrightarrow> is_match text r \<and> match_tag r = CHR ''b''"
  "match_equals text = Some r \<longleftrightarrow> is_match text r \<and> match_tag r = CHR ''e''"
  "match_at_least text = Some r \<longleftrightarrow> is_match text r \<and> match_tag r = CHR ''a''"
  "match_observed_within text = Some r \<longleftrightarrow> is_match text r \<and> match_tag r = CHR ''o''"
  unfolding match_between_iff match_equals_iff match_at_least_iff match_observed_within_iff is_match_def
  by (cases r; simp del: spells.simps)+

lemma matched_same_tag: "is_match text r \<Longrightarrow> is_match text r' \<Longrightarrow> match_tag r = match_tag r'"
  unfolding is_match_def using same_tag by blast

lemma tag_cases: "match_tag r = CHR ''b'' \<or> match_tag r = CHR ''e'' \<or> match_tag r = CHR ''a'' \<or> match_tag r = CHR ''o''"
  by (cases r) auto

lemma matcher_None:
  assumes "is_match text r"
  shows "match_tag r \<noteq> CHR ''b'' \<Longrightarrow> match_between text = None"
    "match_tag r \<noteq> CHR ''e'' \<Longrightarrow> match_equals text = None"
    "match_tag r \<noteq> CHR ''a'' \<Longrightarrow> match_at_least text = None"
  using matched_same_tag [OF assms] matcher_iffs [of "text"] by (metis not_None_eq)+

lemma first_match_iff: "first_match text = Some r \<longleftrightarrow> is_match text r"
proof
  assume "first_match text = Some r"
  then have "match_between text = Some r \<or> match_equals text = Some r
      \<or> match_at_least text = Some r \<or> match_observed_within text = Some r"
    unfolding first_match_def by (auto split: option.splits)
  then show "is_match text r" by (simp only: matcher_iffs) blast
next
  assume r: "is_match text r"
  from tag_cases [of r] matcher_None [OF r] matcher_iffs [of "text" r] r
  show "first_match text = Some r"
    unfolding first_match_def by (elim disjE) simp_all
qed

text \<open>
  The rules a text reads as: a number is the value of a numeral of at most 4300 digits.  A text can also have
  one of the shapes with a longer numeral.
\<close>

definition reads :: "string \<Rightarrow> rule \<Rightarrow> bool" where
  "reads text r \<longleftrightarrow> (\<exists>m. is_match text m \<and> build_rule m = Inr r)"

fun numerals :: "rule_match_object \<Rightarrow> numeral_text list" where
  "numerals (BetweenMatch _ low high) = [low, high]"
| "numerals (EqualsMatch _ _) = []"
| "numerals (AtLeastMatch _ n) = [n]"
| "numerals (ObservedWithinMatch _ n) = [n]"

definition too_long :: "string \<Rightarrow> string \<Rightarrow> bool" where
  "too_long key text \<longleftrightarrow>
     (\<exists>m. is_match text m \<and> match_key m = key \<and> (\<exists>n\<in>set (numerals m). INT_MAX_STR_DIGITS < length (snd n)))"

lemma matched_unique: "is_match text m \<Longrightarrow> is_match text m' \<Longrightarrow> m = m'"
  using first_match_iff [of "text" m] first_match_iff [of "text" m'] by simp

lemma py_int_cases: "py_int n = Inl e \<longleftrightarrow> INT_MAX_STR_DIGITS < length (snd n) \<and> e = PyValueError"
  by (auto simp: py_int_def split: prod.splits)

lemma build_rule_key: "build_rule m = Inr r \<Longrightarrow> rule_key r = match_key m"
  by (cases m) auto

lemma build_rule_Inl:
  "build_rule m = Inl e \<longleftrightarrow> e = PyValueError \<and> (\<exists>n\<in>set (numerals m). INT_MAX_STR_DIGITS < length (snd n))"
  by (cases m) (auto simp: bindE_eq_Inl py_int_cases; auto simp: py_int_def split: prod.splits if_splits)+

lemma parse_rule_Inr: "parse_rule key text = Inr r \<longleftrightarrow> rule_key r = key \<and> reads text r"
  unfolding parse_rule_def reads_def first_match_iff [symmetric]
  by (cases "first_match text") (auto dest: build_rule_key)

lemma parse_rule_escapes: "(\<exists>e. parse_rule key text = Inl e \<and> \<not> named_rule_error e) \<longleftrightarrow> too_long key text"
  unfolding parse_rule_def too_long_def first_match_iff [symmetric]
  by (cases "first_match text") (auto simp: build_rule_Inl)


text \<open>The shapes, written out.\<close>

definition numeral_of :: "string \<Rightarrow> int \<Rightarrow> bool" where
  "numeral_of a i \<longleftrightarrow> (\<exists>n. signed a n \<and> py_int n = Inr i)"

lemma reads_simps:
  "reads text (BetweenRule k l h) \<longleftrightarrow> is_key k \<and> (\<exists>a b. text = k @ '' between '' @ a @ '' and '' @ b @ '' inclusive'' \<and>
     numeral_of a l \<and> numeral_of b h)"
  "reads text (EqualsRule k lit) \<longleftrightarrow> is_key k \<and> text = k @ '' equals '' @ CHR 0x27 # lit @ [CHR 0x27] \<and> CHR 0x27 \<notin> set lit"
  "reads text (AtLeastRule k i) \<longleftrightarrow> is_key k \<and> (\<exists>a. text = k @ '' at least '' @ a \<and> numeral_of a i)"
  "reads text (ObservedWithinRule k d) \<longleftrightarrow> is_key k \<and>
     (\<exists>a n. text = k @ '' observed within '' @ a @ '' days before the decision boundary'' \<and> unsigned a n \<and> py_int n = Inr d)"
proof -
  have b: "build_rule m = Inr (BetweenRule k l h) \<longleftrightarrow> (\<exists>x y. m = BetweenMatch k x y \<and> py_int x = Inr l \<and> py_int y = Inr h)"
    "build_rule m = Inr (EqualsRule k lit) \<longleftrightarrow> m = EqualsMatch k lit"
    "build_rule m = Inr (AtLeastRule k i) \<longleftrightarrow> (\<exists>x. m = AtLeastMatch k x \<and> py_int x = Inr i)"
    "build_rule m = Inr (ObservedWithinRule k d) \<longleftrightarrow> (\<exists>x. m = ObservedWithinMatch k x \<and> py_int x = Inr d)" for m
    by (cases m; auto)+
  have x: "(\<exists>m. P m \<and> (\<exists>x. m = F x \<and> Q x)) \<longleftrightarrow> (\<exists>x. P (F x) \<and> Q x)"
    "(\<exists>m. P m \<and> (\<exists>x y. m = G x y \<and> R x y)) \<longleftrightarrow> (\<exists>x y. P (G x y) \<and> R x y)"
    for P :: "rule_match_object \<Rightarrow> bool" and F :: "numeral_text \<Rightarrow> rule_match_object" and Q
      and G :: "numeral_text \<Rightarrow> numeral_text \<Rightarrow> rule_match_object" and R by blast+
  show "reads text (BetweenRule k l h) \<longleftrightarrow> is_key k \<and> (\<exists>a b. text = k @ '' between '' @ a @ '' and '' @ b @ '' inclusive'' \<and>
     numeral_of a l \<and> numeral_of b h)" unfolding reads_def b is_match_def numeral_of_def x spells.simps match_key.simps by blast
  show "reads text (EqualsRule k lit) \<longleftrightarrow> is_key k \<and> text = k @ '' equals '' @ CHR 0x27 # lit @ [CHR 0x27] \<and> CHR 0x27 \<notin> set lit"
    unfolding reads_def b is_match_def by simp
  show "reads text (AtLeastRule k i) \<longleftrightarrow> is_key k \<and> (\<exists>a. text = k @ '' at least '' @ a \<and> numeral_of a i)"
    unfolding reads_def b is_match_def numeral_of_def x spells.simps match_key.simps by blast
  show "reads text (ObservedWithinRule k d) \<longleftrightarrow> is_key k \<and>
     (\<exists>a n. text = k @ '' observed within '' @ a @ '' days before the decision boundary'' \<and> unsigned a n \<and> py_int n = Inr d)"
    unfolding reads_def b is_match_def x spells.simps match_key.simps by blast
qed

lemma unsigned_days: "unsigned a n \<Longrightarrow> py_int n = Inr d \<Longrightarrow> 0 \<le> d"
  by (auto simp: unsigned_def py_int_def split: prod.splits if_splits)

lemma parsed_days: "parse_rule key text = Inr (ObservedWithinRule k d) \<Longrightarrow> 0 \<le> d"
  unfolding parse_rule_Inr reads_simps using unsigned_days by blast

subsection \<open>Writing a rule and reading it back\<close>

fun rule_text :: "rule \<Rightarrow> string" where
  "rule_text (BetweenRule k l h) = k @ '' between '' @ int_text l @ '' and '' @ int_text h @ '' inclusive''"
| "rule_text (EqualsRule k lit) = k @ '' equals '' @ CHR 0x27 # lit @ [CHR 0x27]"
| "rule_text (AtLeastRule k n) = k @ '' at least '' @ int_text n"
| "rule_text (ObservedWithinRule k n) =
     k @ '' observed within '' @ nat_text (nat n) @ '' days before the decision boundary''"

definition short_int :: "int \<Rightarrow> bool" where
  "short_int i \<longleftrightarrow> length (nat_text (nat \<bar>i\<bar>)) \<le> INT_MAX_STR_DIGITS"

fun wf_rule :: "rule \<Rightarrow> bool" where
  "wf_rule (BetweenRule k l h) = (is_key k \<and> short_int l \<and> short_int h)"
| "wf_rule (EqualsRule k lit) = (is_key k \<and> CHR 0x27 \<notin> set lit)"
| "wf_rule (AtLeastRule k n) = (is_key k \<and> short_int n)"
| "wf_rule (ObservedWithinRule k n) = (is_key k \<and> 0 \<le> n \<and> short_int n)"

lemma nat_text_unsigned: "unsigned (nat_text n) (False, map digit_val (nat_text n))"
  by (simp add: unsigned_def)

lemma int_text_numeral: "short_int i \<Longrightarrow> numeral_of (int_text i) i"
proof -
  assume i: "short_int i"
  let ?n = "(i < 0, map digit_val (nat_text (nat \<bar>i\<bar>)))"
  have "signed (int_text i) ?n" by (cases "i < 0") (simp_all add: signed_def int_text_def unsigned_def)
  moreover have "py_int ?n = Inr i"
    using i by (cases "i < 0") (simp_all add: py_int_def short_int_def decimal_of_ascii not_less)
  ultimately show ?thesis unfolding numeral_of_def by blast
qed

lemma rule_text_reads: "wf_rule r \<Longrightarrow> reads (rule_text r) r"
proof (cases r)
  case (ObservedWithinRule k n)
  assume w: "wf_rule r"
  have "py_int (False, map digit_val (nat_text (nat n))) = Inr n"
    using w ObservedWithinRule by (auto simp: py_int_def short_int_def decimal_of_ascii not_less)
  then show ?thesis using w nat_text_unsigned [of "nat n"] unfolding ObservedWithinRule rule_text.simps reads_simps wf_rule.simps by blast
next
  case (BetweenRule k l h)
  assume w: "wf_rule r"
  then have "numeral_of (int_text l) l" "numeral_of (int_text h) h" using BetweenRule int_text_numeral by simp_all
  then show ?thesis using w unfolding BetweenRule rule_text.simps reads_simps wf_rule.simps by blast
next
  case (AtLeastRule k n)
  assume w: "wf_rule r"
  then have "numeral_of (int_text n) n" using AtLeastRule int_text_numeral by simp
  then show ?thesis using w unfolding AtLeastRule rule_text.simps reads_simps wf_rule.simps by blast
next
  case (EqualsRule k lit)
  assume "wf_rule r"
  then show ?thesis unfolding EqualsRule rule_text.simps reads_simps wf_rule.simps by blast
qed

text \<open>A well-formed rule written in the grammar parses back to itself, for the factor it names.\<close>
theorem parse_rule_text: "wf_rule r \<Longrightarrow> parse_rule (rule_key r) (rule_text r) = Inr r"
  unfolding parse_rule_Inr using rule_text_reads by simp

theorem parse_rule_text_witness:
  "parse_rule ''employee_count'' (rule_text (BetweenRule ''employee_count'' 50 500))
     = Inr (BetweenRule ''employee_count'' 50 500)"
  using parse_rule_text [of "BetweenRule ''employee_count'' 50 500"]
  by (simp add: is_key_def is_key_start_def is_key_char_def short_int_def INT_MAX_STR_DIGITS_def nat_text.simps)

subsection \<open>The closed grammar refuses decorations\<close>

lemma digit_not_ws: "is_digit c \<or> continues c \<Longrightarrow> \<not> is_ws c"
  by (auto simp: is_digit_def continues_def is_ws_def)

lemma unsigned_last: "unsigned a n \<Longrightarrow> a \<noteq> [] \<and> \<not> is_ws (last a)"
  using digit_run_split [of a "snd n" "[]"] digit_not_ws by (auto simp: unsigned_def)

lemma signed_last: "signed a n \<Longrightarrow> a \<noteq> [] \<and> \<not> is_ws (last a)"
  unfolding signed_def using unsigned_last by (auto dest!: unsigned_last)

lemma matched_last:
  assumes "is_match text m"
  shows "text \<noteq> [] \<and> \<not> is_ws (last text)"
proof (cases m)
  case (AtLeastMatch k n)
  then obtain a where "text = k @ '' at least '' @ a" "signed a n" using assms by (auto simp: is_match_def)
  then show ?thesis using signed_last by auto
qed (use assms in \<open>auto simp: is_match_def is_ws_def\<close>)

text \<open>Text with so much as a trailing white-space character is refused: if \<open>t\<close> followed by a
  space, tab, newline or carriage return were accepted, the grammar would not be closed.\<close>
theorem parse_rule_trailing_ws: "is_ws c \<Longrightarrow> parse_rule key (t @ [c]) = Inl (UnsupportedRule key (t @ [c]))"
proof -
  assume c: "is_ws c"
  have "first_match (t @ [c]) = None"
  proof (rule ccontr)
    assume "first_match (t @ [c]) \<noteq> None"
    then obtain m where "is_match (t @ [c]) m" using first_match_iff by blast
    from matched_last [OF this] c show False by simp
  qed
  then show ?thesis by (simp add: parse_rule_def)
qed

theorem parse_rule_trailing_ws_witness:
  "parse_rule ''employee_count'' (''employee_count at least 50'' @ [CHR 0x0A]) =
     Inl (UnsupportedRule ''employee_count'' (''employee_count at least 50'' @ [CHR 0x0A]))"
  by (rule parse_rule_trailing_ws) (simp add: is_ws_def)

subsection \<open>The temporal window\<close>

lemma micros_midnight: "utc_micros (midnight d) = date_ordinal d * 86400000000"
  by (simp add: utc_micros_def midnight_def micros_of_day_def)

lemma valid_midnight: "valid_date d \<Longrightarrow> valid_utc (midnight d)"
  by (simp add: midnight_def)

lemma observed_within_micros:
  assumes "\<And>b. v \<noteq> JBool b" "valid_date obs" "valid_utc b" "0 \<le> n" "n \<le> 999999999"
  shows "rule_matches (ObservedWithinRule k n) v (Some obs) b =
    Inr (0 \<le> utc_micros b - date_ordinal obs * 86400000000 \<and>
         utc_micros b - date_ordinal obs * 86400000000 \<le> n * 24 * 3600000000)"
proof -
  have "b < midnight obs \<longleftrightarrow> utc_micros b < date_ordinal obs * 86400000000"
    using utc_micros_less [OF assms(3) valid_midnight [OF assms(2)]] by (simp add: micros_midnight)
  moreover have "reject_bool k v = None"
    using assms(1) by (cases v) (auto simp: reject_bool_def)
  ultimately show ?thesis
    using assms(4,5) by (auto simp: timedelta_days_def days_delta_def micros_midnight)
qed

text \<open>The \<open>observed within n days\<close> rule is elapsed time, not calendar days: on a preserved
  non-boolean value with an observation date \<open>o\<close>, it matches exactly when
  \<open>0 \<le> T(d) - o 00:00Z \<le> n * 24h\<close>.\<close>
theorem observed_within_elapsed:
  assumes "\<And>b. v \<noteq> JBool b" "valid_date obs" "valid_utc b" "0 \<le> n" "n \<le> 999999999"
  shows "rule_matches (ObservedWithinRule k n) v (Some obs) b =
    Inr (0 \<le> utc_micros b - date_ordinal obs * 86400000000 \<and>
         utc_micros b - date_ordinal obs * 86400000000 \<le> n * 24 * 3600000000)"
  using assms by (rule observed_within_micros)

theorem observed_within_elapsed_witness:
  "rule_matches (ObservedWithinRule ''funding_event'' 90) (JStr ''Series B'') (Some (Date 2026 3 30))
     (Utc (Date 2026 4 17) 10 5 2 0) = Inr True"
  by (subst observed_within_elapsed)
     (simp_all add: valid_ymd_def days_in_month_def is_leap_def utc_micros_def date_ordinal_def
        micros_of_day_def ymd2ord_def days_before_year_def days_before_month_def)

text \<open>A date exactly \<open>n\<close> calendar days before the boundary's date matches only when the boundary
  is at midnight UTC: against any later time of day it falls outside the window.\<close>
theorem observed_within_calendar:
  assumes "\<And>b. v \<noteq> JBool b" "valid_date obs" "valid_utc b" "0 \<le> n" "n \<le> 999999999"
    "date_ordinal (u_date b) - date_ordinal obs = n"
  shows "rule_matches (ObservedWithinRule k n) v (Some obs) b = Inr (micros_of_day b = 0)"
proof -
  have "utc_micros b - date_ordinal obs * 86400000000 = n * 86400000000 + micros_of_day b"
    using assms(6) by (simp add: utc_micros_def algebra_simps)
  then show ?thesis
    using observed_within_micros [OF assms(1-5)] micros_of_day_bounds [OF assms(3)] assms(4) by auto
qed

theorem observed_within_calendar_witness:
  "rule_matches (ObservedWithinRule ''funding_event'' 18) (JStr ''Series B'') (Some (Date 2026 3 30))
     (Utc (Date 2026 4 17) 10 5 2 0) = Inr False"
  by (subst observed_within_calendar)
     (simp_all add: valid_ymd_def days_in_month_def is_leap_def date_ordinal_def
        micros_of_day_def ymd2ord_def days_before_year_def days_before_month_def)

text \<open>C40: A window of more than 999999999 days parses like any other, as long as its days have at most 4300 digits;
  but on a preserved value that is not a boolean, with an observation that is not after the boundary, its
  evaluation leaves through Python's OverflowError, which is none of the module's named failures.\<close>
theorem observed_within_overflow:
  assumes "is_key k" "999999999 < n" "length (nat_text (nat n)) \<le> INT_MAX_STR_DIGITS"
    "\<And>b. v \<noteq> JBool b" "\<not> b < midnight obs"
  shows "parse_rule k (rule_text (ObservedWithinRule k n)) = Inr (ObservedWithinRule k n) \<and>
    rule_matches (ObservedWithinRule k n) v (Some obs) b = Inl PyOverflow \<and> \<not> named_rule_error PyOverflow"
proof -
  have "wf_rule (ObservedWithinRule k n)" using assms(1-3) by (simp add: short_int_def)
  from rule_text_reads [OF this] have "parse_rule k (rule_text (ObservedWithinRule k n)) = Inr (ObservedWithinRule k n)"
    by (simp add: parse_rule_Inr)
  moreover have "reject_bool k v = None" using assms(4) by (cases v) (auto simp: reject_bool_def)
  ultimately show ?thesis using assms(2,5) by (simp add: timedelta_days_def)
qed

theorem observed_within_overflow_witness:
  "parse_rule ''funding_event'' ''funding_event observed within 1000000000 days before the decision boundary'' =
     Inr (ObservedWithinRule ''funding_event'' 1000000000) \<and>
   rule_matches (ObservedWithinRule ''funding_event'' 1000000000) (JStr ''Series B'') (Some (Date 2026 3 30))
     (Utc (Date 2026 4 17) 10 5 2 0) = Inl PyOverflow"
proof -
  have "digit_char 0 = CHR ''0''" "digit_char 1 = CHR ''1''" by code_simp+
  then have t: "nat_text (nat 1000000000) = ''1000000000''" by (simp add: nat_text.simps)
  have k: "is_key ''funding_event''" by code_simp
  have l: "length (nat_text (nat 1000000000)) \<le> INT_MAX_STR_DIGITS" unfolding t by (simp add: INT_MAX_STR_DIGITS_def)
  show ?thesis
    using observed_within_overflow [OF k _ l, of "JStr ''Series B''" "Utc (Date 2026 4 17) 10 5 2 0" "Date 2026 3 30"]
    by (simp add: t [simplified] midnight_def less_utc_def less_date_def)
qed

end
