(* ===== verification/Schema.thy ===== *)
theory Schema
  imports Rules Sha256
begin

text \<open>
  \<open>collector/schema.py\<close>: the envelope models of schema version 1 and outcome version 2 as
  records, with the constraints their fields declare and their model validators.  A value of
  these types is what pydantic's field decoding hands to the validators: literals are still
  strings here, timestamps are already normalized to UTC (\<open>Timestamp\<close>).  \<open>dump_envelope\<close> is
  \<open>model_dump(mode="json")\<close>.  The CRM and HubSpot capture forms (schema version 2 and 3 of
  evidence and decisions, \<open>external_operation.observed\<close>) are not part of the type.
\<close>

subsection \<open>Field types\<close>

definition nonempty :: "string \<Rightarrow> bool" where
  "nonempty s \<longleftrightarrow> s \<noteq> []"

definition nonempty_opt :: "string option \<Rightarrow> bool" where
  "nonempty_opt s \<longleftrightarrow> (case s of None \<Rightarrow> True | Some t \<Rightarrow> nonempty t)"

text \<open>
  \<open>^-?\<backslash>d+\<backslash>.\<backslash>d{2}$\<close> and \<open>^[0-9a-f]{64}$\<close>; in pydantic's engine \<open>$\<close> is the end of the text and \<open>\<backslash>d\<close> any decimal
  digit of Unicode.
\<close>

definition decimal_string :: "string \<Rightarrow> bool" where
  "decimal_string s \<longleftrightarrow>
     (case digit_run (if starts ''-'' s then drop 1 s else s) of (vs, t) \<Rightarrow>
        vs \<noteq> [] \<and> starts ''.'' t \<and> eat_digits 2 (drop 1 t) = Some [])"

definition is_lower_hex :: "char \<Rightarrow> bool" where
  "is_lower_hex c \<longleftrightarrow> is_digit c \<or> (97 \<le> (of_char c :: nat) \<and> (of_char c :: nat) \<le> 102)"

definition sha256_hex_string :: "string \<Rightarrow> bool" where
  "sha256_hex_string s \<longleftrightarrow> length s = 64 \<and> list_all is_lower_hex s"

definition SYSTEM_ACCOUNT_REF :: string where
  "SYSTEM_ACCOUNT_REF = ''_system''"

definition ATTRIBUTION_SOURCE :: string where
  "ATTRIBUTION_SOURCE = ''flight-recorder-attribution''"

subsection \<open>Payloads\<close>

record account_discovered =
  ad_name :: string
  ad_domain :: string

datatype evidence_value =
    EmployeeCount int
  | Industry string
  | HeadquartersCountry string
  | FundingEvent string date
  | OpenPlatformEngineeringRoles int
  | HeadOfPlatformStartDate date date
  | VerifiedIntegrationPressure string "string list"

record evidence_item =
  it_version_id :: string
  it_supersedes :: "string option"
  it_value :: evidence_value

record evidence_recorded =
  er_items :: "evidence_item list"

record context_entry =
  ce_input_key :: string
  ce_value :: json
  ce_availability :: string
  ce_evidence :: "string option"

record consumed_input =
  ci_input_key :: string
  ci_value :: json
  ci_evidence :: string
  ci_contribution :: int

record artifact_ref =
  ar_logic_version :: string
  ar_artifact_id :: string
  ar_artifact_hash :: string
  ar_evaluator_version :: string

record decision_result =
  dr_score :: int
  dr_threshold :: int
  dr_output :: string

record decision_recorded =
  de_decision_class :: string
  de_boundary :: utc
  de_workflow_version :: string
  de_context :: "context_entry list"
  de_consumed :: "consumed_input list"
  de_artifact :: artifact_ref
  de_result :: decision_result
  de_explanation :: "string option"

record persona_selected =
  ps_persona :: string
  ps_decision_event_id :: string
  ps_explanation :: "string option"

record action_recorded =
  ac_action_type :: string
  ac_play_id :: int
  ac_target_persona :: string
  ac_status :: string
  ac_cost :: string
  ac_currency :: string
  ac_decision_event_id :: string

record outcome_v1 =
  o1_window_days :: int
  o1_reply :: bool
  o1_meeting :: bool
  o1_opportunity :: bool
  o1_action_event_id :: string

record outcome_v2 =
  o2_window_opened_at :: utc
  o2_window_closes_at :: utc
  o2_evaluation_state :: string
  o2_observed_at :: utc
  o2_reply :: "bool option"
  o2_meeting :: "bool option"
  o2_opportunity :: "bool option"
  o2_source_action :: "string option"
  o2_source_decision :: "string option"
  o2_supersedes :: "string option"

record outcome_attributed =
  oa_outcome_event_id :: string
  oa_policy_version :: string
  oa_method :: string
  oa_window_days :: int
  oa_resolved_action :: "string option"
  oa_resolved_decision :: "string option"
  oa_status :: string
  oa_reason :: string
  oa_attributed_at :: utc
  oa_ingest_cutoff :: int
  oa_supersedes :: "string option"

record factor =
  fa_key :: string
  fa_rule :: string
  fa_weight :: int

record output_mapping =
  om_at_or_above :: string
  om_below :: string

record activation =
  av_activated_at :: utc
  av_deactivated_at :: "utc option"
  av_status :: string

record logic_artifact =
  la_schema_version :: string
  la_artifact_id :: string
  la_logic_version :: string
  la_decision_class :: string
  la_evaluator_version :: string
  la_factors :: "factor list"
  la_missing_value_behavior :: string
  la_threshold :: int
  la_output_mapping :: output_mapping
  la_activation :: activation

datatype payload =
    LogicArtifactRegistered logic_artifact
  | AccountDiscovered account_discovered
  | EvidenceRecorded evidence_recorded
  | DecisionRecorded decision_recorded
  | PersonaSelected persona_selected
  | ActionRecorded action_recorded
  | OutcomeEvaluated outcome_v1
  | OutcomeEvaluatedV2 outcome_v2
  | OutcomeAttributed outcome_attributed

record envelope =
  en_event_id :: string
  en_source :: string
  en_account_ref :: string
  en_occurred_at :: utc
  en_recorded_at :: utc
  en_payload :: payload

fun event_type :: "payload \<Rightarrow> string" where
  "event_type (LogicArtifactRegistered _) = ''logic_artifact.registered''"
| "event_type (AccountDiscovered _) = ''account.discovered''"
| "event_type (EvidenceRecorded _) = ''evidence.recorded''"
| "event_type (DecisionRecorded _) = ''decision.recorded''"
| "event_type (PersonaSelected _) = ''persona.selected''"
| "event_type (ActionRecorded _) = ''action.recorded''"
| "event_type (OutcomeEvaluated _) = ''outcome.evaluated''"
| "event_type (OutcomeEvaluatedV2 _) = ''outcome.evaluated''"
| "event_type (OutcomeAttributed _) = ''outcome.attributed''"

fun schema_version :: "payload \<Rightarrow> string" where
  "schema_version (OutcomeEvaluatedV2 _) = ''2''"
| "schema_version _ = ''1''"

fun is_registration :: "payload \<Rightarrow> bool" where
  "is_registration (LogicArtifactRegistered _) = True"
| "is_registration _ = False"

subsection \<open>Model validators\<close>

text \<open>The failures the model validators raise, in the order the validators are declared.\<close>

datatype schema_error =
    InvalidField string
  | RepeatedKeys string "string list"
  | AvailableWithoutEvidence string
  | UnavailableWithEvidence string
  | UnavailableWithValue string
  | NoContextEntry string
  | ContextNotAvailable string
  | ConsumedValueDiffers string
  | ConsumedEvidenceDiffers string
  | PeriodNotOrdered
  | ObservedBeforePeriod
  | ClosedBeforePeriodEnd
  | OpenAfterPeriodEnd
  | DirectNeedsDecision
  | InferredNeedsActionAndDecision
  | UnresolvedWithReference
  | RecordedBeforeOccurred
  | RegistrationNeedsSystem
  | SystemIsReserved
  | BoundaryIsNotOccurrence
  | ObservedIsNotOccurrence
  | AttributedIsNotOccurrence

definition no_repeats :: "string \<Rightarrow> string list \<Rightarrow> schema_error option" where
  "no_repeats what keys = raise_if (duplicates keys \<noteq> []) (RepeatedKeys what (duplicates keys))"

lemma no_repeats_None [simp]: "no_repeats what keys = None \<longleftrightarrow> distinct keys"
  by (simp add: no_repeats_def duplicates_Nil_iff)

definition evidence_version_ids_are_unique :: "evidence_recorded \<Rightarrow> schema_error option" where
  "evidence_version_ids_are_unique p = no_repeats ''items'' (map it_version_id (er_items p))"

definition availability_is_coherent :: "context_entry \<Rightarrow> schema_error option" where
  "availability_is_coherent e =
     (if ce_availability e = ''available'' \<and> ce_evidence e = None
      then Some (AvailableWithoutEvidence (ce_input_key e))
      else if ce_availability e = ''unavailable'' then
        (if ce_evidence e \<noteq> None then Some (UnavailableWithEvidence (ce_input_key e))
         else if ce_value e \<noteq> JNull then Some (UnavailableWithValue (ce_input_key e))
         else None)
      else None)"

definition context_keys_are_unique :: "decision_recorded \<Rightarrow> schema_error option" where
  "context_keys_are_unique p = no_repeats ''historical_context'' (map ce_input_key (de_context p))"

definition consumed_keys_are_unique :: "decision_recorded \<Rightarrow> schema_error option" where
  "consumed_keys_are_unique p = no_repeats ''consumed_inputs'' (map ci_input_key (de_consumed p))"

text \<open>The dict \<open>context\<close> keeps the last entry of a key; its keys are unique by the validator before.\<close>

definition consumed_agrees :: "context_entry list \<Rightarrow> consumed_input \<Rightarrow> schema_error option" where
  "consumed_agrees ctx c =
     (case map_of (map (\<lambda>e. (ce_input_key e, e)) (rev ctx)) (ci_input_key c) of
        None \<Rightarrow> Some (NoContextEntry (ci_input_key c))
      | Some e \<Rightarrow>
          if ce_availability e \<noteq> ''available'' then Some (ContextNotAvailable (ci_input_key c))
          else if \<not> same_scalar (ci_value c) (ce_value e) then Some (ConsumedValueDiffers (ci_input_key c))
          else if Some (ci_evidence c) \<noteq> ce_evidence e then Some (ConsumedEvidenceDiffers (ci_input_key c))
          else None)"

definition consumed_inputs_agree_with_context :: "decision_recorded \<Rightarrow> schema_error option" where
  "consumed_inputs_agree_with_context p =
     first_failure (map (consumed_agrees (de_context p)) (de_consumed p))"

definition period_is_ordered :: "outcome_v2 \<Rightarrow> schema_error option" where
  "period_is_ordered p =
     (if \<not> o2_window_opened_at p < o2_window_closes_at p then Some PeriodNotOrdered
      else if o2_observed_at p < o2_window_opened_at p then Some ObservedBeforePeriod
      else None)"

definition state_agrees_with_the_as_of_instant :: "outcome_v2 \<Rightarrow> schema_error option" where
  "state_agrees_with_the_as_of_instant p =
     (if o2_evaluation_state p = ''closed'' \<and> o2_observed_at p < o2_window_closes_at p
      then Some ClosedBeforePeriodEnd
      else if o2_evaluation_state p = ''open'' \<and> o2_window_closes_at p \<le> o2_observed_at p
      then Some OpenAfterPeriodEnd
      else None)"

definition resolved_references_agree_with_status :: "outcome_attributed \<Rightarrow> schema_error option" where
  "resolved_references_agree_with_status p =
     (let action = oa_resolved_action p \<noteq> None; decision = oa_resolved_decision p \<noteq> None in
      if oa_status p = ''direct'' \<and> \<not> decision then Some DirectNeedsDecision
      else if oa_status p = ''inferred'' \<and> \<not> (action \<and> decision) then Some InferredNeedsActionAndDecision
      else if oa_status p = ''unresolved'' \<and> (action \<or> decision) then Some UnresolvedWithReference
      else None)"

definition factor_keys_are_unique :: "logic_artifact \<Rightarrow> schema_error option" where
  "factor_keys_are_unique a = no_repeats ''factors'' (map fa_key (la_factors a))"

definition recorded_not_before_occurred :: "envelope \<Rightarrow> schema_error option" where
  "recorded_not_before_occurred e = raise_if (en_recorded_at e < en_occurred_at e) RecordedBeforeOccurred"

definition system_principal_is_reserved :: "envelope \<Rightarrow> schema_error option" where
  "system_principal_is_reserved e =
     (let is_system = (en_account_ref e = SYSTEM_ACCOUNT_REF) in
      if is_registration (en_payload e) \<and> \<not> is_system then Some RegistrationNeedsSystem
      else if is_system \<and> \<not> is_registration (en_payload e) then Some SystemIsReserved
      else None)"

text \<open>The three validators that pin a payload instant to \<open>occurred_at\<close>.\<close>

fun occurrence_instant_agrees :: "envelope \<Rightarrow> payload \<Rightarrow> schema_error option" where
  "occurrence_instant_agrees e (DecisionRecorded p) =
     raise_if (de_boundary p \<noteq> en_occurred_at e) BoundaryIsNotOccurrence"
| "occurrence_instant_agrees e (OutcomeEvaluatedV2 p) =
     raise_if (o2_observed_at p \<noteq> en_occurred_at e) ObservedIsNotOccurrence"
| "occurrence_instant_agrees e (OutcomeAttributed p) =
     raise_if (oa_attributed_at p \<noteq> en_occurred_at e) AttributedIsNotOccurrence"
| "occurrence_instant_agrees e _ = None"

subsection \<open>Field constraints\<close>

fun value_fields :: "evidence_value \<Rightarrow> bool" where
  "value_fields (Industry s) = nonempty s"
| "value_fields (HeadquartersCountry s) = nonempty s"
| "value_fields (FundingEvent s d) = (nonempty s \<and> valid_date d)"
| "value_fields (HeadOfPlatformStartDate v d) = (valid_date v \<and> valid_date d)"
| "value_fields (VerifiedIntegrationPressure v basis) =
     (v \<in> {''LOW'', ''MEDIUM'', ''HIGH''} \<and> basis \<noteq> [] \<and> list_all nonempty basis)"
| "value_fields _ = True"

definition item_fields :: "evidence_item \<Rightarrow> bool" where
  "item_fields i \<longleftrightarrow> nonempty (it_version_id i) \<and> nonempty_opt (it_supersedes i) \<and> value_fields (it_value i)"

definition context_entry_fields :: "context_entry \<Rightarrow> bool" where
  "context_entry_fields e \<longleftrightarrow> nonempty (ce_input_key e) \<and> is_scalar (ce_value e) \<and>
     ce_availability e \<in> {''available'', ''unavailable''} \<and> nonempty_opt (ce_evidence e)"

definition consumed_input_fields :: "consumed_input \<Rightarrow> bool" where
  "consumed_input_fields c \<longleftrightarrow> nonempty (ci_input_key c) \<and> is_scalar (ci_value c) \<and> nonempty (ci_evidence c)"

definition artifact_ref_fields :: "artifact_ref \<Rightarrow> bool" where
  "artifact_ref_fields r \<longleftrightarrow> nonempty (ar_logic_version r) \<and> nonempty (ar_artifact_id r) \<and>
     sha256_hex_string (ar_artifact_hash r) \<and> nonempty (ar_evaluator_version r)"

definition result_fields :: "decision_result \<Rightarrow> bool" where
  "result_fields r \<longleftrightarrow> dr_output r \<in> {''PRIORITIZE'', ''DO_NOT_PRIORITIZE''}"

definition decision_fields :: "decision_recorded \<Rightarrow> bool" where
  "decision_fields p \<longleftrightarrow> de_decision_class p = ''account_prioritization'' \<and> valid_utc (de_boundary p) \<and>
     nonempty (de_workflow_version p) \<and>
     de_context p \<noteq> [] \<and> list_all context_entry_fields (de_context p) \<and>
     de_consumed p \<noteq> [] \<and> list_all consumed_input_fields (de_consumed p) \<and>
     artifact_ref_fields (de_artifact p) \<and> result_fields (de_result p)"

definition persona_fields :: "persona_selected \<Rightarrow> bool" where
  "persona_fields p \<longleftrightarrow> nonempty (ps_persona p) \<and> nonempty (ps_decision_event_id p)"

definition action_fields :: "action_recorded \<Rightarrow> bool" where
  "action_fields p \<longleftrightarrow> ac_action_type p = ''outbound_play'' \<and> nonempty (ac_target_persona p) \<and>
     ac_status p \<in> {''sent'', ''completed'', ''failed''} \<and> decimal_string (ac_cost p) \<and>
     ac_currency p = ''USD'' \<and> nonempty (ac_decision_event_id p)"

definition outcome_v2_fields :: "outcome_v2 \<Rightarrow> bool" where
  "outcome_v2_fields p \<longleftrightarrow> valid_utc (o2_window_opened_at p) \<and> valid_utc (o2_window_closes_at p) \<and>
     o2_evaluation_state p \<in> {''open'', ''closed''} \<and> valid_utc (o2_observed_at p) \<and>
     nonempty_opt (o2_source_action p) \<and> nonempty_opt (o2_source_decision p) \<and> nonempty_opt (o2_supersedes p)"

definition attributed_fields :: "outcome_attributed \<Rightarrow> bool" where
  "attributed_fields p \<longleftrightarrow> nonempty (oa_outcome_event_id p) \<and> nonempty (oa_policy_version p) \<and>
     nonempty (oa_method p) \<and> nonempty_opt (oa_resolved_action p) \<and> nonempty_opt (oa_resolved_decision p) \<and>
     oa_status p \<in> {''direct'', ''inferred'', ''unresolved''} \<and> nonempty (oa_reason p) \<and>
     valid_utc (oa_attributed_at p) \<and> nonempty_opt (oa_supersedes p)"

definition factor_fields :: "factor \<Rightarrow> bool" where
  "factor_fields f \<longleftrightarrow> nonempty (fa_key f) \<and> nonempty (fa_rule f)"

definition output_mapping_fields :: "output_mapping \<Rightarrow> bool" where
  "output_mapping_fields m \<longleftrightarrow> nonempty (om_at_or_above m) \<and> nonempty (om_below m)"

definition activation_fields :: "activation \<Rightarrow> bool" where
  "activation_fields a \<longleftrightarrow> valid_utc (av_activated_at a) \<and>
     (case av_deactivated_at a of None \<Rightarrow> True | Some t \<Rightarrow> valid_utc t) \<and> nonempty (av_status a)"

definition artifact_fields :: "logic_artifact \<Rightarrow> bool" where
  "artifact_fields a \<longleftrightarrow> la_schema_version a = ''1'' \<and> nonempty (la_artifact_id a) \<and>
     nonempty (la_logic_version a) \<and> la_decision_class a = ''account_prioritization'' \<and>
     nonempty (la_evaluator_version a) \<and> la_factors a \<noteq> [] \<and> list_all factor_fields (la_factors a) \<and>
     nonempty (la_missing_value_behavior a) \<and> output_mapping_fields (la_output_mapping a) \<and>
     activation_fields (la_activation a)"

fun payload_fields :: "payload \<Rightarrow> bool" where
  "payload_fields (LogicArtifactRegistered a) = artifact_fields a"
| "payload_fields (AccountDiscovered p) = (nonempty (ad_name p) \<and> nonempty (ad_domain p))"
| "payload_fields (EvidenceRecorded p) = (er_items p \<noteq> [] \<and> list_all item_fields (er_items p))"
| "payload_fields (DecisionRecorded p) = decision_fields p"
| "payload_fields (PersonaSelected p) = persona_fields p"
| "payload_fields (ActionRecorded p) = action_fields p"
| "payload_fields (OutcomeEvaluated p) = nonempty (o1_action_event_id p)"
| "payload_fields (OutcomeEvaluatedV2 p) = outcome_v2_fields p"
| "payload_fields (OutcomeAttributed p) = attributed_fields p"

fun source_field :: "payload \<Rightarrow> string \<Rightarrow> bool" where
  "source_field (OutcomeAttributed _) s = (s = ATTRIBUTION_SOURCE)"
| "source_field _ s = nonempty s"

definition envelope_fields :: "envelope \<Rightarrow> bool" where
  "envelope_fields e \<longleftrightarrow> nonempty (en_event_id e) \<and> source_field (en_payload e) (en_source e) \<and>
     nonempty (en_account_ref e) \<and> valid_utc (en_occurred_at e) \<and> valid_utc (en_recorded_at e) \<and>
     payload_fields (en_payload e)"

subsection \<open>Validation of a whole envelope\<close>

text \<open>Pydantic validates the fields, nested models first, then the validators of the model, in order.\<close>

fun payload_validators :: "payload \<Rightarrow> schema_error option" where
  "payload_validators (LogicArtifactRegistered a) = factor_keys_are_unique a"
| "payload_validators (EvidenceRecorded p) = evidence_version_ids_are_unique p"
| "payload_validators (DecisionRecorded p) =
     first_failure (map availability_is_coherent (de_context p) @
       [context_keys_are_unique p, consumed_keys_are_unique p, consumed_inputs_agree_with_context p])"
| "payload_validators (OutcomeEvaluatedV2 p) =
     first_failure [period_is_ordered p, state_agrees_with_the_as_of_instant p]"
| "payload_validators (OutcomeAttributed p) = resolved_references_agree_with_status p"
| "payload_validators _ = None"

definition validate_envelope :: "envelope \<Rightarrow> schema_error option" where
  "validate_envelope e =
     first_failure
       [raise_if (\<not> envelope_fields e) (InvalidField (event_type (en_payload e))),
        payload_validators (en_payload e), recorded_not_before_occurred e,
        system_principal_is_reserved e, occurrence_instant_agrees e (en_payload e)]"

definition valid_envelope :: "envelope \<Rightarrow> bool" where
  "valid_envelope e \<longleftrightarrow> validate_envelope e = None"

lemma system_principal_None [simp]:
  "system_principal_is_reserved e = None \<longleftrightarrow>
     (en_account_ref e = SYSTEM_ACCOUNT_REF \<longleftrightarrow> is_registration (en_payload e))"
  by (auto simp: system_principal_is_reserved_def Let_def)

lemma valid_envelope_iff:
  "valid_envelope e \<longleftrightarrow> envelope_fields e \<and> payload_validators (en_payload e) = None \<and>
     en_occurred_at e \<le> en_recorded_at e \<and>
     (en_account_ref e = SYSTEM_ACCOUNT_REF \<longleftrightarrow> is_registration (en_payload e)) \<and>
     occurrence_instant_agrees e (en_payload e) = None"
  by (simp add: valid_envelope_def validate_envelope_def recorded_not_before_occurred_def not_less
      del: first_failure.simps)

lemma consumed_agrees_None:
  assumes "consumed_agrees ctx c = None"
  shows "\<exists>e\<in>set ctx. ce_input_key e = ci_input_key c \<and> ce_availability e = ''available'' \<and>
    ce_value e = ci_value c \<and> ce_evidence e = Some (ci_evidence c)"
proof -
  obtain e where e: "map_of (map (\<lambda>e. (ce_input_key e, e)) (rev ctx)) (ci_input_key c) = Some e"
    using assms by (auto simp: consumed_agrees_def split: option.splits)
  have "e \<in> set ctx \<and> ce_input_key e = ci_input_key c"
    using map_of_SomeD [OF e] by auto
  moreover have "ce_availability e = ''available'' \<and> ce_value e = ci_value c \<and> ce_evidence e = Some (ci_evidence c)"
    using assms e by (auto simp: consumed_agrees_def same_scalar_eq split: if_splits)
  ultimately show ?thesis by blast
qed

text \<open>What a validated decision guarantees of its own content.\<close>

lemma decision_validated:
  assumes "payload_validators (DecisionRecorded p) = None"
  shows "distinct (map ce_input_key (de_context p))" "distinct (map ci_input_key (de_consumed p))"
    "\<forall>e\<in>set (de_context p). availability_is_coherent e = None"
    "\<forall>c\<in>set (de_consumed p). \<exists>e\<in>set (de_context p). ce_input_key e = ci_input_key c \<and>
       ce_availability e = ''available'' \<and> ce_value e = ci_value c \<and> ce_evidence e = Some (ci_evidence c)"
  using assms
  by (auto simp: context_keys_are_unique_def consumed_keys_are_unique_def
      consumed_inputs_agree_with_context_def simp del: first_failure.simps intro!: consumed_agrees_None)

end
