(* ===== verification/Schema_Json.thy ===== *)
theory Schema_Json
  imports Schema "HOL-Library.Monad_Syntax"
begin

text \<open>
  \<open>model_dump(mode="json")\<close> of the envelope models, the canonical text of an evidence item's
  value, and the strict \<open>LogicArtifact\<close> model as a decoder of JSON.  Main results: a dumped
  artifact decodes to the artifact it came from whatever the order of its keys
  (\<open>artifact_of_dump\<close>), and the canonical text of a dumped envelope determines the envelope
  (\<open>dump_envelope_inject\<close>), so two validated envelopes have one identity hash only if they are
  one envelope or SHA-256 collides.
\<close>

subsection \<open>Dumping\<close>

definition jstr_opt :: "string option \<Rightarrow> json" where
  "jstr_opt s = (case s of None \<Rightarrow> JNull | Some t \<Rightarrow> JStr t)"

definition jbool_opt :: "bool option \<Rightarrow> json" where
  "jbool_opt b = (case b of None \<Rightarrow> JNull | Some t \<Rightarrow> JBool t)"

definition jtime :: "utc \<Rightarrow> json" where
  "jtime t = JStr (format_utc t)"

definition jdate :: "date \<Rightarrow> json" where
  "jdate d = JStr (iso_date d)"

fun evidence_type :: "evidence_value \<Rightarrow> string" where
  "evidence_type (EmployeeCount _) = ''employee_count''"
| "evidence_type (Industry _) = ''industry''"
| "evidence_type (HeadquartersCountry _) = ''headquarters_country''"
| "evidence_type (FundingEvent _ _) = ''funding_event''"
| "evidence_type (OpenPlatformEngineeringRoles _) = ''open_platform_engineering_roles''"
| "evidence_type (HeadOfPlatformStartDate _ _) = ''head_of_platform_start_date''"
| "evidence_type (VerifiedIntegrationPressure _ _) = ''verified_integration_pressure''"

text \<open>\<open>item["value"]\<close>, \<open>item.get("observed_at")\<close> and the members beyond the identity keys.\<close>

fun item_value :: "evidence_value \<Rightarrow> json" where
  "item_value (EmployeeCount n) = JInt n"
| "item_value (Industry s) = JStr s"
| "item_value (HeadquartersCountry s) = JStr s"
| "item_value (FundingEvent s _) = JStr s"
| "item_value (OpenPlatformEngineeringRoles n) = JInt n"
| "item_value (HeadOfPlatformStartDate v _) = jdate v"
| "item_value (VerifiedIntegrationPressure v _) = JStr v"

fun item_observed_at :: "evidence_value \<Rightarrow> date option" where
  "item_observed_at (FundingEvent _ d) = Some d"
| "item_observed_at (HeadOfPlatformStartDate _ d) = Some d"
| "item_observed_at _ = None"

fun extra_members :: "evidence_value \<Rightarrow> (string \<times> json) list" where
  "extra_members (FundingEvent _ d) = [(''observed_at'', jdate d)]"
| "extra_members (HeadOfPlatformStartDate _ d) = [(''observed_at'', jdate d)]"
| "extra_members (VerifiedIntegrationPressure _ basis) = [(''basis'', JList (map JStr basis))]"
| "extra_members _ = []"

definition item_members :: "evidence_item \<Rightarrow> (string \<times> json) list" where
  "item_members i =
     [(''evidence_version_id'', JStr (it_version_id i)),
      (''supersedes_evidence_version_id'', jstr_opt (it_supersedes i)),
      (''evidence_type'', JStr (evidence_type (it_value i))),
      (''value'', item_value (it_value i))] @ extra_members (it_value i)"

definition dump_item :: "evidence_item \<Rightarrow> json" where
  "dump_item i = JObj (item_members i)"

definition dump_context_entry :: "context_entry \<Rightarrow> json" where
  "dump_context_entry e = JObj
     [(''input_key'', JStr (ce_input_key e)), (''value'', ce_value e),
      (''availability'', JStr (ce_availability e)), (''evidence_version_id'', jstr_opt (ce_evidence e))]"

definition dump_consumed :: "consumed_input \<Rightarrow> json" where
  "dump_consumed c = JObj
     [(''input_key'', JStr (ci_input_key c)), (''value'', ci_value c),
      (''evidence_version_id'', JStr (ci_evidence c)), (''contribution'', JInt (ci_contribution c))]"

definition dump_artifact_ref :: "artifact_ref \<Rightarrow> json" where
  "dump_artifact_ref r = JObj
     [(''logic_version'', JStr (ar_logic_version r)), (''artifact_id'', JStr (ar_artifact_id r)),
      (''artifact_hash'', JStr (ar_artifact_hash r)), (''evaluator_version'', JStr (ar_evaluator_version r))]"

definition dump_result :: "decision_result \<Rightarrow> json" where
  "dump_result r = JObj
     [(''score'', JInt (dr_score r)), (''threshold'', JInt (dr_threshold r)), (''output'', JStr (dr_output r))]"

definition dump_factor :: "factor \<Rightarrow> json" where
  "dump_factor f = JObj
     [(''key'', JStr (fa_key f)), (''rule'', JStr (fa_rule f)), (''weight'', JInt (fa_weight f))]"

definition dump_output_mapping :: "output_mapping \<Rightarrow> json" where
  "dump_output_mapping m = JObj
     [(''at_or_above_threshold'', JStr (om_at_or_above m)), (''below_threshold'', JStr (om_below m))]"

definition dump_activation :: "activation \<Rightarrow> json" where
  "dump_activation a = JObj
     [(''activated_at'', jtime (av_activated_at a)),
      (''deactivated_at'', (case av_deactivated_at a of None \<Rightarrow> JNull | Some t \<Rightarrow> jtime t)),
      (''status'', JStr (av_status a))]"

definition dump_artifact :: "logic_artifact \<Rightarrow> json" where
  "dump_artifact a = JObj
     [(''artifact_schema_version'', JStr (la_schema_version a)),
      (''artifact_id'', JStr (la_artifact_id a)),
      (''logic_version'', JStr (la_logic_version a)),
      (''decision_class'', JStr (la_decision_class a)),
      (''evaluator_version'', JStr (la_evaluator_version a)),
      (''factors'', JList (map dump_factor (la_factors a))),
      (''missing_value_behavior'', JStr (la_missing_value_behavior a)),
      (''threshold'', JInt (la_threshold a)),
      (''output_mapping'', dump_output_mapping (la_output_mapping a)),
      (''activation'', dump_activation (la_activation a))]"

fun dump_payload :: "payload \<Rightarrow> json" where
  "dump_payload (LogicArtifactRegistered a) = JObj [(''artifact'', dump_artifact a)]"
| "dump_payload (AccountDiscovered p) =
     JObj [(''name'', JStr (ad_name p)), (''domain'', JStr (ad_domain p))]"
| "dump_payload (EvidenceRecorded p) = JObj [(''items'', JList (map dump_item (er_items p)))]"
| "dump_payload (DecisionRecorded p) = JObj
     [(''decision_class'', JStr (de_decision_class p)),
      (''decision_boundary'', jtime (de_boundary p)),
      (''workflow_version'', JStr (de_workflow_version p)),
      (''historical_context'', JList (map dump_context_entry (de_context p))),
      (''consumed_inputs'', JList (map dump_consumed (de_consumed p))),
      (''logic_artifact'', dump_artifact_ref (de_artifact p)),
      (''result'', dump_result (de_result p)),
      (''explanation'', jstr_opt (de_explanation p))]"
| "dump_payload (PersonaSelected p) = JObj
     [(''persona'', JStr (ps_persona p)), (''decision_event_id'', JStr (ps_decision_event_id p)),
      (''explanation'', jstr_opt (ps_explanation p))]"
| "dump_payload (ActionRecorded p) = JObj
     [(''action_type'', JStr (ac_action_type p)), (''play_id'', JInt (ac_play_id p)),
      (''target_persona'', JStr (ac_target_persona p)), (''status'', JStr (ac_status p)),
      (''cost'', JStr (ac_cost p)), (''currency'', JStr (ac_currency p)),
      (''decision_event_id'', JStr (ac_decision_event_id p))]"
| "dump_payload (OutcomeEvaluated p) = JObj
     [(''window_days'', JInt (o1_window_days p)), (''reply'', JBool (o1_reply p)),
      (''meeting'', JBool (o1_meeting p)), (''opportunity'', JBool (o1_opportunity p)),
      (''action_event_id'', JStr (o1_action_event_id p))]"
| "dump_payload (OutcomeEvaluatedV2 p) = JObj
     [(''window_opened_at'', jtime (o2_window_opened_at p)),
      (''window_closes_at'', jtime (o2_window_closes_at p)),
      (''evaluation_state'', JStr (o2_evaluation_state p)),
      (''observed_at'', jtime (o2_observed_at p)),
      (''reply'', jbool_opt (o2_reply p)), (''meeting'', jbool_opt (o2_meeting p)),
      (''opportunity'', jbool_opt (o2_opportunity p)),
      (''source_action_event_id'', jstr_opt (o2_source_action p)),
      (''source_decision_event_id'', jstr_opt (o2_source_decision p)),
      (''supersedes_outcome_event_id'', jstr_opt (o2_supersedes p))]"
| "dump_payload (OutcomeAttributed p) = JObj
     [(''outcome_event_id'', JStr (oa_outcome_event_id p)),
      (''policy_version'', JStr (oa_policy_version p)),
      (''method'', JStr (oa_method p)), (''window_days'', JInt (oa_window_days p)),
      (''resolved_action_event_id'', jstr_opt (oa_resolved_action p)),
      (''resolved_decision_event_id'', jstr_opt (oa_resolved_decision p)),
      (''status'', JStr (oa_status p)), (''reason'', JStr (oa_reason p)),
      (''attributed_at'', jtime (oa_attributed_at p)), (''ingest_cutoff'', JInt (oa_ingest_cutoff p)),
      (''supersedes_attribution_event_id'', jstr_opt (oa_supersedes p))]"

definition dump_envelope :: "envelope \<Rightarrow> json" where
  "dump_envelope e = JObj
     [(''schema_version'', JStr (schema_version (en_payload e))),
      (''event_id'', JStr (en_event_id e)), (''source'', JStr (en_source e)),
      (''account_ref'', JStr (en_account_ref e)),
      (''occurred_at'', jtime (en_occurred_at e)), (''recorded_at'', jtime (en_recorded_at e)),
      (''event_type'', JStr (event_type (en_payload e))),
      (''payload'', dump_payload (en_payload e))]"

text \<open>\<open>projections.py:evidence_value_json\<close> and \<open>stored_evidence_value\<close> (\<open>None\<close>: the exception).\<close>

definition EVIDENCE_IDENTITY_KEYS :: "string list" where
  "EVIDENCE_IDENTITY_KEYS = [''evidence_version_id'', ''evidence_type'', ''supersedes_evidence_version_id'']"

definition evidence_value_json :: "evidence_item \<Rightarrow> string" where
  "evidence_value_json i =
     canonical_text (JObj (filter (\<lambda>(k, v). k \<notin> set EVIDENCE_IDENTITY_KEYS) (item_members i)))"

fun member :: "string \<Rightarrow> json \<Rightarrow> json option" where
  "member k (JObj kvs) = map_of kvs k"
| "member k _ = None"

definition stored_evidence_value :: "string \<Rightarrow> json option" where
  "stored_evidence_value text = Option.bind (json_loads text) (member ''value'')"

subsection \<open>Members and key order\<close>

lemma map_of_sort_key: "distinct (map fst kvs) \<Longrightarrow> map_of (sort_key fst kvs) = map_of kvs"
  by (rule map_of_eqI) (auto simp: distinct_map map_of_eq_Some_iff)

lemma fst_set_sort_key [simp]: "fst ` set (sort_key fst kvs) = fst ` set kvs"
  by simp

lemma map_of_map_jnorm: "map_of (map (\<lambda>(k, v). (k, jnorm v)) kvs) k = map_option jnorm (map_of kvs k)"
  by (induction kvs) auto

lemma member_jnorm:
  assumes "plain j"
  shows "member k (jnorm j) = map_option jnorm (member k j)"
proof (cases j)
  case (JObj kvs)
  then have d: "distinct (map fst kvs)" using assms by simp
  have "map_of (sort_key fst (map (\<lambda>(k, v). (k, jnorm v)) kvs)) k = map_of (map (\<lambda>(k, v). (k, jnorm v)) kvs) k"
    by (subst map_of_sort_key) (use d in \<open>auto simp: case_prod_beta comp_def\<close>)
  then show ?thesis by (simp add: JObj map_of_map_jnorm)
qed simp_all

lemma jnorm_JStr [simp]: "jnorm j = JStr s \<longleftrightarrow> j = JStr s" "JStr s = jnorm j \<longleftrightarrow> j = JStr s"
  by (cases j; auto)+

lemma jnorm_scalar [simp]: "is_scalar j \<Longrightarrow> jnorm j = j"
  by (cases j) auto

lemma plain_scalar [simp]: "is_scalar j \<Longrightarrow> plain j"
  by (cases j) auto

lemma opt_json_scalar [simp]:
  "is_scalar (jstr_opt s)" "is_scalar (jbool_opt b)" "is_scalar (jtime t)" "is_scalar (jdate d)"
  by (auto simp: jstr_opt_def jbool_opt_def jtime_def jdate_def split: option.splits)

lemma opt_json_inject [simp]:
  "jstr_opt s = jstr_opt s' \<longleftrightarrow> s = s'" "jbool_opt b = jbool_opt b' \<longleftrightarrow> b = b'"
  "valid_utc t \<Longrightarrow> valid_utc t' \<Longrightarrow> jtime t = jtime t' \<longleftrightarrow> t = t'"
  "valid_date d \<Longrightarrow> valid_date d' \<Longrightarrow> jdate d = jdate d' \<longleftrightarrow> d = d'"
  by (auto simp: jstr_opt_def jbool_opt_def jtime_def jdate_def format_utc_inject iso_date_inject
      split: option.splits)

text \<open>Equal up to key order: the members agree up to key order.\<close>

lemma jnorm_member:
  assumes "jnorm a = jnorm b" "plain a" "plain b"
  shows "map_option jnorm (member k a) = map_option jnorm (member k b)"
  using member_jnorm [OF assms(2), of k] member_jnorm [OF assms(3), of k] assms(1) by metis

lemma jnorm_JList_map:
  assumes "jnorm (JList (map f xs)) = jnorm (JList (map f ys))"
    and "\<And>x y. x \<in> set xs \<Longrightarrow> y \<in> set ys \<Longrightarrow> jnorm (f x) = jnorm (f y) \<Longrightarrow> x = y"
  shows "xs = ys"
proof -
  have "list_all2 (\<lambda>x y. jnorm (f x) = jnorm (f y)) xs ys"
    using assms(1) by (simp add: list.rel_map list.rel_eq [symmetric] list_all2_conv_all_nth list_eq_iff_nth_eq)
  then have "list_all2 (=) xs ys"
    by (rule list.rel_mono_strong) (use assms(2) in blast)
  then show ?thesis by (simp add: list.rel_eq)
qed

subsection \<open>The dumps are plain\<close>

lemma plain_extra: "\<forall>(k, v)\<in>set (extra_members w). plain v"
  by (cases w) auto

lemma plain_item [simp]: "plain (dump_item i)"
proof -
  have "plain (item_value (it_value i))" by (cases "it_value i") auto
  moreover have "distinct (map fst (item_members i))"
    by (cases "it_value i") (simp_all add: item_members_def)
  ultimately show ?thesis
    using plain_extra [of "it_value i"] by (auto simp: dump_item_def item_members_def)
qed

lemma plain_dumps [simp]:
  "is_scalar (ce_value e) \<Longrightarrow> plain (dump_context_entry e)"
  "is_scalar (ci_value c) \<Longrightarrow> plain (dump_consumed c)"
  "plain (dump_artifact_ref r)" "plain (dump_result res)" "plain (dump_factor f)"
  "plain (dump_output_mapping m)" "plain (dump_activation av)"
  by (simp_all add: dump_context_entry_def dump_consumed_def dump_artifact_ref_def dump_result_def
      dump_factor_def dump_output_mapping_def dump_activation_def split: option.split)

lemma plain_artifact [simp]: "plain (dump_artifact a)"
  by (simp add: dump_artifact_def)

text \<open>Scalars preserved by a decision; the only part of an envelope that is JSON as submitted.\<close>

fun scalar_payload :: "payload \<Rightarrow> bool" where
  "scalar_payload (DecisionRecorded p) =
     (list_all (\<lambda>e. is_scalar (ce_value e)) (de_context p) \<and> list_all (\<lambda>c. is_scalar (ci_value c)) (de_consumed p))"
| "scalar_payload _ = True"

lemma fields_scalar: "payload_fields p \<Longrightarrow> scalar_payload p"
  by (cases p) (auto simp: decision_fields_def list_all_iff context_entry_fields_def consumed_input_fields_def)

lemma plain_payload: "scalar_payload p \<Longrightarrow> plain (dump_payload p)"
  by (cases p) (auto simp: list_all_iff)

lemma plain_envelope: "scalar_payload (en_payload e) \<Longrightarrow> plain (dump_envelope e)"
  by (simp add: dump_envelope_def plain_payload)

subsection \<open>Stored evidence values\<close>

lemma value_members:
  "filter (\<lambda>(k, v). k \<notin> set EVIDENCE_IDENTITY_KEYS) (item_members i) =
     (''value'', item_value (it_value i)) # extra_members (it_value i)"
  by (cases "it_value i") (simp_all add: item_members_def EVIDENCE_IDENTITY_KEYS_def)

lemma item_value_scalar [simp]: "is_scalar (item_value w)"
  by (cases w) auto

lemma plain_value_members: "plain (JObj ((''value'', item_value w) # extra_members w))"
  using plain_extra [of w] by (cases w) auto

text \<open>What is read back from a stored evidence version is the value of the item it was minted from.\<close>

lemma stored_evidence_value_item:
  "stored_evidence_value (evidence_value_json i) = Some (item_value (it_value i))"
proof -
  let ?o = "JObj ((''value'', item_value (it_value i)) # extra_members (it_value i))"
  have "json_loads (canonical_text ?o) = Some (jnorm ?o)"
    unfolding json_loads_def by (rule json_loads_canonical [OF plain_value_members])
  then show ?thesis
    using member_jnorm [OF plain_value_members, of "''value''" "it_value i"]
    by (simp add: stored_evidence_value_def evidence_value_json_def value_members del: jnorm.simps)
qed

subsection \<open>Equal dumps\<close>

lemma dump_item_inject:
  assumes "jnorm (dump_item i) = jnorm (dump_item i')" "item_fields i" "item_fields i'"
  shows "i = i'"
proof -
  note m = jnorm_member [OF assms(1) plain_item plain_item]
  have t: "evidence_type (it_value i) = evidence_type (it_value i')"
    using m [of "''evidence_type''"] by (simp add: dump_item_def item_members_def)
  have v: "item_value (it_value i) = item_value (it_value i')"
    using m [of "''value''"] by (simp add: dump_item_def item_members_def)
  have o: "map_option jnorm (map_of (extra_members (it_value i)) ''observed_at'')
      = map_option jnorm (map_of (extra_members (it_value i')) ''observed_at'')"
    using m [of "''observed_at''"] by (simp add: dump_item_def item_members_def)
  have b: "map_option jnorm (map_of (extra_members (it_value i)) ''basis'')
      = map_option jnorm (map_of (extra_members (it_value i')) ''basis'')"
    using m [of "''basis''"] by (simp add: dump_item_def item_members_def)
  have js: "map (jnorm \<circ> JStr) xs = map (jnorm \<circ> JStr) ys \<longleftrightarrow> xs = ys" for xs ys
    by (simp add: comp_def inj_map_eq_map inj_def)
  have vf: "value_fields (it_value i)" "value_fields (it_value i')"
    using assms(2,3) by (simp_all add: item_fields_def)
  have "it_value i = it_value i'"
    using t v o b vf by (cases "it_value i"; cases "it_value i'"; simp add: js)
  moreover have "it_version_id i = it_version_id i'"
    using m [of "''evidence_version_id''"] by (simp add: dump_item_def item_members_def)
  moreover have "it_supersedes i = it_supersedes i'"
    using m [of "''supersedes_evidence_version_id''"] by (simp add: dump_item_def item_members_def)
  ultimately show ?thesis by simp
qed

lemma dump_context_entry_inject:
  assumes "jnorm (dump_context_entry e) = jnorm (dump_context_entry e')"
    "is_scalar (ce_value e)" "is_scalar (ce_value e')"
  shows "e = e'"
proof -
  note m = jnorm_member [OF assms(1) plain_dumps(1) [OF assms(2)] plain_dumps(1) [OF assms(3)]]
  show ?thesis
    using m [of "''input_key''"] m [of "''value''"] m [of "''availability''"]
      m [of "''evidence_version_id''"] assms(2,3)
    by (simp add: dump_context_entry_def)
qed

lemma dump_consumed_inject:
  assumes "jnorm (dump_consumed c) = jnorm (dump_consumed c')" "is_scalar (ci_value c)" "is_scalar (ci_value c')"
  shows "c = c'"
proof -
  note m = jnorm_member [OF assms(1) plain_dumps(2) [OF assms(2)] plain_dumps(2) [OF assms(3)]]
  show ?thesis
    using m [of "''input_key''"] m [of "''value''"] m [of "''evidence_version_id''"]
      m [of "''contribution''"] assms(2,3)
    by (simp add: dump_consumed_def)
qed

lemma dump_artifact_ref_inject:
  assumes "jnorm (dump_artifact_ref r) = jnorm (dump_artifact_ref r')"
  shows "r = r'"
proof -
  note m = jnorm_member [OF assms plain_dumps(3) plain_dumps(3)]
  show ?thesis
    using m [of "''logic_version''"] m [of "''artifact_id''"] m [of "''artifact_hash''"]
      m [of "''evaluator_version''"]
    by (simp add: dump_artifact_ref_def)
qed

lemma dump_result_inject:
  assumes "jnorm (dump_result r) = jnorm (dump_result r')"
  shows "r = r'"
proof -
  note m = jnorm_member [OF assms plain_dumps(4) plain_dumps(4)]
  show ?thesis
    using m [of "''score''"] m [of "''threshold''"] m [of "''output''"] by (simp add: dump_result_def)
qed

subsection \<open>The strict artifact model\<close>

text \<open>
  \<open>LogicArtifact.model_validate_json(text, strict=True)\<close> on the JSON of the text: no unknown
  member, every field of its strict type, then the validator of the model.
\<close>

fun has_only :: "string list \<Rightarrow> json \<Rightarrow> bool" where
  "has_only ks (JObj kvs) = list_all (\<lambda>(k, v). k \<in> set ks) kvs"
| "has_only ks _ = False"

definition str_at :: "string \<Rightarrow> json \<Rightarrow> string option" where
  "str_at k j = (case member k j of Some (JStr s) \<Rightarrow> Some s | _ \<Rightarrow> None)"

definition int_at :: "string \<Rightarrow> json \<Rightarrow> int option" where
  "int_at k j = (case member k j of Some (JInt n) \<Rightarrow> Some n | _ \<Rightarrow> None)"

definition list_at :: "string \<Rightarrow> json \<Rightarrow> json list option" where
  "list_at k j = (case member k j of Some (JList xs) \<Rightarrow> Some xs | _ \<Rightarrow> None)"

definition time_opt_at :: "string \<Rightarrow> json \<Rightarrow> utc option option" where
  "time_opt_at k j =
     (case member k j of
        None \<Rightarrow> Some None
      | Some JNull \<Rightarrow> Some None
      | Some (JStr s) \<Rightarrow> map_option Some (instant s)
      | _ \<Rightarrow> None)"

definition require :: "bool \<Rightarrow> unit option" where
  "require b = (if b then Some () else None)"

lemma require_simps [simp]: "require b = Some u \<longleftrightarrow> b" "require True = Some ()"
  by (auto simp: require_def)

primrec all_some :: "'a option list \<Rightarrow> 'a list option" where
  "all_some [] = Some []"
| "all_some (x # xs) = do { y \<leftarrow> x; ys \<leftarrow> all_some xs; Some (y # ys) }"

definition factor_of_json :: "json \<Rightarrow> factor option" where
  "factor_of_json j = do {
     require (has_only [''key'', ''rule'', ''weight''] j);
     k \<leftarrow> str_at ''key'' j; r \<leftarrow> str_at ''rule'' j; w \<leftarrow> int_at ''weight'' j;
     let f = \<lparr>fa_key = k, fa_rule = r, fa_weight = w\<rparr>;
     require (factor_fields f);
     Some f }"

definition output_mapping_of_json :: "json \<Rightarrow> output_mapping option" where
  "output_mapping_of_json j = do {
     require (has_only [''at_or_above_threshold'', ''below_threshold''] j);
     a \<leftarrow> str_at ''at_or_above_threshold'' j; b \<leftarrow> str_at ''below_threshold'' j;
     let m = \<lparr>om_at_or_above = a, om_below = b\<rparr>;
     require (output_mapping_fields m);
     Some m }"

definition activation_of_json :: "json \<Rightarrow> activation option" where
  "activation_of_json j = do {
     require (has_only [''activated_at'', ''deactivated_at'', ''status''] j);
     t \<leftarrow> str_at ''activated_at'' j; a \<leftarrow> instant t; d \<leftarrow> time_opt_at ''deactivated_at'' j;
     st \<leftarrow> str_at ''status'' j;
     let v = \<lparr>av_activated_at = a, av_deactivated_at = d, av_status = st\<rparr>;
     require (activation_fields v);
     Some v }"

definition artifact_keys :: "string list" where
  "artifact_keys = [''artifact_schema_version'', ''artifact_id'', ''logic_version'', ''decision_class'',
     ''evaluator_version'', ''factors'', ''missing_value_behavior'', ''threshold'', ''output_mapping'',
     ''activation'']"

definition artifact_of_json :: "json \<Rightarrow> logic_artifact option" where
  "artifact_of_json j = do {
     require (has_only artifact_keys j);
     sv \<leftarrow> str_at ''artifact_schema_version'' j; aid \<leftarrow> str_at ''artifact_id'' j;
     lv \<leftarrow> str_at ''logic_version'' j; dc \<leftarrow> str_at ''decision_class'' j;
     ev \<leftarrow> str_at ''evaluator_version'' j;
     fj \<leftarrow> list_at ''factors'' j; fs \<leftarrow> all_some (map factor_of_json fj);
     mv \<leftarrow> str_at ''missing_value_behavior'' j; th \<leftarrow> int_at ''threshold'' j;
     oj \<leftarrow> member ''output_mapping'' j; om \<leftarrow> output_mapping_of_json oj;
     aj \<leftarrow> member ''activation'' j; ac \<leftarrow> activation_of_json aj;
     let a = \<lparr>la_schema_version = sv, la_artifact_id = aid, la_logic_version = lv, la_decision_class = dc,
       la_evaluator_version = ev, la_factors = fs, la_missing_value_behavior = mv, la_threshold = th,
       la_output_mapping = om, la_activation = ac\<rparr>;
     require (artifact_fields a \<and> factor_keys_are_unique a = None);
     Some a }"

definition valid_artifact :: "logic_artifact \<Rightarrow> bool" where
  "valid_artifact a \<longleftrightarrow> artifact_fields a \<and> factor_keys_are_unique a = None"

lemma has_only_jnorm: "plain j \<Longrightarrow> has_only ks (jnorm j) = has_only ks j"
  by (cases j) (auto simp: list_all_iff)

lemma at_jnorm:
  assumes "plain j"
  shows "str_at k (jnorm j) = str_at k j" "int_at k (jnorm j) = int_at k j"
    "list_at k (jnorm j) = map_option (map jnorm) (list_at k j)"
    "time_opt_at k (jnorm j) = time_opt_at k j"
  using member_jnorm [OF assms, of k]
  by (auto simp: str_at_def int_at_def list_at_def time_opt_at_def split: option.splits json.splits)

lemma all_some_map: "(\<And>x. x \<in> set xs \<Longrightarrow> f (g x) = Some x) \<Longrightarrow> all_some (map f (map g xs)) = Some xs"
  by (induction xs) auto

lemma factor_of_dump: "factor_fields f \<Longrightarrow> factor_of_json (jnorm (dump_factor f)) = Some f"
  unfolding factor_of_json_def
  by (cases f) (simp add: has_only_jnorm at_jnorm Let_def, simp add: dump_factor_def str_at_def int_at_def)

lemma output_mapping_of_dump:
  "output_mapping_fields m \<Longrightarrow> output_mapping_of_json (jnorm (dump_output_mapping m)) = Some m"
  unfolding output_mapping_of_json_def
  by (cases m) (simp add: has_only_jnorm at_jnorm Let_def, simp add: dump_output_mapping_def str_at_def)

lemma activation_of_dump: "activation_fields a \<Longrightarrow> activation_of_json (jnorm (dump_activation a)) = Some a"
  unfolding activation_of_json_def
  by (simp add: has_only_jnorm at_jnorm)
     (cases "av_deactivated_at a"; simp add: dump_activation_def str_at_def time_opt_at_def jtime_def
       activation_fields_def)

lemma artifact_of_dump:
  assumes "valid_artifact a"
  shows "artifact_of_json (jnorm (dump_artifact a)) = Some a"
proof -
  let ?d = "dump_artifact a"
  have f: "list_all factor_fields (la_factors a)" "output_mapping_fields (la_output_mapping a)"
    "activation_fields (la_activation a)"
    using assms by (simp_all add: valid_artifact_def artifact_fields_def)
  have fs: "all_some (map factor_of_json (map jnorm (map dump_factor (la_factors a)))) = Some (la_factors a)"
    unfolding map_map by (rule all_some_map [of _ _ "\<lambda>x. x", simplified])
      (use f(1) factor_of_dump in \<open>auto simp: list_all_iff\<close>)
  have m: "member ''output_mapping'' (jnorm ?d) = Some (jnorm (dump_output_mapping (la_output_mapping a)))"
    "member ''activation'' (jnorm ?d) = Some (jnorm (dump_activation (la_activation a)))"
    by (simp_all add: member_jnorm) (simp_all add: dump_artifact_def)
  have s: "str_at ''artifact_schema_version'' ?d = Some (la_schema_version a)"
    "str_at ''artifact_id'' ?d = Some (la_artifact_id a)" "str_at ''logic_version'' ?d = Some (la_logic_version a)"
    "str_at ''decision_class'' ?d = Some (la_decision_class a)"
    "str_at ''evaluator_version'' ?d = Some (la_evaluator_version a)"
    "str_at ''missing_value_behavior'' ?d = Some (la_missing_value_behavior a)"
    "int_at ''threshold'' ?d = Some (la_threshold a)"
    "list_at ''factors'' ?d = Some (map dump_factor (la_factors a))"
    "has_only artifact_keys ?d"
    by (simp_all add: dump_artifact_def str_at_def int_at_def list_at_def artifact_keys_def)
  show ?thesis
    unfolding artifact_of_json_def
    using assms
    by (simp only: has_only_jnorm at_jnorm plain_artifact s require_simps Option.bind.simps
        option.map m fs output_mapping_of_dump [OF f(2)] activation_of_dump [OF f(3)] Let_def)
      (use assms in \<open>cases a, simp add: valid_artifact_def require_def\<close>)
qed

lemma artifact_of_json_valid: "artifact_of_json j = Some a \<Longrightarrow> valid_artifact a"
  by (auto simp: artifact_of_json_def valid_artifact_def Let_def bind_eq_Some_conv)

lemma dump_artifact_inject:
  assumes "jnorm (dump_artifact a) = jnorm (dump_artifact b)" "valid_artifact a" "valid_artifact b"
  shows "a = b"
proof -
  have "Some a = artifact_of_json (jnorm (dump_artifact b))"
    unfolding assms(1) [symmetric] by (rule artifact_of_dump [OF assms(2), symmetric])
  also have "\<dots> = Some b" by (rule artifact_of_dump [OF assms(3)])
  finally show ?thesis by simp
qed

subsection \<open>The canonical text of an envelope determines it\<close>

lemma discovered_inject:
  assumes "jnorm (dump_payload (AccountDiscovered p)) = jnorm (dump_payload (AccountDiscovered q))"
    "payload_fields (AccountDiscovered p)" "payload_fields (AccountDiscovered q)"
  shows "p = q"
proof -
  note m = jnorm_member [OF assms(1) plain_payload [OF fields_scalar [OF assms(2)]]
    plain_payload [OF fields_scalar [OF assms(3)]]]
  show ?thesis
    using m [of "''name''"] m [of "''domain''"] assms(2,3)
    by (simp)
qed

lemma persona_inject:
  assumes "jnorm (dump_payload (PersonaSelected p)) = jnorm (dump_payload (PersonaSelected q))"
    "payload_fields (PersonaSelected p)" "payload_fields (PersonaSelected q)"
  shows "p = q"
proof -
  note m = jnorm_member [OF assms(1) plain_payload [OF fields_scalar [OF assms(2)]]
    plain_payload [OF fields_scalar [OF assms(3)]]]
  show ?thesis
    using m [of "''persona''"] m [of "''decision_event_id''"] m [of "''explanation''"] assms(2,3)
    by (simp)
qed

lemma action_inject:
  assumes "jnorm (dump_payload (ActionRecorded p)) = jnorm (dump_payload (ActionRecorded q))"
    "payload_fields (ActionRecorded p)" "payload_fields (ActionRecorded q)"
  shows "p = q"
proof -
  note m = jnorm_member [OF assms(1) plain_payload [OF fields_scalar [OF assms(2)]]
    plain_payload [OF fields_scalar [OF assms(3)]]]
  show ?thesis
    using m [of "''action_type''"] m [of "''play_id''"] m [of "''target_persona''"] m [of "''status''"] m [of "''cost''"] m [of "''currency''"] m [of "''decision_event_id''"] assms(2,3)
    by (simp)
qed

lemma outcome_v1_inject:
  assumes "jnorm (dump_payload (OutcomeEvaluated p)) = jnorm (dump_payload (OutcomeEvaluated q))"
    "payload_fields (OutcomeEvaluated p)" "payload_fields (OutcomeEvaluated q)"
  shows "p = q"
proof -
  note m = jnorm_member [OF assms(1) plain_payload [OF fields_scalar [OF assms(2)]]
    plain_payload [OF fields_scalar [OF assms(3)]]]
  show ?thesis
    using m [of "''window_days''"] m [of "''reply''"] m [of "''meeting''"] m [of "''opportunity''"] m [of "''action_event_id''"] assms(2,3)
    by (simp)
qed

lemma outcome_v2_inject:
  assumes "jnorm (dump_payload (OutcomeEvaluatedV2 p)) = jnorm (dump_payload (OutcomeEvaluatedV2 q))"
    "payload_fields (OutcomeEvaluatedV2 p)" "payload_fields (OutcomeEvaluatedV2 q)"
  shows "p = q"
proof -
  note m = jnorm_member [OF assms(1) plain_payload [OF fields_scalar [OF assms(2)]]
    plain_payload [OF fields_scalar [OF assms(3)]]]
  show ?thesis
    using m [of "''window_opened_at''"] m [of "''window_closes_at''"] m [of "''evaluation_state''"] m [of "''observed_at''"] m [of "''reply''"] m [of "''meeting''"] m [of "''opportunity''"] m [of "''source_action_event_id''"] m [of "''source_decision_event_id''"] m [of "''supersedes_outcome_event_id''"] assms(2,3)
    by (simp add: outcome_v2_fields_def)
qed

lemma attributed_inject:
  assumes "jnorm (dump_payload (OutcomeAttributed p)) = jnorm (dump_payload (OutcomeAttributed q))"
    "payload_fields (OutcomeAttributed p)" "payload_fields (OutcomeAttributed q)"
  shows "p = q"
proof -
  note m = jnorm_member [OF assms(1) plain_payload [OF fields_scalar [OF assms(2)]]
    plain_payload [OF fields_scalar [OF assms(3)]]]
  show ?thesis
    using m [of "''outcome_event_id''"] m [of "''policy_version''"] m [of "''method''"] m [of "''window_days''"] m [of "''resolved_action_event_id''"] m [of "''resolved_decision_event_id''"] m [of "''status''"] m [of "''reason''"] m [of "''attributed_at''"] m [of "''ingest_cutoff''"] m [of "''supersedes_attribution_event_id''"] assms(2,3)
    by (simp add: attributed_fields_def)
qed

lemma evidence_inject:
  assumes "jnorm (dump_payload (EvidenceRecorded p)) = jnorm (dump_payload (EvidenceRecorded q))"
    "payload_fields (EvidenceRecorded p)" "payload_fields (EvidenceRecorded q)"
  shows "p = q"
proof -
  note m = jnorm_member [OF assms(1) plain_payload [OF fields_scalar [OF assms(2)]]
    plain_payload [OF fields_scalar [OF assms(3)]]]
  have "jnorm (JList (map dump_item (er_items p))) = jnorm (JList (map dump_item (er_items q)))"
    using m [of "''items''"] by simp
  then have "er_items p = er_items q"
    by (rule jnorm_JList_map) (use assms(2,3) dump_item_inject in \<open>auto simp: list_all_iff\<close>)
  then show ?thesis by simp
qed

lemma decision_inject:
  assumes "jnorm (dump_payload (DecisionRecorded p)) = jnorm (dump_payload (DecisionRecorded q))"
    "payload_fields (DecisionRecorded p)" "payload_fields (DecisionRecorded q)"
  shows "p = q"
proof -
  note m = jnorm_member [OF assms(1) plain_payload [OF fields_scalar [OF assms(2)]]
    plain_payload [OF fields_scalar [OF assms(3)]]]
  have sc: "\<forall>e\<in>set (de_context p) \<union> set (de_context q). is_scalar (ce_value e)"
    "\<forall>c\<in>set (de_consumed p) \<union> set (de_consumed q). is_scalar (ci_value c)"
    using fields_scalar [OF assms(2)] fields_scalar [OF assms(3)] by (auto simp: list_all_iff)
  have "jnorm (JList (map dump_context_entry (de_context p))) = jnorm (JList (map dump_context_entry (de_context q)))"
    using m [of "''historical_context''"] by simp
  then have c: "de_context p = de_context q"
    by (rule jnorm_JList_map) (use sc dump_context_entry_inject in auto)
  have "jnorm (JList (map dump_consumed (de_consumed p))) = jnorm (JList (map dump_consumed (de_consumed q)))"
    using m [of "''consumed_inputs''"] by simp
  then have u: "de_consumed p = de_consumed q"
    by (rule jnorm_JList_map) (use sc dump_consumed_inject in auto)
  have a: "de_artifact p = de_artifact q"
    using m [of "''logic_artifact''"] dump_artifact_ref_inject by simp
  have r: "de_result p = de_result q"
    using m [of "''result''"] dump_result_inject by simp
  show ?thesis
    using m [of "''decision_class''"] m [of "''decision_boundary''"] m [of "''workflow_version''"]
      m [of "''explanation''"] assms(2,3) c u a r
    by (simp add: decision_fields_def)
qed

lemma artifact_payload_inject:
  assumes "jnorm (dump_payload (LogicArtifactRegistered a)) = jnorm (dump_payload (LogicArtifactRegistered b))"
    "valid_artifact a" "valid_artifact b"
  shows "a = b"
  using dump_artifact_inject assms by simp

lemma dump_payload_inject:
  assumes "jnorm (dump_payload p) = jnorm (dump_payload q)" "event_type p = event_type q"
    "schema_version p = schema_version q" "payload_fields p" "payload_fields q"
    "payload_validators p = None" "payload_validators q = None"
  shows "p = q"
proof (cases p)
  case (LogicArtifactRegistered a)
  with assms(2) obtain b where b: "q = LogicArtifactRegistered b" by (cases q) simp_all
  show ?thesis
    using artifact_payload_inject [of a b] assms unfolding LogicArtifactRegistered b
    by (simp add: valid_artifact_def)
next
  case (AccountDiscovered a)
  with assms(2) obtain b where b: "q = AccountDiscovered b" by (cases q) simp_all
  show ?thesis using discovered_inject [of a b] assms unfolding AccountDiscovered b by blast
next
  case (EvidenceRecorded a)
  with assms(2) obtain b where b: "q = EvidenceRecorded b" by (cases q) simp_all
  show ?thesis using evidence_inject [of a b] assms unfolding EvidenceRecorded b by blast
next
  case (DecisionRecorded a)
  with assms(2) obtain b where b: "q = DecisionRecorded b" by (cases q) simp_all
  show ?thesis using decision_inject [of a b] assms unfolding DecisionRecorded b by blast
next
  case (PersonaSelected a)
  with assms(2) obtain b where b: "q = PersonaSelected b" by (cases q) simp_all
  show ?thesis using persona_inject [of a b] assms unfolding PersonaSelected b by blast
next
  case (ActionRecorded a)
  with assms(2) obtain b where b: "q = ActionRecorded b" by (cases q) simp_all
  show ?thesis using action_inject [of a b] assms unfolding ActionRecorded b by blast
next
  case (OutcomeEvaluated a)
  with assms(2,3) obtain b where b: "q = OutcomeEvaluated b" by (cases q) simp_all
  show ?thesis using outcome_v1_inject [of a b] assms unfolding OutcomeEvaluated b by blast
next
  case (OutcomeEvaluatedV2 a)
  with assms(2,3) obtain b where b: "q = OutcomeEvaluatedV2 b" by (cases q) simp_all
  show ?thesis using outcome_v2_inject [of a b] assms unfolding OutcomeEvaluatedV2 b by blast
next
  case (OutcomeAttributed a)
  with assms(2) obtain b where b: "q = OutcomeAttributed b" by (cases q) simp_all
  show ?thesis using attributed_inject [of a b] assms unfolding OutcomeAttributed b by blast
qed

lemma dump_envelope_inject:
  assumes "canonical_text (dump_envelope e) = canonical_text (dump_envelope e')"
    "valid_envelope e" "valid_envelope e'"
  shows "e = e'"
proof -
  have v: "envelope_fields e" "envelope_fields e'" "payload_validators (en_payload e) = None"
    "payload_validators (en_payload e') = None"
    using assms(2,3) by (simp_all add: valid_envelope_iff)
  then have pf: "payload_fields (en_payload e)" "payload_fields (en_payload e')"
    by (simp_all add: envelope_fields_def)
  have pl: "plain (dump_envelope e)" "plain (dump_envelope e')"
    using pf by (simp_all add: plain_envelope fields_scalar)
  have j: "jnorm (dump_envelope e) = jnorm (dump_envelope e')"
    using assms(1) canonical_text_eq_iff [OF pl] by simp
  note m = jnorm_member [OF j pl]
  have "en_payload e = en_payload e'"
    using m [of "''payload''"] m [of "''event_type''"] m [of "''schema_version''"] v(3,4) pf
    by (intro dump_payload_inject) (simp_all add: dump_envelope_def)
  then show ?thesis
    using m [of "''event_id''"] m [of "''source''"] m [of "''account_ref''"] m [of "''occurred_at''"]
      m [of "''recorded_at''"] v(1,2)
    by (simp add: dump_envelope_def envelope_fields_def)
qed

end
