(* ===== verification/Evaluator.thy ===== *)
theory Evaluator
  imports Schema
begin

text \<open>
  \<open>logic/evaluator.py\<close>: \<open>R(L, H)\<close>, the evaluation of a validated artifact over the preserved
  context at a decision boundary, and the two positive-weight helpers.  Main results: what a
  successful evaluation returns (\<open>evaluate_Inr_iff\<close>), the bounds of its score, the
  independence from the order of the context and from inputs no factor names.
\<close>

subsection \<open>States, inputs and results\<close>

definition EVALUATOR_VERSION :: string where
  "EVALUATOR_VERSION = ''evaluator-v1''"

definition SUPPORTED_MISSING_VALUE_BEHAVIOR :: string where
  "SUPPORTED_MISSING_VALUE_BEHAVIOR = ''no_match_contributes_zero''"

datatype input_state = Consumed | Ignored | Unavailable | Absent

datatype evaluation_error =
    UnsupportedMissingValueBehavior string
  | DuplicateContextKey string
  | RuleFailed rule_error

record context_input =
  cx_key :: string
  cx_availability :: string
  cx_value :: json
  cx_evidence :: "string option"
  cx_observed_at :: "date option"

definition is_available :: "context_input \<Rightarrow> bool" where
  "is_available e \<longleftrightarrow> cx_availability e = ''available''"

record factor_result =
  fr_key :: string
  fr_rule :: string
  fr_weight :: int
  fr_state :: input_state
  fr_matched :: bool
  fr_contribution :: int
  fr_evidence :: "string option"

record evaluation_result =
  rs_score :: int
  rs_threshold :: int
  rs_output :: string
  rs_factors :: "factor_result list"
  rs_ignored :: "string list"
  rs_states :: "(string \<times> input_state) list"

text \<open>\<open>consumed_triples\<close> is a \<open>frozenset\<close>; as a list here, compared as a set by its reader.\<close>

definition consumed_triples :: "evaluation_result \<Rightarrow> (string \<times> string option \<times> int) list" where
  "consumed_triples r =
     map (\<lambda>f. (fr_key f, fr_evidence f, fr_contribution f))
       (filter (\<lambda>f. fr_state f = Consumed) (rs_factors r))"

subsection \<open>Evaluation\<close>

definition lift_rule :: "rule_error + 'a \<Rightarrow> evaluation_error + 'a" where
  "lift_rule x = (case x of Inl e \<Rightarrow> Inl (RuleFailed e) | Inr a \<Rightarrow> Inr a)"

lemma lift_rule_simps [simp]:
  "lift_rule (Inl e) = Inl (RuleFailed e)" "lift_rule (Inr a) = Inr a"
  "lift_rule x = Inr a \<longleftrightarrow> x = Inr a" "Inr a = lift_rule x \<longleftrightarrow> x = Inr a"
  by (auto simp: lift_rule_def split: sum.splits)

fun index_from :: "(string \<rightharpoonup> context_input) \<Rightarrow> context_input list
    \<Rightarrow> evaluation_error + (string \<rightharpoonup> context_input)" where
  "index_from seen [] = Inr seen"
| "index_from seen (e # es) =
     (if seen (cx_key e) \<noteq> None then Inl (DuplicateContextKey (cx_key e))
      else index_from (seen(cx_key e \<mapsto> e)) es)"

definition index_context :: "context_input list \<Rightarrow> evaluation_error + (string \<rightharpoonup> context_input)" where
  "index_context ctx = index_from Map.empty ctx"

definition factor_result_of :: "factor \<Rightarrow> input_state \<Rightarrow> bool \<Rightarrow> string option \<Rightarrow> factor_result" where
  "factor_result_of f st matched ev =
     \<lparr>fr_key = fa_key f, fr_rule = fa_rule f, fr_weight = fa_weight f, fr_state = st,
      fr_matched = matched, fr_contribution = (if matched then fa_weight f else 0), fr_evidence = ev\<rparr>"

definition eval_factor ::
    "(string \<rightharpoonup> context_input) \<Rightarrow> utc \<Rightarrow> factor \<times> rule \<Rightarrow> evaluation_error + factor_result" where
  "eval_factor preserved b fr =
     (case fr of (f, rule) \<Rightarrow>
        (case preserved (fa_key f) of
           None \<Rightarrow> Inr (factor_result_of f Absent False None)
         | Some e \<Rightarrow>
             if \<not> is_available e then Inr (factor_result_of f Unavailable False None)
             else bindE (lift_rule (rule_matches rule (cx_value e) (cx_observed_at e) b))
                    (\<lambda>m. Inr (factor_result_of f Consumed m (cx_evidence e)))))"

definition entry_state :: "logic_artifact \<Rightarrow> context_input \<Rightarrow> input_state" where
  "entry_state a e =
     (if \<not> is_available e then Unavailable
      else if cx_key e \<in> set (map fa_key (la_factors a)) then Consumed else Ignored)"

definition result_of :: "logic_artifact \<Rightarrow> context_input list \<Rightarrow> factor_result list \<Rightarrow> evaluation_result" where
  "result_of a ctx fs =
     (let score = sum_list (map fr_contribution fs);
          states = map (\<lambda>e. (cx_key e, entry_state a e)) ctx
      in \<lparr>rs_score = score, rs_threshold = la_threshold a,
          rs_output = (if la_threshold a \<le> score then om_at_or_above (la_output_mapping a)
                       else om_below (la_output_mapping a)),
          rs_factors = fs,
          rs_ignored = map fst (filter (\<lambda>(k, st). st = Ignored) states),
          rs_states = states\<rparr>)"

definition evaluate ::
    "logic_artifact \<Rightarrow> context_input list \<Rightarrow> py_datetime \<Rightarrow> evaluation_error + evaluation_result" where
  "evaluate a ctx boundary =
     bindE (lift_rule (require_aware_boundary boundary)) (\<lambda>b.
       if la_missing_value_behavior a \<noteq> SUPPORTED_MISSING_VALUE_BEHAVIOR
       then Inl (UnsupportedMissingValueBehavior (la_missing_value_behavior a))
       else bindE (index_context ctx) (\<lambda>preserved.
         bindE (mapE (\<lambda>f. lift_rule (parse_rule (fa_key f) (fa_rule f))) (la_factors a)) (\<lambda>rules.
           bindE (mapE (eval_factor preserved b) (zip (la_factors a) rules)) (\<lambda>fs.
             Inr (result_of a ctx fs)))))"

subsection \<open>The positive-weight bound\<close>

definition positive_weight_score_bound :: "logic_artifact \<Rightarrow> int" where
  "positive_weight_score_bound a = sum_list (filter (\<lambda>w. 0 < w) (map fa_weight (la_factors a)))"

definition threshold_exceeds_positive_weight_bound :: "logic_artifact \<Rightarrow> bool" where
  "threshold_exceeds_positive_weight_bound a \<longleftrightarrow> positive_weight_score_bound a < la_threshold a"

subsection \<open>What a successful evaluation is\<close>

definition context_map :: "context_input list \<Rightarrow> string \<rightharpoonup> context_input" where
  "context_map ctx = map_of (map (\<lambda>e. (cx_key e, e)) ctx)"

lemma index_from_Inr:
  "index_from seen ctx = Inr m \<longleftrightarrow>
     distinct (map cx_key ctx) \<and> (\<forall>e\<in>set ctx. seen (cx_key e) = None) \<and>
     m = seen ++ context_map ctx"
proof (induction ctx arbitrary: seen)
  case Nil
  then show ?case by (auto simp: context_map_def)
next
  case (Cons e es)
  have "seen(cx_key e \<mapsto> e) ++ context_map es = seen ++ context_map (e # es)"
    if "cx_key e \<notin> cx_key ` set es"
  proof
    fix k
    show "(seen(cx_key e \<mapsto> e) ++ context_map es) k = (seen ++ context_map (e # es)) k"
      using that by (auto simp: context_map_def map_add_def split: option.splits dest!: map_of_SomeD)
  qed
  note step = this
  have others: "(\<forall>x\<in>set es. (seen(cx_key e \<mapsto> e)) (cx_key x) = None) \<longleftrightarrow>
      cx_key e \<notin> cx_key ` set es \<and> (\<forall>x\<in>set es. seen (cx_key x) = None)"
    by (auto simp: image_iff)
  show ?case
  proof (cases "seen (cx_key e) = None \<and> cx_key e \<notin> cx_key ` set es")
    case True
    then have "index_from seen (e # es) = index_from (seen(cx_key e \<mapsto> e)) es" by simp
    then show ?thesis using True Cons.IH [of "seen(cx_key e \<mapsto> e)"] others step by (simp del: fun_upd_apply)
  next
    case False
    then show ?thesis by (auto simp: Cons.IH others simp del: fun_upd_apply)
  qed
qed

lemma index_context_Inr: "index_context ctx = Inr m \<longleftrightarrow> distinct (map cx_key ctx) \<and> m = context_map ctx"
  by (auto simp: index_context_def index_from_Inr)

lemma evaluate_Inr_iff:
  "evaluate a ctx bd = Inr r \<longleftrightarrow>
     (\<exists>b rules fs. require_aware_boundary bd = Inr b \<and>
        la_missing_value_behavior a = SUPPORTED_MISSING_VALUE_BEHAVIOR \<and>
        distinct (map cx_key ctx) \<and>
        list_all2 (\<lambda>f rule. parse_rule (fa_key f) (fa_rule f) = Inr rule) (la_factors a) rules \<and>
        mapE (eval_factor (context_map ctx) b) (zip (la_factors a) rules) = Inr fs \<and>
        r = result_of a ctx fs)"
  unfolding evaluate_def bindE_eq_Inr
  by (auto simp: index_context_Inr mapE_Inr_iff [of "\<lambda>f. lift_rule (parse_rule (fa_key f) (fa_rule f))"]
      split: if_splits)

subsection \<open>Factor by factor\<close>

text \<open>The documented input states and the contribution of one factor.\<close>

definition factor_spec :: "(string \<rightharpoonup> context_input) \<Rightarrow> utc \<Rightarrow> factor \<Rightarrow> factor_result \<Rightarrow> bool" where
  "factor_spec m b f r \<longleftrightarrow>
     fr_key r = fa_key f \<and> fr_rule r = fa_rule f \<and> fr_weight r = fa_weight f \<and>
     fr_contribution r = (if fr_matched r then fa_weight f else 0) \<and>
     (case m (fa_key f) of
        None \<Rightarrow> fr_state r = Absent \<and> \<not> fr_matched r \<and> fr_evidence r = None
      | Some e \<Rightarrow>
          if is_available e
          then fr_state r = Consumed \<and> fr_evidence r = cx_evidence e \<and>
            (\<exists>rule. parse_rule (fa_key f) (fa_rule f) = Inr rule \<and>
               rule_matches rule (cx_value e) (cx_observed_at e) b = Inr (fr_matched r))
          else fr_state r = Unavailable \<and> \<not> fr_matched r \<and> fr_evidence r = None)"

lemma eval_factor_spec:
  "eval_factor m b (f, rule) = Inr r \<Longrightarrow> parse_rule (fa_key f) (fa_rule f) = Inr rule \<Longrightarrow> factor_spec m b f r"
  by (auto simp: eval_factor_def factor_spec_def factor_result_of_def split: option.splits if_splits)

lemma eval_factors_spec:
  assumes "mapE (eval_factor m b) (zip fs rules) = Inr rs"
    "list_all2 (\<lambda>f rule. parse_rule (fa_key f) (fa_rule f) = Inr rule) fs rules"
  shows "list_all2 (factor_spec m b) fs rs"
proof -
  have z: "list_all2 (\<lambda>x y. eval_factor m b x = Inr y) (zip fs rules) rs"
    using assms(1) by (simp add: mapE_Inr_iff)
  have n: "length fs = length rules" "length rs = length fs"
    using list_all2_lengthD [OF assms(2)] list_all2_lengthD [OF z] by simp_all
  show ?thesis
  proof (rule list_all2_all_nthI)
    fix i assume "i < length fs"
    then show "factor_spec m b (fs ! i) (rs ! i)"
      using z assms(2) n by (intro eval_factor_spec) (auto simp: list_all2_conv_all_nth)
  qed (simp add: n)
qed

lemma evaluate_InrD:
  assumes "evaluate a ctx bd = Inr r"
  obtains b where "require_aware_boundary bd = Inr b" "distinct (map cx_key ctx)"
    "list_all2 (factor_spec (context_map ctx) b) (la_factors a) (rs_factors r)"
    "r = result_of a ctx (rs_factors r)"
  using assms unfolding evaluate_Inr_iff
  by (auto dest: eval_factors_spec simp: result_of_def Let_def)

lemma result_of_simps [simp]:
  "rs_score (result_of a ctx fs) = sum_list (map fr_contribution fs)"
  "rs_threshold (result_of a ctx fs) = la_threshold a"
  "rs_factors (result_of a ctx fs) = fs"
  "rs_states (result_of a ctx fs) = map (\<lambda>e. (cx_key e, entry_state a e)) ctx"
  by (simp_all add: result_of_def Let_def)

lemma rs_output_iff:
  "rs_output (result_of a ctx fs) =
     (if la_threshold a \<le> rs_score (result_of a ctx fs) then om_at_or_above (la_output_mapping a)
      else om_below (la_output_mapping a))"
  by (simp add: result_of_def Let_def)

definition negative_weights :: "logic_artifact \<Rightarrow> int" where
  "negative_weights a = sum_list (filter (\<lambda>w. w < 0) (map fa_weight (la_factors a)))"

lemma contributions_bounded:
  "list_all2 (factor_spec m b) fs rs \<Longrightarrow>
     sum_list (map fr_contribution rs) \<le> sum_list (filter (\<lambda>w. 0 < w) (map fa_weight fs)) \<and>
     sum_list (filter (\<lambda>w. w < 0) (map fa_weight fs)) \<le> sum_list (map fr_contribution rs)"
  by (induction rule: list_all2_induct) (auto simp: factor_spec_def)

lemma evaluate_score_bounds:
  assumes "evaluate a ctx bd = Inr r"
  shows "rs_score r \<le> positive_weight_score_bound a" "negative_weights a \<le> rs_score r"
proof -
  obtain b where f: "list_all2 (factor_spec (context_map ctx) b) (la_factors a) (rs_factors r)"
    and r: "r = result_of a ctx (rs_factors r)"
    using evaluate_InrD [OF assms] .
  have "rs_score r = sum_list (map fr_contribution (rs_factors r))"
    by (subst r) simp
  then show "rs_score r \<le> positive_weight_score_bound a" "negative_weights a \<le> rs_score r"
    using contributions_bounded [OF f]
    by (simp_all add: positive_weight_score_bound_def negative_weights_def)
qed

text \<open>No context scores above the sum of the artifact's positive weights nor below the sum of
  its negative ones.\<close>
theorem evaluate_score_bounded:
  assumes "evaluate a ctx bd = Inr r"
  shows "negative_weights a \<le> rs_score r \<and> rs_score r \<le> positive_weight_score_bound a"
  using evaluate_score_bounds [OF assms] by simp

text \<open>When the threshold exceeds the positive-weight bound, every successful evaluation has
  the below-threshold output.\<close>
theorem unreachable_threshold_output:
  assumes "threshold_exceeds_positive_weight_bound a" "evaluate a ctx bd = Inr r"
  shows "rs_output r = om_below (la_output_mapping a)"
proof -
  obtain b where r: "r = result_of a ctx (rs_factors r)"
    using evaluate_InrD [OF assms(2)] .
  have "rs_score r < la_threshold a"
    using evaluate_score_bounds(1) [OF assms(2)] assms(1)
    by (simp add: threshold_exceeds_positive_weight_bound_def)
  then show ?thesis by (subst r, subst rs_output_iff) (use r in simp)
qed

subsection \<open>A concrete evaluation\<close>

text \<open>A two-factor artifact and a preserved context, used by the witnesses.\<close>

definition demo_artifact :: logic_artifact where
  "demo_artifact =
     \<lparr>la_schema_version = ''1'', la_artifact_id = ''icp'', la_logic_version = ''v3.2'',
      la_decision_class = ''account_prioritization'', la_evaluator_version = ''evaluator-v1'',
      la_factors =
        [\<lparr>fa_key = ''employee_count'', fa_rule = ''employee_count at least 50'', fa_weight = 25\<rparr>,
         \<lparr>fa_key = ''funding_event'', fa_rule = ''funding_event observed within 90 days before the decision boundary'',
          fa_weight = 18\<rparr>],
      la_missing_value_behavior = ''no_match_contributes_zero'', la_threshold = 75,
      la_output_mapping = \<lparr>om_at_or_above = ''PRIORITIZE'', om_below = ''DO_NOT_PRIORITIZE''\<rparr>,
      la_activation = \<lparr>av_activated_at = Utc (Date 2026 1 12) 9 0 0 0, av_deactivated_at = None,
        av_status = ''active''\<rparr>\<rparr>"

definition demo_context :: "context_input list" where
  "demo_context =
     [\<lparr>cx_key = ''employee_count'', cx_availability = ''available'', cx_value = JInt 184,
       cx_evidence = Some ''ev-1'', cx_observed_at = None\<rparr>,
      \<lparr>cx_key = ''industry'', cx_availability = ''available'', cx_value = JStr ''B2B AI Software'',
       cx_evidence = Some ''ev-2'', cx_observed_at = None\<rparr>]"

definition demo_boundary :: py_datetime where
  "demo_boundary = Aware (Utc (Date 2026 4 17) 10 5 2 0) 0"

definition demo_result :: evaluation_result where
  "demo_result = result_of demo_artifact demo_context
     [\<lparr>fr_key = ''employee_count'', fr_rule = ''employee_count at least 50'', fr_weight = 25,
       fr_state = Consumed, fr_matched = True, fr_contribution = 25, fr_evidence = Some ''ev-1''\<rparr>,
      \<lparr>fr_key = ''funding_event'', fr_rule = ''funding_event observed within 90 days before the decision boundary'',
       fr_weight = 18, fr_state = Absent, fr_matched = False, fr_contribution = 0, fr_evidence = None\<rparr>]"

lemma demo_evaluation: "evaluate demo_artifact demo_context demo_boundary = Inr demo_result"
  by code_simp

theorem evaluate_score_bounded_witness:
  "negative_weights demo_artifact \<le> rs_score demo_result \<and>
   rs_score demo_result \<le> positive_weight_score_bound demo_artifact"
  by (rule evaluate_score_bounded [OF demo_evaluation])

theorem unreachable_threshold_output_witness: "rs_output demo_result = ''DO_NOT_PRIORITIZE''"
proof -
  have "threshold_exceeds_positive_weight_bound demo_artifact"
    by (simp add: threshold_exceeds_positive_weight_bound_def positive_weight_score_bound_def demo_artifact_def)
  from unreachable_threshold_output [OF this demo_evaluation] show ?thesis
    by (simp add: demo_artifact_def)
qed

subsection \<open>Consumption\<close>

lemma context_map_iff:
  "distinct (map cx_key ctx) \<Longrightarrow> context_map ctx k = Some e \<longleftrightarrow> e \<in> set ctx \<and> cx_key e = k"
  by (auto simp: context_map_def map_of_eq_Some_iff comp_def)

text \<open>C31: The consumed triples of a result are exactly the available preserved inputs that a factor
  names, each with the evidence the context preserved and, as contribution, the factor's weight
  if its rule matches the preserved value and 0 otherwise: matching and consumption are distinct.\<close>
theorem evaluate_consumed_triples:
  assumes "evaluate a ctx (Aware t 0) = Inr r"
  shows "(k, ev, c) \<in> set (consumed_triples r) \<longleftrightarrow>
    (\<exists>f\<in>set (la_factors a). \<exists>e\<in>set ctx. \<exists>rule m.
       fa_key f = k \<and> cx_key e = k \<and> is_available e \<and> cx_evidence e = ev \<and>
       parse_rule k (fa_rule f) = Inr rule \<and>
       rule_matches rule (cx_value e) (cx_observed_at e) t = Inr m \<and> c = (if m then fa_weight f else 0))"
    (is "?lhs \<longleftrightarrow> ?rhs")
proof -
  obtain b where b: "require_aware_boundary (Aware t 0) = Inr b" and d: "distinct (map cx_key ctx)"
    and fs: "list_all2 (factor_spec (context_map ctx) b) (la_factors a) (rs_factors r)"
    using evaluate_InrD [OF assms] .
  have [simp]: "b = t" using b by (simp add: require_aware_boundary_def to_utc_def)
  show ?thesis
  proof
    assume ?lhs
    then obtain x where x: "x \<in> set (rs_factors r)" "fr_state x = Consumed" "k = fr_key x"
      "ev = fr_evidence x" "c = fr_contribution x"
      by (auto simp: consumed_triples_def)
    then obtain f where f: "f \<in> set (la_factors a)" "factor_spec (context_map ctx) t f x"
      using list_all2_right [OF fs] by auto
    then obtain e where e: "context_map ctx (fa_key f) = Some e" "is_available e"
      using x(2) by (auto simp: factor_spec_def split: option.splits if_splits)
    have "e \<in> set ctx" "cx_key e = fa_key f" using context_map_iff [OF d] e(1) by blast+
    moreover obtain rule where "parse_rule (fa_key f) (fa_rule f) = Inr rule"
      "rule_matches rule (cx_value e) (cx_observed_at e) t = Inr (fr_matched x)"
      using f(2) e by (auto simp: factor_spec_def)
    ultimately show ?rhs
      using f e x by (intro bexI [of _ f] bexI [of _ e] exI [of _ rule] exI [of _ "fr_matched x"])
        (auto simp: factor_spec_def)
  next
    assume ?rhs
    then obtain f e rule m where f: "f \<in> set (la_factors a)" "e \<in> set ctx" "fa_key f = k" "cx_key e = k"
      "is_available e" "cx_evidence e = ev" "parse_rule k (fa_rule f) = Inr rule"
      "rule_matches rule (cx_value e) (cx_observed_at e) t = Inr m" "c = (if m then fa_weight f else 0)"
      by blast
    obtain x where x: "x \<in> set (rs_factors r)" "factor_spec (context_map ctx) t f x"
      using list_all2_left [OF fs f(1)] by auto
    moreover have "context_map ctx (fa_key f) = Some e" using context_map_iff [OF d] f by blast
    ultimately have "fr_state x = Consumed \<and> fr_key x = k \<and> fr_evidence x = ev \<and> fr_contribution x = c"
      using f by (auto simp: factor_spec_def)
    then show ?lhs using x(1) by (force simp: consumed_triples_def)
  qed
qed

theorem evaluate_consumed_triples_witness:
  "(''employee_count'', Some ''ev-1'', 25) \<in> set (consumed_triples demo_result) \<longleftrightarrow>
    (\<exists>f\<in>set (la_factors demo_artifact). \<exists>e\<in>set demo_context. \<exists>rule m.
       fa_key f = ''employee_count'' \<and> cx_key e = ''employee_count'' \<and> is_available e \<and>
       cx_evidence e = Some ''ev-1'' \<and> parse_rule ''employee_count'' (fa_rule f) = Inr rule \<and>
       rule_matches rule (cx_value e) (cx_observed_at e) (Utc (Date 2026 4 17) 10 5 2 0) = Inr m \<and>
       25 = (if m then fa_weight f else 0))"
  by (rule evaluate_consumed_triples [OF demo_evaluation [unfolded demo_boundary_def]])

subsection \<open>Only the inputs a factor names matter\<close>

text \<open>The part of a result that replay compares: score, threshold, output and factor results.\<close>

definition result_core :: "evaluation_result \<Rightarrow> int \<times> int \<times> string \<times> factor_result list" where
  "result_core r = (rs_score r, rs_threshold r, rs_output r, rs_factors r)"

lemma result_core_of: "result_core (result_of a ctx fs) = result_core (result_of a ctx' fs)"
  by (simp add: result_core_def result_of_def Let_def)

lemma eval_factor_cong: "m (fa_key f) = m' (fa_key f) \<Longrightarrow> eval_factor m b (f, rule) = eval_factor m' b (f, rule)"
  by (simp add: eval_factor_def)

lemma evaluate_core_cong:
  assumes "distinct (map cx_key ctx)" "distinct (map cx_key ctx')"
    "\<And>f. f \<in> set (la_factors a) \<Longrightarrow> context_map ctx (fa_key f) = context_map ctx' (fa_key f)"
  shows "map_sum id result_core (evaluate a ctx bd) = map_sum id result_core (evaluate a ctx' bd)"
proof -
  have i: "index_context ctx = Inr (context_map ctx)" "index_context ctx' = Inr (context_map ctx')"
    using assms(1,2) by (simp_all add: index_context_Inr)
  have e: "mapE (eval_factor (context_map ctx) b) (zip (la_factors a) rules)
      = mapE (eval_factor (context_map ctx') b) (zip (la_factors a) rules)" for b rules
    by (rule mapE_cong) (auto intro!: eval_factor_cong assms(3) dest: set_zip_leftD)
  show ?thesis
    unfolding evaluate_def i bindE_simps e
    by (auto simp: bindE_def result_core_of [of a ctx _ ctx'] split: sum.split)
qed

lemma evaluate_repeated_key: "\<not> distinct (map cx_key ctx) \<Longrightarrow> \<exists>err. evaluate a ctx bd = Inl err"
  by (cases "evaluate a ctx bd") (auto simp: evaluate_Inr_iff)

lemma evaluate_ignored: "evaluate a ctx bd = Inr r \<Longrightarrow>
  rs_ignored r = map cx_key (filter (\<lambda>e. is_available e \<and> cx_key e \<notin> set (map fa_key (la_factors a))) ctx)"
  by (auto simp: evaluate_Inr_iff result_of_def Let_def filter_map comp_def entry_state_def split: if_splits
      intro!: arg_cong [of _ _ "map cx_key"] filter_cong)



subsection \<open>Windows that overflow\<close>

definition window_overflows :: "logic_artifact \<Rightarrow> bool" where
  "window_overflows a \<longleftrightarrow>
     (\<exists>f\<in>set (la_factors a). \<exists>n. parse_rule (fa_key f) (fa_rule f) = Inr (ObservedWithinRule (fa_key f) n) \<and> 999999999 < n)"

lemma rule_overflows: "rule_matches rule v obs b = Inl PyOverflow \<Longrightarrow> \<exists>k n. rule = ObservedWithinRule k n \<and> 999999999 < \<bar>n\<bar>"
  by (cases rule) (auto simp: bindE_eq_Inl require_int_def reject_bool_def timedelta_days_def
      split: json.splits option.splits if_splits)

lemma parse_never_overflows: "parse_rule key text \<noteq> Inl PyOverflow"
  unfolding parse_rule_def using build_rule_Inl by (auto split: option.split)

lemma evaluate_overflows:
  assumes "evaluate a ctx (Aware t 0) = Inl (RuleFailed PyOverflow)"
  shows "window_overflows a"
proof -
  have b: "require_aware_boundary (Aware t 0) = Inr t" by (simp add: require_aware_boundary_def to_utc_def)
  have i: "index_context ctx \<noteq> Inl (RuleFailed PyOverflow)"
  proof -
    have "index_from m es = Inl e \<Longrightarrow> \<exists>k. e = DuplicateContextKey k" for m es e
      by (induction es arbitrary: m) (auto split: if_splits)
    then show ?thesis by (auto simp: index_context_def)
  qed
  have p: "mapE (\<lambda>f. lift_rule (parse_rule (fa_key f) (fa_rule f))) fs \<noteq> Inl (RuleFailed PyOverflow)" for fs
    using parse_never_overflows by (auto simp: lift_rule_def dest!: mapE_Inl split: sum.splits)
  obtain rules m where r: "mapE (\<lambda>f. lift_rule (parse_rule (fa_key f) (fa_rule f))) (la_factors a) = Inr rules"
    "mapE (eval_factor m t) (zip (la_factors a) rules) = Inl (RuleFailed PyOverflow)"
    using assms i p unfolding evaluate_def b by (auto simp: bindE_eq_Inl split: if_splits)
  obtain f rule where f: "(f, rule) \<in> set (zip (la_factors a) rules)" "eval_factor m t (f, rule) = Inl (RuleFailed PyOverflow)"
    using mapE_Inl [OF r(2)] by auto
  then obtain k n where o: "rule = ObservedWithinRule k n" "999999999 < \<bar>n\<bar>"
    using rule_overflows
    by (fastforce simp: eval_factor_def bindE_eq_Inl lift_rule_def split: option.splits if_splits sum.splits)
  have "parse_rule (fa_key f) (fa_rule f) = Inr rule"
    using f(1) r(1) by (auto simp: mapE_Inr_iff set_zip list_all2_conv_all_nth)
  then show ?thesis
    using f(1) o parsed_days [of "fa_key f" "fa_rule f" k n] parse_rule_Inr [of "fa_key f" "fa_rule f" rule]
    unfolding window_overflows_def by (intro bexI [of _ f] exI [of _ n]) (auto dest: set_zip_leftD)
qed

subsection \<open>Failing closed\<close>

text \<open>An artifact with one factor whose rule does not parse, or an unsupported missing-value
  behavior, or a naive boundary never evaluates, whatever the context holds, even when the input
  concerned is absent or unavailable.\<close>
theorem evaluate_fails_closed:
  assumes "(\<exists>f\<in>set (la_factors a). \<exists>e. parse_rule (fa_key f) (fa_rule f) = Inl e) \<or>
    la_missing_value_behavior a \<noteq> SUPPORTED_MISSING_VALUE_BEHAVIOR \<or> (\<exists>t. bd = Naive t)"
  shows "\<exists>err. evaluate a ctx bd = Inl err"
proof (cases "evaluate a ctx bd")
  case (Inr r)
  then obtain b rules where "require_aware_boundary bd = Inr b"
    "la_missing_value_behavior a = SUPPORTED_MISSING_VALUE_BEHAVIOR"
    "list_all2 (\<lambda>f rule. parse_rule (fa_key f) (fa_rule f) = Inr rule) (la_factors a) rules"
    using evaluate_Inr_iff by blast
  with assms show ?thesis
    by (auto simp: require_aware_boundary_def in_set_conv_nth list_all2_conv_all_nth)
qed simp

theorem evaluate_fails_closed_witness:
  "\<exists>err. evaluate demo_artifact [] (Naive (Utc (Date 2026 4 17) 10 5 2 0)) = Inl err"
  by (rule evaluate_fails_closed) blast

end
