(* ===== verification/Ledger.thy ===== *)
theory Ledger
  imports Schema
begin

text \<open>
  \<open>ledger/schema.py\<close>: the SQLite tables as lists of rows in insertion order, with the
  constraints the database enforces on INSERT: primary and unique keys, foreign keys (checked
  at the statement, the one on \<open>accounts.first_seen_event_id\<close> at COMMIT), 64-bit INTEGER
  binding and AUTOINCREMENT.  Rows are only appended: the \<open>BEFORE UPDATE\<close> and
  \<open>BEFORE DELETE\<close> triggers leave no other statement (INV-01).  The tables of the capture
  schemas (\<open>*_v2\<close>) are not part of the model.
\<close>

subsection \<open>Rows\<close>

record account_row =
  a_account_ref :: string
  a_name :: string
  a_domain :: string
  a_first_seen :: string

record event_row =
  e_seq :: int
  e_event_id :: string
  e_schema_version :: string
  e_event_type :: string
  e_source :: string
  e_account_ref :: string
  e_occurred_at :: string
  e_recorded_at :: string
  e_hash :: string
  e_payload :: string

record evidence_row =
  v_version_id :: string
  v_account_ref :: string
  v_type :: string
  v_value_json :: string
  v_source :: string
  v_observed_at :: "string option"
  v_available_at :: string
  v_source_event :: string
  v_supersedes :: "string option"

record artifact_row =
  l_hash :: string
  l_artifact_id :: string
  l_logic_version :: string
  l_decision_class :: string
  l_schema_version :: string
  l_evaluator_version :: string
  l_json :: string
  l_source_event :: string

record decision_row =
  d_event_id :: string
  d_account_ref :: string
  d_class :: string
  d_boundary :: string
  d_workflow_version :: string
  d_hash :: string
  d_evaluator_version :: string
  d_logic_version :: string
  d_score :: int
  d_threshold :: int
  d_output :: string
  d_explanation :: "string option"
  d_seq :: int

record context_row =
  h_decision :: string
  h_input_key :: string
  h_availability :: string
  h_value_text :: "string option"
  h_evidence :: "string option"

record consumed_row =
  u_decision :: string
  u_input_key :: string
  u_value_text :: string
  u_evidence :: string
  u_contribution :: int

record persona_row =
  p_event_id :: string
  p_account_ref :: string
  p_decision :: string
  p_persona :: string
  p_explanation :: "string option"

record action_row =
  x_event_id :: string
  x_account_ref :: string
  x_decision :: string
  x_action_type :: string
  x_play_id :: int
  x_target_persona :: string
  x_status :: string
  x_cost :: string
  x_currency :: string
  x_occurred_at :: string

record outcome_row =
  o_event_id :: string
  o_account_ref :: string
  o_action :: "string option"
  o_window_days :: "int option"
  o_reply :: "bool option"
  o_meeting :: "bool option"
  o_opportunity :: "bool option"
  o_occurred_at :: string
  o_recorded_at :: string
  o_schema_version :: string
  o_window_opened_at :: "string option"
  o_window_closes_at :: "string option"
  o_evaluation_state :: "string option"
  o_observed_at :: "string option"
  o_source_action :: "string option"
  o_source_action_reason :: "string option"
  o_source_decision :: "string option"
  o_source_decision_reason :: "string option"
  o_supersedes :: "string option"

record attribution_row =
  t_event_id :: string
  t_account_ref :: string
  t_source_event :: string
  t_outcome :: string
  t_policy_version :: string
  t_method :: string
  t_window_days :: int
  t_resolved_action :: "string option"
  t_resolved_decision :: "string option"
  t_status :: string
  t_reason :: string
  t_attributed_at :: string
  t_cutoff :: int
  t_supersedes :: "string option"

record ledger =
  lg_seq :: int   \<comment> \<open>\<open>sqlite_sequence\<close>: the last \<open>ingest_sequence\<close> handed out\<close>
  lg_accounts :: "account_row list"
  lg_events :: "event_row list"
  lg_evidence :: "evidence_row list"
  lg_artifacts :: "artifact_row list"
  lg_decisions :: "decision_row list"
  lg_context :: "context_row list"
  lg_consumed :: "consumed_row list"
  lg_personas :: "persona_row list"
  lg_actions :: "action_row list"
  lg_outcomes :: "outcome_row list"
  lg_attributions :: "attribution_row list"

text \<open>\<open>create_schema\<close> on a fresh file.\<close>

definition empty_ledger :: ledger where
  "empty_ledger =
     \<lparr>lg_seq = 0, lg_accounts = [], lg_events = [], lg_evidence = [], lg_artifacts = [], lg_decisions = [],
      lg_context = [], lg_consumed = [], lg_personas = [], lg_actions = [], lg_outcomes = [],
      lg_attributions = []\<rparr>"

definition SYSTEM_ACCOUNT_NAME :: string where
  "SYSTEM_ACCOUNT_NAME = ''System (logic artifact registry)''"

definition SYSTEM_ACCOUNT_DOMAIN :: string where
  "SYSTEM_ACCOUNT_DOMAIN = ''system.invalid''"

definition accounts_query :: "ledger \<Rightarrow> account_row list" where
  "accounts_query L = filter (\<lambda>a. a_account_ref a \<noteq> SYSTEM_ACCOUNT_REF) (lg_accounts L)"

subsection \<open>Constraints\<close>

text \<open>
  SQLAlchemy's \<open>IntegrityError\<close>, \<open>OperationalError\<close> (a full AUTOINCREMENT table) and the
  \<open>OverflowError\<close> of the \<open>sqlite3\<close> binding of an integer beyond 64 bits.
\<close>

datatype db_error =
    UniqueViolation string
  | ForeignKeyViolation string
  | CheckViolation string
  | DatabaseFull
  | IntegerOverflow

definition guarded :: "'e option list \<Rightarrow> 'a \<Rightarrow> 'e + 'a" where
  "guarded checks x = (case first_failure checks of Some e \<Rightarrow> Inl e | None \<Rightarrow> Inr x)"

lemma guarded_Inr [simp]: "guarded cs x = Inr y \<longleftrightarrow> (\<forall>c\<in>set cs. c = None) \<and> y = x"
  by (auto simp: guarded_def split: option.splits dest: first_failure_Some simp flip: first_failure_None)

definition fits_int64 :: "int \<Rightarrow> bool" where
  "fits_int64 n \<longleftrightarrow> - 9223372036854775808 \<le> n \<and> n \<le> 9223372036854775807"

definition bind_int :: "int \<Rightarrow> db_error option" where
  "bind_int n = raise_if (\<not> fits_int64 n) IntegerOverflow"

definition unique_key :: "string \<Rightarrow> ('r \<Rightarrow> 'k) \<Rightarrow> 'r list \<Rightarrow> 'k \<Rightarrow> db_error option" where
  "unique_key what key rows k = raise_if (k \<in> set (map key rows)) (UniqueViolation what)"

text \<open>A UNIQUE column admits any number of NULLs.\<close>

definition unique_opt :: "string \<Rightarrow> ('r \<Rightarrow> 'k option) \<Rightarrow> 'r list \<Rightarrow> 'k option \<Rightarrow> db_error option" where
  "unique_opt what key rows k = raise_if (k \<noteq> None \<and> k \<in> set (map key rows)) (UniqueViolation what)"

definition foreign_key :: "string \<Rightarrow> ('r \<Rightarrow> 'k) \<Rightarrow> 'r list \<Rightarrow> 'k \<Rightarrow> db_error option" where
  "foreign_key what key rows k = raise_if (k \<notin> set (map key rows)) (ForeignKeyViolation what)"

definition foreign_opt :: "string \<Rightarrow> ('r \<Rightarrow> 'k) \<Rightarrow> 'r list \<Rightarrow> 'k option \<Rightarrow> db_error option" where
  "foreign_opt what key rows k = (case k of None \<Rightarrow> None | Some j \<Rightarrow> foreign_key what key rows j)"

lemma constraint_None [simp]:
  "bind_int n = None \<longleftrightarrow> fits_int64 n"
  "unique_key what key rows k = None \<longleftrightarrow> k \<notin> key ` set rows"
  "unique_opt what okey rows ok = None \<longleftrightarrow> ok = None \<or> ok \<notin> okey ` set rows"
  "foreign_key what key rows k = None \<longleftrightarrow> k \<in> key ` set rows"
  "foreign_opt what key rows fk = None \<longleftrightarrow> (\<forall>j. fk = Some j \<longrightarrow> j \<in> key ` set rows)"
  by (auto simp: bind_int_def unique_key_def unique_opt_def foreign_key_def foreign_opt_def split: option.splits)

subsection \<open>Statements\<close>

definition insert_account :: "account_row \<Rightarrow> ledger \<Rightarrow> db_error + ledger" where
  "insert_account r L = guarded
     [unique_key ''accounts.account_ref'' a_account_ref (lg_accounts L) (a_account_ref r)]
     (L\<lparr>lg_accounts := lg_accounts L @ [r]\<rparr>)"

text \<open>The row is written at the next \<open>ingest_sequence\<close>, whatever its own says.\<close>

definition insert_event :: "event_row \<Rightarrow> ledger \<Rightarrow> db_error + ledger" where
  "insert_event r L = guarded
     [raise_if (\<not> fits_int64 (lg_seq L + 1)) DatabaseFull,
      unique_key ''events.event_id'' e_event_id (lg_events L) (e_event_id r),
      foreign_key ''events.account_ref'' a_account_ref (lg_accounts L) (e_account_ref r)]
     (L\<lparr>lg_seq := lg_seq L + 1, lg_events := lg_events L @ [r\<lparr>e_seq := lg_seq L + 1\<rparr>]\<rparr>)"

definition insert_evidence :: "evidence_row \<Rightarrow> ledger \<Rightarrow> db_error + ledger" where
  "insert_evidence r L = guarded
     [unique_key ''evidence_versions.evidence_version_id'' v_version_id (lg_evidence L) (v_version_id r),
      foreign_key ''evidence_versions.account_ref'' a_account_ref (lg_accounts L) (v_account_ref r),
      foreign_key ''evidence_versions.source_event_id'' e_event_id (lg_events L) (v_source_event r),
      foreign_opt ''evidence_versions.supersedes_evidence_version_id'' v_version_id
        (lg_evidence L @ [r]) (v_supersedes r)]
     (L\<lparr>lg_evidence := lg_evidence L @ [r]\<rparr>)"

definition insert_artifact :: "artifact_row \<Rightarrow> ledger \<Rightarrow> db_error + ledger" where
  "insert_artifact r L = guarded
     [unique_key ''logic_artifacts.artifact_hash'' l_hash (lg_artifacts L) (l_hash r),
      unique_key ''uq_logic_artifacts_identity'' (\<lambda>x. (l_artifact_id x, l_logic_version x)) (lg_artifacts L)
        (l_artifact_id r, l_logic_version r),
      foreign_key ''logic_artifacts.source_event_id'' e_event_id (lg_events L) (l_source_event r)]
     (L\<lparr>lg_artifacts := lg_artifacts L @ [r]\<rparr>)"

definition insert_decision :: "decision_row \<Rightarrow> ledger \<Rightarrow> db_error + ledger" where
  "insert_decision r L = guarded
     [bind_int (d_score r), bind_int (d_threshold r), bind_int (d_seq r),
      unique_key ''decisions.decision_event_id'' d_event_id (lg_decisions L) (d_event_id r),
      foreign_key ''decisions.decision_event_id'' e_event_id (lg_events L) (d_event_id r),
      foreign_key ''decisions.account_ref'' a_account_ref (lg_accounts L) (d_account_ref r),
      foreign_key ''decisions.artifact_hash'' l_hash (lg_artifacts L) (d_hash r)]
     (L\<lparr>lg_decisions := lg_decisions L @ [r]\<rparr>)"

definition insert_context :: "context_row \<Rightarrow> ledger \<Rightarrow> db_error + ledger" where
  "insert_context r L = guarded
     [unique_key ''decision_context'' (\<lambda>x. (h_decision x, h_input_key x)) (lg_context L)
        (h_decision r, h_input_key r),
      foreign_key ''decision_context.decision_event_id'' d_event_id (lg_decisions L) (h_decision r),
      foreign_opt ''decision_context.evidence_version_id'' v_version_id (lg_evidence L) (h_evidence r)]
     (L\<lparr>lg_context := lg_context L @ [r]\<rparr>)"

definition insert_consumed :: "consumed_row \<Rightarrow> ledger \<Rightarrow> db_error + ledger" where
  "insert_consumed r L = guarded
     [bind_int (u_contribution r),
      unique_key ''decision_consumed_inputs'' (\<lambda>x. (u_decision x, u_input_key x)) (lg_consumed L)
        (u_decision r, u_input_key r),
      foreign_key ''decision_consumed_inputs.decision_event_id'' d_event_id (lg_decisions L) (u_decision r),
      foreign_key ''decision_consumed_inputs.evidence_version_id'' v_version_id (lg_evidence L) (u_evidence r)]
     (L\<lparr>lg_consumed := lg_consumed L @ [r]\<rparr>)"

definition insert_persona :: "persona_row \<Rightarrow> ledger \<Rightarrow> db_error + ledger" where
  "insert_persona r L = guarded
     [unique_key ''persona_selections.event_id'' p_event_id (lg_personas L) (p_event_id r),
      foreign_key ''persona_selections.event_id'' e_event_id (lg_events L) (p_event_id r),
      foreign_key ''persona_selections.account_ref'' a_account_ref (lg_accounts L) (p_account_ref r),
      foreign_key ''persona_selections.decision_event_id'' d_event_id (lg_decisions L) (p_decision r)]
     (L\<lparr>lg_personas := lg_personas L @ [r]\<rparr>)"

definition insert_action :: "action_row \<Rightarrow> ledger \<Rightarrow> db_error + ledger" where
  "insert_action r L = guarded
     [bind_int (x_play_id r),
      unique_key ''actions.action_event_id'' x_event_id (lg_actions L) (x_event_id r),
      foreign_key ''actions.action_event_id'' e_event_id (lg_events L) (x_event_id r),
      foreign_key ''actions.account_ref'' a_account_ref (lg_accounts L) (x_account_ref r),
      foreign_key ''actions.decision_event_id'' d_event_id (lg_decisions L) (x_decision r)]
     (L\<lparr>lg_actions := lg_actions L @ [r]\<rparr>)"

definition insert_outcome :: "outcome_row \<Rightarrow> ledger \<Rightarrow> db_error + ledger" where
  "insert_outcome r L = guarded
     [(case o_window_days r of None \<Rightarrow> None | Some n \<Rightarrow> bind_int n),
      unique_key ''outcomes.outcome_event_id'' o_event_id (lg_outcomes L) (o_event_id r),
      unique_opt ''outcomes.supersedes_outcome_event_id'' o_supersedes (lg_outcomes L) (o_supersedes r),
      foreign_key ''outcomes.outcome_event_id'' e_event_id (lg_events L) (o_event_id r),
      foreign_key ''outcomes.account_ref'' a_account_ref (lg_accounts L) (o_account_ref r),
      foreign_opt ''outcomes.action_event_id'' x_event_id (lg_actions L) (o_action r),
      foreign_opt ''outcomes.supersedes_outcome_event_id'' o_event_id (lg_outcomes L @ [r]) (o_supersedes r)]
     (L\<lparr>lg_outcomes := lg_outcomes L @ [r]\<rparr>)"

definition insert_attribution :: "attribution_row \<Rightarrow> ledger \<Rightarrow> db_error + ledger" where
  "insert_attribution r L = guarded
     [bind_int (t_window_days r), bind_int (t_cutoff r),
      unique_key ''outcome_attributions.attribution_event_id'' t_event_id (lg_attributions L) (t_event_id r),
      unique_opt ''outcome_attributions.supersedes_attribution_event_id'' t_supersedes (lg_attributions L)
        (t_supersedes r),
      unique_key ''uq_outcome_attributions_operation'' (\<lambda>x. (t_outcome x, t_policy_version x, t_cutoff x))
        (lg_attributions L) (t_outcome r, t_policy_version r, t_cutoff r),
      (if t_supersedes r = None
       then unique_key ''uq_outcome_attributions_root'' (\<lambda>x. (t_outcome x, t_policy_version x))
         (filter (\<lambda>x. t_supersedes x = None) (lg_attributions L)) (t_outcome r, t_policy_version r)
       else None),
      foreign_key ''outcome_attributions.attribution_event_id'' e_event_id (lg_events L) (t_event_id r),
      foreign_key ''outcome_attributions.account_ref'' a_account_ref (lg_accounts L) (t_account_ref r),
      foreign_key ''outcome_attributions.source_event_id'' e_event_id (lg_events L) (t_source_event r),
      foreign_key ''outcome_attributions.outcome_event_id'' o_event_id (lg_outcomes L) (t_outcome r),
      foreign_opt ''outcome_attributions.resolved_action_event_id'' x_event_id (lg_actions L) (t_resolved_action r),
      foreign_opt ''outcome_attributions.resolved_decision_event_id'' d_event_id (lg_decisions L)
        (t_resolved_decision r),
      foreign_opt ''outcome_attributions.supersedes_attribution_event_id'' t_event_id (lg_attributions L @ [r])
        (t_supersedes r)]
     (L\<lparr>lg_attributions := lg_attributions L @ [r]\<rparr>)"

text \<open>\<open>executemany\<close>: one statement per row, in order.\<close>

primrec insert_many :: "('r \<Rightarrow> 'l \<Rightarrow> 'e + 'l) \<Rightarrow> 'r list \<Rightarrow> 'l \<Rightarrow> 'e + 'l" where
  "insert_many ins [] L = Inr L"
| "insert_many ins (r # rs) L = bindE (ins r L) (insert_many ins rs)"

text \<open>COMMIT runs the deferred foreign key of \<open>accounts\<close>.\<close>

definition commit :: "ledger \<Rightarrow> db_error + ledger" where
  "commit L = guarded
     [raise_if (list_ex (\<lambda>a. a_first_seen a \<notin> set (map e_event_id (lg_events L))) (lg_accounts L))
        (ForeignKeyViolation ''accounts.first_seen_event_id'')] L"

subsection \<open>Tables that only grow\<close>

text \<open>
  What every reader of the ledger relies on: a statement that succeeds appends one row under a
  fresh key.  \<open>stored\<close> is the row as written (an event gets its sequence number there).
\<close>

locale append_table =
  fixes rows :: "'l \<Rightarrow> 'r list" and key :: "'r \<Rightarrow> 'k"
    and ins :: "'r \<Rightarrow> 'l \<Rightarrow> 'e + 'l" and stored :: "'r \<Rightarrow> 'l \<Rightarrow> 'r"
  assumes appends: "ins r L = Inr L' \<Longrightarrow> rows L' = rows L @ [stored r L]"
    and fresh: "ins r L = Inr L' \<Longrightarrow> key r \<notin> key ` set (rows L)"
    and key_stored: "key (stored r L) = key r"
begin

definition lookup :: "'k \<Rightarrow> 'l \<Rightarrow> 'r option" where
  "lookup k L = find (\<lambda>r. key r = k) (rows L)"

lemma lookup_inserted: "ins r L = Inr L' \<Longrightarrow> lookup (key r) L' = Some (stored r L)"
proof -
  assume i: "ins r L = Inr L'"
  then have "find (\<lambda>x. key x = key r) (rows L) = None"
    using fresh [of r L L'] by (metis (mono_tags, lifting) find_None_iff image_eqI)
  then show ?thesis by (simp add: lookup_def appends [OF i] find_append key_stored)
qed

lemma lookup_kept: "ins r L = Inr L' \<Longrightarrow> lookup k L = Some x \<Longrightarrow> lookup k L' = Some x"
  by (auto simp: lookup_def appends find_append)

lemma distinct_kept: "ins r L = Inr L' \<Longrightarrow> distinct (map key (rows L)) \<Longrightarrow> distinct (map key (rows L'))"
  using fresh [of r L L'] by (simp add: appends key_stored)

lemma insert_twice: "ins r L = Inr L' \<Longrightarrow> \<exists>e. ins r L' = Inl e"
proof (cases "ins r L'")
  case (Inr M)
  assume "ins r L = Inr L'"
  then have "key r \<in> key ` set (rows L')" by (simp add: appends key_stored)
  with fresh [OF Inr] show ?thesis by simp
qed simp

lemma lookup_unique: "distinct (map key (rows L)) \<Longrightarrow> x \<in> set (rows L) \<Longrightarrow> lookup (key x) L = Some x"
  unfolding lookup_def by (rule find_distinct_key)

end

interpretation accounts: append_table lg_accounts a_account_ref insert_account "\<lambda>r L. r"
  by unfold_locales (auto simp: insert_account_def)

interpretation evidence_versions: append_table lg_evidence v_version_id insert_evidence "\<lambda>r L. r"
  by unfold_locales (auto simp: insert_evidence_def)

interpretation logic_artifacts: append_table lg_artifacts l_hash insert_artifact "\<lambda>r L. r"
  by unfold_locales (auto simp: insert_artifact_def)

interpretation decisions: append_table lg_decisions d_event_id insert_decision "\<lambda>r L. r"
  by unfold_locales (auto simp: insert_decision_def)

interpretation personas: append_table lg_personas p_event_id insert_persona "\<lambda>r L. r"
  by unfold_locales (auto simp: insert_persona_def)

interpretation actions: append_table lg_actions x_event_id insert_action "\<lambda>r L. r"
  by unfold_locales (auto simp: insert_action_def)

interpretation outcomes: append_table lg_outcomes o_event_id insert_outcome "\<lambda>r L. r"
  by unfold_locales (auto simp: insert_outcome_def)

interpretation attributions: append_table lg_attributions t_event_id insert_attribution "\<lambda>r L. r"
  by unfold_locales (auto simp: insert_attribution_def)

interpretation events: append_table lg_events e_event_id insert_event "\<lambda>r L. r\<lparr>e_seq := lg_seq L + 1\<rparr>"
  by unfold_locales (auto simp: insert_event_def)

lemmas insert_defs = insert_account_def insert_event_def insert_evidence_def insert_artifact_def
  insert_decision_def insert_context_def insert_consumed_def insert_persona_def insert_action_def
  insert_outcome_def insert_attribution_def

subsection \<open>The constraints hold of every ledger\<close>

definition ledger_keys :: "ledger \<Rightarrow> bool" where
  "ledger_keys L \<longleftrightarrow>
     0 \<le> lg_seq L \<and> sorted_wrt (<) (map e_seq (lg_events L)) \<and>
     (\<forall>e\<in>set (lg_events L). 1 \<le> e_seq e \<and> e_seq e \<le> lg_seq L) \<and>
     distinct (map a_account_ref (lg_accounts L)) \<and>
     distinct (map e_event_id (lg_events L)) \<and>
     distinct (map v_version_id (lg_evidence L)) \<and>
     distinct (map l_hash (lg_artifacts L)) \<and>
     distinct (map (\<lambda>x. (l_artifact_id x, l_logic_version x)) (lg_artifacts L)) \<and>
     distinct (map d_event_id (lg_decisions L)) \<and>
     distinct (map (\<lambda>x. (h_decision x, h_input_key x)) (lg_context L)) \<and>
     distinct (map (\<lambda>x. (u_decision x, u_input_key x)) (lg_consumed L)) \<and>
     distinct (map p_event_id (lg_personas L)) \<and>
     distinct (map x_event_id (lg_actions L)) \<and>
     distinct (map o_event_id (lg_outcomes L)) \<and>
     distinct (filter (\<lambda>k. k \<noteq> None) (map o_supersedes (lg_outcomes L))) \<and>
     distinct (map t_event_id (lg_attributions L)) \<and>
     distinct (filter (\<lambda>k. k \<noteq> None) (map t_supersedes (lg_attributions L))) \<and>
     distinct (map (\<lambda>x. (t_outcome x, t_policy_version x, t_cutoff x)) (lg_attributions L)) \<and>
     distinct (map (\<lambda>x. (t_outcome x, t_policy_version x))
       (filter (\<lambda>x. t_supersedes x = None) (lg_attributions L)))"

definition refs_in :: "'k option \<Rightarrow> 'k set \<Rightarrow> bool" where
  "refs_in r K \<longleftrightarrow> (\<forall>k. r = Some k \<longrightarrow> k \<in> K)"

text \<open>The foreign keys checked at each statement, and the one deferred to COMMIT.\<close>

definition ledger_refs :: "ledger \<Rightarrow> bool" where
  "ledger_refs L \<longleftrightarrow>
     (let E = e_event_id ` set (lg_events L); A = a_account_ref ` set (lg_accounts L);
          D = d_event_id ` set (lg_decisions L); V = v_version_id ` set (lg_evidence L);
          X = x_event_id ` set (lg_actions L); Q = o_event_id ` set (lg_outcomes L);
          H = l_hash ` set (lg_artifacts L); T = t_event_id ` set (lg_attributions L)
      in (\<forall>e\<in>set (lg_events L). e_account_ref e \<in> A) \<and>
         (\<forall>r\<in>set (lg_evidence L). v_account_ref r \<in> A \<and> v_source_event r \<in> E \<and> refs_in (v_supersedes r) V) \<and>
         (\<forall>r\<in>set (lg_artifacts L). l_source_event r \<in> E) \<and>
         (\<forall>r\<in>set (lg_decisions L). d_event_id r \<in> E \<and> d_account_ref r \<in> A \<and> d_hash r \<in> H) \<and>
         (\<forall>r\<in>set (lg_context L). h_decision r \<in> D \<and> refs_in (h_evidence r) V) \<and>
         (\<forall>r\<in>set (lg_consumed L). u_decision r \<in> D \<and> u_evidence r \<in> V) \<and>
         (\<forall>r\<in>set (lg_personas L). p_event_id r \<in> E \<and> p_account_ref r \<in> A \<and> p_decision r \<in> D) \<and>
         (\<forall>r\<in>set (lg_actions L). x_event_id r \<in> E \<and> x_account_ref r \<in> A \<and> x_decision r \<in> D) \<and>
         (\<forall>r\<in>set (lg_outcomes L). o_event_id r \<in> E \<and> o_account_ref r \<in> A \<and> refs_in (o_action r) X \<and>
            refs_in (o_supersedes r) Q) \<and>
         (\<forall>r\<in>set (lg_attributions L). t_event_id r \<in> E \<and> t_account_ref r \<in> A \<and> t_source_event r \<in> E \<and>
            t_outcome r \<in> Q \<and> refs_in (t_resolved_action r) X \<and> refs_in (t_resolved_decision r) D \<and>
            refs_in (t_supersedes r) T))"

definition deferred_refs :: "ledger \<Rightarrow> bool" where
  "deferred_refs L \<longleftrightarrow> (\<forall>a\<in>set (lg_accounts L). a_first_seen a \<in> e_event_id ` set (lg_events L))"

lemma empty_ledger_ok: "ledger_keys empty_ledger" "ledger_refs empty_ledger"
  by (simp_all add: ledger_keys_def ledger_refs_def empty_ledger_def)

lemma keys_insert_event: "insert_event r L = Inr L' \<Longrightarrow> ledger_keys L \<Longrightarrow> ledger_keys L'"
  by (fastforce simp: insert_event_def ledger_keys_def sorted_wrt_append)

lemma keys_insert_account: "insert_account r L = Inr L' \<Longrightarrow> ledger_keys L \<Longrightarrow> ledger_keys L'"
  by (auto simp: insert_account_def ledger_keys_def image_iff split: if_splits)

lemma keys_insert_evidence: "insert_evidence r L = Inr L' \<Longrightarrow> ledger_keys L \<Longrightarrow> ledger_keys L'"
  by (auto simp: insert_evidence_def ledger_keys_def image_iff split: if_splits)

lemma keys_insert_artifact: "insert_artifact r L = Inr L' \<Longrightarrow> ledger_keys L \<Longrightarrow> ledger_keys L'"
  by (auto simp: insert_artifact_def ledger_keys_def image_iff split: if_splits)

lemma keys_insert_decision: "insert_decision r L = Inr L' \<Longrightarrow> ledger_keys L \<Longrightarrow> ledger_keys L'"
  by (auto simp: insert_decision_def ledger_keys_def image_iff split: if_splits)

lemma keys_insert_context: "insert_context r L = Inr L' \<Longrightarrow> ledger_keys L \<Longrightarrow> ledger_keys L'"
  by (auto simp: insert_context_def ledger_keys_def image_iff split: if_splits)

lemma keys_insert_consumed: "insert_consumed r L = Inr L' \<Longrightarrow> ledger_keys L \<Longrightarrow> ledger_keys L'"
  by (auto simp: insert_consumed_def ledger_keys_def image_iff split: if_splits)

lemma keys_insert_persona: "insert_persona r L = Inr L' \<Longrightarrow> ledger_keys L \<Longrightarrow> ledger_keys L'"
  by (auto simp: insert_persona_def ledger_keys_def image_iff split: if_splits)

lemma keys_insert_action: "insert_action r L = Inr L' \<Longrightarrow> ledger_keys L \<Longrightarrow> ledger_keys L'"
  by (auto simp: insert_action_def ledger_keys_def image_iff split: if_splits)

lemma keys_insert_outcome: "insert_outcome r L = Inr L' \<Longrightarrow> ledger_keys L \<Longrightarrow> ledger_keys L'"
  by (auto simp: insert_outcome_def ledger_keys_def image_iff split: if_splits)

lemma keys_insert_attribution: "insert_attribution r L = Inr L' \<Longrightarrow> ledger_keys L \<Longrightarrow> ledger_keys L'"
  by (auto simp: insert_attribution_def ledger_keys_def image_iff split: if_splits)

lemma refs_insert_account: "insert_account r L = Inr L' \<Longrightarrow> ledger_refs L \<Longrightarrow> ledger_refs L'"
  unfolding insert_account_def ledger_refs_def guarded_Inr Let_def
  by (auto simp: refs_in_def)

lemma refs_insert_event: "insert_event r L = Inr L' \<Longrightarrow> ledger_refs L \<Longrightarrow> ledger_refs L'"
  unfolding insert_event_def ledger_refs_def guarded_Inr Let_def
  by (auto simp: refs_in_def)

lemma refs_insert_evidence: "insert_evidence r L = Inr L' \<Longrightarrow> ledger_refs L \<Longrightarrow> ledger_refs L'"
  unfolding insert_evidence_def ledger_refs_def guarded_Inr Let_def
  by (auto simp: refs_in_def)

lemma refs_insert_artifact: "insert_artifact r L = Inr L' \<Longrightarrow> ledger_refs L \<Longrightarrow> ledger_refs L'"
  unfolding insert_artifact_def ledger_refs_def guarded_Inr Let_def
  by (auto simp: refs_in_def)

lemma refs_insert_decision: "insert_decision r L = Inr L' \<Longrightarrow> ledger_refs L \<Longrightarrow> ledger_refs L'"
  unfolding insert_decision_def ledger_refs_def guarded_Inr Let_def
  by (auto simp: refs_in_def)

lemma refs_insert_context: "insert_context r L = Inr L' \<Longrightarrow> ledger_refs L \<Longrightarrow> ledger_refs L'"
  unfolding insert_context_def ledger_refs_def guarded_Inr Let_def
  by (auto simp: refs_in_def)

lemma refs_insert_consumed: "insert_consumed r L = Inr L' \<Longrightarrow> ledger_refs L \<Longrightarrow> ledger_refs L'"
  unfolding insert_consumed_def ledger_refs_def guarded_Inr Let_def
  by (auto simp: refs_in_def)

lemma refs_insert_persona: "insert_persona r L = Inr L' \<Longrightarrow> ledger_refs L \<Longrightarrow> ledger_refs L'"
  unfolding insert_persona_def ledger_refs_def guarded_Inr Let_def
  by (auto simp: refs_in_def)

lemma refs_insert_action: "insert_action r L = Inr L' \<Longrightarrow> ledger_refs L \<Longrightarrow> ledger_refs L'"
  unfolding insert_action_def ledger_refs_def guarded_Inr Let_def
  by (auto simp: refs_in_def)

lemma refs_insert_outcome: "insert_outcome r L = Inr L' \<Longrightarrow> ledger_refs L \<Longrightarrow> ledger_refs L'"
  unfolding insert_outcome_def ledger_refs_def guarded_Inr Let_def
  by (auto simp: refs_in_def)

lemma refs_insert_attribution: "insert_attribution r L = Inr L' \<Longrightarrow> ledger_refs L \<Longrightarrow> ledger_refs L'"
  unfolding insert_attribution_def ledger_refs_def guarded_Inr Let_def
  by (auto simp: refs_in_def)

subsection \<open>Later appends\<close>

text \<open>
  \<open>extends L L'\<close>: the ledger went from \<open>L\<close> to \<open>L'\<close> by appends only, events at later
  sequence numbers, and the rows a decision, action, outcome or attribution event projects
  carry the identifier of an event that is not in \<open>L\<close>.
\<close>

definition grown :: "('r \<Rightarrow> bool) \<Rightarrow> 'r list \<Rightarrow> 'r list \<Rightarrow> bool" where
  "grown P xs ys \<longleftrightarrow> (\<exists>zs. ys = xs @ zs \<and> list_all P zs)"

lemma grown_refl [simp]: "grown P xs xs"
  by (simp add: grown_def)

lemma grown_snoc: "grown P xs ys \<Longrightarrow> P r \<Longrightarrow> grown P xs (ys @ [r])"
  by (auto simp: grown_def)

lemma grown_trans: "grown P xs ys \<Longrightarrow> grown Q ys zs \<Longrightarrow> (\<And>r. Q r \<Longrightarrow> P r) \<Longrightarrow> grown P xs zs"
  by (auto simp: grown_def list_all_iff)

lemma grown_subset: "grown P xs ys \<Longrightarrow> set xs \<subseteq> set ys"
  by (auto simp: grown_def)

lemma grown_filter: "grown P xs ys \<Longrightarrow> (\<And>r. P r \<Longrightarrow> \<not> Q r) \<Longrightarrow> filter Q ys = filter Q xs"
  by (auto simp: grown_def list_all_iff filter_empty_conv)

lemma grown_find:
  assumes "grown P xs ys" "\<And>r. P r \<Longrightarrow> \<not> Q r"
  shows "find Q ys = find Q xs"
proof -
  obtain zs where zs: "ys = xs @ zs" "\<forall>z\<in>set zs. P z"
    using assms(1) by (auto simp: grown_def list_all_iff)
  then have "find Q zs = None" using assms(2) by (simp add: find_None_iff)
  then show ?thesis by (simp add: zs find_append split: option.split)
qed

definition event_ids :: "ledger \<Rightarrow> string set" where
  "event_ids L = e_event_id ` set (lg_events L)"

definition extends :: "ledger \<Rightarrow> ledger \<Rightarrow> bool" where
  "extends L L' \<longleftrightarrow>
     lg_seq L \<le> lg_seq L' \<and>
     grown (\<lambda>_. True) (lg_accounts L) (lg_accounts L') \<and>
     grown (\<lambda>e. lg_seq L < e_seq e) (lg_events L) (lg_events L') \<and>
     grown (\<lambda>_. True) (lg_evidence L) (lg_evidence L') \<and>
     grown (\<lambda>_. True) (lg_artifacts L) (lg_artifacts L') \<and>
     grown (\<lambda>r. d_event_id r \<notin> event_ids L) (lg_decisions L) (lg_decisions L') \<and>
     grown (\<lambda>r. h_decision r \<notin> event_ids L) (lg_context L) (lg_context L') \<and>
     grown (\<lambda>r. u_decision r \<notin> event_ids L) (lg_consumed L) (lg_consumed L') \<and>
     grown (\<lambda>r. p_event_id r \<notin> event_ids L) (lg_personas L) (lg_personas L') \<and>
     grown (\<lambda>r. x_event_id r \<notin> event_ids L) (lg_actions L) (lg_actions L') \<and>
     grown (\<lambda>r. o_event_id r \<notin> event_ids L) (lg_outcomes L) (lg_outcomes L') \<and>
     grown (\<lambda>r. t_event_id r \<notin> event_ids L) (lg_attributions L) (lg_attributions L')"

lemma extends_refl [simp]: "extends L L"
  by (simp add: extends_def)

lemma extends_event_ids: "extends L L' \<Longrightarrow> event_ids L \<subseteq> event_ids L'"
  unfolding extends_def event_ids_def by (blast dest: grown_subset)

lemma extends_trans:
  assumes "extends L L'" "extends L' L''"
  shows "extends L L''"
proof -
  have i: "event_ids L \<subseteq> event_ids L'" by (rule extends_event_ids [OF assms(1)])
  have s: "lg_seq L \<le> lg_seq L'" using assms(1) by (simp add: extends_def)
  have n: "k \<notin> event_ids L' \<Longrightarrow> k \<notin> event_ids L" for k using i by blast
  show ?thesis
    using assms unfolding extends_def
    by (elim conjE, intro conjI) (use s in linarith | erule (1) grown_trans; use s n in force)+
qed

lemma extends_insert_account: "extends L0 L \<Longrightarrow> insert_account r L = Inr L' \<Longrightarrow> extends L0 L'"
  by (auto simp: insert_account_def extends_def intro: grown_snoc)

lemma extends_insert_event: "extends L0 L \<Longrightarrow> insert_event r L = Inr L' \<Longrightarrow> extends L0 L'"
  by (auto simp: insert_event_def extends_def intro!: grown_snoc)

lemma extends_insert_evidence: "extends L0 L \<Longrightarrow> insert_evidence r L = Inr L' \<Longrightarrow> extends L0 L'"
  by (auto simp: insert_evidence_def extends_def intro: grown_snoc)

lemma extends_insert_artifact: "extends L0 L \<Longrightarrow> insert_artifact r L = Inr L' \<Longrightarrow> extends L0 L'"
  by (auto simp: insert_artifact_def extends_def intro: grown_snoc)

lemma extends_insert_decision:
  "extends L0 L \<Longrightarrow> insert_decision r L = Inr L' \<Longrightarrow> d_event_id r \<notin> event_ids L0 \<Longrightarrow> extends L0 L'"
  by (auto simp: insert_decision_def extends_def intro: grown_snoc)

lemma extends_insert_context:
  "extends L0 L \<Longrightarrow> insert_context r L = Inr L' \<Longrightarrow> h_decision r \<notin> event_ids L0 \<Longrightarrow> extends L0 L'"
  by (auto simp: insert_context_def extends_def intro: grown_snoc)

lemma extends_insert_consumed:
  "extends L0 L \<Longrightarrow> insert_consumed r L = Inr L' \<Longrightarrow> u_decision r \<notin> event_ids L0 \<Longrightarrow> extends L0 L'"
  by (auto simp: insert_consumed_def extends_def intro: grown_snoc)

lemma extends_insert_persona:
  "extends L0 L \<Longrightarrow> insert_persona r L = Inr L' \<Longrightarrow> p_event_id r \<notin> event_ids L0 \<Longrightarrow> extends L0 L'"
  by (auto simp: insert_persona_def extends_def intro: grown_snoc)

lemma extends_insert_action:
  "extends L0 L \<Longrightarrow> insert_action r L = Inr L' \<Longrightarrow> x_event_id r \<notin> event_ids L0 \<Longrightarrow> extends L0 L'"
  by (auto simp: insert_action_def extends_def intro: grown_snoc)

lemma extends_insert_outcome:
  "extends L0 L \<Longrightarrow> insert_outcome r L = Inr L' \<Longrightarrow> o_event_id r \<notin> event_ids L0 \<Longrightarrow> extends L0 L'"
  by (auto simp: insert_outcome_def extends_def intro: grown_snoc)

lemma extends_insert_attribution:
  "extends L0 L \<Longrightarrow> insert_attribution r L = Inr L' \<Longrightarrow> t_event_id r \<notin> event_ids L0 \<Longrightarrow> extends L0 L'"
  by (auto simp: insert_attribution_def extends_def intro: grown_snoc)

text \<open>An invariant of single statements is one of \<open>executemany\<close>.\<close>

lemma insert_many_invariant:
  assumes "insert_many ins rs L = Inr L'" "P L"
    "\<And>r M M'. r \<in> set rs \<Longrightarrow> ins r M = Inr M' \<Longrightarrow> P M \<Longrightarrow> P M'"
  shows "P L'"
  using assms by (induction rs arbitrary: L) fastforce+

lemma commit_Inr: "commit L = Inr L' \<longleftrightarrow> L' = L \<and> (\<forall>a\<in>set (lg_accounts L). a_first_seen a \<in> event_ids L)"
  by (auto simp: commit_def list_ex_iff event_ids_def)

end
