(* ===== verification/Policy.thy ===== *)
theory Policy
  imports Ledger "HOL-Library.Product_Lexorder"
begin

text \<open>
  \<open>attribution/policy.py\<close>: \<open>outcome-attribution-v1\<close> as reads of the ledger at a snapshot
  cutoff, the resolution rules, and the two selection operations.  A SQL join with \<open>events\<close> is
  a list comprehension in row order; every query whose first row is taken selects by a key.
  Main results: a result never depends on rows appended after its cutoff
  (\<open>attribute_extends\<close>), the heuristic choice is the latest eligible action whatever the
  order of the candidates, and the supersession walk terminates.
\<close>

subsection \<open>Vocabulary\<close>

definition POLICY_VERSION :: string where
  "POLICY_VERSION = ''outcome-attribution-v1''"

definition LOOKBACK_DAYS :: int where
  "LOOKBACK_DAYS = 90"

definition LOOKBACK :: int where
  "LOOKBACK = hours_delta (LOOKBACK_DAYS * 24)"

definition ELIGIBLE_ACTION_STATUSES :: "string list" where
  "ELIGIBLE_ACTION_STATUSES = [''sent'', ''completed'']"

definition ATTRIBUTABLE_DECISION_CLASS :: string where
  "ATTRIBUTABLE_DECISION_CLASS = ''account_prioritization''"

text \<open>The named failures; \<open>StoredTimestamp\<close> is the exception of an unreadable stored text.\<close>

datatype attribution_error =
    UnsupportedPolicyVersion string
  | CutoffAboveMaximum int "int option"
  | CutoffNotFound int
  | OutcomeNotFound string
  | CutoffExcludesOutcome string int int
  | AmbiguousSelection string "string list"
  | StoredTimestamp string

fun reason_of :: "attribution_error \<Rightarrow> string option" where
  "reason_of (UnsupportedPolicyVersion _) = Some ''unsupported_policy_version''"
| "reason_of (CutoffAboveMaximum _ _) = Some ''ingest_cutoff_above_ledger_maximum''"
| "reason_of (CutoffNotFound _) = Some ''ingest_cutoff_not_found''"
| "reason_of (OutcomeNotFound _) = Some ''unknown_outcome_event_id''"
| "reason_of (CutoffExcludesOutcome _ _ _) = Some ''ingest_cutoff_excludes_the_outcome''"
| "reason_of (AmbiguousSelection _ _) = Some ''ambiguous_effective_selection''"
| "reason_of (StoredTimestamp _) = None"

record attribution_result =
  rr_outcome :: string
  rr_policy_version :: string
  rr_method :: string
  rr_window_days :: int
  rr_resolved_action :: "string option"
  rr_resolved_decision :: "string option"
  rr_status :: string
  rr_reason :: string
  rr_cutoff :: int

text \<open>\<open>policy_result\<close>: the fields that make two results the same; the cutoff is not one.\<close>

definition policy_result :: "attribution_result \<Rightarrow>
    string \<times> string \<times> string \<times> int \<times> string option \<times> string option \<times> string \<times> string" where
  "policy_result r = (rr_outcome r, rr_policy_version r, rr_method r, rr_window_days r,
     rr_resolved_action r, rr_resolved_decision r, rr_status r, rr_reason r)"

definition stored_policy_result :: "attribution_row \<Rightarrow>
    string \<times> string \<times> string \<times> int \<times> string option \<times> string option \<times> string \<times> string" where
  "stored_policy_result r = (t_outcome r, t_policy_version r, t_method r, t_window_days r,
     t_resolved_action r, t_resolved_decision r, t_status r, t_reason r)"

definition attribution_event_id :: "string \<Rightarrow> string \<Rightarrow> int \<Rightarrow> string" where
  "attribution_event_id outcome version cutoff =
     ''evt-attribution-'' @ canonical_hash (JObj
       [(''outcome_event_id'', JStr outcome), (''policy_version'', JStr version),
        (''ingest_cutoff'', JInt cutoff)])"

record outcome_claims =
  oc_outcome :: string
  oc_account_ref :: string
  oc_schema_version :: string
  oc_observed :: string
  oc_action :: "string option"
  oc_decision :: "string option"
  oc_seq :: int

record action_candidate =
  ca_event_id :: string
  ca_account_ref :: string
  ca_decision :: string
  ca_status :: string
  ca_occurred_at :: string
  ca_seq :: int
  ca_decision_class :: "string option"
  ca_decision_account :: "string option"

record decision_claim =
  dc_event_id :: string
  dc_account_ref :: string
  dc_class :: string
  dc_boundary :: string

subsection \<open>Snapshot reads\<close>

definition instantE :: "string \<Rightarrow> attribution_error + utc" where
  "instantE s = opt_to_sum (StoredTimestamp s) (instant s)"

definition seq_of :: "ledger \<Rightarrow> string \<Rightarrow> int option" where
  "seq_of L k = map_option e_seq (find (\<lambda>e. e_event_id e = k) (lg_events L))"

text \<open>A row joined to the event that produced it.\<close>

definition joined :: "('r \<Rightarrow> string) \<Rightarrow> 'r list \<Rightarrow> ledger \<Rightarrow> ('r \<times> int) list" where
  "joined key rows L = List.map_filter (\<lambda>r. map_option (Pair r) (seq_of L (key r))) rows"

definition ledger_maximum :: "ledger \<Rightarrow> int option" where
  "ledger_maximum L = (case map e_seq (lg_events L) of [] \<Rightarrow> None | s # ss \<Rightarrow> Some (fold max ss s))"

definition validate_cutoff :: "ledger \<Rightarrow> int \<Rightarrow> attribution_error + int" where
  "validate_cutoff L cutoff =
     (case ledger_maximum L of
        None \<Rightarrow> Inl (CutoffAboveMaximum cutoff None)
      | Some m \<Rightarrow>
          if m < cutoff then Inl (CutoffAboveMaximum cutoff (Some m))
          else if cutoff \<notin> set (map e_seq (lg_events L)) then Inl (CutoffNotFound cutoff)
          else Inr cutoff)"

text \<open>A v2 row always carries \<open>observed_at\<close>; NULL there would be the \<open>TypeError\<close> of its first use.\<close>

definition claims_of :: "outcome_row \<Rightarrow> int \<Rightarrow> attribution_error + outcome_claims" where
  "claims_of r s =
     (if o_schema_version r = ''1''
      then Inr \<lparr>oc_outcome = o_event_id r, oc_account_ref = o_account_ref r,
        oc_schema_version = o_schema_version r, oc_observed = o_occurred_at r,
        oc_action = o_action r, oc_decision = None, oc_seq = s\<rparr>
      else (case o_observed_at r of
          None \<Rightarrow> Inl (StoredTimestamp [])
        | Some t \<Rightarrow> Inr \<lparr>oc_outcome = o_event_id r, oc_account_ref = o_account_ref r,
            oc_schema_version = o_schema_version r, oc_observed = t,
            oc_action = o_source_action r, oc_decision = o_source_decision r, oc_seq = s\<rparr>))"

definition load_outcome :: "ledger \<Rightarrow> string \<Rightarrow> int \<Rightarrow> attribution_error + outcome_claims" where
  "load_outcome L k cutoff =
     (case find (\<lambda>(r, s). o_event_id r = k) (joined o_event_id (lg_outcomes L) L) of
        None \<Rightarrow> Inl (OutcomeNotFound k)
      | Some (r, s) \<Rightarrow> if cutoff < s then Inl (CutoffExcludesOutcome k cutoff s) else claims_of r s)"

text \<open>\<open>_action_query\<close>: the outer joins give the decision only when its event is in the snapshot.\<close>

definition snapshot_decision :: "ledger \<Rightarrow> int \<Rightarrow> string \<Rightarrow> decision_row option" where
  "snapshot_decision L cutoff k =
     (case seq_of L k of
        None \<Rightarrow> None
      | Some s \<Rightarrow> if s \<le> cutoff then find (\<lambda>d. d_event_id d = k) (lg_decisions L) else None)"

definition candidate :: "ledger \<Rightarrow> int \<Rightarrow> action_row \<times> int \<Rightarrow> action_candidate" where
  "candidate L cutoff rs =
     (case rs of (r, s) \<Rightarrow>
        (let d = snapshot_decision L cutoff (x_decision r) in
         \<lparr>ca_event_id = x_event_id r, ca_account_ref = x_account_ref r, ca_decision = x_decision r,
          ca_status = x_status r, ca_occurred_at = x_occurred_at r, ca_seq = s,
          ca_decision_class = map_option d_class d, ca_decision_account = map_option d_account_ref d\<rparr>))"

definition action_query :: "ledger \<Rightarrow> int \<Rightarrow> action_candidate list" where
  "action_query L cutoff =
     map (candidate L cutoff) (filter (\<lambda>(r, s). s \<le> cutoff) (joined x_event_id (lg_actions L) L))"

definition load_action :: "ledger \<Rightarrow> string \<Rightarrow> int \<Rightarrow> action_candidate option" where
  "load_action L k cutoff = find (\<lambda>c. ca_event_id c = k) (action_query L cutoff)"

definition load_account_actions :: "ledger \<Rightarrow> string \<Rightarrow> int \<Rightarrow> action_candidate list" where
  "load_account_actions L acct cutoff = filter (\<lambda>c. ca_account_ref c = acct) (action_query L cutoff)"

definition load_decision :: "ledger \<Rightarrow> string \<Rightarrow> int \<Rightarrow> decision_claim option" where
  "load_decision L k cutoff =
     map_option (\<lambda>(d, s). \<lparr>dc_event_id = d_event_id d, dc_account_ref = d_account_ref d,
         dc_class = d_class d, dc_boundary = d_boundary d\<rparr>)
       (find (\<lambda>(d, s). d_event_id d = k \<and> s \<le> cutoff) (joined d_event_id (lg_decisions L) L))"

subsection \<open>The rules\<close>

definition action_problem :: "action_candidate option \<Rightarrow> string \<Rightarrow> string \<Rightarrow> attribution_error + string option" where
  "action_problem action acct observed =
     (case action of
        None \<Rightarrow> Inr (Some ''source_action_not_recorded_by_cutoff'')
      | Some c \<Rightarrow>
          if ca_account_ref c \<noteq> acct then Inr (Some ''source_action_other_account'')
          else if ca_status c \<notin> set ELIGIBLE_ACTION_STATUSES then Inr (Some ''source_action_failed'')
          else if ca_decision_class c \<noteq> Some ATTRIBUTABLE_DECISION_CLASS \<or> ca_decision_account c \<noteq> Some acct
          then Inr (Some ''source_action_not_linked_to_prioritization_decision'')
          else bindE (instantE observed) (\<lambda>obs.
            bindE (instantE (ca_occurred_at c)) (\<lambda>occ.
              if \<not> occ < obs then Inr (Some ''source_action_not_before_observation'')
              else if LOOKBACK < utc_micros obs - utc_micros occ
              then Inr (Some ''source_action_outside_lookback'')
              else Inr None)))"

definition decision_problem :: "decision_claim option \<Rightarrow> string \<Rightarrow> string \<Rightarrow> attribution_error + string option" where
  "decision_problem decision acct observed =
     (case decision of
        None \<Rightarrow> Inr (Some ''source_decision_not_recorded_by_cutoff'')
      | Some d \<Rightarrow>
          if dc_account_ref d \<noteq> acct then Inr (Some ''source_decision_other_account'')
          else if dc_class d \<noteq> ATTRIBUTABLE_DECISION_CLASS
          then Inr (Some ''source_decision_not_account_prioritization'')
          else bindE (instantE (dc_boundary d)) (\<lambda>bd.
            bindE (instantE observed) (\<lambda>obs.
              if \<not> bd < obs then Inr (Some ''source_decision_not_before_observation'') else Inr None)))"

text \<open>Python's \<open>max(..., key=..., default=None)\<close>: the first maximal element.\<close>

fun max_by :: "('a \<Rightarrow> 'k::linorder) \<Rightarrow> 'a list \<Rightarrow> 'a option" where
  "max_by k [] = None"
| "max_by k (x # xs) = Some (fold (\<lambda>y best. if k best < k y then y else best) xs x)"

definition most_recent_eligible :: "action_candidate list \<Rightarrow> attribution_error + action_candidate option" where
  "most_recent_eligible cs =
     bindE (mapE (\<lambda>c. bindE (instantE (ca_occurred_at c)) (\<lambda>t. Inr ((t, ca_seq c), c))) cs) (\<lambda>keyed.
       Inr (map_option snd (max_by fst keyed)))"

primrec filterE :: "('a \<Rightarrow> 'e + bool) \<Rightarrow> 'a list \<Rightarrow> 'e + 'a list" where
  "filterE p [] = Inr []"
| "filterE p (x # xs) =
     bindE (p x) (\<lambda>b. bindE (filterE p xs) (\<lambda>ys. Inr (if b then x # ys else ys)))"

text \<open>One claim's contribution to \<open>problems\<close>.\<close>

definition claim_problems :: "'c option \<Rightarrow> attribution_error + string option \<Rightarrow> attribution_error + string list" where
  "claim_problems claim problem =
     (case claim of
        None \<Rightarrow> Inr []
      | Some _ \<Rightarrow> bindE problem (\<lambda>p. Inr (case p of None \<Rightarrow> [] | Some s \<Rightarrow> [s])))"

fun join_claims :: "string list \<Rightarrow> string" where
  "join_claims [] = []"
| "join_claims [x] = x"
| "join_claims (x # y # xs) = x @ ''+'' @ join_claims (y # xs)"

definition make_result :: "string \<Rightarrow> string \<Rightarrow> int \<Rightarrow> string \<Rightarrow> string \<Rightarrow> string \<Rightarrow> string option \<Rightarrow> string option
    \<Rightarrow> attribution_result" where
  "make_result k version cutoff meth st why a d =
     \<lparr>rr_outcome = k, rr_policy_version = version, rr_method = meth, rr_window_days = LOOKBACK_DAYS,
      rr_resolved_action = a, rr_resolved_decision = d, rr_status = st, rr_reason = why, rr_cutoff = cutoff\<rparr>"

text \<open>Step 1: the direct result of valid source references, or the problems that stand in its way.\<close>

definition direct_result :: "(string \<Rightarrow> string \<Rightarrow> string \<Rightarrow> string option \<Rightarrow> string option \<Rightarrow> attribution_result)
    \<Rightarrow> action_candidate option \<Rightarrow> decision_claim option \<Rightarrow> string list + attribution_result" where
  "direct_result res action decision =
     (case (action, decision) of
        (Some a, Some d) \<Rightarrow>
          if ca_decision a = dc_event_id d
          then Inr (res ''explicit_source_reference'' ''direct'' ''valid_source_action_and_decision_references''
                 (Some (ca_event_id a)) (Some (dc_event_id d)))
          else Inl [''source_references_disagree'']
      | (Some a, None) \<Rightarrow> Inr (res ''explicit_source_reference'' ''direct'' ''valid_source_action_reference''
             (Some (ca_event_id a)) (Some (ca_decision a)))
      | (None, Some d) \<Rightarrow> Inr (res ''explicit_source_reference'' ''direct'' ''valid_source_decision_reference''
             None (Some (dc_event_id d)))
      | (None, None) \<Rightarrow> Inl [])"

text \<open>Steps 2 and 3: the most recent eligible action, or nothing.\<close>

definition fallback_result :: "(string \<Rightarrow> string \<Rightarrow> string \<Rightarrow> string option \<Rightarrow> string option \<Rightarrow> attribution_result)
    \<Rightarrow> action_candidate list \<Rightarrow> string \<Rightarrow> string \<Rightarrow> string list \<Rightarrow> attribution_error + attribution_result" where
  "fallback_result res actions acct observed problems =
     (let claims = (if problems \<noteq> [] then join_claims problems else ''no_source_reference'') in
      bindE (filterE (\<lambda>c. bindE (action_problem (Some c) acct observed) (\<lambda>p. Inr (p = None))) actions)
        (\<lambda>eligible. bindE (most_recent_eligible eligible) (\<lambda>chosen.
          (case chosen of
             Some c \<Rightarrow> Inr (res ''heuristic_most_recent_eligible_action'' ''inferred''
               (claims @ '';'' @ ''most_recent_eligible_action'') (Some (ca_event_id c)) (Some (ca_decision c)))
           | None \<Rightarrow> Inr (res ''no_resolution'' ''unresolved'' (claims @ '';'' @ ''no_eligible_action'') None None)))))"

definition attribute_claims :: "ledger \<Rightarrow> string \<Rightarrow> int \<Rightarrow> string \<Rightarrow> outcome_claims \<Rightarrow> attribution_error + attribution_result" where
  "attribute_claims L k cutoff version oc =
     (let acct = oc_account_ref oc; obs = oc_observed oc; res = make_result k version cutoff;
          action = Option.bind (oc_action oc) (\<lambda>a. load_action L a cutoff);
          decision = Option.bind (oc_decision oc) (\<lambda>d. load_decision L d cutoff);
          others = load_account_actions L acct cutoff
      in bindE (claim_problems (oc_action oc) (action_problem action acct obs)) (\<lambda>p1.
         bindE (claim_problems (oc_decision oc) (decision_problem decision acct obs)) (\<lambda>p2.
           if (oc_action oc \<noteq> None \<or> oc_decision oc \<noteq> None) \<and> p1 @ p2 = []
           then (case direct_result res action decision of
                   Inr r \<Rightarrow> Inr r
                 | Inl ps \<Rightarrow> fallback_result res others acct obs ps)
           else fallback_result res others acct obs (p1 @ p2))))"

definition attribute :: "ledger \<Rightarrow> string \<Rightarrow> int \<Rightarrow> string \<Rightarrow> attribution_error + attribution_result" where
  "attribute L k cutoff version =
     (if version \<noteq> POLICY_VERSION then Inl (UnsupportedPolicyVersion version)
      else bindE (validate_cutoff L cutoff) (\<lambda>_.
        bindE (load_outcome L k cutoff) (attribute_claims L k cutoff version)))"

definition source_claim_problems :: "ledger \<Rightarrow> string \<Rightarrow> string \<Rightarrow> string option \<Rightarrow> string option \<Rightarrow> int
    \<Rightarrow> attribution_error + (string option \<times> string option)" where
  "source_claim_problems L acct observed action decision cutoff =
     bindE (case action of None \<Rightarrow> Inr None | Some a \<Rightarrow> action_problem (load_action L a cutoff) acct observed) (\<lambda>p1.
     bindE (case decision of None \<Rightarrow> Inr None | Some d \<Rightarrow> decision_problem (load_decision L d cutoff) acct observed)
       (\<lambda>p2. Inr (p1, p2)))"

subsection \<open>Selection\<close>

definition successors :: "ledger \<Rightarrow> int \<Rightarrow> string \<Rightarrow> string list" where
  "successors L cutoff cur =
     map (\<lambda>(r, s). o_event_id r)
       (filter (\<lambda>(r, s). o_supersedes r = Some cur \<and> s \<le> cutoff) (joined o_event_id (lg_outcomes L) L))"

definition outcome_ids :: "ledger \<Rightarrow> string set" where
  "outcome_ids L = o_event_id ` set (lg_outcomes L)"

lemma set_joined: "set (joined key rows L) = {(r, s). r \<in> set rows \<and> seq_of L (key r) = Some s}"
  by (force simp: joined_def List.map_filter_def)

lemma successors_iff:
  "k \<in> set (successors L cutoff cur) \<longleftrightarrow>
     (\<exists>r\<in>set (lg_outcomes L). \<exists>s. o_event_id r = k \<and> seq_of L k = Some s \<and> s \<le> cutoff \<and> o_supersedes r = Some cur)"
  by (force simp: successors_def set_joined)

lemma successors_ids: "set (successors L cutoff cur) \<subseteq> outcome_ids L"
  by (auto simp: successors_iff outcome_ids_def)

text \<open>The \<open>while True\<close> of \<open>effective_outcome_version\<close>; it ends because \<open>seen\<close> grows inside
  the recorded outcomes.\<close>

function follow :: "ledger \<Rightarrow> int \<Rightarrow> string \<Rightarrow> string list \<Rightarrow> attribution_error + string" where
  "follow L cutoff cur seen =
     (case successors L cutoff cur of
        [] \<Rightarrow> Inr cur
      | [nxt] \<Rightarrow>
          if nxt \<in> set seen then Inl (AmbiguousSelection ''outcome supersession cycle'' (sort seen))
          else follow L cutoff nxt (nxt # seen)
      | many \<Rightarrow> Inl (AmbiguousSelection (''outcome version superseding '' @ cur) (sort many)))"
  by pat_completeness auto

termination
proof (relation "measure (\<lambda>(L, cutoff, cur, seen). card (outcome_ids L - set seen))", simp)
  fix L cutoff cur seen nxt and rest :: "string list"
  assume s: "successors L cutoff cur = nxt # rest" "nxt \<notin> set seen"
  have "nxt \<in> outcome_ids L" using successors_ids [of L cutoff cur] s(1) by auto
  then have "outcome_ids L - set (nxt # seen) \<subset> outcome_ids L - set seen" using s(2) by auto
  then show "((L, cutoff, nxt, nxt # seen), L, cutoff, cur, seen)
      \<in> measure (\<lambda>(L, cutoff, cur, seen). card (outcome_ids L - set seen))"
    by (simp add: psubset_card_mono outcome_ids_def)
qed

declare follow.simps [simp del]

definition effective_outcome_version :: "ledger \<Rightarrow> string \<Rightarrow> int \<Rightarrow> attribution_error + string" where
  "effective_outcome_version L k cutoff =
     bindE (load_outcome L k cutoff) (\<lambda>_. follow L cutoff k [k])"

text \<open>The rows come in ingest order; \<open>setdefault\<close> keeps the first occurrence.\<close>

definition effective_outcome_versions :: "ledger \<Rightarrow> int \<Rightarrow> string option \<Rightarrow> attribution_error + string list" where
  "effective_outcome_versions L cutoff acct =
     bindE (mapE (\<lambda>(r, s). effective_outcome_version L (o_event_id r) cutoff)
       (sort_key snd (filter (\<lambda>(r, s). s \<le> cutoff \<and> (acct = None \<or> acct = Some (o_account_ref r)))
         (joined o_event_id (lg_outcomes L) L))))
       (\<lambda>ids. Inr (rev (remdups (rev ids))))"

definition effective_attribution :: "ledger \<Rightarrow> string \<Rightarrow> string \<Rightarrow> int \<Rightarrow> attribution_error + attribution_row option" where
  "effective_attribution L k version cutoff =
     (let rows = map fst (filter (\<lambda>(r, s). t_outcome r = k \<and> t_policy_version r = version \<and> s \<le> cutoff)
            (joined t_event_id (lg_attributions L) L));
          superseded = List.map_filter t_supersedes rows;
          tips = filter (\<lambda>r. t_event_id r \<notin> set superseded) rows
      in (case tips of
            [] \<Rightarrow> Inr None
          | [r] \<Rightarrow> Inr (Some r)
          | _ \<Rightarrow> Inl (AmbiguousSelection (''attribution of outcome '' @ k) (sort (map t_event_id tips)))))"

subsection \<open>A snapshot is not changed by later appends\<close>

lemma seq_of_None: "seq_of L k = None \<longleftrightarrow> k \<notin> event_ids L"
  by (auto simp: seq_of_def event_ids_def find_None_iff)

lemma seq_of_bound:
  assumes "ledger_keys L" "seq_of L k = Some s"
  shows "1 \<le> s \<and> s \<le> lg_seq L"
proof -
  obtain e where "find (\<lambda>e. e_event_id e = k) (lg_events L) = Some e" "e_seq e = s"
    using assms(2) by (auto simp: seq_of_def)
  then have "e \<in> set (lg_events L)" "e_seq e = s" by (auto dest: find_Some_in)
  then show ?thesis using assms(1) by (auto simp: ledger_keys_def)
qed

lemma seq_of_kept:
  assumes "extends L L'" "k \<in> event_ids L"
  shows "seq_of L' k = seq_of L k"
proof -
  obtain es where e: "lg_events L' = lg_events L @ es"
    using assms(1) by (auto simp: extends_def grown_def)
  have "seq_of L k \<noteq> None" using assms(2) by (simp add: seq_of_None)
  then show ?thesis by (auto simp: seq_of_def e find_append split: option.splits)
qed

lemma seq_of_new:
  assumes "extends L L'" "k \<notin> event_ids L" "seq_of L' k = Some s"
  shows "lg_seq L < s"
proof -
  obtain e where e: "find (\<lambda>e. e_event_id e = k) (lg_events L') = Some e" "e_seq e = s"
    using assms(3) by (auto simp: seq_of_def)
  have "e \<in> set (lg_events L')" "e_event_id e = k" using find_Some_in [OF e(1)] by auto
  moreover have "e \<notin> set (lg_events L)" using \<open>e_event_id e = k\<close> assms(2) by (auto simp: event_ids_def)
  ultimately show ?thesis using assms(1) e(2) by (auto simp: extends_def grown_def list_all_iff)
qed

lemma joined_Nil [simp]: "joined key [] L = []"
  by (simp add: joined_def List.map_filter_def)

lemma joined_Cons [simp]:
  "joined key (r # rows) L =
     (case seq_of L (key r) of None \<Rightarrow> joined key rows L | Some s \<Rightarrow> (r, s) # joined key rows L)"
  by (auto simp: joined_def List.map_filter_def split: option.split)

lemma joined_append [simp]: "joined key (xs @ ys) L = joined key xs L @ joined key ys L"
  by (induction xs) (auto split: option.split)

lemma joined_kept:
  "extends L L' \<Longrightarrow> \<forall>r\<in>set rows. key r \<in> event_ids L \<Longrightarrow> joined key rows L' = joined key rows L"
  by (induction rows) (auto simp: seq_of_kept split: option.split)

text \<open>The rows a snapshot query sees.\<close>

lemma snapshot_joined:
  assumes "extends L L'" "grown (\<lambda>r. key r \<notin> event_ids L) rows rows'"
    "\<forall>r\<in>set rows. key r \<in> event_ids L" "cutoff \<le> lg_seq L"
  shows "filter (\<lambda>(r, s). P r \<and> s \<le> cutoff) (joined key rows' L')
    = filter (\<lambda>(r, s). P r \<and> s \<le> cutoff) (joined key rows L)"
proof -
  obtain zs where z: "rows' = rows @ zs" "\<forall>r\<in>set zs. key r \<notin> event_ids L"
    using assms(2) by (auto simp: grown_def list_all_iff)
  have old: "\<not> s \<le> cutoff" if "(r, s) \<in> set (joined key zs L')" for r s
    using that z(2) seq_of_new [OF assms(1), of "key r" s] assms(4) by (auto simp: set_joined)
  then have "filter (\<lambda>(r, s). P r \<and> s \<le> cutoff) (joined key zs L') = []"
    by (auto simp: filter_empty_conv dest: old)
  then show ?thesis by (simp add: z(1) joined_kept [OF assms(1,3)])
qed

lemma find_joined_kept:
  assumes "extends L L'" "grown (\<lambda>r. key r \<notin> event_ids L) rows rows'"
    "\<forall>r\<in>set rows. key r \<in> event_ids L" "find P (joined key rows L) = Some x"
  shows "find P (joined key rows' L') = Some x"
proof -
  obtain zs where "rows' = rows @ zs" using assms(2) by (auto simp: grown_def)
  then show ?thesis using assms(4) by (simp add: joined_kept [OF assms(1,3)] find_append)
qed

lemma find_as_filter: "find P xs = find (\<lambda>_. True) (filter P xs)"
  by (induction xs) auto

lemma refs_keys:
  assumes "ledger_refs L"
  shows "\<forall>r\<in>set (lg_decisions L). d_event_id r \<in> event_ids L"
    "\<forall>r\<in>set (lg_actions L). x_event_id r \<in> event_ids L \<and> x_decision r \<in> event_ids L"
    "\<forall>r\<in>set (lg_outcomes L). o_event_id r \<in> event_ids L"
    "\<forall>r\<in>set (lg_attributions L). t_event_id r \<in> event_ids L"
  using assms by (auto simp: ledger_refs_def Let_def event_ids_def)

lemma snapshot_decision_kept:
  assumes "extends L L'" "k \<in> event_ids L"
  shows "snapshot_decision L' cutoff k = snapshot_decision L cutoff k"
proof -
  have "grown (\<lambda>r. d_event_id r \<notin> event_ids L) (lg_decisions L) (lg_decisions L')"
    using assms(1) by (simp add: extends_def)
  then have "find (\<lambda>d. d_event_id d = k) (lg_decisions L') = find (\<lambda>d. d_event_id d = k) (lg_decisions L)"
    by (rule grown_find) (use assms(2) in auto)
  then show ?thesis by (simp add: snapshot_decision_def seq_of_kept [OF assms] split: option.split)
qed

lemma action_query_kept:
  assumes "extends L L'" "ledger_refs L" "cutoff \<le> lg_seq L"
  shows "action_query L' cutoff = action_query L cutoff"
proof -
  have g: "grown (\<lambda>r. x_event_id r \<notin> event_ids L) (lg_actions L) (lg_actions L')"
    using assms(1) by (simp add: extends_def)
  have f: "filter (\<lambda>(r, s). s \<le> cutoff) (joined x_event_id (lg_actions L') L')
      = filter (\<lambda>(r, s). s \<le> cutoff) (joined x_event_id (lg_actions L) L)"
    using snapshot_joined [OF assms(1) g _ assms(3), of "\<lambda>_. True"] refs_keys(2) [OF assms(2)] by simp
  show ?thesis
    unfolding action_query_def f
    by (rule map_cong) (use refs_keys(2) [OF assms(2)] snapshot_decision_kept [OF assms(1)] in
        \<open>auto simp: candidate_def set_joined\<close>)
qed

lemma load_decision_kept:
  assumes "extends L L'" "ledger_refs L" "cutoff \<le> lg_seq L"
  shows "load_decision L' k cutoff = load_decision L k cutoff"
proof -
  have g: "grown (\<lambda>r. d_event_id r \<notin> event_ids L) (lg_decisions L) (lg_decisions L')"
    using assms(1) by (simp add: extends_def)
  show ?thesis
    unfolding load_decision_def
    by (subst (1 2) find_as_filter) (simp add: snapshot_joined [OF assms(1) g refs_keys(1) [OF assms(2)] assms(3)])
qed

lemma ledger_maximum_ge:
  assumes "ledger_maximum L = Some m" "s \<in> set (map e_seq (lg_events L))"
  shows "s \<le> m"
proof -
  obtain x xs where x: "map e_seq (lg_events L) = x # xs" "m = fold max xs x"
    using assms(1) by (auto simp: ledger_maximum_def split: list.splits)
  have "s \<le> Max (set (x # xs))" using assms(2) x(1) by (intro Max_ge) simp_all
  then show ?thesis using x(2) by (simp only: Max.set_eq_fold)
qed

lemma validate_cutoff_Inr: "validate_cutoff L c = Inr c' \<longleftrightarrow> c \<in> e_seq ` set (lg_events L) \<and> c' = c"
proof (cases "ledger_maximum L")
  case None
  then have "lg_events L = []" by (auto simp: ledger_maximum_def split: list.splits)
  then show ?thesis using None by (simp add: validate_cutoff_def)
next
  case (Some m)
  then have "c \<in> e_seq ` set (lg_events L) \<Longrightarrow> c \<le> m" using ledger_maximum_ge [OF Some, of c] by simp
  then show ?thesis using Some by (auto simp: validate_cutoff_def)
qed

lemma attribute_kept:
  assumes "extends L L'" "ledger_keys L" "ledger_refs L" "attribute L k cutoff version = Inr r"
  shows "attribute L' k cutoff version = Inr r"
proof -
  have v: "version = POLICY_VERSION" using assms(4) by (auto simp: attribute_def split: if_splits)
  then obtain oc where c: "cutoff \<in> e_seq ` set (lg_events L)" and o: "load_outcome L k cutoff = Inr oc"
    and a: "attribute_claims L k cutoff version oc = Inr r"
    using assms(4) by (auto simp: attribute_def validate_cutoff_Inr)
  have le: "cutoff \<le> lg_seq L" using c assms(2) by (auto simp: ledger_keys_def)
  have "set (lg_events L) \<subseteq> set (lg_events L')"
    using assms(1) by (auto simp: extends_def dest: grown_subset)
  then have c': "cutoff \<in> e_seq ` set (lg_events L')" using c by blast
  have g: "grown (\<lambda>r. o_event_id r \<notin> event_ids L) (lg_outcomes L) (lg_outcomes L')"
    using assms(1) by (simp add: extends_def)
  obtain x where x: "find (\<lambda>(r, s). o_event_id r = k) (joined o_event_id (lg_outcomes L) L) = Some x"
    using o by (auto simp: load_outcome_def split: option.splits)
  have o': "load_outcome L' k cutoff = Inr oc"
    using o x find_joined_kept [OF assms(1) g refs_keys(3) [OF assms(3)] x] by (simp add: load_outcome_def)
  have "attribute_claims L' k cutoff version oc = attribute_claims L k cutoff version oc"
    unfolding attribute_claims_def load_action_def load_account_actions_def
    by (simp only: action_query_kept [OF assms(1,3) le] load_decision_kept [OF assms(1,3) le])
  then show ?thesis using v c' o' a by (simp add: attribute_def validate_cutoff_Inr)
qed

subsection \<open>Eligibility and the heuristic choice\<close>

text \<open>The conditions of an eligible action and of an attributable decision, as the policy states them.\<close>

definition eligible :: "string \<Rightarrow> string \<Rightarrow> action_candidate \<Rightarrow> bool" where
  "eligible acct observed c \<longleftrightarrow>
     ca_account_ref c = acct \<and> (ca_status c = ''sent'' \<or> ca_status c = ''completed'') \<and>
     ca_decision_class c = Some ''account_prioritization'' \<and> ca_decision_account c = Some acct \<and>
     (\<exists>t u. instant (ca_occurred_at c) = Some t \<and> instant observed = Some u \<and> t < u \<and>
        utc_micros u - utc_micros t \<le> 90 * 24 * 3600000000)"

definition attributable :: "string \<Rightarrow> string \<Rightarrow> decision_claim \<Rightarrow> bool" where
  "attributable acct observed d \<longleftrightarrow>
     dc_account_ref d = acct \<and> dc_class d = ''account_prioritization'' \<and>
     (\<exists>t u. instant (dc_boundary d) = Some t \<and> instant observed = Some u \<and> t < u)"

lemma action_problem_None: "action_problem (Some c) acct observed = Inr None \<longleftrightarrow> eligible acct observed c"
  by (cases "instant observed"; cases "instant (ca_occurred_at c)";
      auto simp: action_problem_def eligible_def instantE_def ELIGIBLE_ACTION_STATUSES_def
      ATTRIBUTABLE_DECISION_CLASS_def LOOKBACK_def LOOKBACK_DAYS_def hours_delta_def split: if_splits)

lemma action_problem_absent: "action_problem None acct observed \<noteq> Inr None"
  by (simp add: action_problem_def)

lemma decision_problem_None: "decision_problem (Some d) acct observed = Inr None \<longleftrightarrow> attributable acct observed d"
  by (auto simp: decision_problem_def attributable_def instantE_def ATTRIBUTABLE_DECISION_CLASS_def split: if_splits)

lemma decision_problem_absent: "decision_problem None acct observed \<noteq> Inr None"
  by (simp add: decision_problem_def)

lemma fold_best:
  fixes k :: "'a \<Rightarrow> 'k::linorder"
  shows "fold (\<lambda>y best. if k best < k y then y else best) xs x \<in> insert x (set xs) \<and>
    (\<forall>y\<in>insert x (set xs). k y \<le> k (fold (\<lambda>y best. if k best < k y then y else best) xs x))"
proof (induction xs arbitrary: x)
  case Nil
  then show ?case by simp
next
  case (Cons a xs)
  let ?m = "if k x < k a then a else x"
  show ?case using Cons.IH [of ?m] by (auto split: if_splits)
qed

lemma max_by_Some: "max_by k xs = Some x \<Longrightarrow> x \<in> set xs \<and> (\<forall>y\<in>set xs. k y \<le> k x)"
  using fold_best [of k "tl xs" "hd xs"] by (cases xs) auto

lemma max_by_None [simp]: "max_by k xs = None \<longleftrightarrow> xs = []"
  by (cases xs) auto

lemma filterE_Inr: "filterE p xs = Inr ys \<Longrightarrow> set ys = {x \<in> set xs. p x = Inr True} \<and> (\<forall>x\<in>set xs. \<exists>b. p x = Inr b)"
  by (induction xs arbitrary: ys) (auto split: if_splits)

text \<open>The later of two candidates: by occurrence instant, then by ingest sequence.\<close>

definition not_later :: "action_candidate \<Rightarrow> action_candidate \<Rightarrow> bool" where
  "not_later c d \<longleftrightarrow>
     (\<exists>t u. instant (ca_occurred_at c) = Some t \<and> instant (ca_occurred_at d) = Some u \<and>
        (t < u \<or> (t = u \<and> ca_seq c \<le> ca_seq d)))"

lemma most_recent_eligible_Inr:
  assumes "most_recent_eligible cs = Inr x"
  shows "case x of None \<Rightarrow> cs = [] | Some c \<Rightarrow> c \<in> set cs \<and> (\<forall>d\<in>set cs. not_later d c)"
proof -
  obtain ks where ks: "mapE (\<lambda>c. bindE (instantE (ca_occurred_at c)) (\<lambda>t. Inr ((t, ca_seq c), c))) cs = Inr ks"
    and x: "x = map_option snd (max_by fst ks)"
    using assms by (auto simp: most_recent_eligible_def)
  have l: "list_all2 (\<lambda>c k. \<exists>t. instant (ca_occurred_at c) = Some t \<and> k = ((t, ca_seq c), c)) cs ks"
    using ks unfolding mapE_Inr_iff by (rule list_all2_mono) (auto simp: instantE_def)
  show ?thesis
  proof (cases "max_by fst ks")
    case None
    then show ?thesis using l x by simp
  next
    case (Some k)
    note m = max_by_Some [OF Some]
    obtain c t where c: "c \<in> set cs" "instant (ca_occurred_at c) = Some t" "k = ((t, ca_seq c), c)"
      using list_all2_right [OF l conjunct1 [OF m]] by blast
    have "not_later d c" if d: "d \<in> set cs" for d
    proof -
      obtain u where u: "instant (ca_occurred_at d) = Some u" "((u, ca_seq d), d) \<in> set ks"
        using list_all2_left [OF l d] by blast
      then have "(u, ca_seq d) \<le> (t, ca_seq c)" using m c by force
      then show ?thesis using u c by (auto simp: not_later_def less_eq_prod_simp)
    qed
    then show ?thesis using c x Some by simp
  qed
qed

lemma not_later_antisym:
  "not_later c d \<Longrightarrow> not_later d c \<Longrightarrow> ca_seq c = ca_seq d"
  by (auto simp: not_later_def)

subsection \<open>What a result says\<close>

text \<open>Both claims, as far as made, are valid and agree.\<close>

definition claims_valid :: "ledger \<Rightarrow> int \<Rightarrow> outcome_claims \<Rightarrow> bool" where
  "claims_valid L cutoff oc \<longleftrightarrow>
     (oc_action oc \<noteq> None \<or> oc_decision oc \<noteq> None) \<and>
     (\<forall>a. oc_action oc = Some a \<longrightarrow>
        (\<exists>c. load_action L a cutoff = Some c \<and> eligible (oc_account_ref oc) (oc_observed oc) c)) \<and>
     (\<forall>d. oc_decision oc = Some d \<longrightarrow>
        (\<exists>e. load_decision L d cutoff = Some e \<and> attributable (oc_account_ref oc) (oc_observed oc) e)) \<and>
     (\<forall>a d c. oc_action oc = Some a \<longrightarrow> oc_decision oc = Some d \<longrightarrow> load_action L a cutoff = Some c
        \<longrightarrow> ca_decision c = d)"

lemma load_action_SomeD: "load_action L k cutoff = Some c \<Longrightarrow> ca_event_id c = k \<and> c \<in> set (action_query L cutoff)"
  unfolding load_action_def by (drule find_Some_in) simp

lemma load_decision_SomeD: "load_decision L k cutoff = Some d \<Longrightarrow> dc_event_id d = k"
  by (auto simp: load_decision_def dest!: find_Some_in)

lemma claim_problems_Nil: "claim_problems claim p = Inr [] \<longleftrightarrow> claim = None \<or> p = Inr None"
  by (auto simp: claim_problems_def split: option.splits)

lemma action_claim_ok:
  "claim_problems (oc_action oc) (action_problem (Option.bind (oc_action oc) (\<lambda>a. load_action L a cutoff)) acct obs) = Inr []
   \<longleftrightarrow> (\<forall>a. oc_action oc = Some a \<longrightarrow> (\<exists>c. load_action L a cutoff = Some c \<and> eligible acct obs c))"
  by (cases "oc_action oc"; cases "load_action L (the (oc_action oc)) cutoff")
     (auto simp: claim_problems_Nil action_problem_None action_problem_absent)

lemma decision_claim_ok:
  "claim_problems (oc_decision oc) (decision_problem (Option.bind (oc_decision oc) (\<lambda>d. load_decision L d cutoff)) acct obs) = Inr []
   \<longleftrightarrow> (\<forall>d. oc_decision oc = Some d \<longrightarrow> (\<exists>e. load_decision L d cutoff = Some e \<and> attributable acct obs e))"
  by (cases "oc_decision oc"; cases "load_decision L (the (oc_decision oc)) cutoff")
     (auto simp: claim_problems_Nil decision_problem_None decision_problem_absent)

text \<open>A fallback is inferred from the latest eligible action of the account, or unresolved for want of one.\<close>

lemma fallback_result_Inr:
  assumes "fallback_result res actions acct obs ps = Inr r"
  shows "(\<exists>c why. c \<in> set actions \<and> eligible acct obs c \<and>
       (\<forall>d\<in>set actions. eligible acct obs d \<longrightarrow> not_later d c) \<and>
       r = res ''heuristic_most_recent_eligible_action'' ''inferred'' why (Some (ca_event_id c)) (Some (ca_decision c))) \<or>
     (\<exists>why. (\<forall>c\<in>set actions. \<not> eligible acct obs c) \<and> r = res ''no_resolution'' ''unresolved'' why None None)"
proof -
  define claims where "claims = (if ps \<noteq> [] then join_claims ps else ''no_source_reference'')"
  obtain el x where el: "filterE (\<lambda>c. bindE (action_problem (Some c) acct obs) (\<lambda>p. Inr (p = None))) actions = Inr el"
    and x: "most_recent_eligible el = Inr x"
    and c: "(case x of
        Some c \<Rightarrow> Inr (res ''heuristic_most_recent_eligible_action'' ''inferred''
          (claims @ '';'' @ ''most_recent_eligible_action'') (Some (ca_event_id c)) (Some (ca_decision c)))
      | None \<Rightarrow> Inr (res ''no_resolution'' ''unresolved'' (claims @ '';'' @ ''no_eligible_action'') None None))
      = (Inr r :: attribution_error + attribution_result)"
    using assms unfolding fallback_result_def Let_def claims_def [symmetric] bindE_eq_Inr
    by (elim exE conjE) (rule that)
  have s: "set el = {c \<in> set actions. eligible acct obs c}"
    using filterE_Inr [OF el] by (auto simp: action_problem_None)
  show ?thesis
  proof (cases x)
    case None
    then have "r = res ''no_resolution'' ''unresolved'' (claims @ '';'' @ ''no_eligible_action'') None None"
      using c by simp
    moreover have "\<forall>c\<in>set actions. \<not> eligible acct obs c"
      using most_recent_eligible_Inr [OF x] s None by auto
    ultimately show ?thesis by (intro disjI2 exI conjI)
  next
    case (Some e)
    then have "r = res ''heuristic_most_recent_eligible_action'' ''inferred''
        (claims @ '';'' @ ''most_recent_eligible_action'') (Some (ca_event_id e)) (Some (ca_decision e))"
      using c by simp
    moreover have "e \<in> set actions" "eligible acct obs e"
      "\<forall>d\<in>set actions. eligible acct obs d \<longrightarrow> not_later d e"
      using most_recent_eligible_Inr [OF x] s Some by auto
    ultimately show ?thesis by (intro disjI1 exI [of _ e] exI conjI)
  qed
qed

lemma attribute_claims_Inr:
  assumes "attribute_claims L k cutoff version oc = Inr r"
  shows "if claims_valid L cutoff oc
    then (\<exists>why. r = make_result k version cutoff ''explicit_source_reference'' ''direct'' why (oc_action oc)
        (case oc_decision oc of Some d \<Rightarrow> Some d
         | None \<Rightarrow> map_option ca_decision (Option.bind (oc_action oc) (\<lambda>a. load_action L a cutoff))))
    else (\<exists>ps. fallback_result (make_result k version cutoff)
        (load_account_actions L (oc_account_ref oc) cutoff) (oc_account_ref oc) (oc_observed oc) ps = Inr r)"
proof -
  let ?act = "Option.bind (oc_action oc) (\<lambda>a. load_action L a cutoff)"
  let ?dec = "Option.bind (oc_decision oc) (\<lambda>d. load_decision L d cutoff)"
  let ?acct = "oc_account_ref oc" let ?obs = "oc_observed oc"
  let ?fb = "fallback_result (make_result k version cutoff) (load_account_actions L ?acct cutoff) ?acct ?obs"
  obtain p1 p2 where p: "claim_problems (oc_action oc) (action_problem ?act ?acct ?obs) = Inr p1"
    "claim_problems (oc_decision oc) (decision_problem ?dec ?acct ?obs) = Inr p2"
    and r: "(if (oc_action oc \<noteq> None \<or> oc_decision oc \<noteq> None) \<and> p1 @ p2 = []
      then (case direct_result (make_result k version cutoff) ?act ?dec of Inr r \<Rightarrow> Inr r | Inl ps \<Rightarrow> ?fb ps)
      else ?fb (p1 @ p2)) = Inr r"
    using assms unfolding attribute_claims_def Let_def bindE_eq_Inr by blast
  have ok1: "p1 = [] \<longleftrightarrow> (\<forall>a. oc_action oc = Some a \<longrightarrow> (\<exists>c. load_action L a cutoff = Some c \<and> eligible ?acct ?obs c))"
    using action_claim_ok [of oc L cutoff ?acct ?obs] p(1) by simp
  have ok2: "p2 = [] \<longleftrightarrow> (\<forall>d. oc_decision oc = Some d \<longrightarrow> (\<exists>e. load_decision L d cutoff = Some e \<and> attributable ?acct ?obs e))"
    using decision_claim_ok [of oc L cutoff ?acct ?obs] p(2) by simp
  show ?thesis
  proof (cases "(oc_action oc \<noteq> None \<or> oc_decision oc \<noteq> None) \<and> p1 @ p2 = []")
    case False
    then have "\<not> claims_valid L cutoff oc" using ok1 ok2 by (auto simp: claims_valid_def)
    then show ?thesis using r False by auto
  next
    case True
    note ok = ok1 [THEN iffD1] ok2 [THEN iffD1]
    show ?thesis
    proof (cases "oc_action oc"; cases "oc_decision oc")
      fix a d assume ad: "oc_action oc = Some a" "oc_decision oc = Some d"
      then obtain c e where ce: "load_action L a cutoff = Some c" "eligible ?acct ?obs c"
        "load_decision L d cutoff = Some e" "attributable ?acct ?obs e"
        using ok True by auto
      show ?thesis
        using r True ad ce load_action_SomeD [OF ce(1)] load_decision_SomeD [OF ce(3)]
        by (auto simp: direct_result_def claims_valid_def split: if_splits)
    next
      fix a assume ad: "oc_action oc = Some a" "oc_decision oc = None"
      then obtain c where c: "load_action L a cutoff = Some c" "eligible ?acct ?obs c"
        using ok(1) True by auto
      show ?thesis
        using r True ad c load_action_SomeD [OF c(1)] by (auto simp: direct_result_def claims_valid_def)
    next
      fix d assume ad: "oc_action oc = None" "oc_decision oc = Some d"
      then obtain e where e: "load_decision L d cutoff = Some e" "attributable ?acct ?obs e"
        using ok(2) True by auto
      show ?thesis
        using r True ad e load_decision_SomeD [OF e(1)] by (auto simp: direct_result_def claims_valid_def)
    qed (use True in simp)
  qed
qed

lemma attribute_InrD:
  assumes "attribute L k cutoff version = Inr r"
  obtains oc where "version = POLICY_VERSION" "cutoff \<in> e_seq ` set (lg_events L)"
    "load_outcome L k cutoff = Inr oc" "attribute_claims L k cutoff version oc = Inr r"
  using assms by (auto simp: attribute_def validate_cutoff_Inr split: if_splits)

subsection \<open>The supersession walk\<close>

text \<open>An outcome supersedes only outcomes recorded before it; the collector keeps this of every ledger.\<close>

definition chains_ordered :: "ledger \<Rightarrow> bool" where
  "chains_ordered L \<longleftrightarrow>
     (\<forall>r\<in>set (lg_outcomes L). \<forall>k. o_supersedes r = Some k \<longrightarrow>
        (\<exists>s s'. seq_of L k = Some s \<and> seq_of L (o_event_id r) = Some s' \<and> s < s'))"

lemma one_superseder:
  "distinct (filter (\<lambda>k. k \<noteq> None) (map f xs)) \<Longrightarrow> length (filter (\<lambda>x. f x = Some c) xs) \<le> 1"
proof (induction xs)
  case Nil
  then show ?case by simp
next
  case (Cons a xs)
  have "filter (\<lambda>x. f x = Some c) xs = []" if "f a = Some c"
    using Cons.prems that by (auto simp: filter_empty_conv) (metis imageI option.distinct(1))
  then show ?case using Cons by (auto split: if_splits)
qed

lemma length_filter_joined:
  "length (filter (\<lambda>(r, s). P r \<and> Q s) (joined key rows L)) \<le> length (filter P rows)"
  by (induction rows) (auto split: option.split)

lemma successors_cases:
  assumes "ledger_keys L"
  obtains "successors L cutoff cur = []" | nxt where "successors L cutoff cur = [nxt]"
proof -
  have "length (successors L cutoff cur) \<le> length (filter (\<lambda>r. o_supersedes r = Some cur) (lg_outcomes L))"
    unfolding successors_def length_map by (rule length_filter_joined)
  also have "\<dots> \<le> 1" by (rule one_superseder) (use assms in \<open>simp add: ledger_keys_def\<close>)
  finally show thesis using that
    by (cases "successors L cutoff cur" rule: list.exhaust [case_product list.exhaust [of "tl xs" for xs]])
      (auto simp: Suc_le_eq length_Suc_conv le_Suc_eq)
qed

lemma successor_later:
  assumes "chains_ordered L" "nxt \<in> set (successors L cutoff cur)"
  shows "\<exists>s s'. seq_of L cur = Some s \<and> seq_of L nxt = Some s' \<and> s < s'"
proof -
  obtain r where r: "r \<in> set (lg_outcomes L)" "o_event_id r = nxt" "o_supersedes r = Some cur"
    using assms(2) by (auto simp: successors_iff)
  then show ?thesis using assms(1) unfolding chains_ordered_def by blast
qed

text \<open>Everything seen so far is no later than the current version.\<close>

definition seen_before :: "ledger \<Rightarrow> string \<Rightarrow> string list \<Rightarrow> bool" where
  "seen_before L cur seen \<longleftrightarrow>
     (\<forall>k\<in>set seen. \<exists>s s'. seq_of L k = Some s \<and> seq_of L cur = Some s' \<and> s \<le> s')"

lemma seen_before_step:
  assumes "chains_ordered L" "nxt \<in> set (successors L cutoff cur)" "seen_before L cur seen"
  shows "nxt \<notin> set seen" "seen_before L nxt (nxt # seen)"
proof -
  obtain s s' where s: "seq_of L cur = Some s" "seq_of L nxt = Some s'" "s < s'"
    using successor_later [OF assms(1,2)] by blast
  have k: "\<exists>u. seq_of L k = Some u \<and> u \<le> s" if "k \<in> set seen" for k
    using assms(3) that s(1) by (fastforce simp: seen_before_def)
  show "nxt \<notin> set seen" using k s by fastforce
  have "\<exists>u u'. seq_of L x = Some u \<and> seq_of L nxt = Some u' \<and> u \<le> u'" if "x \<in> set (nxt # seen)" for x
    using that k [of x] s by (cases "x = nxt") force+
  then show "seen_before L nxt (nxt # seen)" by (simp add: seen_before_def)
qed

abbreviation supersession :: "ledger \<Rightarrow> int \<Rightarrow> string \<Rightarrow> string \<Rightarrow> bool" where
  "supersession L cutoff a b \<equiv> b \<in> set (successors L cutoff a)"

lemma follow_result:
  "follow L cutoff cur seen = Inr t \<Longrightarrow> successors L cutoff t = [] \<and> (supersession L cutoff)\<^sup>*\<^sup>* cur t"
proof (induction L cutoff cur seen rule: follow.induct)
  case (1 L cutoff cur seen)
  show ?case
  proof (cases "successors L cutoff cur")
    case Nil
    then show ?thesis using "1.prems" by (simp add: follow.simps)
  next
    case (Cons nxt rest)
    then have n: "successors L cutoff cur = [nxt]" "nxt \<notin> set seen"
      and f: "follow L cutoff nxt (nxt # seen) = Inr t"
      using "1.prems" by (auto simp: follow.simps [of L cutoff cur seen] split: list.splits if_splits)
    from "1.IH" [OF Cons _ n(2) f] n(1) Cons
    have i: "successors L cutoff t = []" "(supersession L cutoff)\<^sup>*\<^sup>* nxt t" by simp_all
    have "supersession L cutoff cur nxt" using n(1) by simp
    then show ?thesis using i by (simp add: converse_rtranclp_into_rtranclp)
  qed
qed

lemma follow_total:
  "ledger_keys L \<Longrightarrow> chains_ordered L \<Longrightarrow> seen_before L cur seen \<Longrightarrow> \<exists>t. follow L cutoff cur seen = Inr t"
proof (induction L cutoff cur seen rule: follow.induct)
  case (1 L cutoff cur seen)
  show ?case
  proof (rule successors_cases [OF "1.prems"(1), of cutoff cur])
    assume "successors L cutoff cur = []"
    then show ?thesis by (simp add: follow.simps)
  next
    fix nxt assume n: "successors L cutoff cur = [nxt]"
    note st = seen_before_step [OF "1.prems"(2) _ "1.prems"(3), of nxt cutoff]
    have "\<exists>t. follow L cutoff nxt (nxt # seen) = Inr t"
      by (rule "1.IH" [OF n refl]) (use st n "1.prems" in auto)
    then show ?thesis using n st(1) by (simp add: follow.simps [of L cutoff cur seen])
  qed
qed

lemma follow_seen:
  assumes "ledger_keys L" "chains_ordered L"
  shows "follow L cutoff cur seen = Inr t \<Longrightarrow> seen_before L cur seen' \<Longrightarrow> follow L cutoff cur seen' = Inr t"
  using assms
proof (induction L cutoff cur seen arbitrary: seen' rule: follow.induct)
  case (1 L cutoff cur seen)
  show ?case
  proof (rule successors_cases [OF "1.prems"(3), of cutoff cur])
    assume "successors L cutoff cur = []"
    then show ?thesis using "1.prems"(1) by (simp add: follow.simps)
  next
    fix nxt assume n: "successors L cutoff cur = [nxt]"
    then have m: "nxt \<notin> set seen" "follow L cutoff nxt (nxt # seen) = Inr t"
      using "1.prems"(1) by (simp_all add: follow.simps [of L cutoff cur seen] split: if_splits)
    note st = seen_before_step [OF "1.prems"(4) _ "1.prems"(2), of nxt cutoff]
    have "follow L cutoff nxt (nxt # seen') = Inr t"
      by (rule "1.IH" [OF n refl m]) (use st n "1.prems" in auto)
    then show ?thesis using n st(1) by (simp add: follow.simps [of L cutoff cur seen'])
  qed
qed

lemma seen_before_self: "seq_of L k = Some s \<Longrightarrow> seen_before L k [k]"
  by (simp add: seen_before_def)

lemma load_outcome_Inr:
  assumes "load_outcome L k cutoff = Inr oc"
  shows "\<exists>r s. r \<in> set (lg_outcomes L) \<and> o_event_id r = k \<and> seq_of L k = Some s \<and> s \<le> cutoff \<and>
    claims_of r s = Inr oc"
proof -
  obtain r s where f: "find (\<lambda>(r, s). o_event_id r = k) (joined o_event_id (lg_outcomes L) L) = Some (r, s)"
    and c: "\<not> cutoff < s" "claims_of r s = Inr oc"
    using assms by (auto simp: load_outcome_def split: option.splits if_splits)
  then show ?thesis using find_Some_in [OF f] by (auto simp: set_joined)
qed

subsection \<open>Effective versions\<close>

lemma effective_exists:
  assumes "ledger_keys L" "chains_ordered L" "load_outcome L k cutoff = Inr oc"
  shows "\<exists>t. effective_outcome_version L k cutoff = Inr t"
proof -
  obtain s where "seq_of L k = Some s" using load_outcome_Inr [OF assms(3)] by blast
  from follow_total [OF assms(1,2) seen_before_self [OF this], of cutoff] assms(3)
  show ?thesis by (simp add: effective_outcome_version_def)
qed

lemma claims_of_key: "claims_of r s = Inr oc \<Longrightarrow> oc_outcome oc = o_event_id r \<and> oc_account_ref oc = o_account_ref r \<and> oc_seq oc = s"
  by (auto simp: claims_of_def split: if_splits option.splits)

subsection \<open>A small ledger for the witnesses\<close>

definition demo_event :: "int \<Rightarrow> string \<Rightarrow> string \<Rightarrow> event_row" where
  "demo_event n k ty =
     \<lparr>e_seq = n, e_event_id = k, e_schema_version = ''1'', e_event_type = ty, e_source = ''demo'',
      e_account_ref = ''acct'', e_occurred_at = ''2026-04-17T10:05:02.000000Z'',
      e_recorded_at = ''2026-04-17T10:05:02.000000Z'', e_hash = k, e_payload = ''''\<rparr>"

definition demo_outcome :: "string \<Rightarrow> string \<Rightarrow> string option \<Rightarrow> string option \<Rightarrow> outcome_row" where
  "demo_outcome k observed claim superseded =
     \<lparr>o_event_id = k, o_account_ref = ''acct'', o_action = None, o_window_days = None, o_reply = Some True,
      o_meeting = None, o_opportunity = None, o_occurred_at = observed, o_recorded_at = observed,
      o_schema_version = ''2'', o_window_opened_at = Some observed, o_window_closes_at = Some observed,
      o_evaluation_state = Some ''open'', o_observed_at = Some observed, o_source_action = claim,
      o_source_action_reason = None, o_source_decision = None, o_source_decision_reason = None,
      o_supersedes = superseded\<rparr>"

text \<open>One decision, one action a day later, an outcome that claims it, one that claims nothing and
  supersedes the first, and one a year later.\<close>

definition demo_ledger :: ledger where
  "demo_ledger = empty_ledger
     \<lparr>lg_seq := 7,
      lg_accounts := [\<lparr>a_account_ref = ''acct'', a_name = ''Demo'', a_domain = ''demo.example'', a_first_seen = ''ev1''\<rparr>],
      lg_events := [demo_event 1 ''ev1'' ''account.discovered'', demo_event 2 ''ev2'' ''logic_artifact.registered'',
        demo_event 3 ''dec'' ''decision.recorded'', demo_event 4 ''act'' ''action.recorded'',
        demo_event 5 ''out1'' ''outcome.evaluated'', demo_event 6 ''out2'' ''outcome.evaluated'',
        demo_event 7 ''out3'' ''outcome.evaluated''],
      lg_artifacts := [\<lparr>l_hash = ''h'', l_artifact_id = ''icp'', l_logic_version = ''v3.2'',
        l_decision_class = ''account_prioritization'', l_schema_version = ''1'',
        l_evaluator_version = ''evaluator-v1'', l_json = ''{}'', l_source_event = ''ev2''\<rparr>],
      lg_decisions := [\<lparr>d_event_id = ''dec'', d_account_ref = ''acct'', d_class = ''account_prioritization'',
        d_boundary = ''2026-04-17T10:05:02.000000Z'', d_workflow_version = ''w'', d_hash = ''h'',
        d_evaluator_version = ''evaluator-v1'', d_logic_version = ''v3.2'', d_score = 86, d_threshold = 75,
        d_output = ''PRIORITIZE'', d_explanation = None, d_seq = 3\<rparr>],
      lg_actions := [\<lparr>x_event_id = ''act'', x_account_ref = ''acct'', x_decision = ''dec'',
        x_action_type = ''outbound_play'', x_play_id = 7, x_target_persona = ''CTO'', x_status = ''sent'',
        x_cost = ''1.42'', x_currency = ''USD'', x_occurred_at = ''2026-04-18T10:05:02.000000Z''\<rparr>],
      lg_outcomes := [demo_outcome ''out1'' ''2026-04-20T09:00:00.000000Z'' (Some ''act'') None,
        demo_outcome ''out2'' ''2026-04-21T09:00:00.000000Z'' None (Some ''out1''),
        demo_outcome ''out3'' ''2027-04-21T09:00:00.000000Z'' (Some ''act'') None]\<rparr>"

lemma demo_ledger_keys: "ledger_keys demo_ledger"
  by (simp add: ledger_keys_def demo_ledger_def empty_ledger_def demo_event_def demo_outcome_def)

lemma demo_attributions:
  "attribute demo_ledger ''out1'' 7 POLICY_VERSION =
     Inr (make_result ''out1'' POLICY_VERSION 7 ''explicit_source_reference'' ''direct''
       ''valid_source_action_reference'' (Some ''act'') (Some ''dec''))"
  "attribute demo_ledger ''out2'' 7 POLICY_VERSION =
     Inr (make_result ''out2'' POLICY_VERSION 7 ''heuristic_most_recent_eligible_action'' ''inferred''
       ''no_source_reference;most_recent_eligible_action'' (Some ''act'') (Some ''dec''))"
  "attribute demo_ledger ''out3'' 7 POLICY_VERSION =
     Inr (make_result ''out3'' POLICY_VERSION 7 ''no_resolution'' ''unresolved''
       ''source_action_outside_lookback;no_eligible_action'' None None)"
  by code_simp+

subsection \<open>The policy's promises\<close>

text \<open>C33: A result is \<open>direct\<close> exactly when the outcome makes a source claim and every claim it
  makes is valid and the claims agree; it then credits the claimed action, and the claimed decision
  or, for a lone action claim, the action's own decision.  A valid decision is never salvaged from
  a pair with an ineligible action.\<close>
theorem attribute_direct_iff:
  assumes "attribute L k cutoff version = Inr r" "load_outcome L k cutoff = Inr oc"
  shows "(rr_status r = ''direct'' \<longleftrightarrow> claims_valid L cutoff oc) \<and>
    (rr_status r = ''direct'' \<longrightarrow>
       rr_resolved_action r = oc_action oc \<and>
       (\<forall>d. oc_decision oc = Some d \<longrightarrow> rr_resolved_decision r = Some d) \<and>
       (\<forall>a c. oc_decision oc = None \<longrightarrow> oc_action oc = Some a \<longrightarrow> load_action L a cutoff = Some c \<longrightarrow>
          rr_resolved_decision r = Some (ca_decision c)))"
proof -
  have a: "attribute_claims L k cutoff version oc = Inr r"
    using attribute_InrD [OF assms(1)] assms(2) by (metis sum.inject(2))
  show ?thesis
  proof (cases "claims_valid L cutoff oc")
    case True
    then show ?thesis using attribute_claims_Inr [OF a] by (auto simp: make_result_def)
  next
    case False
    then obtain ps where "fallback_result (make_result k version cutoff)
        (load_account_actions L (oc_account_ref oc) cutoff) (oc_account_ref oc) (oc_observed oc) ps = Inr r"
      using attribute_claims_Inr [OF a] by auto
    from fallback_result_Inr [OF this] False show ?thesis by (auto simp: make_result_def)
  qed
qed

theorem attribute_direct_iff_witness:
  "\<exists>oc. load_outcome demo_ledger ''out1'' 7 = Inr oc \<and> claims_valid demo_ledger 7 oc"
proof -
  obtain oc where oc: "load_outcome demo_ledger ''out1'' 7 = Inr oc"
    using attribute_InrD [OF demo_attributions(1)] by blast
  from attribute_direct_iff [OF demo_attributions(1) this] oc show ?thesis
    by (auto simp: make_result_def)
qed

lemma fallback_of:
  assumes "attribute L k cutoff version = Inr r" "load_outcome L k cutoff = Inr oc" "rr_status r \<noteq> ''direct''"
  obtains ps where "fallback_result (make_result k version cutoff)
    (load_account_actions L (oc_account_ref oc) cutoff) (oc_account_ref oc) (oc_observed oc) ps = Inr r"
proof -
  have a: "attribute_claims L k cutoff version oc = Inr r"
    using attribute_InrD [OF assms(1)] assms(2) by (metis sum.inject(2))
  show thesis
    using attribute_claims_Inr [OF a] assms(3) that
    by (cases "claims_valid L cutoff oc") (auto simp: make_result_def)
qed

lemma set_load_account_actions:
  "c \<in> set (load_account_actions L acct cutoff) \<longleftrightarrow> c \<in> set (action_query L cutoff) \<and> ca_account_ref c = acct"
  by (simp add: load_account_actions_def)

text \<open>An \<open>inferred\<close> result credits an eligible action of the snapshot that no eligible action
  is later than, by occurrence instant and then by ingest sequence, together with its decision.\<close>
theorem attribute_inferred:
  assumes "attribute L k cutoff version = Inr r" "load_outcome L k cutoff = Inr oc"
    "rr_status r = ''inferred''"
  shows "\<exists>c. c \<in> set (action_query L cutoff) \<and> eligible (oc_account_ref oc) (oc_observed oc) c \<and>
    rr_resolved_action r = Some (ca_event_id c) \<and> rr_resolved_decision r = Some (ca_decision c) \<and>
    (\<forall>d\<in>set (action_query L cutoff). eligible (oc_account_ref oc) (oc_observed oc) d \<longrightarrow> not_later d c)"
proof -
  obtain ps where "fallback_result (make_result k version cutoff)
      (load_account_actions L (oc_account_ref oc) cutoff) (oc_account_ref oc) (oc_observed oc) ps = Inr r"
    using fallback_of [OF assms(1,2)] assms(3) by auto
  from fallback_result_Inr [OF this] assms(3) obtain c where
    "c \<in> set (action_query L cutoff)" "eligible (oc_account_ref oc) (oc_observed oc) c"
    "rr_resolved_action r = Some (ca_event_id c)" "rr_resolved_decision r = Some (ca_decision c)"
    "\<forall>d\<in>set (load_account_actions L (oc_account_ref oc) cutoff).
       eligible (oc_account_ref oc) (oc_observed oc) d \<longrightarrow> not_later d c"
    by (auto simp: make_result_def set_load_account_actions)
  then show ?thesis by (auto simp: set_load_account_actions eligible_def)
qed

theorem attribute_inferred_witness:
  "\<exists>oc c. load_outcome demo_ledger ''out2'' 7 = Inr oc \<and> c \<in> set (action_query demo_ledger 7) \<and>
     eligible (oc_account_ref oc) (oc_observed oc) c \<and> ca_event_id c = ''act''"
proof -
  obtain oc where oc: "load_outcome demo_ledger ''out2'' 7 = Inr oc"
    using attribute_InrD [OF demo_attributions(2)] by blast
  from attribute_inferred [OF demo_attributions(2) this] oc show ?thesis
    by (auto simp: make_result_def)
qed

text \<open>An \<open>unresolved\<close> result means that no action of the snapshot is eligible, and credits nothing.\<close>
theorem attribute_unresolved:
  assumes "attribute L k cutoff version = Inr r" "load_outcome L k cutoff = Inr oc"
    "rr_status r = ''unresolved''"
  shows "(\<forall>c\<in>set (action_query L cutoff). \<not> eligible (oc_account_ref oc) (oc_observed oc) c) \<and>
    rr_resolved_action r = None \<and> rr_resolved_decision r = None"
proof -
  obtain ps where "fallback_result (make_result k version cutoff)
      (load_account_actions L (oc_account_ref oc) cutoff) (oc_account_ref oc) (oc_observed oc) ps = Inr r"
    using fallback_of [OF assms(1,2)] assms(3) by auto
  from fallback_result_Inr [OF this] assms(3) have
    "\<forall>c\<in>set (load_account_actions L (oc_account_ref oc) cutoff). \<not> eligible (oc_account_ref oc) (oc_observed oc) c"
    "rr_resolved_action r = None" "rr_resolved_decision r = None"
    by (auto simp: make_result_def)
  then show ?thesis by (auto simp: set_load_account_actions eligible_def)
qed

theorem attribute_unresolved_witness:
  "\<exists>oc. load_outcome demo_ledger ''out3'' 7 = Inr oc \<and>
     (\<forall>c\<in>set (action_query demo_ledger 7). \<not> eligible (oc_account_ref oc) (oc_observed oc) c)"
proof -
  obtain oc where oc: "load_outcome demo_ledger ''out3'' 7 = Inr oc"
    using attribute_InrD [OF demo_attributions(3)] by blast
  from attribute_unresolved [OF demo_attributions(3) this] oc show ?thesis
    by (auto simp: make_result_def)
qed

lemma attribute_shape:
  assumes "attribute L k cutoff version = Inr r"
  shows "rr_outcome r = k \<and> rr_policy_version r = version \<and> rr_window_days r = LOOKBACK_DAYS \<and> rr_cutoff r = cutoff \<and>
    (rr_status r = ''direct'' \<and> rr_resolved_decision r \<noteq> None \<or>
     rr_status r = ''inferred'' \<and> rr_resolved_action r \<noteq> None \<and> rr_resolved_decision r \<noteq> None \<or>
     rr_status r = ''unresolved'' \<and> rr_resolved_action r = None \<and> rr_resolved_decision r = None)"
proof -
  obtain oc where a: "attribute_claims L k cutoff version oc = Inr r"
    using attribute_InrD [OF assms] by blast
  show ?thesis
  proof (cases "claims_valid L cutoff oc")
    case True
    then show ?thesis using attribute_claims_Inr [OF a]
      by (auto simp: make_result_def claims_valid_def split: option.splits)
  next
    case False
    then obtain ps where "fallback_result (make_result k version cutoff)
        (load_account_actions L (oc_account_ref oc) cutoff) (oc_account_ref oc) (oc_observed oc) ps = Inr r"
      using attribute_claims_Inr [OF a] by auto
    from fallback_result_Inr [OF this] show ?thesis by (auto simp: make_result_def)
  qed
qed

text \<open>C34: Where outcomes supersede only earlier outcomes and no two supersede the same one, the
  supersession walk from every outcome of the snapshot ends, neither ambiguous nor in a cycle, at a
  version of its chain that nothing in the snapshot supersedes.\<close>
theorem effective_outcome_version_total:
  assumes "ledger_keys L" "chains_ordered L" "load_outcome L k cutoff = Inr oc"
  shows "\<exists>t. effective_outcome_version L k cutoff = Inr t \<and> successors L cutoff t = [] \<and>
    (supersession L cutoff)\<^sup>*\<^sup>* k t"
proof -
  obtain t where t: "effective_outcome_version L k cutoff = Inr t"
    using effective_exists [OF assms] by blast
  then have "follow L cutoff k [k] = Inr t"
    using assms(3) by (simp add: effective_outcome_version_def)
  from follow_result [OF this] t show ?thesis by blast
qed

lemma demo_chains: "chains_ordered demo_ledger"
  by (simp add: chains_ordered_def demo_ledger_def empty_ledger_def demo_event_def demo_outcome_def seq_of_def)

theorem effective_outcome_version_total_witness:
  "\<exists>t. effective_outcome_version demo_ledger ''out1'' 7 = Inr t \<and> successors demo_ledger 7 t = []"
proof -
  obtain oc where "load_outcome demo_ledger ''out1'' 7 = Inr oc"
    using attribute_InrD [OF demo_attributions(1)] by blast
  from effective_outcome_version_total [OF demo_ledger_keys demo_chains this] show ?thesis by blast
qed

text \<open>Every version of a supersession chain has the same effective version.\<close>
theorem effective_outcome_version_chain:
  assumes "ledger_keys L" "chains_ordered L" "load_outcome L k cutoff = Inr oc"
    "load_outcome L k' cutoff = Inr oc'" "supersession L cutoff k k'"
  shows "effective_outcome_version L k cutoff = effective_outcome_version L k' cutoff"
proof -
  have n: "successors L cutoff k = [k']"
    using assms(5) by (cases rule: successors_cases [OF assms(1), of cutoff k]) auto
  obtain s where s: "seq_of L k = Some s" using load_outcome_Inr [OF assms(3)] by blast
  obtain t where t: "follow L cutoff k [k] = Inr t"
    using follow_total [OF assms(1,2) seen_before_self [OF s]] by blast
  have st: "k' \<notin> set [k]" "seen_before L k' [k', k]"
    using seen_before_step [OF assms(2,5) seen_before_self [OF s]] by auto
  then have "follow L cutoff k' [k', k] = Inr t"
    using t n by (simp add: follow.simps [of L cutoff k])
  moreover have "seen_before L k' [k']" using st(2) by (simp add: seen_before_def)
  ultimately have "follow L cutoff k' [k'] = Inr t"
    using follow_seen [OF assms(1,2)] by blast
  then show ?thesis using t assms(3,4) by (simp add: effective_outcome_version_def)
qed

theorem effective_outcome_version_chain_witness:
  "effective_outcome_version demo_ledger ''out1'' 7 = effective_outcome_version demo_ledger ''out2'' 7"
proof -
  obtain oc1 where 1: "load_outcome demo_ledger ''out1'' 7 = Inr oc1"
    using attribute_InrD [OF demo_attributions(1)] by blast
  obtain oc2 where 2: "load_outcome demo_ledger ''out2'' 7 = Inr oc2"
    using attribute_InrD [OF demo_attributions(2)] by blast
  have "supersession demo_ledger 7 ''out1'' ''out2''" by code_simp
  then show ?thesis by (rule effective_outcome_version_chain [OF demo_ledger_keys demo_chains 1 2])
qed

end
