(* ===== verification/Projections.thy ===== *)
theory Projections
  imports Policy Schema_Json
begin

text \<open>
  \<open>collector/projections.py\<close>: the cross-event checks of an envelope against the ledger and the
  rows it projects.  \<open>normalized\<close> is the dump of the envelope; its timestamps are
  \<open>format_utc\<close> of the envelope's, its scalars the envelope's own.  A failure keeps the reason
  and the identifiers its body carries.
\<close>

subsection \<open>Failures\<close>

datatype collector_error =
    Rejected string "string list"
  | Conflict string "string list"
  | Database db_error
  | PolicyFailure attribution_error   \<comment> \<open>an \<open>AttributionError\<close> no handler turns into a rejection\<close>
  | CorruptEvidence string   \<comment> \<open>\<open>json.loads(...)["value"]\<close> raises\<close>
  | Uncaught string   \<comment> \<open>any other exception, by the name of its class\<close>

definition lift_db :: "db_error + 'a \<Rightarrow> collector_error + 'a" where
  "lift_db x = (case x of Inl e \<Rightarrow> Inl (Database e) | Inr a \<Rightarrow> Inr a)"

lemma lift_db_simps [simp]:
  "lift_db (Inl e) = Inl (Database e)" "lift_db (Inr a) = Inr a" "lift_db x = Inr a \<longleftrightarrow> x = Inr a"
  by (auto simp: lift_db_def split: sum.splits)

subsection \<open>Row lookups\<close>

definition evidence_at :: "ledger \<Rightarrow> string \<Rightarrow> evidence_row option" where
  "evidence_at L k = find (\<lambda>r. v_version_id r = k) (lg_evidence L)"

definition artifact_at :: "ledger \<Rightarrow> string \<Rightarrow> artifact_row option" where
  "artifact_at L h = find (\<lambda>r. l_hash r = h) (lg_artifacts L)"

definition decision_at :: "ledger \<Rightarrow> string \<Rightarrow> decision_row option" where
  "decision_at L k = find (\<lambda>r. d_event_id r = k) (lg_decisions L)"

definition action_at :: "ledger \<Rightarrow> string \<Rightarrow> action_row option" where
  "action_at L k = find (\<lambda>r. x_event_id r = k) (lg_actions L)"

definition outcome_at :: "ledger \<Rightarrow> string \<Rightarrow> outcome_row option" where
  "outcome_at L k = find (\<lambda>r. o_event_id r = k) (lg_outcomes L)"

definition attribution_at :: "ledger \<Rightarrow> string \<Rightarrow> attribution_row option" where
  "attribution_at L k = find (\<lambda>r. t_event_id r = k) (lg_attributions L)"

lemmas row_lookups = evidence_at_def artifact_at_def decision_at_def action_at_def outcome_at_def attribution_at_def

subsection \<open>Validation\<close>

definition validate_artifact_identity :: "ledger \<Rightarrow> logic_artifact \<Rightarrow> collector_error option" where
  "validate_artifact_identity L a =
     (let digest = canonical_hash (dump_artifact a) in
      if artifact_at L digest \<noteq> None then None
      else case find (\<lambda>r. l_artifact_id r = la_artifact_id a \<and> l_logic_version r = la_logic_version a)
          (lg_artifacts L) of
        None \<Rightarrow> None
      | Some clash \<Rightarrow> Some (Conflict ''logic_artifact_identity_reused_with_different_content''
          [la_artifact_id a, la_logic_version a, l_hash clash, digest]))"

definition evidence_content :: "evidence_row \<Rightarrow> string \<times> string \<times> string \<times> string \<times> string option \<times> string \<times> string option" where
  "evidence_content r = (v_account_ref r, v_type r, v_value_json r, v_source r, v_observed_at r,
     v_available_at r, v_supersedes r)"

text \<open>The row an item of the envelope is projected to.\<close>

definition evidence_row_of :: "envelope \<Rightarrow> evidence_item \<Rightarrow> evidence_row" where
  "evidence_row_of e i =
     \<lparr>v_version_id = it_version_id i, v_account_ref = en_account_ref e, v_type = evidence_type (it_value i),
      v_value_json = evidence_value_json i, v_source = en_source e,
      v_observed_at = map_option iso_date (item_observed_at (it_value i)),
      v_available_at = format_utc (en_recorded_at e), v_source_event = en_event_id e,
      v_supersedes = it_supersedes i\<rparr>"

definition validate_item :: "ledger \<Rightarrow> envelope \<Rightarrow> evidence_item \<Rightarrow> collector_error option" where
  "validate_item L e i =
     (case evidence_at L (it_version_id i) of
        Some existing \<Rightarrow>
          if evidence_content (evidence_row_of e i) = evidence_content existing
          then Some (Rejected ''evidence_version_already_minted'' [it_version_id i])
          else Some (Conflict ''evidence_version_id_reused_with_different_content''
            [it_version_id i, v_source_event existing])
      | None \<Rightarrow>
          (case it_supersedes i of
             None \<Rightarrow> None
           | Some superseded \<Rightarrow>
               (case evidence_at L superseded of
                  None \<Rightarrow> Some (Rejected ''unknown_superseded_evidence_version'' [it_version_id i, superseded])
                | Some target \<Rightarrow>
                    if v_account_ref target \<noteq> en_account_ref e
                    then Some (Rejected ''superseded_evidence_belongs_to_another_account'' [superseded])
                    else if v_type target \<noteq> evidence_type (it_value i)
                    then Some (Rejected ''superseded_evidence_has_a_different_type'' [superseded])
                    else if format_utc (en_recorded_at e) < v_available_at target
                    then Some (Rejected ''superseded_evidence_is_later'' [superseded])
                    else None)))"

definition validate_evidence :: "ledger \<Rightarrow> envelope \<Rightarrow> evidence_recorded \<Rightarrow> collector_error option" where
  "validate_evidence L e p = first_failure (map (validate_item L e) (er_items p))"

text \<open>\<open>_decision_references\<close>: key, evidence version and preserved value of every reference.\<close>

definition decision_references :: "decision_recorded \<Rightarrow> (string \<times> string option \<times> json) list" where
  "decision_references p =
     map (\<lambda>x. (ce_input_key x, ce_evidence x, ce_value x))
       (filter (\<lambda>x. ce_availability x = ''available'') (de_context p)) @
     map (\<lambda>c. (ci_input_key c, Some (ci_evidence c), ci_value c)) (de_consumed p)"

definition validate_reference :: "ledger \<Rightarrow> envelope \<Rightarrow> utc \<Rightarrow> string \<times> string option \<times> json \<Rightarrow> collector_error option" where
  "validate_reference L e boundary ref =
     (case ref of (input_key, version, value) \<Rightarrow>
        (let names = (case version of None \<Rightarrow> [] | Some v \<Rightarrow> [v]) in
         case Option.bind version (evidence_at L) of
           None \<Rightarrow> Some (Rejected ''unknown_evidence_version'' names)
         | Some row \<Rightarrow>
             if v_account_ref row \<noteq> en_account_ref e
             then Some (Rejected ''evidence_version_belongs_to_another_account'' names)
             else if format_utc boundary < v_available_at row
             then Some (Rejected ''evidence_version_available_after_the_boundary'' names)
             else if v_type row \<noteq> input_key
             then Some (Rejected ''evidence_type_does_not_match_input_key'' names)
             else (case stored_evidence_value (v_value_json row) of
                 None \<Rightarrow> Some (CorruptEvidence (v_version_id row))
               | Some stored \<Rightarrow>
                   if \<not> same_scalar value stored
                   then Some (Rejected ''preserved_value_does_not_match_the_evidence_version'' names)
                   else None)))"

definition validate_decision :: "ledger \<Rightarrow> envelope \<Rightarrow> decision_recorded \<Rightarrow> collector_error option" where
  "validate_decision L e p =
     (case first_failure (map (validate_reference L e (de_boundary p)) (decision_references p)) of
        Some err \<Rightarrow> Some err
      | None \<Rightarrow>
          (case artifact_at L (ar_artifact_hash (de_artifact p)) of
             None \<Rightarrow> Some (Rejected ''unregistered_logic_artifact'' [ar_artifact_hash (de_artifact p)])
           | Some a \<Rightarrow>
               raise_if (l_artifact_id a \<noteq> ar_artifact_id (de_artifact p) \<or>
                   l_logic_version a \<noteq> ar_logic_version (de_artifact p) \<or>
                   l_evaluator_version a \<noteq> ar_evaluator_version (de_artifact p) \<or>
                   l_decision_class a \<noteq> de_decision_class p)
                 (Rejected ''logic_artifact_identity_mismatch'' [ar_artifact_hash (de_artifact p)])))"

definition validate_decision_reference :: "ledger \<Rightarrow> envelope \<Rightarrow> string \<Rightarrow> collector_error option" where
  "validate_decision_reference L e k =
     (case decision_at L k of
        None \<Rightarrow> Some (Rejected ''unknown_decision_event_id'' [k])
      | Some row \<Rightarrow>
          if d_account_ref row \<noteq> en_account_ref e
          then Some (Rejected ''decision_belongs_to_another_account'' [k])
          else raise_if (format_utc (en_occurred_at e) < d_boundary row)
            (Rejected ''decision_is_later_than_the_event'' [k]))"

definition validate_action_reference :: "ledger \<Rightarrow> envelope \<Rightarrow> string \<Rightarrow> collector_error option" where
  "validate_action_reference L e k =
     (case action_at L k of
        None \<Rightarrow> Some (Rejected ''unknown_action_event_id'' [k])
      | Some row \<Rightarrow>
          if x_account_ref row \<noteq> en_account_ref e
          then Some (Rejected ''action_belongs_to_another_account'' [k])
          else raise_if (format_utc (en_occurred_at e) \<le> x_occurred_at row)
            (Rejected ''action_is_not_before_the_outcome'' [k]))"

text \<open>The effective version at the ledger's current maximum; an empty ledger has no outcome to find.\<close>

definition effective_now :: "ledger \<Rightarrow> string \<Rightarrow> attribution_error + string" where
  "effective_now L k =
     (case ledger_maximum L of
        None \<Rightarrow> Inl (OutcomeNotFound k)
      | Some m \<Rightarrow> effective_outcome_version L k m)"

definition validate_outcome_supersession :: "ledger \<Rightarrow> envelope \<Rightarrow> outcome_v2 \<Rightarrow> collector_error option" where
  "validate_outcome_supersession L e p =
     (case o2_supersedes p of
        None \<Rightarrow> None
      | Some superseded \<Rightarrow>
          (case outcome_at L superseded of
             None \<Rightarrow> Some (Rejected ''unknown_superseded_outcome'' [superseded])
           | Some target \<Rightarrow>
               if o_account_ref target \<noteq> en_account_ref e
               then Some (Rejected ''superseded_outcome_belongs_to_another_account'' [superseded])
               else (case effective_now L superseded of
                   Inl err \<Rightarrow> Some (PolicyFailure err)
                 | Inr effective \<Rightarrow>
                     raise_if (effective \<noteq> superseded)
                       (Rejected ''superseded_outcome_is_not_effective'' [superseded, effective]))))"

text \<open>\<open>_attribution_failure\<close>: the rejection carries the error's own reason.\<close>

definition attribution_failure :: "attribution_error \<Rightarrow> string list \<Rightarrow> collector_error" where
  "attribution_failure err extra =
     (case reason_of err of Some r \<Rightarrow> Rejected r extra | None \<Rightarrow> PolicyFailure err)"

definition validate_attribution_supersession :: "ledger \<Rightarrow> outcome_attributed \<Rightarrow> collector_error option" where
  "validate_attribution_supersession L p =
     (case (case ledger_maximum L of
              None \<Rightarrow> Inr None
            | Some m \<Rightarrow> effective_attribution L (oa_outcome_event_id p) (oa_policy_version p) m) of
        Inl err \<Rightarrow> Some (PolicyFailure err)
      | Inr current \<Rightarrow>
          (case oa_supersedes p of
             None \<Rightarrow>
               (case current of
                  None \<Rightarrow> None
                | Some c \<Rightarrow> Some (Rejected ''attribution_already_recorded'' [t_event_id c]))
           | Some superseded \<Rightarrow>
               (case attribution_at L superseded of
                  None \<Rightarrow> Some (Rejected ''unknown_superseded_attribution'' [superseded])
                | Some target \<Rightarrow>
                    if t_outcome target \<noteq> oa_outcome_event_id p
                    then Some (Rejected ''superseded_attribution_is_for_another_outcome'' [superseded])
                    else if t_policy_version target \<noteq> oa_policy_version p
                    then Some (Rejected ''superseded_attribution_is_for_another_policy'' [superseded])
                    else if map_option t_event_id current \<noteq> Some superseded
                    then Some (Rejected ''superseded_attribution_is_not_effective'' [superseded])
                    else raise_if (oa_ingest_cutoff p \<le> t_cutoff target)
                      (Rejected ''replacement_attribution_cutoff_is_not_newer'' [superseded]))))"

definition validate_resolved_references :: "ledger \<Rightarrow> outcome_attributed \<Rightarrow> string \<Rightarrow> collector_error option" where
  "validate_resolved_references L p acct =
     first_failure
       [(case oa_resolved_action p of
           None \<Rightarrow> None
         | Some k \<Rightarrow>
             (case action_at L k of
                None \<Rightarrow> Some (Rejected ''unknown_resolved_action'' [k])
              | Some row \<Rightarrow>
                  raise_if (x_account_ref row \<noteq> acct) (Rejected ''resolved_action_belongs_to_another_account'' [k]))),
        (case oa_resolved_decision p of
           None \<Rightarrow> None
         | Some k \<Rightarrow>
             (case decision_at L k of
                None \<Rightarrow> Some (Rejected ''unknown_resolved_decision'' [k])
              | Some row \<Rightarrow>
                  raise_if (d_account_ref row \<noteq> acct)
                    (Rejected ''resolved_decision_belongs_to_another_account'' [k])))]"

text \<open>\<open>payload[name]\<close> for every policy-result field.\<close>

definition payload_policy_result :: "outcome_attributed \<Rightarrow>
    string \<times> string \<times> string \<times> int \<times> string option \<times> string option \<times> string \<times> string" where
  "payload_policy_result p = (oa_outcome_event_id p, oa_policy_version p, oa_method p, oa_window_days p,
     oa_resolved_action p, oa_resolved_decision p, oa_status p, oa_reason p)"

definition validate_recomputed :: "ledger \<Rightarrow> outcome_attributed \<Rightarrow> collector_error option" where
  "validate_recomputed L p =
     (case attribute L (oa_outcome_event_id p) (oa_ingest_cutoff p) (oa_policy_version p) of
        Inl err \<Rightarrow> Some (attribution_failure err [oa_outcome_event_id p])
      | Inr recomputed \<Rightarrow>
          raise_if (payload_policy_result p \<noteq> policy_result recomputed)
            (Rejected ''attribution_disagrees_with_policy'' [oa_outcome_event_id p]))"

text \<open>The identity of the operation: not recorded yet, and the event id is derived from it.\<close>

definition validate_operation :: "ledger \<Rightarrow> envelope \<Rightarrow> outcome_attributed \<Rightarrow> collector_error option" where
  "validate_operation L e p =
     (let k = oa_outcome_event_id p; v = oa_policy_version p; cutoff = oa_ingest_cutoff p;
          expected = attribution_event_id k v cutoff in
      case find (\<lambda>t. t_outcome t = k \<and> t_policy_version t = v \<and> t_cutoff t = cutoff) (lg_attributions L) of
        Some t \<Rightarrow> Some (Rejected ''attribution_operation_already_recorded'' [t_event_id t])
      | None \<Rightarrow> raise_if (en_event_id e \<noteq> expected)
          (Rejected ''attribution_event_id_is_not_the_operation_identity'' [expected]))"

definition validate_attribution :: "ledger \<Rightarrow> envelope \<Rightarrow> outcome_attributed \<Rightarrow> collector_error option" where
  "validate_attribution L e p =
     (let k = oa_outcome_event_id p; cutoff = oa_ingest_cutoff p in
      case outcome_at L k of
        None \<Rightarrow> Some (Rejected ''unknown_outcome_event_id'' [k])
      | Some row \<Rightarrow>
          if o_account_ref row \<noteq> en_account_ref e
          then Some (Rejected ''attributed_outcome_belongs_to_another_account'' [k])
          else (case effective_now L k of
              Inl err \<Rightarrow> Some (attribution_failure err [k])
            | Inr effective \<Rightarrow>
                if effective \<noteq> k
                then Some (Rejected ''attributed_outcome_version_is_superseded'' [k, effective])
                else if oa_policy_version p \<noteq> POLICY_VERSION
                then Some (attribution_failure (UnsupportedPolicyVersion (oa_policy_version p)) [])
                else (case bindE (validate_cutoff L cutoff) (\<lambda>_. load_outcome L k cutoff) of
                    Inl err \<Rightarrow> Some (attribution_failure err [])
                  | Inr _ \<Rightarrow>
                      first_failure
                        [validate_operation L e p, validate_attribution_supersession L p,
                         validate_resolved_references L p (en_account_ref e), validate_recomputed L p])))"

fun validate_references :: "ledger \<Rightarrow> envelope \<Rightarrow> payload \<Rightarrow> collector_error option" where
  "validate_references L e (LogicArtifactRegistered a) = validate_artifact_identity L a"
| "validate_references L e (AccountDiscovered _) = None"
| "validate_references L e (EvidenceRecorded p) = validate_evidence L e p"
| "validate_references L e (DecisionRecorded p) = validate_decision L e p"
| "validate_references L e (PersonaSelected p) = validate_decision_reference L e (ps_decision_event_id p)"
| "validate_references L e (ActionRecorded p) = validate_decision_reference L e (ac_decision_event_id p)"
| "validate_references L e (OutcomeEvaluated p) = validate_action_reference L e (o1_action_event_id p)"
| "validate_references L e (OutcomeEvaluatedV2 p) = validate_outcome_supersession L e p"
| "validate_references L e (OutcomeAttributed p) = validate_attribution L e p"

subsection \<open>Projection\<close>

definition artifact_row_of :: "envelope \<Rightarrow> logic_artifact \<Rightarrow> artifact_row" where
  "artifact_row_of e a =
     \<lparr>l_hash = canonical_hash (dump_artifact a), l_artifact_id = la_artifact_id a,
      l_logic_version = la_logic_version a, l_decision_class = la_decision_class a,
      l_schema_version = la_schema_version a, l_evaluator_version = la_evaluator_version a,
      l_json = canonical_text (dump_artifact a), l_source_event = en_event_id e\<rparr>"

definition project_artifact :: "envelope \<Rightarrow> logic_artifact \<Rightarrow> ledger \<Rightarrow> db_error + ledger" where
  "project_artifact e a L =
     (if artifact_at L (canonical_hash (dump_artifact a)) \<noteq> None then Inr L
      else insert_artifact (artifact_row_of e a) L)"

definition project_evidence :: "envelope \<Rightarrow> evidence_recorded \<Rightarrow> ledger \<Rightarrow> db_error + ledger" where
  "project_evidence e p L = insert_many insert_evidence (map (evidence_row_of e) (er_items p)) L"

definition decision_row_of :: "envelope \<Rightarrow> decision_recorded \<Rightarrow> int \<Rightarrow> decision_row" where
  "decision_row_of e p s =
     \<lparr>d_event_id = en_event_id e, d_account_ref = en_account_ref e, d_class = de_decision_class p,
      d_boundary = format_utc (de_boundary p), d_workflow_version = de_workflow_version p,
      d_hash = ar_artifact_hash (de_artifact p), d_evaluator_version = ar_evaluator_version (de_artifact p),
      d_logic_version = ar_logic_version (de_artifact p), d_score = dr_score (de_result p),
      d_threshold = dr_threshold (de_result p), d_output = dr_output (de_result p),
      d_explanation = de_explanation p, d_seq = s\<rparr>"

definition context_row_of :: "string \<Rightarrow> context_entry \<Rightarrow> context_row" where
  "context_row_of k x =
     \<lparr>h_decision = k, h_input_key = ce_input_key x, h_availability = ce_availability x,
      h_value_text = (if ce_availability x = ''available'' then Some (canonical_text (ce_value x)) else None),
      h_evidence = ce_evidence x\<rparr>"

definition consumed_row_of :: "string \<Rightarrow> consumed_input \<Rightarrow> consumed_row" where
  "consumed_row_of k c =
     \<lparr>u_decision = k, u_input_key = ci_input_key c, u_value_text = canonical_text (ci_value c),
      u_evidence = ci_evidence c, u_contribution = ci_contribution c\<rparr>"

definition project_decision :: "envelope \<Rightarrow> decision_recorded \<Rightarrow> int \<Rightarrow> ledger \<Rightarrow> db_error + ledger" where
  "project_decision e p s L =
     bindE (insert_decision (decision_row_of e p s) L) (\<lambda>L1.
     bindE (insert_many insert_context (map (context_row_of (en_event_id e)) (de_context p)) L1) (\<lambda>L2.
       insert_many insert_consumed (map (consumed_row_of (en_event_id e)) (de_consumed p)) L2))"

definition project_persona :: "envelope \<Rightarrow> persona_selected \<Rightarrow> ledger \<Rightarrow> db_error + ledger" where
  "project_persona e p L = insert_persona
     \<lparr>p_event_id = en_event_id e, p_account_ref = en_account_ref e, p_decision = ps_decision_event_id p,
      p_persona = ps_persona p, p_explanation = ps_explanation p\<rparr> L"

definition action_row_of :: "envelope \<Rightarrow> action_recorded \<Rightarrow> action_row" where
  "action_row_of e p =
     \<lparr>x_event_id = en_event_id e, x_account_ref = en_account_ref e, x_decision = ac_decision_event_id p,
      x_action_type = ac_action_type p, x_play_id = ac_play_id p, x_target_persona = ac_target_persona p,
      x_status = ac_status p, x_cost = ac_cost p, x_currency = ac_currency p,
      x_occurred_at = format_utc (en_occurred_at e)\<rparr>"

definition project_action :: "envelope \<Rightarrow> action_recorded \<Rightarrow> ledger \<Rightarrow> db_error + ledger" where
  "project_action e p L = insert_action (action_row_of e p) L"

definition outcome_row_v1 :: "envelope \<Rightarrow> outcome_v1 \<Rightarrow> outcome_row" where
  "outcome_row_v1 e p =
     \<lparr>o_event_id = en_event_id e, o_account_ref = en_account_ref e, o_action = Some (o1_action_event_id p),
      o_window_days = Some (o1_window_days p), o_reply = Some (o1_reply p), o_meeting = Some (o1_meeting p),
      o_opportunity = Some (o1_opportunity p), o_occurred_at = format_utc (en_occurred_at e),
      o_recorded_at = format_utc (en_recorded_at e), o_schema_version = ''1'',
      o_window_opened_at = None, o_window_closes_at = None, o_evaluation_state = None, o_observed_at = None,
      o_source_action = None, o_source_action_reason = None, o_source_decision = None,
      o_source_decision_reason = None, o_supersedes = None\<rparr>"

definition outcome_row_v2 :: "envelope \<Rightarrow> outcome_v2 \<Rightarrow> string option \<Rightarrow> string option \<Rightarrow> outcome_row" where
  "outcome_row_v2 e p action_reason decision_reason =
     \<lparr>o_event_id = en_event_id e, o_account_ref = en_account_ref e, o_action = None, o_window_days = None,
      o_reply = o2_reply p, o_meeting = o2_meeting p, o_opportunity = o2_opportunity p,
      o_occurred_at = format_utc (en_occurred_at e), o_recorded_at = format_utc (en_recorded_at e),
      o_schema_version = ''2'', o_window_opened_at = Some (format_utc (o2_window_opened_at p)),
      o_window_closes_at = Some (format_utc (o2_window_closes_at p)),
      o_evaluation_state = Some (o2_evaluation_state p), o_observed_at = Some (format_utc (o2_observed_at p)),
      o_source_action = o2_source_action p, o_source_action_reason = action_reason,
      o_source_decision = o2_source_decision p, o_source_decision_reason = decision_reason,
      o_supersedes = o2_supersedes p\<rparr>"

definition project_outcome_v2 :: "envelope \<Rightarrow> outcome_v2 \<Rightarrow> int \<Rightarrow> ledger \<Rightarrow> collector_error + ledger" where
  "project_outcome_v2 e p s L =
     (case source_claim_problems L (en_account_ref e) (format_utc (o2_observed_at p))
         (o2_source_action p) (o2_source_decision p) s of
        Inl err \<Rightarrow> Inl (PolicyFailure err)
      | Inr (action_reason, decision_reason) \<Rightarrow>
          lift_db (insert_outcome (outcome_row_v2 e p action_reason decision_reason) L))"

definition attribution_row_of :: "envelope \<Rightarrow> outcome_attributed \<Rightarrow> attribution_row" where
  "attribution_row_of e p =
     \<lparr>t_event_id = en_event_id e, t_account_ref = en_account_ref e, t_source_event = en_event_id e,
      t_outcome = oa_outcome_event_id p, t_policy_version = oa_policy_version p, t_method = oa_method p,
      t_window_days = oa_window_days p, t_resolved_action = oa_resolved_action p,
      t_resolved_decision = oa_resolved_decision p, t_status = oa_status p, t_reason = oa_reason p,
      t_attributed_at = format_utc (oa_attributed_at p), t_cutoff = oa_ingest_cutoff p,
      t_supersedes = oa_supersedes p\<rparr>"

definition project_attribution :: "envelope \<Rightarrow> outcome_attributed \<Rightarrow> ledger \<Rightarrow> db_error + ledger" where
  "project_attribution e p L = insert_attribution (attribution_row_of e p) L"

fun project :: "envelope \<Rightarrow> payload \<Rightarrow> int \<Rightarrow> ledger \<Rightarrow> collector_error + ledger" where
  "project e (LogicArtifactRegistered a) s L = lift_db (project_artifact e a L)"
| "project e (AccountDiscovered _) s L = Inr L"
| "project e (EvidenceRecorded p) s L = lift_db (project_evidence e p L)"
| "project e (DecisionRecorded p) s L = lift_db (project_decision e p s L)"
| "project e (PersonaSelected p) s L = lift_db (project_persona e p L)"
| "project e (ActionRecorded p) s L = lift_db (project_action e p L)"
| "project e (OutcomeEvaluated p) s L = lift_db (insert_outcome (outcome_row_v1 e p) L)"
| "project e (OutcomeEvaluatedV2 p) s L = project_outcome_v2 e p s L"
| "project e (OutcomeAttributed p) s L = lift_db (project_attribution e p L)"

end
