(* ===== verification/Collector.thy ===== *)
theory Collector
  imports Projections
begin

text \<open>
  \<open>collector/service.py\<close>: the ingest of one envelope as a function from the ledger to a result
  and the ledger after the transaction.  Every failure leaves the ledger as it was (the context
  manager of \<open>engine.begin()\<close> rolls back), so the new ledger is part of the success value only.
  The capture forms and their contention handling are outside the model, and with them the
  renaming of database errors; the \<open>before_commit\<close> test seam is unset.
\<close>

subsection \<open>Ingest\<close>

datatype ingest_status = Created | Duplicate

record ingest_result =
  ir_status :: ingest_status
  ir_event_id :: string
  ir_hash :: string

definition http_status :: "ingest_result \<Rightarrow> int" where
  "http_status r = (case ir_status r of Created \<Rightarrow> 201 | Duplicate \<Rightarrow> 200)"

fun error_status :: "collector_error \<Rightarrow> int" where
  "error_status (Rejected _ _) = 422"
| "error_status (Conflict _ _) = 409"
| "error_status _ = 500"

definition account_at :: "ledger \<Rightarrow> string \<Rightarrow> account_row option" where
  "account_at L k = find (\<lambda>a. a_account_ref a = k) (lg_accounts L)"

fun check_account_rules :: "ledger \<Rightarrow> envelope \<Rightarrow> payload \<Rightarrow> collector_error option" where
  "check_account_rules L e (LogicArtifactRegistered _) = None"
| "check_account_rules L e (AccountDiscovered p) =
     (case account_at L (en_account_ref e) of
        None \<Rightarrow> None
      | Some row \<Rightarrow> raise_if ((a_name row, a_domain row) \<noteq> (ad_name p, ad_domain p))
          (Conflict ''account_identity_mismatch'' [en_account_ref e]))"
| "check_account_rules L e _ =
     (case account_at L (en_account_ref e) of
        None \<Rightarrow> Some (Rejected ''unknown_account_ref'' [en_account_ref e])
      | Some _ \<Rightarrow> None)"

fun materialize_account :: "envelope \<Rightarrow> payload \<Rightarrow> ledger \<Rightarrow> db_error + ledger" where
  "materialize_account e (LogicArtifactRegistered _) L =
     (if account_at L SYSTEM_ACCOUNT_REF = None
      then insert_account \<lparr>a_account_ref = SYSTEM_ACCOUNT_REF, a_name = SYSTEM_ACCOUNT_NAME,
        a_domain = SYSTEM_ACCOUNT_DOMAIN, a_first_seen = en_event_id e\<rparr> L
      else Inr L)"
| "materialize_account e (AccountDiscovered p) L =
     (if account_at L (en_account_ref e) = None
      then insert_account \<lparr>a_account_ref = en_account_ref e, a_name = ad_name p, a_domain = ad_domain p,
        a_first_seen = en_event_id e\<rparr> L
      else Inr L)"
| "materialize_account e _ L = Inr L"

definition envelope_hash :: "envelope \<Rightarrow> string" where
  "envelope_hash e = canonical_hash (dump_envelope e)"

text \<open>\<open>e_seq\<close> is assigned by the insert.\<close>

definition event_row_of :: "envelope \<Rightarrow> event_row" where
  "event_row_of e =
     \<lparr>e_seq = 0, e_event_id = en_event_id e, e_schema_version = schema_version (en_payload e),
      e_event_type = event_type (en_payload e), e_source = en_source e, e_account_ref = en_account_ref e,
      e_occurred_at = format_utc (en_occurred_at e), e_recorded_at = format_utc (en_recorded_at e),
      e_hash = envelope_hash e, e_payload = canonical_text (dump_payload (en_payload e))\<rparr>"

definition event_at :: "ledger \<Rightarrow> string \<Rightarrow> event_row option" where
  "event_at L k = find (\<lambda>r. e_event_id r = k) (lg_events L)"

text \<open>The writes of one transaction, after every check has passed.\<close>

definition write_event :: "envelope \<Rightarrow> ledger \<Rightarrow> collector_error + ledger" where
  "write_event e L =
     bindE (lift_db (materialize_account e (en_payload e) L)) (\<lambda>L1.
     bindE (lift_db (insert_event (event_row_of e) L1)) (\<lambda>L2.
     bindE (project e (en_payload e) (lg_seq L2) L2) (\<lambda>L3.
       lift_db (commit L3))))"

definition ingest :: "envelope \<Rightarrow> ledger \<Rightarrow> collector_error + (ingest_result \<times> ledger)" where
  "ingest e L =
     (let digest = envelope_hash e in
      case event_at L (en_event_id e) of
        Some existing \<Rightarrow>
          if e_hash existing = digest
          then Inr (\<lparr>ir_status = Duplicate, ir_event_id = en_event_id e, ir_hash = digest\<rparr>, L)
          else Inl (Conflict ''event_id_reused_with_different_content'' [en_event_id e, e_hash existing, digest])
      | None \<Rightarrow>
          (case first_failure [check_account_rules L e (en_payload e), validate_references L e (en_payload e)] of
             Some err \<Rightarrow> Inl err
           | None \<Rightarrow>
               bindE (write_event e L) (\<lambda>L'.
                 Inr (\<lparr>ir_status = Created, ir_event_id = en_event_id e, ir_hash = digest\<rparr>, L'))))"

text \<open>
  \<open>ingest_json\<close>: pydantic's decoding of the body into a model is the parameter \<open>decode\<close>; the
  model validators run on what it returns.
\<close>

definition ingest_json :: "(string \<Rightarrow> envelope option) \<Rightarrow> string \<Rightarrow> ledger
    \<Rightarrow> collector_error + (ingest_result \<times> ledger)" where
  "ingest_json decode body L =
     (case decode body of
        None \<Rightarrow> Inl (Rejected ''invalid_envelope'' [])
      | Some e \<Rightarrow> if valid_envelope e then ingest e L else Inl (Rejected ''invalid_envelope'' []))"

text \<open>A request: the ledger afterwards, whatever the answer.\<close>

definition after_ingest :: "envelope \<Rightarrow> ledger \<Rightarrow> ledger" where
  "after_ingest e L = (case ingest e L of Inl _ \<Rightarrow> L | Inr (_, L') \<Rightarrow> L')"

end
