(* ===== verification/Collector_Steps.thy ===== *)
theory Collector_Steps
  imports Collector
begin

text \<open>
  What one accepted envelope changes: the exact rows every table gains, and the invariants of the
  ledger carried through the writes of a transaction.  A property preserved by every statement is
  preserved by a transaction (\<open>write_invariant\<close>); the ledgers a collector can produce are the
  inductive \<open>reachable\<close>.
\<close>

subsection \<open>The shape of an ingest\<close>

lemma event_at_None: "event_at L k = None \<longleftrightarrow> k \<notin> event_ids L"
  by (auto simp: event_at_def event_ids_def find_None_iff)

lemma ingest_Inr_cases:
  assumes "ingest e L = Inr (res, L')"
  obtains (duplicate) row where "event_at L (en_event_id e) = Some row" "e_hash row = envelope_hash e" "L' = L"
      "ir_status res = Duplicate" "ir_event_id res = en_event_id e" "ir_hash res = envelope_hash e"
    | (created) "event_at L (en_event_id e) = None" "check_account_rules L e (en_payload e) = None"
      "validate_references L e (en_payload e) = None" "write_event e L = Inr L'"
      "ir_status res = Created" "ir_event_id res = en_event_id e" "ir_hash res = envelope_hash e"
  using assms unfolding ingest_def Let_def
  by (auto split: option.splits if_splits)

lemma write_event_Inr:
  "write_event e L = Inr L' \<longleftrightarrow>
     (\<exists>L1 L2. materialize_account e (en_payload e) L = Inr L1 \<and> insert_event (event_row_of e) L1 = Inr L2 \<and>
        project e (en_payload e) (lg_seq L2) L2 = Inr L' \<and> commit L' = Inr L')"
  by (auto simp: write_event_def commit_Inr)

subsection \<open>Properties every statement preserves\<close>

locale write_invariant =
  fixes P :: "ledger \<Rightarrow> bool" and k :: string
  assumes account: "insert_account ra L = Inr L' \<Longrightarrow> P L \<Longrightarrow> P L'"
    and event: "insert_event re L = Inr L' \<Longrightarrow> P L \<Longrightarrow> P L'"
    and evidence: "insert_evidence rv L = Inr L' \<Longrightarrow> P L \<Longrightarrow> P L'"
    and artifact: "insert_artifact rl L = Inr L' \<Longrightarrow> P L \<Longrightarrow> P L'"
    and decision: "insert_decision rd L = Inr L' \<Longrightarrow> d_event_id rd = k \<Longrightarrow> P L \<Longrightarrow> P L'"
    and ctx: "insert_context rh L = Inr L' \<Longrightarrow> h_decision rh = k \<Longrightarrow> P L \<Longrightarrow> P L'"
    and consumed: "insert_consumed ru L = Inr L' \<Longrightarrow> u_decision ru = k \<Longrightarrow> P L \<Longrightarrow> P L'"
    and persona: "insert_persona rp L = Inr L' \<Longrightarrow> p_event_id rp = k \<Longrightarrow> P L \<Longrightarrow> P L'"
    and action: "insert_action rx L = Inr L' \<Longrightarrow> x_event_id rx = k \<Longrightarrow> P L \<Longrightarrow> P L'"
    and outcome: "insert_outcome ro L = Inr L' \<Longrightarrow> o_event_id ro = k \<Longrightarrow> P L \<Longrightarrow> P L'"
    and attribution: "insert_attribution rt L = Inr L' \<Longrightarrow> t_event_id rt = k \<Longrightarrow> P L \<Longrightarrow> P L'"
begin

lemma materialize_keeps: "materialize_account e p L = Inr L' \<Longrightarrow> P L \<Longrightarrow> P L'"
  by (cases p) (auto split: if_splits intro: account)

lemma decision_keeps:
  assumes "project_decision e p s L = Inr L'" "en_event_id e = k" "P L"
  shows "P L'"
proof -
  obtain L1 L2 where w: "insert_decision (decision_row_of e p s) L = Inr L1"
    "insert_many insert_context (map (context_row_of (en_event_id e)) (de_context p)) L1 = Inr L2"
    "insert_many insert_consumed (map (consumed_row_of (en_event_id e)) (de_consumed p)) L2 = Inr L'"
    using assms(1) unfolding project_decision_def bindE_eq_Inr by blast
  have "P L1" by (rule decision [OF w(1) _ assms(3)]) (simp add: decision_row_of_def assms(2))
  with w(2) have "P L2"
    by (rule insert_many_invariant) (auto simp: context_row_of_def assms(2) intro: ctx)
  with w(3) show ?thesis
    by (rule insert_many_invariant) (auto simp: consumed_row_of_def assms(2) intro: consumed)
qed

lemma project_keeps:
  assumes "project e p s L = Inr L'" "en_event_id e = k" "P L"
  shows "P L'"
proof (cases p)
  case (EvidenceRecorded x)
  then have "insert_many insert_evidence (map (evidence_row_of e) (er_items x)) L = Inr L'"
    using assms(1) by (simp add: project_evidence_def)
  then show ?thesis by (rule insert_many_invariant) (use assms(3) evidence in auto)
next
  case (DecisionRecorded x)
  then show ?thesis using assms decision_keeps by simp
qed (use assms in \<open>auto simp: project_artifact_def project_persona_def project_action_def action_row_of_def
    outcome_row_v1_def project_outcome_v2_def outcome_row_v2_def project_attribution_def attribution_row_of_def
    split: if_splits sum.splits prod.splits intro: artifact persona action outcome attribution\<close>)

lemma write_keeps: "write_event e L = Inr L' \<Longrightarrow> en_event_id e = k \<Longrightarrow> P L \<Longrightarrow> P L'"
  unfolding write_event_Inr using materialize_keeps event project_keeps by blast

end

interpretation keys: write_invariant ledger_keys k for k
  by unfold_locales (rule keys_insert_account keys_insert_event keys_insert_evidence keys_insert_artifact
    keys_insert_decision keys_insert_context keys_insert_consumed keys_insert_persona keys_insert_action
    keys_insert_outcome keys_insert_attribution; assumption)+

interpretation refs: write_invariant ledger_refs k for k
  by unfold_locales (rule refs_insert_account refs_insert_event refs_insert_evidence refs_insert_artifact
    refs_insert_decision refs_insert_context refs_insert_consumed refs_insert_persona refs_insert_action
    refs_insert_outcome refs_insert_attribution; assumption)+

interpretation grows: write_invariant "\<lambda>L. k \<notin> event_ids L0 \<longrightarrow> extends L0 L" k for L0 k
  by unfold_locales
    (blast intro: extends_insert_account extends_insert_event extends_insert_evidence extends_insert_artifact
      extends_insert_decision extends_insert_context extends_insert_consumed extends_insert_persona
      extends_insert_action extends_insert_outcome extends_insert_attribution)+

lemma ingest_extends:
  assumes "ingest e L = Inr (res, L')"
  shows "extends L L'"
  using assms
proof (cases rule: ingest_Inr_cases)
  case duplicate
  then show ?thesis by simp
next
  case created
  then have "en_event_id e \<notin> event_ids L" by (simp add: event_at_None)
  then show ?thesis using grows.write_keeps [OF created(4) refl, of L] by simp
qed

subsection \<open>The rows an envelope adds\<close>

lemma insert_many_rows:
  assumes "\<And>r M M'. ins r M = Inr M' \<Longrightarrow> M' = upd [r] M"
    "\<And>M. upd [] M = M" "\<And>r rs M. upd rs (upd [r] M) = upd (r # rs) M"
  shows "insert_many ins rs L = Inr L' \<Longrightarrow> L' = upd rs L"
proof (induction rs arbitrary: L)
  case Nil
  then show ?case by (simp add: assms(2))
next
  case (Cons r rs)
  then obtain M where "ins r L = Inr M" "insert_many ins rs M = Inr L'" by auto
  then show ?case using Cons.IH assms(1,3) by metis
qed

lemma insert_many_evidence: "insert_many insert_evidence rs L = Inr L' \<Longrightarrow> L' = L\<lparr>lg_evidence := lg_evidence L @ rs\<rparr>"
  by (rule insert_many_rows [where upd = "\<lambda>rs L. L\<lparr>lg_evidence := lg_evidence L @ rs\<rparr>"])
    (simp_all add: insert_evidence_def)

lemma insert_many_context: "insert_many insert_context rs L = Inr L' \<Longrightarrow> L' = L\<lparr>lg_context := lg_context L @ rs\<rparr>"
  by (rule insert_many_rows [where upd = "\<lambda>rs L. L\<lparr>lg_context := lg_context L @ rs\<rparr>"])
    (simp_all add: insert_context_def)

lemma insert_many_consumed: "insert_many insert_consumed rs L = Inr L' \<Longrightarrow> L' = L\<lparr>lg_consumed := lg_consumed L @ rs\<rparr>"
  by (rule insert_many_rows [where upd = "\<lambda>rs L. L\<lparr>lg_consumed := lg_consumed L @ rs\<rparr>"])
    (simp_all add: insert_consumed_def)

lemma project_decision_Inr:
  assumes "project_decision e p s L = Inr L'"
  shows "L' = L\<lparr>lg_decisions := lg_decisions L @ [decision_row_of e p s],
    lg_context := lg_context L @ map (context_row_of (en_event_id e)) (de_context p),
    lg_consumed := lg_consumed L @ map (consumed_row_of (en_event_id e)) (de_consumed p)\<rparr>"
proof -
  obtain L1 L2 where w: "insert_decision (decision_row_of e p s) L = Inr L1"
    "insert_many insert_context (map (context_row_of (en_event_id e)) (de_context p)) L1 = Inr L2"
    "insert_many insert_consumed (map (consumed_row_of (en_event_id e)) (de_consumed p)) L2 = Inr L'"
    using assms unfolding project_decision_def bindE_eq_Inr by blast
  then show ?thesis
    using insert_many_context [OF w(2)] insert_many_consumed [OF w(3)] by (simp add: insert_decision_def)
qed

text \<open>The ledger after the account and event rows: what the projection starts from.\<close>

definition with_event :: "envelope \<Rightarrow> ledger \<Rightarrow> ledger \<Rightarrow> bool" where
  "with_event e L M \<longleftrightarrow>
     (\<exists>as. M = L\<lparr>lg_accounts := lg_accounts L @ as, lg_seq := lg_seq L + 1,
        lg_events := lg_events L @ [(event_row_of e)\<lparr>e_seq := lg_seq L + 1\<rparr>]\<rparr>)"

lemma materialize_Inr:
  assumes "materialize_account e p L = Inr L'"
  shows "\<exists>as. L' = L\<lparr>lg_accounts := lg_accounts L @ as\<rparr>"
proof (cases "L' = L")
  case True
  then have "L' = L\<lparr>lg_accounts := lg_accounts L @ []\<rparr>" by simp
  then show ?thesis ..
next
  case False
  then show ?thesis using assms by (cases p) (auto simp: insert_account_def split: if_splits)
qed

lemma write_event_steps:
  assumes "write_event e L = Inr L'"
  obtains M where "with_event e L M" "project e (en_payload e) (lg_seq L + 1) M = Inr L'" "commit L' = Inr L'"
proof -
  obtain L1 L2 where w: "materialize_account e (en_payload e) L = Inr L1" "insert_event (event_row_of e) L1 = Inr L2"
    "project e (en_payload e) (lg_seq L2) L2 = Inr L'" "commit L' = Inr L'"
    using assms unfolding write_event_Inr by blast
  obtain as where as: "L1 = L\<lparr>lg_accounts := lg_accounts L @ as\<rparr>" using materialize_Inr [OF w(1)] ..
  have L2: "L2 = L\<lparr>lg_accounts := lg_accounts L @ as, lg_seq := lg_seq L + 1,
      lg_events := lg_events L @ [(event_row_of e)\<lparr>e_seq := lg_seq L + 1\<rparr>]\<rparr>"
    using w(2) by (simp add: insert_event_def as)
  then have "with_event e L L2" unfolding with_event_def ..
  moreover have "project e (en_payload e) (lg_seq L + 1) L2 = Inr L'" using w(3) by (simp add: L2)
  ultimately show thesis using w(4) by (rule that)
qed

lemma with_event_tables:
  assumes "with_event e L M"
  shows "lg_seq M = lg_seq L + 1" "lg_events M = lg_events L @ [(event_row_of e)\<lparr>e_seq := lg_seq L + 1\<rparr>]"
    "lg_evidence M = lg_evidence L" "lg_artifacts M = lg_artifacts L" "lg_decisions M = lg_decisions L"
    "lg_context M = lg_context L" "lg_consumed M = lg_consumed L" "lg_personas M = lg_personas L"
    "lg_actions M = lg_actions L" "lg_outcomes M = lg_outcomes L" "lg_attributions M = lg_attributions L"
    "set (lg_accounts L) \<subseteq> set (lg_accounts M)"
  using assms by (auto simp: with_event_def)

text \<open>Rows added, per table; the two reasons of a v2 outcome are those the policy computes.\<close>

fun new_evidence :: "envelope \<Rightarrow> payload \<Rightarrow> evidence_row list" where
  "new_evidence e (EvidenceRecorded p) = map (evidence_row_of e) (er_items p)"
| "new_evidence e _ = []"

fun new_artifacts :: "ledger \<Rightarrow> envelope \<Rightarrow> payload \<Rightarrow> artifact_row list" where
  "new_artifacts L e (LogicArtifactRegistered a) =
     (if artifact_at L (canonical_hash (dump_artifact a)) \<noteq> None then [] else [artifact_row_of e a])"
| "new_artifacts L e _ = []"

fun new_decisions :: "envelope \<Rightarrow> payload \<Rightarrow> int \<Rightarrow> decision_row list" where
  "new_decisions e (DecisionRecorded p) s = [decision_row_of e p s]"
| "new_decisions e _ s = []"

fun new_context :: "envelope \<Rightarrow> payload \<Rightarrow> context_row list" where
  "new_context e (DecisionRecorded p) = map (context_row_of (en_event_id e)) (de_context p)"
| "new_context e _ = []"

fun new_consumed :: "envelope \<Rightarrow> payload \<Rightarrow> consumed_row list" where
  "new_consumed e (DecisionRecorded p) = map (consumed_row_of (en_event_id e)) (de_consumed p)"
| "new_consumed e _ = []"

fun new_actions :: "envelope \<Rightarrow> payload \<Rightarrow> action_row list" where
  "new_actions e (ActionRecorded p) = [action_row_of e p]"
| "new_actions e _ = []"

fun new_attributions :: "envelope \<Rightarrow> payload \<Rightarrow> attribution_row list" where
  "new_attributions e (OutcomeAttributed p) = [attribution_row_of e p]"
| "new_attributions e _ = []"

fun is_new_outcome :: "envelope \<Rightarrow> payload \<Rightarrow> outcome_row list \<Rightarrow> bool" where
  "is_new_outcome e (OutcomeEvaluated p) rs \<longleftrightarrow> rs = [outcome_row_v1 e p]"
| "is_new_outcome e (OutcomeEvaluatedV2 p) rs \<longleftrightarrow> (\<exists>a d. rs = [outcome_row_v2 e p a d])"
| "is_new_outcome e _ rs \<longleftrightarrow> rs = []"

lemma project_tables:
  assumes "project e p s M = Inr L'"
  shows "lg_seq L' = lg_seq M" "lg_events L' = lg_events M" "lg_accounts L' = lg_accounts M"
    "lg_evidence L' = lg_evidence M @ new_evidence e p"
    "lg_artifacts L' = lg_artifacts M @ new_artifacts M e p"
    "lg_decisions L' = lg_decisions M @ new_decisions e p s"
    "lg_context L' = lg_context M @ new_context e p"
    "lg_consumed L' = lg_consumed M @ new_consumed e p"
    "lg_actions L' = lg_actions M @ new_actions e p"
    "lg_attributions L' = lg_attributions M @ new_attributions e p"
    "\<exists>rs. lg_outcomes L' = lg_outcomes M @ rs \<and> is_new_outcome e p rs"
proof -
  have d: "project_decision e x s M = Inr L' \<Longrightarrow> L' = M\<lparr>lg_decisions := lg_decisions M @ [decision_row_of e x s],
    lg_context := lg_context M @ map (context_row_of (en_event_id e)) (de_context x),
    lg_consumed := lg_consumed M @ map (consumed_row_of (en_event_id e)) (de_consumed x)\<rparr>" for x
    by (rule project_decision_Inr)
  have v: "project_evidence e x M = Inr L' \<Longrightarrow> L' = M\<lparr>lg_evidence := lg_evidence M @ map (evidence_row_of e) (er_items x)\<rparr>" for x
    unfolding project_evidence_def by (rule insert_many_evidence)
  note defs = project_artifact_def project_persona_def project_action_def project_outcome_v2_def
    project_attribution_def insert_artifact_def insert_persona_def insert_action_def insert_outcome_def
    insert_attribution_def
  show "lg_seq L' = lg_seq M" "lg_events L' = lg_events M" "lg_accounts L' = lg_accounts M"
    "lg_evidence L' = lg_evidence M @ new_evidence e p"
    "lg_artifacts L' = lg_artifacts M @ new_artifacts M e p"
    "lg_decisions L' = lg_decisions M @ new_decisions e p s"
    "lg_context L' = lg_context M @ new_context e p"
    "lg_consumed L' = lg_consumed M @ new_consumed e p"
    "lg_actions L' = lg_actions M @ new_actions e p"
    "lg_attributions L' = lg_attributions M @ new_attributions e p"
    "\<exists>rs. lg_outcomes L' = lg_outcomes M @ rs \<and> is_new_outcome e p rs"
    using assms by (cases p; auto simp: defs dest!: d v split: if_splits sum.splits prod.splits)+
qed

lemma new_artifacts_cong: "lg_artifacts M = lg_artifacts L \<Longrightarrow> new_artifacts M e p = new_artifacts L e p"
  by (cases p) (auto simp: artifact_at_def)

lemma write_event_tables:
  assumes "write_event e L = Inr L'"
  shows "lg_seq L' = lg_seq L + 1"
    "lg_events L' = lg_events L @ [(event_row_of e)\<lparr>e_seq := lg_seq L + 1\<rparr>]"
    "lg_evidence L' = lg_evidence L @ new_evidence e (en_payload e)"
    "lg_artifacts L' = lg_artifacts L @ new_artifacts L e (en_payload e)"
    "lg_decisions L' = lg_decisions L @ new_decisions e (en_payload e) (lg_seq L + 1)"
    "lg_context L' = lg_context L @ new_context e (en_payload e)"
    "lg_consumed L' = lg_consumed L @ new_consumed e (en_payload e)"
    "lg_actions L' = lg_actions L @ new_actions e (en_payload e)"
    "lg_attributions L' = lg_attributions L @ new_attributions e (en_payload e)"
    "\<exists>rs. lg_outcomes L' = lg_outcomes L @ rs \<and> is_new_outcome e (en_payload e) rs"
proof -
  obtain M where M: "with_event e L M" "project e (en_payload e) (lg_seq L + 1) M = Inr L'"
    using write_event_steps [OF assms] .
  note t = with_event_tables [OF M(1)] project_tables [OF M(2)]
  show "lg_seq L' = lg_seq L + 1"
    "lg_events L' = lg_events L @ [(event_row_of e)\<lparr>e_seq := lg_seq L + 1\<rparr>]"
    "lg_evidence L' = lg_evidence L @ new_evidence e (en_payload e)"
    "lg_artifacts L' = lg_artifacts L @ new_artifacts L e (en_payload e)"
    "lg_decisions L' = lg_decisions L @ new_decisions e (en_payload e) (lg_seq L + 1)"
    "lg_context L' = lg_context L @ new_context e (en_payload e)"
    "lg_consumed L' = lg_consumed L @ new_consumed e (en_payload e)"
    "lg_actions L' = lg_actions L @ new_actions e (en_payload e)"
    "lg_attributions L' = lg_attributions L @ new_attributions e (en_payload e)"
    "\<exists>rs. lg_outcomes L' = lg_outcomes L @ rs \<and> is_new_outcome e (en_payload e) rs"
    using t by (simp_all add: new_artifacts_cong [OF t(4)])
qed

end
