(* ===== verification/Reachable.thy ===== *)
theory Reachable
  imports Collector_Steps
begin

text \<open>
  The ledgers a collector can produce from an empty database by accepting validated envelopes, in
  any order and with any retries, and the invariants they have.  \<open>reachable_write\<close> reduces an
  invariant to the transactions that write.
\<close>

inductive reachable :: "ledger \<Rightarrow> bool" where
  empty: "reachable empty_ledger"
| step: "reachable L \<Longrightarrow> valid_envelope e \<Longrightarrow> ingest e L = Inr (res, L') \<Longrightarrow> reachable L'"

lemma reachable_write [consumes 1, case_names empty accept]:
  assumes "reachable L" "P empty_ledger"
    "\<And>L e L'. reachable L \<Longrightarrow> P L \<Longrightarrow> valid_envelope e \<Longrightarrow> en_event_id e \<notin> event_ids L \<Longrightarrow>
       check_account_rules L e (en_payload e) = None \<Longrightarrow> validate_references L e (en_payload e) = None \<Longrightarrow>
       write_event e L = Inr L' \<Longrightarrow> P L'"
  shows "P L"
  using assms(1)
proof (induction rule: reachable.induct)
  case empty
  show ?case by (rule assms(2))
next
  case (step L e res L')
  from step.hyps(3) show ?case
  proof (cases rule: ingest_Inr_cases)
    case duplicate
    then show ?thesis using step.IH by simp
  next
    case created
    then show ?thesis using step assms(3) by (simp add: event_at_None)
  qed
qed

lemma reachable_keys: "reachable L \<Longrightarrow> ledger_keys L"
proof (induction rule: reachable_write)
  case empty
  show ?case by (rule empty_ledger_ok)
next
  case (accept L e L')
  then show ?case using keys.write_keeps [OF _ refl] by blast
qed

lemma reachable_refs: "reachable L \<Longrightarrow> ledger_refs L"
proof (induction rule: reachable_write)
  case empty
  show ?case by (rule empty_ledger_ok)
next
  case (accept L e L')
  then show ?case using refs.write_keeps [OF _ refl] by blast
qed

lemma reachable_deferred: "reachable L \<Longrightarrow> deferred_refs L"
proof (induction rule: reachable_write)
  case empty
  show ?case by (simp add: deferred_refs_def empty_ledger_def)
next
  case (accept L e L')
  then have "commit L' = Inr L'" unfolding write_event_Inr by blast
  then show ?case by (auto simp: commit_Inr deferred_refs_def event_ids_def)
qed

subsection \<open>Stored timestamps\<close>

definition stored_time :: "string \<Rightarrow> bool" where
  "stored_time s \<longleftrightarrow> (\<exists>u. valid_utc u \<and> s = format_utc u)"

lemma stored_time_format [simp]: "valid_utc u \<Longrightarrow> stored_time (format_utc u)"
  by (auto simp: stored_time_def)

definition stored_opt :: "string option \<Rightarrow> bool" where
  "stored_opt t \<longleftrightarrow> (\<forall>s. t = Some s \<longrightarrow> stored_time s)"

text \<open>Every column that holds an instant, and the dates of observation.\<close>

definition outcome_times :: "outcome_row \<Rightarrow> bool" where
  "outcome_times r \<longleftrightarrow> stored_time (o_occurred_at r) \<and> stored_time (o_recorded_at r) \<and>
     stored_opt (o_window_opened_at r) \<and> stored_opt (o_window_closes_at r) \<and> stored_opt (o_observed_at r) \<and>
     (o_schema_version r = ''1'' \<or> o_observed_at r \<noteq> None)"

definition ledger_times :: "ledger \<Rightarrow> bool" where
  "ledger_times L \<longleftrightarrow>
     (\<forall>e\<in>set (lg_events L). stored_time (e_occurred_at e) \<and> stored_time (e_recorded_at e)) \<and>
     (\<forall>v\<in>set (lg_evidence L). stored_time (v_available_at v) \<and>
        (\<forall>s. v_observed_at v = Some s \<longrightarrow> (\<exists>d. valid_date d \<and> s = iso_date d))) \<and>
     (\<forall>d\<in>set (lg_decisions L). stored_time (d_boundary d)) \<and>
     (\<forall>x\<in>set (lg_actions L). stored_time (x_occurred_at x)) \<and>
     (\<forall>r\<in>set (lg_outcomes L). outcome_times r) \<and>
     (\<forall>t\<in>set (lg_attributions L). stored_time (t_attributed_at t))"

lemma outcome_timesD:
  "outcome_times r \<Longrightarrow> stored_time (o_occurred_at r) \<and>
     (o_schema_version r = ''1'' \<or> (\<exists>s. o_observed_at r = Some s \<and> stored_time s))"
  by (auto simp: outcome_times_def stored_opt_def)

lemma observed_date_valid: "value_fields w \<Longrightarrow> item_observed_at w = Some d \<Longrightarrow> valid_date d"
  by (cases w) auto

lemma write_times:
  assumes "ledger_times L" "valid_envelope e" "write_event e L = Inr L'"
  shows "ledger_times L'"
proof -
  note t = write_event_tables [OF assms(3)]
  have f: "envelope_fields e" using assms(2) by (simp add: valid_envelope_iff)
  then have u: "valid_utc (en_occurred_at e)" "valid_utc (en_recorded_at e)" "payload_fields (en_payload e)"
    by (simp_all add: envelope_fields_def)
  obtain rs where rs: "lg_outcomes L' = lg_outcomes L @ rs" "is_new_outcome e (en_payload e) rs"
    using t(10) by blast
  have o: "\<forall>r\<in>set rs. outcome_times r"
    using rs(2) u
    by (cases "en_payload e") (auto simp: outcome_row_v1_def outcome_row_v2_def outcome_v2_fields_def outcome_times_def stored_opt_def)
  have a: "\<forall>t\<in>set (new_attributions e (en_payload e)). stored_time (t_attributed_at t)"
    using u by (cases "en_payload e") (auto simp: attribution_row_of_def attributed_fields_def)
  have v: "\<forall>v\<in>set (new_evidence e (en_payload e)). stored_time (v_available_at v) \<and>
      (\<forall>s. v_observed_at v = Some s \<longrightarrow> (\<exists>d. valid_date d \<and> s = iso_date d))"
    using u by (cases "en_payload e")
      (auto simp: evidence_row_of_def list_all_iff item_fields_def dest: observed_date_valid)
  have d: "\<forall>d\<in>set (new_decisions e (en_payload e) (lg_seq L + 1)). stored_time (d_boundary d)"
    using u by (cases "en_payload e") (auto simp: decision_row_of_def decision_fields_def)
  have x: "\<forall>x\<in>set (new_actions e (en_payload e)). stored_time (x_occurred_at x)"
    using u by (cases "en_payload e") (auto simp: action_row_of_def)
  show ?thesis
    using assms(1) o v d x a u(1,2) unfolding ledger_times_def t(2,3,5,8,9) rs(1) by (auto simp: event_row_of_def)
qed

lemma reachable_times: "reachable L \<Longrightarrow> ledger_times L"
proof (induction rule: reachable_write)
  case empty
  show ?case by (simp add: ledger_times_def empty_ledger_def)
next
  case (accept L e L')
  then show ?case using write_times by blast
qed

subsection \<open>Supersession chains\<close>

lemma find_key_None: "find (\<lambda>r. key r = k) rows = None \<longleftrightarrow> k \<notin> key ` set rows"
  by (auto simp: find_None_iff)

lemma new_outcome_facts:
  assumes "is_new_outcome e p rs" "r \<in> set rs"
  shows "o_event_id r = en_event_id e" "o_account_ref r = en_account_ref e"
    "o_supersedes r = Some k \<Longrightarrow> \<exists>q. p = OutcomeEvaluatedV2 q \<and> o2_supersedes q = Some k"
  using assms by (cases p; auto simp: outcome_row_v1_def outcome_row_v2_def)+

lemma supersession_target:
  assumes "validate_outcome_supersession L e q = None" "o2_supersedes q = Some k"
  shows "k \<in> o_event_id ` set (lg_outcomes L)" "effective_now L k = Inr k"
  using assms by (auto simp: validate_outcome_supersession_def outcome_at_def dest: find_Some_in
      split: option.splits if_splits sum.splits)

lemma new_event_seq:
  assumes "ledger_keys L" "en_event_id e \<notin> event_ids L" "write_event e L = Inr L'"
  shows "seq_of L' (en_event_id e) = Some (lg_seq L + 1)"
proof -
  have n: "find (\<lambda>x. e_event_id x = en_event_id e) (lg_events L) = None"
    using assms(2) by (simp add: event_ids_def find_key_None)
  show ?thesis
    unfolding seq_of_def write_event_tables(2) [OF assms(3)]
    by (simp add: find_append n event_row_of_def)
qed

lemma write_extends: "write_event e L = Inr L' \<Longrightarrow> en_event_id e \<notin> event_ids L \<Longrightarrow> extends L L'"
  using grows.write_keeps [OF _ refl, of e L L' L] by simp

lemma write_chains:
  assumes "chains_ordered L" "ledger_keys L" "ledger_refs L" "en_event_id e \<notin> event_ids L"
    "validate_references L e (en_payload e) = None" "write_event e L = Inr L'"
  shows "chains_ordered L'"
  unfolding chains_ordered_def
proof (intro ballI allI impI)
  fix r k assume r: "r \<in> set (lg_outcomes L')" "o_supersedes r = Some k"
  note ext = write_extends [OF assms(6,4)]
  obtain rs where rs: "lg_outcomes L' = lg_outcomes L @ rs" "is_new_outcome e (en_payload e) rs"
    using write_event_tables(10) [OF assms(6)] by blast
  show "\<exists>s s'. seq_of L' k = Some s \<and> seq_of L' (o_event_id r) = Some s' \<and> s < s'"
  proof (cases "r \<in> set (lg_outcomes L)")
    case True
    then obtain s s' where s: "seq_of L k = Some s" "seq_of L (o_event_id r) = Some s'" "s < s'"
      using assms(1) r(2) unfolding chains_ordered_def by blast
    then have "k \<in> event_ids L" "o_event_id r \<in> event_ids L"
      using seq_of_None [of L] by (metis option.distinct(1))+
    then show ?thesis using s seq_of_kept [OF ext] by simp
  next
    case False
    then have n: "r \<in> set rs" using r(1) rs(1) by auto
    obtain q where q: "en_payload e = OutcomeEvaluatedV2 q" "o2_supersedes q = Some k"
      using new_outcome_facts(3) [OF rs(2) n r(2)] by blast
    then have "k \<in> o_event_id ` set (lg_outcomes L)"
      using supersession_target(1) assms(5) by simp
    then have k: "k \<in> event_ids L" using refs_keys(3) [OF assms(3)] by auto
    then obtain s where s: "seq_of L k = Some s" using seq_of_None by fastforce
    then have "s \<le> lg_seq L" using seq_of_bound [OF assms(2)] by blast
    then show ?thesis
      using s k seq_of_kept [OF ext] new_event_seq [OF assms(2,4,6)] new_outcome_facts(1) [OF rs(2) n] by simp
  qed
qed

lemma reachable_chains: "reachable L \<Longrightarrow> chains_ordered L"
proof (induction rule: reachable_write)
  case empty
  show ?case by (simp add: chains_ordered_def empty_ledger_def)
next
  case (accept L e L')
  then show ?case using write_chains reachable_keys reachable_refs by blast
qed

end
