(* ===== verification/Ledger_Soundness.thy ===== *)
theory Ledger_Soundness
  imports Reachable
begin

text \<open>
  What every reachable ledger says of its decisions, artifacts and attributions: the references a
  stored decision makes resolve to evidence of its account that was available by its boundary
  (INV-02, INV-04), the registered artifacts are what their hash says (INV-05), and every stored
  attribution is the policy's own result at its cutoff, reproducible in the ledger as it stands.
\<close>

subsection \<open>Decisions and their evidence\<close>

text \<open>One reference of a decision: evidence version, input key and preserved text.\<close>

definition reference_sound :: "ledger \<Rightarrow> decision_row \<Rightarrow> string \<Rightarrow> string \<Rightarrow> string \<Rightarrow> bool" where
  "reference_sound L d v input_key txt \<longleftrightarrow>
     (\<exists>x\<in>set (lg_evidence L). v_version_id x = v \<and> v_account_ref x = d_account_ref d \<and>
        v_available_at x \<le> d_boundary d \<and> v_type x = input_key \<and>
        (\<exists>j. stored_evidence_value (v_value_json x) = Some j \<and> txt = canonical_text j))"

definition decision_sound :: "ledger \<Rightarrow> decision_row \<Rightarrow> bool" where
  "decision_sound L d \<longleftrightarrow>
     (\<forall>h\<in>set (lg_context L). h_decision h = d_event_id d \<longrightarrow>
        (h_availability h = ''available'' \<longrightarrow>
           (\<exists>v t. h_evidence h = Some v \<and> h_value_text h = Some t \<and> reference_sound L d v (h_input_key h) t)) \<and>
        (h_availability h \<noteq> ''available'' \<longrightarrow> h_evidence h = None \<and> h_value_text h = None)) \<and>
     (\<forall>u\<in>set (lg_consumed L). u_decision u = d_event_id d \<longrightarrow>
        reference_sound L d (u_evidence u) (u_input_key u) (u_value_text u)) \<and>
     (\<exists>a\<in>set (lg_artifacts L). l_hash a = d_hash d \<and> l_logic_version a = d_logic_version d \<and>
        l_evaluator_version a = d_evaluator_version d \<and> l_decision_class a = d_class d)"

lemma reference_sound_mono:
  "set (lg_evidence L) \<subseteq> set (lg_evidence L') \<Longrightarrow> reference_sound L d v ik t \<Longrightarrow> reference_sound L' d v ik t"
  unfolding reference_sound_def by blast

lemma validate_reference_None:
  assumes "validate_reference L e b (ik, Some v, j) = None"
  shows "\<exists>x\<in>set (lg_evidence L). v_version_id x = v \<and> v_account_ref x = en_account_ref e \<and>
    v_available_at x \<le> format_utc b \<and> v_type x = ik \<and> stored_evidence_value (v_value_json x) = Some j"
  using assms by (auto simp: validate_reference_def Let_def evidence_at_def same_scalar_eq not_less
      dest!: find_Some_in split: option.splits if_splits)

lemma refs_decisions:
  assumes "ledger_refs L"
  shows "\<forall>h\<in>set (lg_context L). h_decision h \<in> event_ids L"
    "\<forall>u\<in>set (lg_consumed L). u_decision u \<in> event_ids L"
proof -
  have "\<forall>h\<in>set (lg_context L). h_decision h \<in> d_event_id ` set (lg_decisions L)"
    "\<forall>u\<in>set (lg_consumed L). u_decision u \<in> d_event_id ` set (lg_decisions L)"
    using assms by (auto simp: ledger_refs_def Let_def)
  then show "\<forall>h\<in>set (lg_context L). h_decision h \<in> event_ids L"
    "\<forall>u\<in>set (lg_consumed L). u_decision u \<in> event_ids L"
    using refs_keys(1) [OF assms] by fastforce+
qed

text \<open>The references a validated decision's rows carry.\<close>

lemma new_decision_sound:
  assumes "valid_envelope e" "en_payload e = DecisionRecorded p" "validate_decision L e p = None"
    "write_event e L = Inr L'" "ledger_refs L" "en_event_id e \<notin> event_ids L"
  shows "decision_sound L' (decision_row_of e p s)"
proof -
  note t = write_event_tables [OF assms(4)]
  let ?d = "decision_row_of e p s"
  have pv: "payload_validators (DecisionRecorded p) = None" "payload_fields (DecisionRecorded p)"
    using assms(1,2) by (simp_all add: valid_envelope_iff envelope_fields_def)
  have coh: "availability_is_coherent x = None" "ce_availability x \<in> {''available'', ''unavailable''}"
    if "x \<in> set (de_context p)" for x
    using decision_validated(3) [OF pv(1)] pv(2) that
    by (simp_all add: decision_fields_def list_all_iff context_entry_fields_def)
  have refs: "\<forall>x\<in>set (decision_references p). validate_reference L e (de_boundary p) x = None"
    using assms(3) by (auto simp: validate_decision_def split: option.splits)
  have snd: "reference_sound L' ?d v ik (canonical_text j)"
    if "(ik, Some v, j) \<in> set (decision_references p)" for ik v j
  proof -
    have "reference_sound L ?d v ik (canonical_text j)"
      using validate_reference_None [of L e "de_boundary p" ik v j] refs that
      by (auto simp: reference_sound_def decision_row_of_def)
    then show ?thesis by (rule reference_sound_mono [rotated]) (simp add: t(3))
  qed
  have D: "h_decision h \<noteq> en_event_id e" if "h \<in> set (lg_context L)" for h
    using refs_decisions(1) [OF assms(5)] that assms(6) by auto
  have U: "u_decision u \<noteq> en_event_id e" if "u \<in> set (lg_consumed L)" for u
    using refs_decisions(2) [OF assms(5)] that assms(6) by auto
  have ctx: "(h_availability h = ''available'' \<longrightarrow>
        (\<exists>v t. h_evidence h = Some v \<and> h_value_text h = Some t \<and> reference_sound L' ?d v (h_input_key h) t)) \<and>
      (h_availability h \<noteq> ''available'' \<longrightarrow> h_evidence h = None \<and> h_value_text h = None)"
    if h: "h \<in> set (lg_context L')" "h_decision h = en_event_id e" for h
  proof -
    obtain x where x: "x \<in> set (de_context p)" "h = context_row_of (en_event_id e) x"
      using h D assms(2) by (auto simp: t(6))
    show ?thesis
    proof (cases "ce_availability x = ''available''")
      case True
      then obtain v where v: "ce_evidence x = Some v"
        using coh(1) [OF x(1)] by (auto simp: availability_is_coherent_def split: if_splits)
      then have "(ce_input_key x, Some v, ce_value x) \<in> set (decision_references p)"
        using x(1) True by (force simp: decision_references_def)
      from snd [OF this] show ?thesis using True v x(2) by (simp add: context_row_of_def)
    next
      case False
      then show ?thesis using coh [OF x(1)] x(2)
        by (auto simp: availability_is_coherent_def context_row_of_def split: if_splits)
    qed
  qed
  have con: "reference_sound L' ?d (u_evidence u) (u_input_key u) (u_value_text u)"
    if u: "u \<in> set (lg_consumed L')" "u_decision u = en_event_id e" for u
  proof -
    obtain c where c: "c \<in> set (de_consumed p)" "u = consumed_row_of (en_event_id e) c"
      using u U assms(2) by (auto simp: t(7))
    then have "(ci_input_key c, Some (ci_evidence c), ci_value c) \<in> set (decision_references p)"
      by (force simp: decision_references_def)
    from snd [OF this] show ?thesis using c(2) by (simp add: consumed_row_of_def)
  qed
  obtain a where "artifact_at L (ar_artifact_hash (de_artifact p)) = Some a"
    "l_logic_version a = ar_logic_version (de_artifact p)"
    "l_evaluator_version a = ar_evaluator_version (de_artifact p)" "l_decision_class a = de_decision_class p"
    using assms(3) by (auto simp: validate_decision_def split: option.splits if_splits)
  then have art: "\<exists>a\<in>set (lg_artifacts L'). l_hash a = d_hash ?d \<and> l_logic_version a = d_logic_version ?d \<and>
      l_evaluator_version a = d_evaluator_version ?d \<and> l_decision_class a = d_class ?d"
    by (intro bexI [of _ a]) (auto simp: t(4) decision_row_of_def artifact_at_def dest!: find_Some_in)
  have id: "d_event_id ?d = en_event_id e" by (simp add: decision_row_of_def)
  show ?thesis unfolding decision_sound_def id using ctx con art by blast
qed

lemma old_decision_sound:
  assumes "decision_sound L d" "d_event_id d \<in> event_ids L" "write_event e L = Inr L'"
    "en_event_id e \<notin> event_ids L"
  shows "decision_sound L' d"
proof -
  note t = write_event_tables [OF assms(3)]
  have ne: "d_event_id d \<noteq> en_event_id e" using assms(2,4) by auto
  have c: "h \<in> set (lg_context L)" if "h \<in> set (lg_context L')" "h_decision h = d_event_id d" for h
    using that ne by (cases "en_payload e") (auto simp: t(6) context_row_of_def)
  have u: "u \<in> set (lg_consumed L)" if "u \<in> set (lg_consumed L')" "u_decision u = d_event_id d" for u
    using that ne by (cases "en_payload e") (auto simp: t(7) consumed_row_of_def)
  have sub: "set (lg_evidence L) \<subseteq> set (lg_evidence L')" "set (lg_artifacts L) \<subseteq> set (lg_artifacts L')"
    by (simp_all add: t)
  have art: "\<exists>a\<in>set (lg_artifacts L'). l_hash a = d_hash d \<and> l_logic_version a = d_logic_version d \<and>
      l_evaluator_version a = d_evaluator_version d \<and> l_decision_class a = d_class d"
    using assms(1) sub(2) unfolding decision_sound_def by blast
  have "\<forall>h\<in>set (lg_context L'). h_decision h = d_event_id d \<longrightarrow>
        (h_availability h = ''available'' \<longrightarrow>
           (\<exists>v t. h_evidence h = Some v \<and> h_value_text h = Some t \<and> reference_sound L' d v (h_input_key h) t)) \<and>
        (h_availability h \<noteq> ''available'' \<longrightarrow> h_evidence h = None \<and> h_value_text h = None)"
    using assms(1) c reference_sound_mono [OF sub(1), of d] unfolding decision_sound_def by meson
  moreover have "\<forall>u\<in>set (lg_consumed L'). u_decision u = d_event_id d \<longrightarrow>
        reference_sound L' d (u_evidence u) (u_input_key u) (u_value_text u)"
    using assms(1) u reference_sound_mono [OF sub(1), of d] unfolding decision_sound_def by meson
  ultimately show ?thesis using art unfolding decision_sound_def by (intro conjI)
qed

lemma reachable_decisions: "reachable L \<Longrightarrow> \<forall>d\<in>set (lg_decisions L). decision_sound L d"
proof (induction rule: reachable_write)
  case empty
  show ?case by (simp add: empty_ledger_def)
next
  case (accept L e L')
  have refs: "ledger_refs L" by (rule reachable_refs [OF accept(1)])
  have old: "decision_sound L' d" if "d \<in> set (lg_decisions L)" for d
    using old_decision_sound [OF _ _ accept(6,3)] accept(7) that refs_keys(1) [OF refs] by blast
  have new: "decision_sound L' d" if d: "d \<in> set (new_decisions e (en_payload e) (lg_seq L + 1))" for d
  proof -
    obtain p where p: "en_payload e = DecisionRecorded p" "d = decision_row_of e p (lg_seq L + 1)"
      using d by (cases "en_payload e") auto
    show ?thesis
      unfolding p(2) by (rule new_decision_sound [OF accept(2) p(1) _ accept(6) refs accept(3)])
        (use accept(5) p(1) in simp)
  qed
  show ?case using old new unfolding write_event_tables(5) [OF accept(6)] by auto
qed

subsection \<open>Registered artifacts\<close>

definition artifact_sound :: "artifact_row \<Rightarrow> bool" where
  "artifact_sound r \<longleftrightarrow>
     (\<exists>a e. valid_artifact a \<and> r = artifact_row_of e a)"

lemma reachable_artifacts: "reachable L \<Longrightarrow> \<forall>r\<in>set (lg_artifacts L). artifact_sound r"
proof (induction rule: reachable_write)
  case empty
  show ?case by (simp add: empty_ledger_def)
next
  case (accept L e L')
  have "artifact_sound r" if r: "r \<in> set (new_artifacts L e (en_payload e))" for r
  proof -
    obtain a where a: "en_payload e = LogicArtifactRegistered a" "r = artifact_row_of e a"
      using r by (cases "en_payload e") (auto split: if_splits)
    have "valid_artifact a"
      using accept(2) a(1) by (simp add: valid_envelope_iff envelope_fields_def valid_artifact_def)
    then show ?thesis using a(2) by (auto simp: artifact_sound_def)
  qed
  then show ?case using accept(7) by (auto simp: write_event_tables(4) [OF accept(6)])
qed

subsection \<open>Stored attributions\<close>

definition attribution_sound :: "ledger \<Rightarrow> attribution_row \<Rightarrow> bool" where
  "attribution_sound L t \<longleftrightarrow>
     t_event_id t = attribution_event_id (t_outcome t) (t_policy_version t) (t_cutoff t) \<and>
     (\<exists>r. attribute L (t_outcome t) (t_cutoff t) (t_policy_version t) = Inr r \<and>
        policy_result r = stored_policy_result t)"

lemma validate_attribution_None:
  assumes "validate_attribution L e p = None"
  shows "en_event_id e = attribution_event_id (oa_outcome_event_id p) (oa_policy_version p) (oa_ingest_cutoff p)"
    "\<exists>r. attribute L (oa_outcome_event_id p) (oa_ingest_cutoff p) (oa_policy_version p) = Inr r \<and>
       payload_policy_result p = policy_result r"
    "validate_attribution_supersession L p = None" "effective_now L (oa_outcome_event_id p) = Inr (oa_outcome_event_id p)"
    "validate_resolved_references L p (en_account_ref e) = None"
    "\<forall>t\<in>set (lg_attributions L). \<not> (t_outcome t = oa_outcome_event_id p \<and>
       t_policy_version t = oa_policy_version p \<and> t_cutoff t = oa_ingest_cutoff p)"
    "\<exists>q\<in>set (lg_outcomes L). o_event_id q = oa_outcome_event_id p \<and> o_account_ref q = en_account_ref e"
    "oa_ingest_cutoff p \<in> e_seq ` set (lg_events L)"
  using assms
  unfolding validate_attribution_def Let_def
  by (auto simp: validate_operation_def validate_recomputed_def Let_def outcome_at_def find_None_iff
      validate_cutoff_Inr simp del: first_failure.simps dest: find_Some_in split: option.splits if_splits sum.splits)

lemma reachable_attributions: "reachable L \<Longrightarrow> \<forall>t\<in>set (lg_attributions L). attribution_sound L t"
proof (induction rule: reachable_write)
  case empty
  show ?case by (simp add: empty_ledger_def)
next
  case (accept L e L')
  note ok = write_extends [OF accept(6,3)] reachable_keys [OF accept(1)] reachable_refs [OF accept(1)]
  have old: "attribution_sound L' t" if "t \<in> set (lg_attributions L)" for t
    using accept(7) that attribute_kept [OF ok] by (fastforce simp: attribution_sound_def)
  have new: "attribution_sound L' t" if t: "t \<in> set (new_attributions e (en_payload e))" for t
  proof -
    obtain p where p: "en_payload e = OutcomeAttributed p" "t = attribution_row_of e p"
      using t by (cases "en_payload e") auto
    have v: "validate_attribution L e p = None" using accept(5) p(1) by simp
    note n = validate_attribution_None(1,2) [OF v]
    show ?thesis
      using n attribute_kept [OF ok]
      by (force simp: attribution_sound_def p(2) attribution_row_of_def stored_policy_result_def
          payload_policy_result_def)
  qed
  show ?case using old new by (auto simp: write_event_tables(9) [OF accept(6)])
qed

end
