(* ===== verification/Snapshots.thy ===== *)
theory Snapshots
  imports Ledger_Soundness
begin

text \<open>
  Selections at a cutoff read the same in every later ledger: the effective version of an outcome and
  the effective attribution of a version depend only on the rows of the snapshot.
\<close>

lemma follow_kept:
  assumes "\<And>k. successors L' cutoff k = successors L cutoff k"
  shows "follow L' cutoff cur seen = follow L cutoff cur seen"
  using assms
proof (induction L cutoff cur seen rule: follow.induct)
  case (1 L cutoff cur seen)
  show ?case
  proof (cases "successors L cutoff cur")
    case (Cons nxt rest)
    then show ?thesis
      using "1.IH" [of nxt "[]"] "1.prems"
      by (cases rest) (simp_all add: follow.simps [of L cutoff cur seen] follow.simps [of L' cutoff cur seen])
  qed (simp add: follow.simps [of L cutoff cur seen] follow.simps [of L' cutoff cur seen] "1.prems")
qed

lemma outcomes_grown: "extends L L' \<Longrightarrow> grown (\<lambda>r. o_event_id r \<notin> event_ids L) (lg_outcomes L) (lg_outcomes L')"
  by (simp add: extends_def)

lemma outcome_snapshot:
  assumes "extends L L'" "ledger_refs L" "cutoff \<le> lg_seq L"
  shows "filter (\<lambda>(r, s). P r \<and> s \<le> cutoff) (joined o_event_id (lg_outcomes L') L') =
    filter (\<lambda>(r, s). P r \<and> s \<le> cutoff) (joined o_event_id (lg_outcomes L) L)"
  by (rule snapshot_joined [OF assms(1) outcomes_grown [OF assms(1)] refs_keys(3) [OF assms(2)] assms(3)])

lemma successors_kept:
  assumes "extends L L'" "ledger_refs L" "cutoff \<le> lg_seq L"
  shows "successors L' cutoff = successors L cutoff"
  by (intro ext) (simp add: successors_def outcome_snapshot [OF assms])

lemma load_outcome_kept:
  assumes "extends L L'" "ledger_refs L" "(r, s) \<in> set (joined o_event_id (lg_outcomes L) L)"
  shows "load_outcome L' (o_event_id r) cutoff = load_outcome L (o_event_id r) cutoff"
proof -
  let ?P = "\<lambda>(x, s). o_event_id x = o_event_id r"
  obtain y where y: "find ?P (joined o_event_id (lg_outcomes L) L) = Some y"
    using assms(3) by (cases "find ?P (joined o_event_id (lg_outcomes L) L)") (auto simp: find_None_iff)
  with find_joined_kept [OF assms(1) outcomes_grown [OF assms(1)] refs_keys(3) [OF assms(2)] y] show ?thesis
    by (simp add: load_outcome_def)
qed

lemma effective_outcome_version_kept:
  assumes "extends L L'" "ledger_refs L" "cutoff \<le> lg_seq L" "(r, s) \<in> set (joined o_event_id (lg_outcomes L) L)"
  shows "effective_outcome_version L' (o_event_id r) cutoff = effective_outcome_version L (o_event_id r) cutoff"
  using follow_kept [of L' cutoff L] successors_kept [OF assms(1-3)]
  by (simp add: effective_outcome_version_def load_outcome_kept [OF assms(1,2,4)])

subsection \<open>Snapshot reads\<close>

text \<open>
  The contract of every selection at a cutoff: appends leave it alone.  A client needs only that the
  collector accepted something.
\<close>

locale snapshot_read =
  fixes look :: "ledger \<Rightarrow> int \<Rightarrow> 'a"
  assumes look_kept: "extends L L' \<Longrightarrow> ledger_refs L \<Longrightarrow> cutoff \<le> lg_seq L \<Longrightarrow> look L' cutoff = look L cutoff"
begin

lemma after_ingest_kept:
  assumes "reachable L" "ingest e L = Inr (res, L')" "cutoff \<le> lg_seq L"
  shows "look L' cutoff = look L cutoff"
  by (rule look_kept [OF ingest_extends [OF assms(2)] reachable_refs [OF assms(1)] assms(3)])

end

interpretation versions: snapshot_read "\<lambda>L cutoff. effective_outcome_versions L cutoff acct" for acct
proof unfold_locales
  fix L L' :: ledger and cutoff :: int
  assume later: "extends L L'" "ledger_refs L" "cutoff \<le> lg_seq L"
  have f: "filter (\<lambda>(r, s). s \<le> cutoff \<and> (acct = None \<or> acct = Some (o_account_ref r)))
        (joined o_event_id (lg_outcomes M) M) =
      filter (\<lambda>(r, s). (acct = None \<or> acct = Some (o_account_ref r)) \<and> s \<le> cutoff)
        (joined o_event_id (lg_outcomes M) M)" for M
    by (rule arg_cong [of _ _ "\<lambda>p. filter p _"]) auto
  show "effective_outcome_versions L' cutoff acct = effective_outcome_versions L cutoff acct"
    unfolding effective_outcome_versions_def f outcome_snapshot [OF later]
    by (rule arg_cong [of _ _ "\<lambda>m. bindE m _"], rule mapE_cong)
      (auto intro: effective_outcome_version_kept [OF later])
qed

interpretation attribution: snapshot_read "\<lambda>L cutoff. effective_attribution L k v cutoff" for k v
proof unfold_locales
  fix L L' :: ledger and cutoff :: int
  assume later: "extends L L'" "ledger_refs L" "cutoff \<le> lg_seq L"
  have g: "grown (\<lambda>r. t_event_id r \<notin> event_ids L) (lg_attributions L) (lg_attributions L')"
    using later(1) by (simp add: extends_def)
  have "filter (\<lambda>(r, s). t_outcome r = k \<and> t_policy_version r = v \<and> s \<le> cutoff)
      (joined t_event_id (lg_attributions L') L') =
    filter (\<lambda>(r, s). t_outcome r = k \<and> t_policy_version r = v \<and> s \<le> cutoff)
      (joined t_event_id (lg_attributions L) L)"
    using snapshot_joined [OF later(1) g refs_keys(4) [OF later(2)] later(3),
        of "\<lambda>r. t_outcome r = k \<and> t_policy_version r = v"]
    by (simp add: conj_assoc)
  then show "effective_attribution L' k v cutoff = effective_attribution L k v cutoff"
    by (simp add: effective_attribution_def)
qed

interpretation actions_read: snapshot_read action_query
  by unfold_locales (rule action_query_kept)

interpretation decision_read: snapshot_read "\<lambda>L cutoff. load_decision L k cutoff" for k
  by unfold_locales (rule load_decision_kept)

end
