(* ===== verification/Digest_Shape.thy ===== *)
theory Digest_Shape
  imports Schema
begin

text \<open>
  What the rest of the development needs of a SHA-256 digest besides its definition: it is 64 lower-case
  hexadecimal digits.
\<close>

lemma length_sha_round [simp]: "length (sha_round s kw) = length s"
  by (cases "(s, kw)" rule: sha_round.cases) (auto simp: Let_def)

lemma length_sha_rounds: "length (foldl sha_round s kws) = length s"
  by (induction kws arbitrary: s) auto

lemma length_sha_blocks: "length (sha_blocks n s ws) = length s"
  by (induction n arbitrary: s ws) (auto simp: compress_def length_sha_rounds)

lemma length_be_bytes [simp]: "length (be_bytes n i) = n"
  by (induction n arbitrary: i) auto

lemma be_bytes_range: "b \<in> set (be_bytes n i) \<Longrightarrow> 0 \<le> b \<and> b < 256"
  by (induction n arbitrary: i) auto

lemma hex_digit_lower: "n < 16 \<Longrightarrow> is_lower_hex (hex_digit n)"
  by (auto simp: is_lower_hex_def hex_digit_def is_digit_def)

lemma hex_byte_lower: "0 \<le> b \<Longrightarrow> b < 256 \<Longrightarrow> list_all is_lower_hex (hex_byte b)"
  by (simp add: hex_byte_def hex_digit_lower)

lemma length_concat_const: "\<forall>x\<in>set xs. length (f x) = n \<Longrightarrow> length (concat (map f xs)) = n * length xs"
  by (induction xs) auto

lemma sha256_hex_shape: "sha256_hex_string (sha256_hex s)"
proof -
  have "length (concat (map (\<lambda>w. concat (map hex_byte (be_bytes 4 (uint w)))) ws)) = 8 * length ws" for ws :: "word32 list"
    by (rule length_concat_const) (simp add: length_concat_const [where n = 2] hex_byte_def)
  moreover have "list_all is_lower_hex (concat (map (\<lambda>w. concat (map hex_byte (be_bytes 4 (uint w)))) ws))" for ws :: "word32 list"
    using hex_byte_lower be_bytes_range by (fastforce simp: list_all_iff)
  ultimately show ?thesis
    by (simp add: sha256_hex_string_def sha256_hex_def Let_def length_sha_blocks sha_init_def)
qed

end
