(* ===== verification/Example_Run.thy ===== *)
theory Example_Run
  imports Evaluator Ledger_Soundness Digest_Shape
begin

text \<open>
  A run of the collector: a logic artifact, an account, its evidence, a decision over it, the action
  taken and its outcome, accepted one after the other from an empty database.  The witnesses of the
  properties of reachable ledgers apply them here.  Hashes stay symbolic; only their shape, 64
  lower-case hexadecimal digits, is needed (\<open>sha256_hex_shape\<close>).
\<close>

subsection \<open>The envelopes\<close>

definition run_registration :: envelope where
  "run_registration = \<lparr>en_event_id = ''reg'', en_source = ''gtm'', en_account_ref = SYSTEM_ACCOUNT_REF,
     en_occurred_at = Utc (Date 2026 1 12) 9 0 0 0, en_recorded_at = Utc (Date 2026 1 12) 9 0 0 0,
     en_payload = LogicArtifactRegistered demo_artifact\<rparr>"

definition run_discovery :: envelope where
  "run_discovery = \<lparr>en_event_id = ''disc'', en_source = ''gtm'', en_account_ref = ''acct'',
     en_occurred_at = Utc (Date 2026 4 16) 9 0 0 0, en_recorded_at = Utc (Date 2026 4 16) 9 0 0 0,
     en_payload = AccountDiscovered \<lparr>ad_name = ''Demo'', ad_domain = ''demo.example''\<rparr>\<rparr>"

definition run_items :: "evidence_item list" where
  "run_items =
     [\<lparr>it_version_id = ''ev-1'', it_supersedes = None, it_value = EmployeeCount 184\<rparr>,
      \<lparr>it_version_id = ''ev-2'', it_supersedes = None, it_value = Industry ''B2B AI Software''\<rparr>]"

definition run_evidence :: envelope where
  "run_evidence = \<lparr>en_event_id = ''evid'', en_source = ''gtm'', en_account_ref = ''acct'',
     en_occurred_at = Utc (Date 2026 4 16) 10 0 0 0, en_recorded_at = Utc (Date 2026 4 16) 10 0 0 0,
     en_payload = EvidenceRecorded \<lparr>er_items = run_items\<rparr>\<rparr>"

definition run_decision_payload :: decision_recorded where
  "run_decision_payload =
     \<lparr>de_decision_class = ''account_prioritization'', de_boundary = Utc (Date 2026 4 17) 10 5 2 0,
      de_workflow_version = ''w1'',
      de_context =
        [\<lparr>ce_input_key = ''employee_count'', ce_value = JInt 184, ce_availability = ''available'',
          ce_evidence = Some ''ev-1''\<rparr>,
         \<lparr>ce_input_key = ''industry'', ce_value = JStr ''B2B AI Software'', ce_availability = ''available'',
          ce_evidence = Some ''ev-2''\<rparr>],
      de_consumed = [\<lparr>ci_input_key = ''employee_count'', ci_value = JInt 184, ci_evidence = ''ev-1'',
        ci_contribution = 25\<rparr>],
      de_artifact = \<lparr>ar_logic_version = ''v3.2'', ar_artifact_id = ''icp'',
        ar_artifact_hash = canonical_hash (dump_artifact demo_artifact), ar_evaluator_version = ''evaluator-v1''\<rparr>,
      de_result = \<lparr>dr_score = 25, dr_threshold = 75, dr_output = ''DO_NOT_PRIORITIZE''\<rparr>,
      de_explanation = None\<rparr>"

definition run_decision :: envelope where
  "run_decision = \<lparr>en_event_id = ''dec'', en_source = ''gtm'', en_account_ref = ''acct'',
     en_occurred_at = Utc (Date 2026 4 17) 10 5 2 0, en_recorded_at = Utc (Date 2026 4 17) 10 5 3 0,
     en_payload = DecisionRecorded run_decision_payload\<rparr>"

definition run_action_payload :: action_recorded where
  "run_action_payload = \<lparr>ac_action_type = ''outbound_play'', ac_play_id = 7, ac_target_persona = ''CTO'',
     ac_status = ''sent'', ac_cost = ''1.42'', ac_currency = ''USD'', ac_decision_event_id = ''dec''\<rparr>"

definition run_action :: envelope where
  "run_action = \<lparr>en_event_id = ''act'', en_source = ''gtm'', en_account_ref = ''acct'',
     en_occurred_at = Utc (Date 2026 4 18) 9 0 0 0, en_recorded_at = Utc (Date 2026 4 18) 9 0 0 0,
     en_payload = ActionRecorded run_action_payload\<rparr>"

definition run_outcome_payload :: outcome_v2 where
  "run_outcome_payload = \<lparr>o2_window_opened_at = Utc (Date 2026 4 18) 9 0 0 0,
     o2_window_closes_at = Utc (Date 2026 6 18) 9 0 0 0, o2_evaluation_state = ''open'',
     o2_observed_at = Utc (Date 2026 4 20) 9 0 0 0, o2_reply = Some True, o2_meeting = None,
     o2_opportunity = Some False, o2_source_action = Some ''act'', o2_source_decision = None, o2_supersedes = None\<rparr>"

definition run_outcome :: envelope where
  "run_outcome = \<lparr>en_event_id = ''out'', en_source = ''gtm'', en_account_ref = ''acct'',
     en_occurred_at = Utc (Date 2026 4 20) 9 0 0 0, en_recorded_at = Utc (Date 2026 4 20) 9 0 0 0,
     en_payload = OutcomeEvaluatedV2 run_outcome_payload\<rparr>"

lemmas run_defs = run_registration_def run_discovery_def run_evidence_def run_decision_def run_action_def
  run_outcome_def run_items_def run_decision_payload_def run_action_payload_def run_outcome_payload_def

lemma run_artifact_hash: "sha256_hex_string (canonical_hash (dump_artifact demo_artifact))"
  unfolding canonical_hash_def by (rule sha256_hex_shape)

lemma run_valid_artifact: "valid_artifact demo_artifact"
  by code_simp

lemma run_valid:
  "valid_envelope run_registration" "valid_envelope run_discovery" "valid_envelope run_evidence"
  "valid_envelope run_action" "valid_envelope run_outcome"
  by code_simp+

lemma run_instants:
  "valid_utc (Utc (Date 2026 4 17) 10 5 2 0)" "valid_utc (Utc (Date 2026 4 17) 10 5 3 0)"
  "Utc (Date 2026 4 17) 10 5 2 0 \<le> Utc (Date 2026 4 17) 10 5 3 0"
  "distinct [''employee_count'', ''industry'']"
  by code_simp+

lemma run_valid_decision: "valid_envelope run_decision"
  using run_artifact_hash run_instants
  by (simp add: valid_envelope_iff envelope_fields_def run_decision_def run_decision_payload_def decision_fields_def
      context_entry_fields_def consumed_input_fields_def artifact_ref_fields_def result_fields_def nonempty_def
      nonempty_opt_def SYSTEM_ACCOUNT_REF_def availability_is_coherent_def context_keys_are_unique_def
      consumed_keys_are_unique_def consumed_inputs_agree_with_context_def consumed_agrees_def same_scalar_eq
      del: first_failure.simps valid_utc.simps)

subsection \<open>The ledgers\<close>

definition run1 :: ledger where
  "run1 = empty_ledger\<lparr>lg_seq := 1,
     lg_accounts := [\<lparr>a_account_ref = SYSTEM_ACCOUNT_REF, a_name = SYSTEM_ACCOUNT_NAME,
       a_domain = SYSTEM_ACCOUNT_DOMAIN, a_first_seen = ''reg''\<rparr>],
     lg_events := [(event_row_of run_registration)\<lparr>e_seq := 1\<rparr>],
     lg_artifacts := [artifact_row_of run_registration demo_artifact]\<rparr>"

definition run2 :: ledger where
  "run2 = run1\<lparr>lg_seq := 2,
     lg_accounts := lg_accounts run1 @ [\<lparr>a_account_ref = ''acct'', a_name = ''Demo'', a_domain = ''demo.example'',
       a_first_seen = ''disc''\<rparr>],
     lg_events := lg_events run1 @ [(event_row_of run_discovery)\<lparr>e_seq := 2\<rparr>]\<rparr>"

definition run3 :: ledger where
  "run3 = run2\<lparr>lg_seq := 3, lg_events := lg_events run2 @ [(event_row_of run_evidence)\<lparr>e_seq := 3\<rparr>],
     lg_evidence := map (evidence_row_of run_evidence) run_items\<rparr>"

definition run4 :: ledger where
  "run4 = run3\<lparr>lg_seq := 4, lg_events := lg_events run3 @ [(event_row_of run_decision)\<lparr>e_seq := 4\<rparr>],
     lg_decisions := [decision_row_of run_decision run_decision_payload 4],
     lg_context := map (context_row_of ''dec'') (de_context run_decision_payload),
     lg_consumed := map (consumed_row_of ''dec'') (de_consumed run_decision_payload)\<rparr>"

definition run5 :: ledger where
  "run5 = run4\<lparr>lg_seq := 5, lg_events := lg_events run4 @ [(event_row_of run_action)\<lparr>e_seq := 5\<rparr>],
     lg_actions := [action_row_of run_action run_action_payload]\<rparr>"

definition run6 :: ledger where
  "run6 = run5\<lparr>lg_seq := 6, lg_events := lg_events run5 @ [(event_row_of run_outcome)\<lparr>e_seq := 6\<rparr>],
     lg_outcomes := [outcome_row_v2 run_outcome run_outcome_payload None None]\<rparr>"

definition created :: "envelope \<Rightarrow> ingest_result" where
  "created e = \<lparr>ir_status = Created, ir_event_id = en_event_id e, ir_hash = envelope_hash e\<rparr>"

lemma ingest_created:
  assumes "en_event_id e \<notin> event_ids L" "check_account_rules L e (en_payload e) = None"
    "validate_references L e (en_payload e) = None" "write_event e L = Inr L'"
  shows "ingest e L = Inr (created e, L')"
  using assms by (simp add: ingest_def Let_def event_at_None [THEN iffD2] created_def)

lemmas run_sel = event_row_of_def artifact_row_of_def evidence_row_of_def decision_row_of_def context_row_of_def
  consumed_row_of_def action_row_of_def outcome_row_v2_def

lemma fits_small [simp]: "fits_int64 0" "fits_int64 1" "0 \<le> n \<Longrightarrow> n \<le> 1000000 \<Longrightarrow> fits_int64 n"
  by (simp_all add: fits_int64_def)

lemma run_step1: "ingest run_registration empty_ledger = Inr (created run_registration, run1)"
  by (rule ingest_created)
    (simp_all add: event_ids_def empty_ledger_def run_registration_def validate_artifact_identity_def artifact_at_def
      write_event_Inr run1_def account_at_def insert_account_def insert_event_def project_artifact_def
      insert_artifact_def commit_Inr event_row_of_def artifact_row_of_def)

text \<open>The tables of each ledger.\<close>

lemmas run_tables = run1_def run2_def run3_def run4_def run5_def run6_def empty_ledger_def

lemma run_event_ids [simp]:
  "event_ids run1 = {''reg''}" "event_ids run2 = {''reg'', ''disc''}" "event_ids run3 = {''reg'', ''disc'', ''evid''}"
  "event_ids run4 = {''reg'', ''disc'', ''evid'', ''dec''}"
  "event_ids run5 = {''reg'', ''disc'', ''evid'', ''dec'', ''act''}"
  "event_ids run6 = {''reg'', ''disc'', ''evid'', ''dec'', ''act'', ''out''}"
  by (auto simp: event_ids_def run_tables event_row_of_def run_registration_def run_discovery_def run_evidence_def
      run_decision_def run_action_def run_outcome_def)

lemma run_step2: "ingest run_discovery run1 = Inr (created run_discovery, run2)"
  by (rule ingest_created)
    (simp_all add: run_discovery_def account_at_def run1_def SYSTEM_ACCOUNT_REF_def write_event_Inr insert_account_def
      insert_event_def commit_Inr event_row_of_def run2_def event_ids_def empty_ledger_def run_registration_def)

lemma run_step3: "ingest run_evidence run2 = Inr (created run_evidence, run3)"
  by (rule ingest_created)
    (simp_all add: run_evidence_def account_at_def run_tables SYSTEM_ACCOUNT_REF_def write_event_Inr run_items_def
      insert_event_def commit_Inr event_row_of_def event_ids_def run_registration_def run_discovery_def
      validate_evidence_def validate_item_def evidence_at_def project_evidence_def insert_evidence_def
      evidence_row_of_def)

lemma run_evidence_at:
  "evidence_at run3 ''ev-1'' = Some (evidence_row_of run_evidence (run_items ! 0))"
  "evidence_at run3 ''ev-2'' = Some (evidence_row_of run_evidence (run_items ! 1))"
  by (simp_all add: evidence_at_def run_tables run_items_def evidence_row_of_def)

lemma run_times:
  "format_utc (Utc (Date 2026 4 16) 10 0 0 0) = ''2026-04-16T10:00:00.000000Z''"
  "format_utc (Utc (Date 2026 4 17) 10 5 2 0) = ''2026-04-17T10:05:02.000000Z''"
  "format_utc (Utc (Date 2026 4 18) 9 0 0 0) = ''2026-04-18T09:00:00.000000Z''"
  "format_utc (Utc (Date 2026 4 20) 9 0 0 0) = ''2026-04-20T09:00:00.000000Z''"
  "\<not> ''2026-04-17T10:05:02.000000Z'' < ''2026-04-16T10:00:00.000000Z''"
  "\<not> ''2026-04-18T09:00:00.000000Z'' < ''2026-04-17T10:05:02.000000Z''"
  by code_simp+

lemma run_decision_checks: "validate_references run3 run_decision (en_payload run_decision) = None"
proof -
  have r: "validate_reference run3 run_decision (Utc (Date 2026 4 17) 10 5 2 0) (ik, Some v, j) = None"
    if "(ik, v, j) \<in> {(''employee_count'', ''ev-1'', JInt 184), (''industry'', ''ev-2'', JStr ''B2B AI Software'')}"
    for ik v j
    using that
    by (auto simp: validate_reference_def run_evidence_at evidence_row_of_def stored_evidence_value_item run_items_def
        run_evidence_def run_decision_def run_times same_scalar_eq)
  have a: "artifact_at run3 (canonical_hash (dump_artifact demo_artifact)) = Some (artifact_row_of run_registration demo_artifact)"
    by (simp add: artifact_at_def run_tables artifact_row_of_def)
  have refs: "set (decision_references run_decision_payload) =
      {(''employee_count'', Some ''ev-1'', JInt 184), (''industry'', Some ''ev-2'', JStr ''B2B AI Software'')}"
    by (auto simp: decision_references_def run_decision_payload_def)
  have "first_failure (map (validate_reference run3 run_decision (Utc (Date 2026 4 17) 10 5 2 0))
      (decision_references run_decision_payload)) = None"
    using r by (auto simp: refs simp del: first_failure.simps)
  moreover have "de_boundary run_decision_payload = Utc (Date 2026 4 17) 10 5 2 0"
    "ar_artifact_hash (de_artifact run_decision_payload) = canonical_hash (dump_artifact demo_artifact)"
    by (simp_all add: run_decision_payload_def)
  moreover have "en_payload run_decision = DecisionRecorded run_decision_payload" by (simp add: run_decision_def)
  ultimately show ?thesis
    by (simp only: validate_references.simps validate_decision_def a option.case)
      (simp add: artifact_row_of_def run_decision_payload_def demo_artifact_def)
qed

lemma run_step4: "ingest run_decision run3 = Inr (created run_decision, run4)"
  by (rule ingest_created [OF _ _ run_decision_checks])
    (simp_all add: run_decision_def run_decision_payload_def account_at_def run_tables SYSTEM_ACCOUNT_REF_def
      write_event_Inr run_items_def insert_event_def commit_Inr event_row_of_def event_ids_def run_registration_def
      run_discovery_def run_evidence_def project_decision_def insert_decision_def insert_context_def
      insert_consumed_def decision_row_of_def context_row_of_def consumed_row_of_def evidence_row_of_def
      artifact_row_of_def)

lemma run_step5: "ingest run_action run4 = Inr (created run_action, run5)"
  by (rule ingest_created)
    (simp_all add: run_action_def run_action_payload_def account_at_def run_tables SYSTEM_ACCOUNT_REF_def
      write_event_Inr insert_event_def commit_Inr event_row_of_def event_ids_def run_registration_def
      run_discovery_def run_evidence_def run_decision_def run_decision_payload_def validate_decision_reference_def
      decision_at_def decision_row_of_def run_times project_action_def insert_action_def action_row_of_def)

lemma run_instant:
  "instantE ''2026-04-17T10:05:02.000000Z'' = Inr (Utc (Date 2026 4 17) 10 5 2 0)"
  "instantE ''2026-04-18T09:00:00.000000Z'' = Inr (Utc (Date 2026 4 18) 9 0 0 0)"
  "instantE ''2026-04-20T09:00:00.000000Z'' = Inr (Utc (Date 2026 4 20) 9 0 0 0)"
  "Utc (Date 2026 4 18) 9 0 0 0 < Utc (Date 2026 4 20) 9 0 0 0"
  "\<not> LOOKBACK < utc_micros (Utc (Date 2026 4 20) 9 0 0 0) - utc_micros (Utc (Date 2026 4 18) 9 0 0 0)"
  by code_simp+

lemma run_seq_of [simp]:
  "seq_of run6 ''dec'' = Some 4" "seq_of run6 ''act'' = Some 5" "seq_of run6 ''out'' = Some 6"
  by (simp_all add: seq_of_def run_tables event_row_of_def run_registration_def run_discovery_def run_evidence_def
      run_decision_def run_action_def run_outcome_def)

definition run_candidate :: action_candidate where
  "run_candidate = \<lparr>ca_event_id = ''act'', ca_account_ref = ''acct'', ca_decision = ''dec'', ca_status = ''sent'',
     ca_occurred_at = ''2026-04-18T09:00:00.000000Z'', ca_seq = 5,
     ca_decision_class = Some ''account_prioritization'', ca_decision_account = Some ''acct''\<rparr>"

lemma run_rows:
  "lg_actions run6 = [action_row_of run_action run_action_payload]"
  "lg_decisions run6 = [decision_row_of run_decision run_decision_payload 4]"
  "lg_outcomes run6 = [outcome_row_v2 run_outcome run_outcome_payload None None]"
  by (simp_all add: run_tables)

lemma run_query: "action_query run6 6 = [run_candidate]"
  by (simp add: action_query_def joined_def run_rows action_row_of_def run_action_def run_action_payload_def
      candidate_def snapshot_decision_def decision_row_of_def run_decision_def run_decision_payload_def
      run_candidate_def run_times List.map_filter_def)

lemma run_problems: "source_claim_problems run6 ''acct'' ''2026-04-20T09:00:00.000000Z'' (Some ''act'') None 6 = Inr (None, None)"
  by (simp add: source_claim_problems_def load_action_def run_query action_problem_def run_instant run_candidate_def
      ELIGIBLE_ACTION_STATUSES_def ATTRIBUTABLE_DECISION_CLASS_def)

lemma source_claim_problems_cong:
  assumes "lg_events L = lg_events M" "lg_actions L = lg_actions M" "lg_decisions L = lg_decisions M"
  shows "source_claim_problems L acct obs a d n = source_claim_problems M acct obs a d n"
proof -
  have s: "seq_of L = seq_of M" by (simp add: seq_of_def assms fun_eq_iff)
  then have j: "joined key rows L = joined key rows M" for key and rows :: "'r list" by (simp add: joined_def)
  have c: "candidate L = candidate M"
    by (intro ext) (simp only: candidate_def snapshot_decision_def s assms)
  have "load_action L = load_action M" "load_decision L = load_decision M"
    by (intro ext; simp only: load_action_def load_decision_def action_query_def j c assms)+
  then show ?thesis by (simp only: source_claim_problems_def)
qed

lemma run_step6: "ingest run_outcome run5 = Inr (created run_outcome, run6)"
proof (rule ingest_created)
  let ?M = "run5\<lparr>lg_seq := 6, lg_events := lg_events run5 @ [(event_row_of run_outcome)\<lparr>e_seq := 6\<rparr>]\<rparr>"
  have e: "insert_event (event_row_of run_outcome) run5 = Inr ?M"
    by (simp add: insert_event_def run_tables event_row_of_def run_registration_def run_discovery_def
        run_evidence_def run_decision_def run_action_def run_outcome_def)
  have "source_claim_problems ?M ''acct'' ''2026-04-20T09:00:00.000000Z'' (Some ''act'') None 6 = Inr (None, None)"
    using run_problems by (subst source_claim_problems_cong [where M = run6]) (simp_all add: run6_def)
  then have "project_outcome_v2 run_outcome run_outcome_payload 6 ?M = Inr run6"
    by (simp add: project_outcome_v2_def run_outcome_def run_outcome_payload_def run_times insert_outcome_def
        outcome_row_v2_def run_tables event_row_of_def run_discovery_def)
  then show "write_event run_outcome run5 = Inr run6"
    using e
    by (simp add: write_event_Inr run_outcome_def commit_Inr)
      (simp add: run_tables SYSTEM_ACCOUNT_REF_def)
  show "check_account_rules run5 run_outcome (en_payload run_outcome) = None"
    by (simp add: run_outcome_def account_at_def run_tables SYSTEM_ACCOUNT_REF_def)
qed (simp_all add: run_outcome_def run_outcome_payload_def validate_outcome_supersession_def)

lemma run_reachable:
  "reachable run1" "reachable run2" "reachable run3" "reachable run4" "reachable run5" "reachable run6"
proof -
  show r1: "reachable run1" by (rule reachable.step [OF reachable.empty run_valid(1) run_step1])
  show r2: "reachable run2" by (rule reachable.step [OF r1 run_valid(2) run_step2])
  show r3: "reachable run3" by (rule reachable.step [OF r2 run_valid(3) run_step3])
  show r4: "reachable run4" by (rule reachable.step [OF r3 run_valid_decision run_step4])
  show r5: "reachable run5" by (rule reachable.step [OF r4 run_valid(4) run_step5])
  show "reachable run6" by (rule reachable.step [OF r5 run_valid(5) run_step6])
qed

subsection \<open>The attribution of the outcome\<close>

definition run_attribution_payload :: outcome_attributed where
  "run_attribution_payload = \<lparr>oa_outcome_event_id = ''out'', oa_policy_version = POLICY_VERSION,
     oa_method = ''explicit_source_reference'', oa_window_days = LOOKBACK_DAYS,
     oa_resolved_action = Some ''act'', oa_resolved_decision = Some ''dec'', oa_status = ''direct'',
     oa_reason = ''valid_source_action_reference'', oa_attributed_at = Utc (Date 2026 4 21) 9 0 0 0,
     oa_ingest_cutoff = 6, oa_supersedes = None\<rparr>"

definition run_attribution :: envelope where
  "run_attribution = \<lparr>en_event_id = attribution_event_id ''out'' POLICY_VERSION 6, en_source = ATTRIBUTION_SOURCE,
     en_account_ref = ''acct'', en_occurred_at = Utc (Date 2026 4 21) 9 0 0 0,
     en_recorded_at = Utc (Date 2026 4 21) 9 0 0 0, en_payload = OutcomeAttributed run_attribution_payload\<rparr>"

definition run7 :: ledger where
  "run7 = run6\<lparr>lg_seq := 7, lg_events := lg_events run6 @ [(event_row_of run_attribution)\<lparr>e_seq := 7\<rparr>],
     lg_attributions := [attribution_row_of run_attribution run_attribution_payload]\<rparr>"

lemma run_attribution_id [simp]:
  "attribution_event_id a b c \<noteq> ''reg''" "attribution_event_id a b c \<noteq> ''disc''"
  "attribution_event_id a b c \<noteq> ''evid''" "attribution_event_id a b c \<noteq> ''dec''"
  "attribution_event_id a b c \<noteq> ''act''" "attribution_event_id a b c \<noteq> ''out''" "attribution_event_id a b c \<noteq> []"
  by (simp_all add: attribution_event_id_def)

lemma run_valid_attribution: "valid_envelope run_attribution"
proof -
  have "valid_utc (Utc (Date 2026 4 21) 9 0 0 0)" by code_simp
  then show ?thesis
    by (simp add: valid_envelope_iff envelope_fields_def run_attribution_def run_attribution_payload_def
        attributed_fields_def nonempty_def nonempty_opt_def SYSTEM_ACCOUNT_REF_def POLICY_VERSION_def
        resolved_references_agree_with_status_def Let_def del: valid_utc.simps)
qed

lemma run_maximum: "ledger_maximum run6 = Some 6" "ledger_maximum run7 = Some 7"
  by (simp_all add: ledger_maximum_def run_tables run7_def)

lemma run_outcome_claims:
  "load_outcome run6 ''out'' 6 = Inr \<lparr>oc_outcome = ''out'', oc_account_ref = ''acct'', oc_schema_version = ''2'',
     oc_observed = ''2026-04-20T09:00:00.000000Z'', oc_action = Some ''act'', oc_decision = None, oc_seq = 6\<rparr>"
  by (simp add: load_outcome_def run_rows joined_def outcome_row_v2_def run_outcome_def run_outcome_payload_def
      List.map_filter_def claims_of_def run_times)

lemma run_effective: "effective_outcome_version run6 ''out'' 6 = Inr ''out''"
  by (simp add: effective_outcome_version_def run_outcome_claims follow.simps successors_def run_rows joined_def
      outcome_row_v2_def run_outcome_def run_outcome_payload_def List.map_filter_def)

lemma run_attributed:
  "attribute run6 ''out'' 6 POLICY_VERSION = Inr (make_result ''out'' POLICY_VERSION 6 ''explicit_source_reference''
     ''direct'' ''valid_source_action_reference'' (Some ''act'') (Some ''dec''))"
proof -
  have "validate_cutoff run6 6 = Inr 6" by (auto simp: validate_cutoff_Inr run_tables)
  moreover have "action_problem (Some run_candidate) ''acct'' ''2026-04-20T09:00:00.000000Z'' = Inr None"
    by (simp add: action_problem_def run_instant run_candidate_def ELIGIBLE_ACTION_STATUSES_def
        ATTRIBUTABLE_DECISION_CLASS_def)
  ultimately show ?thesis
    by (simp add: attribute_def run_outcome_claims attribute_claims_def load_action_def run_query claim_problems_def
        direct_result_def Let_def)
      (simp add: run_candidate_def)
qed

lemma run_attribution_checks: "validate_references run6 run_attribution (en_payload run_attribution) = None"
proof -
  have "effective_attribution run6 ''out'' POLICY_VERSION 6 = Inr None"
    by (simp add: effective_attribution_def run_tables List.map_filter_def)
  moreover have "validate_cutoff run6 6 = Inr 6" by (auto simp: validate_cutoff_Inr run_tables)
  moreover have "outcome_at run6 ''out'' = Some (outcome_row_v2 run_outcome run_outcome_payload None None)"
    "action_at run6 ''act'' = Some (action_row_of run_action run_action_payload)"
    "decision_at run6 ''dec'' = Some (decision_row_of run_decision run_decision_payload 4)"
    by (simp_all add: outcome_at_def action_at_def decision_at_def run_rows outcome_row_v2_def run_outcome_def
        action_row_of_def run_action_def decision_row_of_def run_decision_def)
  moreover have "lg_attributions run6 = []" by (simp add: run_tables)
  ultimately show ?thesis
    by (simp add: run_attribution_def run_attribution_payload_def validate_attribution_def effective_now_def
        run_maximum run_effective run_outcome_claims validate_operation_def validate_attribution_supersession_def
        validate_resolved_references_def validate_recomputed_def run_attributed payload_policy_result_def
        policy_result_def make_result_def outcome_row_v2_def run_outcome_def action_row_of_def run_action_def
        decision_row_of_def run_decision_def Let_def raise_if_def)
qed

lemma run_step7: "ingest run_attribution run6 = Inr (created run_attribution, run7)"
proof (rule ingest_created [OF _ _ run_attribution_checks])
  show "en_event_id run_attribution \<notin> event_ids run6" by (simp add: run_attribution_def)
  show "check_account_rules run6 run_attribution (en_payload run_attribution) = None"
    by (simp add: run_attribution_def account_at_def run_tables SYSTEM_ACCOUNT_REF_def)
  let ?M = "run6\<lparr>lg_seq := 7, lg_events := lg_events run6 @ [(event_row_of run_attribution)\<lparr>e_seq := 7\<rparr>]\<rparr>"
  have "insert_event (event_row_of run_attribution) run6 = Inr ?M"
    by (simp add: insert_event_def run_tables event_row_of_def run_registration_def run_discovery_def
        run_evidence_def run_decision_def run_action_def run_outcome_def run_attribution_def)
  moreover have "project_attribution run_attribution run_attribution_payload ?M = Inr run7"
    by (simp add: project_attribution_def insert_attribution_def attribution_row_of_def run_attribution_def
        run_attribution_payload_def LOOKBACK_DAYS_def run_tables run7_def event_row_of_def outcome_row_v2_def
        run_outcome_def action_row_of_def run_action_def decision_row_of_def run_decision_def)
  ultimately show "write_event run_attribution run6 = Inr run7"
    by (simp add: write_event_Inr run_attribution_def commit_Inr)
      (simp add: run_tables run7_def SYSTEM_ACCOUNT_REF_def event_ids_def event_row_of_def run_registration_def
        run_discovery_def)
qed

lemma run7_reachable: "reachable run7"
  by (rule reachable.step [OF run_reachable(6) run_valid_attribution run_step7])

end
