(* ===== verification/Attribution_Chains.thy ===== *)
theory Attribution_Chains
  imports Example_Run
begin

text \<open>
  The stored attributions of one outcome version and policy form a chain in every reachable ledger:
  the first supersedes nothing, each later one its predecessor, at a strictly newer cutoff.  So
  \<open>effective_attribution\<close> never finds two candidates, at any cutoff: it is the last link of the
  snapshot.
\<close>

subsection \<open>Linked rows\<close>

fun linked :: "string option \<Rightarrow> attribution_row list \<Rightarrow> bool" where
  "linked prev [] = True"
| "linked prev (r # rs) = (t_supersedes r = prev \<and> linked (Some (t_event_id r)) rs)"

lemma linked_snoc:
  "linked prev (rs @ [r]) \<longleftrightarrow>
     linked prev rs \<and> t_supersedes r = (if rs = [] then prev else Some (t_event_id (last rs)))"
  by (induction rs arbitrary: prev) auto

lemma linked_take: "linked prev rs \<Longrightarrow> linked prev (take n rs)"
  by (induction rs arbitrary: prev n) (auto simp: take_Cons split: nat.split)

lemma map_filter_Cons: "List.map_filter f (x # xs) = (case f x of None \<Rightarrow> [] | Some y \<Rightarrow> [y]) @ List.map_filter f xs"
  by (simp add: List.map_filter_def split: option.split)

lemma linked_superseded:
  "linked (Some p) rs \<Longrightarrow> set (List.map_filter t_supersedes rs) =
     (if rs = [] then {} else insert p (set (map t_event_id (butlast rs))))"
  by (induction rs arbitrary: p) (auto simp: map_filter_Cons List.map_filter_def [of _ "[]"])

lemma linked_tips:
  assumes "linked None rs" "distinct (map t_event_id rs)"
  shows "filter (\<lambda>r. t_event_id r \<notin> set (List.map_filter t_supersedes rs)) rs = (if rs = [] then [] else [last rs])"
proof (cases rs rule: rev_cases)
  case (snoc ys y)
  have "set (List.map_filter t_supersedes rs) = t_event_id ` set ys"
  proof (cases rs)
    case (Cons x xs)
    then have s: "t_supersedes x = None" "linked (Some (t_event_id x)) xs" using assms(1) by simp_all
    have "set (List.map_filter t_supersedes rs) = set (List.map_filter t_supersedes xs)"
      by (simp add: Cons s(1) List.map_filter_def)
    also have "\<dots> = t_event_id ` set (butlast rs)"
      using linked_superseded [OF s(2)] by (auto simp: Cons)
    finally show ?thesis by (simp add: snoc)
  qed (use snoc in simp)
  then show ?thesis
    using assms(2) by (auto simp: snoc filter_empty_conv)
qed simp

lemma filter_sorted_take:
  assumes "sorted_wrt (<) (map snd xs)"
  shows "\<exists>n. filter (\<lambda>(r, s). s \<le> (c::int)) xs = take n xs"
proof -
  have "filter (\<lambda>(r, s). s \<le> c) xs = takeWhile (\<lambda>(r, s). s \<le> c) xs"
    using assms by (induction xs) (fastforce simp: filter_empty_conv takeWhile_eq_Nil_iff dest: hd_in_set)+
  then show ?thesis by (metis takeWhile_eq_take)
qed

subsection \<open>The chain of an outcome version\<close>

definition attribution_seqs :: "ledger \<Rightarrow> string \<Rightarrow> string \<Rightarrow> (attribution_row \<times> int) list" where
  "attribution_seqs L k v =
     filter (\<lambda>(r, s). t_outcome r = k \<and> t_policy_version r = v) (joined t_event_id (lg_attributions L) L)"

definition attribution_chain :: "ledger \<Rightarrow> string \<Rightarrow> string \<Rightarrow> bool" where
  "attribution_chain L k v \<longleftrightarrow>
     linked None (map fst (attribution_seqs L k v)) \<and>
     sorted_wrt (<) (map snd (attribution_seqs L k v)) \<and>
     sorted_wrt (<) (map (\<lambda>(r, s). t_cutoff r) (attribution_seqs L k v))"

lemma distinct_joined: "distinct (map key rows) \<Longrightarrow> distinct (map (\<lambda>(r, s). key r) (joined key rows L))"
  by (induction rows) (auto simp: set_joined split: option.split)

lemma distinct_attribution_seqs:
  "ledger_keys L \<Longrightarrow> distinct (map t_event_id (map fst (attribution_seqs L k v)))"
  using distinct_joined [of t_event_id "lg_attributions L" L]
  by (simp add: attribution_seqs_def ledger_keys_def distinct_map_filter comp_def case_prod_unfold)

text \<open>The snapshot at a cutoff is a prefix of the chain, and its last link is the effective row.\<close>

definition snapshot_rows :: "ledger \<Rightarrow> string \<Rightarrow> string \<Rightarrow> int \<Rightarrow> attribution_row list" where
  "snapshot_rows L k v c = map fst (filter (\<lambda>(r, s). s \<le> c) (attribution_seqs L k v))"

lemma effective_attribution_snapshot:
  assumes "attribution_chain L k v" "ledger_keys L"
  shows "effective_attribution L k v c =
    Inr (if snapshot_rows L k v c = [] then None else Some (last (snapshot_rows L k v c)))"
proof -
  obtain n where n: "filter (\<lambda>(r, s). s \<le> c) (attribution_seqs L k v) = take n (attribution_seqs L k v)"
    using filter_sorted_take assms(1) unfolding attribution_chain_def by blast
  have rows: "snapshot_rows L k v c = take n (map fst (attribution_seqs L k v))"
    by (simp add: snapshot_rows_def n take_map)
  have "linked None (snapshot_rows L k v c)"
    unfolding rows using assms(1) by (intro linked_take) (simp add: attribution_chain_def)
  moreover have "distinct (map t_event_id (snapshot_rows L k v c))"
    using distinct_attribution_seqs [OF assms(2), of k v]
    unfolding rows take_map [symmetric] by (metis distinct_take take_map)
  ultimately have "filter (\<lambda>r. t_event_id r \<notin> set (List.map_filter t_supersedes (snapshot_rows L k v c)))
      (snapshot_rows L k v c) = (if snapshot_rows L k v c = [] then [] else [last (snapshot_rows L k v c)])"
    by (rule linked_tips)
  moreover have "map fst (filter (\<lambda>(r, s). t_outcome r = k \<and> t_policy_version r = v \<and> s \<le> c)
      (joined t_event_id (lg_attributions L) L)) = snapshot_rows L k v c"
    by (simp add: snapshot_rows_def attribution_seqs_def case_prod_unfold conj_ac)
  ultimately show ?thesis by (simp add: effective_attribution_def Let_def)
qed

subsection \<open>Every reachable ledger\<close>

lemma joined_all_seq: "(r, s) \<in> set (joined key rows L) \<Longrightarrow> s \<in> set (map e_seq (lg_events L))"
  by (auto simp: set_joined seq_of_def dest!: find_Some_in)

lemma snapshot_all:
  assumes "ledger_maximum L = Some m"
  shows "snapshot_rows L k v m = map fst (attribution_seqs L k v)"
proof -
  have "s \<le> m" if "(r, s) \<in> set (attribution_seqs L k v)" for r s
  proof -
    have "(r, s) \<in> set (joined t_event_id (lg_attributions L) L)" using that by (simp add: attribution_seqs_def)
    then show ?thesis using ledger_maximum_ge [OF assms] joined_all_seq by metis
  qed
  then have "filter (\<lambda>(r, s). s \<le> m) (attribution_seqs L k v) = attribution_seqs L k v"
    by (intro filter_True) auto
  then show ?thesis by (simp add: snapshot_rows_def)
qed

lemma no_maximum_no_rows: "ledger_maximum L = None \<Longrightarrow> attribution_seqs L k v = []"
proof -
  assume "ledger_maximum L = None"
  then have "lg_events L = []" by (auto simp: ledger_maximum_def split: list.splits)
  then have "joined t_event_id rows L = []" for rows :: "attribution_row list"
    by (induction rows) (auto simp: seq_of_def)
  then show ?thesis by (simp add: attribution_seqs_def)
qed

text \<open>The effective attribution at the ledger's maximum is the last of all.\<close>

lemma effective_last:
  assumes "attribution_chain L k v" "ledger_keys L" "rows = map fst (attribution_seqs L k v)"
  shows "(case ledger_maximum L of None \<Rightarrow> Inr None | Some m \<Rightarrow> effective_attribution L k v m)
    = Inr (if rows = [] then None else Some (last rows))"
  using effective_attribution_snapshot [OF assms(1,2)] snapshot_all [of L _ k v] no_maximum_no_rows [of L k v] assms(3)
  by (auto split: option.split)

lemma attribution_seqs_write:
  assumes "write_event e L = Inr L'" "en_event_id e \<notin> event_ids L" "ledger_keys L" "ledger_refs L"
  shows "attribution_seqs L' k v = attribution_seqs L k v @
    map (\<lambda>r. (r, lg_seq L + 1)) (filter (\<lambda>r. t_outcome r = k \<and> t_policy_version r = v)
      (new_attributions e (en_payload e)))"
proof -
  have old: "joined t_event_id (lg_attributions L) L' = joined t_event_id (lg_attributions L) L"
    by (rule joined_kept [OF write_extends [OF assms(1,2)]]) (use refs_keys(4) [OF assms(4)] in simp)
  have new: "joined t_event_id (new_attributions e (en_payload e)) L' =
      map (\<lambda>r. (r, lg_seq L + 1)) (new_attributions e (en_payload e))"
    using new_event_seq [OF assms(3,2,1)] by (cases "en_payload e") (auto simp: attribution_row_of_def)
  show ?thesis
    by (simp add: attribution_seqs_def write_event_tables(9) [OF assms(1)] old new filter_map comp_def)
qed

lemma attribution_seqs_bound:
  "ledger_keys L \<Longrightarrow> (r, s) \<in> set (attribution_seqs L k v) \<Longrightarrow> s \<le> lg_seq L"
  using seq_of_bound by (fastforce simp: attribution_seqs_def set_joined)

lemma attribution_seqs_rows: "(r, s) \<in> set (attribution_seqs L k v) \<Longrightarrow> r \<in> set (lg_attributions L)"
  by (simp add: attribution_seqs_def set_joined)

text \<open>What the collector checked of an accepted attribution: it is the next link.\<close>

lemma next_link:
  assumes "attribution_chain L k v" "ledger_keys L" "validate_attribution_supersession L p = None"
    "k = oa_outcome_event_id p" "v = oa_policy_version p" "rows = map fst (attribution_seqs L k v)"
  shows "oa_supersedes p = (if rows = [] then None else Some (t_event_id (last rows)))"
    "rows \<noteq> [] \<Longrightarrow> t_cutoff (last rows) < oa_ingest_cutoff p"
proof -
  have cur: "(case ledger_maximum L of None \<Rightarrow> Inr None
      | Some m \<Rightarrow> effective_attribution L (oa_outcome_event_id p) (oa_policy_version p) m) =
      Inr (if rows = [] then None else Some (last rows))"
    using effective_last [OF assms(1,2,6)] by (simp only: assms(4,5))
  note check = assms(3) [unfolded validate_attribution_supersession_def cur sum.case]
  have "oa_supersedes p = (if rows = [] then None else Some (t_event_id (last rows))) \<and>
      (rows \<noteq> [] \<longrightarrow> t_cutoff (last rows) < oa_ingest_cutoff p)"
  proof (cases "oa_supersedes p")
    case None
    then show ?thesis using check by (auto split: if_splits)
  next
    case (Some sup)
    obtain target where t: "attribution_at L sup = Some target" "rows \<noteq> []" "t_event_id (last rows) = sup"
      "t_cutoff target < oa_ingest_cutoff p"
      using check by (auto simp: Some split: option.splits if_splits)
    have "last rows \<in> fst ` set (attribution_seqs L k v)" using last_in_set [OF t(2)] by (simp add: assms(6))
    then have "last rows \<in> set (lg_attributions L)" using attribution_seqs_rows by fastforce
    moreover have "distinct (map t_event_id (lg_attributions L))" using assms(2) by (simp add: ledger_keys_def)
    ultimately have "target = last rows"
      using t(1,3) find_distinct_key [of t_event_id "lg_attributions L" "last rows"] by (simp add: attribution_at_def)
    then show ?thesis using t by (simp add: Some)
  qed
  then show "oa_supersedes p = (if rows = [] then None else Some (t_event_id (last rows)))"
    "rows \<noteq> [] \<Longrightarrow> t_cutoff (last rows) < oa_ingest_cutoff p" by simp_all
qed

lemma chain_snoc:
  assumes "attribution_chain L k v" "attribution_seqs L' k v = attribution_seqs L k v @ [(r, n)]"
    "\<forall>(x, s)\<in>set (attribution_seqs L k v). s < n"
    "t_supersedes r = (if attribution_seqs L k v = [] then None else Some (t_event_id (fst (last (attribution_seqs L k v)))))"
    "attribution_seqs L k v \<noteq> [] \<Longrightarrow> t_cutoff (fst (last (attribution_seqs L k v))) < t_cutoff r"
  shows "attribution_chain L' k v"
proof -
  let ?xs = "attribution_seqs L k v"
  have c: "linked None (map fst ?xs)" "sorted_wrt (<) (map snd ?xs)" "sorted_wrt (<) (map (\<lambda>(r, s). t_cutoff r) ?xs)"
    using assms(1) by (simp_all add: attribution_chain_def)
  have "t_cutoff (fst x) < t_cutoff r" if "x \<in> set ?xs" for x
  proof (cases ?xs rule: rev_cases)
    case (snoc ys y)
    then have "t_cutoff (fst x) \<le> t_cutoff (fst y)"
      using c(3) that by (auto simp: sorted_wrt_append case_prod_unfold)
    then show ?thesis using assms(5) snoc by simp
  qed (use that in simp)
  then show ?thesis
    using c assms(3,4)
    by (auto simp: attribution_chain_def assms(2) linked_snoc sorted_wrt_append last_map case_prod_unfold)
qed

lemma reachable_chain: "reachable L \<Longrightarrow> attribution_chain L k v"
proof (induction rule: reachable_write)
  case empty
  show ?case by (simp add: attribution_chain_def attribution_seqs_def empty_ledger_def)
next
  case (accept L e L')
  note ok = reachable_keys [OF accept(1)] reachable_refs [OF accept(1)]
  note seqs = attribution_seqs_write [OF accept(6,3) ok, of k v]
  show ?case
  proof (cases "\<exists>p. en_payload e = OutcomeAttributed p \<and> k = oa_outcome_event_id p \<and> v = oa_policy_version p")
    case True
    then obtain p where p: "en_payload e = OutcomeAttributed p" "k = oa_outcome_event_id p" "v = oa_policy_version p"
      by blast
    have "validate_attribution L e p = None" using accept(5) p(1) by simp
    note nl = next_link [OF accept(7) ok(1) validate_attribution_None(3) [OF this] p(2,3) refl]
    show ?thesis
    proof (rule chain_snoc [OF accept(7), where r = "attribution_row_of e p" and n = "lg_seq L + 1"])
      show "attribution_seqs L' k v = attribution_seqs L k v @ [(attribution_row_of e p, lg_seq L + 1)]"
        using seqs by (simp add: p attribution_row_of_def)
      show "\<forall>(x, s)\<in>set (attribution_seqs L k v). s < lg_seq L + 1"
        using attribution_seqs_bound [OF ok(1)] by fastforce
    qed (use nl in \<open>auto simp: attribution_row_of_def last_map\<close>)
  next
    case False
    then have "attribution_seqs L' k v = attribution_seqs L k v"
      using seqs by (cases "en_payload e") (auto simp: attribution_row_of_def)
    then show ?thesis using accept(7) by (simp add: attribution_chain_def)
  qed
qed

text \<open>C35: In a reachable ledger the effective attribution of an outcome version is never ambiguous, at any
  cutoff: it is the last attribution of the snapshot, each of which supersedes the one before it at a
  strictly newer cutoff.\<close>
theorem effective_attribution_unique:
  assumes "reachable L"
  shows "effective_attribution L k v c =
      Inr (if snapshot_rows L k v c = [] then None else Some (last (snapshot_rows L k v c))) \<and>
    linked None (map fst (attribution_seqs L k v)) \<and>
    sorted_wrt (<) (map (\<lambda>(r, s). t_cutoff r) (attribution_seqs L k v))"
  using effective_attribution_snapshot [OF reachable_chain [OF assms] reachable_keys [OF assms]]
    reachable_chain [OF assms] unfolding attribution_chain_def by blast

theorem effective_attribution_unique_witness: "effective_attribution run6 ''out'' POLICY_VERSION 6 = Inr None"
  using effective_attribution_unique [OF run_reachable(6), of "''out''" POLICY_VERSION 6]
  by (simp add: snapshot_rows_def attribution_seqs_def run_tables)

end
