(* ===== verification/Reconstruct.thy ===== *)
theory Reconstruct
  imports Example_Run
begin

text \<open>
  \<open>replay/reconstruct.py\<close>: \<open>R(Lh(d), H(d))\<close>, the exact reconstruction of a recorded decision from
  the projection tables (the branches for CRM v3 and capture v2 decisions, which live in tables
  outside the model, are not taken).  Main results: a reconstruction that returns equals the
  record and rests on verified content (\<open>reconstruct_InrD\<close>), it never reads evidence later than the
  boundary, in a ledger written by the collector verification never fails
  (\<open>reachable_verify\<close>, \<open>reachable_load_context\<close>), and appends never change it (\<open>reconstruct_kept\<close>).
\<close>

subsection \<open>Failures and row views\<close>

text \<open>
  \<open>IntegrityFailure\<close> and \<open>ReconstructionMismatch\<close> carry the field they name.  The last two are the
  exceptions the function lets through: those of \<open>parse_boundary\<close> and \<open>evaluate\<close>, and the
  \<open>ValueError\<close> of a stored value or date text that does not decode.
\<close>

datatype reconstruction_error =
    DecisionNotFound string
  | ArtifactMissing string
  | IntegrityFailure string
  | ReconstructionMismatch string
  | EvaluationFailed evaluation_error
  | StoredValueError string

record verified_artifact =
  vf_artifact :: logic_artifact
  vf_stored_hash :: string
  vf_recomputed_hash :: string
  vf_runtime :: string

record reconstruction =
  rc_decision_event_id :: string
  rc_artifact_hash :: string
  rc_logic_version :: string
  rc_evaluator_version :: string
  rc_boundary :: utc
  rc_result :: evaluation_result
  rc_stored_hash :: string
  rc_recomputed_hash :: string
  rc_runtime :: string

subsection \<open>Verification\<close>

text \<open>
  A non-finite float in the text is refused by \<open>parse_constant\<close>; a finite one, which no strict
  model admits, is hashed by its token, so such a text is refused at the hash or at the schema.
\<close>

definition decode_artifact_json :: "string \<Rightarrow> reconstruction_error + json" where
  "decode_artifact_json text =
     (case json_loads_gen FiniteOnly text of
        Some (JObj kvs) \<Rightarrow> Inr (JObj kvs)
      | _ \<Rightarrow> Inl (IntegrityFailure ''artifact_json''))"

definition check_fields :: "(string \<times> string \<times> string) list \<Rightarrow> reconstruction_error option" where
  "check_fields fs = first_failure (map (\<lambda>(n, row, content). raise_if (row \<noteq> content) (IntegrityFailure n)) fs)"

lemma check_fields_None [simp]: "check_fields fs = None \<longleftrightarrow> (\<forall>(n, row, content)\<in>set fs. row = content)"
  by (auto simp: check_fields_def simp del: first_failure.simps)

definition verify_artifact_row ::
    "artifact_row option \<Rightarrow> string \<Rightarrow> string option \<Rightarrow> reconstruction_error + verified_artifact" where
  "verify_artifact_row row_opt wanted runtime_opt =
     (let runtime = (case runtime_opt of None \<Rightarrow> EVALUATOR_VERSION | Some v \<Rightarrow> v)
      in case row_opt of
           None \<Rightarrow> Inl (ArtifactMissing wanted)
         | Some row \<Rightarrow>
             bindE (decode_artifact_json (l_json row)) (\<lambda>content.
               let recomputed = canonical_hash content
               in if recomputed \<noteq> l_hash row then Inl (IntegrityFailure ''artifact_hash'')
                  else case artifact_of_json content of
                    None \<Rightarrow> Inl (IntegrityFailure ''artifact_schema'')
                  | Some a \<Rightarrow>
                      (case check_fields
                          [(''artifact_id'', l_artifact_id row, la_artifact_id a),
                           (''artifact_schema_version'', l_schema_version row, la_schema_version a),
                           (''logic_version'', l_logic_version row, la_logic_version a),
                           (''decision_class'', l_decision_class row, la_decision_class a),
                           (''evaluator_version'', l_evaluator_version row, la_evaluator_version a)] of
                         Some e \<Rightarrow> Inl e
                       | None \<Rightarrow>
                           if la_evaluator_version a \<noteq> runtime then Inl (IntegrityFailure ''evaluator_version'')
                           else Inr \<lparr>vf_artifact = a, vf_stored_hash = l_hash row,
                             vf_recomputed_hash = recomputed, vf_runtime = runtime\<rparr>)))"

definition verify_artifact ::
    "artifact_row option \<Rightarrow> decision_row \<Rightarrow> string option \<Rightarrow> reconstruction_error + verified_artifact" where
  "verify_artifact row_opt d runtime_opt =
     bindE (verify_artifact_row row_opt (d_hash d) runtime_opt) (\<lambda>vf.
       if vf_recomputed_hash vf \<noteq> d_hash d then Inl (IntegrityFailure ''artifact_hash'')
       else case check_fields
           [(''logic_version'', d_logic_version d, la_logic_version (vf_artifact vf)),
            (''decision_class'', d_class d, la_decision_class (vf_artifact vf)),
            (''evaluator_version'', d_evaluator_version d, la_evaluator_version (vf_artifact vf))] of
          Some e \<Rightarrow> Inl e
        | None \<Rightarrow> Inr vf)"

subsection \<open>Comparison with the record\<close>

definition recorded_triples :: "consumed_row list \<Rightarrow> (string \<times> string option \<times> int) list" where
  "recorded_triples us = map (\<lambda>u. (u_input_key u, Some (u_evidence u), u_contribution u)) us"

definition compare_with_recorded ::
    "evaluation_result \<Rightarrow> decision_row \<Rightarrow> consumed_row list \<Rightarrow> reconstruction_error option" where
  "compare_with_recorded r d us = first_failure
     [raise_if (d_score d \<noteq> rs_score r) (ReconstructionMismatch ''score''),
      raise_if (d_threshold d \<noteq> rs_threshold r) (ReconstructionMismatch ''threshold''),
      raise_if (d_output d \<noteq> rs_output r) (ReconstructionMismatch ''output''),
      raise_if (set (recorded_triples us) \<noteq> set (consumed_triples r)) (ReconstructionMismatch ''consumed_inputs'')]"

definition as_recorded :: "evaluation_result \<Rightarrow> decision_row \<Rightarrow> consumed_row list \<Rightarrow> bool" where
  "as_recorded r d us \<longleftrightarrow>
     rs_score r = d_score d \<and> rs_threshold r = d_threshold d \<and> rs_output r = d_output d \<and>
     set (consumed_triples r) = set (recorded_triples us)"

lemma compare_with_recorded_None: "compare_with_recorded r d us = None \<longleftrightarrow> as_recorded r d us"
  by (auto simp: compare_with_recorded_def as_recorded_def simp del: first_failure.simps)

subsection \<open>Loading\<close>

definition load_decision_row :: "ledger \<Rightarrow> string \<Rightarrow> reconstruction_error + decision_row" where
  "load_decision_row L k =
     opt_to_sum (DecisionNotFound k) (find (\<lambda>d. d_event_id d = k) (lg_decisions L))"

definition load_artifact_row :: "ledger \<Rightarrow> string \<Rightarrow> artifact_row option" where
  "load_artifact_row L h = find (\<lambda>a. l_hash a = h) (lg_artifacts L)"

text \<open>The two columns read of one evidence version: \<open>observed_at\<close> as a date, \<open>available_at\<close>.\<close>

definition load_evidence_version :: "ledger \<Rightarrow> string \<Rightarrow> reconstruction_error + date option \<times> string" where
  "load_evidence_version L k =
     (case find (\<lambda>v. v_version_id v = k) (lg_evidence L) of
        None \<Rightarrow> Inl (IntegrityFailure ''evidence_version_id'')
      | Some v \<Rightarrow>
          (case v_observed_at v of
             None \<Rightarrow> Inr (None, v_available_at v)
           | Some s \<Rightarrow>
               (case parse_date s of
                  None \<Rightarrow> Inl (StoredValueError s)
                | Some d \<Rightarrow> Inr (Some d, v_available_at v))))"

definition load_entry :: "ledger \<Rightarrow> string \<Rightarrow> context_row \<Rightarrow> reconstruction_error + context_input" where
  "load_entry L boundary h =
     bindE (case h_evidence h of
              None \<Rightarrow> Inr None
            | Some v \<Rightarrow>
                bindE (load_evidence_version L v) (\<lambda>(observed, available).
                  if boundary < available then Inl (IntegrityFailure ''available_at'') else Inr observed))
       (\<lambda>observed.
         bindE (case h_value_text h of
                  None \<Rightarrow> Inr JNull
                | Some t \<Rightarrow> opt_to_sum (StoredValueError t) (json_loads t))
           (\<lambda>value. Inr \<lparr>cx_key = h_input_key h, cx_availability = h_availability h, cx_value = value,
              cx_evidence = h_evidence h, cx_observed_at = observed\<rparr>))"

definition context_rows :: "ledger \<Rightarrow> string \<Rightarrow> context_row list" where
  "context_rows L k = sort_key h_input_key (filter (\<lambda>h. h_decision h = k) (lg_context L))"

definition load_context :: "ledger \<Rightarrow> string \<Rightarrow> string \<Rightarrow> reconstruction_error + context_input list" where
  "load_context L k boundary = mapE (load_entry L boundary) (context_rows L k)"

definition load_consumed_inputs :: "ledger \<Rightarrow> string \<Rightarrow> consumed_row list" where
  "load_consumed_inputs L k = sort_key u_input_key (filter (\<lambda>u. u_decision u = k) (lg_consumed L))"

subsection \<open>The reconstruction\<close>

definition lift_evaluation :: "evaluation_error + 'a \<Rightarrow> reconstruction_error + 'a" where
  "lift_evaluation x = (case x of Inl e \<Rightarrow> Inl (EvaluationFailed e) | Inr a \<Rightarrow> Inr a)"

lemma lift_evaluation_Inr [simp]: "lift_evaluation x = Inr a \<longleftrightarrow> x = Inr a"
  by (auto simp: lift_evaluation_def split: sum.splits)

definition reconstruct :: "ledger \<Rightarrow> string \<Rightarrow> reconstruction_error + reconstruction" where
  "reconstruct L k =
     bindE (load_decision_row L k) (\<lambda>d.
     bindE (verify_artifact (load_artifact_row L (d_hash d)) d None) (\<lambda>vf.
     bindE (lift_evaluation (lift_rule (parse_boundary (d_boundary d)))) (\<lambda>b.
     bindE (load_context L k (d_boundary d)) (\<lambda>ctx.
     bindE (lift_evaluation (evaluate (vf_artifact vf) ctx (Aware b 0))) (\<lambda>res.
       case compare_with_recorded res d (load_consumed_inputs L k) of
         Some e \<Rightarrow> Inl e
       | None \<Rightarrow> Inr
           \<lparr>rc_decision_event_id = d_event_id d, rc_artifact_hash = vf_recomputed_hash vf,
            rc_logic_version = la_logic_version (vf_artifact vf),
            rc_evaluator_version = la_evaluator_version (vf_artifact vf), rc_boundary = b, rc_result = res,
            rc_stored_hash = vf_stored_hash vf, rc_recomputed_hash = vf_recomputed_hash vf,
            rc_runtime = vf_runtime vf\<rparr>)))))"

subsection \<open>What verification establishes\<close>

lemma check_Inr:
  "(case c of None \<Rightarrow> m | Some e \<Rightarrow> Inl e) = Inr y \<longleftrightarrow> c = None \<and> m = Inr y"
  "(if b then Inl e else m) = Inr y \<longleftrightarrow> \<not> b \<and> m = Inr y"
  "(case z of None \<Rightarrow> Inl e | Some a \<Rightarrow> f a) = Inr y \<longleftrightarrow> (\<exists>a. z = Some a \<and> f a = Inr y)"
  by (auto split: option.splits)

text \<open>The stored text is the canonical content of the row's own hash and of its columns.\<close>

definition verified_row :: "artifact_row \<Rightarrow> logic_artifact \<Rightarrow> bool" where
  "verified_row row a \<longleftrightarrow>
     (\<exists>kvs. json_loads_gen FiniteOnly (l_json row) = Some (JObj kvs) \<and> canonical_hash (JObj kvs) = l_hash row \<and>
        artifact_of_json (JObj kvs) = Some a) \<and>
     l_artifact_id row = la_artifact_id a \<and> l_schema_version row = la_schema_version a \<and>
     l_logic_version row = la_logic_version a \<and> l_decision_class row = la_decision_class a \<and>
     l_evaluator_version row = la_evaluator_version a"

lemma decode_artifact_json_Inr:
  "decode_artifact_json t = Inr c \<longleftrightarrow> (\<exists>kvs. json_loads_gen FiniteOnly t = Some (JObj kvs) \<and> c = JObj kvs)"
  by (auto simp: decode_artifact_json_def split: option.splits json.splits)

lemma verify_artifact_row_Inr:
  "verify_artifact_row row_opt wanted None = Inr vf \<longleftrightarrow>
     (\<exists>row. row_opt = Some row \<and> verified_row row (vf_artifact vf) \<and>
        la_evaluator_version (vf_artifact vf) = EVALUATOR_VERSION \<and> vf_stored_hash vf = l_hash row \<and>
        vf_recomputed_hash vf = l_hash row \<and> vf_runtime vf = EVALUATOR_VERSION)"
  unfolding verify_artifact_row_def Let_def check_Inr bindE_eq_Inr decode_artifact_json_Inr verified_row_def
    option.case(1) check_fields_None
  by (cases vf) (simp, blast)

lemma verify_artifact_Inr:
  "verify_artifact row_opt d None = Inr vf \<longleftrightarrow>
     verify_artifact_row row_opt (d_hash d) None = Inr vf \<and> vf_recomputed_hash vf = d_hash d \<and>
     d_logic_version d = la_logic_version (vf_artifact vf) \<and> d_class d = la_decision_class (vf_artifact vf) \<and>
     d_evaluator_version d = la_evaluator_version (vf_artifact vf)"
  by (auto simp: verify_artifact_def split: option.splits if_splits)

lemma reconstruct_Inr_iff:
  "reconstruct L k = Inr r \<longleftrightarrow>
     (\<exists>d vf b ctx res. find (\<lambda>d. d_event_id d = k) (lg_decisions L) = Some d \<and>
        verify_artifact (load_artifact_row L (d_hash d)) d None = Inr vf \<and>
        parse_boundary (d_boundary d) = Inr b \<and> load_context L k (d_boundary d) = Inr ctx \<and>
        evaluate (vf_artifact vf) ctx (Aware b 0) = Inr res \<and>
        as_recorded res d (load_consumed_inputs L k) \<and>
        \<lparr>rc_decision_event_id = d_event_id d, rc_artifact_hash = vf_recomputed_hash vf,
         rc_logic_version = la_logic_version (vf_artifact vf),
         rc_evaluator_version = la_evaluator_version (vf_artifact vf), rc_boundary = b, rc_result = res,
         rc_stored_hash = vf_stored_hash vf, rc_recomputed_hash = vf_recomputed_hash vf,
         rc_runtime = vf_runtime vf\<rparr> = r)"
  unfolding reconstruct_def load_decision_row_def lift_rule_simps lift_evaluation_Inr bindE_eq_Inr
    check_Inr compare_with_recorded_None opt_to_sum_simps
  by (simp only: ex_simps simp_thms conj_assoc sum.inject)

lemma set_load_consumed_inputs [simp]:
  "set (load_consumed_inputs L k) = {u \<in> set (lg_consumed L). u_decision u = k}"
  by (simp add: load_consumed_inputs_def)

lemma set_context_rows [simp]: "set (context_rows L k) = {h \<in> set (lg_context L). h_decision h = k}"
  by (simp add: context_rows_def)

subsection \<open>The preserved context\<close>

lemma load_entry_Inr:
  "load_entry L b h = Inr x \<longleftrightarrow>
     cx_key x = h_input_key h \<and> cx_availability x = h_availability h \<and> cx_evidence x = h_evidence h \<and>
     (case h_value_text h of None \<Rightarrow> cx_value x = JNull | Some t \<Rightarrow> json_loads t = Some (cx_value x)) \<and>
     (case h_evidence h of
        None \<Rightarrow> cx_observed_at x = None
      | Some v \<Rightarrow>
          (\<exists>row. find (\<lambda>r. v_version_id r = v) (lg_evidence L) = Some row \<and> v_available_at row \<le> b \<and>
             (case v_observed_at row of
                None \<Rightarrow> cx_observed_at x = None
              | Some s \<Rightarrow> (\<exists>d. parse_date s = Some d \<and> cx_observed_at x = Some d))))"
  by (cases x) (auto simp: load_entry_def load_evidence_version_def opt_to_sum_def check_Inr(2) split: option.splits)

text \<open>INV-02 at the read: no loaded reference is later than the boundary.\<close>

lemma load_context_available:
  assumes "load_context L k b = Inr ctx" "h \<in> set (lg_context L)" "h_decision h = k" "h_evidence h = Some v"
  shows "\<exists>row\<in>set (lg_evidence L). v_version_id row = v \<and> v_available_at row \<le> b"
proof -
  have "list_all2 (\<lambda>h x. load_entry L b h = Inr x) (context_rows L k) ctx"
    using assms(1) by (simp add: load_context_def mapE_Inr_iff)
  then obtain x where "load_entry L b h = Inr x"
    using list_all2_left assms(2,3) by (metis (mono_tags, lifting) mem_Collect_eq set_context_rows)
  then show ?thesis using assms(4) by (auto simp: load_entry_Inr dest!: find_Some_in)
qed

subsection \<open>In a ledger written by the collector\<close>

lemma reachable_values:
  "reachable L \<Longrightarrow> \<forall>h\<in>set (lg_context L). \<forall>t. h_value_text h = Some t \<longrightarrow> (\<exists>j. is_scalar j \<and> t = canonical_text j)"
proof (induction rule: reachable_write)
  case empty
  show ?case by (simp add: empty_ledger_def)
next
  case (accept L e L')
  have "payload_fields (en_payload e)" using accept(2) by (simp add: valid_envelope_iff envelope_fields_def)
  then have "\<forall>h\<in>set (new_context e (en_payload e)). \<forall>t. h_value_text h = Some t \<longrightarrow>
      (\<exists>j. is_scalar j \<and> t = canonical_text j)"
    by (cases "en_payload e")
      (auto simp: decision_fields_def context_entry_fields_def context_row_of_def list_all_iff split: if_splits)
  then show ?case using accept(7) by (auto simp: write_event_tables(6) [OF accept(6)])
qed

lemma load_artifact_row_kept:
  assumes "ledger_keys L" "a \<in> set (lg_artifacts L)"
  shows "load_artifact_row L (l_hash a) = Some a"
  using assms by (simp add: load_artifact_row_def ledger_keys_def find_distinct_key)

lemma find_decision: "ledger_keys L \<Longrightarrow> d \<in> set (lg_decisions L) \<Longrightarrow>
    find (\<lambda>x. d_event_id x = d_event_id d) (lg_decisions L) = Some d"
  by (simp add: ledger_keys_def find_distinct_key)

lemma find_evidence: "ledger_keys L \<Longrightarrow> v \<in> set (lg_evidence L) \<Longrightarrow>
    find (\<lambda>x. v_version_id x = v_version_id v) (lg_evidence L) = Some v"
  by (simp add: ledger_keys_def find_distinct_key)

lemma artifact_row_verified:
  assumes "valid_artifact a"
  shows "verified_row (artifact_row_of e a) a"
proof -
  have "json_loads_gen FiniteOnly (canonical_text (dump_artifact a)) = Some (jnorm (dump_artifact a))"
    by (rule json_loads_canonical) simp
  moreover obtain kvs where "jnorm (dump_artifact a) = JObj kvs" by (simp add: dump_artifact_def)
  ultimately show ?thesis
    using artifact_of_dump [OF assms] canonical_jnorm [of "dump_artifact a"]
    unfolding verified_row_def canonical_hash_def by (simp add: artifact_row_of_def canonical_hash_def)
qed

lemma reachable_verify:
  assumes "reachable L" "d \<in> set (lg_decisions L)" "d_evaluator_version d = EVALUATOR_VERSION"
  shows "\<exists>vf. verify_artifact (load_artifact_row L (d_hash d)) d None = Inr vf"
proof -
  obtain row where row: "row \<in> set (lg_artifacts L)" "l_hash row = d_hash d"
    "l_logic_version row = d_logic_version d" "l_evaluator_version row = d_evaluator_version d"
    "l_decision_class row = d_class d"
    using reachable_decisions [OF assms(1)] assms(2) unfolding decision_sound_def by blast
  obtain a e where a: "valid_artifact a" "row = artifact_row_of e a"
    using reachable_artifacts [OF assms(1)] row(1) unfolding artifact_sound_def by blast
  have "load_artifact_row L (d_hash d) = Some row"
    using load_artifact_row_kept [OF reachable_keys [OF assms(1)] row(1)] row(2) by simp
  moreover have "verified_row row a" unfolding a(2) by (rule artifact_row_verified [OF a(1)])
  ultimately show ?thesis
    using row(2-) assms(3)
    by (intro exI [of _ "\<lparr>vf_artifact = a, vf_stored_hash = d_hash d, vf_recomputed_hash = d_hash d,
          vf_runtime = EVALUATOR_VERSION\<rparr>"])
      (simp add: verify_artifact_Inr verify_artifact_row_Inr verified_row_def)
qed

lemma reachable_boundary:
  assumes "reachable L" "d \<in> set (lg_decisions L)"
  shows "\<exists>b. parse_boundary (d_boundary d) = Inr b"
proof -
  obtain u where "valid_utc u" "d_boundary d = format_utc u"
    using reachable_times [OF assms(1)] assms(2) unfolding ledger_times_def stored_time_def by blast
  then show ?thesis by (simp add: parse_boundary_def parse_datetime_format to_utc_def)
qed

lemma reachable_entry:
  assumes "reachable L" "d \<in> set (lg_decisions L)" "h \<in> set (lg_context L)" "h_decision h = d_event_id d"
  shows "\<exists>x. load_entry L (d_boundary d) h = Inr x"
proof -
  have snd: "decision_sound L d" using reachable_decisions [OF assms(1)] assms(2) by blast
  have val: "\<exists>j. json_loads t = Some j" if "h_value_text h = Some t" for t
    using reachable_values [OF assms(1)] assms(3) that json_loads_canonical unfolding json_loads_def
    by (metis plain_scalar)
  show ?thesis
  proof (cases "h_availability h = ''available''")
    case True
    then obtain v t where v: "h_evidence h = Some v" "h_value_text h = Some t"
      "reference_sound L d v (h_input_key h) t"
      using snd assms(3,4) unfolding decision_sound_def by blast
    then obtain x where x: "x \<in> set (lg_evidence L)" "v_version_id x = v" "v_available_at x \<le> d_boundary d"
      unfolding reference_sound_def by blast
    have f: "find (\<lambda>r. v_version_id r = v) (lg_evidence L) = Some x"
      using find_evidence [OF reachable_keys [OF assms(1)] x(1)] x(2) by simp
    have "\<exists>od. (case v_observed_at x of None \<Rightarrow> od = None | Some s \<Rightarrow> (\<exists>d. parse_date s = Some d \<and> od = Some d))"
    proof (cases "v_observed_at x")
      case (Some s)
      then obtain d where "valid_date d" "s = iso_date d"
        using reachable_times [OF assms(1)] x(1) unfolding ledger_times_def by blast
      then show ?thesis using Some parse_date_iso by auto
    qed simp
    then obtain od where od: "case v_observed_at x of None \<Rightarrow> od = None
        | Some s \<Rightarrow> (\<exists>d. parse_date s = Some d \<and> od = Some d)" by blast
    obtain j where j: "json_loads t = Some j" using val [OF v(2)] by blast
    show ?thesis
      by (intro exI [of _ "\<lparr>cx_key = h_input_key h, cx_availability = h_availability h, cx_value = j,
            cx_evidence = h_evidence h, cx_observed_at = od\<rparr>"])
        (use f x od j v in \<open>simp add: load_entry_Inr split: option.splits\<close>)
  next
    case False
    then have n: "h_evidence h = None" "h_value_text h = None"
      using snd assms(3,4) unfolding decision_sound_def by blast+
    show ?thesis
      by (intro exI [of _ "\<lparr>cx_key = h_input_key h, cx_availability = h_availability h, cx_value = JNull,
            cx_evidence = None, cx_observed_at = None\<rparr>"]) (simp add: load_entry_Inr n)
  qed
qed

lemma reachable_load_context:
  assumes "reachable L" "d \<in> set (lg_decisions L)"
  shows "\<exists>ctx. load_context L (d_event_id d) (d_boundary d) = Inr ctx"
proof -
  have "mapE (load_entry L (d_boundary d)) (context_rows L (d_event_id d)) \<noteq> Inl e" for e
    using mapE_Inl reachable_entry [OF assms] by fastforce
  then show ?thesis unfolding load_context_def by (meson old.sum.exhaust)
qed

subsection \<open>Appends change no reconstruction\<close>

lemma reconstruct_kept:
  assumes "extends L L'" "ledger_keys L" "ledger_refs L" "k \<in> d_event_id ` set (lg_decisions L)"
  shows "reconstruct L' k = reconstruct L k"
proof -
  have new: "k \<in> event_ids L" using refs_keys(1) [OF assms(3)] assms(4) by blast
  obtain d where d: "find (\<lambda>d. d_event_id d = k) (lg_decisions L) = Some d"
    using assms(4) by (cases "find (\<lambda>d. d_event_id d = k) (lg_decisions L)") (auto simp: find_None_iff)
  have kept: "grown (\<lambda>r. d_event_id r \<notin> event_ids L) (lg_decisions L) (lg_decisions L')"
    "grown (\<lambda>r. h_decision r \<notin> event_ids L) (lg_context L) (lg_context L')"
    "grown (\<lambda>r. u_decision r \<notin> event_ids L) (lg_consumed L) (lg_consumed L')"
    "grown (\<lambda>_. True) (lg_evidence L) (lg_evidence L')" "grown (\<lambda>_. True) (lg_artifacts L) (lg_artifacts L')"
    using assms(1) by (simp_all add: extends_def)
  have dec: "load_decision_row L' k = load_decision_row L k"
    using grown_find [OF kept(1), of "\<lambda>d. d_event_id d = k"] new unfolding load_decision_row_def by metis
  have ctx: "context_rows L' k = context_rows L k"
    using grown_filter [OF kept(2), of "\<lambda>h. h_decision h = k"] new unfolding context_rows_def by metis
  have con: "load_consumed_inputs L' k = load_consumed_inputs L k"
    using grown_filter [OF kept(3), of "\<lambda>u. u_decision u = k"] new unfolding load_consumed_inputs_def by metis
  have evid: "load_evidence_version L' v = load_evidence_version L v" if "v \<in> v_version_id ` set (lg_evidence L)" for v
    using kept(4) that unfolding load_evidence_version_def grown_def
    by (auto simp: find_append find_None_iff split: option.split)
  have entry: "load_entry L' b h = load_entry L b h" if "h \<in> set (context_rows L k)" for b h
    using assms(3) that evid unfolding load_entry_def
    by (auto simp: ledger_refs_def Let_def refs_in_def split: option.splits)
  have load: "load_context L' k b = load_context L k b" for b
    unfolding load_context_def ctx by (rule mapE_cong) (rule entry)
  have "d_hash d \<in> l_hash ` set (lg_artifacts L)"
    using assms(3) find_Some_in [OF d] by (auto simp: ledger_refs_def Let_def)
  then have art: "load_artifact_row L' (d_hash d) = load_artifact_row L (d_hash d)"
    using kept(5) unfolding load_artifact_row_def grown_def
    by (auto simp: find_append find_None_iff split: option.split)
  have dr: "load_decision_row L k = Inr d" by (simp add: load_decision_row_def d)
  show ?thesis unfolding reconstruct_def dec dr bindE_simps art load con ..
qed

subsection \<open>Properties\<close>

text \<open>C2: A reconstruction that returns is exact: score, threshold, output and the consumed triples are
  those recorded for the decision, and they are the evaluation, at the recorded boundary, of an artifact
  that verifies against the stored row of the decision's own hash under this runtime's evaluator.\<close>
theorem reconstruct_exact:
  assumes "reconstruct L k = Inr r"
  shows "\<exists>d\<in>set (lg_decisions L). \<exists>row\<in>set (lg_artifacts L). \<exists>a ctx. d_event_id d = k \<and>
    l_hash row = d_hash d \<and> verified_row row a \<and> la_evaluator_version a = EVALUATOR_VERSION \<and>
    load_context L k (d_boundary d) = Inr ctx \<and> evaluate a ctx (Aware (rc_boundary r) 0) = Inr (rc_result r) \<and>
    as_recorded (rc_result r) d (load_consumed_inputs L k) \<and> rc_artifact_hash r = d_hash d"
proof -
  obtain d vf b ctx res where s: "find (\<lambda>d. d_event_id d = k) (lg_decisions L) = Some d"
    "verify_artifact (load_artifact_row L (d_hash d)) d None = Inr vf"
    "load_context L k (d_boundary d) = Inr ctx" "evaluate (vf_artifact vf) ctx (Aware b 0) = Inr res"
    "as_recorded res d (load_consumed_inputs L k)" "rc_boundary r = b" "rc_result r = res"
    "rc_artifact_hash r = vf_recomputed_hash vf"
    using assms unfolding reconstruct_Inr_iff by force
  obtain row where row: "load_artifact_row L (d_hash d) = Some row" "verified_row row (vf_artifact vf)"
    "la_evaluator_version (vf_artifact vf) = EVALUATOR_VERSION" "vf_recomputed_hash vf = d_hash d"
    using s(2) unfolding verify_artifact_Inr verify_artifact_row_Inr by blast
  have "row \<in> set (lg_artifacts L)" "l_hash row = d_hash d"
    using row(1) by (auto simp: load_artifact_row_def dest!: find_Some_in)
  then show ?thesis
    using s row find_Some_in [OF s(1)]
    by (intro bexI [of _ d] bexI [of _ row] exI [of _ "vf_artifact vf"] exI [of _ ctx]) simp_all
qed

text \<open>C4: No reconstruction, in any ledger whatsoever, reads evidence that was not available by the
  decision boundary (INV-02): each reference of the preserved context, consumed or not, resolves to a
  stored version available at or before it.\<close>
theorem reconstruct_no_future_evidence:
  assumes "reconstruct L k = Inr r" "h \<in> set (lg_context L)" "h_decision h = k" "h_evidence h = Some v"
  shows "\<exists>d\<in>set (lg_decisions L). d_event_id d = k \<and>
    (\<exists>row\<in>set (lg_evidence L). v_version_id row = v \<and> v_available_at row \<le> d_boundary d)"
proof -
  obtain d ctx where "find (\<lambda>d. d_event_id d = k) (lg_decisions L) = Some d"
    "load_context L k (d_boundary d) = Inr ctx"
    using assms(1) unfolding reconstruct_Inr_iff by blast
  then show ?thesis
    using load_context_available [of L k "d_boundary d" ctx] assms(2-4) find_Some_in by fastforce
qed

lemma other_evaluator_refused:
  assumes "verified_row row a" "la_evaluator_version a \<noteq> EVALUATOR_VERSION"
  shows "verify_artifact_row (Some row) h None = Inl (IntegrityFailure ''evaluator_version'')"
proof -
  obtain kvs where kvs: "decode_artifact_json (l_json row) = Inr (JObj kvs)" "canonical_hash (JObj kvs) = l_hash row"
    "artifact_of_json (JObj kvs) = Some a"
    using assms(1) decode_artifact_json_Inr unfolding verified_row_def by blast
  have "check_fields [(''artifact_id'', l_artifact_id row, la_artifact_id a),
      (''artifact_schema_version'', l_schema_version row, la_schema_version a),
      (''logic_version'', l_logic_version row, la_logic_version a), (''decision_class'', l_decision_class row, la_decision_class a),
      (''evaluator_version'', l_evaluator_version row, la_evaluator_version a)] = None"
    using assms(1) by (simp add: verified_row_def)
  then show ?thesis using assms(2) kvs unfolding verify_artifact_row_def by (simp only: option.case bindE_simps Let_def) simp
qed

lemma reconstruct_other_evaluator:
  assumes "reachable L" "d \<in> set (lg_decisions L)" "d_evaluator_version d \<noteq> EVALUATOR_VERSION"
  shows "reconstruct L (d_event_id d) = Inl (IntegrityFailure ''evaluator_version'')"
proof -
  obtain row where row: "row \<in> set (lg_artifacts L)" "l_hash row = d_hash d" "l_evaluator_version row = d_evaluator_version d"
    using reachable_decisions [OF assms(1)] assms(2) unfolding decision_sound_def by blast
  obtain a e where a: "valid_artifact a" "row = artifact_row_of e a"
    using reachable_artifacts [OF assms(1)] row(1) unfolding artifact_sound_def by blast
  have "load_artifact_row L (d_hash d) = Some row"
    using load_artifact_row_kept [OF reachable_keys [OF assms(1)] row(1)] row(2) by simp
  moreover have v: "verified_row row a" unfolding a(2) by (rule artifact_row_verified [OF a(1)])
  moreover have "la_evaluator_version a \<noteq> EVALUATOR_VERSION" using v row(3) assms(3) by (simp add: verified_row_def)
  ultimately show ?thesis
    using other_evaluator_refused
    by (simp add: reconstruct_def load_decision_row_def find_decision [OF reachable_keys [OF assms(1)] assms(2)] verify_artifact_def)
qed

lemma reconstruct_own_evaluator:
  assumes "reachable L" "d \<in> set (lg_decisions L)" "d_evaluator_version d = EVALUATOR_VERSION"
  shows "\<exists>row\<in>set (lg_artifacts L). \<exists>a ctx b. l_hash row = d_hash d \<and> verified_row row a \<and>
    load_context L (d_event_id d) (d_boundary d) = Inr ctx \<and> parse_boundary (d_boundary d) = Inr b \<and>
    (case evaluate a ctx (Aware b 0) of
       Inl e \<Rightarrow> reconstruct L (d_event_id d) = Inl (EvaluationFailed e)
     | Inr res \<Rightarrow>
         (if as_recorded res d (load_consumed_inputs L (d_event_id d))
          then \<exists>r. reconstruct L (d_event_id d) = Inr r \<and> rc_result r = res
          else \<exists>f. reconstruct L (d_event_id d) = Inl (ReconstructionMismatch f)))"
proof -
  obtain vf where vf: "verify_artifact (load_artifact_row L (d_hash d)) d None = Inr vf"
    using reachable_verify [OF assms] by blast
  obtain b where b: "parse_boundary (d_boundary d) = Inr b" using reachable_boundary [OF assms(1,2)] by blast
  obtain ctx where ctx: "load_context L (d_event_id d) (d_boundary d) = Inr ctx"
    using reachable_load_context [OF assms(1,2)] by blast
  obtain row where row: "load_artifact_row L (d_hash d) = Some row" "verified_row row (vf_artifact vf)"
    using vf unfolding verify_artifact_Inr verify_artifact_row_Inr by blast
  have in_row: "row \<in> set (lg_artifacts L)" "l_hash row = d_hash d"
    using row(1) by (auto simp: load_artifact_row_def dest!: find_Some_in)
  have mism: "\<exists>f. compare_with_recorded res d us = Some (ReconstructionMismatch f)"
    if "compare_with_recorded res d us \<noteq> None" for res us
    using that by (auto simp: compare_with_recorded_def raise_if_def split: if_splits)
  note steps = reconstruct_def load_decision_row_def find_decision [OF reachable_keys [OF assms(1)] assms(2)]
    vf b ctx lift_evaluation_def
  have "case evaluate (vf_artifact vf) ctx (Aware b 0) of
       Inl e \<Rightarrow> reconstruct L (d_event_id d) = Inl (EvaluationFailed e)
     | Inr res \<Rightarrow>
         (if as_recorded res d (load_consumed_inputs L (d_event_id d))
          then \<exists>r. reconstruct L (d_event_id d) = Inr r \<and> rc_result r = res
          else \<exists>f. reconstruct L (d_event_id d) = Inl (ReconstructionMismatch f))"
    using mism by (auto simp: steps compare_with_recorded_None [symmetric] split: sum.split) (metis option.sel)
  then show ?thesis
    using in_row row(2) ctx b
    by (intro bexI [of _ row] exI [of _ "vf_artifact vf"] exI [of _ ctx] exI [of _ b]) simp_all
qed

text \<open>C5: What reconstruction does in a ledger written by the collector.  A decision under another evaluator than this
  runtime's is refused, its artifact being verified for it.  Of any other, verification and loading never fail:
  \<open>reconstruct\<close> returns exactly when the evaluation of the verified artifact over the loaded context is the record,
  and otherwise says that it differs or that the evaluation failed.\<close>
theorem reconstruct_reachable:
  assumes "reachable L" "d \<in> set (lg_decisions L)"
  shows "if d_evaluator_version d \<noteq> EVALUATOR_VERSION
    then reconstruct L (d_event_id d) = Inl (IntegrityFailure ''evaluator_version'')
    else \<exists>row\<in>set (lg_artifacts L). \<exists>a ctx b. l_hash row = d_hash d \<and> verified_row row a \<and>
      load_context L (d_event_id d) (d_boundary d) = Inr ctx \<and> parse_boundary (d_boundary d) = Inr b \<and>
      (case evaluate a ctx (Aware b 0) of
         Inl e \<Rightarrow> reconstruct L (d_event_id d) = Inl (EvaluationFailed e)
       | Inr res \<Rightarrow>
           (if as_recorded res d (load_consumed_inputs L (d_event_id d))
            then \<exists>r. reconstruct L (d_event_id d) = Inr r \<and> rc_result r = res
            else \<exists>f. reconstruct L (d_event_id d) = Inl (ReconstructionMismatch f)))"
  using reconstruct_other_evaluator [OF assms] reconstruct_own_evaluator [OF assms] by simp

text \<open>C6: Whatever the collector accepts later -- superseding evidence, a newer artifact, another
  decision -- a recorded decision reconstructs to the same result, or fails in the same way.\<close>
theorem reconstruct_stable:
  assumes "reachable L" "k \<in> d_event_id ` set (lg_decisions L)" "ingest e L = Inr (res, L')"
  shows "reconstruct L' k = reconstruct L k"
  using reconstruct_kept [OF ingest_extends [OF assms(3)] reachable_keys [OF assms(1)] reachable_refs [OF assms(1)] assms(2)] .

subsection \<open>The example decision\<close>

lemma run_in: "decision_row_of run_decision run_decision_payload 4 \<in> set (lg_decisions run6)"
  by (simp add: run_rows)

lemma demo_result_fields:
  "rs_score demo_result = 25" "rs_threshold demo_result = 75" "rs_output demo_result = ''DO_NOT_PRIORITIZE''"
  "consumed_triples demo_result = [(''employee_count'', Some ''ev-1'', 25)]"
  by code_simp+

lemma run_versions:
  "load_evidence_version run6 ''ev-1'' = Inr (None, ''2026-04-16T10:00:00.000000Z'')"
  "load_evidence_version run6 ''ev-2'' = Inr (None, ''2026-04-16T10:00:00.000000Z'')"
  by (simp_all add: load_evidence_version_def run_tables run_items_def evidence_row_of_def run_evidence_def run_times)

lemma run_context: "load_context run6 ''dec'' ''2026-04-17T10:05:02.000000Z'' = Inr demo_context"
proof -
  have v: "json_loads (canonical_text (JInt 184)) = Some (JInt 184)"
    "json_loads (canonical_text (JStr ''B2B AI Software'')) = Some (JStr ''B2B AI Software'')"
    by (simp_all add: json_loads_def json_loads_canonical del: canonical_text.simps)
  have rows: "context_rows run6 ''dec'' = map (context_row_of ''dec'') (de_context run_decision_payload)"
    by (simp add: context_rows_def run_tables run_decision_payload_def context_row_of_def)
  show ?thesis
    unfolding load_context_def rows
    by (simp add: run_decision_payload_def context_row_of_def load_entry_def run_versions v run_times(5)
        demo_context_def del: canonical_text.simps)
qed

lemma run_reconstruct: "\<exists>r. reconstruct run6 ''dec'' = Inr r \<and> rc_result r = demo_result"
proof -
  let ?d = "decision_row_of run_decision run_decision_payload 4"
  have d: "d_event_id ?d = ''dec''" "d_boundary ?d = ''2026-04-17T10:05:02.000000Z''"
    "d_hash ?d = canonical_hash (dump_artifact demo_artifact)"
    by (simp_all add: decision_row_of_def run_decision_def run_decision_payload_def run_times)
  have row: "load_artifact_row run6 (d_hash ?d) = Some (artifact_row_of run_registration demo_artifact)"
    by (simp add: d load_artifact_row_def run_tables artifact_row_of_def)
  have "verify_artifact (load_artifact_row run6 (d_hash ?d)) ?d None = Inr \<lparr>vf_artifact = demo_artifact,
      vf_stored_hash = d_hash ?d, vf_recomputed_hash = d_hash ?d, vf_runtime = EVALUATOR_VERSION\<rparr>"
    unfolding row verify_artifact_Inr verify_artifact_row_Inr
    using artifact_row_verified [OF run_valid_artifact, of run_registration]
    by (simp add: d, simp add: decision_row_of_def run_decision_payload_def artifact_row_of_def demo_artifact_def
        EVALUATOR_VERSION_def)
  moreover have "parse_boundary ''2026-04-17T10:05:02.000000Z'' = Inr (Utc (Date 2026 4 17) 10 5 2 0)"
    by code_simp
  moreover have "as_recorded demo_result ?d (load_consumed_inputs run6 ''dec'')"
    by (simp add: as_recorded_def demo_result_fields decision_row_of_def run_decision_payload_def
        load_consumed_inputs_def run_tables consumed_row_of_def recorded_triples_def)
  ultimately have "reconstruct run6 ''dec'' = Inr
      \<lparr>rc_decision_event_id = ''dec'', rc_artifact_hash = d_hash ?d, rc_logic_version = la_logic_version demo_artifact,
       rc_evaluator_version = la_evaluator_version demo_artifact, rc_boundary = Utc (Date 2026 4 17) 10 5 2 0,
       rc_result = demo_result, rc_stored_hash = d_hash ?d, rc_recomputed_hash = d_hash ?d,
       rc_runtime = EVALUATOR_VERSION\<rparr>"
    unfolding reconstruct_Inr_iff
    using run_context demo_evaluation [unfolded demo_boundary_def]
    by (intro exI [of _ ?d] exI conjI) (assumption | simp add: run_rows d)+
  then show ?thesis by simp
qed

theorem reconstruct_exact_witness:
  "\<exists>d\<in>set (lg_decisions run6). d_event_id d = ''dec'' \<and> d_score d = 25"
proof -
  obtain r where r: "reconstruct run6 ''dec'' = Inr r" "rc_result r = demo_result"
    using run_reconstruct by blast
  then show ?thesis
    using reconstruct_exact [OF r(1)] unfolding r(2) by (auto simp: as_recorded_def demo_result_fields)
qed

theorem reconstruct_no_future_evidence_witness:
  "\<exists>row\<in>set (lg_evidence run6). v_version_id row = ''ev-2'' \<and> v_available_at row \<le> ''2026-04-17T10:05:02.000000Z''"
proof -
  obtain r where "reconstruct run6 ''dec'' = Inr r" using run_reconstruct by blast
  from reconstruct_no_future_evidence [OF this, of "context_row_of ''dec'' (de_context run_decision_payload ! 1)" "''ev-2''"]
  show ?thesis
    by (auto simp: run_tables context_row_of_def run_decision_payload_def decision_row_of_def run_times)
qed

theorem reconstruct_reachable_witness:
  "\<exists>row\<in>set (lg_artifacts run6). l_hash row = canonical_hash (dump_artifact demo_artifact)"
proof -
  have "d_evaluator_version (decision_row_of run_decision run_decision_payload 4) = EVALUATOR_VERSION"
    by (simp add: decision_row_of_def run_decision_payload_def EVALUATOR_VERSION_def)
  then show ?thesis
    using reconstruct_reachable [OF run_reachable(6) run_in] by (auto simp: decision_row_of_def run_decision_payload_def)
qed

theorem reconstruct_stable_witness:
  "reconstruct run6 ''dec'' = reconstruct run5 ''dec''"
  by (rule reconstruct_stable [OF run_reachable(5) _ run_step6])
    (simp add: run_tables decision_row_of_def run_decision_def)

end
