(* ===== verification/Counterfactual.thy ===== *)
theory Counterfactual
  imports Reconstruct
begin

text \<open>
  \<open>replay/counterfactual.py\<close>: \<open>R(Lc, H(d))\<close>, an explicitly selected artifact over the sealed context
  of a recorded decision, and its comparison with the original.  Main results: the original beside it
  is an exact reconstruction and both sides read one context (\<open>replay_Inr_iff\<close>), the contribution
  changes explain the whole score difference, the missing inputs are those the context lacks, and a
  decision replayed against its own artifact differs from it in nothing.
\<close>

subsection \<open>The replay\<close>

definition ORIGINAL_LABEL :: string where
  "ORIGINAL_LABEL = ''original''"

definition COUNTERFACTUAL_LABEL :: string where
  "COUNTERFACTUAL_LABEL = ''counterfactual''"

record counterfactual =
  cf_label :: string
  cf_decision_event_id :: string
  cf_boundary :: utc
  cf_original :: reconstruction
  cf_artifact_hash :: string
  cf_logic_version :: string
  cf_evaluator_version :: string
  cf_result :: evaluation_result
  cf_stored_hash :: string
  cf_recomputed_hash :: string
  cf_runtime :: string

definition replay :: "ledger \<Rightarrow> string \<Rightarrow> string \<Rightarrow> reconstruction_error + counterfactual" where
  "replay L k h =
     bindE (reconstruct L k) (\<lambda>orig.
     bindE (load_decision_row L k) (\<lambda>d.
     bindE (verify_artifact_row (load_artifact_row L h) h None) (\<lambda>vf.
       if la_decision_class (vf_artifact vf) \<noteq> d_class d then Inl (IntegrityFailure ''decision_class'')
       else bindE (load_context L k (d_boundary d)) (\<lambda>ctx.
         bindE (lift_evaluation (evaluate (vf_artifact vf) ctx (Aware (rc_boundary orig) 0))) (\<lambda>res.
           Inr \<lparr>cf_label = COUNTERFACTUAL_LABEL, cf_decision_event_id = k, cf_boundary = rc_boundary orig,
             cf_original = orig, cf_artifact_hash = vf_recomputed_hash vf,
             cf_logic_version = la_logic_version (vf_artifact vf),
             cf_evaluator_version = la_evaluator_version (vf_artifact vf), cf_result = res,
             cf_stored_hash = vf_stored_hash vf, cf_recomputed_hash = vf_recomputed_hash vf,
             cf_runtime = vf_runtime vf\<rparr>)))))"

subsection \<open>The comparison\<close>

record logic_identity =
  li_logic_version :: string
  li_artifact_hash :: string
  li_evaluator_version :: string

record contribution_change =
  cc_key :: string
  cc_evidence :: "string option"
  cc_original :: "factor_result option"
  cc_counterfactual :: "factor_result option"
  cc_original_state :: "input_state option"
  cc_counterfactual_state :: "input_state option"
  cc_original_contribution :: int
  cc_counterfactual_contribution :: int
  cc_delta :: int
  cc_change :: string

record missing_input =
  mi_key :: string
  mi_state :: input_state

record comparison =
  cp_decision_event_id :: string
  cp_boundary :: utc
  cp_original_label :: string
  cp_counterfactual_label :: string
  cp_historical_logic :: logic_identity
  cp_current_logic :: logic_identity
  cp_original_score :: int
  cp_counterfactual_score :: int
  cp_score_delta :: int
  cp_original_threshold :: int
  cp_counterfactual_threshold :: int
  cp_original_output :: string
  cp_counterfactual_output :: string
  cp_output_changed :: bool
  cp_contributions :: "contribution_change list"
  cp_missing_inputs :: "missing_input list"
  cp_ignored_by_historical :: "string list"
  cp_ignored_by_current :: "string list"

definition classify :: "factor_result option \<Rightarrow> factor_result option \<Rightarrow> string" where
  "classify before after =
     (case (before, after) of
        (None, _) \<Rightarrow> ''added''
      | (Some _, None) \<Rightarrow> ''removed''
      | (Some x, Some y) \<Rightarrow>
          (let same_rule = (fr_rule x = fr_rule y);
               same_verdict = (fr_state x = fr_state y \<and> fr_matched x = fr_matched y) in
           if same_rule \<and> same_verdict \<and> fr_weight x = fr_weight y \<and> fr_contribution x = fr_contribution y
           then ''unchanged''
           else if same_rule \<and> same_verdict \<and> fr_weight x \<noteq> fr_weight y then ''reweighted''
           else ''changed''))"

definition state_of :: "factor_result option \<Rightarrow> evaluation_result \<Rightarrow> string \<Rightarrow> input_state option" where
  "state_of fr res key = (case fr of Some x \<Rightarrow> Some (fr_state x) | None \<Rightarrow> map_of (rs_states res) key)"

text \<open>\<open>{f.key: f for f in result.factors}\<close>: the last factor of a key.\<close>

definition factors_by_key :: "evaluation_result \<Rightarrow> string \<rightharpoonup> factor_result" where
  "factors_by_key r = map_of (map (\<lambda>f. (fr_key f, f)) (rev (rs_factors r)))"

definition contribution :: "factor_result option \<Rightarrow> int" where
  "contribution fr = (case fr of Some x \<Rightarrow> fr_contribution x | None \<Rightarrow> 0)"

definition evidence_of :: "factor_result option \<Rightarrow> factor_result option \<Rightarrow> string option" where
  "evidence_of before after =
     (case Option.bind before fr_evidence of
        Some v \<Rightarrow> Some v
      | None \<Rightarrow> Option.bind after fr_evidence)"

definition change_of :: "evaluation_result \<Rightarrow> evaluation_result \<Rightarrow> string \<Rightarrow> contribution_change" where
  "change_of orig cur key =
     (let before = factors_by_key orig key; after = factors_by_key cur key in
      \<lparr>cc_key = key, cc_evidence = evidence_of before after, cc_original = before, cc_counterfactual = after,
       cc_original_state = state_of before orig key, cc_counterfactual_state = state_of after cur key,
       cc_original_contribution = contribution before, cc_counterfactual_contribution = contribution after,
       cc_delta = contribution after - contribution before, cc_change = classify before after\<rparr>)"

definition compared_keys :: "evaluation_result \<Rightarrow> evaluation_result \<Rightarrow> string list" where
  "compared_keys orig cur = sort (remdups (map fr_key (rs_factors orig) @ map fr_key (rs_factors cur)))"

definition missing_inputs :: "evaluation_result \<Rightarrow> missing_input list" where
  "missing_inputs r =
     map (\<lambda>f. \<lparr>mi_key = fr_key f, mi_state = fr_state f\<rparr>)
       (filter (\<lambda>f. fr_state f = Unavailable \<or> fr_state f = Absent) (sort_key fr_key (rs_factors r)))"

definition compare :: "counterfactual \<Rightarrow> comparison" where
  "compare c =
     (let orig = cf_original c; before = rc_result orig; after = cf_result c in
      \<lparr>cp_decision_event_id = cf_decision_event_id c, cp_boundary = cf_boundary c,
       cp_original_label = ORIGINAL_LABEL, cp_counterfactual_label = COUNTERFACTUAL_LABEL,
       cp_historical_logic = \<lparr>li_logic_version = rc_logic_version orig, li_artifact_hash = rc_artifact_hash orig,
         li_evaluator_version = rc_evaluator_version orig\<rparr>,
       cp_current_logic = \<lparr>li_logic_version = cf_logic_version c, li_artifact_hash = cf_artifact_hash c,
         li_evaluator_version = cf_evaluator_version c\<rparr>,
       cp_original_score = rs_score before, cp_counterfactual_score = rs_score after,
       cp_score_delta = rs_score after - rs_score before, cp_original_threshold = rs_threshold before,
       cp_counterfactual_threshold = rs_threshold after, cp_original_output = rs_output before,
       cp_counterfactual_output = rs_output after, cp_output_changed = (rs_output before \<noteq> rs_output after),
       cp_contributions = map (change_of before after) (compared_keys before after),
       cp_missing_inputs = missing_inputs after, cp_ignored_by_historical = rs_ignored before,
       cp_ignored_by_current = rs_ignored after\<rparr>)"

subsection \<open>What a replay rests on\<close>

lemma replay_InrD:
  assumes "replay L k h = Inr c"
  obtains d ctx a row a0 row0 where "reconstruct L k = Inr (cf_original c)"
    "find (\<lambda>d. d_event_id d = k) (lg_decisions L) = Some d"
    "load_artifact_row L h = Some row" "verified_row row a" "la_evaluator_version a = EVALUATOR_VERSION"
    "la_decision_class a = d_class d" "load_context L k (d_boundary d) = Inr ctx"
    "evaluate a ctx (Aware (cf_boundary c) 0) = Inr (cf_result c)"
    "load_artifact_row L (d_hash d) = Some row0" "verified_row row0 a0"
    "evaluate a0 ctx (Aware (cf_boundary c) 0) = Inr (rc_result (cf_original c))"
    "cf_boundary c = rc_boundary (cf_original c)" "cf_label c = COUNTERFACTUAL_LABEL"
    "cf_decision_event_id c = k" "cf_artifact_hash c = l_hash row" "rc_artifact_hash (cf_original c) = d_hash d"
proof -
  obtain orig d vf ctx res where s: "reconstruct L k = Inr orig" "load_decision_row L k = Inr d"
    "verify_artifact_row (load_artifact_row L h) h None = Inr vf" "la_decision_class (vf_artifact vf) = d_class d"
    "load_context L k (d_boundary d) = Inr ctx"
    "evaluate (vf_artifact vf) ctx (Aware (rc_boundary orig) 0) = Inr res"
    and c: "c = \<lparr>cf_label = COUNTERFACTUAL_LABEL, cf_decision_event_id = k, cf_boundary = rc_boundary orig,
             cf_original = orig, cf_artifact_hash = vf_recomputed_hash vf,
             cf_logic_version = la_logic_version (vf_artifact vf),
             cf_evaluator_version = la_evaluator_version (vf_artifact vf), cf_result = res,
             cf_stored_hash = vf_stored_hash vf, cf_recomputed_hash = vf_recomputed_hash vf,
             cf_runtime = vf_runtime vf\<rparr>"
    using assms unfolding replay_def bindE_eq_Inr check_Inr lift_evaluation_Inr sum.inject by blast
  obtain row where row: "load_artifact_row L h = Some row" "verified_row row (vf_artifact vf)"
    "la_evaluator_version (vf_artifact vf) = EVALUATOR_VERSION" "vf_recomputed_hash vf = l_hash row"
    using s(3) unfolding verify_artifact_row_Inr by blast
  have d: "find (\<lambda>d. d_event_id d = k) (lg_decisions L) = Some d" using s(2) by (simp add: load_decision_row_def)
  obtain vf0 ctx0 where o: "verify_artifact (load_artifact_row L (d_hash d)) d None = Inr vf0"
    "load_context L k (d_boundary d) = Inr ctx0"
    "evaluate (vf_artifact vf0) ctx0 (Aware (rc_boundary orig) 0) = Inr (rc_result orig)"
    "rc_artifact_hash orig = vf_recomputed_hash vf0"
    using s(1) d unfolding reconstruct_Inr_iff by force
  obtain row0 where row0: "load_artifact_row L (d_hash d) = Some row0" "verified_row row0 (vf_artifact vf0)"
    "vf_recomputed_hash vf0 = d_hash d"
    using o(1) unfolding verify_artifact_Inr verify_artifact_row_Inr by blast
  show thesis
    by (rule that [OF _ d row(1,2,3) s(4,5) _ row0(1,2)]) (use s c row o row0 in simp_all)
qed

subsection \<open>Factors by key\<close>

lemma evaluation_keys:
  assumes "evaluate a ctx bd = Inr r"
  shows "map fr_key (rs_factors r) = map fa_key (la_factors a)"
proof -
  obtain b where "list_all2 (factor_spec (context_map ctx) b) (la_factors a) (rs_factors r)"
    using evaluate_InrD [OF assms] .
  then show ?thesis by (induction rule: list_all2_induct) (auto simp: factor_spec_def)
qed

lemma verified_distinct: "verified_row row a \<Longrightarrow> distinct (map fa_key (la_factors a))"
  by (auto simp: verified_row_def valid_artifact_def factor_keys_are_unique_def dest!: artifact_of_json_valid)

lemma factors_by_key_Some:
  assumes "distinct (map fr_key (rs_factors r))"
  shows "factors_by_key r key = Some f \<longleftrightarrow> f \<in> set (rs_factors r) \<and> fr_key f = key"
proof -
  have "distinct (map fst (map (\<lambda>f. (fr_key f, f)) (rev (rs_factors r))))"
    using assms by (simp add: comp_def rev_map [symmetric])
  from map_of_eq_Some_iff [OF this] show ?thesis by (auto simp: factors_by_key_def)
qed

lemma factors_by_key_None: "factors_by_key r key = None \<longleftrightarrow> key \<notin> fr_key ` set (rs_factors r)"
  by (force simp: factors_by_key_def map_of_eq_None_iff)

lemma sum_contributions:
  assumes "distinct (map fr_key (rs_factors r))" "distinct keys" "fr_key ` set (rs_factors r) \<subseteq> set keys"
  shows "sum_list (map (\<lambda>k. contribution (factors_by_key r k)) keys) = sum_list (map fr_contribution (rs_factors r))"
proof -
  let ?m = "\<lambda>k. contribution (factors_by_key r k)"
  have "sum_list (map ?m keys) = sum ?m (set keys)"
    by (rule sum_list_distinct_conv_sum_set [OF assms(2)])
  also have "\<dots> = sum ?m (set (map fr_key (rs_factors r)))"
    by (rule sum.mono_neutral_right)
      (use assms(3) in \<open>auto simp: contribution_def factors_by_key_None [THEN iffD2]\<close>)
  also have "\<dots> = sum_list (map ?m (map fr_key (rs_factors r)))"
    by (rule sum_list_distinct_conv_sum_set [OF assms(1), symmetric])
  also have "\<dots> = sum_list (map fr_contribution (rs_factors r))"
  proof -
    have "map ?m (map fr_key (rs_factors r)) = map fr_contribution (rs_factors r)"
    proof (simp, intro ballI)
      fix f assume "f \<in> set (rs_factors r)"
      then have "factors_by_key r (fr_key f) = Some f" by (simp add: factors_by_key_Some [OF assms(1)])
      then show "?m (fr_key f) = fr_contribution f" by (simp add: contribution_def)
    qed
    then show ?thesis by (rule arg_cong)
  qed
  finally show ?thesis .
qed

lemma set_compared_keys: "set (compared_keys x y) = fr_key ` set (rs_factors x) \<union> fr_key ` set (rs_factors y)"
  by (simp add: compared_keys_def)

lemma distinct_compared_keys: "distinct (compared_keys x y)"
  by (simp add: compared_keys_def)

lemma evaluation_score: "evaluate a ctx bd = Inr r \<Longrightarrow> rs_score r = sum_list (map fr_contribution (rs_factors r))"
  by (elim evaluate_InrD) (metis result_of_simps(1,3))

subsection \<open>Properties\<close>

text \<open>C36: A replay returns only beside the exact original: the original is what \<open>reconstruct\<close> returns, both
  are evaluated over the one loaded context at the original's boundary, the current artifact verifies
  against the row of the hash the caller named, and the value carries the fixed label.\<close>
theorem replay_sound:
  assumes "replay L k h = Inr c"
  shows "reconstruct L k = Inr (cf_original c) \<and> cf_label c = COUNTERFACTUAL_LABEL \<and> cf_artifact_hash c = h \<and>
    (\<exists>d\<in>set (lg_decisions L). \<exists>row\<in>set (lg_artifacts L). \<exists>a a0 ctx. d_event_id d = k \<and> l_hash row = h \<and>
       verified_row row a \<and> la_decision_class a = d_class d \<and> load_context L k (d_boundary d) = Inr ctx \<and>
       evaluate a0 ctx (Aware (cf_boundary c) 0) = Inr (rc_result (cf_original c)) \<and>
       evaluate a ctx (Aware (cf_boundary c) 0) = Inr (cf_result c))"
proof -
  obtain d ctx a row a0 row0 where s: "reconstruct L k = Inr (cf_original c)"
    "find (\<lambda>d. d_event_id d = k) (lg_decisions L) = Some d" "load_artifact_row L h = Some row" "verified_row row a"
    "la_evaluator_version a = EVALUATOR_VERSION" "la_decision_class a = d_class d"
    "load_context L k (d_boundary d) = Inr ctx" "evaluate a ctx (Aware (cf_boundary c) 0) = Inr (cf_result c)"
    "load_artifact_row L (d_hash d) = Some row0" "verified_row row0 a0"
    "evaluate a0 ctx (Aware (cf_boundary c) 0) = Inr (rc_result (cf_original c))"
    "cf_boundary c = rc_boundary (cf_original c)" "cf_label c = COUNTERFACTUAL_LABEL"
    "cf_decision_event_id c = k" "cf_artifact_hash c = l_hash row" "rc_artifact_hash (cf_original c) = d_hash d"
    by (rule replay_InrD [OF assms]) (rule that; assumption)
  have "row \<in> set (lg_artifacts L)" "l_hash row = h"
    using s(3) by (auto simp: load_artifact_row_def dest!: find_Some_in)
  then show ?thesis
    using s find_Some_in [OF s(2)]
    by (intro conjI bexI [of _ d] bexI [of _ row] exI [of _ a] exI [of _ a0] exI [of _ ctx]) simp_all
qed

text \<open>C8: The comparison explains the whole difference: the contribution changes, one per key of either
  artifact, add up to the difference of the scores.\<close>
theorem compare_explains_difference:
  assumes "replay L k h = Inr c"
  shows "cp_score_delta (compare c) = sum_list (map cc_delta (cp_contributions (compare c)))"
proof -
  obtain a row a0 row0 ctx where s: "verified_row row a" "verified_row row0 a0"
    "evaluate a ctx (Aware (cf_boundary c) 0) = Inr (cf_result c)"
    "evaluate a0 ctx (Aware (cf_boundary c) 0) = Inr (rc_result (cf_original c))"
    by (rule replay_InrD [OF assms]) (rule that; assumption)
  let ?x = "rc_result (cf_original c)" let ?y = "cf_result c" let ?ks = "compared_keys ?x ?y"
  have d: "distinct (map fr_key (rs_factors ?x))" "distinct (map fr_key (rs_factors ?y))"
    using s verified_distinct by (simp_all add: evaluation_keys)
  note sums = sum_contributions [OF _ distinct_compared_keys]
  have "sum_list (map cc_delta (map (change_of ?x ?y) ?ks)) =
      sum_list (map (\<lambda>key. contribution (factors_by_key ?y key)) ?ks) -
      sum_list (map (\<lambda>key. contribution (factors_by_key ?x key)) ?ks)"
    by (simp add: comp_def change_of_def Let_def sum_list_subtractf)
  also have "\<dots> = rs_score ?y - rs_score ?x"
    using sums [OF d(1), of ?x ?y] sums [OF d(2), of ?x ?y]
    by (simp add: set_compared_keys evaluation_score [OF s(3)] evaluation_score [OF s(4)])
  finally show ?thesis by (simp add: compare_def Let_def)
qed

lemma missing_inputs_iff:
  assumes "evaluate a ctx bd = Inr r"
  shows "m \<in> set (missing_inputs r) \<longleftrightarrow> mi_key m \<in> fa_key ` set (la_factors a) \<and>
    (mi_state m = Absent \<and> context_map ctx (mi_key m) = None \<or>
     mi_state m = Unavailable \<and> (\<exists>e. context_map ctx (mi_key m) = Some e \<and> \<not> is_available e))"
    (is "_ \<longleftrightarrow> ?missing (mi_key m) (mi_state m)")
proof -
  obtain b where b: "list_all2 (factor_spec (context_map ctx) b) (la_factors a) (rs_factors r)"
    using evaluate_InrD [OF assms] .
  have spec: "fr_key g = fa_key f \<and> (fr_state g = Absent \<longleftrightarrow> context_map ctx (fa_key f) = None) \<and>
      (fr_state g = Unavailable \<longleftrightarrow> (\<exists>e. context_map ctx (fa_key f) = Some e \<and> \<not> is_available e))"
    if "factor_spec (context_map ctx) b f g" for f g
    using that by (auto simp: factor_spec_def split: option.splits if_splits)
  have "m \<in> set (missing_inputs r) \<longleftrightarrow>
      (\<exists>g\<in>set (rs_factors r). mi_key m = fr_key g \<and> mi_state m = fr_state g \<and> fr_state g \<in> {Unavailable, Absent})"
    by (cases m) (auto simp: missing_inputs_def)
  also have "\<dots> \<longleftrightarrow> ?missing (mi_key m) (mi_state m)"
  proof
    assume "\<exists>g\<in>set (rs_factors r). mi_key m = fr_key g \<and> mi_state m = fr_state g \<and> fr_state g \<in> {Unavailable, Absent}"
    then obtain g where g: "g \<in> set (rs_factors r)" "mi_key m = fr_key g" "mi_state m = fr_state g"
      "fr_state g \<in> {Unavailable, Absent}" by blast
    obtain f where f: "f \<in> set (la_factors a)" "factor_spec (context_map ctx) b f g"
      using list_all2_right [OF b g(1)] by blast
    show "?missing (mi_key m) (mi_state m)" using spec [OF f(2)] f(1) g(2-4) by auto
  next
    assume m: "?missing (mi_key m) (mi_state m)"
    then obtain f where f: "f \<in> set (la_factors a)" "mi_key m = fa_key f" by blast
    obtain g where g: "g \<in> set (rs_factors r)" "factor_spec (context_map ctx) b f g"
      using list_all2_left [OF b f(1)] by blast
    show "\<exists>g\<in>set (rs_factors r). mi_key m = fr_key g \<and> mi_state m = fr_state g \<and> fr_state g \<in> {Unavailable, Absent}"
      by (rule bexI [OF _ g(1)]) (use spec [OF g(2)] m f(2) in auto)
  qed
  finally show ?thesis .
qed

text \<open>The missing inputs are exactly the inputs the current artifact expects and the sealed context
  lacks: \<open>Unavailable\<close> when the context records it so, \<open>Absent\<close> when it has no entry (INV-03).\<close>
theorem compare_missing_inputs:
  assumes "replay L k h = Inr c"
  shows "\<exists>d\<in>set (lg_decisions L). \<exists>row\<in>set (lg_artifacts L). \<exists>a ctx. d_event_id d = k \<and> l_hash row = h \<and>
    verified_row row a \<and> load_context L k (d_boundary d) = Inr ctx \<and>
    (\<forall>m. m \<in> set (cp_missing_inputs (compare c)) \<longleftrightarrow> mi_key m \<in> fa_key ` set (la_factors a) \<and>
       (mi_state m = Absent \<and> context_map ctx (mi_key m) = None \<or>
        mi_state m = Unavailable \<and> (\<exists>e. context_map ctx (mi_key m) = Some e \<and> \<not> is_available e)))"
proof -
  obtain d ctx a row where s: "find (\<lambda>d. d_event_id d = k) (lg_decisions L) = Some d"
    "load_artifact_row L h = Some row" "verified_row row a" "load_context L k (d_boundary d) = Inr ctx"
    "evaluate a ctx (Aware (cf_boundary c) 0) = Inr (cf_result c)"
    by (rule replay_InrD [OF assms]) (rule that; assumption)
  have "cp_missing_inputs (compare c) = missing_inputs (cf_result c)" by (simp add: compare_def Let_def)
  then show ?thesis
    using s(3,4) missing_inputs_iff [OF s(5)] find_Some_in [OF s(1)] find_Some_in [OF s(2) [unfolded load_artifact_row_def]]
    by (intro bexI [of _ d] bexI [of _ row] exI [of _ a] exI [of _ ctx]) simp_all
qed

text \<open>Replaying a decision against the artifact it was made with finds no difference: the result is the
  original's, every factor is \<open>unchanged\<close>, the score difference is 0 and the output is the same.\<close>
theorem replay_own_artifact:
  assumes "replay L k h = Inr c" "h = rc_artifact_hash (cf_original c)"
  shows "cf_result c = rc_result (cf_original c) \<and> cp_score_delta (compare c) = 0 \<and>
    \<not> cp_output_changed (compare c) \<and> (\<forall>x\<in>set (cp_contributions (compare c)). cc_change x = ''unchanged'')"
proof -
  obtain d :: decision_row and ctx a row a0 row0 where s: "load_artifact_row L h = Some row" "verified_row row a"
    "evaluate a ctx (Aware (cf_boundary c) 0) = Inr (cf_result c)"
    "load_artifact_row L (d_hash d) = Some row0" "verified_row row0 a0"
    "evaluate a0 ctx (Aware (cf_boundary c) 0) = Inr (rc_result (cf_original c))"
    "rc_artifact_hash (cf_original c) = d_hash d"
    by (rule replay_InrD [OF assms(1)]) (rule that; assumption)
  have "row = row0" using s(1,4,7) assms(2) by simp
  then have "a = a0" using s(2,5) by (auto simp: verified_row_def)
  then have same: "cf_result c = rc_result (cf_original c)" using s(3,6) by simp
  have "classify (factors_by_key r key) (factors_by_key r key) = ''unchanged''" if "key \<in> set (compared_keys r r)" for r key
    using that factors_by_key_None [of r key] unfolding set_compared_keys
    by (cases "factors_by_key r key") (auto simp: classify_def)
  then show ?thesis by (auto simp: same compare_def Let_def change_of_def)
qed

subsection \<open>The example decision replayed\<close>

lemma run_replay:
  "\<exists>c. replay run6 ''dec'' (canonical_hash (dump_artifact demo_artifact)) = Inr c \<and>
     cf_result c = demo_result \<and> rc_artifact_hash (cf_original c) = canonical_hash (dump_artifact demo_artifact)"
proof -
  let ?h = "canonical_hash (dump_artifact demo_artifact)"
  let ?d = "decision_row_of run_decision run_decision_payload 4"
  obtain r where r: "reconstruct run6 ''dec'' = Inr r" using run_reconstruct by blast
  have d: "load_decision_row run6 ''dec'' = Inr ?d" "d_boundary ?d = ''2026-04-17T10:05:02.000000Z''"
    "d_class ?d = la_decision_class demo_artifact" "d_hash ?d = ?h"
    by (simp_all add: load_decision_row_def run_rows decision_row_of_def run_decision_def run_decision_payload_def
        run_times demo_artifact_def)
  have b: "rc_boundary r = Utc (Date 2026 4 17) 10 5 2 0" "rc_artifact_hash r = ?h"
  proof -
    have "parse_boundary ''2026-04-17T10:05:02.000000Z'' = Inr (Utc (Date 2026 4 17) 10 5 2 0)" by code_simp
    then show "rc_boundary r = Utc (Date 2026 4 17) 10 5 2 0" "rc_artifact_hash r = ?h"
      using r d(1,2,4) unfolding reconstruct_Inr_iff load_decision_row_def opt_to_sum_simps
      by (auto simp: verify_artifact_Inr)
  qed
  have "load_artifact_row run6 ?h = Some (artifact_row_of run_registration demo_artifact)"
    by (simp add: load_artifact_row_def run_tables artifact_row_of_def)
  then have "verify_artifact_row (load_artifact_row run6 ?h) ?h None = Inr \<lparr>vf_artifact = demo_artifact,
      vf_stored_hash = ?h, vf_recomputed_hash = ?h, vf_runtime = EVALUATOR_VERSION\<rparr>"
    using artifact_row_verified [OF run_valid_artifact, of run_registration]
    unfolding verify_artifact_row_Inr
    by (simp add: artifact_row_of_def, simp add: demo_artifact_def EVALUATOR_VERSION_def)
  then show ?thesis
    using b run_context demo_evaluation [unfolded demo_boundary_def]
    by (simp add: replay_def r d lift_evaluation_def)
qed

theorem replay_sound_witness:
  "\<exists>c. replay run6 ''dec'' (canonical_hash (dump_artifact demo_artifact)) = Inr c \<and> cf_label c = COUNTERFACTUAL_LABEL"
proof -
  obtain c where c: "replay run6 ''dec'' (canonical_hash (dump_artifact demo_artifact)) = Inr c" using run_replay by blast
  show ?thesis by (intro exI conjI) (rule c, rule replay_sound [OF c, THEN conjunct2, THEN conjunct1])
qed

theorem compare_explains_difference_witness:
  "\<exists>c. replay run6 ''dec'' (canonical_hash (dump_artifact demo_artifact)) = Inr c \<and>
     cp_score_delta (compare c) = sum_list (map cc_delta (cp_contributions (compare c)))"
proof -
  obtain c where c: "replay run6 ''dec'' (canonical_hash (dump_artifact demo_artifact)) = Inr c" using run_replay by blast
  show ?thesis by (intro exI conjI) (rule c, rule compare_explains_difference [OF c])
qed

theorem compare_missing_inputs_witness: "\<exists>d\<in>set (lg_decisions run6). d_event_id d = ''dec''"
proof -
  obtain c where c: "replay run6 ''dec'' (canonical_hash (dump_artifact demo_artifact)) = Inr c" using run_replay by blast
  show ?thesis using compare_missing_inputs [OF c] by blast
qed

theorem replay_own_artifact_witness:
  "\<exists>c. replay run6 ''dec'' (canonical_hash (dump_artifact demo_artifact)) = Inr c \<and> cp_score_delta (compare c) = 0"
proof -
  obtain c where c: "replay run6 ''dec'' (canonical_hash (dump_artifact demo_artifact)) = Inr c"
    "rc_artifact_hash (cf_original c) = canonical_hash (dump_artifact demo_artifact)" using run_replay by blast
  show ?thesis using replay_own_artifact [OF c(1) c(2) [symmetric]] c(1) by blast
qed

end
