(* ===== verification/Insights.thy ===== *)
theory Insights
  imports Reconstruct Snapshots Complex_Main
begin

text \<open>
  \<open>analytics/insights.py\<close>: the decision metrics over effective selections at one cutoff.  Display
  texts (\<open>predicate\<close>, \<open>display_note\<close>, the detail of a failure) and the dictionaries of \<open>as_dict\<close> are
  left out; a failure keeps the error value itself.  Main results: the metrics at a cutoff are not
  changed by anything the collector accepts later (\<open>insights_kept\<close>), every partition adds up to the
  population, and a decision counts exactly the latest observations whose latest attribution credits it.
\<close>

subsection \<open>Vocabulary\<close>

definition WORKFLOW_UNDER_COMPARISON :: string where
  "WORKFLOW_UNDER_COMPARISON = ''v4.2''"

definition QUALIFYING_PERIOD_DAYS :: int where
  "QUALIFYING_PERIOD_DAYS = 90"

definition QUALIFYING_PERIOD :: int where
  "QUALIFYING_PERIOD = hours_delta (QUALIFYING_PERIOD_DAYS * 24)"

datatype signal_kind = RuleSignal string | ContextValueSignal json

text \<open>A definition that passed \<open>__post_init__\<close>: the kind carries the rule text or the value.\<close>

record signal_definition =
  sg_id :: string
  sg_input_key :: string
  sg_kind :: signal_kind

definition make_signal :: "string \<Rightarrow> string \<Rightarrow> string \<Rightarrow> string option \<Rightarrow> json \<Rightarrow> signal_definition option" where
  "make_signal sid kind key rtext eq =
     (if kind = ''rule'' then
        (case rtext of
           Some t \<Rightarrow> if t = [] then None else Some \<lparr>sg_id = sid, sg_input_key = key, sg_kind = RuleSignal t\<rparr>
         | None \<Rightarrow> None)
      else if kind = ''context_value'' then
        (if rtext \<noteq> None then None
         else Some \<lparr>sg_id = sid, sg_input_key = key, sg_kind = ContextValueSignal eq\<rparr>)
      else None)"

text \<open>
  \<open>StoredData\<close> stands for the \<open>KeyError\<close>, \<open>TypeError\<close> or \<open>ValueError\<close> of a row no validated event
  produces; \<open>Propagated\<close> for an exception of \<open>reconstruct\<close> outside \<open>REPLAY_FAILURES\<close>.
\<close>

datatype insights_error =
    SelectionFailure string "string list"
  | PolicyError attribution_error
  | Propagated reconstruction_error
  | NotInPopulation string
  | StoredData string

fun replay_failure :: "reconstruction_error \<Rightarrow> bool" where
  "replay_failure (StoredValueError _) = False"
| "replay_failure (EvaluationFailed (RuleFailed e)) = named_rule_error e"
| "replay_failure _ = True"

subsection \<open>Results\<close>

record rate =
  rt_cohort_total :: nat
  rt_eligible :: nat
  rt_positives :: nat
  rt_excluded_other_period_only :: nat
  rt_excluded_reconstruction_failed :: nat
  rt_excluded_not_evaluated :: nat

definition rate_available :: "rate \<Rightarrow> bool" where
  "rate_available r \<longleftrightarrow> 0 < rt_eligible r"

definition rate_value :: "rate \<Rightarrow> rat option" where
  "rate_value r = (if rate_available r then Some (of_nat (rt_positives r) / of_nat (rt_eligible r)) else None)"

record rate_comparison =
  ct_present :: rate
  ct_absent :: rate

definition difference_points :: "rate_comparison \<Rightarrow> rat option" where
  "difference_points c =
     (case (rate_value (ct_present c), rate_value (ct_absent c)) of
        (Some p, Some a) \<Rightarrow> Some ((p - a) * 100)
      | _ \<Rightarrow> None)"

record observation_coverage =
  oc_awaiting_attribution :: nat
  oc_unresolved :: nat
  oc_direct :: nat
  oc_inferred :: nat
  oc_open :: nat
  oc_closed_known :: nat
  oc_closed_unknown :: nat
  oc_other_period :: nat
  oc_qualifying_90_day :: nat
  oc_total :: nat

record decision_standings =
  sd_evaluated :: nat
  sd_unknown :: nat
  sd_open :: nat
  sd_unattributed :: nat

definition standings_total :: "decision_standings \<Rightarrow> nat" where
  "standings_total s = sd_evaluated s + sd_unknown s + sd_open s + sd_unattributed s"

record rule_match =
  rm_logic_version :: string
  rm_artifact_hash :: string
  rm_rule :: "string option"
  rm_decisions :: nat
  rm_matched :: nat

record signal_row =
  sr_id :: string
  sr_input_key :: string
  sr_known_true :: nat
  sr_known_false :: nat
  sr_unavailable :: nat
  sr_absent :: nat
  sr_not_applicable :: nat
  sr_reconstruction_failed :: nat
  sr_input_available :: nat
  sr_input_consumed :: nat
  sr_historical_rule_matched :: "rule_match list"
  sr_comparison :: rate_comparison

record workflow_row =
  wr_workflow_version :: string
  wr_decisions :: nat
  wr_standings :: decision_standings
  wr_rate :: rate

record workflow_comparison =
  wc_workflow_version :: string
  wc_comparison_workflow_version :: string
  wc_comparison :: rate_comparison

record insights_result =
  in_cutoff :: int
  in_population :: nat
  in_reconstructed :: nat
  in_reconstruction_failures :: "(string \<times> reconstruction_error) list"
  in_observations :: observation_coverage
  in_standings :: decision_standings
  in_overall :: rate
  in_signals :: "signal_row list"
  in_workflows :: "workflow_row list"
  in_workflow_comparison :: workflow_comparison

subsection \<open>Per-observation and per-decision facts\<close>

datatype observation_state = ObservationOpen | ClosedKnown | ClosedUnknown

record observation_fact =
  of_outcome_event_id :: string
  of_account_ref :: string
  of_schema_version :: string
  of_standing :: string
  of_state :: observation_state
  of_exactly_90_days :: bool
  of_opportunity :: "bool option"
  of_resolved_action :: "string option"
  of_resolved_decision :: "string option"

definition AWAITING_ATTRIBUTION :: string where
  "AWAITING_ATTRIBUTION = ''awaiting attribution''"

definition ATTRIBUTED_STATUSES :: "string list" where
  "ATTRIBUTED_STATUSES = [''direct'', ''inferred'']"

definition attributed :: "observation_fact \<Rightarrow> bool" where
  "attributed x \<longleftrightarrow> of_standing x \<in> set ATTRIBUTED_STATUSES"

definition qualifying :: "observation_fact \<Rightarrow> bool" where
  "qualifying x \<longleftrightarrow> attributed x \<and> of_state x = ClosedKnown \<and> of_exactly_90_days x"

datatype signal_state = KnownTrue | KnownFalse | SigUnavailable | SigAbsent | NotApplicable | ReconstructionFailed

record decision_facts =
  df_decision_event_id :: string
  df_account_ref :: string
  df_workflow_version :: string
  df_logic_version :: string
  df_artifact_hash :: string
  df_failure :: "reconstruction_error option"
  df_context_states :: "(string \<times> input_state) list"
  df_available_inputs :: "string list"
  df_consumed_inputs :: "string list"
  df_observations :: "observation_fact list"
  df_signal_states :: "(string \<times> signal_state) list"
  df_historical_rules :: "(string \<times> (string \<times> bool) option) list"

definition reconstructed :: "decision_facts \<Rightarrow> bool" where
  "reconstructed f \<longleftrightarrow> df_failure f = None"

datatype decision_standing = Evaluated | Unknown | StandingOpen | Unattributed

definition standing :: "decision_facts \<Rightarrow> decision_standing" where
  "standing f =
     (let states = map of_state (df_observations f) in
      if ClosedKnown \<in> set states then Evaluated
      else if ClosedUnknown \<in> set states then Unknown
      else if df_observations f \<noteq> [] then StandingOpen
      else Unattributed)"

definition qualifying_observations :: "decision_facts \<Rightarrow> observation_fact list" where
  "qualifying_observations f = filter qualifying (df_observations f)"

definition fact_eligible :: "decision_facts \<Rightarrow> bool" where
  "fact_eligible f \<longleftrightarrow> reconstructed f \<and> qualifying_observations f \<noteq> []"

definition fact_positive :: "decision_facts \<Rightarrow> bool" where
  "fact_positive f \<longleftrightarrow>
     fact_eligible f \<and> list_ex (\<lambda>x. of_opportunity x = Some True) (qualifying_observations f)"

text \<open>\<open>f.signal_states[id]\<close> and \<open>f.historical_rules[id]\<close>: of a repeated id the last signal's entry.\<close>

definition signal_state_of :: "decision_facts \<Rightarrow> string \<Rightarrow> signal_state option" where
  "signal_state_of f sid = map_of (rev (df_signal_states f)) sid"

definition historical_rule_of :: "decision_facts \<Rightarrow> string \<Rightarrow> (string \<times> bool) option option" where
  "historical_rule_of f sid = map_of (rev (df_historical_rules f)) sid"

subsection \<open>Reads\<close>

definition population :: "ledger \<Rightarrow> int \<Rightarrow> decision_row list" where
  "population L cutoff =
     sort_key d_seq
       (filter (\<lambda>d. d_account_ref d \<in> set (map a_account_ref (accounts_query L)) \<and> d_seq d \<le> cutoff \<and>
           d_class d = ATTRIBUTABLE_DECISION_CLASS) (lg_decisions L))"

definition period_is_exactly_90_days :: "outcome_row \<Rightarrow> insights_error + bool" where
  "period_is_exactly_90_days r =
     (if o_schema_version r = ''1'' then Inr (o_window_days r = Some QUALIFYING_PERIOD_DAYS)
      else bindE (opt_to_sum (StoredData ''window_opened_at'') (Option.bind (o_window_opened_at r) instant)) (\<lambda>a.
           bindE (opt_to_sum (StoredData ''window_closes_at'') (Option.bind (o_window_closes_at r) instant)) (\<lambda>b.
             Inr (utc_micros b - utc_micros a = QUALIFYING_PERIOD))))"

definition observation_state_of :: "outcome_row \<Rightarrow> observation_state" where
  "observation_state_of r =
     (if o_schema_version r = ''1'' then ClosedKnown
      else if o_evaluation_state r = Some ''open'' then ObservationOpen
      else if o_opportunity r \<noteq> None then ClosedKnown
      else ClosedUnknown)"

definition outcome_query :: "ledger \<Rightarrow> int \<Rightarrow> string option \<Rightarrow> (outcome_row \<times> int) list" where
  "outcome_query L cutoff acct =
     sort_key snd (filter (\<lambda>(r, s). (acct = None \<or> acct = Some (o_account_ref r)) \<and> s \<le> cutoff)
       (joined o_event_id (lg_outcomes L) L))"

text \<open>An ambiguous selection is named by the first version, in ingest order, that raises.\<close>

primrec name_ambiguity :: "ledger \<Rightarrow> int \<Rightarrow> string list \<Rightarrow> (outcome_row \<times> int) list \<Rightarrow> insights_error" where
  "name_ambiguity L cutoff cands [] = SelectionFailure [] cands"
| "name_ambiguity L cutoff cands (x # xs) =
     (case effective_outcome_version L (o_event_id (fst x)) cutoff of
        Inr _ \<Rightarrow> name_ambiguity L cutoff cands xs
      | Inl (AmbiguousSelection w cs) \<Rightarrow> SelectionFailure (o_event_id (fst x)) cs
      | Inl e \<Rightarrow> PolicyError e)"

definition effective_ids :: "ledger \<Rightarrow> int \<Rightarrow> string option \<Rightarrow> insights_error + string list" where
  "effective_ids L cutoff acct =
     (case effective_outcome_versions L cutoff acct of
        Inr ids \<Rightarrow> Inr ids
      | Inl (AmbiguousSelection w cs) \<Rightarrow> Inl (name_ambiguity L cutoff cs (outcome_query L cutoff acct))
      | Inl e \<Rightarrow> Inl (PolicyError e))"

definition observation :: "ledger \<Rightarrow> int \<Rightarrow> string option \<Rightarrow> string \<Rightarrow> insights_error + observation_fact" where
  "observation L cutoff acct k =
     (case effective_attribution L k POLICY_VERSION cutoff of
        Inl (AmbiguousSelection w cs) \<Rightarrow> Inl (SelectionFailure k cs)
      | Inl e \<Rightarrow> Inl (PolicyError e)
      | Inr res \<Rightarrow>
          bindE (opt_to_sum (StoredData k) (find (\<lambda>(r, s). o_event_id r = k) (outcome_query L cutoff acct))) (\<lambda>(row, s).
          bindE (period_is_exactly_90_days row) (\<lambda>exact.
            Inr \<lparr>of_outcome_event_id = k, of_account_ref = o_account_ref row, of_schema_version = o_schema_version row,
              of_standing = (case res of None \<Rightarrow> AWAITING_ATTRIBUTION | Some t \<Rightarrow> t_status t),
              of_state = observation_state_of row, of_exactly_90_days = exact, of_opportunity = o_opportunity row,
              of_resolved_action = Option.bind res t_resolved_action,
              of_resolved_decision = Option.bind res t_resolved_decision\<rparr>)))"

definition observations :: "ledger \<Rightarrow> int \<Rightarrow> string option \<Rightarrow> insights_error + observation_fact list" where
  "observations L cutoff acct =
     bindE (effective_ids L cutoff acct) (\<lambda>ids. mapE (observation L cutoff acct) ids)"

text \<open>\<open>_contexts\<close>, for one decision of the population: availability and text by key; consumed keys.\<close>

definition decided_by :: "ledger \<Rightarrow> int \<Rightarrow> string \<Rightarrow> bool" where
  "decided_by L cutoff k \<longleftrightarrow> list_ex (\<lambda>d. d_event_id d = k \<and> d_seq d \<le> cutoff) (lg_decisions L)"

definition preserved :: "ledger \<Rightarrow> int \<Rightarrow> string \<Rightarrow> (string \<times> string \<times> string option) list" where
  "preserved L cutoff k =
     map (\<lambda>h. (h_input_key h, h_availability h, h_value_text h))
       (filter (\<lambda>h. h_decision h = k \<and> decided_by L cutoff (h_decision h)) (lg_context L))"

definition consumed_keys :: "ledger \<Rightarrow> int \<Rightarrow> string \<Rightarrow> string list" where
  "consumed_keys L cutoff k =
     map u_input_key (filter (\<lambda>u. u_decision u = k \<and> decided_by L cutoff (u_decision u)) (lg_consumed L))"

subsection \<open>Signals of one decision\<close>

definition rule_signal_state :: "string \<Rightarrow> string \<Rightarrow> evaluation_result \<Rightarrow> signal_state" where
  "rule_signal_state key rtext r =
     (case find (\<lambda>f. fr_key f = key \<and> fr_rule f = rtext) (rs_factors r) of
        None \<Rightarrow> NotApplicable
      | Some f \<Rightarrow>
          if fr_state f = Absent then SigAbsent
          else if fr_state f = Unavailable then SigUnavailable
          else if fr_matched f then KnownTrue else KnownFalse)"

definition context_value_signal_state ::
    "string \<Rightarrow> json \<Rightarrow> evaluation_result \<Rightarrow> (string \<times> string \<times> string option) list \<Rightarrow> insights_error + signal_state" where
  "context_value_signal_state key eq r kept =
     (case map_of (rs_states r) key of
        None \<Rightarrow> Inr SigAbsent
      | Some st \<Rightarrow>
          if st = Unavailable then Inr SigUnavailable
          else (case Option.bind (map_of (rev kept) key) snd of
              None \<Rightarrow> Inl (StoredData key)
            | Some t \<Rightarrow>
                bindE (opt_to_sum (StoredData t) (json_loads t)) (\<lambda>v.
                  Inr (if same_scalar v eq then KnownTrue else KnownFalse))))"

definition signal_state_for ::
    "reconstruction option \<Rightarrow> (string \<times> string \<times> string option) list \<Rightarrow> signal_definition
      \<Rightarrow> insights_error + (string \<times> signal_state)" where
  "signal_state_for rec kept sg =
     (case rec of
        None \<Rightarrow> Inr (sg_id sg, ReconstructionFailed)
      | Some r \<Rightarrow>
          (case sg_kind sg of
             RuleSignal t \<Rightarrow> Inr (sg_id sg, rule_signal_state (sg_input_key sg) t (rc_result r))
           | ContextValueSignal v \<Rightarrow>
               bindE (context_value_signal_state (sg_input_key sg) v (rc_result r) kept) (\<lambda>st. Inr (sg_id sg, st))))"

definition historical_rule :: "reconstruction \<Rightarrow> signal_definition \<Rightarrow> (string \<times> bool) option" where
  "historical_rule r sg =
     map_option (\<lambda>f. (fr_rule f, fr_matched f)) (find (\<lambda>f. fr_key f = sg_input_key sg) (rs_factors (rc_result r)))"

text \<open>One reconstruction: a named failure is kept with the decision, any other propagates.\<close>

definition attempt :: "ledger \<Rightarrow> string \<Rightarrow> insights_error + (reconstruction_error + reconstruction)" where
  "attempt L k =
     (case reconstruct L k of
        Inr r \<Rightarrow> Inr (Inr r)
      | Inl e \<Rightarrow> if replay_failure e then Inr (Inl e) else Inl (Propagated e))"

definition attributed_to :: "string \<Rightarrow> observation_fact list \<Rightarrow> observation_fact list" where
  "attributed_to k xs = filter (\<lambda>x. attributed x \<and> of_resolved_decision x = Some k) xs"

definition facts_of ::
    "ledger \<Rightarrow> int \<Rightarrow> signal_definition list \<Rightarrow> observation_fact list
      \<Rightarrow> decision_row \<times> (reconstruction_error + reconstruction) \<Rightarrow> insights_error + decision_facts" where
  "facts_of L cutoff sgs obs dr =
     (case dr of (d, outcome) \<Rightarrow>
        let k = d_event_id d; kept = preserved L cutoff k;
            rec = (case outcome of Inr r \<Rightarrow> Some r | Inl _ \<Rightarrow> None)
        in bindE (mapE (signal_state_for rec kept) sgs) (\<lambda>states.
             Inr \<lparr>df_decision_event_id = k, df_account_ref = d_account_ref d,
               df_workflow_version = d_workflow_version d,
               df_logic_version = (case rec of Some r \<Rightarrow> rc_logic_version r | None \<Rightarrow> d_logic_version d),
               df_artifact_hash = (case rec of Some r \<Rightarrow> rc_artifact_hash r | None \<Rightarrow> d_hash d),
               df_failure = (case outcome of Inl e \<Rightarrow> Some e | Inr _ \<Rightarrow> None),
               df_context_states = (case rec of Some r \<Rightarrow> rs_states (rc_result r) | None \<Rightarrow> []),
               df_available_inputs = map fst (filter (\<lambda>(key, availability, _). availability = ''available'') kept),
               df_consumed_inputs = consumed_keys L cutoff k,
               df_observations = attributed_to k obs,
               df_signal_states = states,
               df_historical_rules =
                 (case rec of Some r \<Rightarrow> map (\<lambda>sg. (sg_id sg, historical_rule r sg)) sgs | None \<Rightarrow> [])\<rparr>))"

definition lift_policy :: "attribution_error + 'a \<Rightarrow> insights_error + 'a" where
  "lift_policy x = (case x of Inl e \<Rightarrow> Inl (PolicyError e) | Inr a \<Rightarrow> Inr a)"

text \<open>\<open>_facts\<close>: of the whole population, or of one decision with the selections of its account.\<close>

definition facts ::
    "ledger \<Rightarrow> int \<Rightarrow> signal_definition list \<Rightarrow> string option
      \<Rightarrow> insights_error + (decision_facts list \<times> observation_fact list)" where
  "facts L cutoff sgs only =
     bindE (lift_policy (validate_cutoff L cutoff)) (\<lambda>_.
       let pop = filter (\<lambda>d. only = None \<or> only = Some (d_event_id d)) (population L cutoff) in
       if only \<noteq> None \<and> pop = [] then Inl (NotInPopulation (the only))
       else let scope = (if only = None then None else Some (d_account_ref (hd pop))) in
         bindE (observations L cutoff scope) (\<lambda>obs.
         bindE (mapE (\<lambda>d. attempt L (d_event_id d)) pop) (\<lambda>recs.
         bindE (mapE (facts_of L cutoff sgs obs) (zip pop recs)) (\<lambda>fs.
           Inr (fs, obs)))))"

subsection \<open>Aggregation\<close>

definition count :: "('a \<Rightarrow> bool) \<Rightarrow> 'a list \<Rightarrow> nat" where
  "count p xs = length (filter p xs)"

definition rate_of :: "decision_facts list \<Rightarrow> rate" where
  "rate_of fs =
     \<lparr>rt_cohort_total = length fs, rt_eligible = count fact_eligible fs, rt_positives = count fact_positive fs,
      rt_excluded_other_period_only = count (\<lambda>f. standing f = Evaluated \<and> qualifying_observations f = []) fs,
      rt_excluded_reconstruction_failed = count (\<lambda>f. \<not> reconstructed f) fs,
      rt_excluded_not_evaluated = count (\<lambda>f. standing f \<noteq> Evaluated) fs\<rparr>"

definition standings_of :: "decision_facts list \<Rightarrow> decision_standings" where
  "standings_of fs =
     \<lparr>sd_evaluated = count (\<lambda>f. standing f = Evaluated) fs, sd_unknown = count (\<lambda>f. standing f = Unknown) fs,
      sd_open = count (\<lambda>f. standing f = StandingOpen) fs,
      sd_unattributed = count (\<lambda>f. standing f = Unattributed) fs\<rparr>"

definition coverage_of :: "observation_fact list \<Rightarrow> observation_coverage" where
  "coverage_of xs =
     \<lparr>oc_awaiting_attribution = count (\<lambda>x. of_standing x = AWAITING_ATTRIBUTION) xs,
      oc_unresolved = count (\<lambda>x. of_standing x = ''unresolved'') xs,
      oc_direct = count (\<lambda>x. of_standing x = ''direct'') xs,
      oc_inferred = count (\<lambda>x. of_standing x = ''inferred'') xs,
      oc_open = count (\<lambda>x. of_state x = ObservationOpen) xs,
      oc_closed_known = count (\<lambda>x. of_state x = ClosedKnown) xs,
      oc_closed_unknown = count (\<lambda>x. of_state x = ClosedUnknown) xs,
      oc_other_period = count (\<lambda>x. \<not> of_exactly_90_days x) xs,
      oc_qualifying_90_day = count qualifying xs, oc_total = length xs\<rparr>"

definition in_state :: "string \<Rightarrow> signal_state \<Rightarrow> decision_facts list \<Rightarrow> decision_facts list" where
  "in_state sid st fs = filter (\<lambda>f. signal_state_of f sid = Some st) fs"

text \<open>The grouping by artifact, in sorted order of version and hash.\<close>

definition artifact_key :: "decision_facts \<Rightarrow> string \<times> string" where
  "artifact_key f = (df_logic_version f, df_artifact_hash f)"

definition rule_match_of :: "string \<Rightarrow> decision_facts list \<Rightarrow> string \<times> string \<Rightarrow> insights_error + rule_match" where
  "rule_match_of sid fs key =
     (let members = filter (\<lambda>f. reconstructed f \<and> artifact_key f = key) fs in
      bindE (opt_to_sum (StoredData sid) (historical_rule_of (hd members) sid)) (\<lambda>on_key.
      bindE (case on_key of
               None \<Rightarrow> Inr 0
             | Some _ \<Rightarrow>
                 bindE (mapE (\<lambda>m. opt_to_sum (StoredData sid) (Option.bind (historical_rule_of m sid) (map_option snd))) members)
                   (\<lambda>ms. Inr (count (\<lambda>b. b) ms)))
        (\<lambda>matched. Inr \<lparr>rm_logic_version = fst key, rm_artifact_hash = snd key, rm_rule = map_option fst on_key,
           rm_decisions = length members, rm_matched = matched\<rparr>)))"

definition artifact_matches :: "string \<Rightarrow> decision_facts list \<Rightarrow> insights_error + rule_match list" where
  "artifact_matches sid fs =
     mapE (rule_match_of sid fs) (sort (remdups (map artifact_key (filter reconstructed fs))))"

definition signal_row_of :: "decision_facts list \<Rightarrow> signal_definition \<Rightarrow> insights_error + signal_row" where
  "signal_row_of fs sg =
     (let sid = sg_id sg in
      bindE (artifact_matches sid fs) (\<lambda>ms.
        Inr \<lparr>sr_id = sid, sr_input_key = sg_input_key sg,
          sr_known_true = length (in_state sid KnownTrue fs), sr_known_false = length (in_state sid KnownFalse fs),
          sr_unavailable = length (in_state sid SigUnavailable fs), sr_absent = length (in_state sid SigAbsent fs),
          sr_not_applicable = length (in_state sid NotApplicable fs),
          sr_reconstruction_failed = length (in_state sid ReconstructionFailed fs),
          sr_input_available = count (\<lambda>f. sg_input_key sg \<in> set (df_available_inputs f)) fs,
          sr_input_consumed = count (\<lambda>f. sg_input_key sg \<in> set (df_consumed_inputs f)) fs,
          sr_historical_rule_matched = ms,
          sr_comparison = \<lparr>ct_present = rate_of (in_state sid KnownTrue fs),
            ct_absent = rate_of (in_state sid KnownFalse fs)\<rparr>\<rparr>))"

subsection \<open>Entry points\<close>

definition cohort :: "string \<Rightarrow> decision_facts list \<Rightarrow> decision_facts list" where
  "cohort version fs = filter (\<lambda>f. df_workflow_version f = version) fs"

definition insights :: "ledger \<Rightarrow> int \<Rightarrow> signal_definition list \<Rightarrow> string \<Rightarrow> insights_error + insights_result" where
  "insights L cutoff sgs other =
     bindE (facts L cutoff sgs None) (\<lambda>(fs, obs).
     bindE (mapE (signal_row_of fs) sgs) (\<lambda>rows.
       Inr \<lparr>in_cutoff = cutoff, in_population = length fs, in_reconstructed = count reconstructed fs,
         in_reconstruction_failures =
           sort_key fst (List.map_filter (\<lambda>f. map_option (Pair (df_decision_event_id f)) (df_failure f)) fs),
         in_observations = coverage_of obs, in_standings = standings_of fs, in_overall = rate_of fs,
         in_signals = rows,
         in_workflows = map (\<lambda>v. \<lparr>wr_workflow_version = v, wr_decisions = length (cohort v fs),
             wr_standings = standings_of (cohort v fs), wr_rate = rate_of (cohort v fs)\<rparr>)
           (sort (remdups (map df_workflow_version fs))),
         in_workflow_comparison = \<lparr>wc_workflow_version = WORKFLOW_UNDER_COMPARISON,
           wc_comparison_workflow_version = other,
           wc_comparison = \<lparr>ct_present = rate_of (cohort WORKFLOW_UNDER_COMPARISON fs),
             ct_absent = rate_of (cohort other fs)\<rparr>\<rparr>\<rparr>))"

definition decision_facts_at ::
    "ledger \<Rightarrow> string \<Rightarrow> int \<Rightarrow> signal_definition list \<Rightarrow> insights_error + decision_facts" where
  "decision_facts_at L k cutoff sgs =
     bindE (facts L cutoff sgs (Some k)) (\<lambda>(fs, obs). Inr (hd fs))"

subsection \<open>Counting\<close>

lemma count_simps [simp]:
  "count p [] = 0" "count p (x # xs) = (if p x then Suc (count p xs) else count p xs)"
  by (simp_all add: count_def)

lemma count_le: "count p xs \<le> length xs"
  by (simp add: count_def)

lemma count_mono: "(\<And>x. p x \<Longrightarrow> q x) \<Longrightarrow> count p xs \<le> count q xs"
  by (induction xs) (auto simp: le_SucI)

lemma standings_total_of: "standings_total (standings_of fs) = length fs"
proof (induction fs)
  case (Cons f fs)
  then show ?case
    by (cases "standing f") (simp_all add: standings_total_def standings_of_def)
qed (simp add: standings_total_def standings_of_def)

lemma in_state_simps [simp]:
  "in_state sid st [] = []"
  "in_state sid st (f # fs) = (if signal_state_of f sid = Some st then f # in_state sid st fs else in_state sid st fs)"
  by (simp_all add: in_state_def)

lemma signal_states_total:
  assumes "\<forall>f\<in>set fs. signal_state_of f sid \<noteq> None"
  shows "length (in_state sid KnownTrue fs) + length (in_state sid KnownFalse fs) +
    length (in_state sid SigUnavailable fs) + length (in_state sid SigAbsent fs) +
    length (in_state sid NotApplicable fs) + length (in_state sid ReconstructionFailed fs) = length fs"
  using assms
proof (induction fs)
  case (Cons f fs)
  then obtain st where "signal_state_of f sid = Some st" by auto
  then show ?case using Cons by (cases st) simp_all
qed simp

lemma groups_total:
  assumes "distinct ks" "g ` set xs \<subseteq> set ks"
  shows "sum_list (map (\<lambda>k. length (filter (\<lambda>x. g x = k) xs)) ks) = length xs"
  using assms(2)
proof (induction xs)
  case (Cons x xs)
  have "sum_list (map (\<lambda>k. length (filter (\<lambda>y. g y = k) (x # xs))) ks) =
      sum_list (map (\<lambda>k. length (filter (\<lambda>y. g y = k) xs) + (if g x = k then 1 else 0)) ks)"
    by (intro arg_cong [of _ _ sum_list] map_cong) auto
  also have "\<dots> = length xs + sum_list (map (\<lambda>k. if g x = k then 1 else 0) ks)"
    using Cons by (simp add: sum_list_addf)
  also have "sum_list (map (\<lambda>k. if g x = k then 1 else 0) ks) = (1 :: nat)"
    using assms(1) Cons.prems by (simp add: sum_list_distinct_conv_sum_set)
  finally show ?case by simp
qed simp

subsection \<open>The facts of a population\<close>

lemma factsD:
  assumes "facts L cutoff sgs None = Inr (fs, obs)"
  obtains recs where "observations L cutoff None = Inr obs"
    "mapE (\<lambda>d. attempt L (d_event_id d)) (population L cutoff) = Inr recs"
    "mapE (facts_of L cutoff sgs obs) (zip (population L cutoff) recs) = Inr fs"
  using assms by (auto simp: facts_def Let_def split: if_splits)

lemma facts_ofD:
  assumes "facts_of L cutoff sgs obs (d, res) = Inr f"
  shows "df_decision_event_id f = d_event_id d" "df_workflow_version f = d_workflow_version d"
    "df_observations f = attributed_to (d_event_id d) obs" "map fst (df_signal_states f) = map sg_id sgs"
    "df_failure f = (case res of Inl e \<Rightarrow> Some e | Inr _ \<Rightarrow> None)"
proof -
  obtain states where s: "mapE (signal_state_for (case res of Inr r \<Rightarrow> Some r | Inl _ \<Rightarrow> None)
      (preserved L cutoff (d_event_id d))) sgs = Inr states"
    and f: "df_decision_event_id f = d_event_id d" "df_workflow_version f = d_workflow_version d"
      "df_observations f = attributed_to (d_event_id d) obs" "df_signal_states f = states"
      "df_failure f = (case res of Inl e \<Rightarrow> Some e | Inr _ \<Rightarrow> None)"
    using assms by (auto simp: facts_of_def Let_def)
  have "fst y = sg_id sg" if "signal_state_for rec kept sg = Inr y" for rec kept sg y
    using that by (auto simp: signal_state_for_def split: option.splits signal_kind.splits)
  with s have "list_all2 (\<lambda>sg y. fst y = sg_id sg) sgs states"
    unfolding mapE_Inr_iff by (rule list_all2_mono)
  then have "map fst states = map sg_id sgs" by (induction rule: list_all2_induct) auto
  then show "map fst (df_signal_states f) = map sg_id sgs" "df_decision_event_id f = d_event_id d"
    "df_workflow_version f = d_workflow_version d" "df_observations f = attributed_to (d_event_id d) obs"
    "df_failure f = (case res of Inl e \<Rightarrow> Some e | Inr _ \<Rightarrow> None)" by (simp_all add: f)
qed

lemma facts_members:
  assumes "facts L cutoff sgs None = Inr (fs, obs)"
  shows "length fs = length (population L cutoff)"
    "f \<in> set fs \<Longrightarrow> \<exists>d\<in>set (population L cutoff). df_decision_event_id f = d_event_id d \<and>
       df_observations f = attributed_to (d_event_id d) obs \<and> map fst (df_signal_states f) = map sg_id sgs"
proof -
  obtain recs where r: "mapE (\<lambda>d. attempt L (d_event_id d)) (population L cutoff) = Inr recs"
    "mapE (facts_of L cutoff sgs obs) (zip (population L cutoff) recs) = Inr fs"
    using factsD [OF assms] .
  show "length fs = length (population L cutoff)"
    using mapE_Inr_length [OF r(1)] mapE_Inr_length [OF r(2)] by simp
  show "\<exists>d\<in>set (population L cutoff). df_decision_event_id f = d_event_id d \<and>
      df_observations f = attributed_to (d_event_id d) obs \<and> map fst (df_signal_states f) = map sg_id sgs"
    if fin: "f \<in> set fs"
  proof -
    obtain dr where dr: "dr \<in> set (zip (population L cutoff) recs)" "facts_of L cutoff sgs obs dr = Inr f"
      using list_all2_right [OF r(2) [unfolded mapE_Inr_iff] fin] by blast
    obtain d res where d: "dr = (d, res)" by (cases dr)
    have "d \<in> set (population L cutoff)" using dr(1) unfolding d by (rule set_zip_leftD)
    then show ?thesis using facts_ofD(1,3,4) [OF dr(2) [unfolded d]] by (intro bexI [of _ d] conjI)
  qed
qed

subsection \<open>Properties\<close>

text \<open>Of any cohort the positives are at most the eligible decisions and these at most the cohort, the
  value, where there is one, lies between 0 and 1, and the three exclusion counts account for every
  decision that is not eligible.\<close>
theorem rate_bounds:
  "rt_positives (rate_of fs) \<le> rt_eligible (rate_of fs) \<and> rt_eligible (rate_of fs) \<le> rt_cohort_total (rate_of fs) \<and>
   (rate_value (rate_of fs) = None \<or> 0 \<le> the (rate_value (rate_of fs)) \<and> the (rate_value (rate_of fs)) \<le> 1) \<and>
   rt_cohort_total (rate_of fs) \<le> rt_eligible (rate_of fs) + rt_excluded_other_period_only (rate_of fs) +
     rt_excluded_reconstruction_failed (rate_of fs) + rt_excluded_not_evaluated (rate_of fs)"
proof -
  have p: "count fact_positive fs \<le> count fact_eligible fs"
    by (rule count_mono) (simp add: fact_positive_def)
  have "0 \<le> v \<and> v \<le> 1" if "rate_value (rate_of fs) = Some v" for v
    using that p by (auto simp: rate_value_def rate_available_def rate_of_def split: if_splits)
  moreover have "length fs \<le> count fact_eligible fs + count (\<lambda>f. standing f = Evaluated \<and> qualifying_observations f = []) fs +
      count (\<lambda>f. \<not> reconstructed f) fs + count (\<lambda>f. standing f \<noteq> Evaluated) fs"
    by (induction fs) (auto simp: fact_eligible_def)
  ultimately show ?thesis
    using p count_le [of fact_eligible fs] by (cases "rate_value (rate_of fs)") (auto simp: rate_of_def)
qed

text \<open>The metrics add up: the four standings, the six states of every signal and the workflow cohorts
  each partition the population.\<close>
theorem insights_partitions:
  assumes "insights L cutoff sgs other = Inr r"
  shows "standings_total (in_standings r) = in_population r \<and>
    in_population r = length (population L cutoff) \<and>
    (\<forall>s\<in>set (in_signals r). sr_known_true s + sr_known_false s + sr_unavailable s + sr_absent s +
       sr_not_applicable s + sr_reconstruction_failed s = in_population r) \<and>
    sum_list (map wr_decisions (in_workflows r)) = in_population r"
proof -
  obtain fs obs rows where f: "facts L cutoff sgs None = Inr (fs, obs)" "mapE (signal_row_of fs) sgs = Inr rows"
    and r: "in_population r = length fs" "in_standings r = standings_of fs" "in_signals r = rows"
      "in_workflows r = map (\<lambda>v. \<lparr>wr_workflow_version = v, wr_decisions = length (cohort v fs),
             wr_standings = standings_of (cohort v fs), wr_rate = rate_of (cohort v fs)\<rparr>)
           (sort (remdups (map df_workflow_version fs)))"
    using assms by (auto simp: insights_def)
  have sig: "sr_known_true s + sr_known_false s + sr_unavailable s + sr_absent s + sr_not_applicable s +
      sr_reconstruction_failed s = length fs" if s: "s \<in> set rows" for s
  proof -
    obtain sg where sg: "sg \<in> set sgs" "signal_row_of fs sg = Inr s"
      using list_all2_right [OF f(2) [unfolded mapE_Inr_iff] s] by blast
    have "signal_state_of g (sg_id sg) \<noteq> None" if g: "g \<in> set fs" for g
    proof -
      have "map fst (df_signal_states g) = map sg_id sgs" using facts_members(2) [OF f(1) g] by blast
      then have "sg_id sg \<in> fst ` set (df_signal_states g)" using sg(1) by (metis imageI set_map)
      then show ?thesis by (simp add: signal_state_of_def map_of_eq_None_iff)
    qed
    then show ?thesis
      using sg(2) signal_states_total [of fs "sg_id sg"] by (auto simp: signal_row_of_def Let_def)
  qed
  have "sum_list (map wr_decisions (in_workflows r)) = length fs"
    using groups_total [of "sort (remdups (map df_workflow_version fs))" df_workflow_version fs]
    by (simp add: r(4) comp_def cohort_def)
  then show ?thesis
    using sig facts_members(1) [OF f(1)] by (simp add: r standings_total_of)
qed

subsection \<open>What a decision's facts count\<close>

text \<open>Read off the tables: an outcome version, or an attribution, recorded by a cutoff that nothing recorded by
  the cutoff supersedes; and an attribution that counts its outcome for a decision.\<close>

definition recorded_by :: "ledger \<Rightarrow> int \<Rightarrow> string \<Rightarrow> bool" where
  "recorded_by L c k \<longleftrightarrow> (case seq_of L k of None \<Rightarrow> False | Some s \<Rightarrow> s \<le> c)"

definition latest_version :: "ledger \<Rightarrow> int \<Rightarrow> string \<Rightarrow> bool" where
  "latest_version L c k \<longleftrightarrow> k \<in> o_event_id ` set (lg_outcomes L) \<and> recorded_by L c k \<and>
     \<not> (\<exists>r\<in>set (lg_outcomes L). o_supersedes r = Some k \<and> recorded_by L c (o_event_id r))"

definition same_outcome :: "attribution_row \<Rightarrow> attribution_row \<Rightarrow> bool" where
  "same_outcome t u \<longleftrightarrow> t_outcome u = t_outcome t \<and> t_policy_version u = t_policy_version t"

definition latest_attribution :: "ledger \<Rightarrow> int \<Rightarrow> attribution_row \<Rightarrow> bool" where
  "latest_attribution L c t \<longleftrightarrow> t \<in> set (lg_attributions L) \<and> recorded_by L c (t_event_id t) \<and>
     \<not> (\<exists>u\<in>set (lg_attributions L). same_outcome t u \<and> t_supersedes u = Some (t_event_id t) \<and>
          recorded_by L c (t_event_id u))"

definition credits :: "attribution_row \<Rightarrow> string \<Rightarrow> string \<Rightarrow> bool" where
  "credits t k d \<longleftrightarrow> t_outcome t = k \<and> t_policy_version t = POLICY_VERSION \<and>
     t_status t \<in> {''direct'', ''inferred''} \<and> t_resolved_decision t = Some d"

lemma set_joined_recorded:
  "r \<in> fst ` set (filter (\<lambda>(r, s). P r \<and> s \<le> c) (joined key rows L)) \<longleftrightarrow> r \<in> set rows \<and> P r \<and> recorded_by L c (key r)"
  by (force simp: set_joined recorded_by_def split: option.splits)

lemma no_successors: "successors L c k = [] \<longleftrightarrow>
    \<not> (\<exists>r\<in>set (lg_outcomes L). o_supersedes r = Some k \<and> recorded_by L c (o_event_id r))"
proof -
  have "successors L c k = [] \<longleftrightarrow> (\<forall>x. x \<notin> set (successors L c k))" by (metis all_not_in_conv set_empty2)
  then show ?thesis by (auto simp: successors_iff recorded_by_def split: option.splits)
qed

lemma supersession_recorded:
  "(supersession L c)\<^sup>*\<^sup>* a b \<Longrightarrow> a \<in> o_event_id ` set (lg_outcomes L) \<and> recorded_by L c a \<Longrightarrow>
     b \<in> o_event_id ` set (lg_outcomes L) \<and> recorded_by L c b"
proof (induction rule: rtranclp_induct)
  case (step y z)
  then show ?case by (auto simp: successors_iff recorded_by_def)
qed

lemma set_effective_versions:
  assumes "effective_outcome_versions L c None = Inr ids"
  shows "distinct ids" "k \<in> set ids \<longleftrightarrow> latest_version L c k"
proof -
  let ?rows = "sort_key snd (filter (\<lambda>(r, s). s \<le> c) (joined o_event_id (lg_outcomes L) L))"
  obtain ts where ts: "mapE (\<lambda>(r, s). effective_outcome_version L (o_event_id r) c) ?rows = Inr ts"
    and ids: "ids = rev (remdups (rev ts))"
    using assms by (auto simp: effective_outcome_versions_def)
  show "distinct ids" by (simp add: ids)
  have walk: "follow L c (o_event_id r) [o_event_id r] = Inr t"
    if "effective_outcome_version L (o_event_id r) c = Inr t" for r t
    using that by (auto simp: effective_outcome_version_def)
  have row: "(r, s) \<in> set ?rows \<longleftrightarrow> r \<in> set (lg_outcomes L) \<and> seq_of L (o_event_id r) = Some s \<and> s \<le> c" for r s
    by (auto simp: set_joined)
  show "k \<in> set ids \<longleftrightarrow> latest_version L c k"
  proof
    assume "k \<in> set ids"
    then have "k \<in> set ts" by (simp add: ids)
    from list_all2_right [OF ts [unfolded mapE_Inr_iff] this] obtain r s where r: "(r, s) \<in> set ?rows"
      "effective_outcome_version L (o_event_id r) c = Inr k" by auto
    have "o_event_id r \<in> o_event_id ` set (lg_outcomes L) \<and> recorded_by L c (o_event_id r)"
      using r(1) unfolding row by (auto simp: recorded_by_def)
    then show "latest_version L c k"
      using follow_result [OF walk [OF r(2)]] supersession_recorded [of L c "o_event_id r" k]
      by (simp add: latest_version_def no_successors)
  next
    assume l: "latest_version L c k"
    then obtain r s where r: "(r, s) \<in> set ?rows" "o_event_id r = k" unfolding row
      by (auto simp: latest_version_def recorded_by_def split: option.splits)
    from list_all2_left [OF ts [unfolded mapE_Inr_iff] r(1)] obtain t where t: "t \<in> set ts"
      "effective_outcome_version L k c = Inr t" by (auto simp: r(2))
    have "successors L c k = []" using l by (simp add: latest_version_def no_successors)
    then have "follow L c k [k] = Inr k" by (simp add: follow.simps)
    then have "t = k" using walk [of r t] t(2) r(2) by simp
    then show "k \<in> set ids" using t(1) by (simp add: ids)
  qed
qed

lemma set_map_filter_iff: "x \<in> set (List.map_filter f xs) \<longleftrightarrow> (\<exists>u\<in>set xs. f u = Some x)"
  by (force simp: List.map_filter_def)

lemma effective_attribution_latest:
  assumes "effective_attribution L k POLICY_VERSION c = Inr res"
  shows "res = Some t \<longleftrightarrow> latest_attribution L c t \<and> t_outcome t = k \<and> t_policy_version t = POLICY_VERSION"
proof -
  define rows where "rows = map fst (filter (\<lambda>(r, s). t_outcome r = k \<and> t_policy_version r = POLICY_VERSION \<and> s \<le> c)
      (joined t_event_id (lg_attributions L) L))"
  define tips where "tips = filter (\<lambda>r. t_event_id r \<notin> set (List.map_filter t_supersedes rows)) rows"
  have rows: "r \<in> set rows \<longleftrightarrow> r \<in> set (lg_attributions L) \<and> t_outcome r = k \<and> t_policy_version r = POLICY_VERSION \<and>
      recorded_by L c (t_event_id r)" for r
    using set_joined_recorded [of r "\<lambda>r. t_outcome r = k \<and> t_policy_version r = POLICY_VERSION" c t_event_id
      "lg_attributions L" L] by (simp add: rows_def conj_ac case_prod_unfold)
  have tin: "t \<in> set tips \<longleftrightarrow> t \<in> set rows \<and> \<not> (\<exists>u. u \<in> set rows \<and> t_supersedes u = Some (t_event_id t))"
    by (simp add: tips_def set_map_filter_iff Bex_def)
  have tips: "t \<in> set tips \<longleftrightarrow> latest_attribution L c t \<and> t_outcome t = k \<and> t_policy_version t = POLICY_VERSION"
  proof (cases "t_outcome t = k \<and> t_policy_version t = POLICY_VERSION")
    case True
    then have "u \<in> set rows \<longleftrightarrow> u \<in> set (lg_attributions L) \<and> same_outcome t u \<and> recorded_by L c (t_event_id u)" for u
      by (simp add: rows same_outcome_def)
    then show ?thesis using True unfolding tin latest_attribution_def Bex_def by (simp add: same_outcome_def) blast
  next
    case False
    then show ?thesis unfolding tin rows by blast
  qed
  have "(case tips of [] \<Rightarrow> Inr None | [r] \<Rightarrow> Inr (Some r)
      | _ \<Rightarrow> Inl (AmbiguousSelection (''attribution of outcome '' @ k) (sort (map t_event_id tips)))) = Inr res"
    using assms unfolding effective_attribution_def Let_def tips_def rows_def .
  then have "res = Some t \<longleftrightarrow> t \<in> set tips" by (cases tips rule: remdups_adj.cases) auto
  then show ?thesis unfolding tips .
qed

lemma counted_for:
  assumes "observation L c None k = Inr x"
  shows "attributed x \<and> of_resolved_decision x = Some d \<longleftrightarrow> (\<exists>t. latest_attribution L c t \<and> credits t k d)"
    "of_outcome_event_id x = k"
proof -
  obtain res where res: "effective_attribution L k POLICY_VERSION c = Inr res"
    and x: "of_standing x = (case res of None \<Rightarrow> AWAITING_ATTRIBUTION | Some t \<Rightarrow> t_status t)"
      "of_resolved_decision x = Option.bind res t_resolved_decision" "of_outcome_event_id x = k"
    using assms by (auto simp: observation_def split: sum.splits attribution_error.splits)
  show "of_outcome_event_id x = k" by (rule x(3))
  have "attributed x \<and> of_resolved_decision x = Some d \<longleftrightarrow>
      (\<exists>t. res = Some t \<and> t_status t \<in> {''direct'', ''inferred''} \<and> t_resolved_decision t = Some d)"
    by (cases res) (auto simp: x attributed_def ATTRIBUTED_STATUSES_def)
  then show "attributed x \<and> of_resolved_decision x = Some d \<longleftrightarrow> (\<exists>t. latest_attribution L c t \<and> credits t k d)"
    unfolding effective_attribution_latest [OF res] credits_def by blast
qed

lemma observations_counted:
  assumes "observations L c None = Inr obs"
  shows "distinct (map of_outcome_event_id obs)"
    "k \<in> of_outcome_event_id ` set (attributed_to d obs) \<longleftrightarrow>
       latest_version L c k \<and> (\<exists>t. latest_attribution L c t \<and> credits t k d)"
proof -
  obtain ids where ids: "effective_outcome_versions L c None = Inr ids" "mapE (observation L c None) ids = Inr obs"
    using assms by (auto simp: observations_def effective_ids_def split: sum.splits attribution_error.splits)
  have all: "list_all2 (\<lambda>k x. observation L c None k = Inr x) ids obs" using ids(2) by (simp add: mapE_Inr_iff)
  then have "map of_outcome_event_id obs = ids" by (induction rule: list_all2_induct) (auto simp: counted_for(2))
  then show "distinct (map of_outcome_event_id obs)" using set_effective_versions(1) [OF ids(1)] by simp
  show "k \<in> of_outcome_event_id ` set (attributed_to d obs) \<longleftrightarrow>
       latest_version L c k \<and> (\<exists>t. latest_attribution L c t \<and> credits t k d)"
  proof
    assume "k \<in> of_outcome_event_id ` set (attributed_to d obs)"
    then obtain x where x: "x \<in> set obs" "of_outcome_event_id x = k" "attributed x \<and> of_resolved_decision x = Some d"
      by (auto simp: attributed_to_def)
    obtain j where j: "j \<in> set ids" "observation L c None j = Inr x" using list_all2_right [OF all x(1)] by blast
    have "j = k" using counted_for(2) [OF j(2)] x(2) by simp
    then show "latest_version L c k \<and> (\<exists>t. latest_attribution L c t \<and> credits t k d)"
      using j x(3) counted_for(1) [OF j(2)] set_effective_versions(2) [OF ids(1)] by simp
  next
    assume k: "latest_version L c k \<and> (\<exists>t. latest_attribution L c t \<and> credits t k d)"
    then have "k \<in> set ids" using set_effective_versions(2) [OF ids(1)] by simp
    from list_all2_left [OF all this] obtain x where x: "x \<in> set obs" "observation L c None k = Inr x" by blast
    have "x \<in> set (attributed_to d obs)" using x k counted_for(1) [OF x(2)] by (simp add: attributed_to_def)
    then show "k \<in> of_outcome_event_id ` set (attributed_to d obs)" using counted_for(2) [OF x(2)] by (metis image_eqI)
  qed
qed

text \<open>C7: What counts for a decision.  Each outcome version is counted at most once, and a version is counted
  exactly when it is recorded by the cutoff, no version recorded by the cutoff supersedes it, and an attribution
  of it under the current policy, recorded by the cutoff and not superseded by one recorded by the cutoff, is
  direct or inferred and resolves to that very decision.  A superseded version, or one whose latest attribution
  is unresolved or names another decision, never counts, and nothing attributed is lost.\<close>
theorem facts_exclude_unattributed:
  assumes "facts L cutoff sgs None = Inr (fs, obs)" "f \<in> set fs"
  shows "distinct (map of_outcome_event_id (df_observations f)) \<and>
    (\<forall>k. k \<in> of_outcome_event_id ` set (df_observations f) \<longleftrightarrow>
       latest_version L cutoff k \<and> (\<exists>t. latest_attribution L cutoff t \<and> credits t k (df_decision_event_id f)))"
proof -
  have o: "observations L cutoff None = Inr obs" by (rule factsD [OF assms(1)])
  obtain d :: decision_row where d: "df_decision_event_id f = d_event_id d" "df_observations f = attributed_to (d_event_id d) obs"
    using facts_members(2) [OF assms] by blast
  have "distinct (map of_outcome_event_id (df_observations f))"
    using observations_counted(1) [OF o] unfolding d(2) attributed_to_def by (rule distinct_map_filter)
  then show ?thesis using observations_counted(2) [OF o] by (simp add: d)
qed

subsection \<open>A cutoff's metrics never change\<close>

interpretation outcome_rows: snapshot_read "\<lambda>L cutoff. outcome_query L cutoff acct" for acct
  by unfold_locales (simp only: outcome_query_def outcome_snapshot)

lemma cutoff_bound: "ledger_keys L \<Longrightarrow> validate_cutoff L c = Inr c' \<Longrightarrow> c \<le> lg_seq L"
  by (auto simp: validate_cutoff_Inr ledger_keys_def)

lemma validate_cutoff_kept:
  assumes "extends L L'" "validate_cutoff L c = Inr c'"
  shows "validate_cutoff L' c = Inr c'"
proof -
  have "set (lg_events L) \<subseteq> set (lg_events L')" using assms(1) by (auto simp: extends_def dest: grown_subset)
  then show ?thesis using assms(2) by (auto simp: validate_cutoff_Inr)
qed

lemma set_population: "d \<in> set (population L c) \<Longrightarrow> d \<in> set (lg_decisions L)"
  by (simp add: population_def)

lemma population_account:
  "ledger_refs L \<Longrightarrow> d \<in> set (lg_decisions L) \<Longrightarrow>
     d_account_ref d \<in> set (map a_account_ref (accounts_query L)) \<longleftrightarrow> d_account_ref d \<noteq> SYSTEM_ACCOUNT_REF"
proof -
  assume "ledger_refs L" "d \<in> set (lg_decisions L)"
  then have "d_account_ref d \<in> a_account_ref ` set (lg_accounts L)" by (simp add: ledger_refs_def Let_def)
  then show ?thesis by (auto simp: accounts_query_def)
qed

lemma population_kept:
  assumes "reachable L" "ingest e L = Inr (res, L')" "reachable L'" "c \<le> lg_seq L"
  shows "population L' c = population L c"
  using assms(2)
proof (cases rule: ingest_Inr_cases)
  case created
  let ?ok = "\<lambda>M d. d_account_ref d \<in> set (map a_account_ref (accounts_query M)) \<and> d_seq d \<le> c \<and>
      d_class d = ATTRIBUTABLE_DECISION_CLASS"
  have t: "lg_decisions L' = lg_decisions L @ new_decisions e (en_payload e) (lg_seq L + 1)"
    by (rule write_event_tables(5) [OF created(4)])
  have new: "\<not> d_seq d \<le> c" if "d \<in> set (new_decisions e (en_payload e) (lg_seq L + 1))" for d
    using that assms(4) by (cases "en_payload e") (auto simp: decision_row_of_def)
  have "filter (?ok L') (new_decisions e (en_payload e) (lg_seq L + 1)) = []"
    using new by (auto simp: filter_empty_conv)
  moreover have "filter (?ok L') (lg_decisions L) = filter (?ok L) (lg_decisions L)"
    by (rule filter_cong [OF refl])
      (use population_account [OF reachable_refs [OF assms(1)]] population_account [OF reachable_refs [OF assms(3)]] t in
        \<open>simp del: set_map\<close>)
  ultimately show ?thesis unfolding population_def t filter_append by simp
qed simp

lemma contexts_kept:
  assumes "extends L L'" "ledger_refs L" "k \<in> d_event_id ` set (lg_decisions L)"
  shows "preserved L' c k = preserved L c k" "consumed_keys L' c k = consumed_keys L c k"
proof -
  have k: "k \<in> event_ids L" using refs_keys(1) [OF assms(2)] assms(3) by blast
  obtain ds where ds: "lg_decisions L' = lg_decisions L @ ds" "\<forall>d\<in>set ds. d_event_id d \<notin> event_ids L"
    using assms(1) by (auto simp: extends_def grown_def list_all_iff)
  have dec: "decided_by L' c k = decided_by L c k"
    using k ds by (auto simp: decided_by_def list_ex_iff)
  have g: "grown (\<lambda>r. h_decision r \<notin> event_ids L) (lg_context L) (lg_context L')"
    "grown (\<lambda>r. u_decision r \<notin> event_ids L) (lg_consumed L) (lg_consumed L')"
    using assms(1) by (simp_all add: extends_def)
  have "filter (\<lambda>h. h_decision h = k) (lg_context L') = filter (\<lambda>h. h_decision h = k) (lg_context L)"
    "filter (\<lambda>u. u_decision u = k) (lg_consumed L') = filter (\<lambda>u. u_decision u = k) (lg_consumed L)"
    by (rule grown_filter [OF g(1)] grown_filter [OF g(2)]; use k in auto)+
  moreover have "filter (\<lambda>h. h_decision h = k \<and> decided_by M c (h_decision h)) xs =
      (if decided_by M c k then filter (\<lambda>h. h_decision h = k) xs else [])" for M and xs :: "context_row list"
    by (induction xs) auto
  moreover have "filter (\<lambda>h. u_decision h = k \<and> decided_by M c (u_decision h)) xs =
      (if decided_by M c k then filter (\<lambda>h. u_decision h = k) xs else [])" for M and xs :: "consumed_row list"
    by (induction xs) auto
  ultimately show "preserved L' c k = preserved L c k" "consumed_keys L' c k = consumed_keys L c k"
    by (simp_all add: preserved_def consumed_keys_def dec)
qed

lemma facts_kept:
  assumes "reachable L" "valid_envelope e" "ingest e L = Inr (res, L')" "facts L c sgs None = Inr x"
  shows "facts L' c sgs None = Inr x"
proof -
  note grow = ingest_extends [OF assms(3)] and refs = reachable_refs [OF assms(1)] and keys = reachable_keys [OF assms(1)]
  obtain c' where v: "validate_cutoff L c = Inr c'"
    using assms(4) by (auto simp: facts_def lift_policy_def split: sum.splits)
  have b: "c \<le> lg_seq L" by (rule cutoff_bound [OF keys v])
  have pop: "population L' c = population L c"
    by (rule population_kept [OF assms(1,3) reachable.step [OF assms(1-3)] b])
  note reads = versions.after_ingest_kept [OF assms(1,3) b] attribution.after_ingest_kept [OF assms(1,3) b]
    outcome_rows.after_ingest_kept [OF assms(1,3) b]
  obtain ids where ids: "effective_outcome_versions L c None = Inr ids"
    using assms(4) by (auto simp: facts_def observations_def effective_ids_def Let_def split: if_splits sum.splits
        attribution_error.splits)
  have "observation L' c None = observation L c None"
    by (intro ext) (simp only: observation_def reads)
  then have obs: "observations L' c None = observations L c None"
    by (simp add: observations_def effective_ids_def reads ids)
  have known: "d_event_id d \<in> d_event_id ` set (lg_decisions L)" if "d \<in> set (population L c)" for d
    using set_population [OF that] by simp
  have att: "mapE (\<lambda>d. attempt L' (d_event_id d)) (population L c) = mapE (\<lambda>d. attempt L (d_event_id d)) (population L c)"
    by (rule mapE_cong) (simp add: attempt_def reconstruct_kept [OF grow keys refs known])
  have fac: "mapE (facts_of L' c sgs ob) (zip (population L c) recs) = mapE (facts_of L c sgs ob) (zip (population L c) recs)"
    for ob recs
    by (rule mapE_cong)
      (auto simp: facts_of_def contexts_kept [OF grow refs known] dest!: set_zip_leftD)
  show ?thesis
    using assms(4) v validate_cutoff_kept [OF grow v]
    by (simp add: facts_def lift_policy_def pop obs att fac)
qed

text \<open>C37: Metrics are reproducible: in a reachable ledger the insights at a cutoff are the same after
  anything the collector accepts later, whatever accounts, corrections or attributions it brings.\<close>
theorem insights_reproducible:
  assumes "reachable L" "valid_envelope e" "ingest e L = Inr (res, L')" "insights L c sgs other = Inr r"
  shows "insights L' c sgs other = Inr r"
proof -
  obtain x where "facts L c sgs None = Inr x" using assms(4) by (auto simp: insights_def)
  then show ?thesis using assms(4) facts_kept [OF assms(1-3)] by (simp add: insights_def)
qed

subsection \<open>The metrics of the example run\<close>

definition run_signal :: signal_definition where
  "run_signal = \<lparr>sg_id = ''size'', sg_input_key = ''employee_count'', sg_kind = RuleSignal ''employee_count at least 50''\<rparr>"

lemma run_population:
  "population run5 5 = [decision_row_of run_decision run_decision_payload 4]"
  "population run7 7 = [decision_row_of run_decision run_decision_payload 4]"
  by (simp_all add: population_def accounts_query_def run_tables run7_def SYSTEM_ACCOUNT_REF_def
      decision_row_of_def run_decision_def run_decision_payload_def ATTRIBUTABLE_DECISION_CLASS_def)

lemma run_attempt:
  "\<exists>r. attempt run5 ''dec'' = Inr (Inr r) \<and> rc_result r = demo_result"
  "\<exists>r. attempt run7 ''dec'' = Inr (Inr r) \<and> rc_result r = demo_result"
proof -
  obtain r where r: "reconstruct run6 ''dec'' = Inr r" "rc_result r = demo_result"
    using run_reconstruct by blast
  have k: "''dec'' \<in> d_event_id ` set (lg_decisions M)" if "lg_decisions M = lg_decisions run6" for M
    unfolding that run_rows by (simp add: decision_row_of_def run_decision_def)
  have "reconstruct run6 ''dec'' = reconstruct run5 ''dec''"
    by (rule reconstruct_kept [OF ingest_extends [OF run_step6] reachable_keys [OF run_reachable(5)]
          reachable_refs [OF run_reachable(5)] k]) (simp add: run6_def)
  moreover have "reconstruct run7 ''dec'' = reconstruct run6 ''dec''"
    by (rule reconstruct_kept [OF ingest_extends [OF run_step7] reachable_keys [OF run_reachable(6)]
          reachable_refs [OF run_reachable(6)] k]) simp
  ultimately show "\<exists>r. attempt run5 ''dec'' = Inr (Inr r) \<and> rc_result r = demo_result"
    "\<exists>r. attempt run7 ''dec'' = Inr (Inr r) \<and> rc_result r = demo_result"
    using r unfolding attempt_def by (metis sum.simps(6))+
qed

lemma run_signal_facts:
  "rule_signal_state ''employee_count'' ''employee_count at least 50'' demo_result = KnownTrue"
  "find (\<lambda>f. fr_key f = ''employee_count'') (rs_factors demo_result) =
     Some \<lparr>fr_key = ''employee_count'', fr_rule = ''employee_count at least 50'', fr_weight = 25, fr_state = Consumed,
       fr_matched = True, fr_contribution = 25, fr_evidence = Some ''ev-1''\<rparr>"
  by code_simp+

lemma run_observations: "observations run5 5 None = Inr []"
  by (simp add: observations_def effective_ids_def effective_outcome_versions_def joined_def run_tables)

lemma run_insights: "\<exists>r. insights run5 5 [run_signal] ''w0'' = Inr r \<and> in_population r = 1 \<and>
    map sr_known_true (in_signals r) = [1]"
proof -
  obtain r where r: "attempt run5 ''dec'' = Inr (Inr r)" "rc_result r = demo_result" using run_attempt(1) by blast
  have d: "d_event_id (decision_row_of run_decision run_decision_payload 4) = ''dec''"
    by (simp add: decision_row_of_def run_decision_def)
  have "validate_cutoff run5 5 = Inr 5" by (auto simp: validate_cutoff_Inr run_tables)
  then show ?thesis
    by (simp add: insights_def facts_def lift_policy_def run_population run_observations d r facts_of_def Let_def
        signal_state_for_def run_signal_def run_signal_facts historical_rule_def signal_row_of_def artifact_matches_def
        rule_match_of_def historical_rule_of_def reconstructed_def artifact_key_def signal_state_of_def)
qed

theorem insights_partitions_witness:
  "\<exists>r. insights run5 5 [run_signal] ''w0'' = Inr r \<and> standings_total (in_standings r) = 1 \<and>
     sum_list (map wr_decisions (in_workflows r)) = 1"
proof -
  obtain r where r: "insights run5 5 [run_signal] ''w0'' = Inr r" "in_population r = 1"
    using run_insights by blast
  then show ?thesis using insights_partitions [OF r(1)] by auto
qed

theorem insights_reproducible_witness:
  "\<exists>r. insights run6 5 [run_signal] ''w0'' = Inr r \<and> in_population r = 1"
proof -
  obtain r where r: "insights run5 5 [run_signal] ''w0'' = Inr r" "in_population r = 1"
    using run_insights by blast
  then show ?thesis
    using insights_reproducible [OF run_reachable(5) run_valid(5) run_step6 r(1)] by blast
qed

text \<open>In the last ledger the outcome is attributed directly to the decision.\<close>

lemma run7_tables: "lg_outcomes run7 = lg_outcomes run6" "lg_actions run7 = lg_actions run6"
  "lg_decisions run7 = lg_decisions run6"
  by (simp_all add: run7_def)

lemma run7_seq [simp]: "seq_of run7 ''out'' = Some 6" "seq_of run7 (attribution_event_id ''out'' POLICY_VERSION 6) = Some 7"
  by (simp_all add: seq_of_def run7_def run_tables event_row_of_def run_registration_def run_discovery_def
      run_evidence_def run_decision_def run_action_def run_outcome_def run_attribution_def not_sym)

lemma run7_outcomes: "joined o_event_id (lg_outcomes run7) run7 = [(outcome_row_v2 run_outcome run_outcome_payload None None, 6)]"
  by (simp add: run7_tables run_rows joined_def outcome_row_v2_def run_outcome_def List.map_filter_def)

lemma run7_versions: "effective_outcome_versions run7 7 None = Inr [''out'']"
proof -
  have "load_outcome run7 ''out'' 7 = Inr \<lparr>oc_outcome = ''out'', oc_account_ref = ''acct'', oc_schema_version = ''2'',
     oc_observed = ''2026-04-20T09:00:00.000000Z'', oc_action = Some ''act'', oc_decision = None, oc_seq = 6\<rparr>"
    by (simp add: load_outcome_def run7_outcomes outcome_row_v2_def run_outcome_def run_outcome_payload_def
        List.map_filter_def claims_of_def run_times)
  moreover have "successors run7 7 ''out'' = []"
    by (simp add: successors_def run7_outcomes outcome_row_v2_def run_outcome_payload_def List.map_filter_def)
  ultimately have "effective_outcome_version run7 ''out'' 7 = Inr ''out''"
    by (simp add: effective_outcome_version_def follow.simps)
  then show ?thesis
    by (simp add: effective_outcome_versions_def run7_outcomes outcome_row_v2_def run_outcome_def)
qed

lemma run7_attribution:
  "effective_attribution run7 ''out'' POLICY_VERSION 7 = Inr (Some (attribution_row_of run_attribution run_attribution_payload))"
proof -
  have "joined t_event_id (lg_attributions run7) run7 = [(attribution_row_of run_attribution run_attribution_payload, 7)]"
    by (simp add: joined_def run7_def [THEN arg_cong [of _ _ lg_attributions]] List.map_filter_def attribution_row_of_def
        run_attribution_def)
  then show ?thesis
    by (simp add: effective_attribution_def attribution_row_of_def run_attribution_payload_def map_filter_simps)
qed

lemma run7_observations:
  "\<exists>x. observations run7 7 None = Inr [x] \<and> of_outcome_event_id x = ''out'' \<and> attributed x \<and>
     of_resolved_decision x = Some ''dec''"
proof -
  have i: "instant ''2026-04-18T09:00:00.000000Z'' = Some (Utc (Date 2026 4 18) 9 0 0 0)"
    "instant (format_utc (Utc (Date 2026 6 18) 9 0 0 0)) = Some (Utc (Date 2026 6 18) 9 0 0 0)"
    by code_simp+
  have q: "outcome_query run7 7 None = [(outcome_row_v2 run_outcome run_outcome_payload None None, 6)]"
    by (simp add: outcome_query_def run7_outcomes)
  show ?thesis
    by (simp add: observations_def effective_ids_def run7_versions observation_def run7_attribution q
        period_is_exactly_90_days_def outcome_row_v2_def run_outcome_def run_outcome_payload_def run_times i
        attribution_row_of_def run_attribution_payload_def attributed_def ATTRIBUTED_STATUSES_def)
qed

lemma run_facts: "\<exists>f x. facts run7 7 [] None = Inr ([f], [x]) \<and> df_observations f = [x] \<and>
    of_outcome_event_id x = ''out'' \<and> df_decision_event_id f = ''dec''"
proof -
  obtain r where r: "attempt run7 ''dec'' = Inr (Inr r)" using run_attempt(2) by blast
  obtain x where x: "observations run7 7 None = Inr [x]" "of_outcome_event_id x = ''out''" "attributed x"
    "of_resolved_decision x = Some ''dec''" using run7_observations by blast
  have d: "d_event_id (decision_row_of run_decision run_decision_payload 4) = ''dec''"
    by (simp add: decision_row_of_def run_decision_def)
  have "validate_cutoff run7 7 = Inr 7" by (auto simp: validate_cutoff_Inr run_tables run7_def)
  then show ?thesis
    by (simp add: facts_def lift_policy_def run_population x d r facts_of_def Let_def attributed_to_def)
qed

theorem facts_exclude_unattributed_witness:
  "latest_version run7 7 ''out'' \<and> (\<exists>t. latest_attribution run7 7 t \<and> credits t ''out'' ''dec'')"
proof -
  obtain f x where f: "facts run7 7 [] None = Inr ([f], [x])" "df_observations f = [x]" "of_outcome_event_id x = ''out''"
    "df_decision_event_id f = ''dec''" using run_facts by blast
  have "f \<in> set [f]" by simp
  from facts_exclude_unattributed [OF f(1) this] have "''out'' \<in> of_outcome_event_id ` set [x] \<longleftrightarrow> ?thesis"
    unfolding f(2,4) by blast
  then show ?thesis by (simp add: f(3))
qed

end
