(* ===== verification/Collector_Properties.thy ===== *)
theory Collector_Properties
  imports Attribution_Chains "HOL-Library.Sublist"
begin

text \<open>
  What the collector promises its clients over any sequence of later requests: a retry is answered
  \<open>duplicate\<close> and writes nothing, an event id cannot be reused for other content, no row is ever
  changed or removed, and every stored event is the image of the validated envelope it came from.
\<close>

subsection \<open>Sequences of requests\<close>

definition later :: "envelope list \<Rightarrow> ledger \<Rightarrow> ledger" where
  "later es L = fold after_ingest es L"

lemma after_ingest_extends: "extends L (after_ingest e L)"
  by (auto simp: after_ingest_def split: sum.split dest: ingest_extends)

lemma later_extends: "extends L (later es L)"
proof (induction es arbitrary: L)
  case (Cons e es)
  have "extends L (after_ingest e L)" by (rule after_ingest_extends)
  then show ?case using Cons [of "after_ingest e L"] by (auto simp: later_def intro: extends_trans)
qed (simp add: later_def)

lemma reachable_after: "reachable L \<Longrightarrow> valid_envelope e \<Longrightarrow> reachable (after_ingest e L)"
  by (auto simp: after_ingest_def split: sum.split intro: reachable.step)

lemma reachable_later: "reachable L \<Longrightarrow> list_all valid_envelope es \<Longrightarrow> reachable (later es L)"
  by (induction es arbitrary: L) (auto simp: later_def intro: reachable_after)

lemma event_at_kept: "extends L L' \<Longrightarrow> event_at L k = Some r \<Longrightarrow> event_at L' k = Some r"
  by (auto simp: extends_def grown_def event_at_def find_append)

lemma event_at_accepted:
  assumes "ingest e L = Inr (res, L')"
  shows "\<exists>r. event_at L' (en_event_id e) = Some r \<and> e_hash r = envelope_hash e"
  using assms
proof (cases rule: ingest_Inr_cases)
  case created
  have "find (\<lambda>r. e_event_id r = en_event_id e) (lg_events L) = None"
    using created(1) by (simp add: event_at_def)
  then show ?thesis
    by (simp add: event_at_def write_event_tables(2) [OF created(4)] find_append event_row_of_def)
qed auto

lemma event_at_later:
  "ingest e L = Inr (res, L') \<Longrightarrow> \<exists>r. event_at (later es L') (en_event_id e) = Some r \<and> e_hash r = envelope_hash e"
  using event_at_accepted event_at_kept [OF later_extends] by blast

text \<open>C10: A retry is idempotent at any later time: once an envelope was accepted, the same envelope is
  answered \<open>duplicate\<close> with its digest and leaves the ledger as it is, whatever other requests came in
  between.\<close>
theorem retry_idempotent:
  assumes "ingest e L = Inr (res, L')"
  shows "ingest e (later es L') =
    Inr (\<lparr>ir_status = Duplicate, ir_event_id = en_event_id e, ir_hash = envelope_hash e\<rparr>, later es L')"
  using event_at_later [OF assms, of es] by (auto simp: ingest_def)

theorem retry_idempotent_witness:
  "\<exists>res. ingest run_discovery (later [run_evidence, run_decision] run2) =
     Inr (res, later [run_evidence, run_decision] run2) \<and> ir_status res = Duplicate"
  using retry_idempotent [OF run_step2] by auto

text \<open>An event id cannot be reused: after an envelope was accepted, a different valid envelope under
  the same id is refused as a conflict for ever, unless the two canonical texts are a SHA-256 collision.\<close>
theorem event_id_not_reusable:
  assumes "ingest e L = Inr (res, L')" "valid_envelope e" "valid_envelope e'"
    "en_event_id e' = en_event_id e" "e' \<noteq> e"
  shows "ingest e' (later es L') = Inl (Conflict ''event_id_reused_with_different_content''
      [en_event_id e, envelope_hash e, envelope_hash e']) \<or>
    canonical_text (dump_envelope e') \<noteq> canonical_text (dump_envelope e) \<and>
    sha256_hex (canonical_text (dump_envelope e')) = sha256_hex (canonical_text (dump_envelope e))"
proof -
  obtain r where r: "event_at (later es L') (en_event_id e) = Some r" "e_hash r = envelope_hash e"
    using event_at_later [OF assms(1)] by blast
  have d: "canonical_text (dump_envelope e') \<noteq> canonical_text (dump_envelope e)"
    using dump_envelope_inject [of e' e] assms(2,3,5) by blast
  show ?thesis
  proof (cases "envelope_hash e' = envelope_hash e")
    case True
    then show ?thesis using d by (simp add: envelope_hash_def canonical_hash_def)
  next
    case False
    then show ?thesis using r assms(4) by (simp add: ingest_def)
  qed
qed

theorem event_id_not_reusable_witness:
  "\<exists>e'. e' \<noteq> run_discovery \<and>
     (ingest e' run3 = Inl (Conflict ''event_id_reused_with_different_content''
        [''disc'', envelope_hash run_discovery, envelope_hash e']) \<or>
      envelope_hash e' = envelope_hash run_discovery)"
proof (intro exI conjI)
  let ?e = "run_discovery\<lparr>en_source := ''crm''\<rparr>"
  show n: "?e \<noteq> run_discovery" by (simp add: run_discovery_def)
  have v: "valid_envelope ?e" by code_simp
  have "later [run_evidence] run2 = run3" by (simp add: later_def after_ingest_def run_step3)
  then show "ingest ?e run3 = Inl (Conflict ''event_id_reused_with_different_content''
        [''disc'', envelope_hash run_discovery, envelope_hash ?e]) \<or> envelope_hash ?e = envelope_hash run_discovery"
    using event_id_not_reusable [OF run_step2 run_valid(2) v _ n, of "[run_evidence]"]
    by (auto simp: envelope_hash_def canonical_hash_def run_discovery_def)
qed

text \<open>C29: The ledger is append-only: whatever requests come in, every row of every table stays where it
  is, with its content.\<close>
theorem ledger_append_only:
  "prefix (lg_accounts L) (lg_accounts (later es L)) \<and> prefix (lg_events L) (lg_events (later es L)) \<and>
   prefix (lg_evidence L) (lg_evidence (later es L)) \<and> prefix (lg_artifacts L) (lg_artifacts (later es L)) \<and>
   prefix (lg_decisions L) (lg_decisions (later es L)) \<and> prefix (lg_context L) (lg_context (later es L)) \<and>
   prefix (lg_consumed L) (lg_consumed (later es L)) \<and> prefix (lg_personas L) (lg_personas (later es L)) \<and>
   prefix (lg_actions L) (lg_actions (later es L)) \<and> prefix (lg_outcomes L) (lg_outcomes (later es L)) \<and>
   prefix (lg_attributions L) (lg_attributions (later es L))"
proof -
  have p: "grown P xs ys \<Longrightarrow> prefix xs ys" for P :: "'r \<Rightarrow> bool" and xs ys
    by (auto simp: grown_def)
  show ?thesis using later_extends [of L es] by (auto simp: extends_def intro: p)
qed

subsection \<open>The event store as an idempotent map\<close>

text \<open>The abstract store the collector implements: from event id to digest, written once.\<close>

type_synonym event_store = "string \<rightharpoonup> string"

definition put :: "string \<Rightarrow> string \<Rightarrow> event_store \<Rightarrow> string + (ingest_status \<times> event_store)" where
  "put k d m =
     (case m k of
        None \<Rightarrow> Inr (Created, m(k \<mapsto> d))
      | Some d' \<Rightarrow> if d' = d then Inr (Duplicate, m) else Inl d')"

definition store_of :: "ledger \<Rightarrow> event_store" where
  "store_of L = (\<lambda>k. map_option e_hash (event_at L k))"

lemma store_of_write:
  assumes "write_event e L = Inr L'" "event_at L (en_event_id e) = None"
  shows "store_of L' = (store_of L)(en_event_id e \<mapsto> envelope_hash e)"
proof -
  have "find (\<lambda>r. e_event_id r = en_event_id e) (lg_events L) = None" using assms(2) by (simp add: event_at_def)
  then show ?thesis
    by (intro ext) (auto simp: store_of_def event_at_def write_event_tables(2) [OF assms(1)] find_append
        event_row_of_def split: option.split)
qed

text \<open>C28: \<open>ingest\<close> refines the idempotent store: what the store refuses is a conflict, what it has
  already is a duplicate that changes nothing, and an accepted envelope adds exactly its own entry; only a
  new envelope can be refused for other reasons.\<close>
theorem ingest_refines_store:
  "case put (en_event_id e) (envelope_hash e) (store_of L) of
     Inl d \<Rightarrow> ingest e L = Inl (Conflict ''event_id_reused_with_different_content'' [en_event_id e, d, envelope_hash e])
   | Inr (st, m) \<Rightarrow>
       (case ingest e L of
          Inl _ \<Rightarrow> st = Created
        | Inr (res, L') \<Rightarrow> ir_status res = st \<and> store_of L' = m)"
proof (cases "event_at L (en_event_id e)")
  case (Some row)
  then show ?thesis by (simp add: put_def store_of_def ingest_def Let_def)
next
  case None
  have "ir_status res = Created \<and> store_of L' = (store_of L)(en_event_id e \<mapsto> envelope_hash e)"
    if "ingest e L = Inr (res, L')" for res L'
    using that
  proof (cases rule: ingest_Inr_cases)
    case created
    then show ?thesis using store_of_write None by simp
  qed (use None in simp)
  then show ?thesis using None by (auto simp: put_def store_of_def split: sum.split)
qed

subsection \<open>Stored events\<close>

definition event_sound :: "event_row \<Rightarrow> bool" where
  "event_sound r \<longleftrightarrow> (\<exists>e. valid_envelope e \<and> r = (event_row_of e)\<lparr>e_seq := e_seq r\<rparr>)"

lemma reachable_events: "reachable L \<Longrightarrow> \<forall>r\<in>set (lg_events L). event_sound r"
proof (induction rule: reachable_write)
  case empty
  show ?case by (simp add: empty_ledger_def)
next
  case (accept L e L')
  have "event_sound ((event_row_of e)\<lparr>e_seq := lg_seq L + 1\<rparr>)"
    using accept(2) unfolding event_sound_def by (intro exI [of _ e]) simp
  then show ?case using accept(7) by (simp add: write_event_tables(2) [OF accept(6)])
qed

lemma reachable_sequence: "reachable L \<Longrightarrow> 0 \<le> lg_seq L \<and> map e_seq (lg_events L) = [1..lg_seq L]"
proof (induction rule: reachable_write)
  case empty
  show ?case by (simp add: empty_ledger_def)
next
  case (accept L e L')
  have "[1..lg_seq L + 1] = [1..lg_seq L] @ [lg_seq L + 1]"
    using accept(7) by (subst upto_rec2) auto
  then show ?case using accept(7) by (simp add: write_event_tables(1,2) [OF accept(6)])
qed

text \<open>Every reachable event store numbers its events 1, 2, ..., n without a gap, and each row is the
  image of a valid envelope: its columns, canonical payload and digest are that envelope's.\<close>
theorem event_store_sound:
  assumes "reachable L"
  shows "map e_seq (lg_events L) = [1..lg_seq L] \<and>
    (\<forall>r\<in>set (lg_events L). \<exists>e. valid_envelope e \<and> r = (event_row_of e)\<lparr>e_seq := e_seq r\<rparr>)"
  using reachable_sequence [OF assms] reachable_events [OF assms] by (simp add: event_sound_def)

theorem event_store_sound_witness: "map e_seq (lg_events run7) = [1, 2, 3, 4, 5, 6, 7]"
  using event_store_sound [OF run7_reachable] by (simp add: run7_def upto.simps)

end
