(* ===== verification/Collector_Progress.thy ===== *)
theory Collector_Progress
  imports Collector_Properties Reconstruct
begin

text \<open>
  The collector never fails: on every ledger it can have produced, a valid envelope is accepted,
  rejected (422) or in conflict (409).  No policy read meets an unreadable row, and an envelope that
  passed its checks violates no constraint of the schema.  The one way to a 500 is an integer beyond
  64 bits, or a full sequence; both are hypotheses here and the first has its own theorem.
\<close>

subsection \<open>Policy reads of a reachable ledger\<close>

lemma instantE_stored: "stored_time s \<Longrightarrow> \<exists>u. instantE s = Inr u"
  by (auto simp: stored_time_def instantE_def)

lemma candidate_time:
  assumes "ledger_times L" "c \<in> set (action_query L n)"
  shows "stored_time (ca_occurred_at c)"
proof -
  have a: "\<forall>x\<in>set (lg_actions L). stored_time (x_occurred_at x)" using assms(1) by (simp add: ledger_times_def)
  show ?thesis using assms(2) a by (auto simp: action_query_def candidate_def set_joined Let_def)
qed

lemma action_problem_total:
  assumes "ledger_times L" "stored_time obs" "\<And>c. x = Some c \<Longrightarrow> c \<in> set (action_query L n)"
  shows "\<exists>p. action_problem x acct obs = Inr p"
proof (cases x)
  case None
  then show ?thesis by (simp add: action_problem_def)
next
  case (Some c)
  obtain u v where "instantE obs = Inr u" "instantE (ca_occurred_at c) = Inr v"
    using instantE_stored assms(2) candidate_time [OF assms(1) assms(3) [OF Some]] by meson
  then show ?thesis by (simp add: Some action_problem_def)
qed

lemma decision_claim_time:
  assumes "ledger_times L" "load_decision L k n = Some d"
  shows "stored_time (dc_boundary d)"
proof -
  have a: "\<forall>x\<in>set (lg_decisions L). stored_time (d_boundary x)" using assms(1) by (simp add: ledger_times_def)
  show ?thesis using assms(2) a by (auto simp: load_decision_def set_joined dest!: find_Some_in)
qed

lemma decision_problem_total:
  assumes "ledger_times L" "stored_time obs"
  shows "\<exists>p. decision_problem (load_decision L k n) acct obs = Inr p"
proof (cases "load_decision L k n")
  case None
  then show ?thesis by (simp add: decision_problem_def)
next
  case (Some d)
  obtain u v where "instantE obs = Inr u" "instantE (dc_boundary d) = Inr v"
    using instantE_stored assms(2) decision_claim_time [OF assms(1) Some] by meson
  then show ?thesis by (simp add: Some decision_problem_def)
qed

lemma load_action_query: "load_action L k n = Some c \<Longrightarrow> c \<in> set (action_query L n)"
  using load_action_SomeD by blast

lemma source_claim_total:
  assumes "ledger_times L" "stored_time obs"
  shows "\<exists>p. source_claim_problems L acct obs a d n = Inr p"
proof -
  have "\<exists>p. (case a of None \<Rightarrow> Inr None | Some k \<Rightarrow> action_problem (load_action L k n) acct obs) = Inr p"
    by (cases a) (auto intro: action_problem_total [OF assms] dest: load_action_query)
  moreover have "\<exists>p. (case d of None \<Rightarrow> Inr None | Some k \<Rightarrow> decision_problem (load_decision L k n) acct obs) = Inr p"
    by (cases d) (auto intro: decision_problem_total [OF assms])
  ultimately show ?thesis unfolding source_claim_problems_def by fastforce
qed

lemma filterE_total: "(\<And>x. x \<in> set xs \<Longrightarrow> \<exists>b. p x = Inr b) \<Longrightarrow> \<exists>ys. filterE p xs = Inr ys"
  by (induction xs) fastforce+

lemma mapE_total: "(\<And>x. x \<in> set xs \<Longrightarrow> \<exists>b. f x = Inr b) \<Longrightarrow> \<exists>ys. mapE f xs = Inr ys"
  by (induction xs) fastforce+

lemma most_recent_total:
  assumes "\<forall>c\<in>set cs. stored_time (ca_occurred_at c)"
  shows "\<exists>x. most_recent_eligible cs = Inr x"
proof -
  have "\<exists>ks. mapE (\<lambda>c. bindE (instantE (ca_occurred_at c)) (\<lambda>t. Inr ((t, ca_seq c), c))) cs = Inr ks"
  proof (rule mapE_total)
    fix c assume "c \<in> set cs"
    then obtain u where "instantE (ca_occurred_at c) = Inr u" using assms instantE_stored by blast
    then show "\<exists>b. bindE (instantE (ca_occurred_at c)) (\<lambda>t. Inr ((t, ca_seq c), c)) = Inr b" by simp
  qed
  then show ?thesis by (auto simp: most_recent_eligible_def)
qed

lemma fallback_total:
  assumes "ledger_times L" "stored_time obs" "set actions \<subseteq> set (action_query L n)"
  shows "\<exists>r. fallback_result res actions acct obs ps = Inr r"
proof -
  have ok: "\<exists>b. bindE (action_problem (Some c) acct obs) (\<lambda>p. Inr (p = None)) = Inr b" if "c \<in> set actions" for c
  proof -
    have "c \<in> set (action_query L n)" using assms(3) that by blast
    then obtain p where "action_problem (Some c) acct obs = Inr p"
      using action_problem_total [OF assms(1,2), of "Some c" n acct] by blast
    then show ?thesis by simp
  qed
  have "\<exists>el. filterE (\<lambda>c. bindE (action_problem (Some c) acct obs) (\<lambda>p. Inr (p = None))) actions = Inr el"
    by (rule filterE_total) (rule ok)
  then obtain el where el: "filterE (\<lambda>c. bindE (action_problem (Some c) acct obs) (\<lambda>p. Inr (p = None))) actions = Inr el" ..
  have "\<forall>c\<in>set el. stored_time (ca_occurred_at c)"
    using filterE_Inr [OF el] assms(3) candidate_time [OF assms(1)] by auto
  then obtain x where "most_recent_eligible el = Inr x" using most_recent_total by blast
  then show ?thesis by (simp add: fallback_result_def Let_def el split: option.split)
qed

lemma claims_time:
  assumes "ledger_times L" "load_outcome L k n = Inr oc"
  shows "stored_time (oc_observed oc)"
proof -
  have t: "\<forall>r\<in>set (lg_outcomes L). stored_time (o_occurred_at r) \<and>
      (o_schema_version r = ''1'' \<or> (\<exists>s. o_observed_at r = Some s \<and> stored_time s))"
    using assms(1) outcome_timesD by (simp add: ledger_times_def)
  obtain r s where r: "r \<in> set (lg_outcomes L)" "claims_of r s = Inr oc"
    using load_outcome_Inr [OF assms(2)] by blast
  show ?thesis using r t by (cases "o_schema_version r = ''1''") (auto simp: claims_of_def split: option.splits)
qed

lemma attribute_total:
  assumes "ledger_times L" "load_outcome L k n = Inr oc" "validate_cutoff L n = Inr n"
  shows "\<exists>r. attribute L k n POLICY_VERSION = Inr r"
proof -
  note obs = claims_time [OF assms(1,2)]
  let ?a = "Option.bind (oc_action oc) (\<lambda>a. load_action L a n)"
  have "\<exists>p. action_problem ?a (oc_account_ref oc) (oc_observed oc) = Inr p"
    by (rule action_problem_total [OF assms(1) obs, of _ n]) (auto simp: bind_eq_Some_conv dest: load_action_query)
  then have c1: "\<exists>p. claim_problems (oc_action oc) (action_problem ?a (oc_account_ref oc) (oc_observed oc)) = Inr p"
    by (auto simp: claim_problems_def split: option.split)
  have "\<exists>p. decision_problem (Option.bind (oc_decision oc) (\<lambda>d. load_decision L d n)) (oc_account_ref oc)
      (oc_observed oc) = Inr p"
    using decision_problem_total [OF assms(1) obs] by (cases "oc_decision oc") (auto simp: decision_problem_def)
  then have c2: "\<exists>p. claim_problems (oc_decision oc) (decision_problem (Option.bind (oc_decision oc)
      (\<lambda>d. load_decision L d n)) (oc_account_ref oc) (oc_observed oc)) = Inr p"
    by (auto simp: claim_problems_def split: option.split)
  have fb: "\<exists>r. fallback_result res (load_account_actions L (oc_account_ref oc) n) (oc_account_ref oc)
      (oc_observed oc) ps = Inr r" for res ps
    by (rule fallback_total [OF assms(1) obs, of _ n]) (auto simp: load_account_actions_def)
  obtain p1 p2 where p: "claim_problems (oc_action oc) (action_problem ?a (oc_account_ref oc) (oc_observed oc)) = Inr p1"
    "claim_problems (oc_decision oc) (decision_problem (Option.bind (oc_decision oc)
      (\<lambda>d. load_decision L d n)) (oc_account_ref oc) (oc_observed oc)) = Inr p2"
    using c1 c2 by blast
  have "\<exists>r. attribute_claims L k n POLICY_VERSION oc = Inr r"
    unfolding attribute_claims_def Let_def p bindE_simps using fb by (simp split: sum.split)
  then show ?thesis by (simp add: attribute_def assms(2,3))
qed

subsection \<open>The checks never fail internally\<close>

lemma claims_total:
  assumes "ledger_times L" "r \<in> set (lg_outcomes L)"
  shows "\<exists>oc. claims_of r s = Inr oc"
proof -
  have "o_schema_version r = ''1'' \<or> (\<exists>t. o_observed_at r = Some t)"
    using assms(2) outcome_timesD [of r] assms(1) unfolding ledger_times_def by blast
  then show ?thesis by (auto simp: claims_of_def)
qed

lemma load_outcome_present:
  assumes "ledger_times L" "ledger_refs L" "k \<in> o_event_id ` set (lg_outcomes L)"
  shows "\<exists>m oc. ledger_maximum L = Some m \<and> load_outcome L k m = Inr oc"
proof -
  obtain r where r: "r \<in> set (lg_outcomes L)" "o_event_id r = k" using assms(3) by auto
  then have "k \<in> event_ids L" using refs_keys(3) [OF assms(2)] by auto
  then obtain s where s: "seq_of L k = Some s" using seq_of_None by fastforce
  then have "lg_events L \<noteq> []" by (auto simp: seq_of_def)
  then obtain m where m: "ledger_maximum L = Some m" by (cases "lg_events L") (auto simp: ledger_maximum_def)
  have "(r, s) \<in> set (joined o_event_id (lg_outcomes L) L)" using r s by (simp add: set_joined)
  then obtain y where y: "find (\<lambda>(r, s). o_event_id r = k) (joined o_event_id (lg_outcomes L) L) = Some y"
    using r(2) by (cases "find (\<lambda>(r, s). o_event_id r = k) (joined o_event_id (lg_outcomes L) L)")
      (auto simp: find_None_iff)
  obtain x t where x: "y = (x, t)" by (cases y)
  have xt: "(x, t) \<in> set (joined o_event_id (lg_outcomes L) L)" using find_Some_in [OF y] x by simp
  have "t \<le> m" using ledger_maximum_ge [OF m joined_all_seq [OF xt]] .
  moreover obtain oc where "claims_of x t = Inr oc" using claims_total [OF assms(1)] xt by (auto simp: set_joined)
  ultimately show ?thesis using m y x by (auto simp: load_outcome_def)
qed

lemma effective_now_total:
  assumes "reachable L" "k \<in> o_event_id ` set (lg_outcomes L)"
  shows "\<exists>t. effective_now L k = Inr t"
proof -
  obtain m oc where m: "ledger_maximum L = Some m" "load_outcome L k m = Inr oc"
    using load_outcome_present [OF reachable_times reachable_refs] assms by blast
  then show ?thesis
    using effective_exists [OF reachable_keys [OF assms(1)] reachable_chains [OF assms(1)] m(2)]
    by (simp add: effective_now_def)
qed

lemma outcome_at_in: "outcome_at L k = Some r \<Longrightarrow> r \<in> set (lg_outcomes L) \<and> o_event_id r = k"
  by (auto simp: outcome_at_def dest: find_Some_in)

lemma outcome_at_id: "outcome_at L k = Some r \<Longrightarrow> k \<in> o_event_id ` set (lg_outcomes L)"
  using outcome_at_in by fastforce

lemma reachable_evidence_values:
  "reachable L \<Longrightarrow> \<forall>v\<in>set (lg_evidence L). \<exists>i. v_value_json v = evidence_value_json i"
proof (induction rule: reachable_write)
  case empty
  show ?case by (simp add: empty_ledger_def)
next
  case (accept L e L')
  have "\<forall>v\<in>set (new_evidence e (en_payload e)). \<exists>i. v_value_json v = evidence_value_json i"
    by (cases "en_payload e") (auto simp: evidence_row_of_def)
  then show ?case using accept(7) by (auto simp: write_event_tables(3) [OF accept(6)])
qed

lemma reference_answer:
  assumes "reachable L" "validate_reference L e b ref = Some err"
  shows "error_status err \<noteq> 500"
proof -
  have some: "stored_evidence_value (v_value_json v) \<noteq> None" if "evidence_at L k = Some v" for k v
  proof -
    have "v \<in> set (lg_evidence L)" using that by (auto simp: evidence_at_def dest: find_Some_in)
    then show ?thesis using reachable_evidence_values [OF assms(1)] stored_evidence_value_item by force
  qed
  show ?thesis
    using assms(2)
    by (auto simp: validate_reference_def Let_def bind_eq_Some_conv dest: some
        split: prod.splits option.splits if_splits)
qed

lemma first_failure_answer:
  "first_failure cs = Some err \<Longrightarrow> (\<And>x. Some x \<in> set cs \<Longrightarrow> P x) \<Longrightarrow> P err"
  using first_failure_Some by metis

lemma evidence_answer: "validate_evidence L e p = Some err \<Longrightarrow> error_status err \<noteq> 500"
  unfolding validate_evidence_def
  by (erule first_failure_answer) (auto simp: validate_item_def split: option.splits if_splits)

lemma decision_answer:
  assumes "reachable L" "validate_decision L e p = Some err"
  shows "error_status err \<noteq> 500"
proof (cases "first_failure (map (validate_reference L e (de_boundary p)) (decision_references p))")
  case None
  show ?thesis
    using assms(2) unfolding validate_decision_def None by (auto simp: raise_if_def split: option.splits if_splits)
next
  case (Some x)
  then have "error_status x \<noteq> 500"
    by (rule first_failure_answer) (use reference_answer [OF assms(1)] in force)
  then show ?thesis using assms(2) Some by (simp add: validate_decision_def)
qed

lemma supersession_answer:
  assumes "reachable L" "validate_outcome_supersession L e p = Some err"
  shows "error_status err \<noteq> 500"
  using assms(2) effective_now_total [OF assms(1) outcome_at_id]
  by (fastforce simp: validate_outcome_supersession_def raise_if_def split: option.splits if_splits sum.splits)

lemma failure_answer: "reason_of x \<noteq> None \<Longrightarrow> error_status (attribution_failure x ks) \<noteq> 500"
  by (auto simp: attribution_failure_def)

lemma cutoff_reason: "validate_cutoff L n = Inl x \<Longrightarrow> reason_of x \<noteq> None"
  by (auto simp: validate_cutoff_def split: option.splits if_splits)

lemma load_outcome_reason:
  assumes "ledger_times L" "load_outcome L k n = Inl x"
  shows "reason_of x \<noteq> None"
proof (cases "find (\<lambda>(r, s). o_event_id r = k) (joined o_event_id (lg_outcomes L) L)")
  case None
  then show ?thesis using assms(2) by (auto simp: load_outcome_def)
next
  case (Some y)
  obtain r s where y: "y = (r, s)" by (cases y)
  have "r \<in> set (lg_outcomes L)" using find_Some_in [OF Some] y by (simp add: set_joined)
  then obtain oc where "claims_of r s = Inr oc" using claims_total [OF assms(1)] by blast
  then show ?thesis using assms(2) Some y by (auto simp: load_outcome_def split: if_splits)
qed

lemma attribution_supersession_answer:
  assumes "reachable L" "validate_attribution_supersession L p = Some err"
  shows "error_status err \<noteq> 500"
proof -
  let ?rows = "map fst (attribution_seqs L (oa_outcome_event_id p) (oa_policy_version p))"
  have "(case ledger_maximum L of None \<Rightarrow> Inr None
      | Some m \<Rightarrow> effective_attribution L (oa_outcome_event_id p) (oa_policy_version p) m) =
      Inr (if ?rows = [] then None else Some (last ?rows))"
    by (rule effective_last [OF reachable_chain [OF assms(1)] reachable_keys [OF assms(1)] refl])
  note check = assms(2) [unfolded validate_attribution_supersession_def this sum.case]
  show ?thesis
    using check by (auto simp: raise_if_def split: option.splits if_splits)
qed

lemma attribution_answer:
  assumes "reachable L" "validate_attribution L e p = Some err"
  shows "error_status err \<noteq> 500"
proof (cases "outcome_at L (oa_outcome_event_id p)")
  case None
  then show ?thesis using assms(2) by (auto simp: validate_attribution_def)
next
  case (Some row)
  let ?k = "oa_outcome_event_id p" let ?n = "oa_ingest_cutoff p"
  note times = reachable_times [OF assms(1)]
  obtain t where t: "effective_now L ?k = Inr t" using effective_now_total [OF assms(1) outcome_at_id [OF Some]] by blast
  note check = assms(2) [unfolded validate_attribution_def Let_def Some option.case t sum.case]
  show ?thesis
  proof (cases "bindE (validate_cutoff L ?n) (\<lambda>_. load_outcome L ?k ?n)")
    case (Inl x)
    then have "reason_of x \<noteq> None"
      using cutoff_reason load_outcome_reason [OF times] by (auto simp: bindE_eq_Inl)
    then show ?thesis using check Inl by (auto simp: failure_answer split: if_splits)
  next
    case (Inr oc)
    then have v: "validate_cutoff L ?n = Inr ?n" "load_outcome L ?k ?n = Inr oc"
      by (auto simp: validate_cutoff_Inr)
    have rec: "error_status y \<noteq> 500" if "oa_policy_version p = POLICY_VERSION" "validate_recomputed L p = Some y" for y
      using attribute_total [OF times v(2,1)] that by (auto simp: validate_recomputed_def raise_if_def split: if_splits)
    have op: "error_status y \<noteq> 500" if "validate_operation L e p = Some y" for y
      using that by (auto simp: validate_operation_def Let_def raise_if_def split: option.splits if_splits)
    have res: "error_status y \<noteq> 500" if "validate_resolved_references L p a = Some y" for y a
      using that unfolding validate_resolved_references_def
      by (rule first_failure_answer) (auto simp: raise_if_def split: option.splits if_splits)
    show ?thesis
    proof (cases "o_account_ref row = en_account_ref e \<and> t = ?k \<and> oa_policy_version p = POLICY_VERSION")
      case False
      then show ?thesis using check by (auto simp: failure_answer split: if_splits)
    next
      case True
      then have "first_failure [validate_operation L e p, validate_attribution_supersession L p,
          validate_resolved_references L p (en_account_ref e), validate_recomputed L p] = Some err"
        using check Inr by (simp only: sum.case simp_thms if_False)
      then show ?thesis
        by (rule first_failure_answer)
          (use True rec op res attribution_supersession_answer [OF assms(1)] in \<open>auto\<close>)
    qed
  qed
qed

lemma references_answer:
  assumes "reachable L" "validate_references L e p = Some err"
  shows "error_status err \<noteq> 500"
proof (cases p)
  case (LogicArtifactRegistered a)
  then show ?thesis using assms(2) by (auto simp: validate_artifact_identity_def Let_def split: option.splits if_splits)
next
  case (EvidenceRecorded x)
  then show ?thesis using evidence_answer assms(2) by simp
next
  case (DecisionRecorded x)
  then show ?thesis using decision_answer [OF assms(1)] assms(2) by simp
next
  case (OutcomeEvaluatedV2 x)
  then show ?thesis using supersession_answer [OF assms(1)] assms(2) by simp
next
  case (OutcomeAttributed x)
  then show ?thesis using attribution_answer [OF assms(1)] assms(2) by simp
qed (use assms(2) in \<open>auto simp: validate_decision_reference_def validate_action_reference_def raise_if_def
    split: option.splits if_splits\<close>)

subsection \<open>The writes of an accepted envelope\<close>

text \<open>The integers of an envelope that reach an INTEGER column; an attribution's window and cutoff are
  bounded by its checks.\<close>

fun payload_ints :: "payload \<Rightarrow> int list" where
  "payload_ints (DecisionRecorded p) =
     dr_score (de_result p) # dr_threshold (de_result p) # map ci_contribution (de_consumed p)"
| "payload_ints (ActionRecorded p) = [ac_play_id p]"
| "payload_ints (OutcomeEvaluated p) = [o1_window_days p]"
| "payload_ints _ = []"

lemma insert_many_succeeds:
  assumes "\<And>pre r post. rs = pre @ r # post \<Longrightarrow> ins r (upd pre M) = Inr (upd (pre @ [r]) M)" "upd [] M = M"
  shows "insert_many ins rs M = Inr (upd rs M)"
proof -
  have "insert_many ins post (upd pre M) = Inr (upd rs M)" if "rs = pre @ post" for pre post
    using that
  proof (induction post arbitrary: pre)
    case (Cons r post)
    then show ?case using assms(1) [OF Cons.prems] Cons.IH [of "pre @ [r]"] by simp
  qed simp
  from this [of "[]" rs] show ?thesis by (simp add: assms(2))
qed

definition started :: "envelope \<Rightarrow> ledger \<Rightarrow> ledger \<Rightarrow> bool" where
  "started e L M \<longleftrightarrow> with_event e L M \<and> en_account_ref e \<in> a_account_ref ` set (lg_accounts M) \<and>
     (\<forall>a\<in>set (lg_accounts M). a \<in> set (lg_accounts L) \<or> a_first_seen a = en_event_id e)"

lemma startedD:
  assumes "started e L M"
  shows "en_account_ref e \<in> a_account_ref ` set (lg_accounts M)" "en_event_id e \<in> e_event_id ` set (lg_events M)"
    "with_event e L M"
  using assms with_event_tables(2) [of e L M] by (auto simp: started_def event_row_of_def)

lemma account_atD: "account_at L k \<noteq> None \<longleftrightarrow> k \<in> a_account_ref ` set (lg_accounts L)"
  by (auto simp: account_at_def find_None_iff)

lemma materialize_total:
  assumes "valid_envelope e" "check_account_rules L e (en_payload e) = None"
  shows "\<exists>as. materialize_account e (en_payload e) L = Inr (L\<lparr>lg_accounts := lg_accounts L @ as\<rparr>) \<and>
    en_account_ref e \<in> a_account_ref ` (set (lg_accounts L) \<union> set as) \<and> (\<forall>a\<in>set as. a_first_seen a = en_event_id e)"
proof -
  have self: "L = L\<lparr>lg_accounts := lg_accounts L @ []\<rparr>" by simp
  have new: "insert_account a L = Inr (L\<lparr>lg_accounts := lg_accounts L @ [a]\<rparr>)" if "account_at L (a_account_ref a) = None" for a
    using that account_atD [of L "a_account_ref a"] by (simp add: insert_account_def)
  show ?thesis
  proof (cases "en_payload e")
    case (LogicArtifactRegistered x)
    have sys: "en_account_ref e = SYSTEM_ACCOUNT_REF" using assms(1) LogicArtifactRegistered by (simp add: valid_envelope_iff)
    show ?thesis
    proof (cases "account_at L SYSTEM_ACCOUNT_REF = None")
      case True
      then show ?thesis
        using new [of "\<lparr>a_account_ref = SYSTEM_ACCOUNT_REF, a_name = SYSTEM_ACCOUNT_NAME,
          a_domain = SYSTEM_ACCOUNT_DOMAIN, a_first_seen = en_event_id e\<rparr>"]
        by (intro exI [of _ "[\<lparr>a_account_ref = SYSTEM_ACCOUNT_REF, a_name = SYSTEM_ACCOUNT_NAME,
          a_domain = SYSTEM_ACCOUNT_DOMAIN, a_first_seen = en_event_id e\<rparr>]"])
          (simp add: LogicArtifactRegistered sys)
    next
      case False
      then show ?thesis using self account_atD [of L SYSTEM_ACCOUNT_REF]
        by (intro exI [of _ "[]"]) (auto simp: LogicArtifactRegistered sys)
    qed
  next
    case (AccountDiscovered x)
    show ?thesis
    proof (cases "account_at L (en_account_ref e) = None")
      case True
      then show ?thesis
        using new [of "\<lparr>a_account_ref = en_account_ref e, a_name = ad_name x,
          a_domain = ad_domain x, a_first_seen = en_event_id e\<rparr>"]
        by (intro exI [of _ "[\<lparr>a_account_ref = en_account_ref e, a_name = ad_name x,
          a_domain = ad_domain x, a_first_seen = en_event_id e\<rparr>]"]) (simp add: AccountDiscovered)
    next
      case False
      then show ?thesis using self account_atD [of L "en_account_ref e"]
        by (intro exI [of _ "[]"]) (auto simp: AccountDiscovered)
    qed
  qed (use assms(2) self account_atD [of L "en_account_ref e"] in
      \<open>(intro exI [of _ "[]"]; simp split: option.splits)+\<close>)
qed

lemma start_total:
  assumes "valid_envelope e" "en_event_id e \<notin> event_ids L" "check_account_rules L e (en_payload e) = None"
    "fits_int64 (lg_seq L + 1)"
  shows "\<exists>L1 M. materialize_account e (en_payload e) L = Inr L1 \<and> insert_event (event_row_of e) L1 = Inr M \<and> started e L M"
proof -
  obtain as where as: "materialize_account e (en_payload e) L = Inr (L\<lparr>lg_accounts := lg_accounts L @ as\<rparr>)"
    "en_account_ref e \<in> a_account_ref ` (set (lg_accounts L) \<union> set as)" "\<forall>a\<in>set as. a_first_seen a = en_event_id e"
    using materialize_total [OF assms(1,3)] by blast
  let ?M = "L\<lparr>lg_accounts := lg_accounts L @ as, lg_seq := lg_seq L + 1,
      lg_events := lg_events L @ [(event_row_of e)\<lparr>e_seq := lg_seq L + 1\<rparr>]\<rparr>"
  have "insert_event (event_row_of e) (L\<lparr>lg_accounts := lg_accounts L @ as\<rparr>) = Inr ?M"
    using assms(2,4) as(2) by (simp add: insert_event_def event_row_of_def event_ids_def)
  moreover have "started e L ?M" using as(2,3) by (auto simp: started_def with_event_def)
  ultimately show ?thesis using as(1) by blast
qed

lemma artifact_total:
  assumes "started e L M" "validate_artifact_identity L a = None"
  shows "\<exists>L'. project_artifact e a M = Inr L'"
proof (cases "artifact_at L (canonical_hash (dump_artifact a)) = None")
  case True
  note t = with_event_tables [OF startedD(3) [OF assms(1)]]
  have "find (\<lambda>r. l_artifact_id r = la_artifact_id a \<and> l_logic_version r = la_logic_version a) (lg_artifacts L) = None"
    using assms(2) True by (auto simp: validate_artifact_identity_def Let_def split: option.splits)
  then show ?thesis
    using True startedD(2) [OF assms(1)]
    by (auto simp: project_artifact_def insert_artifact_def artifact_row_of_def t(4) artifact_at_def find_None_iff)
next
  case False
  then show ?thesis using with_event_tables(4) [OF startedD(3) [OF assms(1)]]
    by (simp add: project_artifact_def artifact_at_def)
qed

lemma evidence_total:
  assumes "started e L M" "validate_evidence L e p = None" "evidence_version_ids_are_unique p = None"
  shows "\<exists>L'. project_evidence e p M = Inr L'"
proof -
  note t = with_event_tables [OF startedD(3) [OF assms(1)]]
  let ?rs = "map (evidence_row_of e) (er_items p)"
  have d: "distinct (map v_version_id ?rs)"
    using assms(3) by (simp add: evidence_version_ids_are_unique_def comp_def evidence_row_of_def)
  have ok: "v_version_id r \<notin> v_version_id ` set (lg_evidence L) \<and>
      (\<forall>j. v_supersedes r = Some j \<longrightarrow> j \<in> v_version_id ` set (lg_evidence L))" if r: "r \<in> set ?rs" for r
  proof -
    obtain i where i: "i \<in> set (er_items p)" "r = evidence_row_of e i" using r by auto
    then have v: "validate_item L e i = None" using assms(2) by (simp add: validate_evidence_def)
    then have "evidence_at L (it_version_id i) = None" by (auto simp: validate_item_def split: option.splits if_splits)
    moreover have "j \<in> v_version_id ` set (lg_evidence L)" if j: "it_supersedes i = Some j" for j
    proof -
      have "evidence_at L j \<noteq> None" using v j by (auto simp: validate_item_def split: option.splits if_splits)
      then show ?thesis by (auto simp: evidence_at_def dest: find_Some_in)
    qed
    ultimately show ?thesis by (auto simp: i(2) evidence_row_of_def evidence_at_def find_None_iff)
  qed
  have row: "v_account_ref r = en_account_ref e \<and> v_source_event r = en_event_id e" if "r \<in> set ?rs" for r
    using that by (auto simp: evidence_row_of_def)
  have "insert_many insert_evidence ?rs M = Inr (M\<lparr>lg_evidence := lg_evidence M @ ?rs\<rparr>)"
  proof (rule insert_many_succeeds [where upd = "\<lambda>rs M. M\<lparr>lg_evidence := lg_evidence M @ rs\<rparr>"])
    fix pre r post assume s: "?rs = pre @ r # post"
    have r: "r \<in> set ?rs" by (simp only: s set_append) simp
    have "v_version_id r \<notin> v_version_id ` set pre" using d unfolding s by auto
    then show "insert_evidence r (M\<lparr>lg_evidence := lg_evidence M @ pre\<rparr>) =
        Inr (M\<lparr>lg_evidence := lg_evidence M @ (pre @ [r])\<rparr>)"
      using ok [OF r] row [OF r] startedD(1,2) [OF assms(1)]
      by (simp add: insert_evidence_def t(3)) blast
  qed simp
  then show ?thesis by (simp add: project_evidence_def)
qed

subsection \<open>Projections of decisions, personas, actions and outcomes\<close>

lemma fresh_keys:
  assumes "ledger_refs L" "en_event_id e \<notin> event_ids L"
  shows "en_event_id e \<notin> d_event_id ` set (lg_decisions L)" "en_event_id e \<notin> x_event_id ` set (lg_actions L)"
    "en_event_id e \<notin> o_event_id ` set (lg_outcomes L)" "en_event_id e \<notin> t_event_id ` set (lg_attributions L)"
    "en_event_id e \<notin> p_event_id ` set (lg_personas L)" "en_event_id e \<notin> h_decision ` set (lg_context L)"
    "en_event_id e \<notin> u_decision ` set (lg_consumed L)"
  using refs_keys [OF assms(1)] refs_decisions [OF assms(1)] assms
  by (auto simp: ledger_refs_def Let_def event_ids_def)

lemma decision_at_in: "decision_at L k \<noteq> None \<Longrightarrow> k \<in> d_event_id ` set (lg_decisions L)"
  by (auto simp: decision_at_def dest: find_Some_in)

lemma decision_reference_in: "validate_decision_reference L e k = None \<Longrightarrow> k \<in> d_event_id ` set (lg_decisions L)"
  by (rule decision_at_in) (auto simp: validate_decision_reference_def split: option.splits)

lemma action_reference_in: "validate_action_reference L e k = None \<Longrightarrow> k \<in> x_event_id ` set (lg_actions L)"
  by (auto simp: validate_action_reference_def action_at_def dest: find_Some_in split: option.splits)

text \<open>Every evidence version a validated decision names is recorded.\<close>

lemma decision_versions:
  assumes "validate_decision L e p = None" "decision_fields p" "payload_validators (DecisionRecorded p) = None"
  shows "x \<in> set (de_context p) \<Longrightarrow> ce_evidence x = Some v \<Longrightarrow> v \<in> v_version_id ` set (lg_evidence L)"
    "c \<in> set (de_consumed p) \<Longrightarrow> ci_evidence c \<in> v_version_id ` set (lg_evidence L)"
    "ar_artifact_hash (de_artifact p) \<in> l_hash ` set (lg_artifacts L)"
proof -
  have refs: "\<forall>x\<in>set (decision_references p). validate_reference L e (de_boundary p) x = None"
    using assms(1) by (auto simp: validate_decision_def split: option.splits)
  have known: "v \<in> v_version_id ` set (lg_evidence L)" if "(ik, Some v, j) \<in> set (decision_references p)" for ik v j
  proof -
    have "validate_reference L e (de_boundary p) (ik, Some v, j) = None" using refs that by blast
    from validate_reference_None [OF this] show ?thesis by blast
  qed
  show "ci_evidence c \<in> v_version_id ` set (lg_evidence L)" if "c \<in> set (de_consumed p)"
    using known [of "ci_input_key c" "ci_evidence c" "ci_value c"] that by (force simp: decision_references_def)
  show "v \<in> v_version_id ` set (lg_evidence L)" if x: "x \<in> set (de_context p)" "ce_evidence x = Some v"
  proof -
    have "availability_is_coherent x = None" "ce_availability x \<in> {''available'', ''unavailable''}"
      using decision_validated(3) [OF assms(3)] assms(2) x(1)
      by (simp_all add: decision_fields_def list_all_iff context_entry_fields_def)
    then have "ce_availability x = ''available''" using x(2) by (auto simp: availability_is_coherent_def split: if_splits)
    then show ?thesis using known [of "ce_input_key x" v "ce_value x"] x by (force simp: decision_references_def)
  qed
  obtain a where "artifact_at L (ar_artifact_hash (de_artifact p)) = Some a"
    using assms(1) by (auto simp: validate_decision_def split: option.splits)
  then show "ar_artifact_hash (de_artifact p) \<in> l_hash ` set (lg_artifacts L)"
    by (auto simp: artifact_at_def intro!: rev_image_eqI dest!: find_Some_in)
qed

lemma decision_total:
  assumes "started e L M" "validate_decision L e p = None" "decision_fields p"
    "payload_validators (DecisionRecorded p) = None" "ledger_refs L" "en_event_id e \<notin> event_ids L"
    "list_all fits_int64 (payload_ints (DecisionRecorded p))" "fits_int64 s"
  shows "\<exists>L'. project_decision e p s M = Inr L'"
proof -
  note t = with_event_tables [OF startedD(3) [OF assms(1)]]
  note vs = decision_versions [OF assms(2-4)] and fresh = fresh_keys [OF assms(5,6)]
  let ?d = "decision_row_of e p s"
  let ?M1 = "M\<lparr>lg_decisions := lg_decisions M @ [?d]\<rparr>"
  let ?hs = "map (context_row_of (en_event_id e)) (de_context p)"
  let ?M2 = "?M1\<lparr>lg_context := lg_context ?M1 @ ?hs\<rparr>"
  let ?us = "map (consumed_row_of (en_event_id e)) (de_consumed p)"
  have d: "d_event_id ?d = en_event_id e" by (simp add: decision_row_of_def)
  have "insert_decision ?d M = Inr ?M1"
    using assms(7,8) startedD(1,2) [OF assms(1)] fresh(1) vs(3)
    by (simp add: insert_decision_def decision_row_of_def t(4,5))
  moreover have "insert_many insert_context ?hs ?M1 = Inr ?M2"
  proof (rule insert_many_succeeds [where upd = "\<lambda>rs M. M\<lparr>lg_context := lg_context M @ rs\<rparr>" and M = ?M1])
    fix pre r post assume s: "?hs = pre @ r # post"
    have "r \<in> set ?hs" by (simp only: s set_append) simp
    then obtain x where x: "x \<in> set (de_context p)" "r = context_row_of (en_event_id e) x" by auto
    have "distinct (map h_input_key ?hs)"
      using decision_validated(1) [OF assms(4)] by (simp add: comp_def context_row_of_def)
    then have n: "h_input_key r \<notin> h_input_key ` set pre" unfolding s by auto
    have "h_decision r = en_event_id e" by (simp add: x(2) context_row_of_def)
    moreover have "\<forall>y\<in>set (lg_context L). h_decision y \<noteq> en_event_id e" using fresh(6) by (metis imageI)
    moreover have "\<forall>j. h_evidence r = Some j \<longrightarrow> j \<in> v_version_id ` set (lg_evidence L)"
      using vs(1) [OF x(1)] by (simp add: x(2) context_row_of_def)
    ultimately show "insert_context r (?M1\<lparr>lg_context := lg_context ?M1 @ pre\<rparr>) =
        Inr (?M1\<lparr>lg_context := lg_context ?M1 @ (pre @ [r])\<rparr>)"
      using n by (auto simp: insert_context_def t(3,6) d)
  qed simp
  moreover have "insert_many insert_consumed ?us ?M2 = Inr (?M2\<lparr>lg_consumed := lg_consumed ?M2 @ ?us\<rparr>)"
  proof (rule insert_many_succeeds [where upd = "\<lambda>rs M. M\<lparr>lg_consumed := lg_consumed M @ rs\<rparr>" and M = ?M2])
    fix pre r post assume s: "?us = pre @ r # post"
    have "r \<in> set ?us" by (simp only: s set_append) simp
    then obtain c where c: "c \<in> set (de_consumed p)" "r = consumed_row_of (en_event_id e) c" by auto
    have "distinct (map u_input_key ?us)"
      using decision_validated(2) [OF assms(4)] by (simp add: comp_def consumed_row_of_def)
    then have n: "u_input_key r \<notin> u_input_key ` set pre" unfolding s by auto
    have "u_decision r = en_event_id e" "fits_int64 (u_contribution r)" "u_evidence r \<in> v_version_id ` set (lg_evidence L)"
      using assms(7) c(1) vs(2) [OF c(1)] by (auto simp: c(2) consumed_row_of_def list_all_iff)
    moreover have "\<forall>y\<in>set (lg_consumed L). u_decision y \<noteq> en_event_id e" using fresh(7) by (metis imageI)
    ultimately show "insert_consumed r (?M2\<lparr>lg_consumed := lg_consumed ?M2 @ pre\<rparr>) =
        Inr (?M2\<lparr>lg_consumed := lg_consumed ?M2 @ (pre @ [r])\<rparr>)"
      using n by (auto simp: insert_consumed_def t(3,7) d)
  qed simp
  ultimately show ?thesis by (auto simp: project_decision_def)
qed

lemma persona_total:
  assumes "started e L M" "validate_decision_reference L e (ps_decision_event_id p) = None" "ledger_refs L"
    "en_event_id e \<notin> event_ids L"
  shows "\<exists>L'. project_persona e p M = Inr L'"
  using startedD(1,2) [OF assms(1)] fresh_keys(5) [OF assms(3,4)] decision_reference_in [OF assms(2)]
    with_event_tables [OF startedD(3) [OF assms(1)]]
  by (simp add: project_persona_def insert_persona_def)

lemma action_total:
  assumes "started e L M" "validate_decision_reference L e (ac_decision_event_id p) = None" "ledger_refs L"
    "en_event_id e \<notin> event_ids L" "fits_int64 (ac_play_id p)"
  shows "\<exists>L'. project_action e p M = Inr L'"
  using startedD(1,2) [OF assms(1)] fresh_keys(2) [OF assms(3,4)] decision_reference_in [OF assms(2)]
    with_event_tables [OF startedD(3) [OF assms(1)]] assms(5)
  by (simp add: project_action_def insert_action_def action_row_of_def)

lemma outcome_v1_total:
  assumes "started e L M" "validate_action_reference L e (o1_action_event_id p) = None" "ledger_refs L"
    "en_event_id e \<notin> event_ids L" "fits_int64 (o1_window_days p)"
  shows "\<exists>L'. insert_outcome (outcome_row_v1 e p) M = Inr L'"
  using startedD(1,2) [OF assms(1)] fresh_keys(3) [OF assms(3,4)] action_reference_in [OF assms(2)]
    with_event_tables [OF startedD(3) [OF assms(1)]] assms(5)
  by (simp add: insert_outcome_def outcome_row_v1_def)

lemma not_superseded:
  assumes "effective_now L k = Inr k" "ledger_refs L" "r \<in> set (lg_outcomes L)"
  shows "o_supersedes r \<noteq> Some k"
proof
  assume s: "o_supersedes r = Some k"
  obtain m where m: "ledger_maximum L = Some m" "follow L m k [k] = Inr k"
    using assms(1) by (auto simp: effective_now_def effective_outcome_version_def split: option.splits)
  have "o_event_id r \<in> event_ids L" using refs_keys(3) [OF assms(2)] assms(3) by blast
  then obtain n where n: "seq_of L (o_event_id r) = Some n" using seq_of_None by fastforce
  have "(r, n) \<in> set (joined o_event_id (lg_outcomes L) L)" using assms(3) n by (simp add: set_joined)
  then have "n \<le> m" by (rule ledger_maximum_ge [OF m(1) joined_all_seq])
  then have "o_event_id r \<in> set (successors L m k)" using s assms(3) n by (auto simp: successors_iff)
  then show False using follow_result [OF m(2)] by simp
qed

lemma times_started: "started e L M \<Longrightarrow> valid_envelope e \<Longrightarrow> ledger_times L \<Longrightarrow> ledger_times M"
  using with_event_tables [of e L M]
  by (auto simp: started_def ledger_times_def event_row_of_def valid_envelope_iff envelope_fields_def)

lemma outcome_v2_total:
  assumes "started e L M" "validate_outcome_supersession L e p = None" "reachable L" "outcome_v2_fields p"
    "en_event_id e \<notin> event_ids L" "valid_envelope e"
  shows "\<exists>L'. project_outcome_v2 e p s M = Inr L'"
proof -
  note t = with_event_tables [OF startedD(3) [OF assms(1)]] and refs = reachable_refs [OF assms(3)]
  have "stored_time (format_utc (o2_observed_at p))" using assms(4) by (simp add: outcome_v2_fields_def)
  then obtain a d where c: "source_claim_problems M (en_account_ref e) (format_utc (o2_observed_at p))
      (o2_source_action p) (o2_source_decision p) s = Inr (a, d)"
    using source_claim_total [OF times_started [OF assms(1,6) reachable_times [OF assms(3)]]]
    by (metis surj_pair)
  have "k \<in> o_event_id ` set (lg_outcomes L) \<and> Some k \<notin> o_supersedes ` set (lg_outcomes L)"
    if "o2_supersedes p = Some k" for k
    using supersession_target [OF assms(2) that] not_superseded [OF _ refs, of k] by force
  then have "\<exists>L'. insert_outcome (outcome_row_v2 e p a d) M = Inr L'"
    using startedD(1,2) [OF assms(1)] fresh_keys(3) [OF refs assms(5)] t(10)
    by (cases "o2_supersedes p") (simp_all add: insert_outcome_def outcome_row_v2_def)
  then show ?thesis by (auto simp: project_outcome_v2_def c)
qed

subsection \<open>The projection of an attribution\<close>

text \<open>In a chain whatever is superseded is the link just before.\<close>

lemma linked_target:
  "linked prev rs \<Longrightarrow> r \<in> set rs \<Longrightarrow> t_supersedes r = Some i \<Longrightarrow> prev = Some i \<or> i \<in> t_event_id ` set (butlast rs)"
  by (induction rs arbitrary: prev) (auto split: if_splits)

lemma attribution_in_seqs:
  assumes "ledger_refs L" "t \<in> set (lg_attributions L)"
  shows "\<exists>s. (t, s) \<in> set (attribution_seqs L (t_outcome t) (t_policy_version t))"
proof -
  have "t_event_id t \<in> event_ids L" using refs_keys(4) [OF assms(1)] assms(2) by blast
  then obtain s where "seq_of L (t_event_id t) = Some s" using seq_of_None by fastforce
  then show ?thesis using assms(2) by (auto simp: attribution_seqs_def set_joined)
qed

lemma last_link_free:
  assumes "reachable L" "rows = map fst (attribution_seqs L k v)" "rows \<noteq> []" "t \<in> set (lg_attributions L)"
  shows "t_supersedes t \<noteq> Some (t_event_id (last rows))"
proof
  assume sup: "t_supersedes t = Some (t_event_id (last rows))"
  note keys = reachable_keys [OF assms(1)]
  have ids: "distinct (map t_event_id (lg_attributions L))" using keys by (simp add: ledger_keys_def)
  let ?own = "map fst (attribution_seqs L (t_outcome t) (t_policy_version t))"
  have sub: "set (map fst (attribution_seqs L a b)) \<subseteq> set (lg_attributions L)" for a b
    using attribution_seqs_rows by fastforce
  have "t \<in> set ?own" using attribution_in_seqs [OF reachable_refs [OF assms(1)] assms(4)] by force
  moreover have "linked None ?own" using reachable_chain [OF assms(1)] by (simp add: attribution_chain_def)
  ultimately obtain p where p: "p \<in> set (butlast ?own)" "t_event_id p = t_event_id (last rows)"
    using linked_target [of None ?own t] sup by auto
  have "p \<in> set (lg_attributions L)" using sub in_set_butlastD [OF p(1)] by blast
  moreover have "last rows \<in> set (lg_attributions L)" using sub last_in_set [OF assms(3)] unfolding assms(2) by blast
  ultimately have eq: "p = last rows" using ids p(2) by (metis distinct_map inj_onD)
  have "last rows \<in> set rows" using assms(3) by simp
  then have "t_outcome (last rows) = k \<and> t_policy_version (last rows) = v"
    unfolding assms(2) by (auto simp: attribution_seqs_def)
  moreover have "p \<in> set ?own" using p(1) by (rule in_set_butlastD)
  then have "t_outcome p = t_outcome t \<and> t_policy_version p = t_policy_version t"
    by (auto simp: attribution_seqs_def)
  ultimately have same: "?own = rows" using eq assms(2) by simp
  have "distinct (map t_event_id rows)" using distinct_attribution_seqs [OF keys, of k v] by (simp add: assms(2))
  then have "distinct rows" by (simp add: distinct_map)
  then have "last rows \<notin> set (butlast rows)"
    by (metis append_butlast_last_id assms(3) distinct_append distinct.simps(2) disjoint_iff list.set_intros(1))
  then show False using p(1) eq same by simp
qed

lemma resolved_in:
  assumes "validate_resolved_references L p acct = None"
  shows "oa_resolved_action p = Some k \<Longrightarrow> k \<in> x_event_id ` set (lg_actions L)"
    "oa_resolved_decision p = Some k \<Longrightarrow> k \<in> d_event_id ` set (lg_decisions L)"
  using assms
  by (auto simp: validate_resolved_references_def action_at_def decision_at_def simp del: first_failure.simps
      intro!: rev_image_eqI dest!: find_Some_in split: option.splits)

lemma attribution_total:
  assumes "started e L M" "reachable L" "en_event_id e \<notin> event_ids L" "validate_attribution L e p = None"
    "fits_int64 (lg_seq L + 1)"
  shows "\<exists>L'. project_attribution e p M = Inr L'"
proof -
  note t = with_event_tables [OF startedD(3) [OF assms(1)]]
  note keys = reachable_keys [OF assms(2)] and refs = reachable_refs [OF assms(2)]
  note v = validate_attribution_None [OF assms(4)] and chain = reachable_chain [OF assms(2)]
  let ?k = "oa_outcome_event_id p" let ?v = "oa_policy_version p"
  define rows where "rows = map fst (attribution_seqs L ?k ?v)"
  note nl = next_link(1) [OF chain keys v(3) refl refl rows_def]
  have "1 \<le> oa_ingest_cutoff p" "oa_ingest_cutoff p \<le> lg_seq L" using v(8) keys by (auto simp: ledger_keys_def)
  then have cut: "fits_int64 (oa_ingest_cutoff p)" using assms(5) by (simp add: fits_int64_def)
  obtain r where r: "attribute L ?k (oa_ingest_cutoff p) ?v = Inr r" "payload_policy_result p = policy_result r"
    using v(2) by blast
  have win: "fits_int64 (oa_window_days p)"
    using r(2) attribute_shape [OF r(1)] by (simp add: payload_policy_result_def policy_result_def LOOKBACK_DAYS_def)
  have sup: "oa_supersedes p = None \<or> oa_supersedes p \<notin> t_supersedes ` set (lg_attributions L)"
  proof (cases "rows = []")
    case False
    have "Some (t_event_id (last rows)) \<notin> t_supersedes ` set (lg_attributions L)"
      using last_link_free [OF assms(2) rows_def False] by (metis imageE)
    then show ?thesis using nl False by simp
  qed (use nl in simp)
  have supin: "j \<in> t_event_id ` set (lg_attributions L)" if "oa_supersedes p = Some j" for j
  proof -
    have r: "rows \<noteq> []" "j = t_event_id (last rows)" using nl that by (auto split: if_splits)
    then have "last rows \<in> set rows" by simp
    then show ?thesis using r(2) attribution_seqs_rows unfolding rows_def by fastforce
  qed
  have root: "(t_outcome x, t_policy_version x) \<noteq> (?k, ?v)"
    if "oa_supersedes p = None" "x \<in> set (lg_attributions L)" for x
  proof -
    have "rows = []" using nl that(1) by (auto split: if_splits)
    then show ?thesis using attribution_in_seqs [OF refs that(2)] by (auto simp: rows_def)
  qed
  then have roots: "oa_supersedes p = None \<Longrightarrow>
      (?k, ?v) \<notin> (\<lambda>x. (t_outcome x, t_policy_version x)) ` {x \<in> set (lg_attributions L). t_supersedes x = None}"
    by fastforce
  have op: "(?k, ?v, oa_ingest_cutoff p) \<notin> (\<lambda>x. (t_outcome x, t_policy_version x, t_cutoff x)) ` set (lg_attributions L)"
    using v(6) by auto
  have out: "?k \<in> o_event_id ` set (lg_outcomes L)" using v(7) by (metis imageI)
  have "insert_attribution (attribution_row_of e p) M =
      Inr (M\<lparr>lg_attributions := lg_attributions M @ [attribution_row_of e p]\<rparr>)"
    unfolding insert_attribution_def guarded_Inr
    using cut win sup supin roots op out resolved_in [OF v(5)] startedD(1,2) [OF assms(1)] fresh_keys(4) [OF refs assms(3)]
    by (auto simp: attribution_row_of_def t(3-11))
  then show ?thesis by (simp add: project_attribution_def)
qed

subsection \<open>Every checked envelope is written\<close>

lemma reachable_first_seen: "reachable L \<Longrightarrow> \<forall>a\<in>set (lg_accounts L). a_first_seen a \<in> event_ids L"
  using reachable_deferred by (simp add: deferred_refs_def event_ids_def)

lemma project_total:
  assumes "started e L M" "reachable L" "valid_envelope e" "en_event_id e \<notin> event_ids L"
    "validate_references L e (en_payload e) = None" "list_all fits_int64 (payload_ints (en_payload e))"
    "fits_int64 (lg_seq L + 1)"
  shows "\<exists>L'. project e (en_payload e) (lg_seq L + 1) M = Inr L'"
proof -
  note refs = reachable_refs [OF assms(2)]
  have v: "payload_fields (en_payload e)" "payload_validators (en_payload e) = None"
    using assms(3) by (simp_all add: valid_envelope_iff envelope_fields_def)
  show ?thesis
  proof (cases "en_payload e")
    case (LogicArtifactRegistered a)
    then show ?thesis using artifact_total [OF assms(1)] assms(5) by simp
  next
    case (EvidenceRecorded p)
    then show ?thesis using evidence_total [OF assms(1)] assms(5) v(2) by simp
  next
    case (DecisionRecorded p)
    then show ?thesis using decision_total [OF assms(1) _ _ _ refs assms(4) _ assms(7)] assms(5,6) v by simp
  next
    case (PersonaSelected p)
    then show ?thesis using persona_total [OF assms(1) _ refs assms(4)] assms(5) by simp
  next
    case (ActionRecorded p)
    then show ?thesis using action_total [OF assms(1) _ refs assms(4)] assms(5,6) by simp
  next
    case (OutcomeEvaluated p)
    then show ?thesis using outcome_v1_total [OF assms(1) _ refs assms(4)] assms(5,6) by simp
  next
    case (OutcomeEvaluatedV2 p)
    then show ?thesis using outcome_v2_total [OF assms(1) _ assms(2) _ assms(4,3)] assms(5) v(1) by simp
  next
    case (OutcomeAttributed p)
    then show ?thesis using attribution_total [OF assms(1,2,4) _ assms(7)] assms(5) by simp
  qed simp
qed

lemma write_total:
  assumes "reachable L" "valid_envelope e" "en_event_id e \<notin> event_ids L"
    "check_account_rules L e (en_payload e) = None" "validate_references L e (en_payload e) = None"
    "list_all fits_int64 (payload_ints (en_payload e))" "fits_int64 (lg_seq L + 1)"
  shows "\<exists>L'. write_event e L = Inr L'"
proof -
  obtain L1 M where s: "materialize_account e (en_payload e) L = Inr L1" "insert_event (event_row_of e) L1 = Inr M"
    "started e L M"
    using start_total [OF assms(2-4,7)] by blast
  note t = with_event_tables [OF startedD(3) [OF s(3)]]
  obtain L' where p: "project e (en_payload e) (lg_seq L + 1) M = Inr L'"
    using project_total [OF s(3) assms(1-3,5-7)] by blast
  have "event_ids L' = event_ids M" "lg_accounts L' = lg_accounts M"
    using project_tables(2,3) [OF p] by (simp_all add: event_ids_def)
  moreover have "a_first_seen a \<in> event_ids M" if "a \<in> set (lg_accounts M)" for a
    using that s(3) reachable_first_seen [OF assms(1)] startedD(2) [OF s(3)] t(2)
    by (auto simp: started_def event_ids_def)
  ultimately have "commit L' = Inr L'" by (simp add: commit_Inr)
  then show ?thesis using s(1,2) p t(1) by (auto simp: write_event_Inr)
qed

lemma account_rules_answer: "check_account_rules L e p = Some err \<Longrightarrow> error_status err \<noteq> 500"
  by (cases p) (auto simp: raise_if_def split: option.splits if_splits)

text \<open>C1: The collector always answers: on a ledger it produced, a valid envelope whose integers fit
  SQLite's 64 bits is accepted (201 or 200) or refused with 409 or 422; no check meets an unreadable
  row, and no constraint of the schema fails after the checks.\<close>
theorem ingest_answers:
  assumes "reachable L" "valid_envelope e" "list_all fits_int64 (payload_ints (en_payload e))"
    "fits_int64 (lg_seq L + 1)"
  shows "case ingest e L of Inl err \<Rightarrow> error_status err \<in> {409, 422} | Inr (res, L') \<Rightarrow> http_status res \<in> {200, 201}"
proof -
  have refused: "error_status err \<in> {409, 422}" if "error_status err \<noteq> 500" for err
    using that by (cases err) auto
  have ok: "http_status res \<in> {200, 201}" for res
    by (cases "ir_status res") (simp_all add: http_status_def)
  show ?thesis
  proof (cases "ingest e L")
    case (Inr x)
    then show ?thesis using ok by (cases x) simp
  next
    case (Inl err)
    have "error_status err \<noteq> 500"
    proof (cases "event_at L (en_event_id e)")
      case (Some row)
      then show ?thesis using Inl by (auto simp: ingest_def Let_def split: if_splits)
    next
      case None
      then have n: "en_event_id e \<notin> event_ids L" by (simp add: event_at_None)
      show ?thesis
      proof (cases "check_account_rules L e (en_payload e)")
        case (Some x)
        then show ?thesis using Inl None account_rules_answer [OF Some] by (simp add: ingest_def Let_def)
      next
        case nc: None
        show ?thesis
        proof (cases "validate_references L e (en_payload e)")
          case (Some x)
          then show ?thesis using Inl None nc references_answer [OF assms(1) Some] by (simp add: ingest_def Let_def)
        next
          case nv: None
          obtain L' where "write_event e L = Inr L'" using write_total [OF assms(1,2) n nc nv assms(3,4)] ..
          then show ?thesis using Inl None nc nv by (simp add: ingest_def Let_def)
        qed
      qed
    qed
    then show ?thesis using refused Inl by simp
  qed
qed

theorem ingest_answers_witness:
  "case ingest (run_action\<lparr>en_event_id := ''act-2'', en_account_ref := ''nobody''\<rparr>) run6 of
     Inl err \<Rightarrow> error_status err \<in> {409, 422} | Inr (res, L') \<Rightarrow> http_status res \<in> {200, 201}"
proof (rule ingest_answers [OF run_reachable(6)])
  show "valid_envelope (run_action\<lparr>en_event_id := ''act-2'', en_account_ref := ''nobody''\<rparr>)" by code_simp
qed (simp_all add: run_action_def run_action_payload_def run_tables)

subsection \<open>An integer beyond 64 bits\<close>

text \<open>C39: A valid action whose play id is 2^63 or more passes every check of the collector and then fails
  in the database binding: the client gets a 500, not a validation error.\<close>
theorem play_id_overflow:
  assumes "valid_envelope e" "en_payload e = ActionRecorded p" "9223372036854775808 \<le> ac_play_id p"
    "en_event_id e \<notin> event_ids L" "fits_int64 (lg_seq L + 1)"
    "account_at L (en_account_ref e) \<noteq> None" "validate_decision_reference L e (ac_decision_event_id p) = None"
  shows "ingest e L = Inl (Database IntegerOverflow) \<and> error_status (Database IntegerOverflow) = 500"
proof -
  have c: "check_account_rules L e (en_payload e) = None" using assms(2,6) by auto
  obtain L1 M where s: "materialize_account e (en_payload e) L = Inr L1" "insert_event (event_row_of e) L1 = Inr M"
    using start_total [OF assms(1,4) c assms(5)] by blast
  have "insert_action (action_row_of e p) M = Inl IntegerOverflow"
    using assms(3) by (simp add: insert_action_def guarded_def bind_int_def action_row_of_def fits_int64_def raise_if_def)
  then have "write_event e L = Inl (Database IntegerOverflow)"
    using s assms(2) by (simp add: write_event_def project_action_def)
  then show ?thesis using c assms(2,4,7) by (simp add: ingest_def Let_def event_at_None [THEN iffD2])
qed

definition run_overflow :: envelope where
  "run_overflow = run_action\<lparr>en_event_id := ''act-2'',
     en_payload := ActionRecorded (run_action_payload\<lparr>ac_play_id := 9223372036854775808\<rparr>)\<rparr>"

theorem play_id_overflow_witness: "ingest run_overflow run6 = Inl (Database IntegerOverflow)"
proof -
  let ?p = "run_action_payload\<lparr>ac_play_id := 9223372036854775808\<rparr>"
  have v: "valid_envelope run_overflow" by code_simp
  have p: "en_payload run_overflow = ActionRecorded ?p" by (simp add: run_overflow_def)
  have n: "en_event_id run_overflow \<notin> event_ids run6" by (simp add: run_overflow_def)
  have f: "fits_int64 (lg_seq run6 + 1)" by (simp add: run_tables)
  have a: "account_at run6 (en_account_ref run_overflow) \<noteq> None"
    by (simp add: account_at_def run_tables run_overflow_def run_action_def SYSTEM_ACCOUNT_REF_def)
  have d: "validate_decision_reference run6 run_overflow (ac_decision_event_id ?p) = None"
    by (simp add: validate_decision_reference_def decision_at_def run_rows decision_row_of_def run_decision_def
        run_decision_payload_def run_action_payload_def run_overflow_def run_action_def run_times)
  show ?thesis by (rule play_id_overflow [OF v p _ n f a d, THEN conjunct1]) simp
qed

end
