(* ===== verification/Attribution_Service.thy ===== *)
theory Attribution_Service
  imports Collector_Progress Snapshots
begin

text \<open>
  \<open>attribution/service.py\<close>: the attribution command.  Results are computed by the policy and submitted
  to the collector; a submission can be lost on the way there or back, and is retried with the same
  envelope.  The fate of each attempt and the readings of the clock are parameters.  The dictionary of
  \<open>build_envelope\<close> is represented by the envelope it validates to.  Nothing here writes a row itself.
\<close>

subsection \<open>The envelope of a result\<close>

definition SUBMIT_ATTEMPTS :: nat where
  "SUBMIT_ATTEMPTS = 3"

definition build_envelope :: "attribution_result \<Rightarrow> string \<Rightarrow> utc \<Rightarrow> utc \<Rightarrow> string option \<Rightarrow> envelope" where
  "build_envelope r acct attributed_at recorded_at supersedes =
     \<lparr>en_event_id = attribution_event_id (rr_outcome r) (rr_policy_version r) (rr_cutoff r),
      en_source = ATTRIBUTION_SOURCE, en_account_ref = acct, en_occurred_at = attributed_at,
      en_recorded_at = max recorded_at attributed_at,
      en_payload = OutcomeAttributed
        \<lparr>oa_outcome_event_id = rr_outcome r, oa_policy_version = rr_policy_version r, oa_method = rr_method r,
         oa_window_days = rr_window_days r, oa_resolved_action = rr_resolved_action r,
         oa_resolved_decision = rr_resolved_decision r, oa_status = rr_status r, oa_reason = rr_reason r,
         oa_attributed_at = attributed_at, oa_ingest_cutoff = rr_cutoff r, oa_supersedes = supersedes\<rparr>\<rparr>"

text \<open>The dictionary rebuilt from the stored columns and payload; \<open>Inl\<close> is \<open>json.loads\<close> raising.\<close>

definition stored_envelope :: "event_row \<Rightarrow> json \<Rightarrow> json" where
  "stored_envelope row content = JObj
     [(''schema_version'', JStr (e_schema_version row)), (''event_id'', JStr (e_event_id row)),
      (''event_type'', JStr (e_event_type row)), (''source'', JStr (e_source row)),
      (''account_ref'', JStr (e_account_ref row)), (''occurred_at'', JStr (e_occurred_at row)),
      (''recorded_at'', JStr (e_recorded_at row)), (''payload'', content)]"

definition recover_envelope :: "ledger \<Rightarrow> string \<Rightarrow> int \<Rightarrow> string \<Rightarrow> string + json option" where
  "recover_envelope L k cutoff version =
     (case event_at L (attribution_event_id k version cutoff) of
        None \<Rightarrow> Inr None
      | Some row \<Rightarrow>
          bindE (opt_to_sum (e_payload row) (json_loads (e_payload row))) (\<lambda>content.
            Inr (Some (stored_envelope row content))))"

subsection \<open>Submission\<close>

text \<open>
  What one \<open>client.post\<close> does: the request is lost before the collector sees it, the collector handles
  it but the answer is lost (both a \<open>TransportError\<close>), or the answer arrives.
\<close>

datatype fate = Undelivered | Unanswered | Answered

type_synonym answer = "collector_error + ingest_result"

fun answer_status :: "answer \<Rightarrow> int" where
  "answer_status (Inl err) = error_status err"
| "answer_status (Inr res) = http_status res"

text \<open>The collector's side of a request: \<open>ingest_json\<close> once the body is decoded.\<close>

definition respond :: "envelope \<Rightarrow> ledger \<Rightarrow> answer \<times> ledger" where
  "respond e L =
     (case (if valid_envelope e then ingest e L else Inl (Rejected ''invalid_envelope'' [])) of
        Inl err \<Rightarrow> (Inl err, L)
      | Inr (res, L') \<Rightarrow> (Inr res, L'))"

text \<open>The attempts still to come; \<open>None\<close> is the \<open>TransportError\<close> of the last one.\<close>

fun submit_from :: "fate list \<Rightarrow> envelope \<Rightarrow> ledger \<Rightarrow> answer option \<times> ledger" where
  "submit_from [] e L = (None, L)"
| "submit_from (Undelivered # fs) e L = submit_from fs e L"
| "submit_from (Unanswered # fs) e L = submit_from fs e (snd (respond e L))"
| "submit_from (Answered # fs) e L =
     (case respond e L of (a, L') \<Rightarrow>
        if 500 \<le> answer_status a \<and> fs \<noteq> [] then submit_from fs e L' else (Some a, L'))"

definition submit :: "(nat \<Rightarrow> fate) \<Rightarrow> envelope \<Rightarrow> ledger \<Rightarrow> answer option \<times> ledger" where
  "submit fates e L = submit_from (map fates [0..<SUBMIT_ATTEMPTS]) e L"

lemma respond_twice: "snd (respond e (snd (respond e L))) = snd (respond e L)"
proof (cases "if valid_envelope e then ingest e L else Inl (Rejected ''invalid_envelope'' [])")
  case (Inr x)
  then obtain res L' where r: "valid_envelope e" "ingest e L = Inr (res, L')"
    by (cases x) (auto split: if_splits)
  obtain row where "event_at L' (en_event_id e) = Some row" "e_hash row = envelope_hash e"
    using event_at_accepted [OF r(2)] by blast
  then show ?thesis using r by (simp add: respond_def ingest_def [of e L'])
qed (simp add: respond_def)

lemma submit_from_effect:
  "snd (submit_from fs e L) \<in> {L, snd (respond e L)} \<and>
   (\<forall>a. fst (submit_from fs e L) = Some a \<longrightarrow> snd (submit_from fs e L) = snd (respond e L))"
proof (induction fs e L rule: submit_from.induct)
  case (3 fs e L)
  then show ?case using respond_twice [of e L] by auto
next
  case (4 fs e L)
  obtain a L' where a: "respond e L = (a, L')" by (cases "respond e L")
  then have "snd (respond e L') = L'" using respond_twice [of e L] by simp
  then show ?case using 4 [OF a [symmetric]] a by auto
qed auto

text \<open>C24: Whatever is lost on the way, a submission has at most one effect: the ledger is unchanged or is
  what a single delivery makes of it, and an answer means that the delivery took place.\<close>
theorem submit_at_most_once:
  "snd (submit fates e L) \<in> {L, snd (respond e L)} \<and>
   (case fst (submit fates e L) of None \<Rightarrow> True | Some a \<Rightarrow> snd (submit fates e L) = snd (respond e L))"
  using submit_from_effect [of "map fates [0..<SUBMIT_ATTEMPTS]" e L] unfolding submit_def
  by (auto split: option.split)

subsection \<open>A run\<close>

datatype run_failure = RunPolicy attribution_error | RunTransport

datatype run_end = Continue | Break | Raised run_failure

record attribution_run =
  an_cutoff :: "int option"
  an_reevaluate :: bool
  an_submissions :: "(string \<times> envelope \<times> answer) list"
  an_unchanged :: "string list"
  an_already :: "string list"
  an_not_yet :: "string list"

text \<open>The run so far, with the collector's ledger, the clock readings taken and the submissions sent.\<close>

record run_state =
  rs_ledger :: ledger
  rs_ticks :: nat
  rs_run :: attribution_run

definition attribute_one ::
    "(nat \<Rightarrow> nat \<Rightarrow> fate) \<Rightarrow> (nat \<Rightarrow> utc) \<Rightarrow> string \<Rightarrow> bool \<Rightarrow> int \<Rightarrow> string \<Rightarrow> run_state \<Rightarrow> run_end \<times> run_state" where
  "attribute_one fates clock version reevaluate cutoff k s =
     (let L = rs_ledger s; run = rs_run s in
      case effective_attribution L k version cutoff of
        Inl err \<Rightarrow> (Raised (RunPolicy err), s)
      | Inr existing \<Rightarrow>
          if \<not> reevaluate \<and> existing \<noteq> None
          then (Continue, s\<lparr>rs_run := run\<lparr>an_already := an_already run @ [k]\<rparr>\<rparr>)
          else if reevaluate \<and> existing = None
          then (Continue, s\<lparr>rs_run := run\<lparr>an_not_yet := an_not_yet run @ [k]\<rparr>\<rparr>)
          else (case attribute L k cutoff version of
              Inl err \<Rightarrow> (Raised (RunPolicy err), s)
            | Inr result \<Rightarrow>
                (case load_outcome L k cutoff of
                   Inl err \<Rightarrow> (Raised (RunPolicy err), s\<lparr>rs_ticks := rs_ticks s + 1\<rparr>)
                 | Inr oc \<Rightarrow>
                     if reevaluate \<and> map_option stored_policy_result existing = Some (policy_result result)
                     then (Continue, s\<lparr>rs_ticks := rs_ticks s + 1,
                       rs_run := run\<lparr>an_unchanged := an_unchanged run @ [k]\<rparr>\<rparr>)
                     else (let e = build_envelope result (oc_account_ref oc) (clock (rs_ticks s))
                                 (clock (rs_ticks s + 1)) (map_option t_event_id existing) in
                         case submit (fates (length (an_submissions run))) e L of
                           (None, L') \<Rightarrow> (Raised RunTransport, s\<lparr>rs_ledger := L', rs_ticks := rs_ticks s + 2\<rparr>)
                         | (Some a, L') \<Rightarrow>
                             (if 400 \<le> answer_status a then Break else Continue,
                              s\<lparr>rs_ledger := L', rs_ticks := rs_ticks s + 2,
                                rs_run := run\<lparr>an_submissions := an_submissions run @ [(k, e, a)]\<rparr>\<rparr>)))))"

primrec attribute_all ::
    "(nat \<Rightarrow> nat \<Rightarrow> fate) \<Rightarrow> (nat \<Rightarrow> utc) \<Rightarrow> string \<Rightarrow> bool \<Rightarrow> int \<Rightarrow> string list \<Rightarrow> run_state \<Rightarrow> run_end \<times> run_state" where
  "attribute_all fates clock version reevaluate cutoff [] s = (Continue, s)"
| "attribute_all fates clock version reevaluate cutoff (k # ks) s =
     (case attribute_one fates clock version reevaluate cutoff k s of
        (Continue, s') \<Rightarrow> attribute_all fates clock version reevaluate cutoff ks s'
      | stop \<Rightarrow> stop)"

definition run_start :: "int option \<Rightarrow> bool \<Rightarrow> ledger \<Rightarrow> run_state" where
  "run_start cutoff reevaluate L =
     \<lparr>rs_ledger = L, rs_ticks = 0,
      rs_run = \<lparr>an_cutoff = cutoff, an_reevaluate = reevaluate, an_submissions = [], an_unchanged = [],
        an_already = [], an_not_yet = []\<rparr>\<rparr>"

definition run_attribution_command ::
    "(nat \<Rightarrow> nat \<Rightarrow> fate) \<Rightarrow> (nat \<Rightarrow> utc) \<Rightarrow> string \<Rightarrow> bool \<Rightarrow> ledger \<Rightarrow> run_end \<times> run_state" where
  "run_attribution_command fates clock version reevaluate L =
     (case ledger_maximum L of
        None \<Rightarrow> (Continue, run_start None reevaluate L)
      | Some cutoff \<Rightarrow>
          (case effective_outcome_versions L cutoff None of
             Inl err \<Rightarrow> (Raised (RunPolicy err), run_start (Some cutoff) reevaluate L)
           | Inr ids \<Rightarrow> attribute_all fates clock version reevaluate cutoff ids (run_start (Some cutoff) reevaluate L)))"

subsection \<open>Retrying a stored operation\<close>

datatype retry_failure = NoStoredAttribution | StoredPayloadUnreadable | RetryTransport

text \<open>\<open>decode\<close> is the collector's decoding of the resubmitted dictionary, as in \<open>ingest_json\<close>.\<close>

definition retry_operation ::
    "(json \<Rightarrow> envelope option) \<Rightarrow> (nat \<Rightarrow> fate) \<Rightarrow> string \<Rightarrow> int \<Rightarrow> string \<Rightarrow> ledger
      \<Rightarrow> (retry_failure + answer) \<times> ledger" where
  "retry_operation decode fates k cutoff version L =
     (case recover_envelope L k cutoff version of
        Inl _ \<Rightarrow> (Inl StoredPayloadUnreadable, L)
      | Inr None \<Rightarrow> (Inl NoStoredAttribution, L)
      | Inr (Some j) \<Rightarrow>
          (case decode j of
             None \<Rightarrow> (Inr (Inl (Rejected ''invalid_envelope'' [])), L)
           | Some e \<Rightarrow>
               (case submit fates e L of
                  (None, L') \<Rightarrow> (Inl RetryTransport, L')
                | (Some a, L') \<Rightarrow> (Inr a, L'))))"

subsection \<open>Recovering a stored envelope\<close>

lemma stored_envelope_text:
  assumes "r = (event_row_of e)\<lparr>e_seq := n\<rparr>"
  shows "canonical_text (stored_envelope r (jnorm (dump_payload (en_payload e)))) = canonical_text (dump_envelope e)"
  unfolding assms stored_envelope_def dump_envelope_def canonical_text.simps
  by (simp add: event_row_of_def jtime_def)

lemma recovered:
  assumes "reachable L" "event_at L (attribution_event_id k version cutoff) = Some row"
  shows "\<exists>j e. recover_envelope L k cutoff version = Inr (Some j) \<and> valid_envelope e \<and>
    en_event_id e = attribution_event_id k version cutoff \<and> canonical_text j = canonical_text (dump_envelope e) \<and>
    ingest e L = Inr (\<lparr>ir_status = Duplicate, ir_event_id = en_event_id e, ir_hash = e_hash row\<rparr>, L)"
proof -
  have row: "row \<in> set (lg_events L)" "e_event_id row = attribution_event_id k version cutoff"
    using assms(2) by (auto simp: event_at_def dest: find_Some_in)
  obtain e where e: "valid_envelope e" "row = (event_row_of e)\<lparr>e_seq := e_seq row\<rparr>"
    using reachable_events [OF assms(1)] row(1) by (auto simp: event_sound_def)
  have cols: "e_payload row = canonical_text (dump_payload (en_payload e))" "e_event_id row = en_event_id e"
    "e_hash row = envelope_hash e"
    by (subst e(2), simp add: event_row_of_def)+
  have "payload_fields (en_payload e)" using e(1) by (simp add: valid_envelope_iff envelope_fields_def)
  then have "json_loads (e_payload row) = Some (jnorm (dump_payload (en_payload e)))"
    unfolding cols(1) json_loads_def by (intro json_loads_canonical plain_payload fields_scalar)
  then have "recover_envelope L k cutoff version = Inr (Some (stored_envelope row (jnorm (dump_payload (en_payload e)))))"
    by (simp add: recover_envelope_def assms(2))
  moreover have "ingest e L = Inr (\<lparr>ir_status = Duplicate, ir_event_id = en_event_id e, ir_hash = e_hash row\<rparr>, L)"
    using assms(2) row(2) cols by (simp add: ingest_def Let_def)
  ultimately show ?thesis using e(1) row(2) cols(2) stored_envelope_text [OF e(2)] by auto
qed

text \<open>C25: The envelope recovered for a stored operation is the one that was accepted: its canonical text is
  that of a valid envelope with the operation's id, whose digest is the stored one, so that submitting it
  again is a duplicate.  Nothing is recovered for an operation that was never stored.\<close>
theorem recover_envelope_exact:
  assumes "reachable L"
  shows "case recover_envelope L k cutoff version of
      Inl _ \<Rightarrow> False
    | Inr None \<Rightarrow> attribution_event_id k version cutoff \<notin> event_ids L
    | Inr (Some j) \<Rightarrow> (\<exists>e. valid_envelope e \<and> en_event_id e = attribution_event_id k version cutoff \<and>
        canonical_text j = canonical_text (dump_envelope e) \<and>
        ingest e L = Inr (\<lparr>ir_status = Duplicate, ir_event_id = en_event_id e, ir_hash = canonical_hash j\<rparr>, L))"
proof (cases "event_at L (attribution_event_id k version cutoff)")
  case None
  then have "attribution_event_id k version cutoff \<notin> event_ids L" by (rule event_at_None [THEN iffD1])
  then show ?thesis unfolding recover_envelope_def None option.case sum.case .
next
  case (Some row)
  obtain j e where j: "recover_envelope L k cutoff version = Inr (Some j)" "valid_envelope e"
    "en_event_id e = attribution_event_id k version cutoff" "canonical_text j = canonical_text (dump_envelope e)"
    and i: "ingest e L = Inr (\<lparr>ir_status = Duplicate, ir_event_id = en_event_id e, ir_hash = e_hash row\<rparr>, L)"
    using recovered [OF assms Some] by blast
  have "e_hash row = envelope_hash e" using i by (auto simp: ingest_def Let_def split: option.splits if_splits)
  then have "e_hash row = canonical_hash j" by (simp add: envelope_hash_def canonical_hash_def j(4))
  then show ?thesis using j i by auto
qed

lemma run_attribution_stored: "event_at run7 (attribution_event_id ''out'' POLICY_VERSION 6) =
    Some ((event_row_of run_attribution)\<lparr>e_seq := 7\<rparr>)"
  by (simp add: event_at_def run7_def run_tables event_row_of_def run_registration_def run_discovery_def
      run_evidence_def run_decision_def run_action_def run_outcome_def run_attribution_def
      run_attribution_id [THEN not_sym])

theorem recover_envelope_exact_witness:
  "\<exists>j e. recover_envelope run7 ''out'' 6 POLICY_VERSION = Inr (Some j) \<and> valid_envelope e \<and>
     canonical_text j = canonical_text (dump_envelope e)"
proof -
  obtain j where j: "recover_envelope run7 ''out'' 6 POLICY_VERSION = Inr (Some j)"
    using recovered [OF run7_reachable run_attribution_stored] by blast
  show ?thesis using recover_envelope_exact [OF run7_reachable, of "''out''" POLICY_VERSION 6] j by auto
qed

text \<open>Retrying a stored operation is answered \<open>duplicate\<close> and writes nothing, whatever attempts are lost,
  provided the decoder reads a canonically equal dictionary as the envelope it came from.\<close>
theorem retry_operation_duplicate:
  assumes "reachable L" "attribution_event_id k version cutoff \<in> event_ids L"
    "\<forall>j e. recover_envelope L k cutoff version = Inr (Some j) \<longrightarrow> valid_envelope e \<longrightarrow>
       canonical_text j = canonical_text (dump_envelope e) \<longrightarrow> decode j = Some e"
  shows "snd (retry_operation decode fates k cutoff version L) = L \<and>
    (fst (retry_operation decode fates k cutoff version L) = Inl RetryTransport \<or>
     (\<exists>res. fst (retry_operation decode fates k cutoff version L) = Inr (Inr res) \<and> ir_status res = Duplicate))"
proof -
  obtain row where "event_at L (attribution_event_id k version cutoff) = Some row"
    using assms(2) event_at_None by fastforce
  from recovered [OF assms(1) this] obtain j e where j: "recover_envelope L k cutoff version = Inr (Some j)"
    "valid_envelope e" "canonical_text j = canonical_text (dump_envelope e)"
    and i: "ingest e L = Inr (\<lparr>ir_status = Duplicate, ir_event_id = en_event_id e, ir_hash = e_hash row\<rparr>, L)"
    by blast
  have d: "decode j = Some e" using assms(3) j by blast
  have r: "respond e L = (Inr \<lparr>ir_status = Duplicate, ir_event_id = en_event_id e, ir_hash = e_hash row\<rparr>, L)"
    using j(2) i by (simp add: respond_def)
  have "submit_from fs e L = (None, L) \<or> submit_from fs e L = (Some (fst (respond e L)), L)" for fs
  proof (induction fs)
    case (Cons f fs)
    then show ?case using r by (cases f) (auto simp: http_status_def)
  qed simp
  then have "submit fates e L = (None, L) \<or> submit fates e L = (Some (fst (respond e L)), L)"
    by (simp add: submit_def)
  then show ?thesis by (auto simp: retry_operation_def j(1) d r)
qed

theorem retry_operation_duplicate_witness:
  "snd (retry_operation (\<lambda>j. Some run_attribution) (\<lambda>n. Answered) ''out'' 6 POLICY_VERSION run7) = run7"
proof -
  have id: "attribution_event_id ''out'' POLICY_VERSION 6 \<in> event_ids run7"
    using run_attribution_stored event_at_None [of run7 "attribution_event_id ''out'' POLICY_VERSION 6"] by auto
  have "e = run_attribution"
    if "recover_envelope run7 ''out'' 6 POLICY_VERSION = Inr (Some j)" "valid_envelope e"
      "canonical_text j = canonical_text (dump_envelope e)" for j e
  proof -
    have "json_loads (e_payload ((event_row_of run_attribution)\<lparr>e_seq := 7\<rparr>)) =
        Some (jnorm (dump_payload (en_payload run_attribution)))"
      unfolding json_loads_def event_row_of_def
      by (simp add: json_loads_canonical plain_payload fields_scalar run_attribution_def del: canonical_text.simps)
    then have "j = stored_envelope ((event_row_of run_attribution)\<lparr>e_seq := 7\<rparr>) (jnorm (dump_payload (en_payload run_attribution)))"
      using that(1) by (simp add: recover_envelope_def run_attribution_stored)
    then have "canonical_text (dump_envelope e) = canonical_text (dump_envelope run_attribution)"
      using that(3) stored_envelope_text [OF refl, of 7 run_attribution] by simp
    then show ?thesis by (rule dump_envelope_inject [OF _ that(2) run_valid_attribution])
  qed
  then show ?thesis
    using retry_operation_duplicate [OF run7_reachable id, of "\<lambda>j. Some run_attribution" "\<lambda>n. Answered"] by blast
qed

end
