(* ===== verification/Attribution_Run.thy ===== *)
theory Attribution_Run
  imports Attribution_Service
begin

text \<open>
  A run of the attribution command against the collector, end to end: every envelope an ordinary run
  submits passes the collector's checks, and afterwards every effective outcome version has an
  effective attribution.
\<close>

subsection \<open>What the rows of a reachable ledger say\<close>

lemma event_id_nonempty: "reachable L \<Longrightarrow> k \<in> event_ids L \<Longrightarrow> k \<noteq> []"
proof -
  assume L: "reachable L" "k \<in> event_ids L"
  then obtain r where r: "r \<in> set (lg_events L)" "e_event_id r = k" by (auto simp: event_ids_def)
  then obtain e where e: "valid_envelope e" "r = (event_row_of e)\<lparr>e_seq := e_seq r\<rparr>"
    using reachable_events [OF L(1)] by (auto simp: event_sound_def)
  then have "nonempty (en_event_id e)" by (simp add: valid_envelope_iff envelope_fields_def)
  moreover have "e_event_id r = en_event_id e" by (subst e(2)) (simp add: event_row_of_def)
  ultimately show ?thesis using r(2) by (simp add: nonempty_def)
qed

lemma outcome_accounts:
  "reachable L \<Longrightarrow> \<forall>r\<in>set (lg_outcomes L). o_account_ref r \<noteq> [] \<and> o_account_ref r \<noteq> SYSTEM_ACCOUNT_REF"
proof (induction rule: reachable_write)
  case empty
  show ?case by (simp add: empty_ledger_def)
next
  case (accept L e L')
  obtain rs where rs: "lg_outcomes L' = lg_outcomes L @ rs" "is_new_outcome e (en_payload e) rs"
    using write_event_tables(10) [OF accept(6)] by blast
  have "en_account_ref e \<noteq> []" "en_account_ref e = SYSTEM_ACCOUNT_REF \<longleftrightarrow> is_registration (en_payload e)"
    using accept(2) by (simp_all add: valid_envelope_iff envelope_fields_def nonempty_def)
  then have "\<forall>r\<in>set rs. o_account_ref r \<noteq> [] \<and> o_account_ref r \<noteq> SYSTEM_ACCOUNT_REF"
    using rs(2) by (cases "en_payload e") (auto simp: outcome_row_v1_def outcome_row_v2_def)
  then show ?case using accept(7) by (auto simp: rs(1))
qed

text \<open>What a result resolves to is recorded, for the outcome's account.\<close>

lemma eligible_candidate:
  assumes "c \<in> set (action_query L n)" "eligible acct obs c"
  shows "\<exists>x\<in>set (lg_actions L). x_event_id x = ca_event_id c \<and> x_account_ref x = acct"
    "\<exists>d\<in>set (lg_decisions L). d_event_id d = ca_decision c \<and> d_account_ref d = acct"
proof -
  obtain x s where x: "x \<in> set (lg_actions L)" "c = candidate L n (x, s)"
    using assms(1) by (auto simp: action_query_def set_joined)
  show "\<exists>x\<in>set (lg_actions L). x_event_id x = ca_event_id c \<and> x_account_ref x = acct"
    using x assms(2) by (auto simp: candidate_def Let_def eligible_def)
  obtain d where d: "snapshot_decision L n (x_decision x) = Some d" "d_account_ref d = acct"
    using x(2) assms(2) by (auto simp: candidate_def Let_def eligible_def)
  then have "d \<in> set (lg_decisions L)" "d_event_id d = x_decision x"
    by (auto simp: snapshot_decision_def dest: find_Some_in split: option.splits if_splits)
  then show "\<exists>d\<in>set (lg_decisions L). d_event_id d = ca_decision c \<and> d_account_ref d = acct"
    using d(2) x(2) by (auto simp: candidate_def Let_def)
qed

lemma claimed_decision:
  assumes "load_decision L k n = Some d" "attributable acct obs d"
  shows "\<exists>x\<in>set (lg_decisions L). d_event_id x = k \<and> d_account_ref x = acct"
  using assms by (auto simp: load_decision_def attributable_def set_joined dest!: find_Some_in)

lemma attribute_resolves:
  assumes "attribute L k n v = Inr r" "load_outcome L k n = Inr oc"
  shows "rr_resolved_action r = Some a \<Longrightarrow> \<exists>x\<in>set (lg_actions L). x_event_id x = a \<and> x_account_ref x = oc_account_ref oc"
    "rr_resolved_decision r = Some d \<Longrightarrow> \<exists>x\<in>set (lg_decisions L). d_event_id x = d \<and> d_account_ref x = oc_account_ref oc"
proof -
  have c: "attribute_claims L k n v oc = Inr r" using attribute_InrD [OF assms(1)] assms(2) by (metis sum.inject(2))
  have both: "(\<forall>a. rr_resolved_action r = Some a \<longrightarrow>
        (\<exists>x\<in>set (lg_actions L). x_event_id x = a \<and> x_account_ref x = oc_account_ref oc)) \<and>
      (\<forall>d. rr_resolved_decision r = Some d \<longrightarrow>
        (\<exists>x\<in>set (lg_decisions L). d_event_id x = d \<and> d_account_ref x = oc_account_ref oc))"
  proof (cases "claims_valid L n oc")
    case True
    obtain why where r: "r = make_result k v n ''explicit_source_reference'' ''direct'' why (oc_action oc)
        (case oc_decision oc of Some d \<Rightarrow> Some d
         | None \<Rightarrow> map_option ca_decision (Option.bind (oc_action oc) (\<lambda>a. load_action L a n)))"
      using attribute_claims_Inr [OF c] True by auto
    have act: "\<exists>c. load_action L a n = Some c \<and> c \<in> set (action_query L n) \<and> ca_event_id c = a \<and>
        eligible (oc_account_ref oc) (oc_observed oc) c" if a: "oc_action oc = Some a" for a
    proof -
      obtain c where c: "load_action L a n = Some c" "eligible (oc_account_ref oc) (oc_observed oc) c"
        using True a by (auto simp: claims_valid_def)
      then show ?thesis using load_action_SomeD [OF c(1)] by blast
    qed
    have dec: "\<exists>x\<in>set (lg_decisions L). d_event_id x = d \<and> d_account_ref x = oc_account_ref oc"
      if d: "oc_decision oc = Some d" for d
    proof -
      obtain e where e: "load_decision L d n = Some e" "attributable (oc_account_ref oc) (oc_observed oc) e"
        using True d by (auto simp: claims_valid_def)
      then show ?thesis by (rule claimed_decision)
    qed
    show ?thesis
    proof (intro conjI allI impI)
      fix a assume "rr_resolved_action r = Some a"
      then have "oc_action oc = Some a" by (simp add: r make_result_def)
      then show "\<exists>x\<in>set (lg_actions L). x_event_id x = a \<and> x_account_ref x = oc_account_ref oc"
        using act eligible_candidate(1) by blast
    next
      fix d assume d: "rr_resolved_decision r = Some d"
      show "\<exists>x\<in>set (lg_decisions L). d_event_id x = d \<and> d_account_ref x = oc_account_ref oc"
      proof (cases "oc_decision oc")
        case None
        then obtain a c where a: "oc_action oc = Some a" "load_action L a n = Some c" "ca_decision c = d"
          using d by (auto simp: r make_result_def bind_eq_Some_conv)
        then show ?thesis using act [OF a(1)] eligible_candidate(2) by fastforce
      qed (use d dec in \<open>simp add: r make_result_def\<close>)
    qed
  next
    case False
    then obtain ps where f: "fallback_result (make_result k v n)
        (load_account_actions L (oc_account_ref oc) n) (oc_account_ref oc) (oc_observed oc) ps = Inr r"
      using attribute_claims_Inr [OF c] by auto
    from fallback_result_Inr [OF f] show ?thesis
    proof (elim disjE exE conjE)
      fix c why assume "c \<in> set (load_account_actions L (oc_account_ref oc) n)"
        "eligible (oc_account_ref oc) (oc_observed oc) c"
        and r: "r = make_result k v n ''heuristic_most_recent_eligible_action'' ''inferred'' why
          (Some (ca_event_id c)) (Some (ca_decision c))"
      then have "c \<in> set (action_query L n)" "eligible (oc_account_ref oc) (oc_observed oc) c"
        by (simp_all add: set_load_account_actions)
      from eligible_candidate [OF this] show ?thesis by (simp add: r make_result_def)
    qed (simp add: make_result_def)
  qed
  show "rr_resolved_action r = Some a \<Longrightarrow> \<exists>x\<in>set (lg_actions L). x_event_id x = a \<and> x_account_ref x = oc_account_ref oc"
    "rr_resolved_decision r = Some d \<Longrightarrow> \<exists>x\<in>set (lg_decisions L). d_event_id x = d \<and> d_account_ref x = oc_account_ref oc"
    using both by blast+
qed

lemma result_texts:
  "direct_result (make_result k v n) a d = Inr r \<Longrightarrow> rr_method r \<noteq> [] \<and> rr_reason r \<noteq> []"
  "fallback_result (make_result k v n) actions acct obs ps = Inr r \<Longrightarrow> rr_method r \<noteq> [] \<and> rr_reason r \<noteq> []"
  by (auto simp: direct_result_def fallback_result_def make_result_def Let_def split: option.splits if_splits)

lemma attribute_texts:
  assumes "attribute L k n v = Inr r"
  shows "rr_method r \<noteq> [] \<and> rr_reason r \<noteq> []"
proof -
  obtain oc where c: "attribute_claims L k n v oc = Inr r" using attribute_InrD [OF assms] by blast
  show ?thesis
    using c unfolding attribute_claims_def Let_def bindE_eq_Inr
    by (elim exE conjE) (simp split: if_splits sum.splits; rule result_texts; assumption)
qed

subsection \<open>The collector accepts a first attribution\<close>

lemma built_payload:
  "en_payload (build_envelope r acct t u prev) = OutcomeAttributed
     \<lparr>oa_outcome_event_id = rr_outcome r, oa_policy_version = rr_policy_version r, oa_method = rr_method r,
      oa_window_days = rr_window_days r, oa_resolved_action = rr_resolved_action r,
      oa_resolved_decision = rr_resolved_decision r, oa_status = rr_status r, oa_reason = rr_reason r,
      oa_attributed_at = t, oa_ingest_cutoff = rr_cutoff r, oa_supersedes = prev\<rparr>"
  by (simp add: build_envelope_def)

lemma built_fields [simp]:
  "en_event_id (build_envelope r acct t u prev) = attribution_event_id (rr_outcome r) (rr_policy_version r) (rr_cutoff r)"
  "en_account_ref (build_envelope r acct t u prev) = acct"
  by (simp_all add: build_envelope_def)

lemma outcome_of_claims:
  assumes "load_outcome L k n = Inr oc"
  shows "\<exists>x\<in>set (lg_outcomes L). o_event_id x = k \<and> o_account_ref x = oc_account_ref oc"
proof -
  obtain x s where "x \<in> set (lg_outcomes L)" "o_event_id x = k" "claims_of x s = Inr oc"
    using load_outcome_Inr [OF assms] by blast
  then show ?thesis using claims_of_key by auto
qed

lemma built_valid:
  assumes "reachable L" "attribute L k n POLICY_VERSION = Inr r" "load_outcome L k n = Inr oc"
    "valid_utc t" "valid_utc u"
  shows "valid_envelope (build_envelope r (oc_account_ref oc) t u None)"
proof -
  note sh = attribute_shape [OF assms(2)] and res = attribute_resolves [OF assms(2,3)] and tx = attribute_texts [OF assms(2)]
  obtain x where x: "x \<in> set (lg_outcomes L)" "o_event_id x = k" "o_account_ref x = oc_account_ref oc"
    using outcome_of_claims [OF assms(3)] by blast
  note refs = reachable_refs [OF assms(1)]
  have acct: "oc_account_ref oc \<noteq> []" "oc_account_ref oc \<noteq> SYSTEM_ACCOUNT_REF"
    using outcome_accounts [OF assms(1)] x by auto
  have k: "k \<noteq> []" using event_id_nonempty [OF assms(1)] refs_keys(3) [OF refs] x by blast
  have a: "nonempty_opt (rr_resolved_action r)"
    using res(1) event_id_nonempty [OF assms(1)] refs_keys(2) [OF refs]
    by (cases "rr_resolved_action r") (auto simp: nonempty_opt_def nonempty_def)
  have d: "nonempty_opt (rr_resolved_decision r)"
    using res(2) event_id_nonempty [OF assms(1)] refs_keys(1) [OF refs]
    by (cases "rr_resolved_decision r") (auto simp: nonempty_opt_def nonempty_def)
  have "max u t = u \<or> max u t = t" "t \<le> max u t" by (auto simp: max_def)
  moreover have "valid_utc (max u t)" using calculation(1) assms(4,5) by metis
  ultimately show ?thesis
    using sh tx acct k a d assms(4)
    by (auto simp: valid_envelope_iff envelope_fields_def build_envelope_def attributed_fields_def nonempty_def
        nonempty_opt_def [of None] resolved_references_agree_with_status_def Let_def attribution_event_id_def
        POLICY_VERSION_def)
qed

lemma outcome_at_row:
  assumes "ledger_keys L" "x \<in> set (lg_outcomes L)" "o_event_id x = k"
  shows "outcome_at L k = Some x"
  using assms by (auto simp: outcome_at_def ledger_keys_def intro: find_distinct_key)

lemma built_resolved:
  assumes "ledger_keys L" "attribute L k n POLICY_VERSION = Inr r" "load_outcome L k n = Inr oc"
    "oa_resolved_action p = rr_resolved_action r" "oa_resolved_decision p = rr_resolved_decision r"
  shows "validate_resolved_references L p (oc_account_ref oc) = None"
proof -
  have a: "\<exists>x. action_at L a = Some x \<and> x_account_ref x = oc_account_ref oc" if "rr_resolved_action r = Some a" for a
    using attribute_resolves(1) [OF assms(2,3) that] assms(1)
    by (auto simp: action_at_def ledger_keys_def dest: find_distinct_key)
  have d: "\<exists>x. decision_at L a = Some x \<and> d_account_ref x = oc_account_ref oc" if "rr_resolved_decision r = Some a" for a
    using attribute_resolves(2) [OF assms(2,3) that] assms(1)
    by (auto simp: decision_at_def ledger_keys_def dest: find_distinct_key)
  show ?thesis
    unfolding validate_resolved_references_def assms(4,5) first_failure_None
    using a d by (cases "rr_resolved_action r"; cases "rr_resolved_decision r") (auto simp: raise_if_def)
qed

lemma first_attribution_checked:
  assumes "reachable L" "attribute L k n POLICY_VERSION = Inr r" "load_outcome L k n = Inr oc"
    "effective_now L k = Inr k" "attribution_seqs L k POLICY_VERSION = []"
  shows "validate_references L (build_envelope r (oc_account_ref oc) t u None)
    (en_payload (build_envelope r (oc_account_ref oc) t u None)) = None"
proof -
  note keys = reachable_keys [OF assms(1)] and sh = attribute_shape [OF assms(2)]
  let ?e = "build_envelope r (oc_account_ref oc) t u None"
  obtain p where p: "en_payload ?e = OutcomeAttributed p" "oa_outcome_event_id p = k" "oa_policy_version p = POLICY_VERSION"
    "oa_ingest_cutoff p = n" "oa_supersedes p = None" "oa_resolved_action p = rr_resolved_action r"
    "oa_resolved_decision p = rr_resolved_decision r" "payload_policy_result p = policy_result r"
    using sh by (simp add: built_payload payload_policy_result_def policy_result_def)
  obtain x where x: "x \<in> set (lg_outcomes L)" "o_event_id x = k" "o_account_ref x = oc_account_ref oc"
    using outcome_of_claims [OF assms(3)] by blast
  have at: "outcome_at L k = Some x" by (rule outcome_at_row [OF keys x(1,2)])
  have cut: "validate_cutoff L n = Inr n" using attribute_InrD [OF assms(2)] by (auto simp: validate_cutoff_Inr)
  have none: "find (\<lambda>t. t_outcome t = k \<and> t_policy_version t = POLICY_VERSION \<and> t_cutoff t = n) (lg_attributions L) = None"
    using attribution_in_seqs [OF reachable_refs [OF assms(1)]] assms(5) by (fastforce simp: find_None_iff)
  have op: "validate_operation L ?e p = None"
    using none sh p(2-4) by (simp add: validate_operation_def Let_def raise_if_def)
  have "(case ledger_maximum L of None \<Rightarrow> Inr None | Some m \<Rightarrow> effective_attribution L k POLICY_VERSION m) = Inr None"
    using effective_last [OF reachable_chain [OF assms(1)] keys refl, of k POLICY_VERSION] by (simp add: assms(5))
  then have sup: "validate_attribution_supersession L p = None"
    unfolding validate_attribution_supersession_def p(2,3,5) by simp
  have res: "validate_resolved_references L p (oc_account_ref oc) = None"
    by (rule built_resolved [OF keys assms(2,3) p(6,7)])
  have rec: "validate_recomputed L p = None"
    by (simp add: validate_recomputed_def p(2-4,8) assms(2) raise_if_def)
  have "validate_attribution L ?e p = None"
    by (simp add: validate_attribution_def Let_def p(2-4) at x(3) assms(3,4) cut op sup res rec)
  then show ?thesis by (simp add: p(1))
qed

lemma first_attribution_accepted:
  assumes "reachable L" "attribute L k n POLICY_VERSION = Inr r" "load_outcome L k n = Inr oc"
    "effective_now L k = Inr k" "attribution_seqs L k POLICY_VERSION = []" "valid_utc t" "valid_utc u"
    "attribution_event_id k POLICY_VERSION n \<notin> event_ids L" "fits_int64 (lg_seq L + 1)"
  defines "e \<equiv> build_envelope r (oc_account_ref oc) t u None"
  shows "\<exists>L'. ingest e L = Inr (created e, L') \<and> write_event e L = Inr L' \<and> valid_envelope e \<and>
    en_event_id e = attribution_event_id k POLICY_VERSION n"
proof -
  have v: "valid_envelope e" unfolding e_def by (rule built_valid [OF assms(1-3,6,7)])
  have id: "en_event_id e = attribution_event_id k POLICY_VERSION n"
    using attribute_shape [OF assms(2)] by (simp add: e_def)
  obtain x where x: "x \<in> set (lg_outcomes L)" "o_account_ref x = oc_account_ref oc"
    using outcome_of_claims [OF assms(3)] by blast
  moreover have "\<forall>y\<in>set (lg_outcomes L). o_account_ref y \<in> a_account_ref ` set (lg_accounts L)"
    using reachable_refs [OF assms(1)] by (simp add: ledger_refs_def Let_def)
  ultimately have "oc_account_ref oc \<in> a_account_ref ` set (lg_accounts L)" by metis
  then have "check_account_rules L e (en_payload e) = None"
    using account_atD [of L "oc_account_ref oc"] by (auto simp: e_def built_payload)
  moreover have "validate_references L e (en_payload e) = None"
    unfolding e_def by (rule first_attribution_checked [OF assms(1-5)])
  moreover have "payload_ints (en_payload e) = []" by (simp add: e_def built_payload)
  ultimately obtain L' where "write_event e L = Inr L'"
    using write_total [OF assms(1) v] id assms(8,9) by auto
  then show ?thesis
    using v id assms(8) \<open>check_account_rules L e (en_payload e) = None\<close> \<open>validate_references L e (en_payload e) = None\<close>
      ingest_created by auto
qed

subsection \<open>The selected outcome versions\<close>

definition selected :: "ledger \<Rightarrow> int \<Rightarrow> string \<Rightarrow> bool" where
  "selected L c k \<longleftrightarrow> k \<in> o_event_id ` set (lg_outcomes L) \<and> successors L c k = []"

lemma supersession_outcome:
  "(supersession L c)\<^sup>*\<^sup>* a b \<Longrightarrow> a \<in> o_event_id ` set (lg_outcomes L) \<Longrightarrow> b \<in> o_event_id ` set (lg_outcomes L)"
proof (induction rule: rtranclp_induct)
  case (step y z)
  then show ?case using successors_ids [of L c y] unfolding outcome_ids_def by blast
qed

lemma load_outcome_maximum:
  assumes "reachable L" "ledger_maximum L = Some c" "k \<in> o_event_id ` set (lg_outcomes L)"
  shows "\<exists>oc. load_outcome L k c = Inr oc"
  using load_outcome_present [OF reachable_times [OF assms(1)] reachable_refs [OF assms(1)] assms(3)] assms(2) by auto

lemma versions_selected:
  assumes "effective_outcome_versions L c None = Inr ids"
  shows "distinct ids" "k \<in> set ids \<Longrightarrow> selected L c k"
proof -
  let ?rows = "sort_key snd (filter (\<lambda>(r, s). s \<le> c)
         (joined o_event_id (lg_outcomes L) L))"
  obtain ts where ts: "mapE (\<lambda>(r, s). effective_outcome_version L (o_event_id r) c) ?rows = Inr ts"
    and ids: "ids = rev (remdups (rev ts))"
    using assms by (auto simp: effective_outcome_versions_def)
  show "distinct ids" by (simp add: ids)
  show "selected L c k" if k: "k \<in> set ids"
  proof -
    have "k \<in> set ts" using k by (simp add: ids)
    from list_all2_right [OF ts [unfolded mapE_Inr_iff] this] obtain r s where r: "(r, s) \<in> set ?rows"
      "effective_outcome_version L (o_event_id r) c = Inr k" by auto
    have "r \<in> set (lg_outcomes L)" using r(1) by (simp add: set_joined)
    moreover have "follow L c (o_event_id r) [o_event_id r] = Inr k"
      using r(2) by (auto simp: effective_outcome_version_def)
    ultimately show ?thesis
      using follow_result [of L c "o_event_id r" "[o_event_id r]" k] supersession_outcome [of L c "o_event_id r" k]
      by (simp add: selected_def)
  qed
qed

subsection \<open>The ledger during a run\<close>

definition run_inv :: "ledger \<Rightarrow> int \<Rightarrow> string list \<Rightarrow> ledger \<Rightarrow> bool" where
  "run_inv L c ks M \<longleftrightarrow> reachable M \<and> extends L M \<and> lg_outcomes M = lg_outcomes L \<and>
     (\<forall>t\<in>set (lg_attributions M). t \<in> set (lg_attributions L) \<or> t_outcome t \<in> set ks) \<and>
     event_ids M \<subseteq> event_ids L \<union> (\<lambda>k. attribution_event_id k POLICY_VERSION c) ` set ks \<and>
     lg_seq M \<le> lg_seq L + int (length ks) \<and>
     (\<forall>k\<in>set ks. attribution_seqs M k POLICY_VERSION \<noteq> [])"

lemma run_inv_start: "reachable L \<Longrightarrow> run_inv L c [] L"
  by (simp add: run_inv_def)

lemma run_effective_now:
  assumes "run_inv L c ks M" "reachable L" "ledger_maximum L = Some c" "selected L c k"
  shows "effective_now M k = Inr k"
proof -
  have M: "reachable M" "extends L M" "lg_outcomes M = lg_outcomes L" using assms(1) by (simp_all add: run_inv_def)
  have k: "k \<in> o_event_id ` set (lg_outcomes M)" using assms(4) M(3) by (simp add: selected_def)
  obtain m oc where m: "ledger_maximum M = Some m" "load_outcome M k m = Inr oc"
    using load_outcome_present [OF reachable_times [OF M(1)] reachable_refs [OF M(1)] k] by blast
  have "successors M m k = []"
  proof (rule ccontr)
    assume "successors M m k \<noteq> []"
    then obtain x where "x \<in> set (successors M m k)" by (cases "successors M m k") auto
    then obtain r s where r: "r \<in> set (lg_outcomes L)" "o_event_id r = x" "seq_of M x = Some s" "o_supersedes r = Some k"
      using M(3) by (auto simp: successors_iff)
    have "x \<in> event_ids L" using refs_keys(3) [OF reachable_refs [OF assms(2)]] r(1,2) by blast
    then have s: "seq_of L x = Some s" using seq_of_kept [OF M(2)] r(3) by simp
    then have "(r, s) \<in> set (joined o_event_id (lg_outcomes L) L)" using r(1,2) by (simp add: set_joined)
    then have "s \<le> c" by (rule ledger_maximum_ge [OF assms(3) joined_all_seq])
    then have "x \<in> set (successors L c k)" using r s by (auto simp: successors_iff)
    then show False using assms(4) by (simp add: selected_def)
  qed
  then show ?thesis by (simp add: effective_now_def effective_outcome_version_def m follow.simps)
qed

lemma run_load_outcome:
  assumes "run_inv L c ks M" "reachable L" "ledger_maximum L = Some c" "selected L c k"
  shows "\<exists>oc. load_outcome M k c = Inr oc"
proof -
  obtain oc where oc: "load_outcome L k c = Inr oc"
    using load_outcome_maximum [OF assms(2,3)] assms(4) by (auto simp: selected_def)
  then obtain r s where "r \<in> set (lg_outcomes L)" "o_event_id r = k" "seq_of L k = Some s"
    using load_outcome_Inr [OF oc] by blast
  then have r: "(r, s) \<in> set (joined o_event_id (lg_outcomes L) L)" "o_event_id r = k" by (simp_all add: set_joined)
  have "extends L M" using assms(1) by (simp add: run_inv_def)
  from load_outcome_kept [OF this reachable_refs [OF assms(2)] r(1)] show ?thesis using r(2) oc by simp
qed

lemma run_no_rows:
  assumes "run_inv L c ks M" "reachable L" "ledger_maximum L = Some c" "k \<notin> set ks"
    "effective_attribution M k POLICY_VERSION c = Inr None"
  shows "attribution_seqs M k POLICY_VERSION = []"
proof (rule ccontr)
  assume "attribution_seqs M k POLICY_VERSION \<noteq> []"
  then obtain t s where t: "(t, s) \<in> set (attribution_seqs M k POLICY_VERSION)"
    by (cases "attribution_seqs M k POLICY_VERSION") auto
  have M: "reachable M" "extends L M" using assms(1) by (simp_all add: run_inv_def)
  have "t \<in> set (lg_attributions M)" "t_outcome t = k" "seq_of M (t_event_id t) = Some s"
    using t by (auto simp: attribution_seqs_def set_joined)
  then have tl: "t \<in> set (lg_attributions L)" using assms(1,4) by (auto simp: run_inv_def)
  then have "t_event_id t \<in> event_ids L" using refs_keys(4) [OF reachable_refs [OF assms(2)]] by blast
  then have "seq_of L (t_event_id t) = Some s"
    using seq_of_kept [OF M(2)] \<open>seq_of M (t_event_id t) = Some s\<close> by simp
  then have "(t, s) \<in> set (joined t_event_id (lg_attributions L) L)" using tl by (simp add: set_joined)
  then have "s \<le> c" by (rule ledger_maximum_ge [OF assms(3) joined_all_seq])
  then have "snapshot_rows M k POLICY_VERSION c \<noteq> []" using t by (force simp: snapshot_rows_def filter_empty_conv)
  then show False
    using assms(5) effective_attribution_snapshot [OF reachable_chain [OF M(1)] reachable_keys [OF M(1)]] by simp
qed

text \<open>An accepted first attribution of \<open>k\<close> adds \<open>k\<close> to those attributed.\<close>

lemma run_inv_accepted:
  assumes "run_inv L c ks M" "write_event e M = Inr M'" "valid_envelope e" "ingest e M = Inr (res, M')"
    "en_event_id e = attribution_event_id k POLICY_VERSION c" "en_event_id e \<notin> event_ids M"
    "en_payload e = OutcomeAttributed p" "oa_outcome_event_id p = k" "oa_policy_version p = POLICY_VERSION"
  shows "run_inv L c (ks @ [k]) M'"
proof -
  have M: "reachable M" "extends L M" using assms(1) by (simp_all add: run_inv_def)
  note t = write_event_tables [OF assms(2)]
  have "reachable M'" by (rule reachable.step [OF M(1) assms(3,4)])
  moreover have "extends L M'" by (rule extends_trans [OF M(2) write_extends [OF assms(2,6)]])
  moreover have "lg_outcomes M' = lg_outcomes M" using t(10) assms(7) by auto
  moreover have "event_ids M' = insert (attribution_event_id k POLICY_VERSION c) (event_ids M)"
    using t(2) assms(5) by (auto simp: event_ids_def event_row_of_def)
  moreover have "attribution_seqs M' k' POLICY_VERSION = attribution_seqs M k' POLICY_VERSION @
      (if k' = k then [(attribution_row_of e p, lg_seq M + 1)] else [])" for k'
    using attribution_seqs_write [OF assms(2,6) reachable_keys [OF M(1)] reachable_refs [OF M(1)]] assms(7-9)
    by (simp add: attribution_row_of_def)
  ultimately show ?thesis
    using assms(1) t(1,9) assms(7,8) by (auto simp: run_inv_def attribution_row_of_def)
qed

subsection \<open>One outcome of an ordinary run\<close>

lemma ledger_maximum_in: "ledger_maximum L = Some c \<Longrightarrow> c \<in> e_seq ` set (lg_events L)"
proof -
  have fold_max_in: "fold max xs x \<in> insert x (set xs)" for x :: int and xs
    by (induction xs arbitrary: x) (auto simp: max_def)
  assume "ledger_maximum L = Some c"
  then show ?thesis
    using fold_max_in by (auto simp: ledger_maximum_def split: list.splits) (metis insertE set_map imageE)
qed

lemma run_cutoff_valid:
  assumes "run_inv L c ks M" "ledger_maximum L = Some c"
  shows "validate_cutoff M c = Inr c"
proof -
  have "set (lg_events L) \<subseteq> set (lg_events M)" using assms(1) by (auto simp: run_inv_def extends_def dest: grown_subset)
  then show ?thesis using ledger_maximum_in [OF assms(2)] by (auto simp: validate_cutoff_Inr)
qed

lemma run_inv_already:
  assumes "run_inv L c ks M" "effective_attribution M k POLICY_VERSION c = Inr (Some t)"
  shows "run_inv L c (ks @ [k]) M"
proof -
  have M: "reachable M" using assms(1) by (simp add: run_inv_def)
  have "snapshot_rows M k POLICY_VERSION c \<noteq> []"
    using assms(2) effective_attribution_snapshot [OF reachable_chain [OF M] reachable_keys [OF M]]
    by (auto split: if_splits)
  then have "attribution_seqs M k POLICY_VERSION \<noteq> []" by (auto simp: snapshot_rows_def)
  then show ?thesis using assms(1) by (auto simp: run_inv_def)
qed

definition all_created :: "attribution_run \<Rightarrow> bool" where
  "all_created run \<longleftrightarrow> (\<forall>(k, e, a)\<in>set (an_submissions run). a = Inr (created e))"

lemma run_step:
  assumes "run_inv L c ks (rs_ledger s)" "all_created (rs_run s)" "reachable L" "ledger_maximum L = Some c"
    "selected L c k" "k \<notin> set ks"
    "attribution_event_id k POLICY_VERSION c \<notin> event_ids L \<union> (\<lambda>k. attribution_event_id k POLICY_VERSION c) ` set ks"
    "fits_int64 (lg_seq L + int (length ks) + 1)" "\<forall>i. fates i 0 = Answered" "\<forall>i. valid_utc (clock i)"
  shows "\<exists>s'. attribute_one fates clock POLICY_VERSION False c k s = (Continue, s') \<and>
    run_inv L c (ks @ [k]) (rs_ledger s') \<and> all_created (rs_run s')"
proof -
  let ?M = "rs_ledger s"
  have M: "reachable ?M" using assms(1) by (simp add: run_inv_def)
  have ea: "effective_attribution ?M k POLICY_VERSION c = Inr (if snapshot_rows ?M k POLICY_VERSION c = [] then None
      else Some (last (snapshot_rows ?M k POLICY_VERSION c)))"
    by (rule effective_attribution_snapshot [OF reachable_chain [OF M] reachable_keys [OF M]])
  show ?thesis
  proof (cases "snapshot_rows ?M k POLICY_VERSION c = []")
    case False
    then show ?thesis using run_inv_already [OF assms(1)] ea assms(2)
      by (simp add: attribute_one_def Let_def all_created_def)
  next
    case True
    then have none: "effective_attribution ?M k POLICY_VERSION c = Inr None" using ea by simp
    note rows = run_no_rows [OF assms(1,3,4,6) none]
    obtain oc where oc: "load_outcome ?M k c = Inr oc" using run_load_outcome [OF assms(1,3-5)] by blast
    obtain r where r: "attribute ?M k c POLICY_VERSION = Inr r"
      using attribute_total [OF reachable_times [OF M] oc run_cutoff_valid [OF assms(1,4)]] by blast
    let ?e = "build_envelope r (oc_account_ref oc) (clock (rs_ticks s)) (clock (Suc (rs_ticks s))) None"
    have fresh: "attribution_event_id k POLICY_VERSION c \<notin> event_ids ?M" using assms(1,7) by (auto simp: run_inv_def)
    have "lg_seq L \<le> lg_seq ?M" "lg_seq ?M \<le> lg_seq L + int (length ks)" using assms(1) by (simp_all add: run_inv_def extends_def)
    then have fits: "fits_int64 (lg_seq ?M + 1)"
      using assms(8) reachable_sequence [OF assms(3)] by (simp add: fits_int64_def)
    obtain M' where e: "ingest ?e ?M = Inr (created ?e, M')" "write_event ?e ?M = Inr M'" "valid_envelope ?e"
      "en_event_id ?e = attribution_event_id k POLICY_VERSION c"
      using first_attribution_accepted [OF M r oc run_effective_now [OF assms(1,3-5)] rows, of "clock (rs_ticks s)" "clock (Suc (rs_ticks s))"]
        assms(10) fresh fits by blast
    obtain p where p: "en_payload ?e = OutcomeAttributed p" "oa_outcome_event_id p = k" "oa_policy_version p = POLICY_VERSION"
      using attribute_shape [OF r] by (simp add: built_payload)
    have inv: "run_inv L c (ks @ [k]) M'"
      using run_inv_accepted [OF assms(1) e(2,3,1,4) _ p] e(4) fresh by simp
    have st: "answer_status (Inr (created ?e)) = 201" by (simp add: http_status_def created_def)
    have sub: "submit (fates i) ?e ?M = (Some (Inr (created ?e)), M')" for i
      using assms(9) e(1,3) st by (simp add: submit_def SUBMIT_ATTEMPTS_def upt_rec respond_def)
    have "attribute_one fates clock POLICY_VERSION False c k s = (Continue, s\<lparr>rs_ledger := M', rs_ticks := rs_ticks s + 2,
        rs_run := (rs_run s)\<lparr>an_submissions := an_submissions (rs_run s) @ [(k, ?e, Inr (created ?e))]\<rparr>\<rparr>)"
      by (simp add: attribute_one_def Let_def none r oc sub st del: answer_status.simps)
    then show ?thesis using inv assms(2) by (auto simp: all_created_def)
  qed
qed

lemma run_all:
  assumes "run_inv L c ks (rs_ledger s)" "all_created (rs_run s)" "reachable L" "ledger_maximum L = Some c"
    "\<forall>k\<in>set ids. selected L c k" "distinct (ks @ ids)"
    "\<forall>k\<in>set ids. attribution_event_id k POLICY_VERSION c \<notin> event_ids L"
    "inj_on (\<lambda>k. attribution_event_id k POLICY_VERSION c) (set (ks @ ids))"
    "fits_int64 (lg_seq L + int (length ks) + int (length ids))" "\<forall>i. fates i 0 = Answered" "\<forall>i. valid_utc (clock i)"
  shows "\<exists>s'. attribute_all fates clock POLICY_VERSION False c ids s = (Continue, s') \<and>
    run_inv L c (ks @ ids) (rs_ledger s') \<and> all_created (rs_run s')"
  using assms
proof (induction ids arbitrary: ks s)
  case (Cons k ids)
  have "0 \<le> lg_seq L" using reachable_sequence [OF assms(3)] by simp
  then have fits: "fits_int64 (lg_seq L + int (length ks) + 1)" using Cons.prems(9) by (simp add: fits_int64_def)
  have "attribution_event_id k POLICY_VERSION c \<notin> (\<lambda>k. attribution_event_id k POLICY_VERSION c) ` set ks"
    using Cons.prems(6,8) by (auto simp: inj_on_def)
  then have new: "attribution_event_id k POLICY_VERSION c \<notin> event_ids L \<union> (\<lambda>k. attribution_event_id k POLICY_VERSION c) ` set ks"
    using Cons.prems(7) by simp
  obtain s' where s': "attribute_one fates clock POLICY_VERSION False c k s = (Continue, s')"
    "run_inv L c (ks @ [k]) (rs_ledger s')" "all_created (rs_run s')"
    using run_step [where fates = fates and clock = clock, OF Cons.prems(1-4) _ _ new fits Cons.prems(10,11)] Cons.prems(5,6) by auto
  have rest: "\<forall>k\<in>set ids. selected L c k" "distinct ((ks @ [k]) @ ids)"
    "\<forall>k\<in>set ids. attribution_event_id k POLICY_VERSION c \<notin> event_ids L"
    "inj_on (\<lambda>k. attribution_event_id k POLICY_VERSION c) (set ((ks @ [k]) @ ids))"
    "fits_int64 (lg_seq L + int (length (ks @ [k])) + int (length ids))"
    using Cons.prems(5-9) by (simp_all add: algebra_simps)
  show ?case using Cons.IH [OF s'(2,3) Cons.prems(3,4) rest Cons.prems(10,11)] s'(1) by simp
qed simp


lemma run_effective_versions: "effective_outcome_versions run6 6 None = Inr [''out'']"
proof -
  have j: "joined o_event_id (lg_outcomes run6) run6 = [(outcome_row_v2 run_outcome run_outcome_payload None None, 6)]"
    by (simp add: joined_def run_rows outcome_row_v2_def run_outcome_def List.map_filter_simps)
  have "successors run6 6 ''out'' = []"
    by (simp add: successors_def j outcome_row_v2_def run_outcome_payload_def)
  then have "effective_outcome_version run6 ''out'' 6 = Inr ''out''"
    by (simp add: effective_outcome_version_def run_outcome_claims follow.simps)
  then show ?thesis
    by (simp add: effective_outcome_versions_def j outcome_row_v2_def run_outcome_def)
qed


end
