(* ===== verification/Hubspot_Contracts.thy ===== *)
theory Hubspot_Contracts
  imports Schema_Json
begin

text \<open>
  \<open>adapters/hubspot/contracts.py\<close> and \<open>identity.py\<close>: strict reading of a source notification, the
  identity of a processing unit, the supplied result of a read, ownership and frozen captures.
  A body is UTF-8 text.  Python's floats enter through the parameter \<open>fl\<close>: the text of
  \<open>repr(float(token))\<close>, or \<open>None\<close> when the number overflows.  Messages of exceptions become constructors.
\<close>

subsection \<open>Exceptions\<close>

datatype mapping_problem =
    WriteBackProperty string
  | UnsupportedProperty string
  | IgnoredAndUnavailable "string list"
  | UnavailableWithValue string
  | IgnoredNotSupplied string
  | BadInput string

text \<open>\<open>CaptureRefused\<close>, one constructor for each place that raises it.\<close>

datatype refusal =
    KeyCollision string
  | RawCollision string
  | UnknownLineage string
  | UnitConflict string
  | AlreadyCaptured string
  | Busy string int
  | StaleFence int string
  | DifferentUnit
  | OwnershipMismatch
  | InvalidCapture
  | InvalidMapping mapping_problem
  | UnsupportedMapping string
  | NoUsableInputs
  | NaiveTime string
  | InvalidInterval
  | NotAReadResult
  | NotARule
  | UnavailableTime string
  | AfterBoundary string
  | InvalidReadResult string
  | NotCanonical
  | NotKnownAbandoned

text \<open>What an operation of the adapter raises: a refusal, or any other exception.\<close>

datatype failure = Refused refusal | Crashed

text \<open>The \<open>ValueError\<close>s of the constructors below.\<close>

datatype value_error =
    NotAnObject
  | NotStrictJson
  | PayloadDiffers
  | UnsupportedFields "string list"
  | MissingFields "string list"
  | NoSubscriptionType
  | TypesConflict
  | UnsupportedType
  | BadPropertyName
  | BadOccurredAt
  | BadIdentifier string
  | BadChangeSource
  | BadText string
  | ReprocessesItself
  | BadArtifactHash

subsection \<open>Strict JSON\<close>

definition NON_FINITE :: "string list" where
  "NON_FINITE = [''NaN'', ''Infinity'', ''-Infinity'']"

fun floats :: "json \<Rightarrow> string list" where
  "floats (JFloat t) = [t]"
| "floats (JList xs) = concat (map floats xs)"
| "floats (JObj kvs) = concat (map (\<lambda>(k, v). floats v) kvs)"
| "floats j = []"

fun map_floats :: "(string \<Rightarrow> string) \<Rightarrow> json \<Rightarrow> json" where
  "map_floats f (JFloat t) = JFloat (f t)"
| "map_floats f (JList xs) = JList (map (map_floats f) xs)"
| "map_floats f (JObj kvs) = JObj (map (\<lambda>(k, v). (k, map_floats f v)) kvs)"
| "map_floats f j = j"

definition float_value :: "(string \<Rightarrow> string option) \<Rightarrow> string \<Rightarrow> string" where
  "float_value fl t =
     (if t \<in> set NON_FINITE then t
      else case fl t of
          Some u \<Rightarrow> u
        | None \<Rightarrow> if starts ''-'' t then ''-Infinity'' else ''Infinity'')"

text \<open>\<open>allow_nan=False\<close>: the values \<open>canonical_bytes\<close> accepts.\<close>

definition finite_json :: "json \<Rightarrow> bool" where
  "finite_json j \<longleftrightarrow> (\<forall>t\<in>set (floats j). t \<notin> set NON_FINITE)"

text \<open>\<open>json.loads\<close> with the values of its floats, and the strict reader.\<close>

definition loads :: "(string \<Rightarrow> string option) \<Rightarrow> string \<Rightarrow> json option" where
  "loads fl text = map_option (map_floats (float_value fl)) (json_loads text)"

definition strict_json_loads :: "(string \<Rightarrow> string option) \<Rightarrow> string \<Rightarrow> json option" where
  "strict_json_loads fl raw =
     (case json_loads_gen Strict raw of
        None \<Rightarrow> None
      | Some j \<Rightarrow>
          (let v = map_floats (float_value fl) j in if finite_json v then Some v else None))"

text \<open>The documented law of \<open>repr\<close>: its text is a number token that reads back as the same float.\<close>

definition repr_law :: "(string \<Rightarrow> string option) \<Rightarrow> bool" where
  "repr_law fl \<longleftrightarrow> (\<forall>t u. fl t = Some u \<longrightarrow> float_token u \<and> fl u = Some u)"

fun same_float :: "string \<Rightarrow> string \<Rightarrow> bool" where
  "same_float a b \<longleftrightarrow> a \<noteq> ''NaN'' \<and> (a = b \<or> a \<in> {''0.0'', ''-0.0''} \<and> b \<in> {''0.0'', ''-0.0''})"

lemma zip_size [termination_simp]: "(v, w) \<in> set (zip a b) \<Longrightarrow> size v < Suc (size_list size a)"
  using size_list_estimation' [of v a "size v" size] by (auto dest: set_zip_leftD simp: less_Suc_eq_le)

fun typed_equal :: "json \<Rightarrow> json \<Rightarrow> bool" where
  "typed_equal (JObj a) (JObj b) \<longleftrightarrow>
     fst ` set a = fst ` set b \<and>
     (\<forall>(k, v)\<in>set a. case map_of b k of None \<Rightarrow> False | Some w \<Rightarrow> typed_equal v w)"
| "typed_equal (JList a) (JList b) \<longleftrightarrow> length a = length b \<and> (\<forall>(v, w)\<in>set (zip a b). typed_equal v w)"
| "typed_equal (JFloat a) (JFloat b) \<longleftrightarrow> same_float a b"
| "typed_equal a b \<longleftrightarrow> a = b"

subsection \<open>Source notifications\<close>

definition SOURCE :: string where "SOURCE = ''hubspot''"

definition SUPPORTED_SUBSCRIPTION_TYPE :: string where
  "SUPPORTED_SUBSCRIPTION_TYPE = ''company.propertyChange''"

definition REQUIRED_KEYS :: "string list" where
  "REQUIRED_KEYS = [''portalId'', ''appId'', ''subscriptionId'', ''objectId'', ''propertyName'',
     ''propertyValue'', ''occurredAt'', ''eventId'']"

definition TYPE_ALIASES :: "string list" where
  "TYPE_ALIASES = [''subscriptionType'', ''eventType'']"

definition OPTIONAL_SEMANTIC_KEYS :: "string list" where
  "OPTIONAL_SEMANTIC_KEYS = [''changeSource'']"

definition ATTEMPT_METADATA_KEYS :: "string list" where
  "ATTEMPT_METADATA_KEYS = [''attemptNumber'', ''messageId'', ''messageType'']"

definition KNOWN_KEYS :: "string list" where
  "KNOWN_KEYS = REQUIRED_KEYS @ TYPE_ALIASES @ OPTIONAL_SEMANTIC_KEYS @ ATTEMPT_METADATA_KEYS"

text \<open>The normalized body; \<open>sb_change_source\<close> is \<open>None\<close> when the key is absent.\<close>

record semantic_body =
  sb_portal_id :: json
  sb_app_id :: json
  sb_subscription_id :: json
  sb_object_id :: json
  sb_property_name :: string
  sb_property_value :: json
  sb_occurred_at :: int
  sb_event_id :: json
  sb_change_source :: "json option"

record source_notification =
  sn_raw_body :: string
  sn_body :: semantic_body

definition body_json :: "semantic_body \<Rightarrow> json" where
  "body_json b = JObj
     ([(''namespace'', JObj
         [(''source'', JStr SOURCE), (''portal_id'', sb_portal_id b), (''app_id'', sb_app_id b),
          (''subscription_id'', sb_subscription_id b),
          (''subscription_type'', JStr SUPPORTED_SUBSCRIPTION_TYPE)]),
       (''object_id'', sb_object_id b), (''property_name'', JStr (sb_property_name b)),
       (''property_value'', sb_property_value b), (''occurred_at'', JInt (sb_occurred_at b)),
       (''event_id'', sb_event_id b)] @
      (case sb_change_source b of None \<Rightarrow> [] | Some c \<Rightarrow> [(''change_source'', c)]))"

definition semantic_json :: "source_notification \<Rightarrow> string" where
  "semantic_json n = canonical_text (body_json (sn_body n))"

definition identifier_of :: "string \<Rightarrow> json \<Rightarrow> value_error + json" where
  "identifier_of name value =
     (case value of
        JInt i \<Rightarrow> Inr value
      | JStr s \<Rightarrow> if s \<noteq> [] then Inr value else Inl (BadIdentifier name)
      | _ \<Rightarrow> Inl (BadIdentifier name))"

text \<open>The dictionary literal of \<open>from_payload\<close>, its fields evaluated in order.\<close>

definition read_body :: "(string \<times> json) list \<Rightarrow> string \<Rightarrow> int \<Rightarrow> value_error + semantic_body" where
  "read_body p name at =
     (let item = (\<lambda>k. case map_of p k of None \<Rightarrow> JNull | Some v \<Rightarrow> v) in
      bindE (identifier_of ''portalId'' (item ''portalId'')) (\<lambda>portal.
      bindE (identifier_of ''appId'' (item ''appId'')) (\<lambda>app.
      bindE (identifier_of ''subscriptionId'' (item ''subscriptionId'')) (\<lambda>sub.
      bindE (identifier_of ''objectId'' (item ''objectId'')) (\<lambda>obj.
      bindE (identifier_of ''eventId'' (item ''eventId'')) (\<lambda>evt.
        let body = (\<lambda>c. \<lparr>sb_portal_id = portal, sb_app_id = app, sb_subscription_id = sub, sb_object_id = obj,
              sb_property_name = name, sb_property_value = item ''propertyValue'', sb_occurred_at = at,
              sb_event_id = evt, sb_change_source = c\<rparr>)
        in case map_of p ''changeSource'' of
             None \<Rightarrow> Inr (body None)
           | Some JNull \<Rightarrow> Inr (body (Some JNull))
           | Some (JStr s) \<Rightarrow> Inr (body (Some (JStr s)))
           | Some _ \<Rightarrow> Inl BadChangeSource))))))"

definition from_payload :: "(string \<Rightarrow> string option) \<Rightarrow> json \<Rightarrow> string \<Rightarrow> value_error + source_notification" where
  "from_payload fl payload raw =
     (case payload of
        JObj p \<Rightarrow>
          (case strict_json_loads fl raw of
             None \<Rightarrow> Inl NotStrictJson
           | Some parsed \<Rightarrow>
               let unknown = sort (filter (\<lambda>k. k \<notin> set KNOWN_KEYS) (map fst p));
                   missing = filter (\<lambda>k. map_of p k = None) REQUIRED_KEYS;
                   aliases = List.map_filter (map_of p) TYPE_ALIASES
               in if \<not> typed_equal parsed payload then Inl PayloadDiffers
                  else if unknown \<noteq> [] then Inl (UnsupportedFields unknown)
                  else if missing \<noteq> [] then Inl (MissingFields missing)
                  else if aliases = [] then Inl NoSubscriptionType
                  else if \<exists>a\<in>set aliases. \<not> typed_equal a (hd aliases) then Inl TypesConflict
                  else if hd aliases \<noteq> JStr SUPPORTED_SUBSCRIPTION_TYPE then Inl UnsupportedType
                  else (case map_of p ''propertyName'' of
                      Some (JStr name) \<Rightarrow>
                        if name = [] then Inl BadPropertyName
                        else (case map_of p ''occurredAt'' of
                            Some (JInt at) \<Rightarrow>
                              bindE (read_body p name at) (\<lambda>b. Inr \<lparr>sn_raw_body = raw, sn_body = b\<rparr>)
                          | _ \<Rightarrow> Inl BadOccurredAt)
                    | _ \<Rightarrow> Inl BadPropertyName))
      | _ \<Rightarrow> Inl NotAnObject)"

subsection \<open>Processing identity\<close>

record processing_unit =
  pu_notification :: source_notification
  pu_mapping_identity :: string
  pu_selection_identity :: string
  pu_adapter_identity :: string
  pu_reprocesses :: "string option"

definition logical_key :: "source_notification \<Rightarrow> string" where
  "logical_key n = canonical_hash (body_json (sn_body n))"

definition processing_version :: "processing_unit \<Rightarrow> string" where
  "processing_version u = canonical_hash (JObj
     [(''mapping_identity'', JStr (pu_mapping_identity u)),
      (''selection_identity'', JStr (pu_selection_identity u)),
      (''adapter_identity'', JStr (pu_adapter_identity u))])"

definition unit_id :: "processing_unit \<Rightarrow> string" where
  "unit_id u = canonical_hash (JObj
     [(''logical_key'', JStr (logical_key (pu_notification u))),
      (''processing_version'', JStr (processing_version u))])"

definition company_key :: "processing_unit \<Rightarrow> string" where
  "company_key u =
     (let b = sn_body (pu_notification u) in canonical_text (JList [sb_portal_id b, sb_object_id b]))"

text \<open>\<open>ProcessingUnit(...)\<close>: the checks of \<open>__post_init__\<close>.\<close>

definition make_unit ::
    "source_notification \<Rightarrow> string \<Rightarrow> string \<Rightarrow> string \<Rightarrow> string option \<Rightarrow> value_error + processing_unit" where
  "make_unit n m s a r =
     (let u = \<lparr>pu_notification = n, pu_mapping_identity = m, pu_selection_identity = s,
                pu_adapter_identity = a, pu_reprocesses = r\<rparr>
      in case first_failure
           [raise_if (m = []) (BadText ''mapping_identity''),
            raise_if (s = []) (BadText ''selection_identity''),
            raise_if (a = []) (BadText ''adapter_identity''),
            raise_if (r = Some []) (BadText ''reprocesses''),
            raise_if (r = Some (unit_id u)) ReprocessesItself] of
         Some e \<Rightarrow> Inl e
       | None \<Rightarrow> Inr u)"

record rule_identity =
  ri_artifact_hash :: string
  ri_evaluator_version :: string

definition make_rule :: "string \<Rightarrow> string \<Rightarrow> value_error + rule_identity" where
  "make_rule h v =
     (if \<not> sha256_hex_string h then Inl BadArtifactHash
      else if v = [] then Inl (BadText ''evaluator_version'')
      else Inr \<lparr>ri_artifact_hash = h, ri_evaluator_version = v\<rparr>)"

subsection \<open>The result of a read\<close>

text \<open>
  A supplied time is an arbitrary object: \<open>None\<close> stands for one that is not a \<open>datetime\<close>.
\<close>

record read_result =
  rd_properties :: "(string \<times> json) list"
  rd_available_at :: "(string \<times> py_datetime option) list"
  rd_ignored :: "string list"
  rd_unavailable :: "string list"

definition name_tuple :: "string \<Rightarrow> string list \<Rightarrow> failure + string list" where
  "name_tuple name values =
     (if \<not> distinct values then Inl (Refused (InvalidReadResult name)) else Inr (sort values))"

definition make_read_result ::
    "(string \<times> json) list \<Rightarrow> (string \<times> py_datetime option) list \<Rightarrow> string list \<Rightarrow> string list \<Rightarrow> failure + read_result" where
  "make_read_result properties available_at ignored unavailable =
     bindE (name_tuple ''ignored'' ignored) (\<lambda>ig.
     bindE (name_tuple ''unavailable'' unavailable) (\<lambda>un.
       Inr \<lparr>rd_properties = properties, rd_available_at = available_at, rd_ignored = ig, rd_unavailable = un\<rparr>))"

subsection \<open>Ownership and captures\<close>

record capture_ownership =
  co_company_key :: string
  co_unit_id :: string
  co_generation :: int

text \<open>A \<open>FrozenCapture\<close> is its canonical bytes; its document is decoded on every access.\<close>

type_synonym frozen_capture = string

definition from_document :: "json \<Rightarrow> failure + frozen_capture" where
  "from_document d = (if finite_json d then Inr (canonical_text d) else Inl (Refused NotCanonical))"

definition document :: "(string \<Rightarrow> string option) \<Rightarrow> frozen_capture \<Rightarrow> json option" where
  "document fl c = loads fl c"

subsection \<open>Typed equality is canonical identity\<close>

lemma distinct_jnorm_keys:
  fixes kvs :: "(string \<times> json) list"
  shows "distinct (map fst (sort_key fst (map (\<lambda>(k, v). (k, jnorm v)) kvs))) \<longleftrightarrow> distinct (map fst kvs)"
proof -
  have s: "distinct (map fst (sort_key fst ys)) \<longleftrightarrow> distinct (map fst ys)" for ys :: "(string \<times> json) list"
    by (simp add: distinct_map)
  show ?thesis unfolding s by (simp add: case_prod_beta comp_def)
qed

lemma map_of_jnorm:
  assumes "distinct (map fst kvs)"
  shows "map_of (sort_key fst (map (\<lambda>(k, v). (k, jnorm v)) kvs)) k = map_option jnorm (map_of kvs k)"
proof -
  have "distinct (map fst (map (\<lambda>(k, v). (k, jnorm v)) kvs))" using assms by (simp add: case_prod_beta comp_def)
  then show ?thesis by (simp only: map_of_sort_key map_of_map_jnorm)
qed

lemma keys_jnorm: "fst ` set (sort_key fst (map (\<lambda>(k, v). (k, jnorm v)) kvs)) = fst ` set kvs"
  by force

lemma typed_equal_jnorm_eq: "readable a \<Longrightarrow> readable b \<Longrightarrow> jnorm a = jnorm b \<Longrightarrow> typed_equal a b"
proof (induction a arbitrary: b)
  case (JObj kvs)
  from JObj.prems(3) obtain lvs where b: "b = JObj lvs" by (cases b) auto
  have d: "distinct (map fst kvs)" "distinct (map fst lvs)" using JObj.prems b by simp_all
  have n: "sort_key fst (map (\<lambda>(k, v). (k, jnorm v)) kvs) = sort_key fst (map (\<lambda>(k, v). (k, jnorm v)) lvs)"
    using JObj.prems(3) b by simp
  have keys: "fst ` set kvs = fst ` set lvs" using arg_cong [OF n, of "\<lambda>xs. fst ` set xs"] by (simp only: keys_jnorm)
  have "\<exists>w. map_of lvs k = Some w \<and> typed_equal v w" if kv: "(k, v) \<in> set kvs" for k v
  proof -
    have "map_of kvs k = Some v" using d(1) kv by simp
    moreover have "map_option jnorm (map_of kvs k) = map_option jnorm (map_of lvs k)"
      using arg_cong [OF n, of "\<lambda>xs. map_of xs k"] by (simp only: map_of_jnorm [OF d(1)] map_of_jnorm [OF d(2)])
    ultimately obtain w where w: "map_of lvs k = Some w" "jnorm v = jnorm w" by (cases "map_of lvs k") auto
    have "(k, w) \<in> set lvs" using w(1) by (rule map_of_SomeD)
    then have "readable v" "readable w" using JObj.prems(1,2) kv b by auto
    then show ?thesis using JObj.IH [OF kv, of v w] w by simp
  qed
  then show ?case using keys by (fastforce simp: b)
next
  case (JList xs)
  from JList.prems(3) obtain ys where b: "b = JList ys" by (cases b) auto
  have m: "map jnorm xs = map jnorm ys" using JList.prems(3) b by simp
  then have len: "length xs = length ys" by (rule map_eq_imp_length_eq)
  have "typed_equal v w" if vw: "(v, w) \<in> set (zip xs ys)" for v w
  proof -
    obtain i where i: "i < length xs" "v = xs ! i" "w = ys ! i" using vw len by (auto simp: set_zip)
    then have "jnorm v = jnorm w" using arg_cong [OF m, of "\<lambda>zs. zs ! i"] len by simp
    moreover have "v \<in> set xs" "w \<in> set ys" using vw by (auto dest: set_zip_leftD set_zip_rightD)
    ultimately show ?thesis using JList.IH [of v w] JList.prems(1,2) b by simp
  qed
  then show ?case using len by (auto simp: b)
next
  case (JFloat t)
  then have "t \<noteq> ''NaN''" using float_token_first [of t] by (auto simp: is_digit_def)
  then show ?case using JFloat.prems(3) by (cases b) auto
qed (case_tac b; simp)+

lemma typed_equal_plain_iff: "plain a \<Longrightarrow> plain b \<Longrightarrow> typed_equal a b \<longleftrightarrow> jnorm a = jnorm b"
proof
  show "plain a \<Longrightarrow> plain b \<Longrightarrow> jnorm a = jnorm b \<Longrightarrow> typed_equal a b"
    using typed_equal_jnorm_eq plain_readable by blast
  show "plain a \<Longrightarrow> plain b \<Longrightarrow> typed_equal a b \<Longrightarrow> jnorm a = jnorm b"
  proof (induction a b rule: typed_equal.induct)
    case (1 a b)
    have d: "distinct (map fst a)" "distinct (map fst b)" and keys: "fst ` set a = fst ` set b"
      using "1.prems" by simp_all
    have v: "jnorm v = jnorm w" if "(k, v) \<in> set a" "map_of b k = Some w" for k v w
    proof -
      have "(k, w) \<in> set b" using that(2) by (rule map_of_SomeD)
      then have "plain v" "plain w" "typed_equal v w" using "1.prems" that by auto
      then show ?thesis using "1.IH" [OF that(1) refl that(2)] by simp
    qed
    have "map_option jnorm (map_of a k) = map_option jnorm (map_of b k)" for k
    proof (cases "map_of a k")
      case None
      then have "map_of b k = None" using keys by (simp add: map_of_eq_None_iff)
      then show ?thesis using None by simp
    next
      case (Some x)
      then have x: "(k, x) \<in> set a" by (rule map_of_SomeD)
      then have "k \<in> fst ` set b" using keys by force
      then obtain w where "map_of b k = Some w" using map_of_eq_None_iff [of b k] by (cases "map_of b k") auto
      then show ?thesis using Some v [OF x] by simp
    qed
    then have m: "map_of (sort_key fst (map (\<lambda>(k, v). (k, jnorm v)) a)) = map_of (sort_key fst (map (\<lambda>(k, v). (k, jnorm v)) b))"
      using map_of_jnorm [OF d(1)] map_of_jnorm [OF d(2)] by (auto intro: ext)
    have ds: "distinct (map fst (sort_key fst (map (\<lambda>(k, v). (k, jnorm v)) a)))"
      "distinct (map fst (sort_key fst (map (\<lambda>(k, v). (k, jnorm v)) b)))"
      using d by (simp_all only: distinct_jnorm_keys)
    have eq: "set (sort_key fst (map (\<lambda>(k, v). (k, jnorm v)) a)) = set (sort_key fst (map (\<lambda>(k, v). (k, jnorm v)) b))"
      using m map_of_inject_set [OF ds] by simp
    have "inj_on fst (set (sort_key fst (map (\<lambda>(k, v). (k, jnorm v)) a)))" using ds(1) unfolding distinct_map by blast
    then have "inj_on fst (set (sort_key fst (map (\<lambda>(k, v). (k, jnorm v)) a)) \<union> set (sort_key fst (map (\<lambda>(k, v). (k, jnorm v)) b)))"
      unfolding eq by simp
    then have "sort_key fst (map (\<lambda>(k, v). (k, jnorm v)) a) = sort_key fst (map (\<lambda>(k, v). (k, jnorm v)) b)"
      using ds eq sorted_sort_key by (intro map_sorted_distinct_set_unique [where f = fst]) blast+
    then show ?case by simp
  next
    case (2 a b)
    then have "list_all2 (\<lambda>v w. jnorm v = jnorm w) a b"
      by (fastforce simp: list_all2_iff dest: set_zip_leftD set_zip_rightD)
    then have "map jnorm a = map jnorm b" by (simp add: list.rel_map list.rel_eq [symmetric])
    then show ?case by simp
  qed auto
qed

text \<open>Typed equality of JSON values is equality of their canonical text: it never collapses types
  and ignores nothing but the order of keys.\<close>
theorem typed_equal_canonical:
  "plain a \<Longrightarrow> plain b \<Longrightarrow> typed_equal a b \<longleftrightarrow> canonical_text a = canonical_text b"
  by (simp add: typed_equal_plain_iff canonical_text_eq_iff)

theorem typed_equal_canonical_witness:
  "\<not> typed_equal (JObj [(''a'', JBool False)]) (JObj [(''a'', JInt 0)])"
  by (subst typed_equal_canonical) (simp_all, code_simp)

subsection \<open>Values that read back\<close>

fun dicts :: "json \<Rightarrow> bool" where
  "dicts (JList xs) = (\<forall>x\<in>set xs. dicts x)"
| "dicts (JObj kvs) = (distinct (map fst kvs) \<and> (\<forall>(k, v)\<in>set kvs. dicts v))"
| "dicts j = True"

lemma dict_set_keys: "fst ` set (dict_set k v d) = insert k (fst ` set d)"
  by (induction k v d rule: dict_set.induct) auto

lemma dict_set_values: "snd ` set (dict_set k v d) \<subseteq> insert v (snd ` set d)"
  by (induction k v d rule: dict_set.induct) auto

lemma distinct_dict_set: "distinct (map fst d) \<Longrightarrow> distinct (map fst (dict_set k v d))"
  by (induction k v d rule: dict_set.induct) (auto simp: dict_set_keys)

lemma dicts_object: "dicts (JObj kvs) \<longleftrightarrow> distinct (map fst kvs) \<and> (\<forall>v\<in>snd ` set kvs. dicts v)"
  by auto

lemma dict_of_dicts:
  assumes "\<forall>v\<in>snd ` set kvs. dicts v"
  shows "dicts (JObj (dict_of kvs))"
proof -
  have "dicts (JObj d) \<Longrightarrow> \<forall>v\<in>snd ` set kvs. dicts v \<Longrightarrow> dicts (JObj (fold (\<lambda>(k, v). dict_set k v) kvs d))" for d
  proof (induction kvs arbitrary: d)
    case (Cons kv kvs)
    have "\<forall>v\<in>snd ` set (dict_set (fst kv) (snd kv) d). dicts v"
    proof -
      have "\<forall>v\<in>insert (snd kv) (snd ` set d). dicts v" using Cons.prems unfolding dicts_object by simp
      then show ?thesis using dict_set_values [of "fst kv" "snd kv" d] by blast
    qed
    then have "dicts (JObj (dict_set (fst kv) (snd kv) d))"
      using Cons.prems(1) distinct_dict_set unfolding dicts_object by blast
    then show ?case using Cons.IH Cons.prems(2) by (simp add: case_prod_beta)
  qed simp
  from this [of "[]"] show ?thesis using assms by (simp add: dict_of_def)
qed

lemma parse_number_dicts: "parse_number s = Some (j, r) \<Longrightarrow> dicts j"
  by (auto simp: parse_number_def Let_def split: if_splits)

lemma prepend_Some: "prepend xs q = Some (zs, r) \<longleftrightarrow> (\<exists>ys. q = Some (ys, r) \<and> zs = xs @ ys)"
  by (auto simp: prepend_def)

definition reads_dicts :: "json_mode \<Rightarrow> nat \<Rightarrow> bool" where
  "reads_dicts m n \<longleftrightarrow>
     (\<forall>s j r. parse_value m n s = Some (j, r) \<longrightarrow> dicts j) \<and>
     (\<forall>s xs r. parse_elems m n s = Some (xs, r) \<longrightarrow> (\<forall>x\<in>set xs. dicts x)) \<and>
     (\<forall>s kvs r. parse_members m n s = Some (kvs, r) \<longrightarrow> (\<forall>(k, v)\<in>set kvs. dicts v))"

lemma reads_dictsD:
  assumes "reads_dicts m n"
  shows "parse_value m n s = Some (j, r) \<Longrightarrow> dicts j"
    "parse_elems m n s = Some (xs, r) \<Longrightarrow> dicts (JList xs)"
    "parse_members m n s = Some (kvs, r) \<Longrightarrow> dicts (JObj (dict_of kvs))"
proof -
  show "parse_value m n s = Some (j, r) \<Longrightarrow> dicts j" "parse_elems m n s = Some (xs, r) \<Longrightarrow> dicts (JList xs)"
    using assms unfolding reads_dicts_def dicts.simps by blast+
  assume "parse_members m n s = Some (kvs, r)"
  then have "\<forall>(k, v)\<in>set kvs. dicts v" using assms unfolding reads_dicts_def by blast
  then show "dicts (JObj (dict_of kvs))" by (intro dict_of_dicts) auto
qed

lemma parse_value_dicts:
  assumes "reads_dicts m n" "parse_value m (Suc n) s = Some (j, r)"
  shows "dicts j"
proof (cases "starts ''{'' s \<or> starts ''['' s")
  case False
  then show ?thesis using assms(2) parse_number_dicts by (auto split: if_splits)
next
  case True
  then have q: "\<not> starts [CHR 0x22] s" by (cases s) auto
  show ?thesis
  proof (cases "starts ''{'' s")
    case True
    show ?thesis
    proof (cases "parse_members m n (skip_ws (drop 1 s))")
      case None
      then show ?thesis using assms(2) q True by (simp add: Let_def split: if_splits) auto
    next
      case (Some p)
      then have "dicts (JObj (dict_of (fst p)))" using reads_dictsD(3) [OF assms(1)] by (cases p) auto
      then show ?thesis using assms(2) q True Some
        by (auto simp: Let_def object_of_def simp del: dicts.simps(2) split: if_splits prod.splits) auto
    qed
  next
    case False
    then have l: "starts ''['' s" using True by blast
    show ?thesis
    proof (cases "parse_elems m n (skip_ws (drop 1 s))")
      case None
      then show ?thesis using assms(2) q False l by (simp add: Let_def split: if_splits) auto
    next
      case (Some p)
      then have "dicts (JList (fst p))" using reads_dictsD(2) [OF assms(1)] by (cases p) auto
      then show ?thesis using assms(2) q False l Some
        by (auto simp: Let_def simp del: dicts.simps(1) split: if_splits prod.splits) auto
    qed
  qed
qed

lemma parse_elems_dicts:
  assumes "reads_dicts m n" "parse_elems m (Suc n) s = Some (xs, r)" "x \<in> set xs"
  shows "dicts x"
proof -
  obtain v t where v: "parse_value m n s = Some (v, t)" using assms(2) by (auto split: option.splits)
  then have "dicts v" using assms(1) unfolding reads_dicts_def by blast
  moreover have "xs = [v] \<or> (\<exists>ys q. parse_elems m n (skip_ws (drop 1 (skip_ws t))) = Some (ys, q) \<and> xs = v # ys)"
    using assms(2) v by (auto simp: Let_def prepend_Some split: if_splits)
  ultimately show ?thesis using assms(1,3) unfolding reads_dicts_def by fastforce
qed

lemma parse_members_dicts:
  assumes "reads_dicts m n" "parse_members m (Suc n) s = Some (kvs, r)" "(k, x) \<in> set kvs"
  shows "dicts x"
proof -
  obtain k0 t v t' where v: "parse_string (drop 1 s) = Some (k0, t)"
    "parse_value m n (skip_ws (drop 1 (skip_ws t))) = Some (v, t')"
    using assms(2) by (auto simp: Let_def split: option.splits if_splits)
  then have "dicts v" using assms(1) unfolding reads_dicts_def by blast
  moreover have "kvs = [(k0, v)] \<or>
      (\<exists>ys q. parse_members m n (skip_ws (drop 1 (skip_ws t'))) = Some (ys, q) \<and> kvs = (k0, v) # ys)"
    using assms(2) v by (auto simp: Let_def prepend_Some split: if_splits)
  ultimately show ?thesis using assms(1,3) unfolding reads_dicts_def by fastforce
qed

lemma reads_dicts_all: "reads_dicts m n"
proof (induction n)
  case 0
  show ?case by (simp add: reads_dicts_def)
next
  case (Suc n)
  show ?case unfolding reads_dicts_def
    using parse_value_dicts [OF Suc] parse_elems_dicts [OF Suc] parse_members_dicts [OF Suc] by blast
qed

lemma json_loads_dicts: "json_loads_gen m s = Some j \<Longrightarrow> dicts j"
proof -
  assume "json_loads_gen m s = Some j"
  then obtain r where "parse_value m (Suc (length s)) (skip_ws s) = Some (j, r)"
    unfolding json_loads_gen_def by (auto simp del: parse_value.simps split: option.splits if_splits)
  then show ?thesis by (rule reads_dictsD(1) [OF reads_dicts_all])
qed

text \<open>The values a document holds: readable, their floats in the form \<open>repr\<close> gives them.\<close>

definition clean :: "(string \<Rightarrow> string option) \<Rightarrow> json \<Rightarrow> bool" where
  "clean fl j \<longleftrightarrow> readable j \<and> (\<forall>t\<in>set (floats j). fl t = Some t)"

lemma clean_simps [simp]:
  "clean fl JNull" "clean fl (JBool b)" "clean fl (JInt i)" "clean fl (JStr s)"
  "clean fl (JList xs) \<longleftrightarrow> (\<forall>x\<in>set xs. clean fl x)"
  "clean fl (JObj kvs) \<longleftrightarrow> distinct (map fst kvs) \<and> (\<forall>(k, v)\<in>set kvs. clean fl v)"
  "clean fl (JFloat t) \<longleftrightarrow> float_token t \<and> fl t = Some t"
  by (auto simp: clean_def)

lemma non_finite_token: "float_token t \<Longrightarrow> t \<notin> set NON_FINITE"
  using float_token_first [of t] by (auto simp: NON_FINITE_def is_digit_def)

lemma clean_float_value: "clean fl j \<Longrightarrow> map_floats (float_value fl) j = j"
proof (induction j)
  case (JFloat t)
  then show ?case using non_finite_token [of t] by (simp add: float_value_def)
next
  case (JList xs)
  then show ?case by (auto intro: map_idI)
next
  case (JObj kvs)
  then show ?case by (auto intro!: map_idI)
qed simp_all

lemma clean_finite: "clean fl j \<Longrightarrow> finite_json j"
proof (induction j)
  case (JFloat t)
  then show ?case using non_finite_token [of t] by (simp add: finite_json_def)
qed (auto simp: finite_json_def)

lemma clean_jnorm [simp]: "clean fl (jnorm j) \<longleftrightarrow> clean fl j"
proof (induction j)
  case (JObj kvs)
  have "clean fl (jnorm (JObj kvs)) \<longleftrightarrow> distinct (map fst kvs) \<and> (\<forall>(k, v)\<in>set kvs. clean fl (jnorm v))"
    by (simp add: distinct_jnorm_keys) (auto simp: case_prod_beta)
  then show ?case using JObj by auto
qed auto

lemma clean_norm_value: "clean fl j \<Longrightarrow> map_floats (float_value fl) (jnorm j) = jnorm j \<and> finite_json (jnorm j)"
  using clean_float_value [of fl "jnorm j"] clean_finite [of fl "jnorm j"] by simp

lemma clean_loads: "clean fl j \<Longrightarrow> loads fl (canonical_text j) = Some (jnorm j)"
  using clean_norm_value [of fl j] by (simp add: loads_def json_loads_def json_loads_readable [of j] clean_def [of fl j])

lemma clean_strict: "clean fl j \<Longrightarrow> strict_json_loads fl (canonical_text j) = Some (jnorm j)"
  using clean_norm_value [of fl j]
  by (simp add: strict_json_loads_def Let_def json_loads_readable [of j] clean_def [of fl j])

lemma float_value_clean: "repr_law fl \<Longrightarrow> float_value fl t \<notin> set NON_FINITE \<Longrightarrow>
    float_token (float_value fl t) \<and> fl (float_value fl t) = Some (float_value fl t)"
  by (auto simp: float_value_def repr_law_def NON_FINITE_def split: if_splits option.splits)

lemma map_floats_clean:
  "repr_law fl \<Longrightarrow> dicts j \<Longrightarrow> finite_json (map_floats (float_value fl) j) \<Longrightarrow> clean fl (map_floats (float_value fl) j)"
proof (induction j)
  case (JFloat t)
  then show ?case using float_value_clean [of fl t] by (simp add: finite_json_def)
next
  case (JList xs)
  then show ?case by (fastforce simp: finite_json_def)
next
  case (JObj kvs)
  have "clean fl (map_floats (float_value fl) v)" if kv: "(k, v) \<in> set kvs" for k v
    using JObj.IH [OF kv, of v] JObj.prems kv by (fastforce simp: finite_json_def)
  then show ?case using JObj.prems(2) by (auto simp: case_prod_beta comp_def)
qed simp_all

lemma loads_clean: "repr_law fl \<Longrightarrow> loads fl text = Some j \<Longrightarrow> finite_json j \<Longrightarrow> clean fl j"
  using map_floats_clean json_loads_dicts by (auto simp: loads_def json_loads_def)

lemma strict_clean: "repr_law fl \<Longrightarrow> strict_json_loads fl text = Some j \<Longrightarrow> clean fl j"
  using map_floats_clean json_loads_dicts by (auto simp: strict_json_loads_def Let_def split: option.splits if_splits)

lemma clean_typed_equal: "clean fl a \<Longrightarrow> clean fl b \<Longrightarrow> jnorm a = jnorm b \<Longrightarrow> typed_equal a b"
  by (rule typed_equal_jnorm_eq) (simp_all add: clean_def)

lemma clean_text_eq: "clean fl a \<Longrightarrow> clean fl b \<Longrightarrow> canonical_text a = canonical_text b \<longleftrightarrow> jnorm a = jnorm b"
  by (rule canonical_text_readable_iff) (simp_all add: clean_def)

subsection \<open>Members of normalized values\<close>

lemma clean_member_jnorm: "clean fl j \<Longrightarrow> member k (jnorm j) = map_option jnorm (member k j)"
  by (cases j) (auto simp: clean_def map_of_jnorm)

lemma clean_str_at [simp]: "clean fl j \<Longrightarrow> str_at k (jnorm j) = str_at k j"
  by (auto simp: str_at_def clean_member_jnorm split: option.splits json.splits)

lemma clean_int_at [simp]: "clean fl j \<Longrightarrow> int_at k (jnorm j) = int_at k j"
  by (auto simp: int_at_def clean_member_jnorm split: option.splits json.splits)

lemma jnorm_idem [simp]: "jnorm (jnorm j) = jnorm j"
proof (induction j)
  case (JObj kvs)
  have "map (\<lambda>(k, v). (k, jnorm (jnorm v))) (sort_key fst kvs) = map (\<lambda>(k, v). (k, jnorm v)) (sort_key fst kvs)"
    using JObj by (auto intro!: map_cong)
  then show ?case unfolding jnorm_object sort_key_map_snd
    by (simp add: sort_key_id_if_sorted case_prod_beta comp_def)
qed auto

lemma finite_object: "finite_json (JObj kvs) \<longleftrightarrow> (\<forall>(k, v)\<in>set kvs. finite_json v)"
  by (fastforce simp: finite_json_def)

text \<open>Replacing a member that is there.\<close>

lemma dict_set_known: "k \<in> fst ` set d \<Longrightarrow> map fst (dict_set k v d) = map fst d"
  by (induction k v d rule: dict_set.induct) auto

lemma dict_set_twice: "dict_set k v (dict_set k w d) = dict_set k v d"
  by (induction k v d rule: dict_set.induct) auto

lemma dict_set_same: "map_of d k = Some v \<Longrightarrow> dict_set k v d = d"
  by (induction k v d rule: dict_set.induct) (auto split: if_splits)

lemma map_of_dict_set: "map_of (dict_set k v d) = (map_of d)(k \<mapsto> v)"
  by (induction k v d rule: dict_set.induct) (auto simp: fun_eq_iff)

lemma dict_set_member: "(k', w) \<in> set d \<Longrightarrow> k' \<noteq> k \<Longrightarrow> (k', w) \<in> set (dict_set k v d)"
  by (induction k v d rule: dict_set.induct) auto

lemma dict_set_set: "set (dict_set k v d) \<subseteq> insert (k, v) (set d)"
  by (induction k v d rule: dict_set.induct) auto

lemma jnorm_dict_set:
  assumes "JObj d = jnorm j" "k \<in> fst ` set d" "jnorm v = v"
  shows "jnorm (JObj (dict_set k v d)) = JObj (dict_set k v d)"
proof -
  obtain kvs where j: "j = JObj kvs" "d = map (\<lambda>(k, v). (k, jnorm v)) (sort_key fst kvs)"
    using assms(1) by (cases j) (auto simp: jnorm_object simp del: jnorm.simps(2))
  have "\<forall>(k', w)\<in>set (dict_set k v d). jnorm w = w"
    using dict_set_set [of k v d] assms(3) by (auto simp: j(2))
  then have m: "map (\<lambda>(k, v). (k, jnorm v)) (dict_set k v d) = dict_set k v d" by (intro map_idI) auto
  have "map fst (dict_set k v d) = map fst (sort_key fst kvs)"
    using dict_set_known [OF assms(2)] by (simp add: j(2) case_prod_beta comp_def)
  then have "sorted (map fst (dict_set k v d))" by simp
  then show ?thesis by (simp add: m sort_key_id_if_sorted)
qed

text \<open>Members of a loaded document: readable wherever they are finite.\<close>

lemma loads_member:
  assumes "repr_law fl" "loads fl text = Some (JObj kvs)" "(k, v) \<in> set kvs" "finite_json v"
  shows "clean fl v"
proof -
  obtain j where j: "json_loads text = Some j" "map_floats (float_value fl) j = JObj kvs"
    using assms(2) by (auto simp: loads_def)
  then have "dicts j" using json_loads_dicts unfolding json_loads_def by blast
  moreover obtain lvs where l: "j = JObj lvs" "kvs = map (\<lambda>(k, v). (k, map_floats (float_value fl) v)) lvs"
    using j(2) by (cases j) auto
  moreover obtain w where w: "(k, w) \<in> set lvs" "v = map_floats (float_value fl) w" using assms(3) l(2) by auto
  ultimately have "dicts w" by auto
  then show ?thesis using map_floats_clean [OF assms(1)] assms(4) w(2) by simp
qed

lemma loads_distinct: "loads fl text = Some (JObj kvs) \<Longrightarrow> distinct (map fst kvs)"
proof -
  assume "loads fl text = Some (JObj kvs)"
  then obtain j where j: "json_loads text = Some j" "map_floats (float_value fl) j = JObj kvs"
    by (auto simp: loads_def)
  then have "dicts j" using json_loads_dicts unfolding json_loads_def by blast
  then show ?thesis using j(2) by (cases j) (auto simp: case_prod_beta comp_def)
qed

subsection \<open>Notifications\<close>

definition is_identifier :: "json \<Rightarrow> bool" where
  "is_identifier j \<longleftrightarrow> (\<exists>i. j = JInt i) \<or> (\<exists>s. j = JStr s \<and> s \<noteq> [])"

lemma identifier_Inr [simp]: "identifier_of name v = Inr w \<longleftrightarrow> is_identifier v \<and> w = v"
  by (auto simp: identifier_of_def is_identifier_def split: json.splits)

text \<open>What \<open>from_payload\<close> guarantees of a body.\<close>

definition body_ok :: "semantic_body \<Rightarrow> bool" where
  "body_ok b \<longleftrightarrow> is_identifier (sb_portal_id b) \<and> is_identifier (sb_app_id b) \<and> is_identifier (sb_subscription_id b) \<and>
     is_identifier (sb_object_id b) \<and> is_identifier (sb_event_id b) \<and> sb_property_name b \<noteq> [] \<and>
     (\<forall>c. sb_change_source b = Some c \<longrightarrow> c = JNull \<or> (\<exists>s. c = JStr s))"

lemma read_body_Inr:
  assumes "read_body p name at = Inr b"
  shows "sb_property_name b = name" "name \<noteq> [] \<Longrightarrow> body_ok b"
    "sb_property_value b = (case map_of p ''propertyValue'' of None \<Rightarrow> JNull | Some v \<Rightarrow> v)"
proof -
  let ?item = "\<lambda>k. case map_of p k of None \<Rightarrow> JNull | Some v \<Rightarrow> v"
  obtain c where c: "c = None \<or> c = Some JNull \<or> (\<exists>s. c = Some (JStr s))"
    and ids: "is_identifier (?item ''portalId'')" "is_identifier (?item ''appId'')" "is_identifier (?item ''subscriptionId'')"
      "is_identifier (?item ''objectId'')" "is_identifier (?item ''eventId'')"
    and b: "b = \<lparr>sb_portal_id = ?item ''portalId'', sb_app_id = ?item ''appId'', sb_subscription_id = ?item ''subscriptionId'',
      sb_object_id = ?item ''objectId'', sb_property_name = name, sb_property_value = ?item ''propertyValue'',
      sb_occurred_at = at, sb_event_id = ?item ''eventId'', sb_change_source = c\<rparr>"
  proof (cases "map_of p ''changeSource''")
    case None
    then show ?thesis using assms that [of None] by (simp add: read_body_def Let_def)
  next
    case (Some j)
    then show ?thesis using assms that [of "Some JNull"] that [of "Some j"]
      by (cases j) (simp_all add: read_body_def Let_def)
  qed
  show "sb_property_name b = name"
    "sb_property_value b = (case map_of p ''propertyValue'' of None \<Rightarrow> JNull | Some v \<Rightarrow> v)" by (simp_all add: b)
  show "body_ok b" if "name \<noteq> []"
    unfolding body_ok_def b semantic_body.simps using ids that c by blast
qed

lemma from_payload_ok:
  assumes "from_payload fl payload raw = Inr n"
  shows "body_ok (sn_body n)" "sn_raw_body n = raw" "\<exists>p. payload = JObj p \<and> sb_property_value (sn_body n) \<in> snd ` set p"
proof -
  obtain p where p: "payload = JObj p" using assms by (cases payload) (auto simp: from_payload_def)
  obtain name at b where b: "map_of p ''propertyName'' = Some (JStr name)" "name \<noteq> []" "read_body p name at = Inr b"
    "n = \<lparr>sn_raw_body = raw, sn_body = b\<rparr>" "filter (\<lambda>k. map_of p k = None) REQUIRED_KEYS = []"
    using assms by (auto simp: from_payload_def p Let_def split: option.splits if_splits json.splits)
  have r: "\<exists>v. map_of p ''propertyValue'' = Some v" using b(5) by (auto simp: REQUIRED_KEYS_def split: if_splits)
  show "body_ok (sn_body n)" "sn_raw_body n = raw"
    using read_body_Inr(2) [OF b(3,2)] b(4) by simp_all
  obtain v where v: "map_of p ''propertyValue'' = Some v" using r by blast
  then have "sb_property_value (sn_body n) = v"
    using read_body_Inr(3) [OF b(3)] b(4) by simp
  moreover have "v \<in> snd ` set p" using map_of_SomeD [OF v] by force
  ultimately show "\<exists>p. payload = JObj p \<and> sb_property_value (sn_body n) \<in> snd ` set p" using p by blast
qed

lemma identifier_scalar [simp]: "is_identifier j \<Longrightarrow> jnorm j = j" "is_identifier j \<Longrightarrow> clean fl j"
  by (auto simp: is_identifier_def)

lemma clean_body: "body_ok b \<Longrightarrow> clean fl (sb_property_value b) \<Longrightarrow> clean fl (body_json b)"
  by (auto simp: body_ok_def body_json_def split: option.split)

text \<open>The flat payload of a body, and the body with its property value normalized.\<close>

definition payload_list :: "semantic_body \<Rightarrow> (string \<times> json) list" where
  "payload_list b =
     [(''portalId'', sb_portal_id b), (''appId'', sb_app_id b), (''subscriptionId'', sb_subscription_id b),
      (''subscriptionType'', JStr SUPPORTED_SUBSCRIPTION_TYPE), (''objectId'', sb_object_id b),
      (''propertyName'', JStr (sb_property_name b)), (''propertyValue'', sb_property_value b),
      (''occurredAt'', JInt (sb_occurred_at b)), (''eventId'', sb_event_id b)] @
     (case sb_change_source b of None \<Rightarrow> [] | Some c \<Rightarrow> [(''changeSource'', c)])"

lemma clean_payload: "body_ok b \<Longrightarrow> clean fl (sb_property_value b) \<Longrightarrow> clean fl (JObj (payload_list b))"
  by (auto simp: body_ok_def payload_list_def split: option.split)

lemma from_payload_list:
  assumes "body_ok b" "clean fl (sb_property_value b)"
  shows "from_payload fl (JObj (payload_list b)) (canonical_text (JObj (payload_list b))) =
    Inr \<lparr>sn_raw_body = canonical_text (JObj (payload_list b)), sn_body = b\<rparr>"
proof -
  have c: "clean fl (JObj (payload_list b))" by (rule clean_payload [OF assms])
  have s: "strict_json_loads fl (canonical_text (JObj (payload_list b))) = Some (jnorm (JObj (payload_list b)))"
    by (rule clean_strict [OF c])
  have e: "typed_equal (jnorm (JObj (payload_list b))) (JObj (payload_list b))"
    by (rule clean_typed_equal [where fl = fl]) (use c in \<open>simp_all only: clean_jnorm jnorm_idem\<close>)
  have t: "typed_equal (JStr SUPPORTED_SUBSCRIPTION_TYPE) (JStr SUPPORTED_SUBSCRIPTION_TYPE)" by simp
  have k: "filter (\<lambda>k. k \<notin> set KNOWN_KEYS) (map fst (payload_list b)) = []"
    "filter (\<lambda>k. map_of (payload_list b) k = None) REQUIRED_KEYS = []"
    "List.map_filter (map_of (payload_list b)) TYPE_ALIASES = [JStr SUPPORTED_SUBSCRIPTION_TYPE]"
    "map_of (payload_list b) ''propertyName'' = Some (JStr (sb_property_name b))"
    "map_of (payload_list b) ''occurredAt'' = Some (JInt (sb_occurred_at b))"
    by (auto simp: payload_list_def KNOWN_KEYS_def REQUIRED_KEYS_def TYPE_ALIASES_def OPTIONAL_SEMANTIC_KEYS_def
        List.map_filter_simps split: option.split)
  have r: "read_body (payload_list b) (sb_property_name b) (sb_occurred_at b) = Inr b"
    using assms(1) by (cases "sb_change_source b") (auto simp: read_body_def payload_list_def Let_def body_ok_def)
  have "sb_property_name b \<noteq> []" using assms(1) by (simp add: body_ok_def)
  then show ?thesis
    unfolding from_payload_def json.case s option.case Let_def k using e t r by simp
qed

end
