(* ===== verification/Hubspot_Capture.thy ===== *)
theory Hubspot_Capture
  imports Hubspot_Contracts
begin

text \<open>
  \<open>adapters/hubspot/capture.py\<close>: the closed mapping of a supplied read into input states, the complete
  capture document and its validation from preserved data.  \<open>capture_once\<close>, which drives the store, is
  in \<open>Hubspot_Once\<close>.  The clock is read once per index.
\<close>

subsection \<open>The mapping\<close>

datatype input_kind =
    NonnegativeInteger
  | NonemptyText
  | Table "(string \<times> string) list"
  | IsoDate
  | FundingEvent
  | IntegrationPressure "string list"

record owned_spec =
  os_evidence_type :: string
  os_kind :: input_kind

definition OWNED :: "(string \<times> owned_spec) list" where
  "OWNED =
     [(''numberofemployees'', \<lparr>os_evidence_type = ''employee_count'', os_kind = NonnegativeInteger\<rparr>),
      (''industry'', \<lparr>os_evidence_type = ''industry'', os_kind = Table [(''COMPUTER_SOFTWARE'', ''software'')]\<rparr>),
      (''country'', \<lparr>os_evidence_type = ''headquarters_country'', os_kind = NonemptyText\<rparr>),
      (''fr_funding_event'', \<lparr>os_evidence_type = ''funding_event'', os_kind = FundingEvent\<rparr>),
      (''fr_open_platform_roles'',
        \<lparr>os_evidence_type = ''open_platform_engineering_roles'', os_kind = NonnegativeInteger\<rparr>),
      (''fr_head_of_platform_start'', \<lparr>os_evidence_type = ''head_of_platform_start_date'', os_kind = IsoDate\<rparr>),
      (''fr_integration_pressure'',
        \<lparr>os_evidence_type = ''verified_integration_pressure'',
         os_kind = IntegrationPressure [''HIGH'', ''LOW'', ''MEDIUM'']\<rparr>)]"

text \<open>External observations: property and input key; none is replayable.\<close>

definition EXTERNAL :: "(string \<times> string) list" where
  "EXTERNAL = [(''hubspotscore'', ''external_vendor_score'')]"

definition REFUSED_PROPERTIES :: "string list" where
  "REFUSED_PROPERTIES =
     [''fr_decision_ref'', ''fr_logic_version'', ''fr_op_id'', ''fr_op_rev'', ''fr_output'', ''fr_score'']"

fun kind_members :: "input_kind \<Rightarrow> (string \<times> json) list" where
  "kind_members NonnegativeInteger = [(''kind'', JStr ''nonnegative_integer'')]"
| "kind_members NonemptyText = [(''kind'', JStr ''nonempty_text'')]"
| "kind_members (Table t) =
     [(''kind'', JStr ''table''), (''table'', JObj (map (\<lambda>(a, b). (a, JStr b)) t)), (''unmapped'', JStr ''unavailable'')]"
| "kind_members IsoDate = [(''kind'', JStr ''iso_date'')]"
| "kind_members FundingEvent = [(''kind'', JStr ''funding_event'')]"
| "kind_members (IntegrationPressure vs) =
     [(''kind'', JStr ''integration_pressure''), (''values'', JList (map JStr vs))]"

definition MAPPING_DESCRIPTION :: json where
  "MAPPING_DESCRIPTION = JObj
     [(''mapping_id'', JStr ''hubspot-company-map''), (''mapping_version'', JStr ''1''),
      (''source'', JStr ''hubspot''), (''subscription_type'', JStr ''company.propertyChange''),
      (''empty_values'', JStr ''null and empty text are unavailable''),
      (''unsupported_properties'', JStr ''refused''),
      (''owned_inputs'', JObj (map (\<lambda>(name, spec).
         (name, JObj ((''evidence_type'', JStr (os_evidence_type spec)) # kind_members (os_kind spec)))) OWNED)),
      (''external_observations'', JObj (map (\<lambda>(name, key).
         (name, JObj [(''input_key'', JStr key), (''replayable'', JBool False)])) EXTERNAL)),
      (''refused_properties'', JList (map JStr REFUSED_PROPERTIES))]"

definition MAPPING_IDENTITY :: string where
  "MAPPING_IDENTITY = canonical_hash MAPPING_DESCRIPTION"

definition refuse_mapping :: "mapping_problem \<Rightarrow> failure" where
  "refuse_mapping m = Refused (InvalidMapping m)"

definition is_empty :: "json \<Rightarrow> bool" where
  "is_empty v \<longleftrightarrow> v = JNull \<or> v = JStr []"

text \<open>\<open>^[0-9]{4}-[0-9]{2}-[0-9]{2}$\<close>, whose \<open>$\<close> also matches before a final newline.\<close>

definition date_shape :: "string \<Rightarrow> bool" where
  "date_shape s \<longleftrightarrow>
     (let t = (if s \<noteq> [] \<and> last s = CHR 0x0A then butlast s else s) in
      length t = 10 \<and> list_all (\<lambda>i. is_digit (t ! i)) [0,1,2,3,5,6,8,9] \<and> t ! 4 = CHR ''-'' \<and> t ! 7 = CHR ''-'')"

definition convert_date :: "string \<Rightarrow> json \<Rightarrow> failure + json" where
  "convert_date name value =
     (case value of
        JStr s \<Rightarrow>
          if \<not> date_shape s then Inl (refuse_mapping (BadInput name))
          else if parse_date s = None then Inl (refuse_mapping (BadInput name))
          else Inr value
      | _ \<Rightarrow> Inl (refuse_mapping (BadInput name)))"

definition convert_text :: "string \<Rightarrow> json \<Rightarrow> failure + json" where
  "convert_text name value =
     (case value of
        JStr s \<Rightarrow> if s = [] then Inl (refuse_mapping (BadInput name)) else Inr value
      | _ \<Rightarrow> Inl (refuse_mapping (BadInput name)))"

definition exact_keys :: "string \<Rightarrow> json \<Rightarrow> string list \<Rightarrow> failure + (string \<rightharpoonup> json)" where
  "exact_keys name value keys =
     (case value of
        JObj kvs \<Rightarrow> if fst ` set kvs = set keys then Inr (map_of kvs) else Inl (refuse_mapping (BadInput name))
      | _ \<Rightarrow> Inl (refuse_mapping (BadInput name)))"

definition item :: "string \<Rightarrow> (string \<rightharpoonup> json) \<Rightarrow> json" where
  "item k body = (case body k of None \<Rightarrow> JNull | Some v \<Rightarrow> v)"

text \<open>\<open>Inr None\<close> is \<open>_UNMAPPED\<close>.\<close>

fun convert :: "string \<Rightarrow> input_kind \<Rightarrow> json \<Rightarrow> failure + json option" where
  "convert name NonnegativeInteger value =
     (case value of
        JInt i \<Rightarrow> if i < 0 then Inl (refuse_mapping (BadInput name)) else Inr (Some value)
      | _ \<Rightarrow> Inl (refuse_mapping (BadInput name)))"
| "convert name NonemptyText value = bindE (convert_text name value) (\<lambda>v. Inr (Some v))"
| "convert name (Table t) value =
     (case value of
        JStr s \<Rightarrow> Inr (map_option JStr (map_of t s))
      | _ \<Rightarrow> Inl (refuse_mapping (BadInput name)))"
| "convert name IsoDate value = bindE (convert_date name value) (\<lambda>v. Inr (Some v))"
| "convert name FundingEvent value =
     bindE (exact_keys name value [''value'', ''observed_at'']) (\<lambda>body.
     bindE (convert_text (name @ ''.value'') (item ''value'' body)) (\<lambda>v.
     bindE (convert_date (name @ ''.observed_at'') (item ''observed_at'' body)) (\<lambda>d.
       Inr (Some (JObj [(''value'', v), (''observed_at'', d)])))))"
| "convert name (IntegrationPressure values) value =
     bindE (exact_keys name value [''value'', ''basis'']) (\<lambda>body.
       if item ''value'' body \<notin> set (map JStr values) then Inl (refuse_mapping (BadInput (name @ ''.value'')))
       else bindE (convert_text (name @ ''.basis'') (item ''basis'' body)) (\<lambda>b.
         Inr (Some (JObj [(''value'', item ''value'' body), (''basis'', b)]))))"

subsection \<open>Input states\<close>

datatype read_state = Consumed json | Ignored json | Unavailable | Absent

fun state_members :: "read_state \<Rightarrow> (string \<times> json) list" where
  "state_members (Consumed v) = [(''state'', JStr ''consumed''), (''value'', v)]"
| "state_members (Ignored v) = [(''state'', JStr ''ignored''), (''value'', v)]"
| "state_members Unavailable = [(''state'', JStr ''unavailable'')]"
| "state_members Absent = [(''state'', JStr ''absent'')]"

definition check_name :: "string \<Rightarrow> failure option" where
  "check_name name =
     (if name \<in> set REFUSED_PROPERTIES then Some (refuse_mapping (WriteBackProperty name))
      else if name \<notin> fst ` set OWNED \<and> name \<notin> fst ` set EXTERNAL
      then Some (refuse_mapping (UnsupportedProperty name)) else None)"

definition check_read :: "read_result \<Rightarrow> failure option" where
  "check_read r =
     (let names = map fst (rd_properties r);
          both = filter (\<lambda>n. n \<in> set (rd_unavailable r)) (rd_ignored r)
      in first_failure
        (map check_name (sort (remdups (names @ rd_ignored r @ rd_unavailable r))) @
         [raise_if (both \<noteq> []) (refuse_mapping (IgnoredAndUnavailable both))] @
         map (\<lambda>n. case map_of (rd_properties r) n of
             None \<Rightarrow> None
           | Some v \<Rightarrow> raise_if (\<not> is_empty v) (refuse_mapping (UnavailableWithValue n))) (rd_unavailable r) @
         map (\<lambda>n. raise_if (n \<notin> set names) (refuse_mapping (IgnoredNotSupplied n))) (rd_ignored r)))"

definition owned_state :: "read_result \<Rightarrow> string \<times> owned_spec \<Rightarrow> failure + read_state" where
  "owned_state r ns =
     (let (name, spec) = ns in
      if name \<in> set (rd_unavailable r) then Inr Unavailable
      else case map_of (rd_properties r) name of
          None \<Rightarrow> Inr Absent
        | Some v \<Rightarrow>
            if is_empty v then Inr Unavailable
            else bindE (convert name (os_kind spec) v) (\<lambda>c.
              Inr (case c of
                  None \<Rightarrow> Unavailable
                | Some w \<Rightarrow> if name \<in> set (rd_ignored r) then Ignored w else Consumed w)))"

definition external_state :: "read_result \<Rightarrow> string \<Rightarrow> read_state" where
  "external_state r name =
     (case map_of (rd_properties r) name of
        None \<Rightarrow> if name \<in> set (rd_unavailable r) then Unavailable else Absent
      | Some v \<Rightarrow> if name \<in> set (rd_unavailable r) \<or> is_empty v then Unavailable else Ignored v)"

text \<open>The states of the owned inputs, then those of the external ones.\<close>

definition map_read_result :: "read_result \<Rightarrow> failure + read_state list \<times> read_state list" where
  "map_read_result r =
     (case check_read r of
        Some e \<Rightarrow> Inl e
      | None \<Rightarrow> bindE (mapE (owned_state r) OWNED) (\<lambda>os. Inr (os, map (external_state r \<circ> fst) EXTERNAL)))"

definition inputs_json :: "read_state list \<Rightarrow> read_state list \<Rightarrow> json" where
  "inputs_json os es = JObj
     (map2 (\<lambda>(name, spec) st. (os_evidence_type spec, JObj (state_members st))) OWNED os @
      map2 (\<lambda>(name, key) st. (key, JObj (state_members st @ [(''replayable'', JBool False)]))) EXTERNAL es)"

definition provenance_json :: "(string \<times> string) list \<Rightarrow> json" where
  "provenance_json tms = JObj
     (map (\<lambda>(name, key). (key, JObj [(''property'', JStr name), (''available_at'', jstr_opt (map_of tms name))]))
       (map (\<lambda>(name, spec). (name, os_evidence_type spec)) OWNED @ EXTERNAL))"

subsection \<open>Times\<close>

definition aware :: "string \<Rightarrow> py_datetime option \<Rightarrow> failure + utc" where
  "aware what value =
     (case value of
        Some (Aware t off) \<Rightarrow> (case to_utc t off of None \<Rightarrow> Inl Crashed | Some u \<Rightarrow> Inr u)
      | _ \<Rightarrow> Inl (Refused (NaiveTime what)))"

definition available_time :: "read_result \<Rightarrow> utc \<Rightarrow> string \<times> py_datetime option \<Rightarrow> failure + string \<times> string" where
  "available_time r boundary nw =
     (let (name, when) = nw in
      if name \<in> set (rd_unavailable r) \<or> (case map_of (rd_properties r) name of None \<Rightarrow> True | Some v \<Rightarrow> is_empty v)
      then Inl (Refused (UnavailableTime name))
      else bindE (aware name when) (\<lambda>t.
        if boundary < t then Inl (Refused (AfterBoundary name)) else Inr (name, format_utc t)))"

definition available_times :: "read_result \<Rightarrow> utc \<Rightarrow> failure + (string \<times> string) list" where
  "available_times r boundary = mapE (available_time r boundary) (sort_key fst (rd_available_at r))"

subsection \<open>The document\<close>

record read_interval =
  iv_started :: utc
  iv_finished :: utc
  iv_boundary :: utc

definition capture_document ::
    "processing_unit \<Rightarrow> capture_ownership \<Rightarrow> string \<Rightarrow> read_interval \<Rightarrow> read_result \<Rightarrow> (string \<times> string) list
      \<Rightarrow> rule_identity \<Rightarrow> read_state list \<Rightarrow> read_state list \<Rightarrow> json" where
  "capture_document u owner raw_ref iv r tms rule os es =
     (let b = sn_body (pu_notification u) in JObj
       [(''record_kind'', JStr ''operational_capture''),
        (''scope'', JStr ''FR-V2-01 synthetic operational capture; not a domain record''),
        (''unit_id'', JStr (unit_id u)), (''logical_key'', JStr (logical_key (pu_notification u))),
        (''processing_version'', JStr (processing_version u)),
        (''mapping_identity'', JStr (pu_mapping_identity u)),
        (''selection_identity'', JStr (pu_selection_identity u)),
        (''adapter_identity'', JStr (pu_adapter_identity u)), (''reprocesses'', jstr_opt (pu_reprocesses u)),
        (''company'', JObj [(''portal_id'', sb_portal_id b), (''company_id'', sb_object_id b)]),
        (''ownership_generation'', JInt (co_generation owner)), (''capture_sequence'', JNull),
        (''read_started_at'', JStr (format_utc (iv_started iv))),
        (''read_finished_at'', JStr (format_utc (iv_finished iv))),
        (''capture_boundary'', JStr (format_utc (iv_boundary iv))),
        (''raw_notification_ref'', JStr raw_ref), (''notification'', body_json b),
        (''observation'', JObj
          [(''properties'', JObj (rd_properties r)), (''ignored'', JList (map JStr (rd_ignored r))),
           (''unavailable'', JList (map JStr (rd_unavailable r))),
           (''available_at'', JObj (map (\<lambda>(n, t). (n, JStr t)) tms))]),
        (''rule_hash'', JStr (ri_artifact_hash rule)), (''evaluator_version'', JStr (ri_evaluator_version rule)),
        (''inputs'', inputs_json os es), (''input_provenance'', provenance_json tms)])"

type_synonym clock = "nat \<Rightarrow> failure + py_datetime option"

fun is_consumed :: "read_state \<Rightarrow> bool" where
  "is_consumed (Consumed v) = True"
| "is_consumed _ = False"

text \<open>
  \<open>None\<close> of \<open>observe\<close> and \<open>select_logic\<close> is an object of another class.
\<close>

definition build_candidate ::
    "processing_unit \<Rightarrow> capture_ownership \<Rightarrow> string \<Rightarrow> (capture_ownership \<Rightarrow> failure + read_result option)
      \<Rightarrow> failure + rule_identity option \<Rightarrow> clock \<Rightarrow> failure + frozen_capture" where
  "build_candidate u owner raw_ref observe select_logic clock =
     bindE (clock 0) (\<lambda>c0.
     bindE (aware ''read start'' c0) (\<lambda>started.
     bindE (observe owner) (\<lambda>result.
     bindE (clock 1) (\<lambda>c1.
     bindE (aware ''read finish'' c1) (\<lambda>finished.
       if finished < started then Inl (Refused InvalidInterval)
       else case result of
           None \<Rightarrow> Inl (Refused NotAReadResult)
         | Some r \<Rightarrow>
             bindE (map_read_result r) (\<lambda>(os, es).
               if \<not> list_ex is_consumed os then Inl (Refused NoUsableInputs)
               else bindE select_logic (\<lambda>selected.
                 case selected of
                   None \<Rightarrow> Inl (Refused NotARule)
                 | Some rule \<Rightarrow>
                     bindE (clock 2) (\<lambda>c2.
                     bindE (aware ''capture boundary'' c2) (\<lambda>boundary.
                       if boundary < finished then Inl (Refused InvalidInterval)
                       else bindE (available_times r boundary) (\<lambda>tms.
                         from_document (capture_document u owner raw_ref
                           \<lparr>iv_started = started, iv_finished = finished, iv_boundary = boundary\<rparr>
                           r tms rule os es)))))))))))"

subsection \<open>Validation of a pending document\<close>

fun text_of :: "json \<Rightarrow> string option" where
  "text_of (JStr s) = Some s"
| "text_of _ = None"

definition names_of :: "json option \<Rightarrow> string list option" where
  "names_of j = (case j of Some (JList xs) \<Rightarrow> all_some (map text_of xs) | _ \<Rightarrow> None)"

definition times_of :: "json option \<Rightarrow> (string \<times> py_datetime option) list option" where
  "times_of j =
     (case j of
        Some (JObj kvs) \<Rightarrow>
          all_some (map (\<lambda>(n, v). Option.bind (text_of v) (\<lambda>t. map_option (\<lambda>d. (n, Some d)) (parse_datetime t))) kvs)
      | _ \<Rightarrow> None)"

text \<open>
  The \<open>ReadResult\<close> rebuilt from a document.  Any value of another shape raises a \<open>TypeError\<close> or an
  \<open>AttributeError\<close>, or differs from the list or object the document needs, and is refused here.
\<close>

definition observation_of :: "json \<Rightarrow> read_result option" where
  "observation_of d =
     Option.bind (member ''observation'' d) (\<lambda>supplied.
     Option.bind (names_of (member ''ignored'' supplied)) (\<lambda>ig.
     Option.bind (names_of (member ''unavailable'' supplied)) (\<lambda>un.
     Option.bind (times_of (member ''available_at'' supplied)) (\<lambda>av.
       case member ''properties'' supplied of
         Some (JObj ps) \<Rightarrow> (case make_read_result ps av ig un of Inr r \<Rightarrow> Some r | Inl _ \<Rightarrow> None)
       | _ \<Rightarrow> None))))"

definition rule_of :: "json \<Rightarrow> rule_identity option" where
  "rule_of d =
     (case (str_at ''rule_hash'' d, str_at ''evaluator_version'' d) of
        (Some h, Some v) \<Rightarrow> (case make_rule h v of Inr r \<Rightarrow> Some r | Inl _ \<Rightarrow> None)
      | _ \<Rightarrow> None)"

definition document_clock :: "json \<Rightarrow> clock" where
  "document_clock d i =
     (case Option.bind (str_at ([''read_started_at'', ''read_finished_at'', ''capture_boundary''] ! i) d) parse_datetime of
        None \<Rightarrow> Inl (Refused InvalidCapture)
      | Some dt \<Rightarrow> Inr (Some dt))"

text \<open>\<open>None\<close>: the document is the complete capture of the registered unit.\<close>

definition validate_pending_capture ::
    "(string \<Rightarrow> string option) \<Rightarrow> processing_unit \<Rightarrow> capture_ownership \<Rightarrow> string \<Rightarrow> frozen_capture \<Rightarrow> failure option" where
  "validate_pending_capture fl u owner raw_ref candidate =
     (case document fl candidate of
        None \<Rightarrow> Some (Refused InvalidCapture)
      | Some d \<Rightarrow>
          if pu_mapping_identity u \<noteq> MAPPING_IDENTITY then Some (Refused InvalidCapture)
          else (case (observation_of d, rule_of d) of
              (Some r, Some rule) \<Rightarrow>
                (case build_candidate u owner raw_ref (\<lambda>_. Inr (Some r)) (Inr (Some rule)) (document_clock d) of
                   Inl Crashed \<Rightarrow> Some Crashed
                 | Inl (Refused _) \<Rightarrow> Some (Refused InvalidCapture)
                 | Inr expected \<Rightarrow> raise_if (expected \<noteq> candidate) (Refused InvalidCapture))
            | _ \<Rightarrow> Some (Refused InvalidCapture)))"

subsection \<open>What a candidate is made of\<close>

definition reads_interval :: "clock \<Rightarrow> read_interval \<Rightarrow> bool" where
  "reads_interval clk iv \<longleftrightarrow>
     bindE (clk 0) (aware ''read start'') = Inr (iv_started iv) \<and>
     bindE (clk 1) (aware ''read finish'') = Inr (iv_finished iv) \<and>
     bindE (clk 2) (aware ''capture boundary'') = Inr (iv_boundary iv) \<and>
     iv_started iv \<le> iv_finished iv \<and> iv_finished iv \<le> iv_boundary iv"

definition candidate_parts ::
    "read_result \<Rightarrow> clock \<Rightarrow> read_interval \<Rightarrow> (string \<times> string) list \<Rightarrow> read_state list \<Rightarrow> read_state list \<Rightarrow> bool" where
  "candidate_parts r clk iv tms os es \<longleftrightarrow>
     reads_interval clk iv \<and> map_read_result r = Inr (os, es) \<and> list_ex is_consumed os \<and>
     available_times r (iv_boundary iv) = Inr tms"

lemma build_candidate_Inr:
  "build_candidate u owner ref observe select clk = Inr c \<longleftrightarrow>
     (\<exists>iv r rule tms os es. observe owner = Inr (Some r) \<and> select = Inr (Some rule) \<and>
        candidate_parts r clk iv tms os es \<and>
        finite_json (capture_document u owner ref iv r tms rule os es) \<and>
        c = canonical_text (capture_document u owner ref iv r tms rule os es))"
  (is "?lhs \<longleftrightarrow> ?rhs")
proof
  assume ?lhs
  then obtain c0 started result c1 finished where a: "clk 0 = Inr c0" "aware ''read start'' c0 = Inr started"
    "observe owner = Inr result" "clk 1 = Inr c1" "aware ''read finish'' c1 = Inr finished" "\<not> finished < started"
    by (auto simp: build_candidate_def split: if_splits)
  with \<open>?lhs\<close> obtain r os es where b: "result = Some r" "map_read_result r = Inr (os, es)" "list_ex is_consumed os"
    by (auto simp: build_candidate_def split: option.splits if_splits)
  with \<open>?lhs\<close> a obtain selected where sel: "select = Inr selected"
    by (auto simp: build_candidate_def split: if_splits)
  with \<open>?lhs\<close> a b obtain rule c2 boundary where d: "selected = Some rule" "clk 2 = Inr c2"
    "aware ''capture boundary'' c2 = Inr boundary" "\<not> boundary < finished"
    by (auto simp: build_candidate_def split: if_splits option.splits)
  with \<open>?lhs\<close> a b sel obtain tms where t: "available_times r boundary = Inr tms"
    "from_document (capture_document u owner ref \<lparr>iv_started = started, iv_finished = finished, iv_boundary = boundary\<rparr>
       r tms rule os es) = Inr c"
    by (auto simp: build_candidate_def split: if_splits)
  let ?iv = "\<lparr>iv_started = started, iv_finished = finished, iv_boundary = boundary\<rparr>"
  have "candidate_parts r clk ?iv tms os es"
    using a b d t(1) by (simp add: candidate_parts_def reads_interval_def not_less)
  moreover have "finite_json (capture_document u owner ref ?iv r tms rule os es)"
    "c = canonical_text (capture_document u owner ref ?iv r tms rule os es)"
    using t(2) by (auto simp: from_document_def split: if_splits)
  ultimately show ?rhs using a(3) b(1) sel d(1) by blast
next
  assume ?rhs
  then obtain iv r rule tms os es where p: "observe owner = Inr (Some r)" "select = Inr (Some rule)"
    "candidate_parts r clk iv tms os es" "finite_json (capture_document u owner ref iv r tms rule os es)"
    "c = canonical_text (capture_document u owner ref iv r tms rule os es)" by blast
  obtain c0 c1 c2 where k: "clk 0 = Inr c0" "clk 1 = Inr c1" "clk 2 = Inr c2" "aware ''read start'' c0 = Inr (iv_started iv)"
    "aware ''read finish'' c1 = Inr (iv_finished iv)" "aware ''capture boundary'' c2 = Inr (iv_boundary iv)"
    "\<not> iv_finished iv < iv_started iv" "\<not> iv_boundary iv < iv_finished iv"
    using p(3) by (auto simp: candidate_parts_def reads_interval_def not_less)
  have iv: "\<lparr>iv_started = iv_started iv, iv_finished = iv_finished iv, iv_boundary = iv_boundary iv\<rparr> = iv" by simp
  have "map_read_result r = Inr (os, es)" "list_ex is_consumed os" "available_times r (iv_boundary iv) = Inr tms"
    using p(3) by (simp_all add: candidate_parts_def)
  then show ?lhs using p(1,2,4,5) k by (simp add: build_candidate_def from_document_def iv)
qed

lemma validate_pending_None:
  "validate_pending_capture fl u owner ref candidate = None \<longleftrightarrow>
     pu_mapping_identity u = MAPPING_IDENTITY \<and>
     (\<exists>d r rule. document fl candidate = Some d \<and> observation_of d = Some r \<and> rule_of d = Some rule \<and>
        build_candidate u owner ref (\<lambda>_. Inr (Some r)) (Inr (Some rule)) (document_clock d) = Inr candidate)"
  by (auto simp: validate_pending_capture_def split: option.splits sum.splits failure.splits if_splits)

subsection \<open>A candidate reads back\<close>

lemma item_clean: "\<forall>(k, v)\<in>set kvs. clean fl v \<Longrightarrow> clean fl (item k (map_of kvs))"
  by (auto simp: item_def split: option.split dest: map_of_SomeD)

lemma exact_keys_Inr: "exact_keys name v ks = Inr body \<Longrightarrow> \<exists>kvs. v = JObj kvs \<and> body = map_of kvs"
  by (auto simp: exact_keys_def split: json.splits if_splits)

lemma convert_text_Inr [simp]: "convert_text name v = Inr w \<longleftrightarrow> w = v \<and> (\<exists>s. v = JStr s \<and> s \<noteq> [])"
  by (auto simp: convert_text_def split: json.splits)

lemma convert_date_Inr [simp]: "convert_date name v = Inr w \<longleftrightarrow> w = v \<and> (\<exists>s. v = JStr s \<and> date_shape s \<and> parse_date s \<noteq> None)"
  by (auto simp: convert_date_def split: json.splits)

lemma clean_convert: "convert name kind v = Inr (Some w) \<Longrightarrow> clean fl v \<Longrightarrow> clean fl w"
proof (induction name kind v rule: convert.induct)
  case (6 name vs v)
  then obtain kvs where "v = JObj kvs" "w = JObj [(''value'', item ''value'' (map_of kvs)), (''basis'', item ''basis'' (map_of kvs))]"
    by (auto dest!: exact_keys_Inr split: if_splits)
  then show ?case using 6(2) item_clean [of kvs fl] by simp
qed (auto dest!: exact_keys_Inr split: json.splits if_splits option.splits)

definition clean_state :: "(string \<Rightarrow> string option) \<Rightarrow> read_state \<Rightarrow> bool" where
  "clean_state fl st \<longleftrightarrow> (case st of Consumed v \<Rightarrow> clean fl v | Ignored v \<Rightarrow> clean fl v | _ \<Rightarrow> True)"

lemma clean_members: "clean_state fl st \<Longrightarrow> clean fl (JObj (state_members st))"
  "clean_state fl st \<Longrightarrow> clean fl (JObj (state_members st @ [(''replayable'', JBool False)]))"
  by (cases st; simp add: clean_state_def)+

lemma property_clean: "clean fl (JObj (rd_properties r)) \<Longrightarrow> map_of (rd_properties r) n = Some v \<Longrightarrow> clean fl v"
  by (auto dest: map_of_SomeD)

lemma clean_owned_state:
  assumes "clean fl (JObj (rd_properties r))" "owned_state r ns = Inr st"
  shows "clean_state fl st"
proof (cases "fst ns \<in> set (rd_unavailable r)")
  case True
  then show ?thesis using assms(2) by (auto simp: owned_state_def clean_state_def split: prod.splits)
next
  case no: False
  show ?thesis
  proof (cases "map_of (rd_properties r) (fst ns)")
    case None
    then show ?thesis using no assms(2) by (auto simp: owned_state_def clean_state_def split: prod.splits)
  next
    case (Some v)
    then have v: "clean fl v" by (rule property_clean [OF assms(1)])
    show ?thesis
    proof (cases "is_empty v")
      case True
      then show ?thesis using no Some assms(2) by (auto simp: owned_state_def clean_state_def split: prod.splits)
    next
      case False
      have "bindE (convert (fst ns) (os_kind (snd ns)) v) (\<lambda>c. Inr (case c of None \<Rightarrow> Unavailable
          | Some w \<Rightarrow> if fst ns \<in> set (rd_ignored r) then Ignored w else Consumed w)) = Inr st"
        using no Some False assms(2) by (simp add: owned_state_def case_prod_beta)
      then obtain c where "convert (fst ns) (os_kind (snd ns)) v = Inr c"
        "st = (case c of None \<Rightarrow> Unavailable | Some w \<Rightarrow> if fst ns \<in> set (rd_ignored r) then Ignored w else Consumed w)"
        by (cases "convert (fst ns) (os_kind (snd ns)) v") simp_all
      then show ?thesis using clean_convert [OF _ v] by (cases c) (auto simp: clean_state_def)
    qed
  qed
qed

lemma clean_external_state: "clean fl (JObj (rd_properties r)) \<Longrightarrow> clean_state fl (external_state r n)"
  using property_clean [of fl r n] by (auto simp: external_state_def clean_state_def split: option.split)

lemma map_read_states:
  assumes "map_read_result r = Inr (os, es)"
  shows "list_all2 (\<lambda>ns st. owned_state r ns = Inr st) OWNED os" "es = map (external_state r \<circ> fst) EXTERNAL"
  using assms by (auto simp: map_read_result_def mapE_Inr_iff split: option.splits)

lemma clean_inputs:
  assumes "map_read_result r = Inr (os, es)" "clean fl (JObj (rd_properties r))"
  shows "clean fl (inputs_json os es)"
proof -
  note st = map_read_states [OF assms(1)]
  have len: "length os = length OWNED" "length es = length EXTERNAL" using st list_all2_lengthD by force+
  have os: "\<forall>s\<in>set os. clean_state fl s" using list_all2_right [OF st(1)] clean_owned_state [OF assms(2)] by blast
  have es: "\<forall>s\<in>set es. clean_state fl s" using st(2) clean_external_state [OF assms(2)] by auto
  have keys: "map fst (map2 (\<lambda>(name, spec) st. (os_evidence_type spec, JObj (state_members st))) OWNED os) =
      map (os_evidence_type \<circ> snd) OWNED"
    "map fst (map2 (\<lambda>(name, key) st. (key, JObj (state_members st @ [(''replayable'', JBool False)]))) EXTERNAL es) =
      map snd EXTERNAL"
    using len by (auto intro!: nth_equalityI simp: case_prod_beta)
  have "distinct (map (os_evidence_type \<circ> snd) OWNED @ map snd EXTERNAL)" by (simp add: OWNED_def EXTERNAL_def)
  moreover have "clean fl v" if "(k, v) \<in> set (map2 (\<lambda>(name, spec) st. (os_evidence_type spec, JObj (state_members st))) OWNED os)" for k v
    using that os clean_members(1) by (auto dest!: set_zip_rightD)
  moreover have "clean fl v" if "(k, v) \<in> set (map2 (\<lambda>(name, key) st. (key, JObj (state_members st @ [(''replayable'', JBool False)]))) EXTERNAL es)" for k v
    using that es clean_members(2) by (auto simp del: clean_simps dest!: set_zip_rightD)
  ultimately show ?thesis unfolding inputs_json_def clean_simps(6) map_append keys set_append by blast
qed

lemma clean_provenance [simp]: "clean fl (provenance_json tms)"
  by (auto simp: provenance_json_def OWNED_def EXTERNAL_def jstr_opt_def split: option.split)

lemma available_names:
  assumes "available_times r b = Inr tms"
  shows "map fst tms = map fst (sort_key fst (rd_available_at r))"
proof -
  have "list_all2 (\<lambda>x y. available_time r b x = Inr y) (sort_key fst (rd_available_at r)) tms"
    using assms by (simp add: available_times_def mapE_Inr_iff)
  then have "list_all2 (\<lambda>x y. fst x = fst y) (sort_key fst (rd_available_at r)) tms"
    by (rule list.rel_mono_strong) (auto simp: available_time_def split: if_splits prod.splits)
  then show ?thesis by (induction rule: list_all2_induct) auto
qed

lemma clean_document:
  assumes "body_ok (sn_body (pu_notification u))" "clean fl (sb_property_value (sn_body (pu_notification u)))"
    "candidate_parts r clk iv tms os es" "clean fl (JObj (rd_properties r))" "distinct (map fst (rd_available_at r))"
  shows "clean fl (capture_document u owner ref iv r tms rule os es)"
proof -
  have i: "clean fl (inputs_json os es)" using assms(3,4) clean_inputs by (auto simp: candidate_parts_def)
  have "distinct (map fst tms)"
    using assms(3,5) available_names by (auto simp: candidate_parts_def intro: distinct_sort_fst)
  then have t: "clean fl (JObj (map (\<lambda>(n, t). (n, JStr t)) tms))" by (auto simp: case_prod_beta comp_def)
  show ?thesis
    using i t assms(4) clean_body [OF assms(1,2)] assms(1)
    by (simp add: capture_document_def Let_def jstr_opt_def body_ok_def del: clean_simps(6) split: option.split)
      (auto simp: body_ok_def)
qed

end
