(* ===== verification/Hubspot_Reading.thy ===== *)
theory Hubspot_Reading
  imports Hubspot_Capture
begin

text \<open>
  A candidate that \<open>build_candidate\<close> made passes \<open>validate_pending_capture\<close>: the read, the rule and the
  times rebuilt from its document give the same bytes.  Instants are valid calendar times throughout.
\<close>

subsection \<open>Conversion to UTC stays in the calendar\<close>

lemma next_day:
  assumes "valid_ymd y m d" "ymd2ord y m d < 3652059"
  shows "\<exists>y' m' d'. valid_ymd y' m' d' \<and> ymd2ord y' m' d' = ymd2ord y m d + 1"
proof (cases "d < days_in_month y m")
  case True
  then have "valid_ymd y m (d + 1)" "ymd2ord y m (d + 1) = ymd2ord y m d + 1"
    using assms(1) by (auto simp: valid_ymd_def ymd2ord_def)
  then show ?thesis by blast
next
  case last_day: False
  show ?thesis
  proof (cases "m < 12")
    case True
    then have "valid_ymd y (m + 1) 1" "ymd2ord y (m + 1) 1 = ymd2ord y m d + 1"
      using assms(1) last_day days_in_month_bounds [of y "m + 1"] days_before_month_step [of m y]
      by (auto simp: valid_ymd_def ymd2ord_def)
    then show ?thesis by blast
  next
    case False
    then have m: "m = 12" "d = 31" using assms(1) last_day by (auto simp: valid_ymd_def days_in_month_def)
    have "ymd2ord (y + 1) 1 1 = ymd2ord y m d + 1"
      using days_before_year_step [of y] assms(1) days_before_month_Dec [of y]
      by (auto simp: m ymd2ord_def days_before_month_def month_table_def valid_ymd_def)
    moreover have "y \<noteq> 9999" using assms(2) by (auto simp: m ymd2ord_def days_before_year_def days_before_month_def month_table_def is_leap_def)
    then have "valid_ymd (y + 1) 1 1" using assms(1) by (auto simp: valid_ymd_def days_in_month_def)
    ultimately show ?thesis by blast
  qed
qed

lemma ordinal_day: "1 \<le> n \<Longrightarrow> n \<le> 3652059 \<Longrightarrow> \<exists>y m d. valid_ymd y m d \<and> ymd2ord y m d = n" for n :: int
proof (induction n rule: int_ge_induct)
  case base
  have "valid_ymd 1 1 1 \<and> ymd2ord 1 1 1 = 1" by code_simp
  then show ?case by blast
next
  case (step n)
  then obtain y m d where "valid_ymd y m d" "ymd2ord y m d = n" by auto
  then show ?case using next_day [of y m d] step.prems by auto
qed

lemma utc_of_micros_valid: "utc_of_micros n = Some t \<Longrightarrow> valid_utc t"
proof -
  assume a: "utc_of_micros n = Some t"
  let ?day = "n div 86400000000" and ?us = "n mod 86400000000"
  have r: "1 \<le> ?day" "?day \<le> 3652059" using a by (auto simp: utc_of_micros_def Let_def split: prod.splits if_splits)
  then obtain y m d where d: "valid_ymd y m d" "ymd2ord y m d = ?day" using ordinal_day by blast
  have o: "ord2ymd ?day = (y, m, d)" using ord2ymd_ymd2ord [OF d(1)] d(2) by simp
  have t: "t = Utc (Date y m d) (?us div 1000000 div 60 div 60) (?us div 1000000 div 60 mod 60)
      (?us div 1000000 mod 60) (?us mod 1000000)"
    using a r by (simp add: utc_of_micros_def Let_def o)
  have u: "0 \<le> ?us" "?us < 86400000000" by simp_all
  have "?us div 1000000 \<ge> 0" "?us div 1000000 < 86400" using u by (simp_all add: pos_imp_zdiv_nonneg_iff int_div_less_self) 
  then have "0 \<le> ?us div 1000000 div 60 div 60" "?us div 1000000 div 60 div 60 < 24" by linarith+
  then show ?thesis using d(1) by (simp add: t)
qed

lemma to_utc_valid: "valid_utc t \<Longrightarrow> to_utc t off = Some u \<Longrightarrow> valid_utc u"
  by (auto simp: to_utc_def dest: utc_of_micros_valid split: if_splits)

fun datetime_ok :: "py_datetime option \<Rightarrow> bool" where
  "datetime_ok (Some (Aware t off)) = valid_utc t"
| "datetime_ok _ = True"

lemma aware_valid: "datetime_ok v \<Longrightarrow> aware what v = Inr t \<Longrightarrow> valid_utc t"
  by (auto simp: aware_def dest: to_utc_valid split: option.splits py_datetime.splits)

subsection \<open>Normalized values\<close>

lemma jnorm_members_cong: "map (\<lambda>(k, v). (k, jnorm v)) a = map (\<lambda>(k, v). (k, jnorm v)) b \<Longrightarrow> jnorm (JObj a) = jnorm (JObj b)"
  by simp

lemma is_empty_jnorm [simp]: "is_empty (jnorm v) = is_empty v"
  by (cases v) (auto simp: is_empty_def)

lemma convert_text_jnorm [simp]: "convert_text n (jnorm v) = convert_text n v"
  by (cases v) (auto simp: convert_text_def)

lemma convert_date_jnorm [simp]: "convert_date n (jnorm v) = convert_date n v"
  by (cases v) (auto simp: convert_date_def)

lemma jnorm_str [simp]: "jnorm v = JStr s \<longleftrightarrow> v = JStr s"
  by (cases v) auto

lemma exact_keys_jnorm:
  "clean fl v \<Longrightarrow> exact_keys n (jnorm v) ks =
     (case exact_keys n v ks of Inl e \<Rightarrow> Inl e | Inr b \<Rightarrow> Inr (\<lambda>k. map_option jnorm (b k)))"
proof (cases v)
  case (JObj kvs)
  moreover assume "clean fl v"
  ultimately show ?thesis
    using keys_jnorm [of kvs] by (auto simp: exact_keys_def clean_def map_of_jnorm fun_eq_iff)
qed (auto simp: exact_keys_def)

lemma item_jnorm: "item k (\<lambda>k. map_option jnorm (b k)) = jnorm (item k b)"
  by (auto simp: item_def split: option.split)

lemma convert_jnorm: "clean fl v \<Longrightarrow> convert n kind (jnorm v) = convert n kind v"
proof (cases kind)
  case NonnegativeInteger
  then show ?thesis by (cases v) auto
next
  case (Table t)
  then show ?thesis by (cases v) auto
next
  case FundingEvent
  moreover assume c: "clean fl v"
  ultimately show ?thesis by (simp add: exact_keys_jnorm [OF c] item_jnorm split: sum.split)
next
  case (IntegrationPressure vs)
  moreover assume c: "clean fl v"
  moreover have "jnorm w \<in> JStr ` set vs \<longleftrightarrow> w \<in> JStr ` set vs" for w by (cases w) auto
  moreover have "w \<in> JStr ` set vs \<Longrightarrow> jnorm w = w" for w by auto
  ultimately show ?thesis by (auto simp: exact_keys_jnorm [OF c] item_jnorm split: sum.split)
qed auto

fun jnorm_state :: "read_state \<Rightarrow> read_state" where
  "jnorm_state (Consumed v) = Consumed (jnorm v)"
| "jnorm_state (Ignored v) = Ignored (jnorm v)"
| "jnorm_state st = st"

lemma jnorm_state_members:
  "jnorm (JObj (state_members (jnorm_state st))) = jnorm (JObj (state_members st))"
  "jnorm (JObj (state_members (jnorm_state st) @ [(''replayable'', JBool False)])) =
     jnorm (JObj (state_members st @ [(''replayable'', JBool False)]))"
  by (cases st; simp)+

subsection \<open>The read rebuilt from a document\<close>

definition reread :: "read_result \<Rightarrow> (string \<times> string) list \<Rightarrow> (string \<Rightarrow> utc) \<Rightarrow> read_result" where
  "reread r tms at = r\<lparr>rd_properties := sort_key fst (map (\<lambda>(k, v). (k, jnorm v)) (rd_properties r)),
     rd_available_at := map (\<lambda>(n, _). (n, Some (Aware (at n) 0))) tms\<rparr>"

lemma reread_fields [simp]:
  "rd_ignored (reread r tms at) = rd_ignored r" "rd_unavailable (reread r tms at) = rd_unavailable r"
  "fst ` set (rd_properties (reread r tms at)) = fst ` set (rd_properties r)"
  by (simp_all add: reread_def) force

lemma reread_property:
  "distinct (map fst (rd_properties r)) \<Longrightarrow>
     map_of (rd_properties (reread r tms at)) n = map_option jnorm (map_of (rd_properties r) n)"
  by (simp add: reread_def map_of_jnorm)

lemma check_read_None:
  "check_read r = None \<longleftrightarrow>
     (\<forall>n\<in>fst ` set (rd_properties r) \<union> set (rd_ignored r) \<union> set (rd_unavailable r). check_name n = None) \<and>
     set (rd_ignored r) \<inter> set (rd_unavailable r) = {} \<and> set (rd_ignored r) \<subseteq> fst ` set (rd_properties r) \<and>
     (\<forall>n\<in>set (rd_unavailable r). case map_of (rd_properties r) n of None \<Rightarrow> True | Some v \<Rightarrow> is_empty v)"
  unfolding check_read_def Let_def first_failure_None set_append ball_Un
  by (auto simp: filter_empty_conv split: option.splits)

lemma check_read_reread:
  assumes "distinct (map fst (rd_properties r))" "check_read r = None"
  shows "check_read (reread r tms at) = None"
  using assms(2) unfolding check_read_None reread_fields reread_property [OF assms(1)]
  by (auto split: option.splits)

lemma owned_state_reread:
  assumes "clean fl (JObj (rd_properties r))"
  shows "owned_state (reread r tms at) ns = owned_state r ns"
proof (cases "map_of (rd_properties r) (fst ns)")
  case None
  then show ?thesis using assms by (simp add: owned_state_def reread_property case_prod_beta)
next
  case (Some v)
  then have "clean fl v" by (rule property_clean [OF assms])
  then show ?thesis using assms Some unfolding owned_state_def case_prod_beta Let_def reread_fields
    by (simp add: reread_property convert_jnorm [of fl])
qed

lemma external_state_reread:
  "distinct (map fst (rd_properties r)) \<Longrightarrow> external_state (reread r tms at) n = jnorm_state (external_state r n)"
  by (auto simp: external_state_def reread_property split: option.split)

lemma map_read_reread:
  assumes "map_read_result r = Inr (os, es)" "clean fl (JObj (rd_properties r))"
  shows "map_read_result (reread r tms at) = Inr (os, map jnorm_state es)"
proof -
  have d: "distinct (map fst (rd_properties r))" using assms(2) by simp
  have c: "check_read r = None" "mapE (owned_state r) OWNED = Inr os" "es = map (external_state r \<circ> fst) EXTERNAL"
    using assms(1) by (auto simp: map_read_result_def split: option.splits)
  have "mapE (owned_state (reread r tms at)) OWNED = Inr os"
    using c(2) mapE_cong [of OWNED "owned_state (reread r tms at)" "owned_state r"] owned_state_reread [OF assms(2)] by simp
  then show ?thesis
    by (simp add: map_read_result_def check_read_reread [OF d c(1)] c(3) external_state_reread [OF d])
qed

subsection \<open>Times and the other members\<close>

lemma available_time_Inr:
  assumes "available_time r b nw = Inr nt"
  shows "fst nt = fst nw" "fst nw \<notin> set (rd_unavailable r)" "\<exists>v. map_of (rd_properties r) (fst nw) = Some v \<and> \<not> is_empty v"
    "\<exists>t. aware (fst nw) (snd nw) = Inr t \<and> \<not> b < t \<and> snd nt = format_utc t"
  using assms by (auto simp: available_time_def case_prod_beta split: if_splits option.splits)

lemma available_times_reread:
  assumes "available_times r b = Inr tms" "clean fl (JObj (rd_properties r))" "distinct (map fst (rd_available_at r))"
    "\<forall>(n, w)\<in>set (rd_available_at r). datetime_ok w"
  obtains at where "\<forall>(n, t)\<in>set tms. t = format_utc (at n) \<and> valid_utc (at n)"
    "available_times (reread r tms at) b = Inr tms"
proof -
  have l: "list_all2 (\<lambda>nw nt. available_time r b nw = Inr nt) (sort_key fst (rd_available_at r)) tms"
    using assms(1) by (simp add: available_times_def mapE_Inr_iff)
  have names: "map fst tms = map fst (sort_key fst (rd_available_at r))" by (rule available_names [OF assms(1)])
  have d: "distinct (map fst tms)" using assms(3) by (simp add: names distinct_map)
  have s: "sorted (map fst tms)" by (simp add: names)
  have ok: "\<exists>u. t = format_utc u \<and> valid_utc u \<and> \<not> b < u \<and> n \<notin> set (rd_unavailable r) \<and>
      (\<exists>v. map_of (rd_properties r) n = Some v \<and> \<not> is_empty v)" if nt: "(n, t) \<in> set tms" for n t
  proof -
    obtain nw where nw: "nw \<in> set (sort_key fst (rd_available_at r))" "available_time r b nw = Inr (n, t)"
      using list_all2_right [OF l nt] by blast
    then have "datetime_ok (snd nw)" using assms(4) by auto
    then show ?thesis using available_time_Inr [OF nw(2)] aware_valid by fastforce
  qed
  define at where "at = (\<lambda>n. SOME u. \<exists>t. map_of tms n = Some t \<and> t = format_utc u \<and> valid_utc u \<and> \<not> b < u)"
  have at: "t = format_utc (at n)" "valid_utc (at n)" "\<not> b < at n" if nt: "(n, t) \<in> set tms" for n t
  proof -
    have "map_of tms n = Some t" using d nt by simp
    then have "\<exists>u t. map_of tms n = Some t \<and> t = format_utc u \<and> valid_utc u \<and> \<not> b < u" using ok [OF nt] by blast
    then have "\<exists>t. map_of tms n = Some t \<and> t = format_utc (at n) \<and> valid_utc (at n) \<and> \<not> b < at n"
      unfolding at_def by (rule someI_ex)
    then show "t = format_utc (at n)" "valid_utc (at n)" "\<not> b < at n" using \<open>map_of tms n = Some t\<close> by auto
  qed
  have one: "available_time (reread r tms at) b (n, Some (Aware (at n) 0)) = Inr (n, t)" if nt: "(n, t) \<in> set tms" for n t
    using ok [OF nt] at [OF nt] assms(2)
    by (auto simp: available_time_def reread_property aware_def to_utc_def)
  have av: "rd_available_at (reread r tms at) = map (\<lambda>(n, _). (n, Some (Aware (at n) 0))) tms" by (simp add: reread_def)
  have "sorted (map fst (map (\<lambda>(n, _). (n, Some (Aware (at n) 0))) tms))" using s by (simp add: case_prod_beta comp_def)
  then have srt: "sort_key fst (rd_available_at (reread r tms at)) = map (\<lambda>(n, _). (n, Some (Aware (at n) 0))) tms"
    unfolding av by (rule sort_key_id_if_sorted)
  have "available_times (reread r tms at) b = Inr tms"
    unfolding available_times_def srt mapE_Inr_iff list.rel_map
    by (rule list.rel_refl_strong) (auto simp: one)
  moreover have "\<forall>(n, t)\<in>set tms. t = format_utc (at n) \<and> valid_utc (at n)" using at by blast
  ultimately show ?thesis using that by blast
qed

lemma all_some_Some: "(\<And>x. x \<in> set xs \<Longrightarrow> f x = Some (g x)) \<Longrightarrow> all_some (map f xs) = Some (map g xs)"
  by (induction xs) auto

lemma names_of_texts [simp]: "names_of (Some (JList (map JStr xs))) = Some xs"
  using all_some_Some [of xs "text_of \<circ> JStr" "\<lambda>x. x"] by (simp add: names_of_def)

lemma times_of_texts:
  assumes "\<forall>(n, t)\<in>set tms. t = format_utc (at n) \<and> valid_utc (at n)"
  shows "times_of (Some (JObj (map (\<lambda>(n, t). (n, JStr t)) tms))) = Some (map (\<lambda>(n, _). (n, Some (Aware (at n) 0))) tms)"
proof -
  have "all_some (map (\<lambda>(n, t). map_option (\<lambda>d. (n, Some d)) (parse_datetime t)) tms) =
      Some (map (\<lambda>(n, _). (n, Some (Aware (at n) 0))) tms)"
    unfolding case_prod_beta by (rule all_some_Some) (use assms in \<open>auto simp: parse_datetime_format\<close>)
  then show ?thesis unfolding times_of_def case_prod_beta by (simp add: comp_def)
qed

lemma jnorm_times:
  "sorted (map fst tms) \<Longrightarrow> jnorm (JObj (map (\<lambda>(n, t). (n, JStr t)) tms)) = JObj (map (\<lambda>(n, t). (n, JStr t)) tms)"
  for tms :: "(string \<times> string) list"
  by (simp add: comp_def case_prod_beta sort_key_id_if_sorted)

definition made_read :: "read_result \<Rightarrow> bool" where
  "made_read r \<longleftrightarrow> sorted (rd_ignored r) \<and> distinct (rd_ignored r) \<and> sorted (rd_unavailable r) \<and> distinct (rd_unavailable r) \<and>
     distinct (map fst (rd_available_at r)) \<and> (\<forall>(n, w)\<in>set (rd_available_at r). datetime_ok w)"

definition made_rule :: "rule_identity \<Rightarrow> bool" where
  "made_rule rule \<longleftrightarrow> make_rule (ri_artifact_hash rule) (ri_evaluator_version rule) = Inr rule"

definition observation_json :: "read_result \<Rightarrow> (string \<times> string) list \<Rightarrow> json" where
  "observation_json r tms = JObj
     [(''properties'', JObj (rd_properties r)), (''ignored'', JList (map JStr (rd_ignored r))),
      (''unavailable'', JList (map JStr (rd_unavailable r))), (''available_at'', JObj (map (\<lambda>(n, t). (n, JStr t)) tms))]"

lemma document_members:
  "member ''observation'' (capture_document u owner ref iv r tms rule os es) = Some (observation_json r tms)"
  "str_at ''rule_hash'' (capture_document u owner ref iv r tms rule os es) = Some (ri_artifact_hash rule)"
  "str_at ''evaluator_version'' (capture_document u owner ref iv r tms rule os es) = Some (ri_evaluator_version rule)"
  "str_at ''read_started_at'' (capture_document u owner ref iv r tms rule os es) = Some (format_utc (iv_started iv))"
  "str_at ''read_finished_at'' (capture_document u owner ref iv r tms rule os es) = Some (format_utc (iv_finished iv))"
  "str_at ''capture_boundary'' (capture_document u owner ref iv r tms rule os es) = Some (format_utc (iv_boundary iv))"
  "str_at ''raw_notification_ref'' (capture_document u owner ref iv r tms rule os es) = Some ref"
  "str_at ''unit_id'' (capture_document u owner ref iv r tms rule os es) = Some (unit_id u)"
  by (simp_all add: capture_document_def Let_def observation_json_def str_at_def)

lemma observation_reread:
  assumes "made_read r" "clean fl (observation_json r tms)" "sorted (map fst tms)"
    "\<forall>(n, t)\<in>set tms. t = format_utc (at n) \<and> valid_utc (at n)"
    "clean fl d" "member ''observation'' d = Some (observation_json r tms)"
  shows "observation_of (jnorm d) = Some (reread r tms at)"
proof -
  let ?j = "jnorm (observation_json r tms)"
  have o: "member ''observation'' (jnorm d) = Some ?j" using clean_member_jnorm [OF assms(5)] assms(6) by simp
  have w: "member ''ignored'' (observation_json r tms) = Some (JList (map JStr (rd_ignored r)))"
    "member ''unavailable'' (observation_json r tms) = Some (JList (map JStr (rd_unavailable r)))"
    "member ''available_at'' (observation_json r tms) = Some (JObj (map (\<lambda>(n, t). (n, JStr t)) tms))"
    "member ''properties'' (observation_json r tms) = Some (JObj (rd_properties r))"
    by (simp_all add: observation_json_def)
  have m: "member ''ignored'' ?j = Some (JList (map JStr (rd_ignored r)))"
    "member ''unavailable'' ?j = Some (JList (map JStr (rd_unavailable r)))"
    "member ''available_at'' ?j = Some (JObj (map (\<lambda>(n, t). (n, JStr t)) tms))"
    "member ''properties'' ?j = Some (JObj (sort_key fst (map (\<lambda>(k, v). (k, jnorm v)) (rd_properties r))))"
    unfolding clean_member_jnorm [OF assms(2)] w option.map jnorm_times [OF assms(3)] by (simp_all add: comp_def)
  have "make_read_result ps av (rd_ignored r) (rd_unavailable r) =
      Inr \<lparr>rd_properties = ps, rd_available_at = av, rd_ignored = rd_ignored r, rd_unavailable = rd_unavailable r\<rparr>" for ps av
    using assms(1) by (simp add: make_read_result_def name_tuple_def made_read_def sorted_sort_id)
  then show ?thesis
    unfolding observation_of_def o m bind.bind_lunit names_of_texts times_of_texts [OF assms(4)] by (simp add: reread_def)
qed

lemma document_clock_reads:
  assumes "valid_utc (iv_started iv)" "valid_utc (iv_finished iv)" "valid_utc (iv_boundary iv)"
    "iv_started iv \<le> iv_finished iv" "iv_finished iv \<le> iv_boundary iv" "clean fl (capture_document u owner ref iv r tms rule os es)"
  shows "reads_interval (document_clock (jnorm (capture_document u owner ref iv r tms rule os es))) iv"
  using assms
  by (simp add: reads_interval_def document_clock_def document_members parse_datetime_format aware_def to_utc_def)

lemma observation_json_reread: "jnorm (observation_json (reread r tms at) tms) = jnorm (observation_json r tms)"
proof -
  have "jnorm (JObj (rd_properties (reread r tms at))) = jnorm (JObj (rd_properties r))"
    using jnorm_idem [of "JObj (rd_properties r)"] by (simp add: reread_def)
  then show ?thesis
    unfolding observation_json_def reread_fields by (intro jnorm_members_cong) (simp del: jnorm.simps)
qed

lemma inputs_json_reread: "jnorm (inputs_json os (map jnorm_state es)) = jnorm (inputs_json os es)"
  unfolding inputs_json_def
  by (rule jnorm_members_cong) (simp add: zip_map2 case_prod_beta comp_def jnorm_state_members del: jnorm.simps)

lemma document_observation:
  "capture_document u owner ref iv r tms rule os es = JObj
     (let b = sn_body (pu_notification u) in
       [(''record_kind'', JStr ''operational_capture''),
        (''scope'', JStr ''FR-V2-01 synthetic operational capture; not a domain record''),
        (''unit_id'', JStr (unit_id u)), (''logical_key'', JStr (logical_key (pu_notification u))),
        (''processing_version'', JStr (processing_version u)),
        (''mapping_identity'', JStr (pu_mapping_identity u)),
        (''selection_identity'', JStr (pu_selection_identity u)),
        (''adapter_identity'', JStr (pu_adapter_identity u)), (''reprocesses'', jstr_opt (pu_reprocesses u)),
        (''company'', JObj [(''portal_id'', sb_portal_id b), (''company_id'', sb_object_id b)]),
        (''ownership_generation'', JInt (co_generation owner)), (''capture_sequence'', JNull),
        (''read_started_at'', JStr (format_utc (iv_started iv))),
        (''read_finished_at'', JStr (format_utc (iv_finished iv))),
        (''capture_boundary'', JStr (format_utc (iv_boundary iv))),
        (''raw_notification_ref'', JStr ref), (''notification'', body_json b),
        (''observation'', observation_json r tms),
        (''rule_hash'', JStr (ri_artifact_hash rule)), (''evaluator_version'', JStr (ri_evaluator_version rule)),
        (''inputs'', inputs_json os es), (''input_provenance'', provenance_json tms)])"
  by (simp add: capture_document_def Let_def observation_json_def)

lemma document_reread:
  "canonical_text (capture_document u owner ref iv (reread r tms at) tms rule os (map jnorm_state es)) =
     canonical_text (capture_document u owner ref iv r tms rule os es)"
proof -
  have "jnorm (capture_document u owner ref iv (reread r tms at) tms rule os (map jnorm_state es)) =
      jnorm (capture_document u owner ref iv r tms rule os es)"
    unfolding document_observation Let_def
    by (rule jnorm_members_cong) (simp add: observation_json_reread inputs_json_reread del: jnorm.simps)
  then show ?thesis by (metis canonical_jnorm)
qed

text \<open>The main step: a candidate validates against the unit, owner and reference it was built for.\<close>

lemma candidate_valid:
  fixes owner :: capture_ownership and ref :: string
  assumes u: "pu_mapping_identity u = MAPPING_IDENTITY" "body_ok (sn_body (pu_notification u))"
      "clean fl (sb_property_value (sn_body (pu_notification u)))"
    and r: "made_read r" "clean fl (JObj (rd_properties r))" and rule: "made_rule rule"
    and p: "candidate_parts r clk iv tms os es" and clk: "\<And>i t. clk i = Inr t \<Longrightarrow> datetime_ok t"
  defines "d \<equiv> capture_document u owner ref iv r tms rule os es"
  shows "clean fl d" "document fl (canonical_text d) = Some (jnorm d)"
    "validate_pending_capture fl u owner ref (canonical_text d) = None"
proof -
  have av: "distinct (map fst (rd_available_at r))" "\<forall>(n, w)\<in>set (rd_available_at r). datetime_ok w"
    using r(1) by (simp_all add: made_read_def)
  have iv: "reads_interval clk iv" and m: "map_read_result r = Inr (os, es)" and c: "list_ex is_consumed os"
    and t: "available_times r (iv_boundary iv) = Inr tms"
    using p by (simp_all add: candidate_parts_def)
  show cl: "clean fl d" unfolding d_def by (rule clean_document [OF u(2,3) p r(2) av(1)])
  show doc: "document fl (canonical_text d) = Some (jnorm d)" by (simp only: document_def clean_loads [OF cl])
  obtain at where at: "\<forall>(n, t)\<in>set tms. t = format_utc (at n) \<and> valid_utc (at n)"
    "available_times (reread r tms at) (iv_boundary iv) = Inr tms"
    using available_times_reread [OF t r(2) av] by blast
  have tick: "valid_utc x" if t: "bindE (clk i) (aware what) = Inr x" for i what x
  proof -
    obtain a where "clk i = Inr a" "aware what a = Inr x" using t by auto
    then show ?thesis using aware_valid clk by blast
  qed
  have v: "valid_utc (iv_started iv)" "valid_utc (iv_finished iv)" "valid_utc (iv_boundary iv)"
    "iv_started iv \<le> iv_finished iv" "iv_finished iv \<le> iv_boundary iv"
    using iv tick unfolding reads_interval_def by blast+
  have ri: "reads_interval (document_clock (jnorm d)) iv"
    unfolding d_def by (rule document_clock_reads [OF v cl [unfolded d_def]])
  have s: "sorted (map fst tms)" by (simp add: available_names [OF t])
  have mem: "member ''observation'' d = Some (observation_json r tms)" by (simp add: d_def document_members)
  have co: "clean fl (observation_json r tms)"
    using cl mem by (auto simp: d_def document_observation Let_def)
  have o: "observation_of (jnorm d) = Some (reread r tms at)" by (rule observation_reread [OF r(1) co s at(1) cl mem])
  have ru: "rule_of (jnorm d) = Some rule"
    using rule cl by (simp add: rule_of_def d_def document_members made_rule_def)
  have "finite_json (capture_document u owner ref iv (reread r tms at) tms rule os (map jnorm_state es))"
  proof -
    have "clean fl (capture_document u owner ref iv (reread r tms at) tms rule os (map jnorm_state es))"
    proof (rule clean_document [OF u(2,3)])
      show "candidate_parts (reread r tms at) (document_clock (jnorm d)) iv tms os (map jnorm_state es)"
        using ri map_read_reread [OF m r(2)] c at(2) by (simp add: candidate_parts_def)
      show "clean fl (JObj (rd_properties (reread r tms at)))"
        using r(2) clean_jnorm [of fl "JObj (rd_properties r)"] by (simp add: reread_def)
      have "map fst tms = map fst (sort_key fst (rd_available_at r))" by (rule available_names [OF t])
      then have "distinct (map fst tms)" using av(1) by (simp add: distinct_map)
      then show "distinct (map fst (rd_available_at (reread r tms at)))"
        by (simp add: reread_def case_prod_beta comp_def)
    qed
    then show ?thesis by (rule clean_finite)
  qed
  moreover have "candidate_parts (reread r tms at) (document_clock (jnorm d)) iv tms os (map jnorm_state es)"
    using ri map_read_reread [OF m r(2)] c at(2) by (simp add: candidate_parts_def)
  ultimately have "build_candidate u owner ref (\<lambda>_. Inr (Some (reread r tms at))) (Inr (Some rule)) (document_clock (jnorm d)) =
      Inr (canonical_text d)"
    unfolding build_candidate_Inr d_def document_reread [symmetric, of u owner ref iv r tms rule os es at] by blast
  then show "validate_pending_capture fl u owner ref (canonical_text d) = None"
    unfolding validate_pending_None using u(1) doc o ru by blast
qed

end
