(* ===== verification/Fencing.thy ===== *)
theory Fencing
  imports Main
begin

text \<open>
  The interface of a fenced resource: for each key at most one holder, and a generation that every
  acquisition advances.  The laws are about one step of the resource; the lemmas are about runs.  The
  adapters' company and target ownership are instances.
\<close>

locale fence =
  fixes step :: "'s \<Rightarrow> 's \<Rightarrow> bool"
    and generation :: "'s \<Rightarrow> 'k \<Rightarrow> int"
    and holder :: "'s \<Rightarrow> 'k \<Rightarrow> 'u option"
  assumes generation_step: "step s t \<Longrightarrow> generation s k \<le> generation t k"
    and holder_step: "step s t \<Longrightarrow> generation t k = generation s k \<Longrightarrow> holder t k = Some u \<Longrightarrow> holder s k = Some u"
begin

definition current :: "'s \<Rightarrow> 'k \<Rightarrow> 'u \<Rightarrow> int \<Rightarrow> bool" where
  "current s k u g \<longleftrightarrow> holder s k = Some u \<and> generation s k = g"

lemma current_unique: "current s k u g \<Longrightarrow> current s k u' g' \<Longrightarrow> u = u' \<and> g = g'"
  by (simp add: current_def)

lemma generation_run: "step\<^sup>*\<^sup>* s t \<Longrightarrow> generation s k \<le> generation t k"
  by (induction rule: rtranclp_induct) (auto dest: generation_step [where k = k])

lemma holder_run: "step\<^sup>*\<^sup>* s t \<Longrightarrow> generation t k = generation s k \<Longrightarrow> holder t k = Some u \<Longrightarrow> holder s k = Some u"
proof (induction rule: rtranclp_induct)
  case (step t v)
  have "generation s k \<le> generation t k" "generation t k \<le> generation v k"
    using generation_run [OF step.hyps(1)] generation_step [OF step.hyps(2)] by blast+
  then have g: "generation v k = generation t k" "generation t k = generation s k" using step.prems(1) by simp_all
  then have "holder t k = Some u" using holder_step [OF step.hyps(2)] step.prems(2) by blast
  then show ?case using step.IH g(2) by blast
qed simp

text \<open>Once a generation is reached and its holder is not current, it never becomes current again.\<close>

lemma lost_stays_lost:
  assumes "g \<le> generation s k" "\<not> current s k u g" "step\<^sup>*\<^sup>* s t"
  shows "\<not> current t k u g"
  using assms generation_run [OF assms(3), of k] holder_run [OF assms(3), of k u] by (auto simp: current_def)

lemma current_lost:
  assumes "current s k u g" "step\<^sup>*\<^sup>* s t" "\<not> current t k u g" "step\<^sup>*\<^sup>* t v"
  shows "\<not> current v k u g"
  using lost_stays_lost [OF _ assms(3,4)] generation_run [OF assms(2), of k] assms(1) by (auto simp: current_def)

text \<open>Two holders of one key at different moments of a run have different generations.\<close>

lemma holders_differ:
  assumes "current s k u g" "step\<^sup>*\<^sup>* s t" "current t k u' g'"
  shows "g < g' \<or> (g = g' \<and> u = u')"
  using assms generation_run [OF assms(2), of k] holder_run [OF assms(2), of k u'] by (auto simp: current_def)

end

end
