(* ===== verification/Hubspot_Store.thy ===== *)
theory Hubspot_Store
  imports Hubspot_Capture
begin

text \<open>
  \<open>adapters/hubspot/store.py\<close>: the operational capture store.  A table with a primary key is a map from
  it; receipts and captures are lists in insertion order.  Each operation is one \<open>BEGIN IMMEDIATE\<close>
  transaction: it raises and nothing is written, or it commits.
\<close>

subsection \<open>Tables\<close>

record processing_row =
  pr_logical_key :: string
  pr_processing_version :: string
  pr_company_key :: string
  pr_mapping_identity :: string
  pr_selection_identity :: string
  pr_adapter_identity :: string
  pr_reprocesses :: "string option"

record capture_row =
  cr_unit_id :: string
  cr_company_key :: string
  cr_sequence :: int
  cr_body :: string

datatype ownership_state = Held | Free | Abandoned

record ownership_row =
  ow_generation :: int
  ow_state :: ownership_state
  ow_owner :: "string option"

text \<open>The state and detail columns of \<open>unit_progress\<close>.\<close>

datatype unit_progress = Received | Reserved int | Captured int | WasAbandoned int | WasRefused refusal

record capture_store =
  st_identities :: "string \<rightharpoonup> string"
  st_raw :: "string \<rightharpoonup> string"
  st_units :: "string \<rightharpoonup> processing_row"
  st_receipts :: "(string \<times> string) list"
  st_captures :: "capture_row list"
  st_ownership :: "string \<rightharpoonup> ownership_row"
  st_progress :: "string \<rightharpoonup> unit_progress"

definition empty_store :: capture_store where
  "empty_store = \<lparr>st_identities = Map.empty, st_raw = Map.empty, st_units = Map.empty, st_receipts = [],
     st_captures = [], st_ownership = Map.empty, st_progress = Map.empty\<rparr>"

definition raw_notification_ref :: "string \<Rightarrow> string" where
  "raw_notification_ref raw = ''sha256:'' @ sha256_hex raw"

definition transaction :: "(capture_store \<Rightarrow> failure + 'a \<times> capture_store) \<Rightarrow> capture_store \<Rightarrow> (failure + 'a) \<times> capture_store" where
  "transaction body S = (case body S of Inl e \<Rightarrow> (Inl e, S) | Inr (a, T) \<Rightarrow> (Inr a, T))"

lemma transaction_Inl: "transaction body S = (Inl e, T) \<longleftrightarrow> body S = Inl e \<and> T = S"
  by (auto simp: transaction_def split: sum.splits)

lemma transaction_Inr: "transaction body S = (Inr a, T) \<longleftrightarrow> body S = Inr (a, T)"
  by (auto simp: transaction_def split: sum.splits)

subsection \<open>Helpers of a transaction\<close>

definition load_capture :: "capture_store \<Rightarrow> string \<Rightarrow> frozen_capture option" where
  "load_capture S uid = map_option cr_body (find (\<lambda>r. cr_unit_id r = uid) (st_captures S))"

definition is_current :: "capture_store \<Rightarrow> capture_ownership \<Rightarrow> bool" where
  "is_current S owner =
     (case st_ownership S (co_company_key owner) of
        None \<Rightarrow> False
      | Some row \<Rightarrow> ow_state row = Held \<and> ow_generation row = co_generation owner \<and>
          ow_owner row = Some (co_unit_id owner))"

definition release :: "capture_ownership \<Rightarrow> capture_store \<Rightarrow> capture_store" where
  "release owner S =
     (case st_ownership S (co_company_key owner) of
        None \<Rightarrow> S
      | Some row \<Rightarrow> S\<lparr>st_ownership := (st_ownership S)(co_company_key owner \<mapsto>
          row\<lparr>ow_state := Free, ow_owner := None\<rparr>)\<rparr>)"

definition set_progress :: "string \<Rightarrow> unit_progress \<Rightarrow> capture_store \<Rightarrow> capture_store" where
  "set_progress uid p S = S\<lparr>st_progress := (st_progress S)(uid \<mapsto> p)\<rparr>"

definition unit_fields :: "processing_unit \<Rightarrow> processing_row" where
  "unit_fields u =
     \<lparr>pr_logical_key = logical_key (pu_notification u), pr_processing_version = processing_version u,
      pr_company_key = company_key u, pr_mapping_identity = pu_mapping_identity u,
      pr_selection_identity = pu_selection_identity u, pr_adapter_identity = pu_adapter_identity u,
      pr_reprocesses = pu_reprocesses u\<rparr>"

definition register_identity :: "source_notification \<Rightarrow> capture_store \<Rightarrow> failure + capture_store" where
  "register_identity n S =
     (case st_identities S (logical_key n) of
        None \<Rightarrow> Inr (S\<lparr>st_identities := (st_identities S)(logical_key n \<mapsto> semantic_json n)\<rparr>)
      | Some t \<Rightarrow> if t \<noteq> semantic_json n then Inl (Refused (KeyCollision (logical_key n))) else Inr S)"

definition register_raw :: "string \<Rightarrow> capture_store \<Rightarrow> failure + capture_store" where
  "register_raw raw S =
     (let ref = raw_notification_ref raw in
      case st_raw S ref of
        None \<Rightarrow> Inr (S\<lparr>st_raw := (st_raw S)(ref \<mapsto> raw)\<rparr>)
      | Some b \<Rightarrow> if b \<noteq> raw then Inl (Refused (RawCollision ref)) else Inr S)"

definition register_unit :: "processing_unit \<Rightarrow> capture_store \<Rightarrow> failure + capture_store" where
  "register_unit u S =
     (case st_units S (unit_id u) of
        None \<Rightarrow>
          if (case pu_reprocesses u of
              None \<Rightarrow> False
            | Some p \<Rightarrow> (case st_units S p of
                None \<Rightarrow> True
              | Some prior \<Rightarrow> pr_logical_key prior \<noteq> logical_key (pu_notification u)))
          then Inl (Refused (UnknownLineage (case pu_reprocesses u of None \<Rightarrow> [] | Some p \<Rightarrow> p)))
          else Inr (S\<lparr>st_units := (st_units S)(unit_id u \<mapsto> unit_fields u)\<rparr>)
      | Some row \<Rightarrow> if row \<noteq> unit_fields u then Inl (Refused (UnitConflict (unit_id u))) else Inr S)"

definition register :: "processing_unit \<Rightarrow> capture_store \<Rightarrow> failure + string \<times> capture_store" where
  "register u S =
     bindE (register_identity (pu_notification u) S) (\<lambda>S1.
     bindE (register_raw (sn_raw_body (pu_notification u)) S1) (\<lambda>S2.
     bindE (register_unit u S2) (\<lambda>S3.
       Inr (raw_notification_ref (sn_raw_body (pu_notification u)), S3))))"

subsection \<open>Operations\<close>

definition receipt_body :: "processing_unit \<Rightarrow> capture_store \<Rightarrow> failure + string \<times> capture_store" where
  "receipt_body u S =
     bindE (register u S) (\<lambda>(ref, T).
       let T1 = T\<lparr>st_receipts := st_receipts T @ [(unit_id u, ref)]\<rparr>
       in Inr (ref, if st_progress T1 (unit_id u) = None then set_progress (unit_id u) Received T1 else T1))"

definition record_receipt :: "processing_unit \<Rightarrow> capture_store \<Rightarrow> (failure + string) \<times> capture_store" where
  "record_receipt u = transaction (receipt_body u)"

definition held :: "ownership_row option \<Rightarrow> bool" where
  "held row = (case row of None \<Rightarrow> False | Some r \<Rightarrow> ow_state r = Held)"

definition row_generation :: "ownership_row option \<Rightarrow> int" where
  "row_generation row = (case row of None \<Rightarrow> 0 | Some r \<Rightarrow> ow_generation r)"

definition acquire_body :: "processing_unit \<Rightarrow> capture_store \<Rightarrow> failure + (capture_ownership + frozen_capture) \<times> capture_store" where
  "acquire_body u S =
     bindE (register u S) (\<lambda>(ref, T).
       case load_capture T (unit_id u) of
         Some existing \<Rightarrow> Inr (Inr existing, T)
       | None \<Rightarrow>
           (let k = company_key u; row = st_ownership T k; g = row_generation row + 1 in
            if held row then Inl (Refused (Busy k (row_generation row)))
            else Inr (Inl \<lparr>co_company_key = k, co_unit_id = unit_id u, co_generation = g\<rparr>,
              set_progress (unit_id u) (Reserved g)
                (T\<lparr>st_ownership := (st_ownership T)(k \<mapsto>
                  \<lparr>ow_generation = g, ow_state = Held, ow_owner = Some (unit_id u)\<rparr>)\<rparr>))))"

definition acquire_or_load ::
    "processing_unit \<Rightarrow> capture_store \<Rightarrow> (failure + capture_ownership + frozen_capture) \<times> capture_store" where
  "acquire_or_load u = transaction (acquire_body u)"

definition acquire :: "processing_unit \<Rightarrow> capture_store \<Rightarrow> (failure + capture_ownership) \<times> capture_store" where
  "acquire u S =
     (case acquire_or_load u S of
        (Inl e, T) \<Rightarrow> (Inl e, T)
      | (Inr (Inr existing), T) \<Rightarrow> (Inl (Refused (AlreadyCaptured (unit_id u))), T)
      | (Inr (Inl owner), T) \<Rightarrow> (Inr owner, T))"

text \<open>The unit a pending document is validated against, rebuilt from the registered rows.\<close>

definition registered_unit ::
    "(string \<Rightarrow> string option) \<Rightarrow> capture_ownership \<Rightarrow> processing_row \<Rightarrow> json \<Rightarrow> capture_store \<Rightarrow> (processing_unit \<times> string) option" where
  "registered_unit fl owner row d S =
     Option.bind (str_at ''raw_notification_ref'' d) (\<lambda>ref.
     Option.bind (st_raw S ref) (\<lambda>raw.
     Option.bind (strict_json_loads fl raw) (\<lambda>payload.
       case from_payload fl payload raw of
         Inl _ \<Rightarrow> None
       | Inr n \<Rightarrow>
           (case make_unit n (pr_mapping_identity row) (pr_selection_identity row) (pr_adapter_identity row)
                (pr_reprocesses row) of
              Inl _ \<Rightarrow> None
            | Inr u \<Rightarrow>
                if unit_id u \<noteq> co_unit_id owner \<or> company_key u \<noteq> co_company_key owner \<or>
                  processing_version u \<noteq> pr_processing_version row \<or>
                  st_identities S (pr_logical_key row) \<noteq> Some (semantic_json n)
                then None else Some (u, ref)))))"

definition last_sequence :: "string \<Rightarrow> capture_store \<Rightarrow> int" where
  "last_sequence k S =
     (case map cr_sequence (filter (\<lambda>r. cr_company_key r = k) (st_captures S)) of
        [] \<Rightarrow> 0
      | n # ns \<Rightarrow> fold max ns n)"

text \<open>The primary key and the unique constraint of \<open>captures\<close>.\<close>

definition insert_capture :: "capture_row \<Rightarrow> capture_store \<Rightarrow> failure + capture_store" where
  "insert_capture r S =
     (if \<exists>x\<in>set (st_captures S). cr_unit_id x = cr_unit_id r \<or>
          (cr_company_key x = cr_company_key r \<and> cr_sequence x = cr_sequence r)
      then Inl Crashed else Inr (S\<lparr>st_captures := st_captures S @ [r]\<rparr>))"

definition with_sequence :: "int \<Rightarrow> json \<Rightarrow> json" where
  "with_sequence n d = (case d of JObj kvs \<Rightarrow> JObj (dict_set ''capture_sequence'' (JInt n) kvs) | _ \<Rightarrow> d)"

definition publish :: "capture_ownership \<Rightarrow> json \<Rightarrow> capture_store \<Rightarrow> failure + frozen_capture \<times> capture_store" where
  "publish owner d S =
     (let n = last_sequence (co_company_key owner) S + 1 in
      bindE (from_document (with_sequence n d)) (\<lambda>frozen.
      bindE (insert_capture \<lparr>cr_unit_id = co_unit_id owner, cr_company_key = co_company_key owner,
          cr_sequence = n, cr_body = frozen\<rparr> S) (\<lambda>T.
        Inr (frozen, set_progress (co_unit_id owner) (Captured n) (release owner T)))))"

definition freeze_body ::
    "(string \<Rightarrow> string option) \<Rightarrow> capture_ownership \<Rightarrow> frozen_capture \<Rightarrow> json \<Rightarrow> capture_store
      \<Rightarrow> failure + frozen_capture \<times> capture_store" where
  "freeze_body fl owner candidate d S =
     (if \<not> is_current S owner then Inl (Refused (StaleFence (co_generation owner) (co_company_key owner)))
      else case st_units S (co_unit_id owner) of
        None \<Rightarrow> Inl (Refused OwnershipMismatch)
      | Some row \<Rightarrow>
          if pr_company_key row \<noteq> co_company_key owner then Inl (Refused OwnershipMismatch)
          else case load_capture S (co_unit_id owner) of
            Some existing \<Rightarrow> Inr (existing, release owner S)
          | None \<Rightarrow>
              (case registered_unit fl owner row d S of
                 None \<Rightarrow> Inl (Refused InvalidCapture)
               | Some (u, ref) \<Rightarrow>
                   (case validate_pending_capture fl u owner ref candidate of
                      Some Crashed \<Rightarrow> Inl Crashed
                    | Some (Refused _) \<Rightarrow> Inl (Refused InvalidCapture)
                    | None \<Rightarrow> publish owner d S)))"

definition freeze ::
    "(string \<Rightarrow> string option) \<Rightarrow> capture_ownership \<Rightarrow> frozen_capture \<Rightarrow> capture_store
      \<Rightarrow> (failure + frozen_capture) \<times> capture_store" where
  "freeze fl owner candidate S =
     (case document fl candidate of
        None \<Rightarrow> (Inl (Refused InvalidCapture), S)
      | Some d \<Rightarrow>
          if member ''unit_id'' d \<noteq> Some (JStr (co_unit_id owner)) then (Inl (Refused DifferentUnit), S)
          else transaction (freeze_body fl owner candidate d) S)"

definition abandon_capture :: "capture_ownership \<Rightarrow> bool \<Rightarrow> capture_store \<Rightarrow> (failure + unit) \<times> capture_store" where
  "abandon_capture owner known_abandoned S =
     (if \<not> known_abandoned then (Inl (Refused NotKnownAbandoned), S)
      else if \<not> is_current S owner
      then (Inl (Refused (StaleFence (co_generation owner) (co_company_key owner))), S)
      else (Inr (), set_progress (co_unit_id owner) (WasAbandoned (co_generation owner))
        (S\<lparr>st_ownership := (st_ownership S)(co_company_key owner \<mapsto>
          \<lparr>ow_generation = co_generation owner + 1, ow_state = Abandoned, ow_owner = None\<rparr>)\<rparr>)))"

definition release_if_current :: "capture_ownership \<Rightarrow> refusal \<Rightarrow> capture_store \<Rightarrow> bool \<times> capture_store" where
  "release_if_current owner detail S =
     (if \<not> is_current S owner then (False, S)
      else (True, set_progress (co_unit_id owner) (WasRefused detail) (release owner S)))"

definition record_refusal :: "processing_unit \<Rightarrow> refusal \<Rightarrow> capture_store \<Rightarrow> capture_store" where
  "record_refusal u detail S =
     (if load_capture S (unit_id u) \<noteq> None then S
      else case st_ownership S (company_key u) of
          Some row \<Rightarrow>
            if ow_state row = Held \<and> ow_owner row = Some (unit_id u) then S
            else set_progress (unit_id u) (WasRefused detail) S
        | None \<Rightarrow> set_progress (unit_id u) (WasRefused detail) S)"

text \<open>Reads.\<close>

definition load_raw :: "capture_store \<Rightarrow> string \<Rightarrow> string option" where
  "load_raw S ref = st_raw S ref"

definition receipt_count :: "capture_store \<Rightarrow> string \<Rightarrow> nat" where
  "receipt_count S uid = length (filter (\<lambda>(u, _). u = uid) (st_receipts S))"

end
