(* ===== verification/Hubspot_Runs.thy ===== *)
theory Hubspot_Runs
  imports Hubspot_Store Fencing
begin

text \<open>
  The runs of the capture store: any operations by any workers, in any order, on one file.  The ownership
  tokens and candidates of a step are arbitrary, so a stale or forged one is covered.  The lemmas give the
  effect of each operation, the company as an instance of the fenced resource, and the keys of the captures.
\<close>

subsection \<open>Runs of the store\<close>

inductive store_step :: "(string \<Rightarrow> string option) \<Rightarrow> capture_store \<Rightarrow> capture_store \<Rightarrow> bool"
  for fl where
  receipt: "store_step fl S (snd (record_receipt u S))"
| acquiring: "store_step fl S (snd (acquire_or_load u S))"
| freezing: "store_step fl S (snd (freeze fl owner candidate S))"
| abandoning: "store_step fl S (snd (abandon_capture owner known S))"
| releasing: "store_step fl S (snd (release_if_current owner detail S))"
| refusing: "store_step fl S (record_refusal u detail S)"

definition store_run :: "(string \<Rightarrow> string option) \<Rightarrow> capture_store \<Rightarrow> capture_store \<Rightarrow> bool" where
  "store_run fl = (store_step fl)\<^sup>*\<^sup>*"

text \<open>The rows an append-only table may gain, and nothing else.\<close>

definition kept :: "capture_store \<Rightarrow> capture_store \<Rightarrow> bool" where
  "kept S T \<longleftrightarrow> st_identities S \<subseteq>\<^sub>m st_identities T \<and> st_raw S \<subseteq>\<^sub>m st_raw T \<and> st_units S \<subseteq>\<^sub>m st_units T \<and>
     (\<exists>rs. st_receipts T = st_receipts S @ rs) \<and> (\<exists>cs. st_captures T = st_captures S @ cs)"

lemma kept_refl [simp]: "kept S S"
  by (simp add: kept_def)

lemma kept_trans: "kept S T \<Longrightarrow> kept T U \<Longrightarrow> kept S U"
  by (auto simp: kept_def intro: map_le_trans)

lemma register_identity_kept:
  assumes "register_identity n S = Inr T"
  shows "kept S T" "st_captures T = st_captures S" "st_ownership T = st_ownership S" "st_raw T = st_raw S"
    "st_units T = st_units S" "st_receipts T = st_receipts S" "st_identities T (logical_key n) = Some (semantic_json n)"
  using assms by (auto simp: register_identity_def kept_def map_le_def split: option.splits if_splits)

lemma register_raw_kept:
  assumes "register_raw b S = Inr T"
  shows "kept S T" "st_captures T = st_captures S" "st_ownership T = st_ownership S"
    "st_raw T = (st_raw S)(raw_notification_ref b \<mapsto> b)" "st_units T = st_units S" "st_receipts T = st_receipts S"
    "st_identities T = st_identities S"
  using assms by (auto simp: register_raw_def Let_def kept_def map_le_def fun_upd_idem split: option.splits if_splits)

lemma register_unit_kept:
  assumes "register_unit u S = Inr T"
  shows "kept S T" "st_captures T = st_captures S" "st_ownership T = st_ownership S" "st_raw T = st_raw S"
    "st_identities T = st_identities S" "st_receipts T = st_receipts S" "st_units T (unit_id u) = Some (unit_fields u)"
  using assms by (auto simp: register_unit_def kept_def map_le_def split: option.splits if_splits)

lemma register_kept:
  assumes "register u S = Inr (ref, T)"
  shows "kept S T" "st_captures T = st_captures S" "st_ownership T = st_ownership S" "st_receipts T = st_receipts S"
    "st_raw T = (st_raw S)(raw_notification_ref (sn_raw_body (pu_notification u)) \<mapsto> sn_raw_body (pu_notification u))"
    "ref = raw_notification_ref (sn_raw_body (pu_notification u))"
    "st_units T (unit_id u) = Some (unit_fields u)"
    "st_identities T (logical_key (pu_notification u)) = Some (semantic_json (pu_notification u))"
proof -
  obtain S1 S2 where s: "register_identity (pu_notification u) S = Inr S1"
    "register_raw (sn_raw_body (pu_notification u)) S1 = Inr S2" "register_unit u S2 = Inr T"
    and ref: "ref = raw_notification_ref (sn_raw_body (pu_notification u))"
    using assms by (auto simp: register_def)
  note k = register_identity_kept [OF s(1)] register_raw_kept [OF s(2)] register_unit_kept [OF s(3)]
  show "kept S T" using k(1,8,15) kept_trans by blast
  show "st_captures T = st_captures S" "st_ownership T = st_ownership S" "st_receipts T = st_receipts S"
    "st_raw T = (st_raw S)(raw_notification_ref (sn_raw_body (pu_notification u)) \<mapsto> sn_raw_body (pu_notification u))"
    "ref = raw_notification_ref (sn_raw_body (pu_notification u))"
    "st_units T (unit_id u) = Some (unit_fields u)"
    "st_identities T (logical_key (pu_notification u)) = Some (semantic_json (pu_notification u))"
    using k ref by simp_all
qed

subsection \<open>What each operation does\<close>

lemma receipt_effect:
  assumes "record_receipt u S = (res, T)"
  shows "kept S T" "st_captures T = st_captures S" "st_ownership T = st_ownership S"
    "st_raw T = st_raw S \<or> (\<exists>b. st_raw T = (st_raw S)(raw_notification_ref b \<mapsto> b))"
    "res = Inr ref \<Longrightarrow> ref = raw_notification_ref (sn_raw_body (pu_notification u)) \<and>
       st_raw T ref = Some (sn_raw_body (pu_notification u)) \<and> st_units T (unit_id u) = Some (unit_fields u) \<and>
       st_identities T (logical_key (pu_notification u)) = Some (semantic_json (pu_notification u)) \<and>
       st_receipts T = st_receipts S @ [(unit_id u, ref)]"
proof -
  have "(\<exists>e. res = Inl e \<and> T = S) \<or> (\<exists>q R. register u S = Inr (q, R) \<and> res = Inr q \<and>
      st_identities T = st_identities R \<and> st_raw T = st_raw R \<and> st_units T = st_units R \<and>
      st_captures T = st_captures R \<and> st_ownership T = st_ownership R \<and> st_receipts T = st_receipts R @ [(unit_id u, q)])"
  proof (cases "register u S")
    case (Inl e)
    then show ?thesis using assms by (auto simp: record_receipt_def transaction_def receipt_body_def)
  next
    case (Inr p)
    then show ?thesis using assms
      by (cases p) (auto simp: record_receipt_def transaction_def receipt_body_def Let_def set_progress_def)
  qed
  then consider (unchanged) e where "res = Inl e" "T = S" |
    (wrote) q R where "register u S = Inr (q, R)" "res = Inr q" "st_identities T = st_identities R" "st_raw T = st_raw R"
      "st_units T = st_units R" "st_captures T = st_captures R" "st_ownership T = st_ownership R"
      "st_receipts T = st_receipts R @ [(unit_id u, q)]" by blast
  note cs = this
  show "kept S T"
  proof (cases rule: cs)
    case wrote
    have "kept R T" using wrote by (auto simp: kept_def)
    then show ?thesis using register_kept(1) [OF wrote(1)] kept_trans by blast
  qed simp
  show "st_captures T = st_captures S" by (cases rule: cs) (auto simp: register_kept)
  show "st_ownership T = st_ownership S" by (cases rule: cs) (auto simp: register_kept)
  show "st_raw T = st_raw S \<or> (\<exists>b. st_raw T = (st_raw S)(raw_notification_ref b \<mapsto> b))"
    by (cases rule: cs) (auto simp: register_kept(5))
  show "res = Inr ref \<Longrightarrow> ref = raw_notification_ref (sn_raw_body (pu_notification u)) \<and>
       st_raw T ref = Some (sn_raw_body (pu_notification u)) \<and> st_units T (unit_id u) = Some (unit_fields u) \<and>
       st_identities T (logical_key (pu_notification u)) = Some (semantic_json (pu_notification u)) \<and>
       st_receipts T = st_receipts S @ [(unit_id u, ref)]"
    by (cases rule: cs) (auto simp: register_kept)
qed

lemma acquire_effect:
  assumes "acquire_or_load u S = (res, T)"
  shows "kept S T" "st_captures T = st_captures S"
    "st_raw T = st_raw S \<or> (\<exists>b. st_raw T = (st_raw S)(raw_notification_ref b \<mapsto> b))"
    "res = Inr (Inr c) \<Longrightarrow> load_capture S (unit_id u) = Some c \<and> st_ownership T = st_ownership S"
    "res = Inr (Inl owner) \<Longrightarrow> load_capture S (unit_id u) = None \<and> \<not> held (st_ownership S (company_key u)) \<and>
       owner = \<lparr>co_company_key = company_key u, co_unit_id = unit_id u,
         co_generation = row_generation (st_ownership S (company_key u)) + 1\<rparr> \<and>
       st_ownership T = (st_ownership S)(company_key u \<mapsto>
         \<lparr>ow_generation = row_generation (st_ownership S (company_key u)) + 1, ow_state = Held, ow_owner = Some (unit_id u)\<rparr>) \<and>
       st_units T (unit_id u) = Some (unit_fields u) \<and>
       st_identities T (logical_key (pu_notification u)) = Some (semantic_json (pu_notification u))"
    "res = Inl e \<Longrightarrow> T = S"
proof -
  consider (unchanged) e where "res = Inl e" "T = S" |
    (loaded) q c where "register u S = Inr (q, T)" "res = Inr (Inr c)" "load_capture T (unit_id u) = Some c" |
    (got) q R g where "register u S = Inr (q, R)" "load_capture R (unit_id u) = None"
      "\<not> held (st_ownership R (company_key u))" "g = row_generation (st_ownership R (company_key u)) + 1"
      "res = Inr (Inl \<lparr>co_company_key = company_key u, co_unit_id = unit_id u, co_generation = g\<rparr>)"
      "T = set_progress (unit_id u) (Reserved g) (R\<lparr>st_ownership := (st_ownership R)(company_key u \<mapsto>
         \<lparr>ow_generation = g, ow_state = Held, ow_owner = Some (unit_id u)\<rparr>)\<rparr>)"
  proof (cases "register u S")
    case (Inl e)
    then show ?thesis using assms unchanged by (auto simp: acquire_or_load_def transaction_def acquire_body_def)
  next
    case (Inr p)
    then obtain q R where r: "register u S = Inr (q, R)" by (cases p) auto
    show ?thesis
    proof (cases "load_capture R (unit_id u)")
      case (Some c)
      then show ?thesis using assms r loaded by (auto simp: acquire_or_load_def transaction_def acquire_body_def)
    next
      case None
      show ?thesis
      proof (cases "held (st_ownership R (company_key u))")
        case True
        then show ?thesis using assms r None unchanged
          by (auto simp: acquire_or_load_def transaction_def acquire_body_def Let_def)
      next
        case False
        then show ?thesis using assms r None got
          by (auto simp: acquire_or_load_def transaction_def acquire_body_def Let_def)
      qed
    qed
  qed
  note cs = this
  have load: "load_capture R (unit_id u) = load_capture S (unit_id u)" if "register u S = Inr (q, R)" for q R
    using register_kept(2) [OF that] by (simp add: load_capture_def)
  show "kept S T"
  proof (cases rule: cs)
    case loaded
    then show ?thesis using register_kept(1) by blast
  next
    case got
    then have "kept R T" by (simp add: kept_def set_progress_def)
    then show ?thesis using register_kept(1) [OF got(1)] kept_trans by blast
  qed simp
  show "st_captures T = st_captures S"
    by (cases rule: cs) (auto simp: set_progress_def register_kept(2))
  show "st_raw T = st_raw S \<or> (\<exists>b. st_raw T = (st_raw S)(raw_notification_ref b \<mapsto> b))"
    by (cases rule: cs) (auto simp: set_progress_def register_kept(5))
  show "res = Inr (Inr c) \<Longrightarrow> load_capture S (unit_id u) = Some c \<and> st_ownership T = st_ownership S"
    by (cases rule: cs) (auto simp: register_kept(3) load)
  show "res = Inr (Inl owner) \<Longrightarrow> load_capture S (unit_id u) = None \<and> \<not> held (st_ownership S (company_key u)) \<and>
       owner = \<lparr>co_company_key = company_key u, co_unit_id = unit_id u,
         co_generation = row_generation (st_ownership S (company_key u)) + 1\<rparr> \<and>
       st_ownership T = (st_ownership S)(company_key u \<mapsto>
         \<lparr>ow_generation = row_generation (st_ownership S (company_key u)) + 1, ow_state = Held, ow_owner = Some (unit_id u)\<rparr>) \<and>
       st_units T (unit_id u) = Some (unit_fields u) \<and>
       st_identities T (logical_key (pu_notification u)) = Some (semantic_json (pu_notification u))"
    by (cases rule: cs) (auto simp: set_progress_def register_kept(3,7,8) load)
  show "res = Inl e \<Longrightarrow> T = S"
    by (cases rule: cs) auto
qed

lemma release_fields [simp]:
  "st_captures (release owner S) = st_captures S" "st_raw (release owner S) = st_raw S"
  "st_units (release owner S) = st_units S" "st_identities (release owner S) = st_identities S"
  "st_receipts (release owner S) = st_receipts S"
  by (simp_all add: release_def split: option.split)

lemma set_progress_fields [simp]:
  "st_captures (set_progress uid p S) = st_captures S" "st_raw (set_progress uid p S) = st_raw S"
  "st_units (set_progress uid p S) = st_units S" "st_identities (set_progress uid p S) = st_identities S"
  "st_receipts (set_progress uid p S) = st_receipts S" "st_ownership (set_progress uid p S) = st_ownership S"
  by (simp_all add: set_progress_def)

lemma release_ownership:
  "is_current S owner \<Longrightarrow> st_ownership (release owner S) = (st_ownership S)(co_company_key owner \<mapsto>
     \<lparr>ow_generation = co_generation owner, ow_state = Free, ow_owner = None\<rparr>)"
  by (auto simp: release_def is_current_def split: option.splits)

text \<open>What \<open>freeze\<close> publishes, and the checks it passed.\<close>

definition publishes ::
    "(string \<Rightarrow> string option) \<Rightarrow> capture_ownership \<Rightarrow> frozen_capture \<Rightarrow> capture_store \<Rightarrow> frozen_capture \<Rightarrow> capture_store \<Rightarrow> bool" where
  "publishes fl owner candidate S c T \<longleftrightarrow>
     (\<exists>d row u ref.
        is_current S owner \<and> load_capture S (co_unit_id owner) = None \<and> document fl candidate = Some d \<and>
        st_units S (co_unit_id owner) = Some row \<and> registered_unit fl owner row d S = Some (u, ref) \<and>
        validate_pending_capture fl u owner ref candidate = None \<and>
        finite_json (with_sequence (last_sequence (co_company_key owner) S + 1) d) \<and>
        c = canonical_text (with_sequence (last_sequence (co_company_key owner) S + 1) d) \<and>
        T = set_progress (co_unit_id owner) (Captured (last_sequence (co_company_key owner) S + 1))
          (release owner (S\<lparr>st_captures := st_captures S @
            [\<lparr>cr_unit_id = co_unit_id owner, cr_company_key = co_company_key owner,
              cr_sequence = last_sequence (co_company_key owner) S + 1, cr_body = c\<rparr>]\<rparr>)))"

lemma freeze_cases:
  assumes "freeze fl owner candidate S = (res, T)"
  obtains (refused) e where "res = Inl e" "T = S"
  | (winner) c where "res = Inr c" "is_current S owner" "load_capture S (co_unit_id owner) = Some c" "T = release owner S"
  | (published) c where "res = Inr c" "publishes fl owner candidate S c T"
proof (cases "document fl candidate")
  case None
  then show ?thesis using assms refused by (auto simp: freeze_def)
next
  case (Some d)
  show ?thesis
  proof (cases "member ''unit_id'' d \<noteq> Some (JStr (co_unit_id owner))")
    case True
    then show ?thesis using assms Some refused by (auto simp: freeze_def)
  next
    case False
    then have f: "transaction (freeze_body fl owner candidate d) S = (res, T)" using assms Some by (simp add: freeze_def)
    show ?thesis
    proof (cases res)
      case (Inl e)
      then show ?thesis using f refused by (simp add: transaction_Inl)
    next
      case (Inr c)
      then have b: "freeze_body fl owner candidate d S = Inr (c, T)" using f by (simp add: transaction_Inr)
      then obtain row where g: "is_current S owner" "st_units S (co_unit_id owner) = Some row"
        by (auto simp: freeze_body_def split: if_splits option.splits)
      show ?thesis
      proof (cases "load_capture S (co_unit_id owner)")
        case (Some x)
        then show ?thesis using b g winner Inr by (auto simp: freeze_body_def split: if_splits)
      next
        case None
        then obtain u ref where v: "registered_unit fl owner row d S = Some (u, ref)"
          "validate_pending_capture fl u owner ref candidate = None" "publish owner d S = Inr (c, T)"
          using b g by (auto simp: freeze_body_def split: if_splits option.splits failure.splits)
        from v(3) have "publishes fl owner candidate S c T"
          unfolding publishes_def using g None \<open>document fl candidate = Some d\<close> v(1,2)
          by (auto simp: publish_def Let_def from_document_def insert_capture_def split: if_splits)
        then show ?thesis using published Inr by blast
      qed
    qed
  qed
qed

lemma publishes_effect:
  assumes "publishes fl owner candidate S c T"
  shows "kept S T" "is_current S owner" "st_raw T = st_raw S" "load_capture S (co_unit_id owner) = None"
    "st_captures T = st_captures S @ [\<lparr>cr_unit_id = co_unit_id owner, cr_company_key = co_company_key owner,
       cr_sequence = last_sequence (co_company_key owner) S + 1, cr_body = c\<rparr>]"
    "st_ownership T = (st_ownership S)(co_company_key owner \<mapsto>
       \<lparr>ow_generation = co_generation owner, ow_state = Free, ow_owner = None\<rparr>)"
proof -
  have o: "is_current (S\<lparr>st_captures := xs\<rparr>) owner = is_current S owner" for xs by (simp add: is_current_def)
  show "is_current S owner" "st_raw T = st_raw S" "load_capture S (co_unit_id owner) = None" "kept S T"
    "st_captures T = st_captures S @ [\<lparr>cr_unit_id = co_unit_id owner, cr_company_key = co_company_key owner,
       cr_sequence = last_sequence (co_company_key owner) S + 1, cr_body = c\<rparr>]"
    using assms by (auto simp: publishes_def kept_def)
  then show "st_ownership T = (st_ownership S)(co_company_key owner \<mapsto>
       \<lparr>ow_generation = co_generation owner, ow_state = Free, ow_owner = None\<rparr>)"
    using assms release_ownership [of "S\<lparr>st_captures := _\<rparr>" owner] o by (auto simp: publishes_def)
qed

subsection \<open>The company is a fenced resource\<close>

definition company_generation :: "capture_store \<Rightarrow> string \<Rightarrow> int" where
  "company_generation S k = row_generation (st_ownership S k)"

definition company_holder :: "capture_store \<Rightarrow> string \<Rightarrow> string option" where
  "company_holder S k = (case st_ownership S k of None \<Rightarrow> None | Some r \<Rightarrow> if ow_state r = Held then ow_owner r else None)"

lemma is_current_fence:
  "is_current S owner \<longleftrightarrow> company_holder S (co_company_key owner) = Some (co_unit_id owner) \<and>
     company_generation S (co_company_key owner) = co_generation owner"
  by (auto simp: is_current_def company_holder_def company_generation_def row_generation_def split: option.splits)

text \<open>How one step moves the ownership of a company.\<close>

lemma step_ownership:
  assumes "store_step fl S T"
  shows "(company_generation T k = company_generation S k \<and> company_holder T k = company_holder S k) \<or>
    (company_generation T k = company_generation S k \<and> company_holder T k = None) \<or>
    company_generation T k = company_generation S k + 1"
  using assms
proof cases
  case (receipt u)
  then have "st_ownership T = st_ownership S" using receipt_effect(3) [of u S "fst (record_receipt u S)" T] by simp
  then show ?thesis by (simp add: company_generation_def company_holder_def)
next
  case (acquiring u)
  then obtain res where a: "acquire_or_load u S = (res, T)" by (metis prod.collapse)
  have "st_ownership T = st_ownership S \<or> st_ownership T = (st_ownership S)(company_key u \<mapsto>
      \<lparr>ow_generation = row_generation (st_ownership S (company_key u)) + 1, ow_state = Held, ow_owner = Some (unit_id u)\<rparr>)"
  proof (cases res)
    case (Inr x)
    then show ?thesis using acquire_effect(4,5) [OF a] by (cases x) blast+
  qed (use acquire_effect(6) [OF a] in auto)
  then show ?thesis
    by (cases "k = company_key u") (auto simp: company_generation_def company_holder_def row_generation_def)
next
  case (freezing owner candidate)
  then obtain res where f: "freeze fl owner candidate S = (res, T)" by (metis prod.collapse)
  from f show ?thesis
  proof (cases rule: freeze_cases)
    case (winner c)
    then show ?thesis using release_ownership [OF winner(2)] is_current_fence [of S owner]
      by (auto simp: company_generation_def company_holder_def row_generation_def)
  next
    case (published c)
    then show ?thesis using publishes_effect(2,6) [OF published(2)] is_current_fence [of S owner]
      by (auto simp: company_generation_def company_holder_def row_generation_def)
  qed simp
next
  case (abandoning owner known)
  then show ?thesis using is_current_fence [of S owner]
    by (auto simp: abandon_capture_def company_generation_def company_holder_def row_generation_def)
next
  case (releasing owner detail)
  then show ?thesis using release_ownership [of S owner] is_current_fence [of S owner]
    by (auto simp: release_if_current_def company_generation_def company_holder_def row_generation_def)
next
  case (refusing u detail)
  then have "st_ownership T = st_ownership S" by (auto simp: record_refusal_def split: option.splits)
  then show ?thesis by (simp add: company_generation_def company_holder_def)
qed

lemma step_new_ownership:
  assumes "store_step fl S T" "st_ownership S k = None" "st_ownership T k \<noteq> None"
  shows "company_generation T k = 1"
  using assms
proof cases
  case (receipt u)
  then have "st_ownership T = st_ownership S" using receipt_effect(3) [of u S "fst (record_receipt u S)" T] by simp
  then show ?thesis using assms by simp
next
  case (acquiring u)
  then obtain res where a: "acquire_or_load u S = (res, T)" by (metis prod.collapse)
  then show ?thesis using acquire_effect(4,5,6) [OF a] assms(2,3)
    by (cases res; cases "projr res") (auto simp: company_generation_def row_generation_def split: if_splits)
next
  case (freezing owner candidate)
  then obtain res where f: "freeze fl owner candidate S = (res, T)" by (metis prod.collapse)
  from f show ?thesis
  proof (cases rule: freeze_cases)
    case (published c)
    then show ?thesis using publishes_effect(2,6) [OF published(2)] assms(2,3)
      by (auto simp: is_current_def split: if_splits)
  qed (use assms(2,3) in \<open>auto simp: release_def split: if_splits option.splits\<close>)
next
  case (abandoning owner known)
  then show ?thesis using assms(2,3) by (auto simp: abandon_capture_def is_current_def split: if_splits option.splits)
next
  case (releasing owner detail)
  then show ?thesis using assms(2,3) by (auto simp: release_if_current_def release_def split: if_splits option.splits)
next
  case (refusing u detail)
  then show ?thesis using assms(2,3) by (auto simp: record_refusal_def split: option.splits if_splits)
qed

interpretation company: fence "store_step fl" company_generation company_holder
  for fl :: "string \<Rightarrow> string option"
proof
  show "company_generation S k \<le> company_generation T k" if "store_step fl S T" for S T k
    using step_ownership [OF that, of k] by auto
  show "company_holder S k = Some u"
    if "store_step fl S T" "company_generation T k = company_generation S k" "company_holder T k = Some u" for S T k u
    using step_ownership [OF that(1), of k] that(2,3) by auto
qed

subsection \<open>Invariants of the store\<close>

definition capture_keys :: "capture_store \<Rightarrow> bool" where
  "capture_keys S \<longleftrightarrow> distinct (map cr_unit_id (st_captures S)) \<and>
     (\<forall>k. map cr_sequence (filter (\<lambda>r. cr_company_key r = k) (st_captures S)) =
        [1..int (length (filter (\<lambda>r. cr_company_key r = k) (st_captures S)))]) \<and>
     (\<forall>ref raw. st_raw S ref = Some raw \<longrightarrow> ref = raw_notification_ref raw) \<and>
     (\<forall>k r. st_ownership S k = Some r \<longrightarrow> 1 \<le> ow_generation r)"

lemma fold_max_upto: "1 \<le> n \<Longrightarrow> fold max [2..n] 1 = n" for n :: int
proof (induction n rule: int_ge_induct)
  case (step i)
  then show ?case by (simp add: upto_rec2)
qed simp

lemma last_sequence_length:
  assumes "capture_keys S"
  shows "last_sequence k S = int (length (filter (\<lambda>r. cr_company_key r = k) (st_captures S)))"
proof -
  let ?n = "length (filter (\<lambda>r. cr_company_key r = k) (st_captures S))"
  have s: "map cr_sequence (filter (\<lambda>r. cr_company_key r = k) (st_captures S)) = [1..int ?n]"
    using assms by (simp add: capture_keys_def)
  show ?thesis
  proof (cases ?n)
    case 0
    then show ?thesis unfolding last_sequence_def s by simp
  next
    case (Suc m)
    have u: "[1..int ?n] = 1 # [2..int ?n]" using Suc by (simp add: upto_rec1)
    have "fold max [2..int ?n] 1 = int ?n"
      by (rule fold_max_upto) (use Suc in simp)
    then show ?thesis unfolding last_sequence_def s u by simp
  qed
qed

lemma load_capture_None: "load_capture S uid = None \<longleftrightarrow> uid \<notin> cr_unit_id ` set (st_captures S)"
  by (auto simp: load_capture_def find_None_iff)

lemma load_capture_Some:
  "capture_keys S \<Longrightarrow> load_capture S uid = Some c \<longleftrightarrow> (\<exists>r\<in>set (st_captures S). cr_unit_id r = uid \<and> cr_body r = c)"
  by (force simp: load_capture_def capture_keys_def find_distinct_key_iff)

lemma raw_rows: "R' = R \<or> (\<exists>b. R' = R(raw_notification_ref b \<mapsto> b)) \<Longrightarrow>
    \<forall>ref raw. R ref = Some raw \<longrightarrow> ref = raw_notification_ref raw \<Longrightarrow>
    \<forall>ref raw. R' ref = Some raw \<longrightarrow> ref = raw_notification_ref raw"
  by (auto split: if_splits)

lemma step_kept:
  assumes "store_step fl S T"
  shows "kept S T"
  using assms
proof cases
  case (receipt u)
  then show ?thesis using receipt_effect(1) [of u S "fst (record_receipt u S)" T] by simp
next
  case (acquiring u)
  then show ?thesis using acquire_effect(1) [of u S "fst (acquire_or_load u S)" T] by simp
next
  case (freezing owner candidate)
  then obtain res where f: "freeze fl owner candidate S = (res, T)" by (metis prod.collapse)
  from f show ?thesis
    by (cases rule: freeze_cases) (auto simp: kept_def dest: publishes_effect(1))
next
  case (abandoning owner known)
  then show ?thesis by (auto simp: abandon_capture_def kept_def)
next
  case (releasing owner detail)
  then show ?thesis by (auto simp: release_if_current_def kept_def)
next
  case (refusing u detail)
  then show ?thesis by (auto simp: record_refusal_def kept_def split: option.splits)
qed

text \<open>What a step adds to the captures.\<close>

lemma step_captures:
  assumes "store_step fl S T"
  shows "st_captures T = st_captures S \<or> (\<exists>owner candidate c. publishes fl owner candidate S c T)"
  using assms
proof cases
  case (receipt u)
  then show ?thesis using receipt_effect(2) [of u S "fst (record_receipt u S)" T] by simp
next
  case (acquiring u)
  then show ?thesis using acquire_effect(2) [of u S "fst (acquire_or_load u S)" T] by simp
next
  case (freezing owner candidate)
  then obtain res where f: "freeze fl owner candidate S = (res, T)" by (metis prod.collapse)
  from f show ?thesis by (cases rule: freeze_cases) auto
next
  case (abandoning owner known)
  then show ?thesis by (auto simp: abandon_capture_def)
next
  case (releasing owner detail)
  then show ?thesis by (auto simp: release_if_current_def)
next
  case (refusing u detail)
  then show ?thesis by (auto simp: record_refusal_def split: option.splits)
qed

lemma step_raw:
  assumes "store_step fl S T"
  shows "st_raw T = st_raw S \<or> (\<exists>b. st_raw T = (st_raw S)(raw_notification_ref b \<mapsto> b))"
  using assms
proof cases
  case (receipt u)
  then show ?thesis using receipt_effect(4) [of u S "fst (record_receipt u S)" T] by simp
next
  case (acquiring u)
  then show ?thesis using acquire_effect(3) [of u S "fst (acquire_or_load u S)" T] by simp
next
  case (freezing owner candidate)
  then obtain res where f: "freeze fl owner candidate S = (res, T)" by (metis prod.collapse)
  from f show ?thesis by (cases rule: freeze_cases) (auto dest: publishes_effect(3))
next
  case (abandoning owner known)
  then show ?thesis by (auto simp: abandon_capture_def)
next
  case (releasing owner detail)
  then show ?thesis by (auto simp: release_if_current_def)
next
  case (refusing u detail)
  then show ?thesis by (auto simp: record_refusal_def split: option.splits)
qed

lemma step_keys:
  assumes "store_step fl S T" "capture_keys S"
  shows "capture_keys T"
proof -
  have raws: "\<forall>ref raw. st_raw T ref = Some raw \<longrightarrow> ref = raw_notification_ref raw"
    by (rule raw_rows [OF step_raw [OF assms(1)]]) (use assms(2) in \<open>simp add: capture_keys_def\<close>)
  have gens: "\<forall>k r. st_ownership T k = Some r \<longrightarrow> 1 \<le> ow_generation r"
  proof (intro allI impI)
    fix k r assume r: "st_ownership T k = Some r"
    have "1 \<le> company_generation S k \<or> company_generation S k = 0 \<and> company_holder S k = None \<and> st_ownership S k = None"
      using assms(2) by (auto simp: company_generation_def company_holder_def row_generation_def capture_keys_def split: option.split)
    then show "1 \<le> ow_generation r"
      using step_ownership [OF assms(1), of k] r step_new_ownership [OF assms(1), of k]
      by (auto simp: company_generation_def row_generation_def)
  qed
  show ?thesis
  proof (cases "st_captures T = st_captures S")
    case True
    then show ?thesis using assms(2) raws gens by (simp add: capture_keys_def)
  next
    case False
    then obtain owner candidate c where p: "publishes fl owner candidate S c T" using step_captures [OF assms(1)] by blast
    note e = publishes_effect(4,5) [OF p]
    have "co_unit_id owner \<notin> cr_unit_id ` set (st_captures S)" using e(1) by (simp add: load_capture_None)
    then have "distinct (map cr_unit_id (st_captures T))" using assms(2) by (simp add: e(2) capture_keys_def)
    moreover have "map cr_sequence (filter (\<lambda>r. cr_company_key r = k) (st_captures T)) =
        [1..int (length (filter (\<lambda>r. cr_company_key r = k) (st_captures T)))]" for k
    proof -
      have "map cr_sequence (filter (\<lambda>r. cr_company_key r = k) (st_captures S)) =
          [1..int (length (filter (\<lambda>r. cr_company_key r = k) (st_captures S)))]" using assms(2) by (simp add: capture_keys_def)
      then show ?thesis
        by (simp add: e(2) last_sequence_length [OF assms(2)] upto_rec2)
    qed
    ultimately show ?thesis using raws gens by (simp add: capture_keys_def)
  qed
qed

end
