(* ===== verification/Hubspot_Once.thy ===== *)
theory Hubspot_Once
  imports Hubspot_Runs Hubspot_Reading Digest_Shape
begin

text \<open>
  \<open>capture_once\<close> (\<open>adapters/hubspot/capture.py\<close>) over the store.  \<open>env i\<close> is what other workers do to the
  file before the next transaction of the call; it is any run of the store.  The callbacks \<open>observe\<close>,
  \<open>select_logic\<close> and \<open>clock\<close> are arguments, as in the code.
\<close>

subsection \<open>One capture\<close>

definition conclude ::
    "capture_ownership \<Rightarrow> failure + frozen_capture \<Rightarrow> capture_store \<Rightarrow> (failure + frozen_capture) \<times> capture_store" where
  "conclude owner res S =
     (case res of
        Inl (Refused detail) \<Rightarrow> (res, snd (release_if_current owner detail S))
      | _ \<Rightarrow> (res, S))"

definition capture_once ::
    "(string \<Rightarrow> string option) \<Rightarrow> (nat \<Rightarrow> capture_store \<Rightarrow> capture_store) \<Rightarrow> processing_unit
      \<Rightarrow> (capture_ownership \<Rightarrow> failure + read_result option) \<Rightarrow> failure + rule_identity option \<Rightarrow> clock
      \<Rightarrow> capture_store \<Rightarrow> (failure + frozen_capture) \<times> capture_store" where
  "capture_once fl env u observe select_logic clock S0 =
     (case record_receipt u S0 of
        (Inl e, S) \<Rightarrow> (Inl e, S)
      | (Inr ref, S) \<Rightarrow>
          let S1 = env 0 S in
          case load_capture S1 (unit_id u) of
            Some existing \<Rightarrow> (Inr existing, S1)
          | None \<Rightarrow>
              if pu_mapping_identity u \<noteq> MAPPING_IDENTITY then
                (Inl (Refused (UnsupportedMapping (pu_mapping_identity u))),
                 record_refusal u (UnsupportedMapping (pu_mapping_identity u)) (env 1 S1))
              else case acquire_or_load u (env 1 S1) of
                  (Inl e, S2) \<Rightarrow> (Inl e, S2)
                | (Inr (Inr existing), S2) \<Rightarrow> (Inr existing, S2)
                | (Inr (Inl owner), S2) \<Rightarrow>
                    (case build_candidate u owner ref observe select_logic clock of
                       Inl e \<Rightarrow> conclude owner (Inl e) (env 2 S2)
                     | Inr candidate \<Rightarrow>
                         (let (res, S3) = freeze fl owner candidate (env 2 S2)
                          in conclude owner res (env 3 S3))))"

subsection \<open>Runs\<close>

lemma store_run_refl [simp]: "store_run fl S S"
  by (simp add: store_run_def)

lemma store_run_trans: "store_run fl S T \<Longrightarrow> store_run fl T U \<Longrightarrow> store_run fl S U"
  by (auto simp: store_run_def)

lemma store_run_step: "store_step fl S T \<Longrightarrow> store_run fl S T"
  by (auto simp: store_run_def)

lemma run_receipt: "record_receipt u S = (res, T) \<Longrightarrow> store_run fl S T"
  using store_run_step [OF store_step.receipt [of fl S u]] by simp

lemma run_acquire: "acquire_or_load u S = (res, T) \<Longrightarrow> store_run fl S T"
  using store_run_step [OF store_step.acquiring [of fl S u]] by simp

lemma run_freeze: "freeze fl owner candidate S = (res, T) \<Longrightarrow> store_run fl S T"
  using store_run_step [OF store_step.freezing [of fl S owner candidate]] by simp

lemma run_conclude: "conclude owner res S = (res', T) \<Longrightarrow> store_run fl S T \<and> res' = res"
  using store_run_step [OF store_step.releasing [of fl S owner]]
  by (auto simp: conclude_def split: sum.splits failure.splits)

lemma run_kept: "store_run fl S T \<Longrightarrow> kept S T"
  unfolding store_run_def by (induction rule: rtranclp_induct) (auto intro: kept_trans step_kept)

lemma run_keys: "store_run fl S T \<Longrightarrow> capture_keys S \<Longrightarrow> capture_keys T"
  unfolding store_run_def by (induction rule: rtranclp_induct) (auto intro: step_keys)

lemma empty_keys [simp]: "capture_keys empty_store"
  by (simp add: capture_keys_def empty_store_def)

lemma store_keys: "store_run fl empty_store S \<Longrightarrow> capture_keys S"
  using run_keys by simp

lemma kept_load: "kept S T \<Longrightarrow> load_capture S uid = Some c \<Longrightarrow> load_capture T uid = Some c"
  by (auto simp: kept_def load_capture_def find_append split: option.split)

lemma filter_distinct_key:
  "distinct (map k xs) \<Longrightarrow> filter (\<lambda>x. k x = a) xs = (case find (\<lambda>x. k x = a) xs of None \<Rightarrow> [] | Some x \<Rightarrow> [x])"
proof (induction xs)
  case (Cons x xs)
  have "filter (\<lambda>y. k y = k x) xs = []" using Cons.prems by (auto simp: filter_empty_conv image_iff)
  moreover have "find (\<lambda>y. k y = k x) xs = None" using Cons.prems by (auto simp: find_None_iff image_iff)
  ultimately show ?case using Cons by (auto split: option.split)
qed simp

text \<open>How \<open>capture_once\<close> ends: one case for each return and each raise.\<close>

lemma capture_once_ends:
  assumes "capture_once fl env u observe select clk S0 = (res, T)" "\<And>i V. store_run fl V (env i V)"
  obtains (refused_receipt) e where "record_receipt u S0 = (Inl e, T)" "res = Inl e"
  | (stored) ref S c where "record_receipt u S0 = (Inr ref, S)" "load_capture (env 0 S) (unit_id u) = Some c"
      "res = Inr c" "T = env 0 S"
  | (no_mapping) ref S where "record_receipt u S0 = (Inr ref, S)" "load_capture (env 0 S) (unit_id u) = None"
      "pu_mapping_identity u \<noteq> MAPPING_IDENTITY" "res = Inl (Refused (UnsupportedMapping (pu_mapping_identity u)))"
      "store_run fl (env 0 S) T"
  | (busy) ref S e where "record_receipt u S0 = (Inr ref, S)" "load_capture (env 0 S) (unit_id u) = None"
      "acquire_or_load u (env 1 (env 0 S)) = (Inl e, T)" "res = Inl e"
  | (lost_race) ref S c where "record_receipt u S0 = (Inr ref, S)" "load_capture (env 0 S) (unit_id u) = None"
      "acquire_or_load u (env 1 (env 0 S)) = (Inr (Inr c), T)" "res = Inr c"
  | (no_candidate) ref S owner S2 e where "record_receipt u S0 = (Inr ref, S)" "load_capture (env 0 S) (unit_id u) = None"
      "acquire_or_load u (env 1 (env 0 S)) = (Inr (Inl owner), S2)"
      "build_candidate u owner ref observe select clk = Inl e" "res = Inl e" "conclude owner res (env 2 S2) = (res, T)"
  | (frozen) ref S owner S2 candidate S3 where "record_receipt u S0 = (Inr ref, S)" "load_capture (env 0 S) (unit_id u) = None"
      "acquire_or_load u (env 1 (env 0 S)) = (Inr (Inl owner), S2)"
      "build_candidate u owner ref observe select clk = Inr candidate" "freeze fl owner candidate (env 2 S2) = (res, S3)"
      "conclude owner res (env 3 S3) = (res, T)"
proof -
  obtain got S where r: "record_receipt u S0 = (got, S)" by (cases "record_receipt u S0")
  show ?thesis
  proof (cases got)
    case (Inl e)
    then show ?thesis using refused_receipt [of e] assms(1) r by (simp add: capture_once_def)
  next
    case ref: (Inr ref)
    show ?thesis
    proof (cases "load_capture (env 0 S) (unit_id u)")
      case (Some c)
      then show ?thesis using stored [of ref S c] assms(1) r ref by (simp add: capture_once_def)
    next
      case None
      show ?thesis
      proof (cases "pu_mapping_identity u = MAPPING_IDENTITY")
        case False
        let ?detail = "UnsupportedMapping (pu_mapping_identity u)"
        have "store_run fl (env 0 S) (record_refusal u ?detail (env 1 (env 0 S)))"
          using store_run_trans [OF assms(2) store_run_step [OF store_step.refusing]] by blast
        then show ?thesis using no_mapping [of ref S] assms(1) r ref None False by (simp add: capture_once_def)
      next
        case True
        obtain a S2 where a: "acquire_or_load u (env 1 (env 0 S)) = (a, S2)" by (cases "acquire_or_load u (env 1 (env 0 S))")
        note so_far = assms(1) r ref None True a
        show ?thesis
        proof (cases a)
          case (Inl e)
          then show ?thesis using busy [of ref S e] so_far by (simp add: capture_once_def)
        next
          case (Inr x)
          show ?thesis
          proof (cases x)
            case loaded: (Inr c)
            then show ?thesis using lost_race [of ref S c] so_far Inr by (simp add: capture_once_def)
          next
            case owner: (Inl owner)
            show ?thesis
            proof (cases "build_candidate u owner ref observe select clk")
              case b: (Inl e)
              then have c: "conclude owner (Inl e) (env 2 S2) = (res, T)" using so_far Inr owner by (simp add: capture_once_def)
              have "res = Inl e" using run_conclude [OF c] by blast
              then show ?thesis using no_candidate [of ref S owner S2 e] so_far Inr owner b c by simp
            next
              case b: (Inr candidate)
              obtain res' S3 where f: "freeze fl owner candidate (env 2 S2) = (res', S3)"
                by (cases "freeze fl owner candidate (env 2 S2)")
              then have c: "conclude owner res' (env 3 S3) = (res, T)" using so_far Inr owner b by (simp add: capture_once_def)
              have "res = res'" using run_conclude [OF c] by blast
              then show ?thesis using frozen [of ref S owner S2 candidate S3] so_far Inr owner b c f by simp
            qed
          qed
        qed
      qed
    qed
  qed
qed

subsection \<open>Exactly once\<close>

lemma freeze_stored:
  assumes "freeze fl owner candidate S = (Inr c, T)"
  shows "load_capture T (co_unit_id owner) = Some c"
  using assms
proof (cases rule: freeze_cases)
  case (published c')
  note e = publishes_effect(4,5) [OF published(2)]
  then show ?thesis using published(1) by (auto simp: load_capture_def find_append)
qed (auto simp: load_capture_def)

lemma conclude_Inr: "conclude owner (Inr c) S = (Inr c, S)"
  by (simp add: conclude_def)

lemma run_acquired:
  assumes "record_receipt u S0 = (res, S)" "\<And>i V. store_run fl V (env i V)"
    "acquire_or_load u (env (Suc 0) (env 0 S)) = (a, T)"
  shows "store_run fl S0 T"
proof -
  have "store_run fl S0 (env 0 S)" by (rule store_run_trans [OF run_receipt [OF assms(1)] assms(2)])
  then have "store_run fl S0 (env (Suc 0) (env 0 S))" by (rule store_run_trans [OF _ assms(2)])
  then show ?thesis by (rule store_run_trans [OF _ run_acquire [OF assms(3)]])
qed

lemma capture_once_run:
  assumes "capture_once fl env u observe select clk S0 = (res, T)" "\<And>i V. store_run fl V (env i V)"
  shows "store_run fl S0 T"
  using assms
proof (cases rule: capture_once_ends)
  case (refused_receipt e)
  then show ?thesis by (simp add: run_receipt)
next
  case (stored ref S c)
  then show ?thesis using store_run_trans [OF run_receipt assms(2)] by simp
next
  case (no_mapping ref S)
  have "store_run fl S0 (env 0 S)" by (rule store_run_trans [OF run_receipt [OF no_mapping(1)] assms(2)])
  then show ?thesis using no_mapping(5) by (rule store_run_trans)
next
  case (busy ref S e)
  then show ?thesis using run_acquired [OF busy(1) assms(2)] by simp
next
  case (lost_race ref S c)
  then show ?thesis using run_acquired [OF lost_race(1) assms(2)] by simp
next
  case (no_candidate ref S owner S2 e)
  then have "store_run fl S0 S2" using run_acquired [OF no_candidate(1) assms(2)] by simp
  then have "store_run fl S0 (env 2 S2)" by (rule store_run_trans [OF _ assms(2)])
  then show ?thesis by (rule store_run_trans [OF _ conjunct1 [OF run_conclude [OF no_candidate(6)]]])
next
  case (frozen ref S owner S2 candidate S3)
  then have "store_run fl S0 S2" using run_acquired [OF frozen(1) assms(2)] by simp
  then have "store_run fl S0 (env 2 S2)" by (rule store_run_trans [OF _ assms(2)])
  then have "store_run fl S0 S3" by (rule store_run_trans [OF _ run_freeze [OF frozen(5)]])
  then have "store_run fl S0 (env 3 S3)" by (rule store_run_trans [OF _ assms(2)])
  then show ?thesis by (rule store_run_trans [OF _ conjunct1 [OF run_conclude [OF frozen(6)]]])
qed

lemma acquired_unit: "acquire_or_load u S = (Inr (Inl owner), T) \<Longrightarrow> co_unit_id owner = unit_id u"
  using acquire_effect(5) [of u S "Inr (Inl owner)" T owner] by simp

lemma capture_once_stored:
  assumes "capture_once fl env u observe select clk S0 = (Inr c, T)" "\<And>i V. store_run fl V (env i V)"
  shows "load_capture T (unit_id u) = Some c"
  using assms
proof (cases rule: capture_once_ends)
  case (stored ref S c')
  then show ?thesis by simp
next
  case (lost_race ref S c')
  note e = acquire_effect(2,4) [OF lost_race(3)]
  then show ?thesis using lost_race(4) by (simp add: load_capture_def)
next
  case (frozen ref S owner S2 candidate S3)
  then have t: "T = env 3 S3" by (simp add: conclude_Inr)
  have "load_capture S3 (unit_id u) = Some c" using freeze_stored [OF frozen(5)] acquired_unit [OF frozen(3)] by simp
  then show ?thesis using kept_load [OF run_kept [OF assms(2)]] t by blast
qed simp_all

text \<open>C21: Exactly once: whatever other workers do during and between them, two captures of one unit return the
  same bytes, and the store holds one capture of the unit, those bytes.\<close>
theorem capture_once_exactly_once:
  assumes "store_run fl empty_store S1" "\<And>i V. store_run fl V (env1 i V)"
    "capture_once fl env1 u1 observe1 select1 clock1 S1 = (Inr c1, T1)"
    and "store_run fl empty_store S2" "\<And>i V. store_run fl V (env2 i V)"
    "capture_once fl env2 u2 observe2 select2 clock2 S2 = (Inr c2, T2)"
    and "unit_id u1 = unit_id u2" "store_run fl T1 V" "store_run fl T2 V"
  shows "c1 = c2 \<and> map cr_body (filter (\<lambda>r. cr_unit_id r = unit_id u1) (st_captures V)) = [c1]"
proof -
  have keys: "capture_keys V"
    using store_keys store_run_trans [OF assms(1) store_run_trans [OF capture_once_run [OF assms(3,2)] assms(8)]] by blast
  have one: "load_capture V (unit_id u1) = Some c1"
    by (rule kept_load [OF run_kept [OF assms(8)] capture_once_stored [OF assms(3,2)]])
  have "load_capture V (unit_id u1) = Some c2"
    unfolding assms(7) by (rule kept_load [OF run_kept [OF assms(9)] capture_once_stored [OF assms(6,5)]])
  then show ?thesis
    using one keys filter_distinct_key [of cr_unit_id "st_captures V" "unit_id u1"]
    by (auto simp: load_capture_def capture_keys_def split: option.splits)
qed

subsection \<open>A complete read is captured\<close>

text \<open>A unit as the code makes it: its notification read from its own raw body, its fields checked.\<close>

definition proper_unit :: "(string \<Rightarrow> string option) \<Rightarrow> processing_unit \<Rightarrow> bool" where
  "proper_unit fl u \<longleftrightarrow>
     (\<exists>payload. strict_json_loads fl (sn_raw_body (pu_notification u)) = Some payload \<and>
        from_payload fl payload (sn_raw_body (pu_notification u)) = Inr (pu_notification u)) \<and>
     make_unit (pu_notification u) (pu_mapping_identity u) (pu_selection_identity u) (pu_adapter_identity u)
       (pu_reprocesses u) = Inr u"

definition next_owner :: "capture_store \<Rightarrow> processing_unit \<Rightarrow> capture_ownership" where
  "next_owner S u = \<lparr>co_company_key = company_key u, co_unit_id = unit_id u,
     co_generation = row_generation (st_ownership S (company_key u)) + 1\<rparr>"

lemma proper_unit_clean:
  assumes "repr_law fl" "proper_unit fl u"
  shows "body_ok (sn_body (pu_notification u))" "clean fl (sb_property_value (sn_body (pu_notification u)))"
proof -
  obtain payload where p: "strict_json_loads fl (sn_raw_body (pu_notification u)) = Some payload"
    "from_payload fl payload (sn_raw_body (pu_notification u)) = Inr (pu_notification u)"
    using assms(2) by (auto simp: proper_unit_def)
  show "body_ok (sn_body (pu_notification u))" by (rule from_payload_ok(1) [OF p(2)])
  show "clean fl (sb_property_value (sn_body (pu_notification u)))"
    using strict_clean [OF assms(1) p(1)] from_payload_ok(3) [OF p(2)] by auto
qed

lemma register_again:
  assumes "register u S = Inr (ref, T)" "kept T V"
  shows "register u V = Inr (ref, V)"
proof -
  note r = register_kept(5-8) [OF assms(1)]
  have "st_units V (unit_id u) = Some (unit_fields u)"
    "st_identities V (logical_key (pu_notification u)) = Some (semantic_json (pu_notification u))"
    "st_raw V ref = Some (sn_raw_body (pu_notification u))"
    using r assms(2) by (auto simp: kept_def map_le_def dom_def)
  then show ?thesis using r(2) by (simp add: register_def register_identity_def register_raw_def register_unit_def)
qed

lemma acquire_free:
  assumes "register u S = Inr (ref, S)" "load_capture S (unit_id u) = None" "\<not> held (st_ownership S (company_key u))"
  obtains T where "acquire_or_load u S = (Inr (Inl (next_owner S u)), T)" "is_current T (next_owner S u)"
    "st_captures T = st_captures S" "kept S T"
  using assms that
  by (simp add: acquire_or_load_def transaction_def acquire_body_def Let_def next_owner_def is_current_def kept_def
      set_progress_def)

lemma receipt_then_acquire:
  assumes "record_receipt u S0 = (Inr ref, S)" "load_capture S0 (unit_id u) = None"
    "\<not> held (st_ownership S0 (company_key u))"
  obtains T where "acquire_or_load u S = (Inr (Inl (next_owner S0 u)), T)" "is_current T (next_owner S0 u)"
    "st_captures T = st_captures S0" "st_raw T ref = Some (sn_raw_body (pu_notification u))"
    "st_units T (unit_id u) = Some (unit_fields u)"
    "st_identities T (logical_key (pu_notification u)) = Some (semantic_json (pu_notification u))"
proof -
  obtain q R where reg: "register u S0 = Inr (q, R)"
    using assms(1) by (cases "register u S0") (auto simp: record_receipt_def transaction_def receipt_body_def)
  have q: "q = ref" "kept R S" "st_ownership S = st_ownership S0" "st_captures S = st_captures S0"
    using assms(1) reg register_kept(2,3) [OF reg]
    by (auto simp: record_receipt_def transaction_def receipt_body_def Let_def kept_def split: if_splits)
  have again: "register u S = Inr (ref, S)" using register_again [OF reg q(2)] q(1) by simp
  define T where "T = set_progress (unit_id u) (Reserved (row_generation (st_ownership S (company_key u)) + 1))
     (S\<lparr>st_ownership := (st_ownership S)(company_key u \<mapsto> \<lparr>ow_generation = row_generation (st_ownership S (company_key u)) + 1,
        ow_state = Held, ow_owner = Some (unit_id u)\<rparr>)\<rparr>)"
  have "acquire_or_load u S = (Inr (Inl (next_owner S0 u)), T)"
    using again assms(2,3) q
    by (simp add: acquire_or_load_def transaction_def acquire_body_def Let_def T_def next_owner_def load_capture_def)
  moreover have "is_current T (next_owner S0 u)" using q(3) by (simp add: T_def is_current_def next_owner_def)
  ultimately show ?thesis
    using that q(4) receipt_effect(5) [OF assms(1), of ref] register_kept(6) [OF reg] q(1) by (simp add: T_def)
qed

lemma insert_capture_ok:
  assumes "capture_keys S" "load_capture S (cr_unit_id r) = None" "cr_sequence r = last_sequence (cr_company_key r) S + 1"
  shows "insert_capture r S = Inr (S\<lparr>st_captures := st_captures S @ [r]\<rparr>)"
proof -
  have "cr_sequence x < cr_sequence r" if x: "x \<in> set (st_captures S)" "cr_company_key x = cr_company_key r" for x
  proof -
    let ?xs = "filter (\<lambda>y. cr_company_key y = cr_company_key r) (st_captures S)"
    have "map cr_sequence ?xs = [1..int (length ?xs)]" using assms(1) by (simp add: capture_keys_def)
    then have "cr_sequence ` set ?xs = {1..int (length ?xs)}" by (metis list.set_map set_upto)
    then have "cr_sequence x \<le> int (length ?xs)" using x by force
    then show ?thesis using assms(3) last_sequence_length [OF assms(1)] by simp
  qed
  moreover have "cr_unit_id x \<noteq> cr_unit_id r" if "x \<in> set (st_captures S)" for x
    using assms(2) imageI [OF that, of cr_unit_id] by (auto simp: load_capture_None)
  ultimately show ?thesis by (fastforce simp: insert_capture_def)
qed

lemma finite_with_sequence: "finite_json d \<Longrightarrow> finite_json (with_sequence n d)"
proof (cases d)
  case (JObj kvs)
  assume "finite_json d"
  then have "\<forall>(k, v)\<in>insert (''capture_sequence'', JInt n) (set kvs). finite_json v"
    using JObj by (simp add: finite_object) (simp add: finite_json_def)
  then show ?thesis using JObj dict_set_set [of "''capture_sequence''" "JInt n" kvs]
    by (auto simp: with_sequence_def finite_object)
qed (simp_all add: with_sequence_def)

lemma registered_unit_proper:
  assumes "proper_unit fl u" "str_at ''raw_notification_ref'' d = Some ref" "st_raw S ref = Some (sn_raw_body (pu_notification u))"
    "st_identities S (logical_key (pu_notification u)) = Some (semantic_json (pu_notification u))"
    "co_unit_id owner = unit_id u" "co_company_key owner = company_key u"
  shows "registered_unit fl owner (unit_fields u) d S = Some (u, ref)"
  using assms by (auto simp: registered_unit_def proper_unit_def unit_fields_def)

lemma complete_read:
  assumes "repr_law fl" "store_run fl empty_store S" "proper_unit fl u" "pu_mapping_identity u = MAPPING_IDENTITY"
    and "fst (record_receipt u S) = Inr ref" "load_capture S (unit_id u) = None" "\<not> held (st_ownership S (company_key u))"
    and "observe (next_owner S u) = Inr (Some r)" "made_read r" "clean fl (JObj (rd_properties r))"
    and "select = Inr (Some rule)" "made_rule rule" "\<And>i t. clk i = Inr t \<Longrightarrow> datetime_ok t"
    and "candidate_parts r clk iv tms os es"
  shows "\<exists>c T d. document fl (canonical_text (capture_document u (next_owner S u) ref iv r tms rule os es)) = Some d \<and>
     c = canonical_text (with_sequence (last_sequence (company_key u) S + 1) d) \<and>
     capture_once fl (\<lambda>_ V. V) u observe select clk S = (Inr c, T) \<and>
     st_captures T = st_captures S @ [\<lparr>cr_unit_id = unit_id u, cr_company_key = company_key u,
       cr_sequence = last_sequence (company_key u) S + 1, cr_body = c\<rparr>] \<and>
     \<not> held (st_ownership T (company_key u))"
proof -
  let ?owner = "next_owner S u"
  let ?d = "capture_document u ?owner ref iv r tms rule os es"
  let ?n = "last_sequence (company_key u) S + 1"
  let ?c = "canonical_text (with_sequence ?n (jnorm ?d))"
  obtain S1 where r1: "record_receipt u S = (Inr ref, S1)" using assms(5) by (metis prod.collapse)
  obtain S2 where s2: "acquire_or_load u S1 = (Inr (Inl ?owner), S2)" "is_current S2 ?owner" "st_captures S2 = st_captures S"
      "st_raw S2 ref = Some (sn_raw_body (pu_notification u))" "st_units S2 (unit_id u) = Some (unit_fields u)"
      "st_identities S2 (logical_key (pu_notification u)) = Some (semantic_json (pu_notification u))"
    using receipt_then_acquire [OF r1 assms(6,7)] .
  note valid = candidate_valid [where owner = ?owner and ref = ref,
      OF assms(4) proper_unit_clean [OF assms(1,3)] assms(9,10,12,14)]
  have v: "clean fl ?d" "document fl (canonical_text ?d) = Some (jnorm ?d)"
    "validate_pending_capture fl u ?owner ref (canonical_text ?d) = None"
    using valid assms(13) by blast+
  have b: "build_candidate u ?owner ref observe select clk = Inr (canonical_text ?d)"
    unfolding build_candidate_Inr using assms(8,11,14) clean_finite [OF v(1)] by blast
  have o: "co_unit_id ?owner = unit_id u" "co_company_key ?owner = company_key u" by (simp_all add: next_owner_def)
  have reg: "registered_unit fl ?owner (unit_fields u) (jnorm ?d) S2 = Some (u, ref)"
    using v(1) by (intro registered_unit_proper [OF assms(3) _ s2(4,6) o]) (simp add: document_members)
  have keys: "capture_keys S2"
    using assms(2) run_receipt [OF r1] run_acquire [OF s2(1)] store_keys store_run_trans by blast
  have seq: "last_sequence (company_key u) S2 = last_sequence (company_key u) S" by (simp add: last_sequence_def s2(3))
  have load: "load_capture S2 (unit_id u) = None" "load_capture S1 (unit_id u) = None"
    using assms(6) receipt_effect(2) [OF r1] by (simp_all add: load_capture_def s2(3))
  have fin: "finite_json (with_sequence ?n (jnorm ?d))" using clean_norm_value [OF v(1)] finite_with_sequence by blast
  let ?row = "\<lparr>cr_unit_id = unit_id u, cr_company_key = company_key u, cr_sequence = ?n, cr_body = ?c\<rparr>"
  let ?T = "set_progress (unit_id u) (Captured ?n) (release ?owner (S2\<lparr>st_captures := st_captures S2 @ [?row]\<rparr>))"
  have ins: "insert_capture ?row S2 = Inr (S2\<lparr>st_captures := st_captures S2 @ [?row]\<rparr>)"
    by (rule insert_capture_ok [OF keys]) (simp_all add: load seq)
  have "member ''unit_id'' (jnorm ?d) = Some (JStr (unit_id u))"
    using v(1) by (simp add: clean_member_jnorm) (simp add: capture_document_def Let_def)
  then have f: "freeze fl ?owner (canonical_text ?d) S2 = (Inr ?c, ?T)"
    using s2(2,5) v(3) reg ins fin
    by (simp add: freeze_def v(2) o transaction_def freeze_body_def load unit_fields_def publish_def Let_def seq from_document_def)
  have "capture_once fl (\<lambda>_ V. V) u observe select clk S = (Inr ?c, ?T)"
    by (simp add: capture_once_def r1 load s2(1) b f conclude_Inr assms(4))
  moreover have "\<not> held (st_ownership ?T (company_key u))"
    using s2(2) o by (auto simp: release_def is_current_def held_def split: option.split)
  moreover have "st_captures ?T = st_captures S @ [?row]" by (simp add: s2(3))
  ultimately show ?thesis using v(2) by blast
qed

text \<open>C20: A valid read of a registered company that nobody holds is captured: \<open>freeze\<close> accepts the candidate the call
  builds, and publishes it as the next capture of the company.\<close>
theorem capture_once_completes:
  assumes "repr_law fl" "store_run fl empty_store S" "proper_unit fl u" "pu_mapping_identity u = MAPPING_IDENTITY"
    and "fst (record_receipt u S) = Inr ref" "load_capture S (unit_id u) = None" "\<not> held (st_ownership S (company_key u))"
    and "observe (next_owner S u) = Inr (Some r)" "made_read r" "clean fl (JObj (rd_properties r))"
    and "select = Inr (Some rule)" "made_rule rule" "\<And>i t. clk i = Inr t \<Longrightarrow> datetime_ok t"
    and "candidate_parts r clk iv tms os es"
  shows "\<exists>c T d. document fl (canonical_text (capture_document u (next_owner S u) ref iv r tms rule os es)) = Some d \<and>
     c = canonical_text (with_sequence (last_sequence (company_key u) S + 1) d) \<and>
     capture_once fl (\<lambda>_ V. V) u observe select clk S = (Inr c, T) \<and>
     st_captures T = st_captures S @ [\<lparr>cr_unit_id = unit_id u, cr_company_key = company_key u,
       cr_sequence = last_sequence (company_key u) S + 1, cr_body = c\<rparr>] \<and>
     \<not> held (st_ownership T (company_key u))"
  by (rule complete_read) (fact assms)+

subsection \<open>Retries\<close>

lemma receipt_registered:
  assumes "record_receipt u S = (Inr ref, T)"
  shows "\<exists>R. register u S = Inr (ref, R) \<and> kept R T"
proof -
  obtain q R where reg: "register u S = Inr (q, R)"
    using assms by (cases "register u S") (auto simp: record_receipt_def transaction_def receipt_body_def)
  then show ?thesis using assms
    by (auto simp: record_receipt_def transaction_def receipt_body_def Let_def kept_def)
qed

lemma receipt_again:
  assumes "record_receipt u S = (Inr ref, T)" "kept T V"
  obtains W where "record_receipt u V = (Inr ref, W)" "st_captures W = st_captures V" "st_ownership W = st_ownership V"
    "st_receipts W = st_receipts V @ [(unit_id u, ref)]"
proof -
  obtain R where "register u S = Inr (ref, R)" "kept R V" using receipt_registered [OF assms(1)] assms(2) kept_trans by blast
  then have "register u V = Inr (ref, V)" using register_again by blast
  then show ?thesis using that by (simp add: record_receipt_def transaction_def receipt_body_def Let_def set_progress_def)
qed

lemma capture_once_received:
  assumes "capture_once fl env u observe select clk S0 = (Inr c, T)" "\<And>i V. store_run fl V (env i V)"
  shows "\<exists>ref S. record_receipt u S0 = (Inr ref, S) \<and> store_run fl S T"
proof -
  obtain got S where r: "record_receipt u S0 = (got, S)" by (cases "record_receipt u S0")
  have "\<exists>ref. got = Inr ref" using assms(1) r by (cases got) (auto simp: capture_once_def)
  then obtain ref where ref: "got = Inr ref" by blast
  have e: "store_run fl S (env 0 S)" by (rule assms(2))
  have ea: "store_run fl S X" if "acquire_or_load u (env 1 (env 0 S)) = (a, X)" for a X
    using store_run_trans [OF store_run_trans [OF e assms(2)] run_acquire [OF that]] .
  from assms have "store_run fl S T"
  proof (cases rule: capture_once_ends)
    case (lost_race ref' S' c')
    then show ?thesis using ea [of _ T] r by simp
  next
    case (frozen ref' S' owner S2 candidate S3)
    then have "store_run fl S S2" using ea [of _ S2] r by simp
    then have "store_run fl S (env 2 S2)" by (rule store_run_trans [OF _ assms(2)])
    then have "store_run fl S S3" by (rule store_run_trans [OF _ run_freeze [OF frozen(5)]])
    then have "store_run fl S (env 3 S3)" by (rule store_run_trans [OF _ assms(2)])
    then show ?thesis by (rule store_run_trans [OF _ conjunct1 [OF run_conclude [OF frozen(6)]]])
  qed (use e r in simp_all)
  then show ?thesis using r ref by blast
qed

lemma retry_loads:
  assumes "capture_once fl env u observe select clk S = (Inr c, T)" "\<And>i V. store_run fl V (env i V)" "store_run fl T V"
  shows "\<exists>W ref. capture_once fl (\<lambda>_ X. X) u observe' select' clk' V = (Inr c, W) \<and> st_captures W = st_captures V \<and>
     st_ownership W = st_ownership V \<and> st_receipts W = st_receipts V @ [(unit_id u, ref)]"
proof -
  obtain ref S1 where r: "record_receipt u S = (Inr ref, S1)" "store_run fl S1 T"
    using capture_once_received [OF assms(1,2)] by blast
  have "kept S1 V" using store_run_trans [OF r(2) assms(3)] by (rule run_kept)
  then obtain W where w: "record_receipt u V = (Inr ref, W)" "st_captures W = st_captures V" "st_ownership W = st_ownership V"
    "st_receipts W = st_receipts V @ [(unit_id u, ref)]" using receipt_again [OF r(1)] by blast
  have "load_capture V (unit_id u) = Some c"
    by (rule kept_load [OF run_kept [OF assms(3)] capture_once_stored [OF assms(1,2)]])
  then have "load_capture W (unit_id u) = Some c" by (simp add: load_capture_def w(2))
  then show ?thesis using w by (simp add: capture_once_def)
qed

text \<open>A retry returns the stored capture whatever its callbacks would do: it adds one receipt and changes neither the
  captures nor the ownership.\<close>
theorem capture_once_retry:
  assumes "capture_once fl env u observe select clk S = (Inr c, T)" "\<And>i V. store_run fl V (env i V)" "store_run fl T V"
  shows "\<exists>W ref. capture_once fl (\<lambda>_ X. X) u observe' select' clk' V = (Inr c, W) \<and> st_captures W = st_captures V \<and>
     st_ownership W = st_ownership V \<and> st_receipts W = st_receipts V @ [(unit_id u, ref)]"
  by (rule retry_loads [OF assms])

subsection \<open>Fences\<close>

text \<open>C22: A worker that lost its ownership never gets it back: after any further operations of anyone it can neither
  freeze, nor release, nor abandon, and none of these changes the store.\<close>
theorem lost_ownership_refused:
  assumes "is_current S owner" "store_run fl S T" "\<not> is_current T owner" "store_run fl T V"
  shows "(\<exists>e. freeze fl owner candidate V = (Inl (Refused e), V)) \<and> release_if_current owner detail V = (False, V) \<and>
    (\<exists>e. abandon_capture owner known V = (Inl (Refused e), V))"
proof -
  have n: "\<not> is_current V owner"
    using company.current_lost [where s = S and t = T and v = V and k = "co_company_key owner" and u = "co_unit_id owner"
        and g = "co_generation owner" and fl = fl] assms
    by (simp add: company.current_def is_current_fence store_run_def)
  then show ?thesis
    by (simp add: freeze_def transaction_def freeze_body_def release_if_current_def abandon_capture_def split: option.split)
qed

text \<open>Acquiring gives the only current ownership of the company, with a generation greater than that of every earlier
  one; and it is given only where the company has no holder and the unit no capture.\<close>
theorem acquire_fences:
  assumes "acquire_or_load u S = (Inr (Inl owner), T)" "store_run fl S0 S" "is_current S0 earlier"
    "co_company_key earlier = company_key u"
  shows "is_current T owner \<and> co_unit_id owner = unit_id u \<and> co_company_key owner = company_key u \<and>
    \<not> is_current T earlier \<and> co_generation earlier < co_generation owner \<and>
    company_holder S (company_key u) = None \<and> load_capture S (unit_id u) = None"
proof -
  note e = acquire_effect(5) [OF assms(1) refl]
  have "company_generation S0 (company_key u) \<le> company_generation S (company_key u)"
    using company.generation_run assms(2) unfolding store_run_def by blast
  then have g: "co_generation earlier < co_generation owner"
    using e assms(3,4) by (simp add: is_current_fence company_generation_def)
  have "company_holder S (company_key u) = None" using e by (auto simp: company_holder_def held_def split: option.split)
  moreover have "is_current T owner" "\<not> is_current T earlier" using e g assms(4) by (auto simp: is_current_def)
  ultimately show ?thesis using e g by simp
qed

text \<open>C26: In every reachable store a unit has at most one capture, and the captures of a company are numbered
  1, 2, 3, ... in the order they were published.\<close>
theorem capture_sequences:
  assumes "store_run fl empty_store S"
  shows "distinct (map cr_unit_id (st_captures S)) \<and>
    map cr_sequence (filter (\<lambda>r. cr_company_key r = k) (st_captures S)) =
      [1..int (length (filter (\<lambda>r. cr_company_key r = k) (st_captures S)))]"
  using store_keys [OF assms] by (auto simp: capture_keys_def)

end
