(* ===== verification/Hubspot_Example.thy ===== *)
theory Hubspot_Example
  imports Evaluator Hubspot_Once
begin

text \<open>
  A run of the capture store on a concrete notification and read, at which the theorems of \<open>Hubspot_Once\<close>
  are applied.  Digests stay symbolic; only their shape is needed.
\<close>

subsection \<open>A notification and a read\<close>

definition demo_fl :: "string \<Rightarrow> string option" where
  "demo_fl t = (if t = ''1.5'' \<or> t = ''1.50'' then Some ''1.5'' else None)"

definition demo_body :: semantic_body where
  "demo_body = \<lparr>sb_portal_id = JInt 11, sb_app_id = JInt 12, sb_subscription_id = JInt 13, sb_object_id = JInt 42,
     sb_property_name = ''numberofemployees'', sb_property_value = JFloat ''1.5'', sb_occurred_at = 1700000000000,
     sb_event_id = JInt 7, sb_change_source = Some (JStr ''CRM'')\<rparr>"

definition demo_notification :: source_notification where
  "demo_notification = \<lparr>sn_raw_body = canonical_text (JObj (payload_list demo_body)), sn_body = demo_body\<rparr>"

definition demo_unit :: processing_unit where
  "demo_unit = \<lparr>pu_notification = demo_notification, pu_mapping_identity = MAPPING_IDENTITY,
     pu_selection_identity = ''select-1'', pu_adapter_identity = ''adapter-1'', pu_reprocesses = None\<rparr>"

definition demo_read :: read_result where
  "demo_read = \<lparr>rd_properties = [(''numberofemployees'', JInt 250), (''country'', JNull), (''hubspotscore'', JFloat ''1.5'')],
     rd_available_at = [(''numberofemployees'', Some (Aware (Utc (Date 2026 4 1) 9 0 0 0) 0))],
     rd_ignored = [], rd_unavailable = [''industry'']\<rparr>"

definition demo_rule :: rule_identity where
  "demo_rule = \<lparr>ri_artifact_hash = canonical_hash (dump_artifact demo_artifact), ri_evaluator_version = EVALUATOR_VERSION\<rparr>"

definition demo_clock :: clock where
  "demo_clock i = Inr (Some (Aware (Utc (Date 2026 4 16) 9 0 (int (min i 2)) 0) 0))"

definition demo_interval :: read_interval where
  "demo_interval = \<lparr>iv_started = Utc (Date 2026 4 16) 9 0 0 0, iv_finished = Utc (Date 2026 4 16) 9 0 1 0,
     iv_boundary = Utc (Date 2026 4 16) 9 0 2 0\<rparr>"

lemma demo_repr: "repr_law demo_fl"
proof -
  have "float_token ''1.5''" by code_simp
  then show ?thesis by (auto simp: repr_law_def demo_fl_def)
qed

lemma demo_payload:
  "jnorm (JObj (payload_list demo_body)) = JObj [(''appId'', JInt 12), (''changeSource'', JStr ''CRM''), (''eventId'', JInt 7),
     (''objectId'', JInt 42), (''occurredAt'', JInt 1700000000000), (''portalId'', JInt 11),
     (''propertyName'', JStr ''numberofemployees''), (''propertyValue'', JFloat ''1.5''), (''subscriptionId'', JInt 13),
     (''subscriptionType'', JStr ''company.propertyChange'')]"
  by code_simp

lemma demo_body_ok: "body_ok demo_body" "clean demo_fl (sb_property_value demo_body)"
proof -
  have "float_token ''1.5''" by code_simp
  then show "clean demo_fl (sb_property_value demo_body)" by (simp add: demo_body_def demo_fl_def)
qed (simp add: body_ok_def demo_body_def is_identifier_def)

lemma demo_strict:
  "strict_json_loads demo_fl (sn_raw_body demo_notification) = Some (jnorm (JObj (payload_list demo_body)))"
  using clean_strict [OF clean_payload [OF demo_body_ok]] by (simp add: demo_notification_def del: jnorm.simps)

lemma demo_from_payload:
  "from_payload demo_fl (jnorm (JObj (payload_list demo_body))) (sn_raw_body demo_notification) = Inr demo_notification"
proof -
  let ?p = "[(''appId'', JInt 12), (''changeSource'', JStr ''CRM''), (''eventId'', JInt 7),
     (''objectId'', JInt 42), (''occurredAt'', JInt 1700000000000), (''portalId'', JInt 11),
     (''propertyName'', JStr ''numberofemployees''), (''propertyValue'', JFloat ''1.5''), (''subscriptionId'', JInt 13),
     (''subscriptionType'', JStr ''company.propertyChange'')]"
  have t: "typed_equal (JObj ?p) (JObj ?p)" by code_simp
  have k: "sort (filter (\<lambda>k. k \<notin> set KNOWN_KEYS) (map fst ?p)) = []" "filter (\<lambda>k. map_of ?p k = None) REQUIRED_KEYS = []"
    "List.map_filter (map_of ?p) TYPE_ALIASES = [JStr SUPPORTED_SUBSCRIPTION_TYPE]"
    "read_body ?p ''numberofemployees'' 1700000000000 = Inr demo_body"
    by code_simp+
  show ?thesis
    unfolding from_payload_def demo_strict demo_payload json.case option.case Let_def k using t
    by (simp add: demo_notification_def k del: typed_equal.simps(1))
qed

lemma mapping_identity_shape: "sha256_hex_string MAPPING_IDENTITY"
  unfolding MAPPING_IDENTITY_def canonical_hash_def by (rule sha256_hex_shape)

lemma demo_proper: "proper_unit demo_fl demo_unit"
proof -
  have "MAPPING_IDENTITY \<noteq> []" using mapping_identity_shape by (auto simp: sha256_hex_string_def)
  then show ?thesis
    using demo_strict demo_from_payload by (simp add: proper_unit_def demo_unit_def make_unit_def raise_if_def del: jnorm.simps)
qed

subsection \<open>The captures\<close>

definition demo_states :: "read_state list" where
  "demo_states = [Consumed (JInt 250), Unavailable, Unavailable, Absent, Absent, Absent, Absent]"

lemma demo_candidate:
  "candidate_parts demo_read demo_clock demo_interval [(''numberofemployees'', ''2026-04-01T09:00:00.000000Z'')] demo_states
     [Ignored (JFloat ''1.5'')]"
  by code_simp

lemma demo_made: "made_read demo_read" "clean demo_fl (JObj (rd_properties demo_read))" "made_rule demo_rule"
  "demo_clock i = Inr t \<Longrightarrow> datetime_ok t"
proof -
  show "made_read demo_read" by code_simp
  have "sha256_hex_string (canonical_hash (dump_artifact demo_artifact))" unfolding canonical_hash_def by (rule sha256_hex_shape)
  then show "made_rule demo_rule"
    by (auto simp: made_rule_def make_rule_def demo_rule_def EVALUATOR_VERSION_def raise_if_def sha256_hex_string_def)
  have "float_token ''1.5''" by code_simp
  then show "clean demo_fl (JObj (rd_properties demo_read))" by (simp add: demo_read_def demo_fl_def)
next
  assume "demo_clock i = Inr t"
  then have t: "t = Some (Aware (Utc (Date 2026 4 16) 9 0 (int (min i 2)) 0) 0)" by (simp add: demo_clock_def)
  show "datetime_ok t" unfolding t by (simp add: valid_ymd_def days_in_month_def)
qed

lemma demo_receipt:
  "fst (record_receipt demo_unit empty_store) = Inr (raw_notification_ref (sn_raw_body demo_notification))"
  by (simp add: record_receipt_def transaction_def receipt_body_def register_def register_identity_def register_raw_def
      register_unit_def empty_store_def demo_unit_def Let_def)

lemma demo_empty:
  "load_capture empty_store (unit_id demo_unit) = None" "\<not> held (st_ownership empty_store (company_key demo_unit))"
  "pu_mapping_identity demo_unit = MAPPING_IDENTITY" "st_captures empty_store = []" "last_sequence k empty_store = 0"
  by (simp_all add: load_capture_def empty_store_def held_def demo_unit_def last_sequence_def)

theorem capture_once_completes_witness:
  "\<exists>c T. capture_once demo_fl (\<lambda>_ V. V) demo_unit (\<lambda>_. Inr (Some demo_read)) (Inr (Some demo_rule)) demo_clock empty_store = (Inr c, T) \<and>
     map cr_sequence (st_captures T) = [1]"
proof -
  have "\<exists>c T d. document demo_fl (canonical_text (capture_document demo_unit (next_owner empty_store demo_unit)
        (raw_notification_ref (sn_raw_body demo_notification)) demo_interval demo_read
        [(''numberofemployees'', ''2026-04-01T09:00:00.000000Z'')] demo_rule demo_states [Ignored (JFloat ''1.5'')])) = Some d \<and>
     c = canonical_text (with_sequence (last_sequence (company_key demo_unit) empty_store + 1) d) \<and>
     capture_once demo_fl (\<lambda>_ V. V) demo_unit (\<lambda>_. Inr (Some demo_read)) (Inr (Some demo_rule)) demo_clock empty_store = (Inr c, T) \<and>
     st_captures T = st_captures empty_store @ [\<lparr>cr_unit_id = unit_id demo_unit, cr_company_key = company_key demo_unit,
       cr_sequence = last_sequence (company_key demo_unit) empty_store + 1, cr_body = c\<rparr>] \<and>
     \<not> held (st_ownership T (company_key demo_unit))"
    by (rule capture_once_completes [OF demo_repr store_run_refl demo_proper demo_empty(3) demo_receipt demo_empty(1,2) _ demo_made(1,2) _ demo_made(3)
          _ demo_candidate]) (use demo_made(4) in simp_all)
  then show ?thesis by (fastforce simp: demo_empty)
qed

definition demo_document :: json where
  "demo_document = capture_document demo_unit (next_owner empty_store demo_unit)
     (raw_notification_ref (sn_raw_body demo_notification)) demo_interval demo_read
     [(''numberofemployees'', ''2026-04-01T09:00:00.000000Z'')] demo_rule demo_states [Ignored (JFloat ''1.5'')]"

lemma demo_document_clean: "clean demo_fl demo_document"
  unfolding demo_document_def
  by (rule candidate_valid(1) [OF demo_empty(3) proper_unit_clean [OF demo_repr demo_proper] demo_made(1-3) demo_candidate demo_made(4)])

text \<open>The same run, for the other theorems: the capture, its company, and a retry.\<close>

lemma demo_capture_document:
  obtains c T where "capture_once demo_fl (\<lambda>_ V. V) demo_unit (\<lambda>_. Inr (Some demo_read)) (Inr (Some demo_rule)) demo_clock
      empty_store = (Inr c, T)" "store_run demo_fl empty_store T"
    "st_captures T = [\<lparr>cr_unit_id = unit_id demo_unit, cr_company_key = company_key demo_unit, cr_sequence = 1, cr_body = c\<rparr>]"
    "c = canonical_text (with_sequence 1 (jnorm demo_document))"
proof -
  have "\<exists>c T d. document demo_fl (canonical_text (capture_document demo_unit (next_owner empty_store demo_unit)
        (raw_notification_ref (sn_raw_body demo_notification)) demo_interval demo_read
        [(''numberofemployees'', ''2026-04-01T09:00:00.000000Z'')] demo_rule demo_states [Ignored (JFloat ''1.5'')])) = Some d \<and>
     c = canonical_text (with_sequence (last_sequence (company_key demo_unit) empty_store + 1) d) \<and>
     capture_once demo_fl (\<lambda>_ V. V) demo_unit (\<lambda>_. Inr (Some demo_read)) (Inr (Some demo_rule)) demo_clock empty_store = (Inr c, T) \<and>
     st_captures T = st_captures empty_store @ [\<lparr>cr_unit_id = unit_id demo_unit, cr_company_key = company_key demo_unit,
       cr_sequence = last_sequence (company_key demo_unit) empty_store + 1, cr_body = c\<rparr>] \<and>
     \<not> held (st_ownership T (company_key demo_unit))"
    by (rule complete_read [OF demo_repr store_run_refl demo_proper demo_empty(3) demo_receipt demo_empty(1,2) _ demo_made(1,2) _
          demo_made(3) _ demo_candidate]) (use demo_made(4) in simp_all)
  then obtain c T d where r: "document demo_fl (canonical_text demo_document) = Some d" "c = canonical_text (with_sequence 1 d)"
    "capture_once demo_fl (\<lambda>_ V. V) demo_unit (\<lambda>_. Inr (Some demo_read)) (Inr (Some demo_rule)) demo_clock empty_store = (Inr c, T)"
    "st_captures T = [\<lparr>cr_unit_id = unit_id demo_unit, cr_company_key = company_key demo_unit, cr_sequence = 1, cr_body = c\<rparr>]"
    unfolding demo_document_def [symmetric] by (auto simp: demo_empty)
  have "d = jnorm demo_document" using r(1) clean_loads [OF demo_document_clean] by (simp only: document_def option.inject)
  with r(2) have c: "c = canonical_text (with_sequence 1 (jnorm demo_document))" by (simp only:)
  show ?thesis by (rule that [OF r(3) capture_once_run [OF r(3) store_run_refl] r(4) c])
qed

lemma demo_capture:
  obtains c T where "capture_once demo_fl (\<lambda>_ V. V) demo_unit (\<lambda>_. Inr (Some demo_read)) (Inr (Some demo_rule)) demo_clock
      empty_store = (Inr c, T)" "store_run demo_fl empty_store T" "map cr_sequence (st_captures T) = [1]"
proof -
  obtain c T where d: "capture_once demo_fl (\<lambda>_ V. V) demo_unit (\<lambda>_. Inr (Some demo_read)) (Inr (Some demo_rule)) demo_clock
      empty_store = (Inr c, T)" "store_run demo_fl empty_store T"
    "st_captures T = [\<lparr>cr_unit_id = unit_id demo_unit, cr_company_key = company_key demo_unit, cr_sequence = 1, cr_body = c\<rparr>]"
    by (rule demo_capture_document)
  show ?thesis by (rule that [OF d(1,2)]) (simp add: d(3))
qed

theorem capture_once_exactly_once_witness:
  "\<exists>c T c' V. capture_once demo_fl (\<lambda>_ V. V) demo_unit (\<lambda>_. Inr (Some demo_read)) (Inr (Some demo_rule)) demo_clock
       empty_store = (Inr c, T) \<and>
     capture_once demo_fl (\<lambda>_ V. V) demo_unit (\<lambda>_. Inl Crashed) (Inl Crashed) demo_clock T = (Inr c', V) \<and> c = c'"
proof -
  obtain c T where f: "capture_once demo_fl (\<lambda>_ V. V) demo_unit (\<lambda>_. Inr (Some demo_read)) (Inr (Some demo_rule)) demo_clock
      empty_store = (Inr c, T)" "store_run demo_fl empty_store T" by (rule demo_capture)
  obtain V where v: "capture_once demo_fl (\<lambda>_ V. V) demo_unit (\<lambda>_. Inl Crashed) (Inl Crashed) demo_clock T = (Inr c, V)"
    using retry_loads [OF f(1) store_run_refl store_run_refl] by blast
  have "c = c"
    using capture_once_exactly_once [OF store_run_refl store_run_refl f(1) f(2) store_run_refl v refl
        capture_once_run [OF v store_run_refl] store_run_refl] by blast
  then show ?thesis using f(1) v by blast
qed

theorem capture_once_retry_witness:
  "\<exists>c T W ref. capture_once demo_fl (\<lambda>_ V. V) demo_unit (\<lambda>_. Inr (Some demo_read)) (Inr (Some demo_rule)) demo_clock
       empty_store = (Inr c, T) \<and>
     capture_once demo_fl (\<lambda>_ V. V) demo_unit (\<lambda>_. Inl Crashed) (Inl Crashed) demo_clock T = (Inr c, W) \<and>
     st_receipts W = st_receipts T @ [(unit_id demo_unit, ref)]"
proof -
  obtain c T where f: "capture_once demo_fl (\<lambda>_ V. V) demo_unit (\<lambda>_. Inr (Some demo_read)) (Inr (Some demo_rule)) demo_clock
      empty_store = (Inr c, T)" by (rule demo_capture)
  then show ?thesis using capture_once_retry [OF f store_run_refl store_run_refl] by blast
qed

theorem capture_sequences_witness:
  "\<exists>T. store_run demo_fl empty_store T \<and> map cr_sequence (st_captures T) = [1] \<and> distinct (map cr_unit_id (st_captures T))"
proof -
  obtain T where t: "store_run demo_fl empty_store T" "map cr_sequence (st_captures T) = [1]" by (rule demo_capture)
  have "distinct (map cr_unit_id (st_captures T))" by (rule conjunct1 [OF capture_sequences [OF t(1)]])
  then show ?thesis by (intro exI [of _ T] conjI t)
qed

lemma demo_abandoned:
  obtains S owner T V W again where "acquire_or_load demo_unit S = (Inr (Inl owner), T)" "is_current T owner"
    "abandon_capture owner True T = (Inr (), V)" "\<not> is_current V owner" "store_run demo_fl T V"
    "acquire_or_load demo_unit V = (Inr (Inl again), W)" "co_company_key owner = company_key demo_unit"
proof -
  obtain S where r: "record_receipt demo_unit empty_store = (Inr (raw_notification_ref (sn_raw_body demo_notification)), S)"
    using demo_receipt by (metis prod.collapse)
  obtain R where reg: "register demo_unit empty_store = Inr (raw_notification_ref (sn_raw_body demo_notification), R)" "kept R S"
    using receipt_registered [OF r] by blast
  obtain T where t: "acquire_or_load demo_unit S = (Inr (Inl (next_owner empty_store demo_unit)), T)"
    "is_current T (next_owner empty_store demo_unit)" "st_captures T = st_captures empty_store"
    using receipt_then_acquire [OF r demo_empty(1,2)] .
  let ?owner = "next_owner empty_store demo_unit"
  obtain V where v: "abandon_capture ?owner True T = (Inr (), V)" "\<not> is_current V ?owner" "st_captures V = []"
    "\<not> held (st_ownership V (company_key demo_unit))"
    using t(2,3) demo_empty(4)
    by (auto simp: abandon_capture_def is_current_def held_def next_owner_def)
  have tv: "store_run demo_fl T V" using store_run_step [OF store_step.abandoning [of demo_fl T ?owner True]] v(1) by simp
  have "store_run demo_fl S V" using run_acquire [OF t(1)] tv by (rule store_run_trans)
  then have "kept R V" using reg(2) run_kept kept_trans by blast
  then have "register demo_unit V = Inr (raw_notification_ref (sn_raw_body demo_notification), V)"
    using register_again [OF reg(1)] by blast
  moreover have "load_capture V (unit_id demo_unit) = None" by (simp add: load_capture_def v(3))
  ultimately obtain W where w: "acquire_or_load demo_unit V = (Inr (Inl (next_owner V demo_unit)), W)"
    using acquire_free v(4) by blast
  show ?thesis by (rule that [OF t(1,2) v(1,2) tv w]) (simp add: next_owner_def)
qed

theorem lost_ownership_refused_witness:
  "\<exists>owner V. (\<exists>e. freeze demo_fl owner ''{}'' V = (Inl (Refused e), V)) \<and> release_if_current owner InvalidCapture V = (False, V)"
proof -
  obtain S owner T V where r: "is_current T owner" "store_run demo_fl T V" "\<not> is_current V owner" by (rule demo_abandoned)
  show ?thesis using lost_ownership_refused [OF r store_run_refl, of "''{}''" InvalidCapture True] by blast
qed

theorem acquire_fences_witness:
  "\<exists>V owner again W. acquire_or_load demo_unit V = (Inr (Inl again), W) \<and> is_current W again \<and> \<not> is_current W owner \<and>
     co_generation owner < co_generation again"
proof -
  obtain S owner T V W again where r: "is_current T owner" "store_run demo_fl T V"
    "acquire_or_load demo_unit V = (Inr (Inl again), W)" "co_company_key owner = company_key demo_unit" by (rule demo_abandoned)
  show ?thesis using acquire_fences [OF r(3,2,1,4)] r(3) by blast
qed

end
