(* ===== verification/Capture_Contract.thy ===== *)
theory Capture_Contract
  imports Hubspot_Once
begin

text \<open>
  \<open>collector/capture_contract.py\<close>: the collector's own check of a published capture, from the document
  alone, and the property observations it binds.  Main result: every capture the store publishes passes
  \<open>validate_capture\<close> as the unit it was published for.
\<close>

subsection \<open>Validating a published capture\<close>

definition optional_text :: "json option \<Rightarrow> string option option" where
  "optional_text j = (case j of Some JNull \<Rightarrow> Some None | Some (JStr s) \<Rightarrow> Some (Some s) | _ \<Rightarrow> None)"

text \<open>The payload rebuilt from the normalized body; \<open>None\<close> is a missing key.\<close>

definition notification_payload :: "json \<Rightarrow> json option" where
  "notification_payload body =
     Option.bind (member ''namespace'' body) (\<lambda>ns.
     Option.bind (all_some (map (\<lambda>(k, v). map_option (Pair k) v)
       [(''portalId'', member ''portal_id'' ns), (''appId'', member ''app_id'' ns),
        (''subscriptionId'', member ''subscription_id'' ns), (''subscriptionType'', member ''subscription_type'' ns),
        (''objectId'', member ''object_id'' body), (''propertyName'', member ''property_name'' body),
        (''propertyValue'', member ''property_value'' body), (''occurredAt'', member ''occurred_at'' body),
        (''eventId'', member ''event_id'' body)])) (\<lambda>p.
       Some (JObj (p @ (case member ''change_source'' body of None \<Rightarrow> [] | Some c \<Rightarrow> [(''changeSource'', c)])))))"

definition is_raw_ref :: "string \<Rightarrow> bool" where
  "is_raw_ref ref \<longleftrightarrow> take 7 ref = ''sha256:'' \<and> sha256_hex_string (drop 7 ref)"

definition positive_at :: "string \<Rightarrow> json \<Rightarrow> bool" where
  "positive_at k d = (case int_at k d of None \<Rightarrow> False | Some n \<Rightarrow> 0 < n)"

definition captured_notification :: "(string \<Rightarrow> string option) \<Rightarrow> json \<Rightarrow> source_notification option" where
  "captured_notification fl d =
     Option.bind (member ''notification'' d) (\<lambda>body.
     Option.bind (notification_payload body) (\<lambda>payload.
       case from_payload fl payload (canonical_text payload) of
         Inl _ \<Rightarrow> None
       | Inr n \<Rightarrow> if typed_equal (jnorm (body_json (sn_body n))) body then Some n else None))"

definition captured_unit :: "(string \<Rightarrow> string option) \<Rightarrow> json \<Rightarrow> processing_unit option" where
  "captured_unit fl d =
     Option.bind (captured_notification fl d) (\<lambda>n.
     Option.bind (str_at ''mapping_identity'' d) (\<lambda>m.
     Option.bind (str_at ''selection_identity'' d) (\<lambda>s.
     Option.bind (str_at ''adapter_identity'' d) (\<lambda>a.
     Option.bind (optional_text (member ''reprocesses'' d)) (\<lambda>r.
       case make_unit n m s a r of Inl _ \<Rightarrow> None | Inr u \<Rightarrow> Some u)))))"

definition without_sequence :: "json \<Rightarrow> json" where
  "without_sequence d = (case d of JObj kvs \<Rightarrow> JObj (dict_set ''capture_sequence'' JNull kvs) | _ \<Rightarrow> d)"

text \<open>\<open>Inl (Refused InvalidCapture)\<close> is the \<open>ValueError\<close> of every failed check.\<close>

definition validate_capture :: "(string \<Rightarrow> string option) \<Rightarrow> json \<Rightarrow> string \<Rightarrow> failure + processing_unit" where
  "validate_capture fl capture digest =
     (if \<not> sha256_hex_string digest \<or> \<not> finite_json capture \<or> canonical_hash capture \<noteq> digest \<or>
        \<not> positive_at ''capture_sequence'' capture \<or> \<not> positive_at ''ownership_generation'' capture
      then Inl (Refused InvalidCapture)
      else case (str_at ''raw_notification_ref'' capture, captured_unit fl capture, int_at ''ownership_generation'' capture) of
          (Some ref, Some u, Some g) \<Rightarrow>
            if \<not> is_raw_ref ref then Inl (Refused InvalidCapture)
            else (case validate_pending_capture fl u
                \<lparr>co_company_key = company_key u, co_unit_id = unit_id u, co_generation = g\<rparr> ref
                (canonical_text (without_sequence capture)) of
              None \<Rightarrow> Inr u
            | Some Crashed \<Rightarrow> Inl Crashed
            | Some (Refused _) \<Rightarrow> Inl (Refused InvalidCapture))
        | _ \<Rightarrow> Inl (Refused InvalidCapture))"

definition account_identity :: "json \<Rightarrow> string option" where
  "account_identity capture =
     Option.bind (member ''notification'' capture) (\<lambda>n.
     Option.bind (Option.bind (member ''namespace'' n) (member ''portal_id'')) (\<lambda>p.
     Option.bind (member ''object_id'' n) (\<lambda>obj.
       Some (''fr-account-v2-'' @ canonical_hash (JList [p, obj])))))"

subsection \<open>Observations\<close>

text \<open>
  \<open>None\<close> below is any exception: a missing key, a value of another type, or the \<open>ValueError\<close> raised.
  The functions run on a validated capture, whose funding event is an object.
\<close>

definition SOURCE_CAPTURE :: string where "SOURCE_CAPTURE = ''hubspot-synthetic-capture''"

definition owned_property :: "string \<rightharpoonup> string" where
  "owned_property = map_of (map (\<lambda>(name, spec). (os_evidence_type spec, name)) OWNED)"

definition owned_keys :: "string list" where
  "owned_keys = map (os_evidence_type \<circ> snd) OWNED"

definition input_of :: "json \<Rightarrow> string \<Rightarrow> string \<Rightarrow> json option" where
  "input_of capture key fld =
     Option.bind (member ''inputs'' capture) (\<lambda>is. Option.bind (member key is) (member fld))"

definition semantic_item :: "json \<Rightarrow> string \<Rightarrow> json \<Rightarrow> (string \<times> json) list option" where
  "semantic_item capture key supersedes =
     Option.bind (input_of capture key ''value'') (\<lambda>v.
       let it = [(''evidence_type'', JStr key), (''value'', v), (''supersedes_evidence_version_id'', supersedes)] in
       if key = ''funding_event'' then
         (case v of JObj kvs \<Rightarrow> Some (fold (\<lambda>(k, w). dict_set k w) kvs it) | _ \<Rightarrow> None)
       else if key = ''verified_integration_pressure'' then
         Option.bind (member ''value'' v) (\<lambda>w. Option.bind (member ''basis'' v) (\<lambda>b.
           Some (dict_set ''basis'' (JList [b]) (dict_set ''value'' w it))))
       else if key = ''head_of_platform_start_date'' then Some (dict_set ''observed_at'' JNull it)
       else Some it)"

text \<open>\<open>a > b\<close> of two \<open>datetime\<close>s; comparing a naive with an aware one raises.\<close>

fun after_time :: "py_datetime \<Rightarrow> py_datetime \<Rightarrow> bool option" where
  "after_time (Naive a) (Naive b) = Some (b < a)"
| "after_time (Aware a x) (Aware b y) = Some (utc_micros b - y < utc_micros a - x)"
| "after_time _ _ = None"

definition eligible_at :: "string \<Rightarrow> json \<Rightarrow> string option" where
  "eligible_at finished source_at =
     (case source_at of
        JNull \<Rightarrow> Some finished
      | JStr s \<Rightarrow> Some (if s = [] then finished else max finished s)
      | _ \<Rightarrow> None)"

definition observation_body :: "json \<Rightarrow> json \<Rightarrow> (string \<times> json) list \<Rightarrow> json option" where
  "observation_body account_ref capture it =
     Option.bind (Option.bind (map_of it ''evidence_type'') text_of) (\<lambda>key.
     Option.bind (Option.bind (member ''input_provenance'' capture) (\<lambda>p. Option.bind (member key p) (member ''available_at''))) (\<lambda>source_at.
     Option.bind (str_at ''read_finished_at'' capture) (\<lambda>finished.
     Option.bind (eligible_at finished source_at) (\<lambda>eligible.
     Option.bind (str_at ''capture_boundary'' capture) (\<lambda>boundary.
     Option.bind (parse_datetime eligible) (\<lambda>e. Option.bind (parse_datetime boundary) (\<lambda>b. Option.bind (after_time e b) (\<lambda>after.
     if after then None
     else Option.bind (member ''mapping_identity'' capture) (\<lambda>mapping.
     Option.bind (owned_property key) (\<lambda>name.
     Option.bind (member ''read_started_at'' capture) (\<lambda>started. Some (JObj
       [(''account_ref'', account_ref), (''source'', JStr SOURCE_CAPTURE), (''evidence_type'', JStr key),
        (''semantic'', JObj (filter (\<lambda>(k, v). k \<notin>
           set [''evidence_type'', ''evidence_version_id'', ''supersedes_evidence_version_id'']) it)),
        (''supersedes_evidence_version_id'', case map_of it ''supersedes_evidence_version_id'' of None \<Rightarrow> JNull | Some s \<Rightarrow> s),
        (''mapping_identity'', mapping), (''source_property'', JStr name), (''read_started_at'', started),
        (''read_finished_at'', JStr finished), (''source_available_at'', source_at),
        (''eligible_at'', JStr eligible)]))))))))))))"

definition bound_item :: "json \<Rightarrow> json \<Rightarrow> string \<Rightarrow> json \<Rightarrow> (string \<times> json) list option" where
  "bound_item account_ref capture key supersedes =
     Option.bind (semantic_item capture key supersedes) (\<lambda>it.
     Option.bind (observation_body account_ref capture it) (\<lambda>b.
       Some (dict_set ''evidence_version_id'' (JStr (''fr-evidence-v2-'' @ canonical_hash b)) it)))"

definition available_keys :: "json \<Rightarrow> string list option" where
  "available_keys capture =
     Option.bind (all_some (map (\<lambda>k. map_option (Pair k) (input_of capture k ''state'')) owned_keys)) (\<lambda>states.
       Some (sort (map fst (filter (\<lambda>(k, s). s \<in> {JStr ''consumed'', JStr ''ignored''}) states))))"

definition expected_entry :: "json \<Rightarrow> json \<Rightarrow> (string \<rightharpoonup> json) \<Rightarrow> string \<Rightarrow> json list option" where
  "expected_entry account_ref capture supersessions key =
     Option.bind (input_of capture key ''state'') (\<lambda>state.
       if state = JStr ''absent'' then Some []
       else if state \<in> {JStr ''consumed'', JStr ''ignored''} then
         Option.bind (bound_item account_ref capture key (case supersessions key of None \<Rightarrow> JNull | Some s \<Rightarrow> s)) (\<lambda>it.
           Some [JObj [(''input_key'', JStr key), (''value'', item ''value'' (map_of it)), (''availability'', JStr ''available''),
             (''evidence_version_id'', item ''evidence_version_id'' (map_of it))]])
       else Some [JObj [(''input_key'', JStr key), (''value'', JNull), (''availability'', JStr ''unavailable''),
             (''evidence_version_id'', JNull)]])"

definition expected_context :: "json \<Rightarrow> json \<Rightarrow> (string \<rightharpoonup> json) \<Rightarrow> json list option" where
  "expected_context account_ref capture supersessions =
     map_option concat (all_some (map (expected_entry account_ref capture supersessions) (sort owned_keys)))"

subsection \<open>The wire\<close>

text \<open>One item of an \<open>evidence.recorded\<close> payload.\<close>

definition check_wire_item :: "json \<Rightarrow> json \<Rightarrow> json \<Rightarrow> unit option" where
  "check_wire_item account_ref capture it =
     Option.bind (str_at ''evidence_type'' it) (\<lambda>key.
     Option.bind (available_keys capture) (\<lambda>ks.
       if key \<notin> set ks then None
       else Option.bind (member ''supersedes_evidence_version_id'' it) (\<lambda>s.
         Option.bind (bound_item account_ref capture key s) (\<lambda>expected.
           if typed_equal it (JObj expected) then Some () else None))))"

definition check_wire_evidence :: "json \<Rightarrow> json \<Rightarrow> json \<Rightarrow> json \<Rightarrow> unit option" where
  "check_wire_evidence normalized account_ref p capture =
     Option.bind (member ''occurred_at'' normalized) (\<lambda>occurred.
       if member ''read_finished_at'' capture \<noteq> Some occurred then None
       else (case member ''items'' p of
           Some (JList items) \<Rightarrow>
             Option.bind (all_some (map (str_at ''evidence_type'') items)) (\<lambda>keys.
               if \<not> distinct keys then None
               else Option.bind (all_some (map (check_wire_item account_ref capture) items)) (\<lambda>_. Some ()))
         | _ \<Rightarrow> None))"

definition check_wire_decision :: "json \<Rightarrow> json \<Rightarrow> json \<Rightarrow> unit option" where
  "check_wire_decision normalized p capture =
     (case (member ''decision_boundary'' p, member ''capture_boundary'' capture, member ''occurred_at'' normalized,
        member ''workflow_version'' p, member ''processing_version'' capture, member ''logic_artifact'' p) of
        (Some db, Some cb, Some occurred, Some wv, Some pv, Some artifact) \<Rightarrow>
          if db \<noteq> cb \<or> occurred \<noteq> cb \<or> wv \<noteq> pv then None
          else (case (member ''artifact_hash'' artifact, member ''rule_hash'' capture,
              member ''evaluator_version'' artifact, member ''evaluator_version'' capture) of
              (Some ah, Some rh, Some av, Some ev) \<Rightarrow> if ah = rh \<and> av = ev then Some () else None
            | _ \<Rightarrow> None)
      | _ \<Rightarrow> None)"

definition validate_wire :: "(string \<Rightarrow> string option) \<Rightarrow> json \<Rightarrow> unit option" where
  "validate_wire fl normalized =
     Option.bind (member ''payload'' normalized) (\<lambda>p.
     Option.bind (member ''capture'' p) (\<lambda>capture.
     Option.bind (str_at ''capture_hash'' p) (\<lambda>digest.
       case validate_capture fl capture digest of
         Inl _ \<Rightarrow> None
       | Inr _ \<Rightarrow>
           Option.bind (account_identity capture) (\<lambda>account.
           Option.bind (member ''account_ref'' normalized) (\<lambda>account_ref.
             if account_ref \<noteq> JStr account then None
             else if member ''event_type'' normalized = Some (JStr ''evidence.recorded'')
             then check_wire_evidence normalized account_ref p capture
             else check_wire_decision normalized p capture)))))"

subsection \<open>Parts of a loaded document\<close>

lemma member_map_floats: "member k (map_floats f j) = map_option (map_floats f) (member k j)"
  by (cases j) (auto simp: map_of_map)

lemma dicts_member: "dicts j \<Longrightarrow> member k j = Some v \<Longrightarrow> dicts v"
  by (cases j) (auto dest: map_of_SomeD)

lemma loads_nested:
  assumes "loads fl text = Some d" "member k d = Some v" "member k' v = Some w"
  obtains j where "w = map_floats (float_value fl) j" "dicts j"
proof -
  obtain j where j: "json_loads text = Some j" "d = map_floats (float_value fl) j"
    using assms(1) by (auto simp: loads_def)
  have "dicts j" using j(1) json_loads_dicts unfolding json_loads_def by blast
  moreover obtain jv where v: "member k j = Some jv" "v = map_floats (float_value fl) jv"
    using assms(2) by (auto simp: j(2) member_map_floats)
  moreover obtain jw where "member k' jv = Some jw" "w = map_floats (float_value fl) jw"
    using assms(3) by (auto simp: v(2) member_map_floats)
  ultimately show ?thesis using that dicts_member by blast
qed

lemma times_of_keys: "times_of (Some (JObj kvs)) = Some av \<Longrightarrow> map fst av = map fst kvs"
proof (induction kvs arbitrary: av)
  case (Cons kv kvs)
  then show ?case by (cases kv) (auto simp: times_of_def split: bind_splits)
qed (simp add: times_of_def)

text \<open>The read rebuilt from a loaded document is well formed.\<close>

lemma observation_of_loaded:
  assumes "repr_law fl" "loads fl text = Some d" "observation_of d = Some r"
  shows "distinct (map fst (rd_available_at r))"
    "finite_json (JObj (rd_properties r)) \<Longrightarrow> clean fl (JObj (rd_properties r))"
proof -
  obtain o' ig un av ps where o: "member ''observation'' d = Some o'" "names_of (member ''ignored'' o') = Some ig"
    "names_of (member ''unavailable'' o') = Some un" "times_of (member ''available_at'' o') = Some av"
    "member ''properties'' o' = Some (JObj ps)" "make_read_result ps av ig un = Inr r"
    using assms(3) by (auto simp: observation_of_def split: bind_splits option.splits json.splits sum.splits)
  have r: "rd_properties r = ps" "rd_available_at r = av" using o(6) by (auto simp: make_read_result_def)
  obtain kvs where kvs: "member ''available_at'' o' = Some (JObj kvs)"
    using o(4) by (auto simp: times_of_def split: option.splits json.splits)
  obtain j where j: "JObj kvs = map_floats (float_value fl) j" "dicts j" by (rule loads_nested [OF assms(2) o(1) kvs])
  then have "distinct (map fst kvs)" by (cases j) (auto simp: case_prod_beta comp_def)
  then show "distinct (map fst (rd_available_at r))" using times_of_keys o(4) by (simp add: r kvs)
  show "clean fl (JObj (rd_properties r))" if "finite_json (JObj (rd_properties r))"
  proof -
    obtain j where "JObj ps = map_floats (float_value fl) j" "dicts j" by (rule loads_nested [OF assms(2) o(1,5)])
    then show ?thesis using map_floats_clean [OF assms(1)] that by (metis r(1))
  qed
qed

text \<open>The unit with its notification rebuilt from the normalized body.\<close>

definition normal_body :: "semantic_body \<Rightarrow> semantic_body" where
  "normal_body b = b\<lparr>sb_property_value := jnorm (sb_property_value b)\<rparr>"

definition rebuilt :: "processing_unit \<Rightarrow> processing_unit" where
  "rebuilt u = (let b = normal_body (sn_body (pu_notification u)) in
     u\<lparr>pu_notification := \<lparr>sn_raw_body = canonical_text (JObj (payload_list b)), sn_body = b\<rparr>\<rparr>)"

lemma normal_body_fields [simp]:
  "sb_portal_id (normal_body b) = sb_portal_id b" "sb_app_id (normal_body b) = sb_app_id b"
  "sb_subscription_id (normal_body b) = sb_subscription_id b" "sb_object_id (normal_body b) = sb_object_id b"
  "sb_property_name (normal_body b) = sb_property_name b" "sb_occurred_at (normal_body b) = sb_occurred_at b"
  "sb_event_id (normal_body b) = sb_event_id b" "sb_change_source (normal_body b) = sb_change_source b"
  "sb_property_value (normal_body b) = jnorm (sb_property_value b)" "body_ok (normal_body b) = body_ok b"
  by (simp_all add: normal_body_def body_ok_def)

lemma normal_body_json: "jnorm (body_json (normal_body b)) = jnorm (body_json b)"
  unfolding body_json_def by (rule jnorm_members_cong) (simp del: jnorm.simps(2))

lemma rebuilt_fields [simp]:
  "sn_body (pu_notification (rebuilt u)) = normal_body (sn_body (pu_notification u))"
  "pu_mapping_identity (rebuilt u) = pu_mapping_identity u" "pu_selection_identity (rebuilt u) = pu_selection_identity u"
  "pu_adapter_identity (rebuilt u) = pu_adapter_identity u" "pu_reprocesses (rebuilt u) = pu_reprocesses u"
  "logical_key (pu_notification (rebuilt u)) = logical_key (pu_notification u)"
  "processing_version (rebuilt u) = processing_version u" "unit_id (rebuilt u) = unit_id u"
  "company_key (rebuilt u) = company_key u"
proof -
  have "canonical_text (body_json (normal_body b)) = canonical_text (body_json b)" for b
    using normal_body_json canonical_jnorm by metis
  then show l: "logical_key (pu_notification (rebuilt u)) = logical_key (pu_notification u)"
    by (simp add: logical_key_def canonical_hash_def rebuilt_def Let_def)
  show v: "processing_version (rebuilt u) = processing_version u" by (simp add: processing_version_def rebuilt_def Let_def)
  show "unit_id (rebuilt u) = unit_id u" by (simp add: unit_id_def l v)
qed (simp_all add: rebuilt_def Let_def company_key_def)

lemma document_rebuilt:
  "jnorm (capture_document (rebuilt u) owner ref iv r tms rule os es) = jnorm (capture_document u owner ref iv r tms rule os es)"
  unfolding document_observation Let_def
  by (rule jnorm_members_cong) (simp add: normal_body_json del: jnorm.simps(2))

subsection \<open>What the store publishes\<close>

lemma member_with_sequence:
  "k \<noteq> ''capture_sequence'' \<Longrightarrow> member k (with_sequence n d) = member k d"
  by (cases d) (auto simp: with_sequence_def map_of_dict_set)

text \<open>A published body: the candidate of a registered unit with its sequence, and every fact its checks need.\<close>

lemma publishes_document:
  assumes "repr_law fl" "capture_keys S" "publishes fl owner candidate S c T"
  obtains u ref rule iv r tms os es clk where
    "pu_mapping_identity u = MAPPING_IDENTITY" "body_ok (sn_body (pu_notification u))"
    "clean fl (sb_property_value (sn_body (pu_notification u)))"
    "make_unit (pu_notification u) (pu_mapping_identity u) (pu_selection_identity u) (pu_adapter_identity u) (pu_reprocesses u) = Inr u"
    "owner = \<lparr>co_company_key = company_key u, co_unit_id = unit_id u, co_generation = co_generation owner\<rparr>"
    "0 < co_generation owner" "is_raw_ref ref"
    "candidate = canonical_text (capture_document u owner ref iv r tms rule os es)"
    "document fl candidate = Some (jnorm (capture_document u owner ref iv r tms rule os es))"
    "clean fl (capture_document u owner ref iv r tms rule os es)"
    "observation_of (jnorm (capture_document u owner ref iv r tms rule os es)) = Some r"
    "rule_of (jnorm (capture_document u owner ref iv r tms rule os es)) = Some rule"
    "candidate_parts r (document_clock (jnorm (capture_document u owner ref iv r tms rule os es))) iv tms os es"
    "c = canonical_text (with_sequence (last_sequence (co_company_key owner) S + 1)
       (jnorm (capture_document u owner ref iv r tms rule os es)))"
proof -
  obtain d row u ref where p: "is_current S owner" "document fl candidate = Some d" "registered_unit fl owner row d S = Some (u, ref)"
    "validate_pending_capture fl u owner ref candidate = None"
    "c = canonical_text (with_sequence (last_sequence (co_company_key owner) S + 1) d)"
    using assms(3) by (auto simp: publishes_def)
  obtain raw payload n where g: "st_raw S ref = Some raw" "strict_json_loads fl raw = Some payload"
    "from_payload fl payload raw = Inr n" "make_unit n (pr_mapping_identity row) (pr_selection_identity row)
       (pr_adapter_identity row) (pr_reprocesses row) = Inr u" "unit_id u = co_unit_id owner" "company_key u = co_company_key owner"
    using p(3) by (auto simp: registered_unit_def split: bind_splits sum.splits if_splits)
  have u: "pu_notification u = n" "pu_mapping_identity u = pr_mapping_identity row" "pu_selection_identity u = pr_selection_identity row"
    "pu_adapter_identity u = pr_adapter_identity row" "pu_reprocesses u = pr_reprocesses row"
    using g(4) by (auto simp: make_unit_def Let_def split: option.splits)
  have body: "body_ok (sn_body (pu_notification u))" "clean fl (sb_property_value (sn_body (pu_notification u)))"
    using from_payload_ok(1,3) [OF g(3)] strict_clean [OF assms(1) g(2)] by (auto simp: u(1))
  obtain r rule where v: "pu_mapping_identity u = MAPPING_IDENTITY" "observation_of d = Some r" "rule_of d = Some rule"
    "build_candidate u owner ref (\<lambda>_. Inr (Some r)) (Inr (Some rule)) (document_clock d) = Inr candidate"
    using p(2,4) by (auto simp: validate_pending_None)
  obtain iv tms os es where b: "candidate_parts r (document_clock d) iv tms os es"
    "finite_json (capture_document u owner ref iv r tms rule os es)"
    "candidate = canonical_text (capture_document u owner ref iv r tms rule os es)"
    using v(4) by (auto simp: build_candidate_Inr)
  let ?e = "capture_document u owner ref iv r tms rule os es"
  have ld: "loads fl candidate = Some d" using p(2) by (simp add: document_def)
  have "finite_json (observation_json r tms)" using b(2) by (simp add: document_observation Let_def finite_object)
  then have "finite_json (JObj (rd_properties r))" by (simp add: observation_json_def finite_object)
  then have cl: "clean fl ?e"
    using clean_document [OF body b(1)] observation_of_loaded [OF assms(1) ld v(2)] by blast
  then have d: "d = jnorm ?e" using clean_loads [OF cl] ld b(3) by simp
  have "0 < co_generation owner" using assms(2) p(1) by (force simp: capture_keys_def is_current_def split: option.splits)
  moreover have "ref = raw_notification_ref raw" using assms(2) g(1) unfolding capture_keys_def by blast
  then have "is_raw_ref ref" by (simp add: raw_notification_ref_def is_raw_ref_def sha256_hex_shape)
  ultimately show ?thesis
    using that [of u ref iv r tms rule os es] v(1) body g(4-6) u cl p(2,5) v(2,3) b(1,3) unfolding d by simp
qed

lemma notification_payload_body:
  assumes "body_ok b" "clean fl (sb_property_value b)"
  shows "notification_payload (jnorm (body_json b)) = Some (JObj (payload_list (normal_body b)))"
proof -
  have c: "clean fl (body_json b)" by (rule clean_body [OF assms])
  obtain ns where n: "member ''namespace'' (body_json b) = Some ns" "clean fl ns"
    "member ''portal_id'' ns = Some (sb_portal_id b)" "member ''app_id'' ns = Some (sb_app_id b)"
    "member ''subscription_id'' ns = Some (sb_subscription_id b)"
    "member ''subscription_type'' ns = Some (JStr SUPPORTED_SUBSCRIPTION_TYPE)"
    using assms(1) by (simp add: body_json_def body_ok_def)
  have m: "member ''object_id'' (body_json b) = Some (sb_object_id b)"
    "member ''property_name'' (body_json b) = Some (JStr (sb_property_name b))"
    "member ''property_value'' (body_json b) = Some (sb_property_value b)"
    "member ''occurred_at'' (body_json b) = Some (JInt (sb_occurred_at b))"
    "member ''event_id'' (body_json b) = Some (sb_event_id b)"
    "member ''change_source'' (body_json b) = sb_change_source b"
    by (auto simp: body_json_def split: option.split)
  have "map_option jnorm (sb_change_source b) = sb_change_source b" using assms(1) by (cases "sb_change_source b") (auto simp: body_ok_def)
  moreover have "jnorm (sb_portal_id b) = sb_portal_id b" "jnorm (sb_app_id b) = sb_app_id b"
    "jnorm (sb_subscription_id b) = sb_subscription_id b" "jnorm (sb_object_id b) = sb_object_id b"
    "jnorm (sb_event_id b) = sb_event_id b" using assms(1) by (simp_all add: body_ok_def)
  ultimately show ?thesis
    by (simp add: notification_payload_def clean_member_jnorm [OF c] n m clean_member_jnorm [OF n(2)] payload_list_def)
qed

lemma captured_unit_rebuilt:
  assumes "pu_mapping_identity u = MAPPING_IDENTITY" "body_ok (sn_body (pu_notification u))"
    "clean fl (sb_property_value (sn_body (pu_notification u)))"
    "make_unit (pu_notification u) (pu_mapping_identity u) (pu_selection_identity u) (pu_adapter_identity u) (pu_reprocesses u) = Inr u"
    "clean fl e" "e = capture_document u owner ref iv r tms rule os es"
  shows "captured_unit fl (with_sequence n (jnorm e)) = Some (rebuilt u)"
proof -
  let ?b = "sn_body (pu_notification u)" and ?n = "pu_notification (rebuilt u)"
  have ok: "body_ok (normal_body ?b)" "clean fl (sb_property_value (normal_body ?b))" using assms(2,3) by simp_all
  have "typed_equal (jnorm (body_json (normal_body ?b))) (jnorm (body_json ?b))"
    by (rule clean_typed_equal [where fl = fl]) (use clean_body assms(2,3) ok normal_body_json in simp_all)
  moreover have n: "?n = \<lparr>sn_raw_body = canonical_text (JObj (payload_list (normal_body ?b))), sn_body = normal_body ?b\<rparr>"
    by (simp add: rebuilt_def Let_def)
  moreover have e: "member ''notification'' e = Some (body_json ?b)" "str_at ''mapping_identity'' e = Some (pu_mapping_identity u)"
    "str_at ''selection_identity'' e = Some (pu_selection_identity u)" "str_at ''adapter_identity'' e = Some (pu_adapter_identity u)"
    "member ''reprocesses'' e = Some (jstr_opt (pu_reprocesses u))"
    by (simp_all add: assms(6) document_observation Let_def str_at_def)
  have m: "member ''notification'' (jnorm e) = Some (jnorm (body_json ?b))" "member ''reprocesses'' (jnorm e) = Some (jstr_opt (pu_reprocesses u))"
    using e(1,5) by (auto simp: clean_member_jnorm [OF assms(5)] jstr_opt_def split: option.split)
  ultimately have c: "captured_notification fl (with_sequence n (jnorm e)) = Some ?n"
    by (simp add: captured_notification_def member_with_sequence notification_payload_body [OF assms(2,3)] from_payload_list [OF ok] n
        del: canonical_text.simps jnorm.simps)
  have s: "str_at k (with_sequence n (jnorm e)) = str_at k e" if "k \<noteq> ''capture_sequence''" for k
    using that clean_str_at [OF assms(5), of k] by (simp add: str_at_def member_with_sequence)
  have "make_unit ?n (pu_mapping_identity u) (pu_selection_identity u) (pu_adapter_identity u) (pu_reprocesses u) = Inr (rebuilt u)"
  proof -
    let ?u = "\<lparr>pu_notification = ?n, pu_mapping_identity = pu_mapping_identity u, pu_selection_identity = pu_selection_identity u,
        pu_adapter_identity = pu_adapter_identity u, pu_reprocesses = pu_reprocesses u\<rparr>"
    have self: "\<lparr>pu_notification = pu_notification u, pu_mapping_identity = pu_mapping_identity u,
        pu_selection_identity = pu_selection_identity u, pu_adapter_identity = pu_adapter_identity u, pu_reprocesses = p\<rparr> = u"
      if "pu_reprocesses u = p" for p using that by simp
    have u: "?u = rebuilt u" by (simp add: rebuilt_def Let_def)
    have "pu_mapping_identity u \<noteq> [] \<and> pu_selection_identity u \<noteq> [] \<and> pu_adapter_identity u \<noteq> [] \<and> pu_reprocesses u \<noteq> Some [] \<and>
        pu_reprocesses u \<noteq> Some (unit_id u)"
      using assms(4) self by (auto simp: make_unit_def Let_def raise_if_def split: if_splits option.splits)
    then show ?thesis unfolding make_unit_def Let_def u by (simp add: raise_if_def)
  qed
  moreover have "optional_text (Some (jstr_opt (pu_reprocesses u))) = Some (pu_reprocesses u)"
    by (cases "pu_reprocesses u") (simp_all add: optional_text_def jstr_opt_def)
  ultimately show ?thesis by (simp add: captured_unit_def c s e member_with_sequence m)
qed

lemma validate_pending_rebuilt:
  assumes "pu_mapping_identity u = MAPPING_IDENTITY" "e = capture_document u owner ref iv r tms rule os es" "clean fl e"
    "body_ok (sn_body (pu_notification u))" "clean fl (sb_property_value (sn_body (pu_notification u)))"
    "observation_of (jnorm e) = Some r" "rule_of (jnorm e) = Some rule" "candidate_parts r (document_clock (jnorm e)) iv tms os es"
  shows "validate_pending_capture fl (rebuilt u) owner ref (canonical_text e) = None"
proof -
  let ?e = "capture_document (rebuilt u) owner ref iv r tms rule os es"
  have n: "jnorm ?e = jnorm e" by (simp only: document_rebuilt assms(2))
  have "clean fl (jnorm ?e)" unfolding n using assms(3) by simp
  then have "finite_json ?e" using clean_finite by simp
  moreover have t: "canonical_text ?e = canonical_text e" using n canonical_jnorm by metis
  ultimately have "build_candidate (rebuilt u) owner ref (\<lambda>_. Inr (Some r)) (Inr (Some rule)) (document_clock (jnorm e)) =
      Inr (canonical_text e)"
    unfolding build_candidate_Inr using assms(8) t [symmetric] by blast
  then show ?thesis
    unfolding validate_pending_None rebuilt_fields(2) document_def clean_loads [OF assms(3)] using assms(1,6,7) by blast
qed

lemma sequenced:
  assumes "clean fl e" "map_of kvs ''capture_sequence'' = Some JNull" "jnorm e = JObj kvs"
  shows "clean fl (with_sequence n (jnorm e))" "jnorm (with_sequence n (jnorm e)) = with_sequence n (jnorm e)"
    "without_sequence (with_sequence n (jnorm e)) = jnorm e" "int_at ''capture_sequence'' (with_sequence n (jnorm e)) = Some n"
proof -
  have k: "''capture_sequence'' \<in> fst ` set kvs" using map_of_SomeD [OF assms(2)] by force
  have c: "clean fl (JObj kvs)" using assms(1,3) clean_jnorm by metis
  have "\<forall>(k, v)\<in>insert (''capture_sequence'', JInt n) (set kvs). clean fl v" using c by simp
  then show "clean fl (with_sequence n (jnorm e))"
    using c dict_set_set [of "''capture_sequence''" "JInt n" kvs] by (auto simp: assms(3) with_sequence_def dict_set_known [OF k])
  show "jnorm (with_sequence n (jnorm e)) = with_sequence n (jnorm e)"
    using jnorm_dict_set [OF assms(3) [symmetric] k, of "JInt n"] by (simp add: assms(3) with_sequence_def del: jnorm.simps(2))
  show "without_sequence (with_sequence n (jnorm e)) = jnorm e"
    by (simp add: assms(3) with_sequence_def without_sequence_def dict_set_twice dict_set_same [OF assms(2)])
  show "int_at ''capture_sequence'' (with_sequence n (jnorm e)) = Some n"
    by (simp add: assms(3) with_sequence_def int_at_def map_of_dict_set)
qed

text \<open>A publication validates.\<close>

definition validates :: "(string \<Rightarrow> string option) \<Rightarrow> capture_row \<Rightarrow> bool" where
  "validates fl r \<longleftrightarrow> (\<exists>d u. document fl (cr_body r) = Some d \<and> canonical_text d = cr_body r \<and>
     validate_capture fl d (sha256_hex (cr_body r)) = Inr u \<and> unit_id u = cr_unit_id r \<and> company_key u = cr_company_key r \<and>
     int_at ''capture_sequence'' d = Some (cr_sequence r))"

lemma publication_validates:
  assumes "repr_law fl" "capture_keys S" "publishes fl owner candidate S c T"
  shows "validates fl \<lparr>cr_unit_id = co_unit_id owner, cr_company_key = co_company_key owner,
    cr_sequence = last_sequence (co_company_key owner) S + 1, cr_body = c\<rparr>"
proof -
  let ?n = "last_sequence (co_company_key owner) S + 1"
  obtain u ref rule iv r tms os es where
    u: "pu_mapping_identity u = MAPPING_IDENTITY" "body_ok (sn_body (pu_notification u))"
    "clean fl (sb_property_value (sn_body (pu_notification u)))"
    "make_unit (pu_notification u) (pu_mapping_identity u) (pu_selection_identity u) (pu_adapter_identity u) (pu_reprocesses u) = Inr u"
    and owner: "owner = \<lparr>co_company_key = company_key u, co_unit_id = unit_id u, co_generation = co_generation owner\<rparr>"
    "0 < co_generation owner" "is_raw_ref ref"
    and cand: "candidate = canonical_text (capture_document u owner ref iv r tms rule os es)"
    "document fl candidate = Some (jnorm (capture_document u owner ref iv r tms rule os es))"
    and e: "clean fl (capture_document u owner ref iv r tms rule os es)"
    "observation_of (jnorm (capture_document u owner ref iv r tms rule os es)) = Some r"
    "rule_of (jnorm (capture_document u owner ref iv r tms rule os es)) = Some rule"
    "candidate_parts r (document_clock (jnorm (capture_document u owner ref iv r tms rule os es))) iv tms os es"
    "c = canonical_text (with_sequence ?n (jnorm (capture_document u owner ref iv r tms rule os es)))"
    by (rule publishes_document [OF assms])
  let ?e = "capture_document u owner ref iv r tms rule os es"
  obtain kvs where kvs: "jnorm ?e = JObj kvs" by (simp add: capture_document_def Let_def del: jnorm.simps(2)) (simp add: jnorm_object)
  have "member ''capture_sequence'' (jnorm ?e) = Some JNull"
    by (simp add: clean_member_jnorm [OF e(1)]) (simp add: capture_document_def Let_def)
  then have "map_of kvs ''capture_sequence'' = Some JNull" by (simp add: kvs)
  note s = sequenced [OF e(1) this kvs, of ?n]
  let ?f = "with_sequence ?n (jnorm ?e)"
  have at: "str_at k ?f = str_at k ?e" "int_at k ?f = int_at k ?e" if "k \<noteq> ''capture_sequence''" for k
    using that clean_str_at [OF e(1), of k] clean_int_at [OF e(1), of k] by (simp_all add: str_at_def int_at_def member_with_sequence)
  have doc: "document fl c = Some ?f" using clean_loads [OF s(1)] s(2) by (simp add: document_def e(5))
  have g: "int_at ''ownership_generation'' ?f = Some (co_generation owner)"
    by (simp add: at) (simp add: int_at_def capture_document_def Let_def)
  have n: "0 < ?n" using last_sequence_length [OF assms(2)] by simp
  have "validate_capture fl ?f (canonical_hash ?f) = Inr (rebuilt u)"
    using clean_finite [OF s(1)] sha256_hex_shape g owner n captured_unit_rebuilt [OF u e(1) refl, of ?n]
      validate_pending_rebuilt [OF u(1) refl e(1) u(2,3) e(2-4)]
    by (simp add: validate_capture_def canonical_hash_def positive_at_def s(3,4) at document_members)
  then have "validate_capture fl ?f (sha256_hex c) = Inr (rebuilt u)" by (simp add: canonical_hash_def e(5))
  moreover have "unit_id (rebuilt u) = co_unit_id owner" "company_key (rebuilt u) = co_company_key owner"
    by (subst owner(1), simp)+
  ultimately show ?thesis unfolding validates_def using doc e(5) s(4) by (simp del: rebuilt_fields)
qed

lemma reachable_validates:
  assumes "repr_law fl" "store_run fl empty_store S" "r \<in> set (st_captures S)"
  shows "validates fl r"
proof -
  have "\<forall>r\<in>set (st_captures S). validates fl r"
    using assms(2) unfolding store_run_def
  proof (induction rule: rtranclp_induct)
    case base
    then show ?case by (simp add: empty_store_def)
  next
    case (step T V)
    have "capture_keys T" using step.hyps(1) store_keys unfolding store_run_def by blast
    then show ?case using step_captures [OF step.hyps(2)] step.IH publication_validates [OF assms(1)] publishes_effect(5) by fastforce
  qed
  then show ?thesis using assms(3) by blast
qed

text \<open>C23: Every capture a store holds, however it was reached, passes the collector's own check: it is the complete
  capture of the unit it is filed under, with its company and its sequence, and its hash is that of its bytes.\<close>
theorem published_capture_validates:
  assumes "repr_law fl" "store_run fl empty_store S" "r \<in> set (st_captures S)"
  shows "\<exists>d u. document fl (cr_body r) = Some d \<and> canonical_text d = cr_body r \<and>
    validate_capture fl d (sha256_hex (cr_body r)) = Inr u \<and> unit_id u = cr_unit_id r \<and> company_key u = cr_company_key r \<and>
    int_at ''capture_sequence'' d = Some (cr_sequence r)"
  using reachable_validates [OF assms] by (simp add: validates_def)

end
