(* ===== verification/Capture_Wire.thy ===== *)
theory Capture_Wire
  imports Hubspot_Example Capture_Contract
begin

text \<open>
  What a validated capture gives the collector: its document up to key order, the times of its inputs,
  and evidence items that \<open>validate_wire\<close> accepts.
\<close>

subsection \<open>A parsed time is a calendar time\<close>

lemma digits_val_bound: "list_all is_digit s \<Longrightarrow> digits_val s < 10 ^ length s"
proof (induction s rule: rev_induct)
  case (snoc c s)
  then have "digit_val c \<le> 9" "digits_val s < 10 ^ length s" by (auto simp: is_digit_def digit_val_def)
  then show ?case by simp
qed simp

lemma num_field_nonneg: "num_field s = Some n \<Longrightarrow> 0 \<le> n"
  by (auto simp: num_field_def split: if_splits)

lemma fraction_bound: "list_all is_digit ds \<Longrightarrow> digits_val (take 6 (ds @ replicate 6 (CHR ''0''))) < 1000000"
proof -
  assume "list_all is_digit ds"
  then have "list_all is_digit (take 6 (ds @ replicate 6 (CHR ''0'')))"
    by (auto simp: list_all_iff is_digit_def dest!: in_set_takeD)
  from digits_val_bound [OF this]
  have "digits_val (take 6 (ds @ replicate 6 (CHR ''0''))) < 10 ^ 6" by (simp only: length_take length_append length_replicate) simp
  then show ?thesis by simp
qed

lemma split_fraction_range:
  assumes "split_fraction s = Some (us, rest)"
  shows "0 \<le> us \<and> us < 1000000"
proof -
  define val where "val ds = digits_val (take 6 (ds @ replicate 6 (CHR ''0'')))" for ds
  have v: "val (takeWhile is_digit cs) < 1000000" for cs
    unfolding val_def by (rule fraction_bound) (auto simp: list_all_iff dest: set_takeWhileD)
  show ?thesis using assms v unfolding split_fraction_def Let_def val_def [symmetric]
    by (cases s) (auto split: if_splits)
qed

lemma parse_datetime_valid: "parse_datetime s = Some (Aware t off) \<Longrightarrow> valid_utc t"
proof -
  assume a: "parse_datetime s = Some (Aware t off)"
  obtain d h m sec us rest where p: "parse_date (take 10 s) = Some d" "parse_clock (take 8 (drop 11 s)) = Some (h, m, sec)"
    "split_fraction (drop 19 s) = Some (us, rest)" "t = Utc d h m sec us"
    using a by (auto simp: parse_datetime_def split: if_splits option.splits)
  have "valid_date d" using p(1) by (auto simp: parse_date_def split: if_splits option.splits)
  moreover have "0 \<le> h \<and> h < 24 \<and> 0 \<le> m \<and> m < 60 \<and> 0 \<le> sec \<and> sec < 60"
    using p(2) num_field_nonneg by (auto simp: parse_clock_def split: if_splits option.splits)
  ultimately show ?thesis using split_fraction_range [OF p(3)] by (simp add: p(4))
qed

lemma document_clock_ok: "document_clock d i = Inr w \<Longrightarrow> datetime_ok w"
proof -
  assume "document_clock d i = Inr w"
  then obtain s dt where "parse_datetime s = Some dt" "w = Some dt"
    by (auto simp: document_clock_def split: option.splits bind_splits)
  then show ?thesis using parse_datetime_valid by (cases dt) auto
qed

lemma times_of_ok: "times_of j = Some av \<Longrightarrow> \<forall>(n, w)\<in>set av. datetime_ok w"
proof -
  have ok: "datetime_ok (Some dt)" if "parse_datetime s = Some dt" for s dt using that parse_datetime_valid by (cases dt) auto
  have "all_some (map (\<lambda>(n, v). Option.bind (text_of v) (\<lambda>t. map_option (\<lambda>d. (n, Some d)) (parse_datetime t))) kvs) = Some av \<Longrightarrow>
      \<forall>(n, w)\<in>set av. datetime_ok w" for kvs
    by (induction kvs arbitrary: av) (auto simp: ok split: bind_splits)
  then show "times_of j = Some av \<Longrightarrow> \<forall>(n, w)\<in>set av. datetime_ok w"
    by (auto simp: times_of_def split: option.splits json.splits)
qed

subsection \<open>The document of a validated capture\<close>

lemma clean_nested: "clean fl d \<Longrightarrow> member k d = Some v \<Longrightarrow> clean fl v"
  by (cases d) (auto dest: map_of_SomeD)

lemma observation_of_clean:
  assumes "clean fl d" "observation_of d = Some r"
  shows "distinct (map fst (rd_available_at r))" "clean fl (JObj (rd_properties r))" "\<forall>(n, w)\<in>set (rd_available_at r). datetime_ok w"
proof -
  obtain o' ig un av ps where o: "member ''observation'' d = Some o'" "times_of (member ''available_at'' o') = Some av"
    "member ''properties'' o' = Some (JObj ps)" "make_read_result ps av ig un = Inr r"
    using assms(2) by (auto simp: observation_of_def split: bind_splits option.splits json.splits sum.splits)
  have r: "rd_properties r = ps" "rd_available_at r = av" using o(4) by (auto simp: make_read_result_def)
  have co: "clean fl o'" by (rule clean_nested [OF assms(1) o(1)])
  obtain kvs where kvs: "member ''available_at'' o' = Some (JObj kvs)"
    using o(2) by (auto simp: times_of_def split: option.splits json.splits)
  have "distinct (map fst kvs)" using clean_nested [OF co kvs] by simp
  then show "distinct (map fst (rd_available_at r))" using times_of_keys o(2) by (simp add: r kvs)
  show "clean fl (JObj (rd_properties r))" using clean_nested [OF co o(3)] by (simp only: r)
  show "\<forall>(n, w)\<in>set (rd_available_at r). datetime_ok w" using times_of_ok [OF o(2)] by (simp only: r)
qed

lemma notification_payload_clean:
  assumes "clean fl body" "notification_payload body = Some p"
  shows "clean fl p"
proof -
  obtain ns where ns: "member ''namespace'' body = Some ns" using assms(2) by (auto simp: notification_payload_def split: bind_splits)
  have cn: "clean fl ns" by (rule clean_nested [OF assms(1) ns])
  show ?thesis using assms(2) clean_nested [OF assms(1)] clean_nested [OF cn]
    by (auto simp: notification_payload_def ns split: bind_splits option.splits)
qed

lemma captured_unit_ok:
  assumes "clean fl cap" "captured_unit fl cap = Some u"
  shows "body_ok (sn_body (pu_notification u))" "clean fl (sb_property_value (sn_body (pu_notification u)))"
proof -
  obtain n m s a r where n: "captured_notification fl cap = Some n" "make_unit n m s a r = Inr u"
    using assms(2) by (auto simp: captured_unit_def split: bind_splits sum.splits)
  have u: "pu_notification u = n" using n(2) by (auto simp: make_unit_def Let_def split: option.splits)
  obtain body payload where p: "member ''notification'' cap = Some body" "notification_payload body = Some payload"
    "from_payload fl payload (canonical_text payload) = Inr n"
    using n(1) by (auto simp: captured_notification_def split: bind_splits sum.splits if_splits)
  have c: "clean fl payload" by (rule notification_payload_clean [OF clean_nested [OF assms(1) p(1)] p(2)])
  show "body_ok (sn_body (pu_notification u))" using from_payload_ok(1) [OF p(3)] by (simp only: u)
  show "clean fl (sb_property_value (sn_body (pu_notification u)))"
    using from_payload_ok(3) [OF p(3)] c by (auto simp: u)
qed

text \<open>A validated capture is the document of its unit, its read, its rule and its times, but for the order of keys
  and the sequence.\<close>

definition document_of ::
    "(string \<Rightarrow> string option) \<Rightarrow> json \<Rightarrow> json \<Rightarrow> read_interval \<Rightarrow> read_result \<Rightarrow> (string \<times> string) list \<Rightarrow> read_state list \<Rightarrow> bool" where
  "document_of fl cap e iv r tms os \<longleftrightarrow>
     clean fl e \<and> (\<forall>k. k \<noteq> ''capture_sequence'' \<longrightarrow> map_option jnorm (member k cap) = map_option jnorm (member k e)) \<and>
     (\<exists>u owner ref rule es clk. e = capture_document u owner ref iv r tms rule os es \<and> candidate_parts r clk iv tms os es) \<and>
     clean fl (JObj (rd_properties r)) \<and> valid_utc (iv_started iv) \<and> valid_utc (iv_finished iv) \<and> valid_utc (iv_boundary iv) \<and>
     (\<forall>(n, t)\<in>set tms. \<exists>x. t = format_utc x \<and> valid_utc x \<and> x \<le> iv_boundary iv)"

lemma times_formatted:
  assumes "available_times r b = Inr tms" "\<forall>(n, w)\<in>set (rd_available_at r). datetime_ok w" "(n, t) \<in> set tms"
  shows "\<exists>x. t = format_utc x \<and> valid_utc x \<and> x \<le> b"
proof -
  have l: "list_all2 (\<lambda>nw nt. available_time r b nw = Inr nt) (sort_key fst (rd_available_at r)) tms"
    using assms(1) by (simp add: available_times_def mapE_Inr_iff)
  obtain nw where nw: "nw \<in> set (sort_key fst (rd_available_at r))" "available_time r b nw = Inr (n, t)"
    using list_all2_right [OF l assms(3)] by blast
  then have "datetime_ok (snd nw)" using assms(2) by auto
  then show ?thesis using available_time_Inr(4) [OF nw(2)] aware_valid by (auto simp: not_less)
qed

lemma interval_valid:
  assumes "reads_interval clk iv" "\<And>i w. clk i = Inr w \<Longrightarrow> datetime_ok w"
  shows "valid_utc (iv_started iv)" "valid_utc (iv_finished iv)" "valid_utc (iv_boundary iv)"
proof -
  have tick: "valid_utc x" if t: "bindE (clk i) (aware what) = Inr x" for i what x
  proof -
    obtain a where "clk i = Inr a" "aware what a = Inr x" using t by auto
    then show ?thesis using aware_valid assms(2) by blast
  qed
  then show "valid_utc (iv_started iv)" "valid_utc (iv_finished iv)" "valid_utc (iv_boundary iv)"
    using assms(1) unfolding reads_interval_def by blast+
qed

lemma validated_document:
  assumes "clean fl cap" "validate_capture fl cap digest = Inr u"
  obtains e iv r tms os where "document_of fl cap e iv r tms os"
proof -
  let ?w = "without_sequence cap"
  obtain ref g where v: "captured_unit fl cap = Some u" "positive_at ''capture_sequence'' cap"
    "validate_pending_capture fl u \<lparr>co_company_key = company_key u, co_unit_id = unit_id u, co_generation = g\<rparr> ref (canonical_text ?w) = None"
    using assms(2) by (auto simp: validate_capture_def split: if_splits option.splits failure.splits)
  obtain kvs n where cap: "cap = JObj kvs" "map_of kvs ''capture_sequence'' = Some (JInt n)"
    using v(2) by (cases cap) (auto simp: positive_at_def int_at_def split: option.splits json.splits)
  then have kvs: "cap = JObj kvs" "''capture_sequence'' \<in> fst ` set kvs"
    using map_of_eq_None_iff [of kvs "''capture_sequence''"] by auto
  have w: "clean fl ?w"
  proof -
    have "\<forall>(k, v)\<in>insert (''capture_sequence'', JNull) (set kvs). clean fl v" using assms(1) by (simp add: kvs(1))
    then show ?thesis using assms(1) dict_set_set [of "''capture_sequence''" JNull kvs]
      by (auto simp: kvs(1) without_sequence_def dict_set_known [OF kvs(2)])
  qed
  have d: "document fl (canonical_text ?w) = Some (jnorm ?w)" by (simp only: document_def clean_loads [OF w])
  let ?owner = "\<lparr>co_company_key = company_key u, co_unit_id = unit_id u, co_generation = g\<rparr>"
  obtain r rule where r: "observation_of (jnorm ?w) = Some r"
    "build_candidate u ?owner ref (\<lambda>_. Inr (Some r)) (Inr (Some rule)) (document_clock (jnorm ?w)) = Inr (canonical_text ?w)"
    using v(3) by (auto simp: validate_pending_None d)
  obtain iv tms os es where b: "candidate_parts r (document_clock (jnorm ?w)) iv tms os es"
    "canonical_text ?w = canonical_text (capture_document u ?owner ref iv r tms rule os es)"
    using r(2) by (auto simp: build_candidate_Inr)
  let ?e = "capture_document u ?owner ref iv r tms rule os es"
  have cj: "clean fl (jnorm ?w)" using w by simp
  note o = observation_of_clean [OF cj r(1)]
  have e: "clean fl ?e" by (rule clean_document [OF captured_unit_ok [OF assms(1) v(1)] b(1) o(2,1)])
  have n: "jnorm ?w = jnorm ?e" using clean_text_eq [OF w e] b(2) by blast
  have "map_option jnorm (member k cap) = map_option jnorm (member k ?e)" if "k \<noteq> ''capture_sequence''" for k
  proof -
    have "member k cap = member k ?w" using that by (simp add: kvs(1) without_sequence_def map_of_dict_set)
    then show ?thesis using clean_member_jnorm [OF w, of k] clean_member_jnorm [OF e, of k] n by simp
  qed
  moreover have t: "reads_interval (document_clock (jnorm ?w)) iv" "available_times r (iv_boundary iv) = Inr tms"
    using b(1) by (simp_all add: candidate_parts_def)
  moreover have "\<exists>u owner ref rule es clk. ?e = capture_document u owner ref iv r tms rule os es \<and> candidate_parts r clk iv tms os es"
    by (intro exI conjI) (rule refl, rule b(1))
  moreover have "\<forall>(n, t)\<in>set tms. \<exists>x. t = format_utc x \<and> valid_utc x \<and> x \<le> iv_boundary iv"
    using times_formatted [OF t(2) o(3)] by auto
  ultimately have "document_of fl cap ?e iv r tms os"
    unfolding document_of_def using e o(2) interval_valid [OF t(1) document_clock_ok] by simp
  then show ?thesis by (rule that)
qed

subsection \<open>Inputs of a validated capture\<close>

lemma same_member:
  "clean fl a \<Longrightarrow> clean fl b \<Longrightarrow> jnorm a = jnorm b \<Longrightarrow> map_option jnorm (member k a) = map_option jnorm (member k b)"
  using clean_member_jnorm by metis

lemma same_Some: "map_option jnorm x = map_option jnorm y \<Longrightarrow> y = Some b \<Longrightarrow> \<exists>a. x = Some a \<and> jnorm a = jnorm b"
  by (cases x) auto

lemma same_scalar: "map_option jnorm x = map_option jnorm y \<Longrightarrow> y = Some (JStr s) \<Longrightarrow> x = Some (JStr s)"
  by (cases x) auto

text \<open>A path of two members below a member other than the sequence.\<close>

lemma document_path:
  assumes "document_of fl cap e iv r tms os" "clean fl cap" "k1 \<noteq> ''capture_sequence''"
    "member k1 e = Some v" "member k2 v = Some w"
  obtains v' w' where "member k1 cap = Some v'" "member k2 v' = Some w'" "jnorm w' = jnorm w" "clean fl w'" "clean fl w"
proof -
  have e: "clean fl e" "map_option jnorm (member k1 cap) = map_option jnorm (member k1 e)"
    using assms(1,3) by (simp_all add: document_of_def)
  obtain v' where v': "member k1 cap = Some v'" "jnorm v' = jnorm v" using same_Some [OF e(2) assms(4)] by blast
  have c: "clean fl v'" "clean fl v" using clean_nested assms(2,4) e(1) v'(1) by blast+
  obtain w' where w': "member k2 v' = Some w'" "jnorm w' = jnorm w"
    using same_Some [OF same_member [OF c v'(2)] assms(5)] by blast
  show ?thesis using that [OF v'(1) w'] clean_nested c w'(1) assms(5) by blast
qed

lemma document_str:
  "document_of fl cap e iv r tms os \<Longrightarrow> k \<noteq> ''capture_sequence'' \<Longrightarrow> member k e = Some (JStr s) \<Longrightarrow> member k cap = Some (JStr s)"
  unfolding document_of_def by (blast intro: same_scalar)

lemma inputs_member:
  assumes "map_read_result r = Inr (os, es)" "(name, spec) \<in> set OWNED"
  obtains st where "owned_state r (name, spec) = Inr st"
    "member (os_evidence_type spec) (inputs_json os es) = Some (JObj (state_members st))"
proof -
  have l: "list_all2 (\<lambda>ns st. owned_state r ns = Inr st) OWNED os" by (rule map_read_states(1) [OF assms(1)])
  have "\<exists>st. owned_state r (name, spec) = Inr st \<and>
      map_of (map2 (\<lambda>(name, spec) st. (os_evidence_type spec, JObj (state_members st))) OWNED os) (os_evidence_type spec) =
        Some (JObj (state_members st))"
    using assms(2) l by (auto simp: OWNED_def list_all2_Cons1)
  then obtain st where st: "owned_state r (name, spec) = Inr st"
    "map_of (map2 (\<lambda>(name, spec) st. (os_evidence_type spec, JObj (state_members st))) OWNED os) (os_evidence_type spec) =
       Some (JObj (state_members st))" by blast
  show ?thesis by (rule that [OF st(1)]) (unfold inputs_json_def member.simps map_of_append, rule map_add_find_right, rule st(2))
qed

lemma provenance_member:
  assumes "(name, spec) \<in> set OWNED"
  shows "member (os_evidence_type spec) (provenance_json tms) =
    Some (JObj [(''property'', JStr name), (''available_at'', jstr_opt (map_of tms name))])"
proof -
  let ?ps = "map (\<lambda>(name, spec). (name, os_evidence_type spec)) OWNED @ EXTERNAL"
  let ?f = "\<lambda>(name, key). (key, JObj [(''property'', JStr name), (''available_at'', jstr_opt (map_of tms name))])"
  have "distinct (map (os_evidence_type \<circ> snd) OWNED @ map snd EXTERNAL)" by (simp add: OWNED_def EXTERNAL_def)
  then have "distinct (map fst (map ?f ?ps))" by (simp add: comp_def case_prod_beta)
  moreover have "(name, os_evidence_type spec) \<in> set ?ps" using assms by force
  then have "?f (name, os_evidence_type spec) \<in> set (map ?f ?ps)" by (simp only: set_map imageI)
  ultimately have "map_of (map ?f ?ps) (os_evidence_type spec) =
      Some (JObj [(''property'', JStr name), (''available_at'', jstr_opt (map_of tms name))])"
    by (intro map_of_is_SomeI) simp_all
  then show ?thesis unfolding provenance_json_def member.simps by simp
qed

text \<open>The state and the value of an owned input.\<close>

lemma document_input:
  assumes "document_of fl cap e iv r tms os" "clean fl cap" "(name, spec) \<in> set OWNED"
  obtains st where "owned_state r (name, spec) = Inr st"
    "\<forall>f w. map_of (state_members st) f = Some w \<longrightarrow>
       (\<exists>w'. input_of cap (os_evidence_type spec) f = Some w' \<and> jnorm w' = jnorm w \<and> clean fl w' \<and> clean fl w)"
proof -
  obtain u owner ref rule es clk where d: "e = capture_document u owner ref iv r tms rule os es" "candidate_parts r clk iv tms os es"
    using assms(1) by (auto simp: document_of_def)
  have m: "map_read_result r = Inr (os, es)" using d(2) by (simp add: candidate_parts_def)
  have e: "member ''inputs'' e = Some (inputs_json os es)" by (simp add: d(1) document_observation Let_def)
  obtain st where st: "owned_state r (name, spec) = Inr st"
    "member (os_evidence_type spec) (inputs_json os es) = Some (JObj (state_members st))" by (rule inputs_member [OF m assms(3)])
  have "\<exists>w'. input_of cap (os_evidence_type spec) f = Some w' \<and> jnorm w' = jnorm w \<and> clean fl w' \<and> clean fl w"
    if w: "map_of (state_members st) f = Some w" for f w
  proof -
    obtain is' x where p: "member ''inputs'' cap = Some is'" "member (os_evidence_type spec) is' = Some x"
      "jnorm x = jnorm (JObj (state_members st))" "clean fl x" "clean fl (JObj (state_members st))"
      by (rule document_path [OF assms(1,2) _ e st(2)]) simp
    have "member f (JObj (state_members st)) = Some w" using w by simp
    then obtain w' where "member f x = Some w'" "jnorm w' = jnorm w"
      using same_Some [OF same_member [OF p(4,5,3)]] by blast
    moreover have "clean fl w" using clean_nested [OF p(5)] w by simp
    ultimately show ?thesis using p(1,2) clean_nested [OF p(4)] by (auto simp: input_of_def)
  qed
  then show ?thesis using that st(1) by blast
qed

lemma owned_state_value:
  assumes "owned_state r (name, spec) = Inr st" "st = Consumed w \<or> st = Ignored w"
  shows "\<exists>v. convert name (os_kind spec) v = Inr (Some w)"
  using assms by (auto simp: owned_state_def split: if_splits option.splits)

lemma available_input:
  assumes "document_of fl cap e iv r tms os" "clean fl cap" "available_keys cap = Some ks" "key \<in> set ks"
  obtains name spec v w w' where "(name, spec) \<in> set OWNED" "key = os_evidence_type spec"
    "convert name (os_kind spec) v = Inr (Some w)" "input_of cap key ''value'' = Some w'" "jnorm w' = jnorm w" "clean fl w'" "clean fl w"
proof -
  obtain states where s: "all_some (map (\<lambda>k. map_option (Pair k) (input_of cap k ''state'')) owned_keys) = Some states"
    "ks = sort (map fst (filter (\<lambda>(k, s). s \<in> {JStr ''consumed'', JStr ''ignored''}) states))"
    using assms(3) by (auto simp: available_keys_def split: bind_splits)
  obtain sv where sv: "(key, sv) \<in> set states" "sv = JStr ''consumed'' \<or> sv = JStr ''ignored''"
    using assms(4) by (auto simp: s(2))
  have "all_some (map g xs) = Some ys \<Longrightarrow> y \<in> set ys \<Longrightarrow> \<exists>x\<in>set xs. g x = Some y" for g :: "string \<Rightarrow> (string \<times> json) option" and xs ys y
    by (induction xs arbitrary: ys) (auto split: bind_splits)
  from this [OF s(1) sv(1)] obtain k where k: "k \<in> set owned_keys" "input_of cap k ''state'' = Some sv" "k = key" by auto
  then obtain name spec where ns: "(name, spec) \<in> set OWNED" "key = os_evidence_type spec" by (auto simp: owned_keys_def)
  obtain st where st: "owned_state r (name, spec) = Inr st"
    "\<forall>f w. map_of (state_members st) f = Some w \<longrightarrow>
       (\<exists>w'. input_of cap (os_evidence_type spec) f = Some w' \<and> jnorm w' = jnorm w \<and> clean fl w' \<and> clean fl w)"
    by (rule document_input [OF assms(1,2) ns(1)])
  have "\<exists>w. st = Consumed w \<or> st = Ignored w"
  proof (cases st)
    case Unavailable
    then show ?thesis using spec [OF st(2), of "''state''"] k(2,3) sv(2) ns(2) by auto
  next
    case Absent
    then show ?thesis using spec [OF st(2), of "''state''"] k(2,3) sv(2) ns(2) by auto
  qed auto
  then obtain w where w: "st = Consumed w \<or> st = Ignored w" by blast
  then have "map_of (state_members st) ''value'' = Some w" by auto
  with st(2) obtain w' where w': "input_of cap key ''value'' = Some w'" "jnorm w' = jnorm w" "clean fl w'" "clean fl w"
    unfolding ns(2) by blast
  obtain v where "convert name (os_kind spec) v = Inr (Some w)" using owned_state_value [OF st(1) w] by blast
  then show ?thesis by (rule that [OF ns _ w'])
qed

subsection \<open>Items and observations\<close>

lemma clean_dict_set: "clean fl (JObj d) \<Longrightarrow> clean fl v \<Longrightarrow> clean fl (JObj (dict_set k v d))"
  using dict_set_set [of k v d] distinct_dict_set [of d k v] by auto

lemma clean_fold_dict_set:
  "clean fl (JObj d) \<Longrightarrow> \<forall>(k, v)\<in>set kvs. clean fl v \<Longrightarrow> clean fl (JObj (fold (\<lambda>(k, w). dict_set k w) kvs d))"
proof (induction kvs arbitrary: d)
  case (Cons kv kvs)
  have "clean fl (snd kv)" using Cons.prems(2) by (cases kv) simp
  then have c: "clean fl (JObj (dict_set (fst kv) (snd kv) d))" by (rule clean_dict_set [OF Cons.prems(1)])
  have "\<forall>(k, v)\<in>set kvs. clean fl v" using Cons.prems(2) by simp
  from Cons.IH [OF c this] show ?case by (simp add: case_prod_beta del: clean_simps(6))
qed simp

lemma map_of_fold_other:
  "k \<notin> fst ` set kvs \<Longrightarrow> map_of (fold (\<lambda>(k, w). dict_set k w) kvs d) k = map_of d k"
  by (induction kvs arbitrary: d) (auto simp: map_of_dict_set)

lemma convert_shape:
  "convert name FundingEvent v = Inr (Some w) \<Longrightarrow> \<exists>a b. w = JObj [(''value'', JStr a), (''observed_at'', JStr b)]"
  "convert name (IntegrationPressure vs) v = Inr (Some w) \<Longrightarrow> \<exists>a b. w = JObj [(''value'', JStr a), (''basis'', JStr b)]"
  by (auto split: if_splits)

lemma owned_kinds:
  "(name, spec) \<in> set OWNED \<Longrightarrow> os_evidence_type spec = ''funding_event'' \<Longrightarrow> os_kind spec = FundingEvent"
  "(name, spec) \<in> set OWNED \<Longrightarrow> os_evidence_type spec = ''verified_integration_pressure'' \<Longrightarrow>
     \<exists>vs. os_kind spec = IntegrationPressure vs"
proof -
  have "list_all (\<lambda>(n, s). (os_evidence_type s = ''funding_event'' \<longrightarrow> os_kind s = FundingEvent) \<and>
      (os_evidence_type s = ''verified_integration_pressure'' \<longrightarrow> os_kind s = IntegrationPressure [''HIGH'', ''LOW'', ''MEDIUM''])) OWNED"
    by (simp add: OWNED_def)
  then show "(name, spec) \<in> set OWNED \<Longrightarrow> os_evidence_type spec = ''funding_event'' \<Longrightarrow> os_kind spec = FundingEvent"
    "(name, spec) \<in> set OWNED \<Longrightarrow> os_evidence_type spec = ''verified_integration_pressure'' \<Longrightarrow> \<exists>vs. os_kind spec = IntegrationPressure vs"
    unfolding list_all_iff by fast+
qed

text \<open>What an item has, whatever its key.\<close>

definition item_ok :: "(string \<Rightarrow> string option) \<Rightarrow> string \<Rightarrow> json \<Rightarrow> (string \<times> json) list \<Rightarrow> bool" where
  "item_ok fl key s it \<longleftrightarrow> map_of it ''evidence_type'' = Some (JStr key) \<and>
     map_of it ''supersedes_evidence_version_id'' = Some s \<and> clean fl (JObj it)"

lemma item_ok_set: "item_ok fl key s it \<Longrightarrow> clean fl v \<Longrightarrow> k \<noteq> ''evidence_type'' \<Longrightarrow> k \<noteq> ''supersedes_evidence_version_id'' \<Longrightarrow>
    item_ok fl key s (dict_set k v it)"
  unfolding item_ok_def by (simp add: map_of_dict_set clean_dict_set del: clean_simps(6))

lemma semantic_item_ok:
  assumes "(name, spec) \<in> set OWNED" "key = os_evidence_type spec" "convert name (os_kind spec) v = Inr (Some w)"
    "input_of cap key ''value'' = Some w'" "jnorm w' = jnorm w" "clean fl w'" "clean fl w" "clean fl s"
  shows "\<exists>it. semantic_item cap key s = Some it \<and> item_ok fl key s it"
proof -
  let ?it = "[(''evidence_type'', JStr key), (''value'', w'), (''supersedes_evidence_version_id'', s)]"
  have base: "item_ok fl key s ?it" using assms(6,8) by (simp add: item_ok_def)
  consider (funding) "key = ''funding_event''" | (pressure) "key = ''verified_integration_pressure''"
    | (start) "key = ''head_of_platform_start_date''"
    | (plain) "key \<notin> {''funding_event'', ''verified_integration_pressure'', ''head_of_platform_start_date''}" by blast
  then show ?thesis
  proof cases
    case funding
    obtain a b where w: "w = JObj [(''value'', JStr a), (''observed_at'', JStr b)]"
      using convert_shape(1) owned_kinds(1) [OF assms(1)] assms(2,3) funding by metis
    obtain kvs where kvs: "w' = JObj kvs" using assms(5) w by (cases w') auto
    have "fst ` set kvs = fst ` set [(''value'', JStr a), (''observed_at'', JStr b)]"
      using assms(5) keys_jnorm [of kvs] keys_jnorm [of "[(''value'', JStr a), (''observed_at'', JStr b)]"] by (simp add: w kvs)
    then have k: "''evidence_type'' \<notin> fst ` set kvs" "''supersedes_evidence_version_id'' \<notin> fst ` set kvs" by simp_all
    have "\<forall>(k, v)\<in>set kvs. clean fl v" using assms(6) kvs by simp
    then have "item_ok fl key s (fold (\<lambda>(k, w). dict_set k w) kvs ?it)"
      using base clean_fold_dict_set [of fl ?it kvs] by (simp add: item_ok_def map_of_fold_other k del: clean_simps(6))
    then show ?thesis using funding assms(4) by (simp add: semantic_item_def kvs)
  next
    case pressure
    obtain a b where w: "w = JObj [(''value'', JStr a), (''basis'', JStr b)]"
      using convert_shape(2) owned_kinds(2) [OF assms(1)] assms(2,3) pressure by metis
    have m: "member ''value'' w' = Some (JStr a)" "member ''basis'' w' = Some (JStr b)"
      using same_scalar [OF same_member [OF assms(6,7,5)]] by (simp_all add: w)
    have "item_ok fl key s (dict_set ''basis'' (JList [JStr b]) (dict_set ''value'' (JStr a) ?it))"
      by (intro item_ok_set base) simp_all
    then show ?thesis using pressure assms(4) by (simp add: semantic_item_def m)
  next
    case start
    have "item_ok fl key s (dict_set ''observed_at'' JNull ?it)" by (intro item_ok_set base) simp_all
    then show ?thesis using start assms(4) by (simp add: semantic_item_def)
  next
    case plain
    then show ?thesis using base assms(4) by (simp add: semantic_item_def)
  qed
qed

lemma document_texts:
  "member ''read_started_at'' (capture_document u owner ref iv r tms rule os es) = Some (JStr (format_utc (iv_started iv)))"
  "member ''read_finished_at'' (capture_document u owner ref iv r tms rule os es) = Some (JStr (format_utc (iv_finished iv)))"
  "member ''capture_boundary'' (capture_document u owner ref iv r tms rule os es) = Some (JStr (format_utc (iv_boundary iv)))"
  "member ''mapping_identity'' (capture_document u owner ref iv r tms rule os es) = Some (JStr (pu_mapping_identity u))"
  "member ''input_provenance'' (capture_document u owner ref iv r tms rule os es) = Some (provenance_json tms)"
  by (simp_all add: capture_document_def Let_def)

lemma owned_property_owned: "(name, spec) \<in> set OWNED \<Longrightarrow> owned_property (os_evidence_type spec) = Some name"
proof -
  have "distinct (map fst (map (\<lambda>(name, spec). (os_evidence_type spec, name)) OWNED))" by code_simp
  moreover assume "(name, spec) \<in> set OWNED"
  then have "(os_evidence_type spec, name) \<in> set (map (\<lambda>(name, spec). (os_evidence_type spec, name)) OWNED)" by force
  ultimately show ?thesis unfolding owned_property_def by (rule map_of_is_SomeI)
qed

lemma max_format: "valid_utc a \<Longrightarrow> valid_utc b \<Longrightarrow> max (format_utc a) (format_utc b) = format_utc (max a b)"
  by (simp add: max_def format_utc_le)

lemma after_time_format: "valid_utc a \<Longrightarrow> valid_utc b \<Longrightarrow> after_time (Aware a 0) (Aware b 0) = Some (b < a)"
  by (simp add: utc_micros_less)

lemma observation_body_ok:
  assumes "document_of fl cap e iv r tms os" "clean fl cap" "(name, spec) \<in> set OWNED"
    "map_of it ''evidence_type'' = Some (JStr (os_evidence_type spec))"
  shows "\<exists>b x. observation_body account cap it = Some b \<and> str_at ''eligible_at'' b = Some (format_utc x) \<and> valid_utc x \<and>
    iv_finished iv \<le> x \<and> x \<le> iv_boundary iv"
proof -
  let ?key = "os_evidence_type spec"
  obtain u owner ref rule es clk where d: "e = capture_document u owner ref iv r tms rule os es" "candidate_parts r clk iv tms os es"
    using assms(1) by (auto simp: document_of_def)
  have v: "valid_utc (iv_started iv)" "valid_utc (iv_finished iv)" "valid_utc (iv_boundary iv)" "iv_finished iv \<le> iv_boundary iv"
    using assms(1) d(2) by (simp_all add: document_of_def candidate_parts_def reads_interval_def)
  note str = document_str [OF assms(1)]
  have m: "member ''read_started_at'' cap = Some (JStr (format_utc (iv_started iv)))"
    "member ''read_finished_at'' cap = Some (JStr (format_utc (iv_finished iv)))"
    "member ''capture_boundary'' cap = Some (JStr (format_utc (iv_boundary iv)))"
    "member ''mapping_identity'' cap = Some (JStr (pu_mapping_identity u))"
    by (rule str, simp, simp add: d(1) document_texts)+
  have p: "member ''input_provenance'' e = Some (provenance_json tms)" by (simp add: d(1) document_texts)
  obtain pv x where pv: "member ''input_provenance'' cap = Some pv" "member ?key pv = Some x"
    "jnorm x = jnorm (JObj [(''property'', JStr name), (''available_at'', jstr_opt (map_of tms name))])" "clean fl x"
    "clean fl (JObj [(''property'', JStr name), (''available_at'', jstr_opt (map_of tms name))])"
    by (rule document_path [OF assms(1,2) _ p provenance_member [OF assms(3)]]) simp
  obtain y where y: "member ''available_at'' x = Some y" "jnorm y = jnorm (jstr_opt (map_of tms name))"
    using same_Some [OF same_member [OF pv(4,5,3)], of "''available_at''"] by auto
  have y': "y = jstr_opt (map_of tms name)" using y(2) by (cases "map_of tms name"; cases y) (auto simp: jstr_opt_def)
  obtain t where t: "eligible_at (format_utc (iv_finished iv)) y = Some (format_utc t)" "valid_utc t" "iv_finished iv \<le> t" "t \<le> iv_boundary iv"
  proof (cases "map_of tms name")
    case None
    then show ?thesis using that [of "iv_finished iv"] v by (simp add: y' jstr_opt_def eligible_at_def)
  next
    case (Some s)
    then have "(name, s) \<in> set tms" by (rule map_of_SomeD)
    then obtain z where z: "s = format_utc z" "valid_utc z" "z \<le> iv_boundary iv" using assms(1) by (auto simp: document_of_def)
    have "length s = 27" by (simp add: z(1))
    then have "s \<noteq> []" by auto
    then have "eligible_at (format_utc (iv_finished iv)) y = Some (format_utc (max (iv_finished iv) z))"
      using Some max_format [OF v(2) z(2)] by (simp add: y' jstr_opt_def eligible_at_def z(1))
    moreover have "valid_utc (max (iv_finished iv) z)" using v(2) z(2) by (simp add: max_def)
    ultimately show ?thesis using that [of "max (iv_finished iv) z"] v(4) z(3) by simp
  qed
  have "str_at ''read_finished_at'' cap = Some (format_utc (iv_finished iv))" "str_at ''capture_boundary'' cap = Some (format_utc (iv_boundary iv))"
    by (simp_all add: str_at_def m)
  moreover have "after_time (Aware t 0) (Aware (iv_boundary iv) 0) = Some False" using after_time_format [OF t(2) v(3)] t(4) by auto
  ultimately show ?thesis
    using t v by (simp add: observation_body_def assms(4) pv(1,2) y(1) m owned_property_owned [OF assms(3)] parse_datetime_format str_at_def
        del: after_time.simps) blast
qed

subsection \<open>What the collector can do with a validated capture\<close>

lemma document_finish:
  assumes "document_of fl cap e iv r tms os"
  shows "str_at ''read_finished_at'' cap = Some (format_utc (iv_finished iv))"
    "str_at ''capture_boundary'' cap = Some (format_utc (iv_boundary iv))"
proof -
  obtain u owner ref rule es where d: "e = capture_document u owner ref iv r tms rule os es"
    using assms by (auto simp: document_of_def)
  show "str_at ''read_finished_at'' cap = Some (format_utc (iv_finished iv))"
    "str_at ''capture_boundary'' cap = Some (format_utc (iv_boundary iv))"
    using document_str [OF assms] by (simp_all add: str_at_def d document_texts)
qed

lemma available_bound:
  assumes "clean fl cap" "validate_capture fl cap digest = Inr u" "available_keys cap = Some ks" "key \<in> set ks" "clean fl s"
  obtains it b f x c where "semantic_item cap key s = Some it" "observation_body account cap it = Some b" "item_ok fl key s it"
    "bound_item account cap key s = Some (dict_set ''evidence_version_id'' (JStr (''fr-evidence-v2-'' @ canonical_hash b)) it)"
    "str_at ''read_finished_at'' cap = Some (format_utc f)" "str_at ''eligible_at'' b = Some (format_utc x)"
    "str_at ''capture_boundary'' cap = Some (format_utc c)" "f \<le> x" "x \<le> c"
proof -
  obtain e iv r tms os where d: "document_of fl cap e iv r tms os" by (rule validated_document [OF assms(1,2)])
  obtain name spec v w w' where a: "(name, spec) \<in> set OWNED" "key = os_evidence_type spec"
    "convert name (os_kind spec) v = Inr (Some w)" "input_of cap key ''value'' = Some w'" "jnorm w' = jnorm w" "clean fl w'" "clean fl w"
    by (rule available_input [OF d assms(1,3,4)])
  obtain it where it: "semantic_item cap key s = Some it" "item_ok fl key s it" using semantic_item_ok [OF a assms(5)] by blast
  have "map_of it ''evidence_type'' = Some (JStr (os_evidence_type spec))" using it(2) a(2) by (simp add: item_ok_def)
  then obtain b x where b: "observation_body account cap it = Some b" "str_at ''eligible_at'' b = Some (format_utc x)"
    "iv_finished iv \<le> x" "x \<le> iv_boundary iv"
    using observation_body_ok [OF d assms(1) a(1)] by blast
  have bi: "bound_item account cap key s = Some (dict_set ''evidence_version_id'' (JStr (''fr-evidence-v2-'' @ canonical_hash b)) it)"
    by (simp add: bound_item_def it(1) b(1))
  show ?thesis by (rule that [OF it(1) b(1) it(2) bi document_finish(1) [OF d] b(2) document_finish(2) [OF d] b(3,4)])
qed

text \<open>C27: Every input a validated capture has available binds to an observation that was eligible no later than the
  captured boundary and no earlier than the end of the read: the guard of \<open>observation_body\<close> never fires.\<close>
theorem available_input_binds:
  assumes "clean fl cap" "validate_capture fl cap digest = Inr u" "available_keys cap = Some ks" "key \<in> set ks" "clean fl s"
  shows "\<exists>it b f x c. semantic_item cap key s = Some it \<and> observation_body account cap it = Some b \<and>
    bound_item account cap key s = Some (dict_set ''evidence_version_id'' (JStr (''fr-evidence-v2-'' @ canonical_hash b)) it) \<and>
    str_at ''read_finished_at'' cap = Some (format_utc f) \<and> str_at ''eligible_at'' b = Some (format_utc x) \<and>
    str_at ''capture_boundary'' cap = Some (format_utc c) \<and> f \<le> x \<and> x \<le> c"
proof -
  obtain it b f x c where r: "semantic_item cap key s = Some it" "observation_body account cap it = Some b" "item_ok fl key s it"
    "bound_item account cap key s = Some (dict_set ''evidence_version_id'' (JStr (''fr-evidence-v2-'' @ canonical_hash b)) it)"
    "str_at ''read_finished_at'' cap = Some (format_utc f)" "str_at ''eligible_at'' b = Some (format_utc x)"
    "str_at ''capture_boundary'' cap = Some (format_utc c)" "f \<le> x" "x \<le> c"
    by (rule available_bound [OF assms])
  show ?thesis by (intro exI conjI) (fact r)+
qed

lemma clean_typed_refl: "clean fl j \<Longrightarrow> typed_equal j j"
  by (rule clean_typed_equal [where fl = fl]) simp_all

lemma bound_item_validates:
  assumes "clean fl cap" "validate_capture fl cap digest = Inr u" "available_keys cap = Some ks" "key \<in> set ks" "clean fl s"
  obtains bi where "bound_item account cap key s = Some bi" "str_at ''evidence_type'' (JObj bi) = Some key"
    "check_wire_item account cap (JObj bi) = Some ()"
proof -
  obtain it b f x c where r: "semantic_item cap key s = Some it" "observation_body account cap it = Some b" "item_ok fl key s it"
    "bound_item account cap key s = Some (dict_set ''evidence_version_id'' (JStr (''fr-evidence-v2-'' @ canonical_hash b)) it)"
    "str_at ''read_finished_at'' cap = Some (format_utc f)" "str_at ''eligible_at'' b = Some (format_utc x)"
    "str_at ''capture_boundary'' cap = Some (format_utc c)" "f \<le> x" "x \<le> c"
    by (rule available_bound [OF assms])
  let ?bi = "dict_set ''evidence_version_id'' (JStr (''fr-evidence-v2-'' @ canonical_hash b)) it"
  have ok: "item_ok fl key s ?bi" by (rule item_ok_set [OF r(3)]) simp_all
  then have "clean fl (JObj ?bi)" unfolding item_ok_def by blast
  then have "typed_equal (JObj ?bi) (JObj ?bi)" by (rule clean_typed_refl)
  moreover have "str_at ''evidence_type'' (JObj ?bi) = Some key" "member ''supersedes_evidence_version_id'' (JObj ?bi) = Some s"
    using ok by (simp_all add: item_ok_def str_at_def)
  ultimately have t: "str_at ''evidence_type'' (JObj ?bi) = Some key" "member ''supersedes_evidence_version_id'' (JObj ?bi) = Some s"
    "typed_equal (JObj ?bi) (JObj ?bi)" by blast+
  have "check_wire_item account cap (JObj ?bi) = Some ()"
    using t assms(3,4) r(4) by (simp add: check_wire_item_def del: member.simps typed_equal.simps)
  then show ?thesis by (rule that [OF r(4) t(1)])
qed

text \<open>The collector accepts the evidence a validated capture binds: an \<open>evidence.recorded\<close> event whose items are the
  bound items of distinct available inputs passes \<open>validate_wire\<close>.\<close>
theorem captured_evidence_accepted:
  assumes "clean fl cap" "validate_capture fl cap digest = Inr u" "available_keys cap = Some ks"
    and "set keys \<subseteq> set ks" "distinct keys" "\<forall>k\<in>set keys. clean fl (supersedes k)"
    and "account_identity cap = Some account" "member ''account_ref'' normalized = Some (JStr account)"
    and "member ''event_type'' normalized = Some (JStr ''evidence.recorded'')"
    and "member ''occurred_at'' normalized = member ''read_finished_at'' cap"
    and "member ''payload'' normalized = Some p" "member ''capture'' p = Some cap" "str_at ''capture_hash'' p = Some digest"
    and "member ''items'' p = Some (JList items)"
    and "all_some (map (\<lambda>k. map_option JObj (bound_item (JStr account) cap k (supersedes k))) keys) = Some items"
  shows "validate_wire fl normalized = Some ()"
proof -
  note valid = bound_item_validates [OF assms(1-3), where account = "JStr account"]
  have one: "\<exists>bi. bound_item (JStr account) cap k (supersedes k) = Some bi \<and> str_at ''evidence_type'' (JObj bi) = Some k \<and>
      check_wire_item (JStr account) cap (JObj bi) = Some ()" if "k \<in> set keys" for k
    using valid [of k "supersedes k"] that assms(4,6) by blast
  have "all_some (map (str_at ''evidence_type'') items) = Some keys \<and>
      all_some (map (check_wire_item (JStr account) cap) items) = Some (map (\<lambda>_. ()) items)"
    using assms(15) one
  proof (induction keys arbitrary: items)
    case (Cons k keys)
    obtain bi where b: "bound_item (JStr account) cap k (supersedes k) = Some bi" "str_at ''evidence_type'' (JObj bi) = Some k"
      "check_wire_item (JStr account) cap (JObj bi) = Some ()" using Cons.prems(2) [of k] by auto
    then obtain is' where i: "all_some (map (\<lambda>k. map_option JObj (bound_item (JStr account) cap k (supersedes k))) keys) = Some is'"
      "items = JObj bi # is'" using Cons.prems(1) by (auto split: bind_splits)
    have "all_some (map (str_at ''evidence_type'') is') = Some keys \<and>
        all_some (map (check_wire_item (JStr account) cap) is') = Some (map (\<lambda>_. ()) is')"
      using Cons.IH [OF i(1)] Cons.prems(2) by simp
    then show ?case using b by (simp add: i(2))
  qed simp
  moreover obtain e iv r tms os where d: "document_of fl cap e iv r tms os" by (rule validated_document [OF assms(1,2)])
  then obtain f where "member ''read_finished_at'' cap = Some f"
    using document_finish(1) [OF d] by (auto simp: str_at_def split: option.splits)
  ultimately have "check_wire_evidence normalized (JStr account) p cap = Some ()"
    using assms(5,10,14) by (simp add: check_wire_evidence_def)
  then show ?thesis using assms by (simp add: validate_wire_def)
qed

subsection \<open>The example\<close>

lemma demo_inputs:
  "member ''inputs'' (with_sequence 1 (jnorm demo_document)) = Some (jnorm (inputs_json demo_states [Ignored (JFloat ''1.5'')]))"
proof -
  have "member ''inputs'' demo_document = Some (inputs_json demo_states [Ignored (JFloat ''1.5'')])"
    by (simp add: demo_document_def document_observation Let_def)
  then show ?thesis by (simp add: member_with_sequence clean_member_jnorm [OF demo_document_clean])
qed

lemma demo_available:
  "available_keys (with_sequence 1 (jnorm demo_document)) = Some [''employee_count'']"
proof -
  let ?i = "jnorm (inputs_json demo_states [Ignored (JFloat ''1.5'')])"
  have s: "map (\<lambda>k. map_option (Pair k) (Option.bind (member k ?i) (member ''state''))) owned_keys =
      map Some (zip owned_keys (map JStr [''consumed'', ''unavailable'', ''unavailable'', ''absent'', ''absent'', ''absent'', ''absent'']))"
    by code_simp
  have a: "all_some (map Some xs) = Some xs" for xs :: "(string \<times> json) list" by (induction xs) auto
  have "sort (map fst (filter (\<lambda>(k, s). s \<in> {JStr ''consumed'', JStr ''ignored''})
      (zip owned_keys (map JStr [''consumed'', ''unavailable'', ''unavailable'', ''absent'', ''absent'', ''absent'', ''absent''])))) =
      [''employee_count'']"
    by code_simp
  then show ?thesis by (simp add: available_keys_def input_of_def demo_inputs s a del: jnorm.simps)
qed

lemma demo_account:
  "account_identity (with_sequence 1 (jnorm demo_document)) = Some (''fr-account-v2-'' @ canonical_hash (JList [JInt 11, JInt 42]))"
proof -
  have "member ''notification'' demo_document = Some (body_json demo_body)"
    by (simp add: demo_document_def document_observation Let_def demo_unit_def demo_notification_def)
  then have m: "member ''notification'' (with_sequence 1 (jnorm demo_document)) = Some (jnorm (body_json demo_body))"
    by (simp add: member_with_sequence clean_member_jnorm [OF demo_document_clean])
  have "Option.bind (member ''namespace'' (jnorm (body_json demo_body))) (member ''portal_id'') = Some (JInt 11)"
    "member ''object_id'' (jnorm (body_json demo_body)) = Some (JInt 42)" by code_simp+
  then show ?thesis by (auto simp: account_identity_def m bind_eq_Some_conv simp del: jnorm.simps)
qed

lemma demo_validated:
  obtains u where "clean demo_fl (with_sequence 1 (jnorm demo_document))"
    "validate_capture demo_fl (with_sequence 1 (jnorm demo_document)) (canonical_hash (with_sequence 1 (jnorm demo_document))) = Inr u"
proof -
  obtain c T where d: "store_run demo_fl empty_store T"
    "st_captures T = [\<lparr>cr_unit_id = unit_id demo_unit, cr_company_key = company_key demo_unit, cr_sequence = 1, cr_body = c\<rparr>]"
    "c = canonical_text (with_sequence 1 (jnorm demo_document))" by (rule demo_capture_document)
  obtain kvs where kvs: "jnorm demo_document = JObj kvs" by (simp add: demo_document_def capture_document_def Let_def jnorm_object del: jnorm.simps)
  have "member ''capture_sequence'' (jnorm demo_document) = Some JNull"
    by (simp add: clean_member_jnorm [OF demo_document_clean]) (simp add: demo_document_def capture_document_def Let_def)
  then have "map_of kvs ''capture_sequence'' = Some JNull" by (simp add: kvs)
  note s = sequenced [OF demo_document_clean this kvs, of 1]
  have doc: "document demo_fl c = Some (with_sequence 1 (jnorm demo_document))"
    using clean_loads [OF s(1)] by (simp only: document_def d(3) s(2))
  have "validates demo_fl \<lparr>cr_unit_id = unit_id demo_unit, cr_company_key = company_key demo_unit, cr_sequence = 1, cr_body = c\<rparr>"
    by (rule reachable_validates [OF demo_repr d(1)]) (simp add: d(2))
  then obtain u where "validate_capture demo_fl (with_sequence 1 (jnorm demo_document)) (sha256_hex c) = Inr u"
    using doc by (auto simp: validates_def)
  then have "validate_capture demo_fl (with_sequence 1 (jnorm demo_document)) (canonical_hash (with_sequence 1 (jnorm demo_document))) = Inr u"
    by (simp only: canonical_hash_def d(3))
  then show ?thesis by (rule that [OF s(1)])
qed

theorem published_capture_validates_witness:
  "\<exists>T r d u. store_run demo_fl empty_store T \<and> r \<in> set (st_captures T) \<and> document demo_fl (cr_body r) = Some d \<and>
     validate_capture demo_fl d (sha256_hex (cr_body r)) = Inr u"
proof -
  obtain c T where d: "store_run demo_fl empty_store T"
    "st_captures T = [\<lparr>cr_unit_id = unit_id demo_unit, cr_company_key = company_key demo_unit, cr_sequence = 1, cr_body = c\<rparr>]"
    by (rule demo_capture_document)
  let ?r = "\<lparr>cr_unit_id = unit_id demo_unit, cr_company_key = company_key demo_unit, cr_sequence = 1, cr_body = c\<rparr>"
  have r: "?r \<in> set (st_captures T)" by (simp add: d(2))
  show ?thesis using published_capture_validates [OF demo_repr d(1) r] d(1) r by blast
qed

theorem available_input_binds_witness:
  "\<exists>it b x c. observation_body (JStr ''acct'') (with_sequence 1 (jnorm demo_document)) it = Some b \<and>
     str_at ''eligible_at'' b = Some (format_utc x) \<and>
     str_at ''capture_boundary'' (with_sequence 1 (jnorm demo_document)) = Some (format_utc c) \<and> x \<le> c"
proof -
  obtain u where v: "clean demo_fl (with_sequence 1 (jnorm demo_document))"
    "validate_capture demo_fl (with_sequence 1 (jnorm demo_document)) (canonical_hash (with_sequence 1 (jnorm demo_document))) = Inr u"
    by (rule demo_validated)
  have k: "''employee_count'' \<in> set [''employee_count'']" by simp
  show ?thesis using available_input_binds [OF v demo_available k clean_simps(1), of "JStr ''acct''"] by blast
qed

theorem captured_evidence_accepted_witness:
  "\<exists>items. length items = 1 \<and> validate_wire demo_fl (JObj
     [(''event_type'', JStr ''evidence.recorded''),
      (''account_ref'', JStr (''fr-account-v2-'' @ canonical_hash (JList [JInt 11, JInt 42]))),
      (''occurred_at'', item ''read_finished_at'' (\<lambda>k. member k (with_sequence 1 (jnorm demo_document)))),
      (''payload'', JObj [(''capture'', with_sequence 1 (jnorm demo_document)),
        (''capture_hash'', JStr (canonical_hash (with_sequence 1 (jnorm demo_document)))), (''items'', JList items)])]) = Some ()"
proof -
  let ?cap = "with_sequence 1 (jnorm demo_document)"
  let ?acct = "''fr-account-v2-'' @ canonical_hash (JList [JInt 11, JInt 42])"
  obtain u where v: "clean demo_fl ?cap" "validate_capture demo_fl ?cap (canonical_hash ?cap) = Inr u" by (rule demo_validated)
  note b = bound_item_validates [OF v demo_available, where account = "JStr ?acct" and s = JNull]
  obtain i1 where i1: "bound_item (JStr ?acct) ?cap ''employee_count'' JNull = Some i1" by (rule b [of "''employee_count''"]) simp_all
  have keys: "set [''employee_count''] \<subseteq> set [''employee_count'']"
    "distinct [''employee_count'']" by simp_all
  have items: "all_some (map (\<lambda>k. map_option JObj (bound_item (JStr ?acct) ?cap k JNull)) [''employee_count'']) =
      Some [JObj i1]" using i1 by simp
  have "member ''read_finished_at'' demo_document = Some (JStr (format_utc (iv_finished demo_interval)))"
    by (simp add: demo_document_def document_texts)
  then have f: "member ''read_finished_at'' ?cap = Some (JStr (format_utc (iv_finished demo_interval)))"
    by (simp add: member_with_sequence clean_member_jnorm [OF demo_document_clean])
  let ?p = "JObj [(''capture'', ?cap), (''capture_hash'', JStr (canonical_hash ?cap)), (''items'', JList [JObj i1])]"
  let ?n = "JObj [(''event_type'', JStr ''evidence.recorded''), (''account_ref'', JStr ?acct),
      (''occurred_at'', item ''read_finished_at'' (\<lambda>k. member k ?cap)), (''payload'', ?p)]"
  have n: "member ''account_ref'' ?n = Some (JStr ?acct)" "member ''event_type'' ?n = Some (JStr ''evidence.recorded'')"
    "member ''occurred_at'' ?n = member ''read_finished_at'' ?cap" "member ''payload'' ?n = Some ?p"
    "member ''capture'' ?p = Some ?cap" "str_at ''capture_hash'' ?p = Some (canonical_hash ?cap)"
    "member ''items'' ?p = Some (JList [JObj i1])"
    by (simp_all add: item_def f str_at_def)
  have "validate_wire demo_fl ?n = Some ()"
    by (rule captured_evidence_accepted [OF v demo_available keys _ demo_account n items]) simp
  then show ?thesis by (intro exI [of _ "[JObj i1]"]) simp
qed

end
