(* ===== verification/Capture_Ledger.thy ===== *)
theory Capture_Ledger
  imports Capture_Wire Collector_Progress
begin

text \<open>
  \<open>collector/provenance.py\<close> on the five capture tables of \<open>ledger/schema.py\<close>: evidence and decisions of
  schema version 2, which carry the capture they rest on.  The collector binds a capture to one account,
  unit and sequence, mints evidence versions from it, and recomputes every decision before it is stored.
\<close>

subsection \<open>The capture tables\<close>

record capture_context =
  cc_hash :: string
  cc_account :: string
  cc_unit :: string
  cc_sequence :: int
  cc_body :: string
  cc_source_event :: string

text \<open>The columns of \<open>evidence_versions\<close> and of \<open>decisions\<close> come back in the tables of version 2.\<close>

record evidence_v2 =
  ev_row :: evidence_row
  ev_capture :: string
  ev_observation :: string

record decision_v2 =
  dv_row :: decision_row
  dv_unit :: string
  dv_logical_key :: string
  dv_processing_version :: string
  dv_capture :: string
  dv_reprocesses :: "string option"

record capture_ledger =
  cl_base :: ledger
  cl_captures :: "capture_context list"
  cl_evidence :: "evidence_v2 list"
  cl_decisions :: "decision_v2 list"
  cl_context :: "context_row list"
  cl_consumed :: "consumed_row list"

definition empty_captures :: capture_ledger where
  "empty_captures = \<lparr>cl_base = empty_ledger, cl_captures = [], cl_evidence = [], cl_decisions = [],
     cl_context = [], cl_consumed = []\<rparr>"

definition insert_capture_context :: "capture_context \<Rightarrow> capture_ledger \<Rightarrow> db_error + capture_ledger" where
  "insert_capture_context r C = guarded
     [bind_int (cc_sequence r), raise_if (cc_sequence r \<le> 0) (CheckViolation ''capture_sequence > 0''),
      unique_key ''capture_contexts.capture_hash'' cc_hash (cl_captures C) (cc_hash r),
      unique_key ''capture_contexts.unit_id'' cc_unit (cl_captures C) (cc_unit r),
      unique_key ''capture_contexts.account_ref, capture_sequence'' (\<lambda>x. (cc_account x, cc_sequence x)) (cl_captures C)
        (cc_account r, cc_sequence r),
      foreign_key ''capture_contexts.account_ref'' a_account_ref (lg_accounts (cl_base C)) (cc_account r),
      foreign_key ''capture_contexts.source_event_id'' e_event_id (lg_events (cl_base C)) (cc_source_event r)]
     (C\<lparr>cl_captures := cl_captures C @ [r]\<rparr>)"

definition insert_evidence_v2 :: "evidence_v2 \<Rightarrow> capture_ledger \<Rightarrow> db_error + capture_ledger" where
  "insert_evidence_v2 r C = guarded
     [unique_key ''evidence_versions_v2.evidence_version_id'' (v_version_id \<circ> ev_row) (cl_evidence C) (v_version_id (ev_row r)),
      foreign_key ''evidence_versions_v2.account_ref'' a_account_ref (lg_accounts (cl_base C)) (v_account_ref (ev_row r)),
      foreign_key ''evidence_versions_v2.source_event_id'' e_event_id (lg_events (cl_base C)) (v_source_event (ev_row r)),
      foreign_opt ''evidence_versions_v2.supersedes_evidence_version_id'' (v_version_id \<circ> ev_row)
        (cl_evidence C @ [r]) (v_supersedes (ev_row r)),
      foreign_key ''evidence_versions_v2.capture_hash'' cc_hash (cl_captures C) (ev_capture r)]
     (C\<lparr>cl_evidence := cl_evidence C @ [r]\<rparr>)"

definition insert_decision_v2 :: "decision_v2 \<Rightarrow> capture_ledger \<Rightarrow> db_error + capture_ledger" where
  "insert_decision_v2 r C = guarded
     [bind_int (d_score (dv_row r)), bind_int (d_threshold (dv_row r)), bind_int (d_seq (dv_row r)),
      unique_key ''decisions_v2.decision_event_id'' (d_event_id \<circ> dv_row) (cl_decisions C) (d_event_id (dv_row r)),
      unique_key ''decisions_v2.unit_id'' dv_unit (cl_decisions C) (dv_unit r),
      foreign_key ''decisions_v2.decision_event_id'' e_event_id (lg_events (cl_base C)) (d_event_id (dv_row r)),
      foreign_key ''decisions_v2.account_ref'' a_account_ref (lg_accounts (cl_base C)) (d_account_ref (dv_row r)),
      foreign_key ''decisions_v2.artifact_hash'' l_hash (lg_artifacts (cl_base C)) (d_hash (dv_row r)),
      foreign_key ''decisions_v2.capture_hash'' cc_hash (cl_captures C) (dv_capture r),
      foreign_opt ''decisions_v2.reprocesses'' dv_unit (cl_decisions C @ [r]) (dv_reprocesses r)]
     (C\<lparr>cl_decisions := cl_decisions C @ [r]\<rparr>)"

definition insert_context_v2 :: "context_row \<Rightarrow> capture_ledger \<Rightarrow> db_error + capture_ledger" where
  "insert_context_v2 r C = guarded
     [unique_key ''decision_context_v2'' (\<lambda>x. (h_decision x, h_input_key x)) (cl_context C) (h_decision r, h_input_key r),
      foreign_key ''decision_context_v2.decision_event_id'' (d_event_id \<circ> dv_row) (cl_decisions C) (h_decision r),
      foreign_opt ''decision_context_v2.evidence_version_id'' (v_version_id \<circ> ev_row) (cl_evidence C) (h_evidence r)]
     (C\<lparr>cl_context := cl_context C @ [r]\<rparr>)"

definition insert_consumed_v2 :: "consumed_row \<Rightarrow> capture_ledger \<Rightarrow> db_error + capture_ledger" where
  "insert_consumed_v2 r C = guarded
     [bind_int (u_contribution r),
      unique_key ''decision_consumed_inputs_v2'' (\<lambda>x. (u_decision x, u_input_key x)) (cl_consumed C) (u_decision r, u_input_key r),
      foreign_key ''decision_consumed_inputs_v2.decision_event_id'' (d_event_id \<circ> dv_row) (cl_decisions C) (u_decision r),
      foreign_key ''decision_consumed_inputs_v2.evidence_version_id'' (v_version_id \<circ> ev_row) (cl_evidence C) (u_evidence r)]
     (C\<lparr>cl_consumed := cl_consumed C @ [r]\<rparr>)"

lemmas capture_insert_defs = insert_capture_context_def insert_evidence_v2_def insert_decision_v2_def
  insert_context_v2_def insert_consumed_v2_def

interpretation captures: append_table cl_captures cc_hash insert_capture_context "\<lambda>r C. r"
  by unfold_locales (auto simp: insert_capture_context_def)

interpretation evidence_v2: append_table cl_evidence "v_version_id \<circ> ev_row" insert_evidence_v2 "\<lambda>r C. r"
  by unfold_locales (auto simp: insert_evidence_v2_def)

interpretation decisions_v2: append_table cl_decisions "d_event_id \<circ> dv_row" insert_decision_v2 "\<lambda>r C. r"
  by unfold_locales (auto simp: insert_decision_v2_def)

subsection \<open>Events of schema version 2\<close>

text \<open>
  \<open>EvidenceRecordedV2Envelope\<close> and \<open>DecisionRecordedV2Envelope\<close>; the payload of the second extends that of
  version 1.  Evidence items stand as the objects they dump to, which \<open>validate_wire\<close> compares with the
  items it binds from the capture; the types of their fields admit integers and texts, no floats (\<open>plain\<close>).
\<close>

datatype capture_body = EvidenceV2 "json list" | DecisionV2 decision_recorded

record capture_event =
  qe_event_id :: string
  qe_account_ref :: string
  qe_occurred_at :: utc
  qe_recorded_at :: utc
  qe_capture :: json
  qe_capture_hash :: string
  qe_body :: capture_body

definition object_members :: "json \<Rightarrow> (string \<times> json) list" where
  "object_members j = (case j of JObj kvs \<Rightarrow> kvs | _ \<Rightarrow> [])"

definition capture_event_type :: "capture_event \<Rightarrow> string" where
  "capture_event_type q = (case qe_body q of EvidenceV2 _ \<Rightarrow> ''evidence.recorded'' | DecisionV2 _ \<Rightarrow> ''decision.recorded'')"

definition dump_capture_payload :: "capture_event \<Rightarrow> json" where
  "dump_capture_payload q = JObj
     ((case qe_body q of
         EvidenceV2 items \<Rightarrow> [(''items'', JList items)]
       | DecisionV2 p \<Rightarrow> object_members (dump_payload (DecisionRecorded p))) @
      [(''capture'', qe_capture q), (''capture_hash'', JStr (qe_capture_hash q))])"

definition dump_capture_event :: "capture_event \<Rightarrow> json" where
  "dump_capture_event q = JObj
     [(''schema_version'', JStr ''2''), (''event_id'', JStr (qe_event_id q)), (''source'', JStr SOURCE_CAPTURE),
      (''account_ref'', JStr (qe_account_ref q)), (''occurred_at'', jtime (qe_occurred_at q)),
      (''recorded_at'', jtime (qe_recorded_at q)), (''event_type'', JStr (capture_event_type q)),
      (''payload'', dump_capture_payload q)]"

text \<open>The validators the version 2 decision inherits: those of the version 1 envelope.\<close>

definition inherited_envelope :: "capture_event \<Rightarrow> decision_recorded \<Rightarrow> envelope" where
  "inherited_envelope q p =
     \<lparr>en_event_id = qe_event_id q, en_source = SOURCE_CAPTURE, en_account_ref = qe_account_ref q,
      en_occurred_at = qe_occurred_at q, en_recorded_at = qe_recorded_at q, en_payload = DecisionRecorded p\<rparr>"

text \<open>The types of the fields the collector reads of an evidence item: non-empty identifiers, dates as texts.\<close>

definition captured_item_fields :: "json \<Rightarrow> bool" where
  "captured_item_fields it \<longleftrightarrow>
     str_at ''evidence_version_id'' it \<notin> {None, Some []} \<and>
     optional_text (member ''supersedes_evidence_version_id'' it) \<notin> {None, Some (Some [])} \<and>
     (member ''observed_at'' it = None \<or> optional_text (member ''observed_at'' it) \<noteq> None)"

definition valid_capture_event :: "(string \<Rightarrow> string option) \<Rightarrow> capture_event \<Rightarrow> bool" where
  "valid_capture_event fl q \<longleftrightarrow>
     clean fl (qe_capture q) \<and>
     (case qe_body q of
        EvidenceV2 items \<Rightarrow>
          nonempty (qe_event_id q) \<and> nonempty (qe_account_ref q) \<and> qe_account_ref q \<noteq> SYSTEM_ACCOUNT_REF \<and>
          valid_utc (qe_occurred_at q) \<and> valid_utc (qe_recorded_at q) \<and> qe_occurred_at q \<le> qe_recorded_at q \<and>
          items \<noteq> [] \<and> (\<forall>it\<in>set items. clean fl it \<and> plain it \<and> captured_item_fields it) \<and> distinct (map (str_at ''evidence_version_id'') items)
      | DecisionV2 p \<Rightarrow> valid_envelope (inherited_envelope q p)) \<and>
     validate_wire fl (dump_capture_event q) = Some ()"

subsection \<open>What the checks read of a capture\<close>

record captured_facts =
  cf_unit_id :: string
  cf_sequence :: int
  cf_logical_key :: string
  cf_processing_version :: string
  cf_reprocesses :: "string option"
  cf_rule_hash :: string
  cf_evaluator_version :: string
  cf_boundary :: string

definition capture_facts :: "json \<Rightarrow> captured_facts option" where
  "capture_facts cap =
     Option.bind (str_at ''unit_id'' cap) (\<lambda>u.
     Option.bind (int_at ''capture_sequence'' cap) (\<lambda>n.
     Option.bind (str_at ''logical_key'' cap) (\<lambda>k.
     Option.bind (str_at ''processing_version'' cap) (\<lambda>v.
     Option.bind (optional_text (member ''reprocesses'' cap)) (\<lambda>r.
     Option.bind (str_at ''rule_hash'' cap) (\<lambda>h.
     Option.bind (str_at ''evaluator_version'' cap) (\<lambda>e.
     Option.bind (str_at ''capture_boundary'' cap) (\<lambda>b.
       Some \<lparr>cf_unit_id = u, cf_sequence = n, cf_logical_key = k, cf_processing_version = v, cf_reprocesses = r,
         cf_rule_hash = h, cf_evaluator_version = e, cf_boundary = b\<rparr>))))))))"

text \<open>\<open>_capture_row\<close>: every stored capture that shares an identity with this one must be this one.\<close>

definition capture_row_of :: "capture_event \<Rightarrow> captured_facts \<Rightarrow> capture_context" where
  "capture_row_of q f =
     \<lparr>cc_hash = qe_capture_hash q, cc_account = qe_account_ref q, cc_unit = cf_unit_id f, cc_sequence = cf_sequence f,
      cc_body = canonical_text (qe_capture q), cc_source_event = qe_event_id q\<rparr>"

definition capture_identity :: "capture_context \<Rightarrow> string \<times> string \<times> string \<times> int \<times> string" where
  "capture_identity r = (cc_hash r, cc_account r, cc_unit r, cc_sequence r, cc_body r)"

definition shares_identity :: "capture_context \<Rightarrow> capture_context \<Rightarrow> bool" where
  "shares_identity r s \<longleftrightarrow> cc_hash s = cc_hash r \<or> cc_unit s = cc_unit r \<or>
     (cc_account s = cc_account r \<and> cc_sequence s = cc_sequence r)"

definition stored_capture :: "capture_context \<Rightarrow> capture_ledger \<Rightarrow> collector_error + capture_context option" where
  "stored_capture r C =
     (let rows = filter (shares_identity r) (cl_captures C) in
      if list_ex (\<lambda>s. capture_identity s \<noteq> capture_identity r) rows then Inl (Conflict ''v2_identity_conflict'' [])
      else Inr (case rows of [] \<Rightarrow> None | s # _ \<Rightarrow> Some s))"

definition evidence_v2_at :: "capture_ledger \<Rightarrow> string \<Rightarrow> evidence_v2 option" where
  "evidence_v2_at C k = find (\<lambda>r. v_version_id (ev_row r) = k) (cl_evidence C)"

definition capture_at :: "capture_ledger \<Rightarrow> string \<Rightarrow> capture_context option" where
  "capture_at C h = find (\<lambda>r. cc_hash r = h) (cl_captures C)"

definition decision_of_unit :: "capture_ledger \<Rightarrow> string \<Rightarrow> decision_v2 option" where
  "decision_of_unit C u = find (\<lambda>d. dv_unit d = u) (cl_decisions C)"

end
