(* ===== verification/Provenance.thy ===== *)
theory Provenance
  imports Capture_Ledger
begin

text \<open>
  The checks of \<open>collector/provenance.py\<close>, the rows an accepted event projects, and \<open>Collector.ingest\<close> for
  events of both kinds.  \<open>None\<close> and \<open>False\<close> stand for an exception of a check; on an event that passed
  \<open>validate_wire\<close> these are the \<open>ValueError\<close>s that \<open>validate_v2\<close> turns into the rejection \<open>invalid_v2_provenance\<close>.
  A failure of evaluation keeps its value: the named ones are turned into that rejection too, an
  \<open>OverflowError\<close> is raised again (\<open>evaluation_refusal\<close>).
\<close>

subsection \<open>Evidence\<close>

text \<open>A nullable column against an optional member.\<close>

definition column_is :: "json option \<Rightarrow> string option \<Rightarrow> bool" where
  "column_is j c = (case j of None \<Rightarrow> c = None | Some JNull \<Rightarrow> c = None | Some (JStr s) \<Rightarrow> c = Some s | _ \<Rightarrow> False)"

definition verify_evidence :: "evidence_v2 option \<Rightarrow> string \<Rightarrow> json \<Rightarrow> (string \<times> json) list \<Rightarrow> bool" where
  "verify_evidence row account cap it =
     (case (row, observation_body (JStr account) cap it) of
        (Some r, Some b) \<Rightarrow>
          v_account_ref (ev_row r) = account \<and> map_of it ''evidence_type'' = Some (JStr (v_type (ev_row r))) \<and>
          map_option canonical_text (member ''semantic'' b) = Some (v_value_json (ev_row r)) \<and>
          v_source (ev_row r) = SOURCE_CAPTURE \<and> column_is (map_of it ''observed_at'') (v_observed_at (ev_row r)) \<and>
          member ''eligible_at'' b = Some (JStr (v_available_at (ev_row r))) \<and>
          map_of it ''supersedes_evidence_version_id'' \<noteq> None \<and>
          column_is (map_of it ''supersedes_evidence_version_id'') (v_supersedes (ev_row r)) \<and>
          ev_observation r = canonical_text b \<and>
          map_of it ''evidence_version_id'' = Some (JStr (v_version_id (ev_row r)))
      | _ \<Rightarrow> False)"

text \<open>One item of an evidence event: a version not minted yet, and the version it supersedes.\<close>

definition supersession_allowed :: "capture_ledger \<Rightarrow> string \<Rightarrow> json \<Rightarrow> (string \<times> json) list \<Rightarrow> string \<Rightarrow> string \<Rightarrow> bool" where
  "supersession_allowed C account cap it v predecessor =
     (predecessor = [] \<or>
      (case (evidence_v2_at C predecessor, observation_body (JStr account) cap it) of
         (Some prior, Some b) \<Rightarrow>
           predecessor \<noteq> v \<and> v_account_ref (ev_row prior) = account \<and>
           map_of it ''evidence_type'' = Some (JStr (v_type (ev_row prior))) \<and>
           (case str_at ''eligible_at'' b of None \<Rightarrow> False | Some e \<Rightarrow> v_available_at (ev_row prior) \<le> e)
       | _ \<Rightarrow> False))"

definition minted_afresh :: "capture_ledger \<Rightarrow> string \<Rightarrow> json \<Rightarrow> json \<Rightarrow> bool" where
  "minted_afresh C account cap it =
     (case (str_at ''evidence_version_id'' it, optional_text (member ''supersedes_evidence_version_id'' it)) of
        (Some v, Some predecessor) \<Rightarrow>
          evidence_v2_at C v = None \<and>
          (case predecessor of None \<Rightarrow> True | Some s \<Rightarrow> supersession_allowed C account cap (object_members it) v s)
      | _ \<Rightarrow> False)"

subsection \<open>Decisions\<close>

definition lineage :: "capture_ledger \<Rightarrow> string \<Rightarrow> captured_facts \<Rightarrow> bool" where
  "lineage C account f =
     (case cf_reprocesses f of
        None \<Rightarrow> True
      | Some u \<Rightarrow>
          (case decision_of_unit C u of
             None \<Rightarrow> False
           | Some prior \<Rightarrow>
               d_account_ref (dv_row prior) = account \<and> dv_logical_key prior = cf_logical_key f \<and>
               dv_processing_version prior \<noteq> cf_processing_version f \<and>
               (case capture_at C (dv_capture prior) of
                  None \<Rightarrow> False
                | Some c \<Rightarrow> cc_sequence c < cf_sequence f)))"

text \<open>A dictionary of entries by their key, and entries sorted by it.\<close>

definition entry_key :: "json \<Rightarrow> string" where
  "entry_key x = (case str_at ''input_key'' x of None \<Rightarrow> [] | Some k \<Rightarrow> k)"

definition by_key :: "json list \<Rightarrow> (string \<rightharpoonup> json)" where
  "by_key entries = map_of (map (\<lambda>x. (entry_key x, x)) (rev entries))"

text \<open>The capture that minted a reused observation still holds it.\<close>

definition origin_intact ::
    "(string \<Rightarrow> string option) \<Rightarrow> capture_ledger \<Rightarrow> string \<Rightarrow> evidence_v2 \<Rightarrow> string \<Rightarrow> bool" where
  "origin_intact fl C account row key =
     (case capture_at C (ev_capture row) of
        None \<Rightarrow> False
      | Some origin \<Rightarrow>
          (case loads fl (cc_body origin) of
             None \<Rightarrow> False
           | Some old \<Rightarrow>
               (case validate_capture fl old (cc_hash origin) of
                  Inl _ \<Rightarrow> False
                | Inr _ \<Rightarrow>
                    cc_account origin = account \<and> str_at ''unit_id'' old = Some (cc_unit origin) \<and>
                    int_at ''capture_sequence'' old = Some (cc_sequence origin) \<and>
                    (case bound_item (JStr account) old key (jstr_opt (v_supersedes (ev_row row))) of
                       None \<Rightarrow> False
                     | Some it \<Rightarrow> verify_evidence (Some row) account old it))))"

definition verified_entry ::
    "(string \<Rightarrow> string option) \<Rightarrow> capture_ledger \<Rightarrow> string \<Rightarrow> json \<Rightarrow> (string \<rightharpoonup> json) \<Rightarrow> string \<Rightarrow> (string \<times> json) option" where
  "verified_entry fl C account cap supplied key =
     Option.bind (supplied key) (\<lambda>x.
     Option.bind (str_at ''evidence_version_id'' x) (\<lambda>v.
     Option.bind (evidence_v2_at C v) (\<lambda>row.
     Option.bind (bound_item (JStr account) cap key (jstr_opt (v_supersedes (ev_row row)))) (\<lambda>it.
       if verify_evidence (Some row) account cap it \<and> origin_intact fl C account row key
       then Some (key, jstr_opt (v_supersedes (ev_row row))) else None))))"

definition verify_context ::
    "(string \<Rightarrow> string option) \<Rightarrow> capture_ledger \<Rightarrow> string \<Rightarrow> json \<Rightarrow> json list \<Rightarrow> json list option" where
  "verify_context fl C account cap submitted =
     Option.bind (available_keys cap) (\<lambda>ks.
     Option.bind (all_some (map (verified_entry fl C account cap (by_key submitted)) ks)) (\<lambda>supersessions.
     Option.bind (expected_context (JStr account) cap (map_of supersessions)) (\<lambda>expected.
       if typed_equal (JList (sort_key entry_key submitted)) (JList expected) then Some expected else None)))"

definition observed_date :: "capture_ledger \<Rightarrow> string option \<Rightarrow> date option option" where
  "observed_date C version =
     (case Option.bind version (\<lambda>v. if v = [] then None else evidence_v2_at C v) of
        None \<Rightarrow> Some None
      | Some row \<Rightarrow>
          (case v_observed_at (ev_row row) of
             None \<Rightarrow> Some None
           | Some s \<Rightarrow> if s = [] then Some None else map_option Some (parse_date s)))"

definition captured_input :: "capture_ledger \<Rightarrow> json \<Rightarrow> context_input option" where
  "captured_input C x =
     Option.bind (str_at ''input_key'' x) (\<lambda>k.
     Option.bind (str_at ''availability'' x) (\<lambda>a.
     Option.bind (member ''value'' x) (\<lambda>w.
     Option.bind (optional_text (member ''evidence_version_id'' x)) (\<lambda>v.
     Option.bind (observed_date C v) (\<lambda>t.
       Some \<lparr>cx_key = k, cx_availability = a, cx_value = w, cx_evidence = v, cx_observed_at = t\<rparr>)))))"

definition used_input :: "json \<Rightarrow> json list \<Rightarrow> factor_result \<Rightarrow> json option" where
  "used_input cap context r =
     Option.bind (input_of cap (fr_key r) ''state'') (\<lambda>state.
       if state = JStr ''ignored'' then None
       else Option.bind (by_key context (fr_key r)) (\<lambda>x. Option.bind (member ''value'' x) (\<lambda>w.
         Some (JObj [(''input_key'', JStr (fr_key r)), (''value'', w), (''evidence_version_id'', jstr_opt (fr_evidence r)),
           (''contribution'', JInt (fr_contribution r))]))))"

definition used_inputs :: "json \<Rightarrow> json list \<Rightarrow> evaluation_result \<Rightarrow> json list option" where
  "used_inputs cap context res =
     all_some (map (used_input cap context) (filter (\<lambda>r. fr_state r = input_state.Consumed) (rs_factors res)))"

text \<open>
  \<open>_evaluate\<close>: the pinned logic, run again on the verified context, gives the recorded decision.  \<open>validate_v2\<close> turns
  the ValueErrors and the named failures of reconstruction, evaluation and rules into a rejection; the OverflowError
  of a window of days is none of these and leaves the collector.
\<close>

definition invalid_provenance :: collector_error where
  "invalid_provenance = Rejected ''invalid_v2_provenance'' []"

fun evaluation_refusal :: "evaluation_error \<Rightarrow> collector_error" where
  "evaluation_refusal (RuleFailed PyOverflow) = Uncaught ''OverflowError''"
| "evaluation_refusal _ = invalid_provenance"

definition evaluate_captured ::
    "capture_ledger \<Rightarrow> decision_recorded \<Rightarrow> json \<Rightarrow> string \<Rightarrow> json list \<Rightarrow> collector_error + evaluation_result" where
  "evaluate_captured C p cap boundary context =
     (let ref = de_artifact p in
      case verify_artifact_row (load_artifact_row (cl_base C) (ar_artifact_hash ref)) (ar_artifact_hash ref) None of
        Inl _ \<Rightarrow> Inl invalid_provenance
      | Inr vf \<Rightarrow>
          (let a = vf_artifact vf in
           if la_artifact_id a \<noteq> ar_artifact_id ref \<or> la_logic_version a \<noteq> ar_logic_version ref \<or>
              la_evaluator_version a \<noteq> ar_evaluator_version ref \<or> la_decision_class a \<noteq> de_decision_class p
           then Inl invalid_provenance
           else bindE (opt_to_sum invalid_provenance (all_some (map (captured_input C) context))) (\<lambda>inputs.
             bindE (opt_to_sum invalid_provenance (parse_datetime boundary)) (\<lambda>b.
               case evaluate a inputs b of
                 Inl e \<Rightarrow> Inl (evaluation_refusal e)
               | Inr res \<Rightarrow>
                   bindE (opt_to_sum invalid_provenance (used_inputs cap context res)) (\<lambda>used.
                     if used = [] then Inl invalid_provenance
                     else if \<not> typed_equal (JList (sort_key entry_key (map dump_consumed (de_consumed p))))
                         (JList (sort_key entry_key used)) then Inl invalid_provenance
                     else if \<not> typed_equal (dump_result (de_result p))
                         (JObj [(''score'', JInt (rs_score res)), (''threshold'', JInt (rs_threshold res)),
                           (''output'', JStr (rs_output res))]) then Inl invalid_provenance
                     else Inr res)))))"

subsection \<open>Admission\<close>

definition validate_captured_decision ::
    "(string \<Rightarrow> string option) \<Rightarrow> capture_event \<Rightarrow> captured_facts \<Rightarrow> decision_recorded \<Rightarrow> capture_ledger \<Rightarrow> collector_error option" where
  "validate_captured_decision fl q f p C =
     (if decision_of_unit C (cf_unit_id f) \<noteq> None then Some (Conflict ''v2_identity_conflict'' [])
      else if \<not> lineage C (qe_account_ref q) f then Some invalid_provenance
      else (case verify_context fl C (qe_account_ref q) (qe_capture q) (map dump_context_entry (de_context p)) of
              None \<Rightarrow> Some invalid_provenance
            | Some context \<Rightarrow>
                (case evaluate_captured C p (qe_capture q) (cf_boundary f) context of
                   Inl e \<Rightarrow> Some e
                 | Inr _ \<Rightarrow> None)))"

definition validate_v2 :: "(string \<Rightarrow> string option) \<Rightarrow> capture_event \<Rightarrow> capture_ledger \<Rightarrow> collector_error option" where
  "validate_v2 fl q C =
     (case capture_facts (qe_capture q) of
        None \<Rightarrow> Some invalid_provenance
      | Some f \<Rightarrow>
          (case stored_capture (capture_row_of q f) C of
             Inl e \<Rightarrow> Some e
           | Inr _ \<Rightarrow>
               (case qe_body q of
                  EvidenceV2 items \<Rightarrow>
                    if list_all (minted_afresh C (qe_account_ref q) (qe_capture q)) items then None else Some invalid_provenance
                | DecisionV2 p \<Rightarrow> validate_captured_decision fl q f p C)))"

subsection \<open>Projection\<close>

definition evidence_v2_row :: "capture_event \<Rightarrow> json \<Rightarrow> evidence_v2 option" where
  "evidence_v2_row q it =
     Option.bind (observation_body (JStr (qe_account_ref q)) (qe_capture q) (object_members it)) (\<lambda>b.
     Option.bind (str_at ''evidence_version_id'' it) (\<lambda>v.
     Option.bind (str_at ''evidence_type'' it) (\<lambda>k.
     Option.bind (member ''semantic'' b) (\<lambda>semantic.
     Option.bind (case member ''observed_at'' it of None \<Rightarrow> Some None | Some t \<Rightarrow> optional_text (Some t)) (\<lambda>observed.
     Option.bind (str_at ''eligible_at'' b) (\<lambda>eligible.
     Option.bind (optional_text (member ''supersedes_evidence_version_id'' it)) (\<lambda>s.
       Some \<lparr>ev_row = \<lparr>v_version_id = v, v_account_ref = qe_account_ref q, v_type = k, v_value_json = canonical_text semantic,
           v_source = SOURCE_CAPTURE, v_observed_at = observed, v_available_at = eligible,
           v_source_event = qe_event_id q, v_supersedes = s\<rparr>,
         ev_capture = qe_capture_hash q, ev_observation = canonical_text b\<rparr>)))))))"

definition decision_v2_row :: "capture_event \<Rightarrow> captured_facts \<Rightarrow> decision_recorded \<Rightarrow> int \<Rightarrow> decision_v2" where
  "decision_v2_row q f p s =
     \<lparr>dv_row = decision_row_of (inherited_envelope q p) p s, dv_unit = cf_unit_id f, dv_logical_key = cf_logical_key f,
      dv_processing_version = cf_processing_version f, dv_capture = qe_capture_hash q, dv_reprocesses = cf_reprocesses f\<rparr>"

text \<open>An item without its observation would raise out of \<open>project_v2\<close>; \<open>validate_wire\<close> excludes it.\<close>

definition project_v2 :: "capture_event \<Rightarrow> captured_facts \<Rightarrow> int \<Rightarrow> capture_ledger \<Rightarrow> collector_error + capture_ledger" where
  "project_v2 q f s C =
     bindE (stored_capture (capture_row_of q f) C) (\<lambda>known.
     bindE (if known = None then lift_db (insert_capture_context (capture_row_of q f) C) else Inr C) (\<lambda>C1.
       case qe_body q of
         EvidenceV2 items \<Rightarrow>
           bindE (opt_to_sum (CorruptEvidence (qe_event_id q)) (all_some (map (evidence_v2_row q) items))) (\<lambda>rows.
             lift_db (insert_many insert_evidence_v2 rows C1))
       | DecisionV2 p \<Rightarrow>
           lift_db (bindE (insert_decision_v2 (decision_v2_row q f p s) C1) (\<lambda>C2.
             bindE (insert_many insert_context_v2 (map (context_row_of (qe_event_id q)) (de_context p)) C2) (\<lambda>C3.
               insert_many insert_consumed_v2 (map (consumed_row_of (qe_event_id q)) (de_consumed p)) C3)))))"

subsection \<open>Ingest of both kinds of event\<close>

definition capture_event_hash :: "capture_event \<Rightarrow> string" where
  "capture_event_hash q = canonical_hash (dump_capture_event q)"

definition capture_event_row :: "capture_event \<Rightarrow> event_row" where
  "capture_event_row q =
     \<lparr>e_seq = 0, e_event_id = qe_event_id q, e_schema_version = ''2'', e_event_type = capture_event_type q,
      e_source = SOURCE_CAPTURE, e_account_ref = qe_account_ref q, e_occurred_at = format_utc (qe_occurred_at q),
      e_recorded_at = format_utc (qe_recorded_at q), e_hash = capture_event_hash q,
      e_payload = canonical_text (dump_capture_payload q)\<rparr>"

text \<open>A unique key broken by another writer is a conflict of identity, not a failure of the server.\<close>

fun admission_conflict :: "string \<Rightarrow> collector_error \<Rightarrow> collector_error" where
  "admission_conflict k (Database (UniqueViolation _)) = Conflict ''v2_identity_conflict'' [k]"
| "admission_conflict k e = e"

definition write_captured :: "capture_event \<Rightarrow> capture_ledger \<Rightarrow> collector_error + capture_ledger" where
  "write_captured q C =
     bindE (lift_db (insert_event (capture_event_row q) (cl_base C))) (\<lambda>L.
     bindE (opt_to_sum invalid_provenance (capture_facts (qe_capture q))) (\<lambda>f.
     bindE (project_v2 q f (lg_seq L) (C\<lparr>cl_base := L\<rparr>)) (\<lambda>C'.
       bindE (lift_db (commit (cl_base C'))) (\<lambda>_. Inr C'))))"

definition ingest_captured ::
    "(string \<Rightarrow> string option) \<Rightarrow> capture_event \<Rightarrow> capture_ledger \<Rightarrow> collector_error + (ingest_result \<times> capture_ledger)" where
  "ingest_captured fl q C =
     (let digest = capture_event_hash q in
      case event_at (cl_base C) (qe_event_id q) of
        Some existing \<Rightarrow>
          if e_hash existing = digest
          then Inr (\<lparr>ir_status = Duplicate, ir_event_id = qe_event_id q, ir_hash = digest\<rparr>, C)
          else Inl (Conflict ''event_id_reused_with_different_content'' [qe_event_id q, e_hash existing, digest])
      | None \<Rightarrow>
          if account_at (cl_base C) (qe_account_ref q) = None then Inl (Rejected ''unknown_account_ref'' [qe_account_ref q])
          else (case validate_v2 fl q C of
              Some err \<Rightarrow> Inl err
            | None \<Rightarrow>
                (case write_captured q C of
                   Inl err \<Rightarrow> Inl (admission_conflict (qe_event_id q) err)
                 | Inr C' \<Rightarrow> Inr (\<lparr>ir_status = Created, ir_event_id = qe_event_id q, ir_hash = digest\<rparr>, C'))))"

datatype any_event = Legacy envelope | Captured capture_event

fun valid_event :: "(string \<Rightarrow> string option) \<Rightarrow> any_event \<Rightarrow> bool" where
  "valid_event fl (Legacy e) = valid_envelope e"
| "valid_event fl (Captured q) = valid_capture_event fl q"

fun event_key :: "any_event \<Rightarrow> string" where
  "event_key (Legacy e) = en_event_id e"
| "event_key (Captured q) = qe_event_id q"

fun event_hash :: "any_event \<Rightarrow> string" where
  "event_hash (Legacy e) = envelope_hash e"
| "event_hash (Captured q) = capture_event_hash q"

fun ingest_any ::
    "(string \<Rightarrow> string option) \<Rightarrow> any_event \<Rightarrow> capture_ledger \<Rightarrow> collector_error + (ingest_result \<times> capture_ledger)" where
  "ingest_any fl (Legacy e) C = bindE (ingest e (cl_base C)) (\<lambda>(r, L). Inr (r, C\<lparr>cl_base := L\<rparr>))"
| "ingest_any fl (Captured q) C = ingest_captured fl q C"

subsection \<open>Replay of a captured decision\<close>

definition stored_entry :: "(string \<Rightarrow> string option) \<Rightarrow> context_row \<Rightarrow> json option" where
  "stored_entry fl r =
     Option.bind (case h_value_text r of None \<Rightarrow> Some JNull | Some t \<Rightarrow> loads fl t) (\<lambda>w.
       Some (JObj [(''input_key'', JStr (h_input_key r)), (''availability'', JStr (h_availability r)), (''value'', w),
         (''evidence_version_id'', jstr_opt (h_evidence r))]))"

definition captured_consumption :: "json \<Rightarrow> json list \<Rightarrow> consumed_row \<Rightarrow> bool" where
  "captured_consumption cap context u =
     (case by_key context (u_input_key u) of
        None \<Rightarrow> False
      | Some x \<Rightarrow>
          member ''availability'' x = Some (JStr ''available'') \<and>
          map_option canonical_text (member ''value'' x) = Some (u_value_text u) \<and>
          member ''evidence_version_id'' x = Some (JStr (u_evidence u)) \<and>
          (case input_of cap (u_input_key u) ''state'' of None \<Rightarrow> False | Some s \<Rightarrow> s \<noteq> JStr ''ignored''))"

definition row_agrees :: "decision_v2 \<Rightarrow> string \<Rightarrow> captured_facts \<Rightarrow> bool" where
  "row_agrees d account f \<longleftrightarrow>
     dv_unit d = cf_unit_id f \<and> dv_logical_key d = cf_logical_key f \<and>
     dv_processing_version d = cf_processing_version f \<and> d_workflow_version (dv_row d) = cf_processing_version f \<and>
     dv_reprocesses d = cf_reprocesses f \<and> d_hash (dv_row d) = cf_rule_hash f \<and>
     d_evaluator_version (dv_row d) = cf_evaluator_version f \<and> d_boundary (dv_row d) = cf_boundary f \<and>
     d_account_ref (dv_row d) = account"

definition context_v2_rows :: "capture_ledger \<Rightarrow> string \<Rightarrow> context_row list" where
  "context_v2_rows C k = sort_key h_input_key (filter (\<lambda>h. h_decision h = k) (cl_context C))"

definition consumed_v2_rows :: "capture_ledger \<Rightarrow> string \<Rightarrow> consumed_row list" where
  "consumed_v2_rows C k = sort_key u_input_key (filter (\<lambda>u. u_decision u = k) (cl_consumed C))"

definition load_captured ::
    "(string \<Rightarrow> string option) \<Rightarrow> capture_ledger \<Rightarrow> decision_v2 \<Rightarrow> context_input list option" where
  "load_captured fl C d =
     Option.bind (capture_at C (dv_capture d)) (\<lambda>c.
     Option.bind (loads fl (cc_body c)) (\<lambda>cap.
     Option.bind (case validate_capture fl cap (dv_capture d) of Inl _ \<Rightarrow> None | Inr _ \<Rightarrow> Some ()) (\<lambda>_.
     Option.bind (capture_facts cap) (\<lambda>f.
     Option.bind (account_identity cap) (\<lambda>account.
       if cc_body c \<noteq> canonical_text cap \<or> cc_account c \<noteq> d_account_ref (dv_row d) \<or> cc_unit c \<noteq> cf_unit_id f \<or>
         cc_sequence c \<noteq> cf_sequence f \<or> \<not> row_agrees d account f \<or> \<not> lineage C (d_account_ref (dv_row d)) f
       then None
       else Option.bind (all_some (map (stored_entry fl) (context_v2_rows C (d_event_id (dv_row d))))) (\<lambda>context.
         Option.bind (verify_context fl C (d_account_ref (dv_row d)) cap context) (\<lambda>_.
           if \<not> list_all (captured_consumption cap context) (filter (\<lambda>u. u_decision u = d_event_id (dv_row d)) (cl_consumed C))
           then None else all_some (map (captured_input C) context))))))))"

definition load_v2_context ::
    "(string \<Rightarrow> string option) \<Rightarrow> capture_ledger \<Rightarrow> decision_v2 \<Rightarrow> reconstruction_error + context_input list" where
  "load_v2_context fl C d = opt_to_sum (IntegrityFailure ''v2_provenance'') (load_captured fl C d)"

definition decision_v2_at :: "capture_ledger \<Rightarrow> string \<Rightarrow> decision_v2 option" where
  "decision_v2_at C k = find (\<lambda>d. d_event_id (dv_row d) = k) (cl_decisions C)"

definition load_decision_any :: "capture_ledger \<Rightarrow> string \<Rightarrow> reconstruction_error + decision_row" where
  "load_decision_any C k =
     (case find (\<lambda>d. d_event_id d = k) (lg_decisions (cl_base C)) of
        Some d \<Rightarrow> Inr d
      | None \<Rightarrow> opt_to_sum (DecisionNotFound k) (map_option dv_row (decision_v2_at C k)))"

definition is_legacy :: "capture_ledger \<Rightarrow> string \<Rightarrow> bool" where
  "is_legacy C k \<longleftrightarrow> find (\<lambda>d. d_event_id d = k) (lg_decisions (cl_base C)) \<noteq> None"

definition load_context_any ::
    "(string \<Rightarrow> string option) \<Rightarrow> capture_ledger \<Rightarrow> string \<Rightarrow> string \<Rightarrow> reconstruction_error + context_input list" where
  "load_context_any fl C k boundary =
     (case (if is_legacy C k then None else decision_v2_at C k) of
        None \<Rightarrow> load_context (cl_base C) k boundary
      | Some d \<Rightarrow>
          if d_boundary (dv_row d) \<noteq> boundary then Inl (IntegrityFailure ''decision_boundary'')
          else load_v2_context fl C d)"

definition load_consumed_any :: "capture_ledger \<Rightarrow> string \<Rightarrow> consumed_row list" where
  "load_consumed_any C k =
     (if \<not> is_legacy C k \<and> decision_v2_at C k \<noteq> None then consumed_v2_rows C k
      else load_consumed_inputs (cl_base C) k)"

definition reconstruct_any ::
    "(string \<Rightarrow> string option) \<Rightarrow> capture_ledger \<Rightarrow> string \<Rightarrow> reconstruction_error + reconstruction" where
  "reconstruct_any fl C k =
     bindE (load_decision_any C k) (\<lambda>d.
     bindE (verify_artifact (load_artifact_row (cl_base C) (d_hash d)) d None) (\<lambda>vf.
     bindE (lift_evaluation (lift_rule (parse_boundary (d_boundary d)))) (\<lambda>b.
     bindE (load_context_any fl C k (d_boundary d)) (\<lambda>ctx.
     bindE (lift_evaluation (evaluate (vf_artifact vf) ctx (Aware b 0))) (\<lambda>res.
       case compare_with_recorded res d (load_consumed_any C k) of
         Some e \<Rightarrow> Inl e
       | None \<Rightarrow> Inr
           \<lparr>rc_decision_event_id = d_event_id d, rc_artifact_hash = vf_recomputed_hash vf,
            rc_logic_version = la_logic_version (vf_artifact vf),
            rc_evaluator_version = la_evaluator_version (vf_artifact vf), rc_boundary = b, rc_result = res,
            rc_stored_hash = vf_stored_hash vf, rc_recomputed_hash = vf_recomputed_hash vf,
            rc_runtime = vf_runtime vf\<rparr>)))))"

end
