(* ===== verification/Provenance_Growth.thy ===== *)
theory Provenance_Growth
  imports Provenance
begin

text \<open>
  The capture tables only grow, and a check that passed passes for good: lineage, the verified context and the
  replay of a captured decision are stable under every later event, of either kind.
\<close>

subsection \<open>Growth\<close>

definition cextends :: "capture_ledger \<Rightarrow> capture_ledger \<Rightarrow> bool" where
  "cextends C C' \<longleftrightarrow>
     extends (cl_base C) (cl_base C') \<and>
     grown (\<lambda>_. True) (cl_captures C) (cl_captures C') \<and>
     grown (\<lambda>_. True) (cl_evidence C) (cl_evidence C') \<and>
     grown (\<lambda>d. d_event_id (dv_row d) \<notin> event_ids (cl_base C)) (cl_decisions C) (cl_decisions C') \<and>
     grown (\<lambda>h. h_decision h \<notin> event_ids (cl_base C)) (cl_context C) (cl_context C') \<and>
     grown (\<lambda>u. u_decision u \<notin> event_ids (cl_base C)) (cl_consumed C) (cl_consumed C')"

lemma cextends_refl [simp]: "cextends C C"
  by (simp add: cextends_def)

lemma cextends_trans:
  assumes "cextends C C'" "cextends C' C''"
  shows "cextends C C''"
proof -
  have "event_ids (cl_base C) \<subseteq> event_ids (cl_base C')"
    using assms(1) extends_event_ids by (simp add: cextends_def)
  then have n: "k \<notin> event_ids (cl_base C') \<Longrightarrow> k \<notin> event_ids (cl_base C)" for k by blast
  show ?thesis
    using assms unfolding cextends_def
    by (elim conjE, intro conjI) (erule (1) extends_trans | erule (1) grown_trans; use n in force)+
qed

lemma grown_find_kept: "grown P xs ys \<Longrightarrow> find Q xs = Some r \<Longrightarrow> find Q ys = Some r"
  by (auto simp: grown_def find_append)

lemma cextends_lookups:
  assumes "cextends C C'"
  shows "capture_at C h = Some c \<Longrightarrow> capture_at C' h = Some c"
    "evidence_v2_at C v = Some r \<Longrightarrow> evidence_v2_at C' v = Some r"
    "decision_of_unit C u = Some d \<Longrightarrow> decision_of_unit C' u = Some d"
    "decision_v2_at C k = Some d \<Longrightarrow> decision_v2_at C' k = Some d"
    "load_artifact_row (cl_base C) a = Some l \<Longrightarrow> load_artifact_row (cl_base C') a = Some l"
  using assms unfolding cextends_def extends_def capture_at_def evidence_v2_at_def decision_of_unit_def
    decision_v2_at_def load_artifact_row_def
  by (blast intro: grown_find_kept)+

subsection \<open>Checks that stay passed\<close>

lemma lineage_iff:
  "lineage C account f \<longleftrightarrow> cf_reprocesses f = None \<or>
     (\<exists>u prior c. cf_reprocesses f = Some u \<and> decision_of_unit C u = Some prior \<and> d_account_ref (dv_row prior) = account \<and>
        dv_logical_key prior = cf_logical_key f \<and> dv_processing_version prior \<noteq> cf_processing_version f \<and>
        capture_at C (dv_capture prior) = Some c \<and> cc_sequence c < cf_sequence f)"
  by (auto simp: lineage_def split: option.splits)

lemma lineage_kept: "cextends C C' \<Longrightarrow> lineage C account f \<Longrightarrow> lineage C' account f"
  unfolding lineage_iff using cextends_lookups(1,3) [of C C'] by metis

lemma origin_intact_kept: "cextends C C' \<Longrightarrow> origin_intact fl C account row key \<Longrightarrow> origin_intact fl C' account row key"
  by (auto simp: origin_intact_def split: option.splits dest: cextends_lookups)

lemma verified_entry_kept:
  "cextends C C' \<Longrightarrow> verified_entry fl C account cap m key = Some y \<Longrightarrow> verified_entry fl C' account cap m key = Some y"
  by (auto simp: verified_entry_def bind_eq_Some_conv split: if_splits dest: cextends_lookups(2) origin_intact_kept)

lemma all_some_kept:
  assumes "all_some (map f xs) = Some ys" "\<And>x y. x \<in> set xs \<Longrightarrow> f x = Some y \<Longrightarrow> g x = Some y"
  shows "all_some (map g xs) = Some ys"
  using assms by (induction xs arbitrary: ys) (auto simp: bind_eq_Some_conv)

lemma verify_context_kept:
  assumes "cextends C C'" "verify_context fl C account cap xs = Some ys"
  shows "verify_context fl C' account cap xs = Some ys"
proof -
  obtain ks ss where k: "available_keys cap = Some ks"
    "all_some (map (verified_entry fl C account cap (by_key xs)) ks) = Some ss"
    "Option.bind (expected_context (JStr account) cap (map_of ss)) (\<lambda>expected.
       if typed_equal (JList (sort_key entry_key xs)) (JList expected) then Some expected else None) = Some ys"
    using assms(2) unfolding verify_context_def by (auto simp: bind_eq_Some_conv simp del: typed_equal.simps)
  have "all_some (map (verified_entry fl C' account cap (by_key xs)) ks) = Some ss"
    by (rule all_some_kept [OF k(2)]) (rule verified_entry_kept [OF assms(1)])
  then show ?thesis unfolding verify_context_def using k(1,3) by simp
qed

text \<open>An entry whose version is stored reads the same date for good.\<close>

definition versions_stored :: "capture_ledger \<Rightarrow> json \<Rightarrow> bool" where
  "versions_stored C x \<longleftrightarrow>
     (\<forall>v. optional_text (member ''evidence_version_id'' x) = Some (Some v) \<longrightarrow> evidence_v2_at C v \<noteq> None)"

lemma captured_input_kept:
  assumes "cextends C C'" "versions_stored C x"
  shows "captured_input C' x = captured_input C x"
proof -
  have "observed_date C' v = observed_date C v" if o: "optional_text (member ''evidence_version_id'' x) = Some v" for v
  proof (cases v)
    case (Some k)
    then obtain r where "evidence_v2_at C k = Some r" using assms(2) o by (auto simp: versions_stored_def)
    then show ?thesis using cextends_lookups(2) [OF assms(1)] by (simp add: observed_date_def Some)
  qed (simp add: observed_date_def)
  then show ?thesis unfolding captured_input_def
    by (cases "optional_text (member ''evidence_version_id'' x)") (auto intro!: Option.bind_cong)
qed

lemma rows_of_decision_kept:
  assumes "cextends C C'" "k \<in> event_ids (cl_base C)"
  shows "filter (\<lambda>h. h_decision h = k) (cl_context C') = filter (\<lambda>h. h_decision h = k) (cl_context C)"
    "filter (\<lambda>u. u_decision u = k) (cl_consumed C') = filter (\<lambda>u. u_decision u = k) (cl_consumed C)"
  using assms unfolding cextends_def by (auto intro!: grown_filter)

text \<open>The versions a stored context names are stored.\<close>

definition context_versions :: "capture_ledger \<Rightarrow> bool" where
  "context_versions C \<longleftrightarrow> (\<forall>h\<in>set (cl_context C). \<forall>v. h_evidence h = Some v \<longrightarrow> evidence_v2_at C v \<noteq> None)"

lemma stored_entry_version:
  "stored_entry fl h = Some x \<Longrightarrow> optional_text (member ''evidence_version_id'' x) = Some (h_evidence h)"
  by (auto simp: stored_entry_def bind_eq_Some_conv optional_text_def jstr_opt_def split: option.splits)

lemma all_some_in: "all_some (map f xs) = Some ys \<Longrightarrow> y \<in> set ys \<Longrightarrow> \<exists>x\<in>set xs. f x = Some y"
  by (induction xs arbitrary: ys) (auto simp: bind_eq_Some_conv)

lemma load_captured_iff:
  "load_captured fl C d = Some inputs \<longleftrightarrow>
     (\<exists>c cap u f account ctx expected. capture_at C (dv_capture d) = Some c \<and> loads fl (cc_body c) = Some cap \<and>
        validate_capture fl cap (dv_capture d) = Inr u \<and> capture_facts cap = Some f \<and> account_identity cap = Some account \<and>
        cc_body c = canonical_text cap \<and> cc_account c = d_account_ref (dv_row d) \<and> cc_unit c = cf_unit_id f \<and>
        cc_sequence c = cf_sequence f \<and> row_agrees d account f \<and> lineage C (d_account_ref (dv_row d)) f \<and>
        all_some (map (stored_entry fl) (context_v2_rows C (d_event_id (dv_row d)))) = Some ctx \<and>
        verify_context fl C (d_account_ref (dv_row d)) cap ctx = Some expected \<and>
        list_all (captured_consumption cap ctx) (filter (\<lambda>u. u_decision u = d_event_id (dv_row d)) (cl_consumed C)) \<and>
        all_some (map (captured_input C) ctx) = Some inputs)"
proof -
  have i: "(if b then None else x) = Some y \<longleftrightarrow> \<not> b \<and> x = Some y" for b and x :: "'z option" and y by simp
  have c: "(case v of Inl _ \<Rightarrow> None | Inr _ \<Rightarrow> Some ()) = Some y \<longleftrightarrow> (\<exists>u. v = Inr u)" for v :: "failure + processing_unit" and y
    by (auto split: sum.splits)
  show ?thesis unfolding load_captured_def bind_eq_Some_conv i c by blast
qed

lemma load_captured_kept:
  assumes "cextends C C'" "context_versions C" "d_event_id (dv_row d) \<in> event_ids (cl_base C)"
    "load_captured fl C d = Some inputs"
  shows "load_captured fl C' d = Some inputs"
proof -
  note rows = rows_of_decision_kept [OF assms(1,3)]
  have r: "context_v2_rows C' (d_event_id (dv_row d)) = context_v2_rows C (d_event_id (dv_row d))"
    by (simp add: context_v2_rows_def rows(1))
  have m: "map (captured_input C') ctx = map (captured_input C) ctx"
    if a: "all_some (map (stored_entry fl) (context_v2_rows C (d_event_id (dv_row d)))) = Some ctx" for ctx
  proof (rule map_cong [OF refl], rule captured_input_kept [OF assms(1)])
    fix x assume "x \<in> set ctx"
    then obtain h where h: "h \<in> set (cl_context C)" "stored_entry fl h = Some x"
      using all_some_in [OF a] by (auto simp: context_v2_rows_def)
    then show "versions_stored C x"
      using assms(2) stored_entry_version [OF h(2)] by (auto simp: versions_stored_def context_versions_def)
  qed
  obtain c cap u f account ctx expected where l: "capture_at C (dv_capture d) = Some c" "loads fl (cc_body c) = Some cap"
    "validate_capture fl cap (dv_capture d) = Inr u" "capture_facts cap = Some f" "account_identity cap = Some account"
    "cc_body c = canonical_text cap" "cc_account c = d_account_ref (dv_row d)" "cc_unit c = cf_unit_id f"
    "cc_sequence c = cf_sequence f" "row_agrees d account f" "lineage C (d_account_ref (dv_row d)) f"
    "all_some (map (stored_entry fl) (context_v2_rows C (d_event_id (dv_row d)))) = Some ctx"
    "verify_context fl C (d_account_ref (dv_row d)) cap ctx = Some expected"
    "list_all (captured_consumption cap ctx) (filter (\<lambda>u. u_decision u = d_event_id (dv_row d)) (cl_consumed C))"
    "all_some (map (captured_input C) ctx) = Some inputs"
    using assms(4) unfolding load_captured_iff by (elim exE conjE)
  show ?thesis
    unfolding load_captured_iff rows(2) r
    by (intro exI conjI) (rule cextends_lookups(1) [OF assms(1) l(1)], (fact l(2-10))+, rule lineage_kept [OF assms(1) l(11)],
      rule l(12), rule verify_context_kept [OF assms(1) l(13)], rule l(14), simp only: m [OF l(12)] l(15))
qed

end
