(* ===== verification/Provenance_Steps.thy ===== *)
theory Provenance_Steps
  imports Provenance_Growth
begin

text \<open>
  The exact rows an accepted capture event adds, and the ledgers that valid events of both kinds produce
  from the empty database.
\<close>

subsection \<open>The rows of one event\<close>

lemma insert_many_evidence_v2: "insert_many insert_evidence_v2 rs C = Inr C' \<Longrightarrow> C' = C\<lparr>cl_evidence := cl_evidence C @ rs\<rparr>"
  by (rule insert_many_rows [where upd = "\<lambda>rs C. C\<lparr>cl_evidence := cl_evidence C @ rs\<rparr>"])
    (simp_all add: insert_evidence_v2_def)

lemma insert_many_context_v2:
  "insert_many insert_context_v2 rs C = Inr C' \<Longrightarrow> C' = C\<lparr>cl_context := cl_context C @ rs\<rparr> \<and>
     (\<forall>h\<in>set rs. \<forall>v. h_evidence h = Some v \<longrightarrow> evidence_v2_at C v \<noteq> None)"
proof (induction rs arbitrary: C)
  case (Cons r rs)
  obtain D where D: "insert_context_v2 r C = Inr D" "insert_many insert_context_v2 rs D = Inr C'"
    using Cons.prems by auto
  have d: "D = C\<lparr>cl_context := cl_context C @ [r]\<rparr>" "\<forall>v. h_evidence r = Some v \<longrightarrow> evidence_v2_at C v \<noteq> None"
    using D(1) by (auto simp: insert_context_v2_def evidence_v2_at_def find_None_iff foreign_opt_def foreign_key_def
        raise_if_def image_iff split: option.splits if_splits)
  show ?case using Cons.IH [OF D(2)] d by (auto simp: evidence_v2_at_def)
qed simp

lemma insert_many_consumed_v2: "insert_many insert_consumed_v2 rs C = Inr C' \<Longrightarrow> C' = C\<lparr>cl_consumed := cl_consumed C @ rs\<rparr>"
  by (rule insert_many_rows [where upd = "\<lambda>rs C. C\<lparr>cl_consumed := cl_consumed C @ rs\<rparr>"])
    (simp_all add: insert_consumed_v2_def)

lemma stored_capture_cong: "cl_captures D = cl_captures C \<Longrightarrow> stored_capture r D = stored_capture r C"
  by (simp add: stored_capture_def)

lemma write_captured_Inr:
  assumes "write_captured q C = Inr C'"
  obtains L f known C1 where "insert_event (capture_event_row q) (cl_base C) = Inr L"
    "capture_facts (qe_capture q) = Some f" "stored_capture (capture_row_of q f) C = Inr known"
    "C1 = C\<lparr>cl_base := L, cl_captures := cl_captures C @ (if known = None then [capture_row_of q f] else [])\<rparr>"
    "case qe_body q of
       EvidenceV2 items \<Rightarrow> (\<exists>rows. all_some (map (evidence_v2_row q) items) = Some rows \<and>
         insert_many insert_evidence_v2 rows C1 = Inr C')
     | DecisionV2 p \<Rightarrow> (\<exists>C2 C3. insert_decision_v2 (decision_v2_row q f p (lg_seq L)) C1 = Inr C2 \<and>
         insert_many insert_context_v2 (map (context_row_of (qe_event_id q)) (de_context p)) C2 = Inr C3 \<and>
         insert_many insert_consumed_v2 (map (consumed_row_of (qe_event_id q)) (de_consumed p)) C3 = Inr C')"
proof -
  obtain L f where w: "insert_event (capture_event_row q) (cl_base C) = Inr L" "capture_facts (qe_capture q) = Some f"
    "project_v2 q f (lg_seq L) (C\<lparr>cl_base := L\<rparr>) = Inr C'"
    using assms by (auto simp: write_captured_def)
  obtain known C1 where k: "stored_capture (capture_row_of q f) (C\<lparr>cl_base := L\<rparr>) = Inr known"
    "(if known = None then lift_db (insert_capture_context (capture_row_of q f) (C\<lparr>cl_base := L\<rparr>)) else Inr (C\<lparr>cl_base := L\<rparr>)) = Inr C1"
    "(case qe_body q of
       EvidenceV2 items \<Rightarrow>
         bindE (opt_to_sum (CorruptEvidence (qe_event_id q)) (all_some (map (evidence_v2_row q) items))) (\<lambda>rows.
           lift_db (insert_many insert_evidence_v2 rows C1))
     | DecisionV2 p \<Rightarrow>
         lift_db (bindE (insert_decision_v2 (decision_v2_row q f p (lg_seq L)) C1) (\<lambda>C2.
           bindE (insert_many insert_context_v2 (map (context_row_of (qe_event_id q)) (de_context p)) C2) (\<lambda>C3.
             insert_many insert_consumed_v2 (map (consumed_row_of (qe_event_id q)) (de_consumed p)) C3)))) = Inr C'"
    using w(3) unfolding project_v2_def bindE_eq_Inr by (elim exE conjE)
  have rows: "case qe_body q of
       EvidenceV2 items \<Rightarrow> (\<exists>rows. all_some (map (evidence_v2_row q) items) = Some rows \<and>
         insert_many insert_evidence_v2 rows C1 = Inr C')
     | DecisionV2 p \<Rightarrow> (\<exists>C2 C3. insert_decision_v2 (decision_v2_row q f p (lg_seq L)) C1 = Inr C2 \<and>
         insert_many insert_context_v2 (map (context_row_of (qe_event_id q)) (de_context p)) C2 = Inr C3 \<and>
         insert_many insert_consumed_v2 (map (consumed_row_of (qe_event_id q)) (de_consumed p)) C3 = Inr C')"
    using k(3) by (cases "qe_body q") (auto simp: bindE_eq_Inr)
  have c: "C1 = C\<lparr>cl_base := L, cl_captures := cl_captures C @ (if known = None then [capture_row_of q f] else [])\<rparr>"
    using k(2) by (auto simp: insert_capture_context_def split: if_splits)
  have s: "stored_capture (capture_row_of q f) C = Inr known" using k(1) by (simp add: stored_capture_def)
  show ?thesis by (rule that [OF w(1,2) s c rows])
qed

lemma insert_event_L:
  assumes "insert_event r L = Inr L'"
  shows "event_ids L' = insert (e_event_id r) (event_ids L)" "lg_decisions L' = lg_decisions L" "lg_artifacts L' = lg_artifacts L"
    "extends L L'" "lg_accounts L' = lg_accounts L"
  using assms extends_insert_event [OF extends_refl assms] by (auto simp: insert_event_def event_ids_def)

text \<open>The five tables and the events after a write.\<close>

definition new_capture :: "capture_event \<Rightarrow> captured_facts \<Rightarrow> capture_ledger \<Rightarrow> capture_context list" where
  "new_capture q f C = (if stored_capture (capture_row_of q f) C = Inr None then [capture_row_of q f] else [])"

lemma write_captured_tables:
  assumes "write_captured q C = Inr C'"
  obtains L f where "insert_event (capture_event_row q) (cl_base C) = Inr L" "cl_base C' = L" "capture_facts (qe_capture q) = Some f"
    "\<exists>known. stored_capture (capture_row_of q f) C = Inr known" "cl_captures C' = cl_captures C @ new_capture q f C"
    "case qe_body q of
       EvidenceV2 items \<Rightarrow> (\<exists>rows. all_some (map (evidence_v2_row q) items) = Some rows \<and> cl_evidence C' = cl_evidence C @ rows \<and>
         cl_decisions C' = cl_decisions C \<and> cl_context C' = cl_context C \<and> cl_consumed C' = cl_consumed C)
     | DecisionV2 p \<Rightarrow>
         cl_evidence C' = cl_evidence C \<and> cl_decisions C' = cl_decisions C @ [decision_v2_row q f p (lg_seq L)] \<and>
         cl_context C' = cl_context C @ map (context_row_of (qe_event_id q)) (de_context p) \<and>
         cl_consumed C' = cl_consumed C @ map (consumed_row_of (qe_event_id q)) (de_consumed p) \<and>
         qe_event_id q \<notin> (d_event_id \<circ> dv_row) ` set (cl_decisions C) \<and> cf_unit_id f \<notin> dv_unit ` set (cl_decisions C) \<and>
         (\<forall>h\<in>set (map (context_row_of (qe_event_id q)) (de_context p)). \<forall>v. h_evidence h = Some v \<longrightarrow> evidence_v2_at C v \<noteq> None)"
proof -
  obtain L f known C1 where w: "insert_event (capture_event_row q) (cl_base C) = Inr L" "capture_facts (qe_capture q) = Some f"
    "stored_capture (capture_row_of q f) C = Inr known"
    "C1 = C\<lparr>cl_base := L, cl_captures := cl_captures C @ (if known = None then [capture_row_of q f] else [])\<rparr>"
    "case qe_body q of
       EvidenceV2 items \<Rightarrow> (\<exists>rows. all_some (map (evidence_v2_row q) items) = Some rows \<and>
         insert_many insert_evidence_v2 rows C1 = Inr C')
     | DecisionV2 p \<Rightarrow> (\<exists>C2 C3. insert_decision_v2 (decision_v2_row q f p (lg_seq L)) C1 = Inr C2 \<and>
         insert_many insert_context_v2 (map (context_row_of (qe_event_id q)) (de_context p)) C2 = Inr C3 \<and>
         insert_many insert_consumed_v2 (map (consumed_row_of (qe_event_id q)) (de_consumed p)) C3 = Inr C')"
    by (rule write_captured_Inr [OF assms])
  have n: "new_capture q f C = (if known = None then [capture_row_of q f] else [])" by (simp add: new_capture_def w(3))
  show ?thesis
  proof (cases "qe_body q")
    case (EvidenceV2 items)
    then obtain rows where r: "all_some (map (evidence_v2_row q) items) = Some rows" "C' = C1\<lparr>cl_evidence := cl_evidence C1 @ rows\<rparr>"
      using w(5) insert_many_evidence_v2 by auto
    show ?thesis by (rule that [OF w(1) _ w(2)]) (simp_all add: r w(3,4) n EvidenceV2)
  next
    case (DecisionV2 p)
    then obtain C2 C3 where d: "insert_decision_v2 (decision_v2_row q f p (lg_seq L)) C1 = Inr C2"
      "insert_many insert_context_v2 (map (context_row_of (qe_event_id q)) (de_context p)) C2 = Inr C3"
      "insert_many insert_consumed_v2 (map (consumed_row_of (qe_event_id q)) (de_consumed p)) C3 = Inr C'"
      using w(5) by auto
    have c2: "C2 = C1\<lparr>cl_decisions := cl_decisions C1 @ [decision_v2_row q f p (lg_seq L)]\<rparr>"
      "qe_event_id q \<notin> (d_event_id \<circ> dv_row) ` set (cl_decisions C)" "cf_unit_id f \<notin> dv_unit ` set (cl_decisions C)"
      using d(1) by (auto simp: insert_decision_v2_def decision_v2_row_def decision_row_of_def inherited_envelope_def w(4)
          unique_key_def raise_if_def split: if_splits)
    note c3 = insert_many_context_v2 [OF d(2)] and c4 = insert_many_consumed_v2 [OF d(3)]
    have v: "\<forall>h\<in>set (map (context_row_of (qe_event_id q)) (de_context p)). \<forall>v. h_evidence h = Some v \<longrightarrow> evidence_v2_at C v \<noteq> None"
      using c3 by (simp add: c2(1) w(4) evidence_v2_at_def)
    show ?thesis
      by (rule that [OF w(1) _ w(2)])
        (use v in \<open>simp_all add: c4 c3 [THEN conjunct1] c2(1) w(3,4) n DecisionV2 c2(2,3) [simplified]\<close>)
  qed
qed

lemma ingest_captured_cases:
  assumes "ingest_captured fl q C = Inr (res, C')"
  obtains (duplicate) row where "event_at (cl_base C) (qe_event_id q) = Some row" "e_hash row = capture_event_hash q" "C' = C"
      "ir_status res = Duplicate" "ir_event_id res = qe_event_id q" "ir_hash res = capture_event_hash q"
    | (created) "qe_event_id q \<notin> event_ids (cl_base C)" "account_at (cl_base C) (qe_account_ref q) \<noteq> None"
      "validate_v2 fl q C = None" "write_captured q C = Inr C'"
      "ir_status res = Created" "ir_event_id res = qe_event_id q" "ir_hash res = capture_event_hash q"
  using assms unfolding ingest_captured_def Let_def
  by (auto split: option.splits if_splits sum.splits simp: event_at_None)

lemma write_captured_extends:
  assumes "write_captured q C = Inr C'" "qe_event_id q \<notin> event_ids (cl_base C)"
  shows "cextends C C'"
proof -
  obtain L f where w: "insert_event (capture_event_row q) (cl_base C) = Inr L" "cl_base C' = L"
    "cl_captures C' = cl_captures C @ new_capture q f C"
    "case qe_body q of
       EvidenceV2 items \<Rightarrow> (\<exists>rows. all_some (map (evidence_v2_row q) items) = Some rows \<and> cl_evidence C' = cl_evidence C @ rows \<and>
         cl_decisions C' = cl_decisions C \<and> cl_context C' = cl_context C \<and> cl_consumed C' = cl_consumed C)
     | DecisionV2 p \<Rightarrow>
         cl_evidence C' = cl_evidence C \<and> cl_decisions C' = cl_decisions C @ [decision_v2_row q f p (lg_seq L)] \<and>
         cl_context C' = cl_context C @ map (context_row_of (qe_event_id q)) (de_context p) \<and>
         cl_consumed C' = cl_consumed C @ map (consumed_row_of (qe_event_id q)) (de_consumed p) \<and>
         qe_event_id q \<notin> (d_event_id \<circ> dv_row) ` set (cl_decisions C) \<and> cf_unit_id f \<notin> dv_unit ` set (cl_decisions C) \<and>
         (\<forall>h\<in>set (map (context_row_of (qe_event_id q)) (de_context p)). \<forall>v. h_evidence h = Some v \<longrightarrow> evidence_v2_at C v \<noteq> None)"
    by (rule write_captured_tables [OF assms(1)])
  have g: "grown P xs (xs @ ys) \<longleftrightarrow> list_all P ys" for P :: "'x \<Rightarrow> bool" and xs ys by (auto simp: grown_def)
  have "extends (cl_base C) (cl_base C')" using insert_event_L(4) [OF w(1)] by (simp add: w(2))
  then show ?thesis
    using w(3,4) assms(2)
    by (cases "qe_body q") (auto simp: cextends_def g list_all_iff decision_v2_row_def decision_row_of_def inherited_envelope_def
        context_row_of_def consumed_row_of_def)
qed

lemma ingest_any_extends:
  assumes "ingest_any fl e C = Inr (res, C')"
  shows "cextends C C'"
proof (cases e)
  case (Legacy x)
  then obtain L where "ingest x (cl_base C) = Inr (res, L)" "C' = C\<lparr>cl_base := L\<rparr>" using assms by auto
  then show ?thesis using ingest_extends by (simp add: cextends_def)
next
  case (Captured q)
  then have "ingest_captured fl q C = Inr (res, C')" using assms by simp
  then show ?thesis by (cases rule: ingest_captured_cases) (auto intro: write_captured_extends)
qed

subsection \<open>Reachable ledgers\<close>

text \<open>
  Clients post canonical text (\<open>canonical_bytes\<close> in every adapter), so the capture of an event has its keys in
  canonical order when the collector reads it.
\<close>

fun posted_canonically :: "any_event \<Rightarrow> bool" where
  "posted_canonically (Legacy e) = True"
| "posted_canonically (Captured q) = (jnorm (qe_capture q) = qe_capture q)"

inductive capture_reachable :: "(string \<Rightarrow> string option) \<Rightarrow> capture_ledger \<Rightarrow> bool" for fl where
  empty: "capture_reachable fl empty_captures"
| step: "capture_reachable fl C \<Longrightarrow> valid_event fl e \<Longrightarrow> posted_canonically e \<Longrightarrow> ingest_any fl e C = Inr (res, C') \<Longrightarrow>
    capture_reachable fl C'"

text \<open>An invariant of the writes: those of version 1 on the base, and those of accepted capture events.\<close>

lemma capture_reachable_write [consumes 1, case_names empty legacy captured]:
  assumes "capture_reachable fl C" "P empty_captures"
    "\<And>C e L. capture_reachable fl C \<Longrightarrow> P C \<Longrightarrow> valid_envelope e \<Longrightarrow> en_event_id e \<notin> event_ids (cl_base C) \<Longrightarrow>
       write_event e (cl_base C) = Inr L \<Longrightarrow> cextends C (C\<lparr>cl_base := L\<rparr>) \<Longrightarrow> P (C\<lparr>cl_base := L\<rparr>)"
    "\<And>C q C'. capture_reachable fl C \<Longrightarrow> P C \<Longrightarrow> valid_capture_event fl q \<Longrightarrow> jnorm (qe_capture q) = qe_capture q \<Longrightarrow>
       qe_event_id q \<notin> event_ids (cl_base C) \<Longrightarrow> account_at (cl_base C) (qe_account_ref q) \<noteq> None \<Longrightarrow> validate_v2 fl q C = None \<Longrightarrow>
       write_captured q C = Inr C' \<Longrightarrow> cextends C C' \<Longrightarrow> P C'"
  shows "P C"
  using assms(1)
proof (induction rule: capture_reachable.induct)
  case empty
  show ?case by (rule assms(2))
next
  case (step C e res C')
  note ext = ingest_any_extends [OF step.hyps(4)]
  show ?case
  proof (cases e)
    case (Legacy x)
    then obtain L where L: "ingest x (cl_base C) = Inr (res, L)" "C' = C\<lparr>cl_base := L\<rparr>" using step.hyps(4) by auto
    from L(1) show ?thesis
    proof (cases rule: ingest_Inr_cases)
      case duplicate
      then show ?thesis using step.IH by (simp add: L(2))
    next
      case created
      then show ?thesis using assms(3) [OF step.hyps(1) step.IH, of x L] step.hyps(2) ext
        by (simp add: L(2) Legacy event_at_None)
    qed
  next
    case (Captured q)
    then have "ingest_captured fl q C = Inr (res, C')" using step.hyps(4) by simp
    then show ?thesis
    proof (cases rule: ingest_captured_cases)
      case duplicate
      then show ?thesis using step.IH by simp
    next
      case created
      then show ?thesis using assms(4) [OF step.hyps(1) step.IH, of q C'] step.hyps(2,3) ext by (simp add: Captured)
    qed
  qed
qed

end
