(* ===== verification/Provenance_Replay.thy ===== *)
theory Provenance_Replay
  imports Provenance_Steps
begin

text \<open>
  A decision the collector admits is one it can replay: the rows it projects load back, verify against the
  capture again, and evaluate to the recorded result.
\<close>

subsection \<open>Entries and typed equality\<close>

lemma typed_equal_scalar: "is_scalar v \<Longrightarrow> typed_equal v w \<longleftrightarrow> w = v"
  by (cases v; cases w) auto

lemma typed_equal_list: "typed_equal (JList xs) y \<longleftrightarrow> (\<exists>ys. y = JList ys \<and> list_all2 typed_equal xs ys)"
  by (cases y) (auto simp: list_all2_iff)

lemma typed_member:
  assumes "typed_equal x y" "member k x = Some v" "is_scalar v"
  shows "member k y = Some v"
proof -
  obtain a where a: "x = JObj a" "(k, v) \<in> set a" using assms(2) by (cases x) (auto dest: map_of_SomeD)
  then obtain b where "y = JObj b" using assms(1) by (cases y) auto
  then show ?thesis using assms(1,3) a by (auto simp: typed_equal_scalar split: option.splits)
qed

text \<open>A context entry as it is submitted and as it is loaded back from its row.\<close>

definition context_object :: "context_entry \<Rightarrow> json" where
  "context_object e = JObj [(''input_key'', JStr (ce_input_key e)), (''availability'', JStr (ce_availability e)),
     (''value'', ce_value e), (''evidence_version_id'', jstr_opt (ce_evidence e))]"

lemma jstr_opt_scalar [simp]: "is_scalar (jstr_opt s)"
  by (cases s) (simp_all add: jstr_opt_def)

lemma optional_text_jstr [simp]: "optional_text (Some (jstr_opt s)) = Some s"
  by (cases s) (simp_all add: jstr_opt_def optional_text_def)

lemma str_at_jstr: "(case jstr_opt s of JStr t \<Rightarrow> Some t | _ \<Rightarrow> None) = s"
  by (cases s) (simp_all add: jstr_opt_def)

lemma entry_members:
  "member ''input_key'' (context_object e) = Some (JStr (ce_input_key e))"
  "member ''availability'' (context_object e) = Some (JStr (ce_availability e))"
  "member ''value'' (context_object e) = Some (ce_value e)"
  "member ''evidence_version_id'' (context_object e) = Some (jstr_opt (ce_evidence e))"
  "member ''input_key'' (dump_context_entry e) = Some (JStr (ce_input_key e))"
  "member ''evidence_version_id'' (dump_context_entry e) = Some (jstr_opt (ce_evidence e))"
  by (simp_all add: context_object_def dump_context_entry_def)

lemma entry_key_of [simp]:
  "entry_key (context_object e) = ce_input_key e" "entry_key (dump_context_entry e) = ce_input_key e"
  by (simp_all add: entry_key_def str_at_def entry_members)

lemma str_at_version [simp]:
  "str_at ''evidence_version_id'' (context_object e) = ce_evidence e"
  "str_at ''evidence_version_id'' (dump_context_entry e) = ce_evidence e"
  by (simp_all add: str_at_def entry_members str_at_jstr)

lemma typed_equal_same_set: "set a = set b \<Longrightarrow> typed_equal (JObj a) y \<longleftrightarrow> typed_equal (JObj b) y"
  by (cases y) simp_all

lemma typed_equal_entry: "typed_equal (context_object e) y \<longleftrightarrow> typed_equal (dump_context_entry e) y"
  unfolding context_object_def dump_context_entry_def by (rule typed_equal_same_set) auto

lemma captured_input_object:
  "captured_input C (context_object e) =
     map_option (\<lambda>t. \<lparr>cx_key = ce_input_key e, cx_availability = ce_availability e, cx_value = ce_value e,
       cx_evidence = ce_evidence e, cx_observed_at = t\<rparr>) (observed_date C (ce_evidence e))"
  by (cases "observed_date C (ce_evidence e)") (simp_all add: captured_input_def str_at_def entry_members)

lemma captured_input_typed:
  assumes "typed_equal (context_object e) y" "is_scalar (ce_value e)"
  shows "captured_input C y = captured_input C (context_object e)"
proof -
  have m: "member ''input_key'' y = Some (JStr (ce_input_key e))" "member ''availability'' y = Some (JStr (ce_availability e))"
    "member ''value'' y = Some (ce_value e)" "member ''evidence_version_id'' y = Some (jstr_opt (ce_evidence e))"
    by (rule typed_member [OF assms(1)], rule entry_members, simp add: assms(2))+
  show ?thesis unfolding captured_input_def str_at_def entry_members m ..
qed

lemma insort_key_map: "insort_key f (g x) (map g xs) = map g (insort_key (\<lambda>x. f (g x)) x xs)"
  by (induction xs) simp_all

lemma sort_key_map: "sort_key f (map g xs) = map g (sort_key (\<lambda>x. f (g x)) xs)"
  by (induction xs) (simp_all add: insort_key_map)

subsection \<open>The stored context verifies again\<close>

lemma by_key_in:
  assumes "distinct (map key es)" "e \<in> set es" "\<And>e. entry_key (g e) = key e"
  shows "by_key (map g es) (key e) = Some (g e)"
proof -
  have "distinct (map fst (map (\<lambda>x. (entry_key x, x)) (rev (map g es))))"
    using assms(1) by (simp add: assms(3) comp_def rev_map flip: rev_map)
  moreover have "(key e, g e) \<in> set (map (\<lambda>x. (entry_key x, x)) (rev (map g es)))"
    using assms(2) by (force simp: assms(3))
  ultimately show ?thesis unfolding by_key_def by (rule map_of_is_SomeI)
qed

lemma by_key_out: "k \<notin> key ` set es \<Longrightarrow> (\<And>e. entry_key (g e) = key e) \<Longrightarrow> by_key (map g es) k = None"
  by (force simp: by_key_def map_of_eq_None_iff)

lemma by_key_version:
  assumes "distinct (map ce_input_key es)"
  shows "Option.bind (by_key (map context_object (sort_key ce_input_key es)) k) (str_at ''evidence_version_id'') =
    Option.bind (by_key (map dump_context_entry es) k) (str_at ''evidence_version_id'')"
proof (cases "k \<in> ce_input_key ` set es")
  case True
  then obtain e where e: "e \<in> set es" "k = ce_input_key e" by blast
  have "distinct (map ce_input_key (sort_key ce_input_key es))" using assms by (simp add: distinct_map)
  then show ?thesis using e assms
    by (simp add: by_key_in [where key = ce_input_key and g = context_object] by_key_in [where key = ce_input_key and g = dump_context_entry])
next
  case False
  then show ?thesis
    by (simp add: by_key_out [where key = ce_input_key and g = context_object] by_key_out [where key = ce_input_key and g = dump_context_entry])
qed

lemma verified_entry_cong:
  assumes "Option.bind (m k) (str_at ''evidence_version_id'') = Option.bind (m' k) (str_at ''evidence_version_id'')"
  shows "verified_entry fl C account cap m k = verified_entry fl C account cap m' k"
proof -
  have e: "verified_entry fl C account cap m k =
      Option.bind (Option.bind (m k) (str_at ''evidence_version_id'')) (\<lambda>v.
      Option.bind (evidence_v2_at C v) (\<lambda>row.
      Option.bind (bound_item (JStr account) cap k (jstr_opt (v_supersedes (ev_row row)))) (\<lambda>it.
        if verify_evidence (Some row) account cap it \<and> origin_intact fl C account row k
        then Some (k, jstr_opt (v_supersedes (ev_row row))) else None)))" for m
    by (cases "m k") (simp_all add: verified_entry_def)
  show ?thesis unfolding e [of m] e [of m'] assms ..
qed

lemma sort_key_twice [simp]: "sort_key f (sort_key f xs) = sort_key f xs"
  by (simp add: sort_key_id_if_sorted)

lemma sorted_entries:
  assumes "\<And>e. entry_key (g e) = key e"
  shows "sort_key entry_key (map g es) = map g (sort_key key es)"
    "sort_key entry_key (map g (sort_key key es)) = map g (sort_key key es)"
proof -
  show "sort_key entry_key (map g es) = map g (sort_key key es)" for es by (simp add: sort_key_map assms)
  then show "sort_key entry_key (map g (sort_key key es)) = map g (sort_key key es)"
    by simp
qed

lemma typed_equal_entries:
  "typed_equal (JList (map context_object es)) y \<longleftrightarrow> typed_equal (JList (map dump_context_entry es)) y"
  by (simp add: typed_equal_list list_all2_map1 typed_equal_entry)

lemma verify_context_stored:
  assumes "verify_context fl C account cap (map dump_context_entry es) = Some expected" "distinct (map ce_input_key es)"
  shows "verify_context fl C account cap (map context_object (sort_key ce_input_key es)) = Some expected"
    "list_all2 typed_equal (map context_object (sort_key ce_input_key es)) expected"
proof -
  have v: "map (verified_entry fl C account cap (by_key (map context_object (sort_key ce_input_key es)))) ks =
      map (verified_entry fl C account cap (by_key (map dump_context_entry es))) ks" for ks
    by (rule map_cong [OF refl]) (rule verified_entry_cong, rule by_key_version [OF assms(2)])
  have t: "typed_equal (JList (sort_key entry_key (map context_object (sort_key ce_input_key es)))) y \<longleftrightarrow>
      typed_equal (JList (sort_key entry_key (map dump_context_entry es))) y" for y
    by (simp add: sorted_entries [where key = ce_input_key] typed_equal_entries del: typed_equal.simps)
  have "verify_context fl C account cap (map context_object (sort_key ce_input_key es)) =
      verify_context fl C account cap (map dump_context_entry es)"
    unfolding verify_context_def v t ..
  then show "verify_context fl C account cap (map context_object (sort_key ce_input_key es)) = Some expected"
    using assms(1) by simp
  then have "typed_equal (JList (sort_key entry_key (map context_object (sort_key ce_input_key es)))) (JList expected)"
    by (auto simp: verify_context_def bind_eq_Some_conv simp del: typed_equal.simps split: if_splits)
  then show "list_all2 typed_equal (map context_object (sort_key ce_input_key es)) expected"
    by (simp add: sorted_entries [where key = ce_input_key] typed_equal_list del: typed_equal.simps)
qed

text \<open>A row reads back as the entry it was projected from.\<close>

lemma loads_scalar: "is_scalar v \<Longrightarrow> loads fl (canonical_text v) = Some v"
  using clean_loads [of fl v] by (cases v) auto

lemma stored_entry_of:
  assumes "is_scalar (ce_value e)" "availability_is_coherent e = None" "ce_availability e \<in> {''available'', ''unavailable''}"
  shows "stored_entry fl (context_row_of k e) = Some (context_object e)"
proof -
  have "ce_availability e \<noteq> ''available'' \<Longrightarrow> ce_value e = JNull"
    using assms(2,3) by (auto simp: availability_is_coherent_def split: if_splits)
  then show ?thesis using loads_scalar [OF assms(1)]
    by (auto simp: stored_entry_def context_row_of_def context_object_def)
qed

lemma captured_inputs_typed:
  assumes "list_all2 typed_equal (map context_object es) ys" "\<forall>e\<in>set es. is_scalar (ce_value e)"
  shows "map (captured_input C) ys = map (captured_input C) (map context_object es)"
  using assms
  by (induction es arbitrary: ys) (auto simp: list_all2_Cons1 captured_input_typed)

subsection \<open>The admitted evaluation\<close>

definition result_object :: "evaluation_result \<Rightarrow> json" where
  "result_object res = JObj [(''score'', JInt (rs_score res)), (''threshold'', JInt (rs_threshold res)), (''output'', JStr (rs_output res))]"

lemma evaluate_captured_Inr:
  assumes "evaluate_captured C p cap boundary ctx = Inr res"
  obtains vf inputs b used where
    "verify_artifact_row (load_artifact_row (cl_base C) (ar_artifact_hash (de_artifact p))) (ar_artifact_hash (de_artifact p)) None = Inr vf"
    "la_logic_version (vf_artifact vf) = ar_logic_version (de_artifact p)"
    "la_evaluator_version (vf_artifact vf) = ar_evaluator_version (de_artifact p)"
    "la_decision_class (vf_artifact vf) = de_decision_class p"
    "all_some (map (captured_input C) ctx) = Some inputs" "parse_datetime boundary = Some b"
    "evaluate (vf_artifact vf) inputs b = Inr res" "used_inputs cap ctx res = Some used"
    "typed_equal (JList (sort_key entry_key (map dump_consumed (de_consumed p)))) (JList (sort_key entry_key used))"
    "typed_equal (dump_result (de_result p)) (result_object res)"
proof -
  have i: "(if b then Inl e else x) = Inr y \<longleftrightarrow> \<not> b \<and> x = Inr y" for b and x :: "'e + 'z" and e y by simp
  have c: "(case v of Inl e \<Rightarrow> Inl (h e) | Inr a \<Rightarrow> g a) = Inr y \<longleftrightarrow> (\<exists>a. v = Inr a \<and> g a = Inr y)"
    for v :: "'e + 'a" and h :: "'e \<Rightarrow> 'f" and g :: "'a \<Rightarrow> 'f + 'z" and y by (auto split: sum.splits)
  have o: "opt_to_sum e x = Inr y \<longleftrightarrow> x = Some y" for e :: 'e and x :: "'z option" and y by (cases x) simp_all
  from assms show ?thesis
    unfolding evaluate_captured_def Let_def c i bindE_eq_Inr o de_Morgan_disj not_not sum.inject
    by (elim exE conjE) (rule that; (assumption | simp only: result_object_def))
qed

lemma result_recorded:
  assumes "typed_equal (dump_result r) (result_object res)"
  shows "dr_score r = rs_score res" "dr_threshold r = rs_threshold res" "dr_output r = rs_output res"
  using assms by (auto simp: dump_result_def result_object_def)

definition usage_of :: "json \<Rightarrow> string \<times> string option \<times> int option" where
  "usage_of x = (entry_key x, str_at ''evidence_version_id'' x, int_at ''contribution'' x)"

lemma usage_of_consumed:
  assumes "typed_equal (dump_consumed c) y"
  shows "usage_of y = (ci_input_key c, Some (ci_evidence c), Some (ci_contribution c))"
proof -
  have "member ''input_key'' y = Some (JStr (ci_input_key c))" "member ''evidence_version_id'' y = Some (JStr (ci_evidence c))"
    "member ''contribution'' y = Some (JInt (ci_contribution c))"
    by (rule typed_member [OF assms], simp add: dump_consumed_def, simp)+
  then show ?thesis by (simp add: usage_of_def entry_key_def str_at_def int_at_def)
qed

lemma usage_of_used:
  assumes "used_input cap ctx r = Some x"
  shows "usage_of x = (fr_key r, fr_evidence r, Some (fr_contribution r))"
    "\<exists>s. input_of cap (fr_key r) ''state'' = Some s \<and> s \<noteq> JStr ''ignored''"
  using assms str_at_jstr [of "fr_evidence r"]
  by (auto simp: used_input_def bind_eq_Some_conv usage_of_def entry_key_def str_at_def int_at_def split: if_splits)

lemma all_some_out: "all_some (map f xs) = Some ys \<Longrightarrow> x \<in> set xs \<Longrightarrow> \<exists>y\<in>set ys. f x = Some y"
  by (induction xs arbitrary: ys) (auto simp: bind_eq_Some_conv)

lemma consumed_as_used:
  assumes "typed_equal (JList (sort_key entry_key (map dump_consumed cs))) (JList (sort_key entry_key used))"
    "used_inputs cap ctx res = Some used"
  shows "usage_of ` set used = (\<lambda>c. (ci_input_key c, Some (ci_evidence c), Some (ci_contribution c))) ` set cs"
    "set (consumed_triples res) = (\<lambda>c. (ci_input_key c, Some (ci_evidence c), ci_contribution c)) ` set cs"
    "\<forall>c\<in>set cs. \<exists>s. input_of cap (ci_input_key c) ''state'' = Some s \<and> s \<noteq> JStr ''ignored''"
proof -
  let ?c = "\<lambda>c. (ci_input_key c, Some (ci_evidence c), Some (ci_contribution c))"
  let ?F = "filter (\<lambda>r. fr_state r = input_state.Consumed) (rs_factors res)"
  have "entry_key (dump_consumed c) = ci_input_key c" for c by (simp add: entry_key_def str_at_def dump_consumed_def)
  then have s: "sort_key entry_key (map dump_consumed cs) = map dump_consumed (sort_key ci_input_key cs)"
    by (simp add: sort_key_map)
  have l: "list_all2 typed_equal (map dump_consumed (sort_key ci_input_key cs)) (sort_key entry_key used)"
    using assms(1) by (simp add: s typed_equal_list del: typed_equal.simps)
  have "list_all2 (\<lambda>c y. usage_of y = ?c c) (sort_key ci_input_key cs) (sort_key entry_key used)"
    using l unfolding list_all2_map1 by (rule list_all2_mono) (rule usage_of_consumed)
  then have "map usage_of (sort_key entry_key used) = map ?c (sort_key ci_input_key cs)"
    by (auto simp: list_all2_conv_all_nth intro!: nth_equalityI)
  then have "set (map usage_of (sort_key entry_key used)) = set (map ?c (sort_key ci_input_key cs))" by simp
  then show u: "usage_of ` set used = ?c ` set cs" by simp
  have f: "(\<lambda>r. (fr_key r, fr_evidence r, Some (fr_contribution r))) ` set ?F = usage_of ` set used"
  proof (intro equalityI subsetI)
    fix y assume "y \<in> (\<lambda>r. (fr_key r, fr_evidence r, Some (fr_contribution r))) ` set ?F"
    then obtain r where r: "r \<in> set ?F" "y = (fr_key r, fr_evidence r, Some (fr_contribution r))" by blast
    then obtain x where "x \<in> set used" "used_input cap ctx r = Some x"
      using all_some_out [OF assms(2) [unfolded used_inputs_def] r(1)] by blast
    then show "y \<in> usage_of ` set used" using usage_of_used(1) r(2) by (metis imageI)
  next
    fix y assume "y \<in> usage_of ` set used"
    then obtain x where x: "x \<in> set used" "y = usage_of x" by blast
    then obtain r where r: "r \<in> set ?F" "used_input cap ctx r = Some x"
      using all_some_in [OF assms(2) [unfolded used_inputs_def] x(1)] by blast
    show "y \<in> (\<lambda>r. (fr_key r, fr_evidence r, Some (fr_contribution r))) ` set ?F"
      unfolding x(2) usage_of_used(1) [OF r(2)] using r(1) by blast
  qed
  have "(\<lambda>(k, v, n). (k, v, the n)) ` (\<lambda>r. (fr_key r, fr_evidence r, Some (fr_contribution r))) ` set ?F =
      (\<lambda>(k, v, n). (k, v, the n)) ` ?c ` set cs" by (simp only: f u)
  then show "set (consumed_triples res) = (\<lambda>c. (ci_input_key c, Some (ci_evidence c), ci_contribution c)) ` set cs"
    by (simp add: consumed_triples_def image_image)
  show "\<forall>c\<in>set cs. \<exists>s. input_of cap (ci_input_key c) ''state'' = Some s \<and> s \<noteq> JStr ''ignored''"
  proof
    fix c assume "c \<in> set cs"
    then obtain r where r: "r \<in> set ?F" "?c c = (fr_key r, fr_evidence r, Some (fr_contribution r))"
      using f u by (metis (mono_tags, lifting) imageE image_eqI)
    then obtain x where "used_input cap ctx r = Some x"
      using all_some_out [OF assms(2) [unfolded used_inputs_def] r(1)] by blast
    then show "\<exists>s. input_of cap (ci_input_key c) ''state'' = Some s \<and> s \<noteq> JStr ''ignored''"
      using usage_of_used(2) r(2) by simp
  qed
qed

end
