(* ===== verification/Provenance_Sound.thy ===== *)
theory Provenance_Sound
  imports Provenance_Replay
begin

text \<open>
  The invariants of a ledger that holds captured events.  Main results: a capture is bound once, to the account it
  identifies (\<open>captures_sound\<close>); every minted evidence version is backed by the capture that minted it
  (\<open>evidence_backed\<close>); every captured decision replays exactly (\<open>replayable\<close>).
\<close>

subsection \<open>What a valid event carries\<close>

lemma dump_members:
  "member ''payload'' (dump_capture_event q) = Some (dump_capture_payload q)"
  "member ''account_ref'' (dump_capture_event q) = Some (JStr (qe_account_ref q))"
  "member ''occurred_at'' (dump_capture_event q) = Some (jtime (qe_occurred_at q))"
  "member ''event_type'' (dump_capture_event q) = Some (JStr (capture_event_type q))"
  "member ''capture'' (dump_capture_payload q) = Some (qe_capture q)"
  "str_at ''capture_hash'' (dump_capture_payload q) = Some (qe_capture_hash q)"
  by (simp_all add: dump_capture_event_def dump_capture_payload_def str_at_def object_members_def split: capture_body.split)

lemma decision_members:
  assumes "qe_body q = DecisionV2 p"
  shows "member ''decision_boundary'' (dump_capture_payload q) = Some (jtime (de_boundary p))"
    "member ''workflow_version'' (dump_capture_payload q) = Some (JStr (de_workflow_version p))"
    "member ''logic_artifact'' (dump_capture_payload q) = Some (dump_artifact_ref (de_artifact p))"
  by (simp_all add: dump_capture_payload_def object_members_def assms)

lemma valid_capture_event_facts:
  assumes "valid_capture_event fl q"
  obtains u where "clean fl (qe_capture q)" "validate_capture fl (qe_capture q) (qe_capture_hash q) = Inr u"
    "account_identity (qe_capture q) = Some (qe_account_ref q)"
    "case qe_body q of
       EvidenceV2 items \<Rightarrow> check_wire_evidence (dump_capture_event q) (JStr (qe_account_ref q)) (dump_capture_payload q) (qe_capture q) = Some ()
     | DecisionV2 p \<Rightarrow> check_wire_decision (dump_capture_event q) (dump_capture_payload q) (qe_capture q) = Some ()"
proof -
  have c: "clean fl (qe_capture q)" and w: "validate_wire fl (dump_capture_event q) = Some ()"
    using assms by (simp_all add: valid_capture_event_def)
  obtain u account where "validate_capture fl (qe_capture q) (qe_capture_hash q) = Inr u"
    "account_identity (qe_capture q) = Some account" "qe_account_ref q = account"
    "(if capture_event_type q = ''evidence.recorded''
      then check_wire_evidence (dump_capture_event q) (JStr account) (dump_capture_payload q) (qe_capture q)
      else check_wire_decision (dump_capture_event q) (dump_capture_payload q) (qe_capture q)) = Some ()"
    using w by (auto simp: validate_wire_def dump_members bind_eq_Some_conv split: sum.splits if_splits)
  then show ?thesis by (intro that [OF c]) (auto simp: capture_event_type_def split: capture_body.splits)
qed

lemma decision_wire:
  assumes "check_wire_decision (dump_capture_event q) (dump_capture_payload q) cap = Some ()" "qe_body q = DecisionV2 p"
    "capture_facts cap = Some f"
  shows "cf_boundary f = format_utc (de_boundary p)" "cf_processing_version f = de_workflow_version p"
    "cf_rule_hash f = ar_artifact_hash (de_artifact p)" "cf_evaluator_version f = ar_evaluator_version (de_artifact p)"
proof -
  have m: "member ''capture_boundary'' cap = Some (JStr (cf_boundary f))" "member ''processing_version'' cap = Some (JStr (cf_processing_version f))"
    "member ''rule_hash'' cap = Some (JStr (cf_rule_hash f))" "member ''evaluator_version'' cap = Some (JStr (cf_evaluator_version f))"
    using assms(3) by (auto simp: capture_facts_def bind_eq_Some_conv str_at_def split: option.splits json.splits)
  have "JStr (cf_boundary f) = jtime (de_boundary p) \<and> JStr (de_workflow_version p) = JStr (cf_processing_version f) \<and>
      member ''artifact_hash'' (dump_artifact_ref (de_artifact p)) = Some (JStr (cf_rule_hash f)) \<and>
      member ''evaluator_version'' (dump_artifact_ref (de_artifact p)) = Some (JStr (cf_evaluator_version f))"
    using assms(1) unfolding check_wire_decision_def decision_members [OF assms(2)] m dump_members option.case prod.case
    by (auto split: if_splits option.splits)
  then show "cf_boundary f = format_utc (de_boundary p)" "cf_processing_version f = de_workflow_version p"
    "cf_rule_hash f = ar_artifact_hash (de_artifact p)" "cf_evaluator_version f = ar_evaluator_version (de_artifact p)"
    by (simp_all add: jtime_def dump_artifact_ref_def)
qed

lemma stored_capture_found:
  assumes "stored_capture r C = Inr known" "cl_captures C' = cl_captures C @ (if known = None then [r] else [])"
  shows "\<exists>c. capture_at C' (cc_hash r) = Some c \<and> capture_identity c = capture_identity r"
proof (cases "find (\<lambda>c. cc_hash c = cc_hash r) (cl_captures C)")
  case None
  have n: "\<forall>c\<in>set (cl_captures C). cc_hash c \<noteq> cc_hash r" using None by (auto simp: find_None_iff)
  have "known = None"
  proof (rule ccontr)
    assume "known \<noteq> None"
    then obtain s rows where s: "filter (shares_identity r) (cl_captures C) = s # rows" "capture_identity s = capture_identity r"
      using assms(1) by (auto simp: stored_capture_def Let_def split: if_splits list.splits)
    then have "s \<in> set (filter (shares_identity r) (cl_captures C))" by simp
    then have "s \<in> set (cl_captures C)" by simp
    then show False using n s(2) by (auto simp: capture_identity_def)
  qed
  then show ?thesis using None by (auto simp: capture_at_def assms(2) find_append)
next
  case (Some c)
  have c: "c \<in> set (cl_captures C)" "cc_hash c = cc_hash r" using find_Some_in [OF Some] by simp_all
  then have "c \<in> set (filter (shares_identity r) (cl_captures C))" by (simp add: shares_identity_def)
  then have "capture_identity c = capture_identity r"
    using assms(1) by (auto simp: stored_capture_def Let_def list_ex_iff split: if_splits)
  then show ?thesis using Some by (auto simp: capture_at_def assms(2) find_append)
qed

subsection \<open>Replay of the admitted decision\<close>

definition replayable :: "(string \<Rightarrow> string option) \<Rightarrow> capture_ledger \<Rightarrow> decision_v2 \<Rightarrow> bool" where
  "replayable fl C d \<longleftrightarrow>
     (\<exists>inputs vf b res. load_captured fl C d = Some inputs \<and>
        verify_artifact (load_artifact_row (cl_base C) (d_hash (dv_row d))) (dv_row d) None = Inr vf \<and>
        parse_boundary (d_boundary (dv_row d)) = Inr b \<and> evaluate (vf_artifact vf) inputs (Aware b 0) = Inr res \<and>
        as_recorded res (dv_row d) (consumed_v2_rows C (d_event_id (dv_row d))))"

lemma decision_v2_row_fields:
  "d_event_id (dv_row (decision_v2_row q f p s)) = qe_event_id q"
  "d_account_ref (dv_row (decision_v2_row q f p s)) = qe_account_ref q"
  "d_class (dv_row (decision_v2_row q f p s)) = de_decision_class p"
  "d_boundary (dv_row (decision_v2_row q f p s)) = format_utc (de_boundary p)"
  "d_workflow_version (dv_row (decision_v2_row q f p s)) = de_workflow_version p"
  "d_hash (dv_row (decision_v2_row q f p s)) = ar_artifact_hash (de_artifact p)"
  "d_evaluator_version (dv_row (decision_v2_row q f p s)) = ar_evaluator_version (de_artifact p)"
  "d_logic_version (dv_row (decision_v2_row q f p s)) = ar_logic_version (de_artifact p)"
  "d_score (dv_row (decision_v2_row q f p s)) = dr_score (de_result p)"
  "d_threshold (dv_row (decision_v2_row q f p s)) = dr_threshold (de_result p)"
  "d_output (dv_row (decision_v2_row q f p s)) = dr_output (de_result p)"
  "dv_unit (decision_v2_row q f p s) = cf_unit_id f" "dv_logical_key (decision_v2_row q f p s) = cf_logical_key f"
  "dv_processing_version (decision_v2_row q f p s) = cf_processing_version f"
  "dv_capture (decision_v2_row q f p s) = qe_capture_hash q" "dv_reprocesses (decision_v2_row q f p s) = cf_reprocesses f"
  by (simp_all add: decision_v2_row_def decision_row_of_def inherited_envelope_def)

lemma parse_boundary_format: "valid_utc u \<Longrightarrow> parse_boundary (format_utc u) = Inr u"
  by (simp add: parse_boundary_def parse_datetime_format to_utc_def)

lemma admitted_evidence_unchanged:
  assumes "cl_evidence C' = cl_evidence C"
  shows "evidence_v2_at C' v = evidence_v2_at C v" "captured_input C' x = captured_input C x"
proof -
  show e: "evidence_v2_at C' v = evidence_v2_at C v" for v by (simp add: evidence_v2_at_def assms)
  show "captured_input C' x = captured_input C x" unfolding captured_input_def observed_date_def e ..
qed

lemma decision_rows_fresh:
  assumes "\<forall>h\<in>set (cl_context C). h_decision h \<noteq> k" "cl_context C' = cl_context C @ map (context_row_of k) es"
  shows "context_v2_rows C' k = map (context_row_of k) (sort_key ce_input_key es)"
proof -
  have "filter (\<lambda>h. h_decision h = k) (cl_context C) = []" using assms(1) by (simp add: filter_empty_conv)
  moreover have "filter (\<lambda>h. h_decision h = k) (map (context_row_of k) es) = map (context_row_of k) es"
    by (rule filter_True) (auto simp: context_row_of_def)
  moreover have "h_input_key (context_row_of k e) = ce_input_key e" for e by (simp add: context_row_of_def)
  ultimately show ?thesis by (simp add: context_v2_rows_def assms(2) sort_key_map)
qed

lemma consumed_rows_fresh:
  assumes "\<forall>u\<in>set (cl_consumed C). u_decision u \<noteq> k" "cl_consumed C' = cl_consumed C @ map (consumed_row_of k) cs"
  shows "filter (\<lambda>u. u_decision u = k) (cl_consumed C') = map (consumed_row_of k) cs"
proof -
  have "filter (\<lambda>u. u_decision u = k) (cl_consumed C) = []" using assms(1) by (simp add: filter_empty_conv)
  moreover have "filter (\<lambda>u. u_decision u = k) (map (consumed_row_of k) cs) = map (consumed_row_of k) cs"
    by (rule filter_True) (auto simp: consumed_row_of_def)
  ultimately show ?thesis by (simp add: assms(2))
qed

lemma consumption_admitted:
  assumes "distinct (map ce_input_key es)" "e \<in> set es" "ce_input_key e = ci_input_key c" "ce_availability e = ''available''"
    "ce_value e = ci_value c" "ce_evidence e = Some (ci_evidence c)" "input_of cap (ci_input_key c) ''state'' = Some s" "s \<noteq> JStr ''ignored''"
  shows "captured_consumption cap (map context_object (sort_key ce_input_key es)) (consumed_row_of k c)"
proof -
  have "distinct (map ce_input_key (sort_key ce_input_key es))" using assms(1) by (simp add: distinct_map)
  then have "by_key (map context_object (sort_key ce_input_key es)) (ce_input_key e) = Some (context_object e)"
    using assms(2) by (intro by_key_in) simp_all
  then show ?thesis
    using assms(3-8) by (simp add: captured_consumption_def consumed_row_of_def entry_members jstr_opt_def)
qed

lemma admitted_decision_replays:
  assumes q: "valid_capture_event fl q" "jnorm (qe_capture q) = qe_capture q" "qe_body q = DecisionV2 p"
    and v: "validate_v2 fl q C = None" and w: "write_captured q C = Inr C'" and x: "cextends C C'"
    and fresh: "\<forall>h\<in>set (cl_context C). h_decision h \<noteq> qe_event_id q" "\<forall>u\<in>set (cl_consumed C). u_decision u \<noteq> qe_event_id q"
    and d: "capture_facts (qe_capture q) = Some f" "d = decision_v2_row q f p s"
  shows "replayable fl C' d"
proof -
  let ?cap = "qe_capture q" and ?acct = "qe_account_ref q" and ?es = "sort_key ce_input_key (de_context p)"
  obtain u where e: "clean fl ?cap" "validate_capture fl ?cap (qe_capture_hash q) = Inr u" "account_identity ?cap = Some ?acct"
    "check_wire_decision (dump_capture_event q) (dump_capture_payload q) ?cap = Some ()"
    using q(3) by (auto intro: valid_capture_event_facts [OF q(1)])
  have valid: "valid_envelope (inherited_envelope q p)" using q(1,3) by (simp add: valid_capture_event_def)
  then have fields: "decision_fields p" "payload_validators (DecisionRecorded p) = None"
    by (simp_all add: valid_envelope_iff inherited_envelope_def envelope_fields_def)
  note dv = decision_validated [OF fields(2)]
  have cf: "\<forall>e\<in>set (de_context p). is_scalar (ce_value e) \<and> ce_availability e \<in> {''available'', ''unavailable''}"
    "valid_utc (de_boundary p)"
    using fields(1) by (auto simp: decision_fields_def list_all_iff context_entry_fields_def)
  obtain known L where t: "insert_event (capture_event_row q) (cl_base C) = Inr L" "cl_base C' = L"
    "stored_capture (capture_row_of q f) C = Inr known"
    "cl_captures C' = cl_captures C @ (if known = None then [capture_row_of q f] else [])"
    "cl_evidence C' = cl_evidence C" "cl_context C' = cl_context C @ map (context_row_of (qe_event_id q)) (de_context p)"
    "cl_consumed C' = cl_consumed C @ map (consumed_row_of (qe_event_id q)) (de_consumed p)"
    by (rule write_captured_tables [OF w]) (use d(1) q(3) in \<open>auto simp: new_capture_def\<close>)
  obtain c where c: "capture_at C' (qe_capture_hash q) = Some c" "capture_identity c = capture_identity (capture_row_of q f)"
    using stored_capture_found [OF t(3,4)] by (auto simp: capture_row_of_def)
  have ci: "cc_body c = canonical_text ?cap" "cc_account c = ?acct" "cc_unit c = cf_unit_id f" "cc_sequence c = cf_sequence f"
    using c(2) by (simp_all add: capture_identity_def capture_row_of_def)
  have lin: "lineage C ?acct f" and ctx: "\<exists>expected res. verify_context fl C ?acct ?cap (map dump_context_entry (de_context p)) = Some expected \<and>
      evaluate_captured C p ?cap (cf_boundary f) expected = Inr res"
    using v by (auto simp: validate_v2_def d(1) q(3) validate_captured_decision_def t(3) split: if_splits option.splits sum.splits)
  then obtain expected res where ctx: "verify_context fl C ?acct ?cap (map dump_context_entry (de_context p)) = Some expected"
      "evaluate_captured C p ?cap (cf_boundary f) expected = Inr res" by blast
  note vs = verify_context_stored [OF ctx(1) dv(1)]
  obtain vf inputs b used where ev:
    "verify_artifact_row (load_artifact_row (cl_base C) (ar_artifact_hash (de_artifact p))) (ar_artifact_hash (de_artifact p)) None = Inr vf"
    "la_logic_version (vf_artifact vf) = ar_logic_version (de_artifact p)"
    "la_evaluator_version (vf_artifact vf) = ar_evaluator_version (de_artifact p)"
    "la_decision_class (vf_artifact vf) = de_decision_class p"
    "all_some (map (captured_input C) expected) = Some inputs" "parse_datetime (cf_boundary f) = Some b"
    "evaluate (vf_artifact vf) inputs b = Inr res" "used_inputs ?cap expected res = Some used"
    "typed_equal (JList (sort_key entry_key (map dump_consumed (de_consumed p)))) (JList (sort_key entry_key used))"
    "typed_equal (dump_result (de_result p)) (result_object res)"
    by (rule evaluate_captured_Inr [OF ctx(2)])
  note wire = decision_wire [OF e(4) q(3) d(1)]
  note used = consumed_as_used [OF ev(9,8)]
  have b: "b = Aware (de_boundary p) 0" using ev(6) parse_datetime_format [OF cf(2)] by (simp add: wire(1))
  have rows: "context_v2_rows C' (qe_event_id q) = map (context_row_of (qe_event_id q)) ?es"
    by (rule decision_rows_fresh [OF fresh(1) t(6)])
  have "map (stored_entry fl) (context_v2_rows C' (qe_event_id q)) = map (Some \<circ> context_object) ?es"
    unfolding rows using cf(1) dv(3) by (simp add: stored_entry_of)
  then have entries: "all_some (map (stored_entry fl) (context_v2_rows C' (qe_event_id q))) = Some (map context_object ?es)"
    using all_some_Some [of ?es "Some \<circ> context_object" context_object] by simp
  have inputs: "all_some (map (captured_input C') (map context_object ?es)) = Some inputs"
    using ev(5) captured_inputs_typed [OF vs(2), of C] cf(1) admitted_evidence_unchanged(2) [OF t(5)] by (simp add: comp_def)
  note crows = consumed_rows_fresh [OF fresh(2) t(7)]
  have cons: "list_all (captured_consumption ?cap (map context_object ?es)) (map (consumed_row_of (qe_event_id q)) (de_consumed p))"
    unfolding list_all_iff set_map
  proof (intro ballI, elim imageE)
    fix y i assume i: "y = consumed_row_of (qe_event_id q) i" "i \<in> set (de_consumed p)"
    obtain e where "e \<in> set (de_context p)" "ce_input_key e = ci_input_key i" "ce_availability e = ''available''"
      "ce_value e = ci_value i" "ce_evidence e = Some (ci_evidence i)" using dv(4) i(2) by blast
    moreover obtain st where "input_of ?cap (ci_input_key i) ''state'' = Some st" "st \<noteq> JStr ''ignored''"
      using used(3) i(2) by blast
    ultimately show "captured_consumption ?cap (map context_object ?es) y"
      unfolding i(1) by (rule consumption_admitted [OF dv(1)])
  qed
  have agrees: "row_agrees d ?acct f" by (simp add: row_agrees_def d(2) decision_v2_row_fields wire)
  have load: "load_captured fl C' d = Some inputs"
    unfolding load_captured_iff d(2) decision_v2_row_fields crows
    by (intro exI conjI) (rule c(1), simp add: ci(1) clean_loads [OF e(1)] q(2), rule e(2), rule d(1), rule e(3), rule ci(1), rule ci(2),
      rule ci(3), rule ci(4), rule agrees [unfolded d(2)], rule lineage_kept [OF x lin], rule entries,
      rule verify_context_kept [OF x vs(1)], rule cons, rule inputs)
  have art: "load_artifact_row (cl_base C') h = load_artifact_row (cl_base C) h" for h
    by (simp add: load_artifact_row_def t(2) insert_event_L(3) [OF t(1)])
  have rec: "vf_recomputed_hash vf = ar_artifact_hash (de_artifact p)"
    using ev(1) by (auto simp: verify_artifact_row_Inr load_artifact_row_def dest: find_Some_in)
  have verified: "verify_artifact (load_artifact_row (cl_base C') (d_hash (dv_row d))) (dv_row d) None = Inr vf"
    using ev(1-4) rec by (simp add: verify_artifact_Inr art d(2) decision_v2_row_fields)
  have "set (recorded_triples (consumed_v2_rows C' (qe_event_id q))) = set (consumed_triples res)"
    by (simp add: recorded_triples_def consumed_v2_rows_def crows used(2) image_image consumed_row_of_def)
  then have "as_recorded res (dv_row d) (consumed_v2_rows C' (qe_event_id q))"
    using result_recorded [OF ev(10)] by (simp add: as_recorded_def d(2) decision_v2_row_fields)
  then show ?thesis
    unfolding replayable_def using load verified ev(7) parse_boundary_format [OF cf(2)]
    by (auto simp: b d(2) decision_v2_row_fields)
qed

lemma replayable_kept:
  assumes "cextends C C'" "context_versions C" "d_event_id (dv_row d) \<in> event_ids (cl_base C)" "replayable fl C d"
  shows "replayable fl C' d"
proof -
  obtain inputs vf b res where r: "load_captured fl C d = Some inputs"
    "verify_artifact (load_artifact_row (cl_base C) (d_hash (dv_row d))) (dv_row d) None = Inr vf"
    "parse_boundary (d_boundary (dv_row d)) = Inr b" "evaluate (vf_artifact vf) inputs (Aware b 0) = Inr res"
    "as_recorded res (dv_row d) (consumed_v2_rows C (d_event_id (dv_row d)))"
    using assms(4) by (auto simp: replayable_def)
  obtain l where "load_artifact_row (cl_base C) (d_hash (dv_row d)) = Some l"
    using r(2) by (auto simp: verify_artifact_Inr verify_artifact_row_Inr)
  then have "load_artifact_row (cl_base C') (d_hash (dv_row d)) = load_artifact_row (cl_base C) (d_hash (dv_row d))"
    using cextends_lookups(5) [OF assms(1)] by simp
  moreover have "consumed_v2_rows C' (d_event_id (dv_row d)) = consumed_v2_rows C (d_event_id (dv_row d))"
    by (simp add: consumed_v2_rows_def rows_of_decision_kept(2) [OF assms(1,3)])
  ultimately show ?thesis
    unfolding replayable_def using load_captured_kept [OF assms(1-3) r(1)] r(2-5) by auto
qed

end
