(* ===== verification/Provenance_Evidence.thy ===== *)
theory Provenance_Evidence
  imports Provenance_Sound
begin

text \<open>
  Every evidence version the collector mints from a capture is backed by it: the row verifies against the
  observation bound from the stored capture, in the ledger that mints it and in every later one.
\<close>

lemma typed_equal_plain: "typed_equal a b \<Longrightarrow> plain a \<Longrightarrow> dicts b \<Longrightarrow> plain b"
proof (induction a b rule: typed_equal.induct)
  case (1 a b)
  have d: "distinct (map fst b)" "fst ` set a = fst ` set b" using 1(2,4) by simp_all
  have "plain w" if kw: "(k, w) \<in> set b" for k w
  proof -
    have m: "map_of b k = Some w" using d(1) kw by simp
    have "k \<in> fst ` set a" unfolding d(2) using kw by force
    then obtain v where v: "(k, v) \<in> set a" by force
    have t: "typed_equal v w" using 1(2) v m by fastforce
    have "plain v" "dicts w" using 1(3,4) v kw by auto
    then show ?thesis using 1(1) [OF v refl m] t by blast
  qed
  then show ?case using d(1) by auto
next
  case (2 a b)
  have "plain w" if w: "w \<in> set b" for w
  proof -
    obtain i where i: "i < length b" "w = b ! i" using w by (auto simp: in_set_conv_nth)
    have z: "(a ! i, w) \<in> set (zip a b)" using i 2(2) by (auto simp: set_zip)
    have "typed_equal (a ! i) w" using 2(2) z by auto
    moreover have "plain (a ! i)" "dicts w" using 2(2-4) i by auto
    ultimately show ?thesis using 2(1) [OF z refl] by blast
  qed
  then show ?case by simp
qed auto

lemma clean_dicts: "clean fl j \<Longrightarrow> dicts j"
  by (induction j) auto

lemma typed_equal_item:
  assumes "typed_equal it (JObj bi)" "plain it" "clean fl (JObj bi)"
  shows "jnorm it = jnorm (JObj bi)"
  using assms typed_equal_plain [OF assms(1,2) clean_dicts [OF assms(3)]] typed_equal_plain_iff by blast

lemma jnorm_filter:
  assumes "jnorm (JObj a) = jnorm (JObj b)"
  shows "jnorm (JObj (filter (\<lambda>(k, v). P k) a)) = jnorm (JObj (filter (\<lambda>(k, v). P k) b))"
proof -
  have f: "map (\<lambda>(k, v). (k, jnorm v)) (filter (\<lambda>(k, v). P k) xs) = filter (\<lambda>(k, v). P k) (map (\<lambda>(k, v). (k, jnorm v)) xs)" for xs
    by (induction xs) auto
  have "sort_key fst (map (\<lambda>(k, v). (k, jnorm v)) a) = sort_key fst (map (\<lambda>(k, v). (k, jnorm v)) b)" using assms by simp
  then have "filter (\<lambda>(k, v). P k) (sort_key fst (map (\<lambda>(k, v). (k, jnorm v)) a)) =
      filter (\<lambda>(k, v). P k) (sort_key fst (map (\<lambda>(k, v). (k, jnorm v)) b))" by simp
  then show ?thesis by (simp add: f filter_sort)
qed

lemma observation_body_same:
  assumes "observation_body account cap a = Some x" "map_of b ''evidence_type'' = map_of a ''evidence_type''"
    "map_of b ''supersedes_evidence_version_id'' = map_of a ''supersedes_evidence_version_id''"
    "jnorm (JObj a) = jnorm (JObj b)"
  obtains y where "observation_body account cap b = Some y" "jnorm y = jnorm x" "member ''eligible_at'' y = member ''eligible_at'' x"
    "map_option jnorm (member ''semantic'' y) = map_option jnorm (member ''semantic'' x)"
proof -
  let ?P = "\<lambda>k. k \<notin> set [''evidence_type'', ''evidence_version_id'', ''supersedes_evidence_version_id'']"
  let ?body = "\<lambda>key sem sup mapping name started finished source_at eligible. JObj
       [(''account_ref'', account), (''source'', JStr SOURCE_CAPTURE), (''evidence_type'', JStr key),
        (''semantic'', sem), (''supersedes_evidence_version_id'', sup), (''mapping_identity'', mapping),
        (''source_property'', JStr name), (''read_started_at'', started), (''read_finished_at'', JStr finished),
        (''source_available_at'', source_at), (''eligible_at'', JStr eligible)]"
  have i: "(if c then None else z) = Some w \<longleftrightarrow> \<not> c \<and> z = Some w" for c and z :: "json option" and w by simp
  obtain key source_at finished eligible boundary et bt mapping name started where o:
    "Option.bind (map_of a ''evidence_type'') text_of = Some key"
    "Option.bind (member ''input_provenance'' cap) (\<lambda>p. Option.bind (member key p) (member ''available_at'')) = Some source_at"
    "str_at ''read_finished_at'' cap = Some finished" "eligible_at finished source_at = Some eligible"
    "str_at ''capture_boundary'' cap = Some boundary" "parse_datetime eligible = Some et" "parse_datetime boundary = Some bt"
    "after_time et bt = Some False" "member ''mapping_identity'' cap = Some mapping" "owned_property key = Some name"
    "member ''read_started_at'' cap = Some started"
    "x = ?body key (JObj (filter (\<lambda>(k, v). ?P k) a))
      (case map_of a ''supersedes_evidence_version_id'' of None \<Rightarrow> JNull | Some s \<Rightarrow> s) mapping name started finished source_at eligible"
    using assms(1) unfolding observation_body_def bind_eq_Some_conv [of _ _ x] i option.inject
    by (elim exE conjE) (simp only: simp_thms)
  have y: "observation_body account cap b = Some (?body key (JObj (filter (\<lambda>(k, v). ?P k) b))
      (case map_of a ''supersedes_evidence_version_id'' of None \<Rightarrow> JNull | Some s \<Rightarrow> s) mapping name started finished source_at eligible)"
    unfolding observation_body_def assms(2,3) o(1-11) Option.bind.simps if_False ..
  have s: "jnorm (JObj (filter (\<lambda>(k, v). ?P k) b)) = jnorm (JObj (filter (\<lambda>(k, v). ?P k) a))"
    by (rule jnorm_filter [OF assms(4) [symmetric]])
  show ?thesis
    by (rule that [OF y], unfold o(12), rule jnorm_members_cong) (use s in \<open>simp_all del: jnorm.simps\<close>)
qed

lemma jnorm_text: "jnorm a = jnorm b \<Longrightarrow> canonical_text a = canonical_text b"
  by (drule arg_cong [of _ _ canonical_text]) (simp only: canonical_jnorm)

text \<open>Members of two readings of one item.\<close>

lemma same_text_member:
  assumes "clean fl (JObj a)" "clean fl (JObj b)" "jnorm (JObj a) = jnorm (JObj b)"
  shows "map_of a k = Some (JStr t) \<Longrightarrow> map_of b k = Some (JStr t)" "map_of a k = Some JNull \<Longrightarrow> map_of b k = Some JNull"
    "map_of a k = None \<Longrightarrow> map_of b k = None"
proof -
  have m: "map_option jnorm (map_of b k) = map_option jnorm (map_of a k)"
    using same_member [OF assms(2,1) assms(3) [symmetric], of k] by simp
  have n: "jnorm v = JNull \<Longrightarrow> v = JNull" for v by (cases v) auto
  show "map_of a k = Some (JStr t) \<Longrightarrow> map_of b k = Some (JStr t)" "map_of a k = Some JNull \<Longrightarrow> map_of b k = Some JNull"
    "map_of a k = None \<Longrightarrow> map_of b k = None"
    using m n by auto
qed

lemma optional_text_Some: "optional_text (Some s) = Some t \<longleftrightarrow> s = jstr_opt t"
  by (cases s; cases t) (auto simp: optional_text_def jstr_opt_def)

lemma column_is_jstr [simp]: "column_is (Some (jstr_opt t)) c \<longleftrightarrow> c = t"
  by (cases t) (auto simp: column_is_def jstr_opt_def)

lemma minted_verifies:
  assumes cap: "clean fl cap" "validate_capture fl cap h = Inr u"
    and it: "check_wire_item (JStr account) cap it = Some ()" "clean fl it" "plain it"
    and row: "evidence_v2_row q it = Some r" "qe_capture q = cap" "qe_account_ref q = account"
  shows "\<exists>bi. bound_item (JStr account) cap (v_type (ev_row r)) (jstr_opt (v_supersedes (ev_row r))) = Some bi \<and>
    verify_evidence (Some r) account cap bi"
proof -
  obtain b v key sem observed eligible sup where r: "observation_body (JStr account) cap (object_members it) = Some b"
    "str_at ''evidence_version_id'' it = Some v" "str_at ''evidence_type'' it = Some key" "member ''semantic'' b = Some sem"
    "(case member ''observed_at'' it of None \<Rightarrow> Some None | Some t \<Rightarrow> optional_text (Some t)) = Some observed"
    "str_at ''eligible_at'' b = Some eligible" "optional_text (member ''supersedes_evidence_version_id'' it) = Some sup"
    "r = \<lparr>ev_row = \<lparr>v_version_id = v, v_account_ref = account, v_type = key, v_value_json = canonical_text sem,
           v_source = SOURCE_CAPTURE, v_observed_at = observed, v_available_at = eligible,
           v_source_event = qe_event_id q, v_supersedes = sup\<rparr>, ev_capture = qe_capture_hash q, ev_observation = canonical_text b\<rparr>"
    using row(1) unfolding evidence_v2_row_def row(2,3) bind_eq_Some_conv option.inject by (elim exE conjE) (simp only: simp_thms)
  obtain kvs where kvs: "it = JObj kvs" using r(3) by (cases it) (auto simp: str_at_def)
  obtain ks s bi where w: "available_keys cap = Some ks" "key \<in> set ks" "member ''supersedes_evidence_version_id'' it = Some s"
    "bound_item (JStr account) cap key s = Some bi" "typed_equal it (JObj bi)"
    using it(1) unfolding check_wire_item_def r(3) by (auto simp: bind_eq_Some_conv split: if_splits simp del: typed_equal.simps)
  have s: "s = jstr_opt sup" using r(7) by (simp add: w(3) optional_text_Some)
  have cs: "clean fl s" by (cases sup) (simp_all add: s jstr_opt_def)
  obtain it0 b0 where o: "item_ok fl key s it0" "observation_body (JStr account) cap it0 = Some b0"
    "bound_item (JStr account) cap key s = Some (dict_set ''evidence_version_id'' (JStr (''fr-evidence-v2-'' @ canonical_hash b0)) it0)"
    by (rule available_bound [OF cap w(1,2) cs]) blast
  have bi: "bi = dict_set ''evidence_version_id'' (JStr (''fr-evidence-v2-'' @ canonical_hash b0)) it0" using o(3) w(4) by simp
  have ok: "item_ok fl key s bi" unfolding bi by (rule item_ok_set [OF o(1)]) simp_all
  then have cb: "clean fl (JObj bi)" "map_of bi ''evidence_type'' = Some (JStr key)"
    "map_of bi ''supersedes_evidence_version_id'' = Some s" by (simp_all add: item_ok_def)
  have n: "jnorm (JObj kvs) = jnorm (JObj bi)" using typed_equal_item [OF w(5) it(3) cb(1)] by (simp only: kvs)
  have ck: "clean fl (JObj kvs)" using it(2) by (simp only: kvs)
  note same = same_text_member [OF ck cb(1) n]
  have ty: "map_of kvs ''evidence_type'' = Some (JStr key)" using r(3) by (auto simp: kvs str_at_def split: option.splits json.splits)
  have su: "map_of kvs ''supersedes_evidence_version_id'' = Some s" using w(3) by (simp add: kvs)
  have ve: "map_of bi ''evidence_version_id'' = Some (JStr v)"
    using r(2) by (auto simp: kvs str_at_def intro!: same(1) split: option.splits json.splits)
  have ob: "column_is (map_of bi ''observed_at'') observed"
  proof (cases "map_of kvs ''observed_at''")
    case None
    then show ?thesis using r(5) same(3) [OF None] by (simp add: kvs column_is_def)
  next
    case (Some t)
    then have t: "t = jstr_opt observed" using r(5) by (simp add: kvs optional_text_Some)
    have "map_of bi ''observed_at'' = Some t"
      using Some same(1,2) [of "''observed_at''"] unfolding t by (cases observed) (simp_all add: jstr_opt_def)
    then show ?thesis by (simp add: t)
  qed
  have obs: "observation_body (JStr account) cap kvs = Some b" using r(1) by (simp only: kvs object_members_def json.case)
  have eq: "map_of bi ''evidence_type'' = map_of kvs ''evidence_type''"
    "map_of bi ''supersedes_evidence_version_id'' = map_of kvs ''supersedes_evidence_version_id''"
    by (simp_all only: ty su cb(2,3))
  obtain y where y: "observation_body (JStr account) cap bi = Some y" "jnorm y = jnorm b"
    "member ''eligible_at'' y = member ''eligible_at'' b" "map_option jnorm (member ''semantic'' y) = map_option jnorm (member ''semantic'' b)"
    by (rule observation_body_same [OF obs eq n])
  have t: "canonical_text y = canonical_text b" by (rule jnorm_text [OF y(2)])
  have z: "map_option canonical_text z = map_option canonical_text (map_option jnorm z)" for z by (cases z) simp_all
  have "map_option canonical_text (member ''semantic'' y) = map_option canonical_text (member ''semantic'' b)"
    unfolding z [of "member ''semantic'' y"] z [of "member ''semantic'' b"] y(4) ..
  moreover have "member ''eligible_at'' b = Some (JStr eligible)" using r(6) by (auto simp: str_at_def split: option.splits json.splits)
  ultimately have "verify_evidence (Some r) account cap bi"
    by (simp add: verify_evidence_def y(1,3) r(8) cb(2,3) r(4) ob t ve s)
  then show ?thesis using w(4) by (simp add: r(8) s)
qed

end
