(* ===== verification/Capture_Replay.thy ===== *)
theory Capture_Replay
  imports Provenance_Evidence
begin

text \<open>
  The invariants of every ledger that valid events of both kinds produce, and what they give: captured
  decisions replay exactly and for good, evidence is backed by its capture, a unit is decided once, and
  reprocessing goes forward in the captured sequence.
\<close>

definition backed :: "(string \<Rightarrow> string option) \<Rightarrow> capture_ledger \<Rightarrow> evidence_v2 \<Rightarrow> bool" where
  "backed fl C r \<longleftrightarrow> origin_intact fl C (v_account_ref (ev_row r)) r (v_type (ev_row r))"

definition bound_capture :: "(string \<Rightarrow> string option) \<Rightarrow> capture_context \<Rightarrow> bool" where
  "bound_capture fl c \<longleftrightarrow>
     (\<exists>cap u f. loads fl (cc_body c) = Some cap \<and> canonical_text cap = cc_body c \<and> validate_capture fl cap (cc_hash c) = Inr u \<and>
        account_identity cap = Some (cc_account c) \<and> capture_facts cap = Some f \<and> cf_unit_id f = cc_unit c \<and> cf_sequence f = cc_sequence c)"

definition capture_invariant :: "(string \<Rightarrow> string option) \<Rightarrow> capture_ledger \<Rightarrow> bool" where
  "capture_invariant fl C \<longleftrightarrow>
     ledger_refs (cl_base C) \<and> context_versions C \<and>
     (\<forall>h\<in>set (cl_context C). h_decision h \<in> event_ids (cl_base C)) \<and>
     (\<forall>u\<in>set (cl_consumed C). u_decision u \<in> event_ids (cl_base C)) \<and>
     distinct (map (d_event_id \<circ> dv_row) (cl_decisions C)) \<and> distinct (map dv_unit (cl_decisions C)) \<and>
     (\<forall>d\<in>set (cl_decisions C). d_event_id (dv_row d) \<in> event_ids (cl_base C) \<and>
        d_event_id (dv_row d) \<notin> d_event_id ` set (lg_decisions (cl_base C)) \<and> replayable fl C d) \<and>
     (\<forall>r\<in>set (cl_evidence C). backed fl C r) \<and>
     (\<forall>c\<in>set (cl_captures C). bound_capture fl c) \<and>
     distinct (map cc_hash (cl_captures C)) \<and> distinct (map cc_unit (cl_captures C)) \<and>
     distinct (map (\<lambda>c. (cc_account c, cc_sequence c)) (cl_captures C))"

lemma invariant_empty: "capture_invariant fl empty_captures"
  by (simp add: capture_invariant_def empty_captures_def empty_ledger_ok context_versions_def)

lemma refs_decision_events: "ledger_refs L \<Longrightarrow> d_event_id ` set (lg_decisions L) \<subseteq> event_ids L"
  by (auto simp: ledger_refs_def Let_def event_ids_def)

lemma context_versions_kept:
  assumes "context_versions C" "cextends C C'"
    "\<forall>h\<in>set (cl_context C') - set (cl_context C). \<forall>v. h_evidence h = Some v \<longrightarrow> evidence_v2_at C v \<noteq> None"
  shows "context_versions C'"
  unfolding context_versions_def
proof (intro ballI allI impI)
  fix h v assume h: "h \<in> set (cl_context C')" "h_evidence h = Some v"
  then have "evidence_v2_at C v \<noteq> None" using assms(1,3) unfolding context_versions_def by blast
  then obtain r where "evidence_v2_at C v = Some r" by auto
  then show "evidence_v2_at C' v \<noteq> None" using cextends_lookups(2) [OF assms(2)] by simp
qed

lemma invariant_legacy:
  assumes inv: "capture_invariant fl C" and e: "write_event e (cl_base C) = Inr L" and x: "cextends C (C\<lparr>cl_base := L\<rparr>)"
  shows "capture_invariant fl (C\<lparr>cl_base := L\<rparr>)"
proof -
  let ?D = "C\<lparr>cl_base := L\<rparr>"
  have ext: "extends (cl_base C) L" using x by (simp add: cextends_def)
  then have ids: "event_ids (cl_base C) \<subseteq> event_ids L" by (rule extends_event_ids)
  have dec: "d_event_id ` set (lg_decisions L) \<subseteq> d_event_id ` set (lg_decisions (cl_base C)) \<union> - event_ids (cl_base C)"
    using ext by (auto simp: extends_def grown_def list_all_iff)
  have cv: "context_versions C" using inv by (simp add: capture_invariant_def)
  have "ledger_refs L" using inv refs.write_keeps [OF e refl] by (simp add: capture_invariant_def)
  moreover have "context_versions ?D" by (rule context_versions_kept [OF cv x]) simp
  moreover have "\<forall>d\<in>set (cl_decisions C). d_event_id (dv_row d) \<in> event_ids L \<and>
      d_event_id (dv_row d) \<notin> d_event_id ` set (lg_decisions L) \<and> replayable fl ?D d"
  proof
    fix d assume "d \<in> set (cl_decisions C)"
    then have d: "d_event_id (dv_row d) \<in> event_ids (cl_base C)"
      "d_event_id (dv_row d) \<notin> d_event_id ` set (lg_decisions (cl_base C))" "replayable fl C d"
      using inv by (simp_all add: capture_invariant_def)
    show "d_event_id (dv_row d) \<in> event_ids L \<and>
      d_event_id (dv_row d) \<notin> d_event_id ` set (lg_decisions L) \<and> replayable fl ?D d"
      using d(1,2) ids dec replayable_kept [OF x cv d(1,3)] by blast
  qed
  moreover have "\<forall>r\<in>set (cl_evidence C). backed fl ?D r"
    using inv origin_intact_kept [OF x] by (simp add: capture_invariant_def backed_def)
  ultimately show ?thesis using inv ids unfolding capture_invariant_def by auto
qed

lemma new_capture_bound:
  assumes "valid_capture_event fl q" "jnorm (qe_capture q) = qe_capture q" "capture_facts (qe_capture q) = Some f"
    "capture_identity c = capture_identity (capture_row_of q f)"
  shows "bound_capture fl c" "loads fl (cc_body c) = Some (qe_capture q)"
proof -
  obtain u where e: "clean fl (qe_capture q)" "validate_capture fl (qe_capture q) (qe_capture_hash q) = Inr u"
    "account_identity (qe_capture q) = Some (qe_account_ref q)" by (rule valid_capture_event_facts [OF assms(1)])
  have c: "cc_hash c = qe_capture_hash q" "cc_body c = canonical_text (qe_capture q)" "cc_account c = qe_account_ref q"
    "cc_unit c = cf_unit_id f" "cc_sequence c = cf_sequence f"
    using assms(4) by (simp_all add: capture_identity_def capture_row_of_def)
  show "loads fl (cc_body c) = Some (qe_capture q)" using clean_loads [OF e(1)] by (simp add: c(2) assms(2))
  then show "bound_capture fl c" unfolding bound_capture_def using e(2,3) assms(3) c by auto
qed

lemma new_capture_fresh:
  assumes "stored_capture r C = Inr None" "c \<in> set (cl_captures C)"
  shows "cc_hash c \<noteq> cc_hash r" "cc_unit c \<noteq> cc_unit r" "(cc_account c, cc_sequence c) \<noteq> (cc_account r, cc_sequence r)"
proof -
  have "filter (shares_identity r) (cl_captures C) = []"
    using assms(1) by (auto simp: stored_capture_def Let_def split: if_splits list.splits)
  then have "\<not> shares_identity r c" using assms(2) by (auto simp: filter_empty_conv)
  then show "cc_hash c \<noteq> cc_hash r" "cc_unit c \<noteq> cc_unit r" "(cc_account c, cc_sequence c) \<noteq> (cc_account r, cc_sequence r)"
    by (auto simp: shares_identity_def)
qed

lemma minted_backed:
  assumes q: "valid_capture_event fl q" "jnorm (qe_capture q) = qe_capture q" "qe_body q = EvidenceV2 items"
    and r: "all_some (map (evidence_v2_row q) items) = Some rows" "r \<in> set rows"
    and f: "capture_facts (qe_capture q) = Some f" and c: "capture_at C' (qe_capture_hash q) = Some c"
      "capture_identity c = capture_identity (capture_row_of q f)"
  shows "backed fl C' r"
proof -
  let ?cap = "qe_capture q" and ?acct = "qe_account_ref q"
  obtain u where e: "clean fl ?cap" "validate_capture fl ?cap (qe_capture_hash q) = Inr u"
    "check_wire_evidence (dump_capture_event q) (JStr ?acct) (dump_capture_payload q) ?cap = Some ()"
    using q(3) by (auto intro: valid_capture_event_facts [OF q(1)])
  obtain it where it: "it \<in> set items" "evidence_v2_row q it = Some r" using all_some_in [OF r] by blast
  have m: "member ''items'' (dump_capture_payload q) = Some (JList items)" by (simp add: dump_capture_payload_def q(3))
  obtain us where "all_some (map (check_wire_item (JStr ?acct) ?cap) items) = Some us"
    using e(3) unfolding check_wire_evidence_def m by (auto simp: bind_eq_Some_conv split: if_splits)
  then have w: "check_wire_item (JStr ?acct) ?cap it = Some ()" using all_some_out [OF _ it(1)] by fastforce
  have cl: "clean fl it" "plain it" using q(1,3) it(1) by (auto simp: valid_capture_event_def)
  obtain bi where bi: "bound_item (JStr ?acct) ?cap (v_type (ev_row r)) (jstr_opt (v_supersedes (ev_row r))) = Some bi"
    "verify_evidence (Some r) ?acct ?cap bi" using minted_verifies [OF e(1,2) w cl it(2) refl refl] by blast
  have row: "v_account_ref (ev_row r) = ?acct" "ev_capture r = qe_capture_hash q"
    using it(2) by (auto simp: evidence_v2_row_def bind_eq_Some_conv)
  have ci: "cc_hash c = qe_capture_hash q" "cc_account c = ?acct" "cc_unit c = cf_unit_id f" "cc_sequence c = cf_sequence f"
    using c(2) by (simp_all add: capture_identity_def capture_row_of_def)
  have "str_at ''unit_id'' ?cap = Some (cf_unit_id f)" "int_at ''capture_sequence'' ?cap = Some (cf_sequence f)"
    using f by (auto simp: capture_facts_def bind_eq_Some_conv)
  then show ?thesis
    unfolding backed_def origin_intact_def row c(1) option.case new_capture_bound(2) [OF q(1,2) f c(2)] ci e(2) sum.case bi(1)
    using bi(2) by simp
qed

lemma invariant_captured:
  assumes inv: "capture_invariant fl C" and q: "valid_capture_event fl q" "jnorm (qe_capture q) = qe_capture q"
    and fresh: "qe_event_id q \<notin> event_ids (cl_base C)" and v: "validate_v2 fl q C = None"
    and w: "write_captured q C = Inr C'" and x: "cextends C C'"
  shows "capture_invariant fl C'"
proof -
  obtain L f known where t: "insert_event (capture_event_row q) (cl_base C) = Inr L" "cl_base C' = L"
    "capture_facts (qe_capture q) = Some f" "stored_capture (capture_row_of q f) C = Inr known"
    "cl_captures C' = cl_captures C @ (if known = None then [capture_row_of q f] else [])"
    "case qe_body q of
       EvidenceV2 items \<Rightarrow> (\<exists>rows. all_some (map (evidence_v2_row q) items) = Some rows \<and> cl_evidence C' = cl_evidence C @ rows \<and>
         cl_decisions C' = cl_decisions C \<and> cl_context C' = cl_context C \<and> cl_consumed C' = cl_consumed C)
     | DecisionV2 p \<Rightarrow>
         cl_evidence C' = cl_evidence C \<and> cl_decisions C' = cl_decisions C @ [decision_v2_row q f p (lg_seq L)] \<and>
         cl_context C' = cl_context C @ map (context_row_of (qe_event_id q)) (de_context p) \<and>
         cl_consumed C' = cl_consumed C @ map (consumed_row_of (qe_event_id q)) (de_consumed p) \<and>
         qe_event_id q \<notin> (d_event_id \<circ> dv_row) ` set (cl_decisions C) \<and> cf_unit_id f \<notin> dv_unit ` set (cl_decisions C) \<and>
         (\<forall>h\<in>set (map (context_row_of (qe_event_id q)) (de_context p)). \<forall>v. h_evidence h = Some v \<longrightarrow> evidence_v2_at C v \<noteq> None)"
    by (rule write_captured_tables [OF w]) (auto simp: new_capture_def)
  have ids: "event_ids L = insert (qe_event_id q) (event_ids (cl_base C))"
    and dec: "lg_decisions L = lg_decisions (cl_base C)"
    using insert_event_L(1,2) [OF t(1)] by (simp_all add: capture_event_row_def)
  have refs: "ledger_refs (cl_base C)" and cv: "context_versions C"
    and old: "\<forall>h\<in>set (cl_context C). h_decision h \<in> event_ids (cl_base C)" "\<forall>u\<in>set (cl_consumed C). u_decision u \<in> event_ids (cl_base C)"
    using inv by (simp_all add: capture_invariant_def)
  have nb: "qe_event_id q \<notin> d_event_id ` set (lg_decisions (cl_base C))" using refs_decision_events [OF refs] fresh by blast
  obtain c where c: "capture_at C' (qe_capture_hash q) = Some c" "capture_identity c = capture_identity (capture_row_of q f)"
    using stored_capture_found [OF t(4,5)] by (auto simp: capture_row_of_def)
  have refs': "ledger_refs L" by (rule refs_insert_event [OF t(1) refs])
  have kept: "\<forall>d\<in>set (cl_decisions C). d_event_id (dv_row d) \<in> event_ids L \<and>
      d_event_id (dv_row d) \<notin> d_event_id ` set (lg_decisions L) \<and> replayable fl C' d"
    using inv replayable_kept [OF x cv] by (simp add: capture_invariant_def ids dec)
  have backed: "\<forall>r\<in>set (cl_evidence C). backed fl C' r"
    using inv origin_intact_kept [OF x] by (simp add: capture_invariant_def backed_def)
  have caps: "(\<forall>c\<in>set (cl_captures C'). bound_capture fl c) \<and> distinct (map cc_hash (cl_captures C')) \<and>
      distinct (map cc_unit (cl_captures C')) \<and> distinct (map (\<lambda>c. (cc_account c, cc_sequence c)) (cl_captures C'))"
    using inv new_capture_bound(1) [OF q t(3) refl] new_capture_fresh [of "capture_row_of q f" C] t(4)
    by (cases known) (fastforce simp: capture_invariant_def t(5) image_iff)+
  show ?thesis
  proof (cases "qe_body q")
    case (EvidenceV2 items)
    then obtain rows where r: "all_some (map (evidence_v2_row q) items) = Some rows" "cl_evidence C' = cl_evidence C @ rows"
      "cl_decisions C' = cl_decisions C" "cl_context C' = cl_context C" "cl_consumed C' = cl_consumed C" using t(6) by auto
    have "\<forall>r\<in>set rows. backed fl C' r" using minted_backed [OF q EvidenceV2 r(1) _ t(3) c] by blast
    moreover have "context_versions C'" by (rule context_versions_kept [OF cv x]) (simp add: r(4))
    ultimately show ?thesis using inv caps kept backed refs' old unfolding capture_invariant_def r(2-5) t(2) ids by auto
  next
    case (DecisionV2 p)
    let ?d = "decision_v2_row q f p (lg_seq L)"
    have d: "cl_evidence C' = cl_evidence C" "cl_decisions C' = cl_decisions C @ [?d]"
      "cl_context C' = cl_context C @ map (context_row_of (qe_event_id q)) (de_context p)"
      "cl_consumed C' = cl_consumed C @ map (consumed_row_of (qe_event_id q)) (de_consumed p)"
      "qe_event_id q \<notin> (d_event_id \<circ> dv_row) ` set (cl_decisions C)" "cf_unit_id f \<notin> dv_unit ` set (cl_decisions C)"
      "\<forall>h\<in>set (map (context_row_of (qe_event_id q)) (de_context p)). \<forall>v. h_evidence h = Some v \<longrightarrow> evidence_v2_at C v \<noteq> None"
      using t(6) by (simp_all add: DecisionV2)
    have new: "replayable fl C' ?d"
      by (rule admitted_decision_replays [OF q DecisionV2 v w x _ _ t(3) refl]) (use old fresh in auto)
    have "context_versions C'" by (rule context_versions_kept [OF cv x]) (use d(7) in \<open>auto simp: d(3)\<close>)
    moreover have "\<forall>h\<in>set (cl_context C'). h_decision h \<in> event_ids L" "\<forall>u\<in>set (cl_consumed C'). u_decision u \<in> event_ids L"
      using old by (auto simp: d(3,4) ids context_row_of_def consumed_row_of_def)
    moreover have "distinct (map (d_event_id \<circ> dv_row) (cl_decisions C'))" "distinct (map dv_unit (cl_decisions C'))"
      using inv d(5,6) by (auto simp: capture_invariant_def d(2) decision_v2_row_fields)
    moreover have "\<forall>d\<in>set (cl_decisions C'). d_event_id (dv_row d) \<in> event_ids L \<and>
        d_event_id (dv_row d) \<notin> d_event_id ` set (lg_decisions L) \<and> replayable fl C' d"
      using kept new nb by (auto simp: d(2) ids dec decision_v2_row_fields)
    ultimately show ?thesis using caps backed refs' unfolding capture_invariant_def t(2) d(1) by blast
  qed
qed

lemma reachable_capture_invariant: "capture_reachable fl C \<Longrightarrow> capture_invariant fl C"
proof (induction rule: capture_reachable_write)
  case empty
  show ?case by (rule invariant_empty)
next
  case (legacy C e L)
  then show ?case using invariant_legacy by blast
next
  case (captured C q C')
  then show ?case using invariant_captured by blast
qed

subsection \<open>Replay\<close>

lemma reconstruct_captured:
  assumes "replayable fl C d" "decision_v2_at C k = Some d" "d_event_id (dv_row d) = k" "k \<notin> d_event_id ` set (lg_decisions (cl_base C))"
  shows "\<exists>r. reconstruct_any fl C k = Inr r \<and> rc_decision_event_id r = k \<and> rc_artifact_hash r = d_hash (dv_row d) \<and>
    as_recorded (rc_result r) (dv_row d) (consumed_v2_rows C k)"
proof -
  obtain inputs vf b res where r: "load_captured fl C d = Some inputs"
    "verify_artifact (load_artifact_row (cl_base C) (d_hash (dv_row d))) (dv_row d) None = Inr vf"
    "parse_boundary (d_boundary (dv_row d)) = Inr b" "evaluate (vf_artifact vf) inputs (Aware b 0) = Inr res"
    "as_recorded res (dv_row d) (consumed_v2_rows C k)"
    using assms(1,3) by (auto simp: replayable_def)
  have n: "find (\<lambda>d. d_event_id d = k) (lg_decisions (cl_base C)) = None" using assms(4) by (auto simp: find_None_iff)
  have h: "vf_recomputed_hash vf = d_hash (dv_row d)" using r(2) by (simp add: verify_artifact_Inr)
  have "load_decision_any C k = Inr (dv_row d)" by (simp add: load_decision_any_def n assms(2))
  moreover have "load_context_any fl C k (d_boundary (dv_row d)) = Inr inputs"
    by (simp add: load_context_any_def is_legacy_def n assms(2) load_v2_context_def r(1))
  moreover have "load_consumed_any C k = consumed_v2_rows C k" by (simp add: load_consumed_any_def is_legacy_def n assms(2))
  moreover have "compare_with_recorded res (dv_row d) (consumed_v2_rows C k) = None" using r(5) by (simp add: compare_with_recorded_None)
  ultimately show ?thesis using r(2-5) by (simp add: reconstruct_any_def assms(3) h)
qed

lemma captured_decision_found:
  assumes "capture_invariant fl C" "d \<in> set (cl_decisions C)"
  shows "decision_v2_at C (d_event_id (dv_row d)) = Some d" "replayable fl C d"
    "d_event_id (dv_row d) \<notin> d_event_id ` set (lg_decisions (cl_base C))"
proof -
  have "distinct (map (d_event_id \<circ> dv_row) (cl_decisions C))" using assms(1) by (simp add: capture_invariant_def)
  then show "decision_v2_at C (d_event_id (dv_row d)) = Some d"
    using find_distinct_key [of "d_event_id \<circ> dv_row" "cl_decisions C" d] assms(2) by (simp add: decision_v2_at_def)
  show "replayable fl C d" "d_event_id (dv_row d) \<notin> d_event_id ` set (lg_decisions (cl_base C))"
    using assms by (simp_all add: capture_invariant_def)
qed

text \<open>C11: Every captured decision the collector ever admitted replays exactly: from the capture it rests on, the evidence
  minted from it and the registered logic, reconstruction computes the recorded score, threshold, output and consumed
  inputs, however the ledger has grown since.\<close>
theorem captured_decision_replays:
  assumes "capture_reachable fl C" "d \<in> set (cl_decisions C)"
  shows "\<exists>r. reconstruct_any fl C (d_event_id (dv_row d)) = Inr r \<and> rc_artifact_hash r = d_hash (dv_row d) \<and>
    rs_score (rc_result r) = d_score (dv_row d) \<and> rs_threshold (rc_result r) = d_threshold (dv_row d) \<and>
    rs_output (rc_result r) = d_output (dv_row d) \<and>
    set (consumed_triples (rc_result r)) =
      {(u_input_key u, Some (u_evidence u), u_contribution u) | u. u \<in> set (cl_consumed C) \<and> u_decision u = d_event_id (dv_row d)}"
proof -
  note f = captured_decision_found [OF reachable_capture_invariant [OF assms(1)] assms(2)]
  have "set (recorded_triples (consumed_v2_rows C k)) =
      {(u_input_key u, Some (u_evidence u), u_contribution u) | u. u \<in> set (cl_consumed C) \<and> u_decision u = k}" for k
    by (auto simp: recorded_triples_def consumed_v2_rows_def)
  then show ?thesis using reconstruct_captured [OF f(2,1) refl f(3)] unfolding as_recorded_def by metis
qed

text \<open>C13: Every stored evidence version is backed by the capture that minted it: the capture is stored, passes the contract,
  belongs to the account, and the row verifies against the observation bound from it.\<close>
theorem captured_evidence_backed:
  assumes "capture_reachable fl C" "r \<in> set (cl_evidence C)"
  shows "\<exists>c cap u it. capture_at C (ev_capture r) = Some c \<and> cc_account c = v_account_ref (ev_row r) \<and>
    loads fl (cc_body c) = Some cap \<and> validate_capture fl cap (cc_hash c) = Inr u \<and>
    bound_item (JStr (cc_account c)) cap (v_type (ev_row r)) (jstr_opt (v_supersedes (ev_row r))) = Some it \<and>
    verify_evidence (Some r) (cc_account c) cap it"
proof -
  have "backed fl C r" using reachable_capture_invariant [OF assms(1)] assms(2) by (simp add: capture_invariant_def)
  then show ?thesis by (auto simp: backed_def origin_intact_def split: option.splits sum.splits)
qed

text \<open>C14: A stored capture is complete and bound once: its text reads as a capture that passes the contract under its hash,
  for its account, unit and sequence, and no other row shares its hash, its unit or its place in the account's sequence;
  no unit is decided twice.\<close>
theorem captures_bound_once:
  assumes "capture_reachable fl C"
  shows "(\<forall>c\<in>set (cl_captures C). \<exists>cap u. loads fl (cc_body c) = Some cap \<and> validate_capture fl cap (cc_hash c) = Inr u \<and>
       account_identity cap = Some (cc_account c) \<and> str_at ''unit_id'' cap = Some (cc_unit c) \<and>
       int_at ''capture_sequence'' cap = Some (cc_sequence c)) \<and>
    distinct (map cc_hash (cl_captures C)) \<and> distinct (map cc_unit (cl_captures C)) \<and>
    distinct (map (\<lambda>c. (cc_account c, cc_sequence c)) (cl_captures C)) \<and> distinct (map dv_unit (cl_decisions C))"
proof -
  have "\<exists>cap u. loads fl (cc_body c) = Some cap \<and> validate_capture fl cap (cc_hash c) = Inr u \<and>
       account_identity cap = Some (cc_account c) \<and> str_at ''unit_id'' cap = Some (cc_unit c) \<and>
       int_at ''capture_sequence'' cap = Some (cc_sequence c)" if "bound_capture fl c" for c
    using that by (auto simp: bound_capture_def capture_facts_def bind_eq_Some_conv)
  then show ?thesis using reachable_capture_invariant [OF assms] by (simp add: capture_invariant_def)
qed

text \<open>Reprocessing goes forward: a decision that reprocesses a unit names one that was decided, for the same account
  and notification under another processing version, on a strictly earlier capture.\<close>
lemma reprocessing_forward:
  assumes "capture_reachable fl C" "d \<in> set (cl_decisions C)" "dv_reprocesses d = Some u"
  shows "\<exists>prior\<in>set (cl_decisions C). dv_unit prior = u \<and> d_account_ref (dv_row prior) = d_account_ref (dv_row d) \<and>
    dv_logical_key prior = dv_logical_key d \<and> dv_processing_version prior \<noteq> dv_processing_version d \<and>
    (\<exists>c c'. capture_at C (dv_capture prior) = Some c \<and> capture_at C (dv_capture d) = Some c' \<and> cc_sequence c < cc_sequence c')"
proof -
  have "replayable fl C d" using captured_decision_found [OF reachable_capture_invariant [OF assms(1)] assms(2)] by blast
  then obtain inputs where l: "load_captured fl C d = Some inputs" by (auto simp: replayable_def)
  obtain c' f account where c: "capture_at C (dv_capture d) = Some c'" "cc_sequence c' = cf_sequence f" "row_agrees d account f"
    "lineage C (d_account_ref (dv_row d)) f" using l unfolding load_captured_iff by blast
  have "cf_reprocesses f = Some u" using c(3) assms(3) by (simp add: row_agrees_def)
  then obtain prior c where p: "decision_of_unit C u = Some prior" "d_account_ref (dv_row prior) = d_account_ref (dv_row d)"
    "dv_logical_key prior = cf_logical_key f" "dv_processing_version prior \<noteq> cf_processing_version f"
    "capture_at C (dv_capture prior) = Some c" "cc_sequence c < cf_sequence f" using c(4) by (auto simp: lineage_iff)
  then have "prior \<in> set (cl_decisions C)" "dv_unit prior = u" using find_Some_in [of _ _ prior] by (auto simp: decision_of_unit_def)
  then show ?thesis using p c by (auto simp: row_agrees_def)
qed

end
