(* ===== verification/Capture_Admission.thy ===== *)
theory Capture_Admission
  imports Capture_Replay
begin

text \<open>
  What the collector's checks admit, the database takes: a captured event that passes \<open>validate_v2\<close> is written, so
  the collector answers every valid captured event.  Then the way of one capture through the collector: the
  account, the artifact, the evidence bound from the capture and the decision computed on it.
\<close>

subsection \<open>The rows of a valid evidence event\<close>

lemma filter_dict_set: "\<not> P k \<Longrightarrow> filter (\<lambda>(k, v). P k) (dict_set k v d) = filter (\<lambda>(k, v). P k) d"
  by (induction k v d rule: dict_set.induct) auto

lemma observation_body_version:
  "observation_body account cap (dict_set ''evidence_version_id'' v it) = observation_body account cap it"
proof -
  have f: "filter (\<lambda>(k, v). k \<notin> set [''evidence_type'', ''evidence_version_id'', ''supersedes_evidence_version_id''])
      (dict_set ''evidence_version_id'' v it) =
      filter (\<lambda>(k, v). k \<notin> set [''evidence_type'', ''evidence_version_id'', ''supersedes_evidence_version_id'']) it"
    by (rule filter_dict_set) simp
  have m: "map_of (dict_set ''evidence_version_id'' v it) ''evidence_type'' = map_of it ''evidence_type''"
    "map_of (dict_set ''evidence_version_id'' v it) ''supersedes_evidence_version_id'' = map_of it ''supersedes_evidence_version_id''"
    by (simp_all add: map_of_dict_set)
  show ?thesis unfolding observation_body_def f m ..
qed

lemma observation_body_semantic:
  assumes "observation_body account cap it = Some b"
  shows "member ''semantic'' b \<noteq> None"
proof -
  have i: "(if c then None else z) = Some w \<longleftrightarrow> \<not> c \<and> z = Some w" for c and z :: "json option" and w by simp
  show ?thesis
    using assms unfolding observation_body_def bind_eq_Some_conv [of _ _ b] i option.inject
    by (elim exE conjE) (drule sym [of _ b], simp)
qed

lemma evidence_row_exists:
  assumes cap: "clean fl (qe_capture q)" "validate_capture fl (qe_capture q) h = Inr u"
    and it: "check_wire_item (JStr (qe_account_ref q)) (qe_capture q) it = Some ()" "clean fl it" "plain it" "captured_item_fields it"
  obtains r where "evidence_v2_row q it = Some r"
proof -
  let ?cap = "qe_capture q" and ?acct = "JStr (qe_account_ref q)"
  obtain key where key: "str_at ''evidence_type'' it = Some key"
    using it(1) by (auto simp: check_wire_item_def bind_eq_Some_conv)
  obtain ks s bi where w: "available_keys ?cap = Some ks" "key \<in> set ks" "member ''supersedes_evidence_version_id'' it = Some s"
    "bound_item ?acct ?cap key s = Some bi" "typed_equal it (JObj bi)"
    using it(1) unfolding check_wire_item_def key by (auto simp: bind_eq_Some_conv split: if_splits simp del: typed_equal.simps)
  obtain v sup where vs: "str_at ''evidence_version_id'' it = Some v" "s = jstr_opt sup"
    using it(4) w(3) by (auto simp: captured_item_fields_def optional_text_Some)
  obtain observed where ob: "(case member ''observed_at'' it of None \<Rightarrow> Some None | Some t \<Rightarrow> optional_text (Some t)) = Some observed"
    using it(4) by (cases "member ''observed_at'' it") (auto simp: captured_item_fields_def)
  have cs: "clean fl s" by (cases sup) (simp_all add: vs(2) jstr_opt_def)
  obtain it0 b0 f x c where o: "item_ok fl key s it0" "observation_body ?acct ?cap it0 = Some b0"
    "bound_item ?acct ?cap key s = Some (dict_set ''evidence_version_id'' (JStr (''fr-evidence-v2-'' @ canonical_hash b0)) it0)"
    "str_at ''eligible_at'' b0 = Some (format_utc x)"
    by (rule available_bound [OF cap w(1,2) cs]) blast
  have bi: "bi = dict_set ''evidence_version_id'' (JStr (''fr-evidence-v2-'' @ canonical_hash b0)) it0" using o(3) w(4) by simp
  have ok: "item_ok fl key s bi" unfolding bi by (rule item_ok_set [OF o(1)]) simp_all
  obtain kvs where kvs: "it = JObj kvs" using key by (cases it) (auto simp: str_at_def)
  have cb: "clean fl (JObj bi)" using ok by (simp only: item_ok_def)
  have n: "jnorm (JObj bi) = jnorm (JObj kvs)" using typed_equal_item [OF w(5) it(3) cb] by (simp only: kvs)
  have e: "map_of kvs ''evidence_type'' = map_of bi ''evidence_type''"
    "map_of kvs ''supersedes_evidence_version_id'' = map_of bi ''supersedes_evidence_version_id''"
    using key w(3) ok by (auto simp: kvs item_ok_def str_at_def split: option.splits json.splits)
  have obs: "observation_body ?acct ?cap bi = Some b0" unfolding bi observation_body_version by (rule o(2))
  obtain y where y: "observation_body ?acct ?cap kvs = Some y" "member ''eligible_at'' y = member ''eligible_at'' b0"
    by (rule observation_body_same [OF obs e n])
  obtain sem where sem: "member ''semantic'' y = Some sem" using observation_body_semantic [OF y(1)] by blast
  have el: "str_at ''eligible_at'' y = Some (format_utc x)" using o(4) by (simp add: str_at_def y(2))
  have "observation_body ?acct ?cap (object_members it) = Some y" using y(1) by (simp add: kvs object_members_def)
  moreover have "optional_text (member ''supersedes_evidence_version_id'' it) = Some sup" by (simp add: w(3) vs(2))
  ultimately have "\<exists>r. evidence_v2_row q it = Some r" using vs(1) key sem ob el by (simp add: evidence_v2_row_def)
  then show ?thesis using that by blast
qed

lemma evidence_v2_row_fields:
  assumes "evidence_v2_row q it = Some r"
  shows "str_at ''evidence_version_id'' it = Some (v_version_id (ev_row r))" "v_account_ref (ev_row r) = qe_account_ref q"
    "v_source_event (ev_row r) = qe_event_id q" "ev_capture r = qe_capture_hash q"
    "optional_text (member ''supersedes_evidence_version_id'' it) = Some (v_supersedes (ev_row r))"
  using assms by (auto simp: evidence_v2_row_def bind_eq_Some_conv)

subsection \<open>The versions a verified context names\<close>

lemma available_keys_in:
  assumes "available_keys cap = Some ks" "key \<in> set owned_keys" "input_of cap key ''state'' = Some s"
    "s \<in> {JStr ''consumed'', JStr ''ignored''}"
  shows "key \<in> set ks"
proof -
  obtain states where st: "all_some (map (\<lambda>k. map_option (Pair k) (input_of cap k ''state'')) owned_keys) = Some states"
    "ks = sort (map fst (filter (\<lambda>(k, s). s \<in> {JStr ''consumed'', JStr ''ignored''}) states))"
    using assms(1) by (auto simp: available_keys_def bind_eq_Some_conv)
  have "(key, s) \<in> set states" using all_some_out [OF st(1) assms(2)] assms(3) by auto
  then have "(key, s) \<in> set (filter (\<lambda>(k, s). s \<in> {JStr ''consumed'', JStr ''ignored''}) states)" using assms(4) by simp
  then have "fst (key, s) \<in> fst ` set (filter (\<lambda>(k, s). s \<in> {JStr ''consumed'', JStr ''ignored''}) states)" by (rule imageI)
  then show ?thesis unfolding st(2) set_sort set_map fst_conv .
qed

lemma expected_versions:
  assumes "expected_context account cap m = Some expected" "y \<in> set expected"
    "member ''evidence_version_id'' y = Some (JStr v)"
  obtains key s it where "key \<in> set owned_keys" "input_of cap key ''state'' = Some s" "s \<in> {JStr ''consumed'', JStr ''ignored''}"
    "bound_item account cap key (case m key of None \<Rightarrow> JNull | Some t \<Rightarrow> t) = Some it"
    "item ''evidence_version_id'' (map_of it) = JStr v"
proof -
  obtain yss where yss: "all_some (map (expected_entry account cap m) (sort owned_keys)) = Some yss" "y \<in> set (concat yss)"
    using assms(1,2) by (auto simp: expected_context_def)
  obtain ys where ys: "ys \<in> set yss" "y \<in> set ys" using yss(2) by auto
  obtain key where key: "key \<in> set (sort owned_keys)" "expected_entry account cap m key = Some ys"
    using all_some_in [OF yss(1) ys(1)] by blast
  then obtain s where s: "input_of cap key ''state'' = Some s" by (auto simp: expected_entry_def bind_eq_Some_conv)
  have st: "s \<in> {JStr ''consumed'', JStr ''ignored''}"
    using key(2) ys(2) assms(3) by (auto simp: expected_entry_def s split: if_splits)
  then obtain it where it: "bound_item account cap key (case m key of None \<Rightarrow> JNull | Some t \<Rightarrow> t) = Some it"
    "ys = [JObj [(''input_key'', JStr key), (''value'', item ''value'' (map_of it)), (''availability'', JStr ''available''),
      (''evidence_version_id'', item ''evidence_version_id'' (map_of it))]]"
    using key(2) by (auto simp: expected_entry_def s bind_eq_Some_conv)
  have "item ''evidence_version_id'' (map_of it) = JStr v" using ys(2) assms(3) by (simp add: it(2))
  then show ?thesis using that [OF _ s st it(1)] key(1) by simp
qed

lemma verified_entry_SomeD:
  assumes "verified_entry fl C account cap m k = Some kt"
  shows "fst kt = k" "\<exists>v row it. evidence_v2_at C v = Some row \<and> bound_item (JStr account) cap k (snd kt) = Some it \<and>
    verify_evidence (Some row) account cap it"
  using assms by (auto simp: verified_entry_def bind_eq_Some_conv split: if_splits) blast

lemma list_all2_witness: "list_all2 P xs ys \<Longrightarrow> x \<in> set xs \<Longrightarrow> \<exists>y\<in>set ys. P x y"
  by (induction rule: list_all2_induct) auto

lemma verified_versions:
  assumes "verify_context fl C account cap (map dump_context_entry es) = Some expected" "e \<in> set es" "ce_evidence e = Some v"
  shows "v \<in> (v_version_id \<circ> ev_row) ` set (cl_evidence C)"
proof -
  let ?sub = "map dump_context_entry es"
  obtain ks ss where k: "available_keys cap = Some ks" "all_some (map (verified_entry fl C account cap (by_key ?sub)) ks) = Some ss"
    "expected_context (JStr account) cap (map_of ss) = Some expected" "typed_equal (JList (sort_key entry_key ?sub)) (JList expected)"
    using assms(1) unfolding verify_context_def by (auto simp: bind_eq_Some_conv simp del: typed_equal.simps split: if_splits)
  have "dump_context_entry e \<in> set (sort_key entry_key ?sub)" using assms(2) by simp
  moreover have "list_all2 typed_equal (sort_key entry_key ?sub) expected" using k(4) by (simp only: typed_equal_list json.inject) blast
  ultimately obtain y where y: "y \<in> set expected" "typed_equal (dump_context_entry e) y" using list_all2_witness by meson
  have m: "member ''evidence_version_id'' y = Some (JStr v)"
    by (rule typed_member [OF y(2)]) (simp_all add: entry_members assms(3) jstr_opt_def)
  obtain key s it where b: "key \<in> set owned_keys" "input_of cap key ''state'' = Some s" "s \<in> {JStr ''consumed'', JStr ''ignored''}"
    "bound_item (JStr account) cap key (case map_of ss key of None \<Rightarrow> JNull | Some t \<Rightarrow> t) = Some it"
    "item ''evidence_version_id'' (map_of it) = JStr v" by (rule expected_versions [OF k(3) y(1) m])
  have "key \<in> set ks" by (rule available_keys_in [OF k(1) b(1-3)])
  then obtain kt where kt: "kt \<in> set ss" "verified_entry fl C account cap (by_key ?sub) key = Some kt"
    using all_some_out [OF k(2)] by blast
  then have "(key, snd kt) \<in> set ss" using verified_entry_SomeD(1) by fastforce
  then obtain t where t: "map_of ss key = Some t" by (metis weak_map_of_SomeI)
  then have "(key, t) \<in> set ss" by (rule map_of_SomeD)
  then obtain k' where "verified_entry fl C account cap (by_key ?sub) k' = Some (key, t)" using all_some_in [OF k(2)] by blast
  then obtain v' row it' where r: "evidence_v2_at C v' = Some row" "bound_item (JStr account) cap key t = Some it'"
    "verify_evidence (Some row) account cap it'" using verified_entry_SomeD by (metis fst_conv snd_conv)
  have "it' = it" using b(4) r(2) by (simp add: t)
  then have "v_version_id (ev_row row) = v" using r(3) b(5) by (auto simp: verify_evidence_def item_def split: option.splits)
  then show ?thesis using find_Some_in [OF r(1) [unfolded evidence_v2_at_def]] by auto
qed

subsection \<open>Every checked event is written\<close>

lemma capture_first_seen:
  "capture_reachable fl C \<Longrightarrow> \<forall>a\<in>set (lg_accounts (cl_base C)). a_first_seen a \<in> event_ids (cl_base C)"
proof (induction rule: capture_reachable_write)
  case empty
  show ?case by (simp add: empty_captures_def empty_ledger_def)
next
  case (legacy C e L)
  then show ?case by (auto simp: write_event_Inr commit_Inr)
next
  case (captured C q C')
  then obtain L where "insert_event (capture_event_row q) (cl_base C) = Inr L" "cl_base C' = L"
    by (auto elim: write_captured_tables)
  then show ?case using insert_event_L(1,5) captured.IH by simp
qed

definition captured_ints :: "capture_event \<Rightarrow> int list" where
  "captured_ints q = (case int_at ''capture_sequence'' (qe_capture q) of None \<Rightarrow> [] | Some n \<Rightarrow> [n]) @
     (case qe_body q of EvidenceV2 _ \<Rightarrow> [] | DecisionV2 p \<Rightarrow> payload_ints (DecisionRecorded p))"

lemma captured_start:
  assumes "capture_reachable fl C" "qe_event_id q \<notin> event_ids (cl_base C)" "account_at (cl_base C) (qe_account_ref q) \<noteq> None"
    "fits_int64 (lg_seq (cl_base C) + 1)"
  obtains L where "insert_event (capture_event_row q) (cl_base C) = Inr L" "commit L = Inr L" "fits_int64 (lg_seq L)"
    "event_ids L = insert (qe_event_id q) (event_ids (cl_base C))" "lg_artifacts L = lg_artifacts (cl_base C)"
    "qe_account_ref q \<in> a_account_ref ` set (lg_accounts L)"
proof -
  have a: "qe_account_ref q \<in> a_account_ref ` set (lg_accounts (cl_base C))"
    using assms(3) by (auto simp: account_at_def intro!: rev_image_eqI dest!: find_Some_in)
  let ?L = "(cl_base C)\<lparr>lg_seq := lg_seq (cl_base C) + 1,
    lg_events := lg_events (cl_base C) @ [(capture_event_row q)\<lparr>e_seq := lg_seq (cl_base C) + 1\<rparr>]\<rparr>"
  have i: "insert_event (capture_event_row q) (cl_base C) = Inr ?L"
    using assms(2,4) a by (simp add: insert_event_def capture_event_row_def event_ids_def)
  have "commit ?L = Inr ?L"
    using capture_first_seen [OF assms(1)] by (auto simp: commit_Inr event_ids_def)
  then show ?thesis using a assms(4)
    by (intro that [OF i]) (auto simp: event_ids_def capture_event_row_def)
qed

lemma capture_row_written:
  assumes "stored_capture (capture_row_of q f) C = Inr known" "0 < cf_sequence f" "fits_int64 (cf_sequence f)"
    "qe_account_ref q \<in> a_account_ref ` set (lg_accounts L)" "qe_event_id q \<in> event_ids L"
  shows "(if known = None then lift_db (insert_capture_context (capture_row_of q f) (C\<lparr>cl_base := L\<rparr>)) else Inr (C\<lparr>cl_base := L\<rparr>)) =
      Inr (C\<lparr>cl_base := L, cl_captures := cl_captures C @ (if known = None then [capture_row_of q f] else [])\<rparr>)"
    "qe_capture_hash q \<in> cc_hash ` set (cl_captures C @ (if known = None then [capture_row_of q f] else []))"
proof -
  show "(if known = None then lift_db (insert_capture_context (capture_row_of q f) (C\<lparr>cl_base := L\<rparr>)) else Inr (C\<lparr>cl_base := L\<rparr>)) =
      Inr (C\<lparr>cl_base := L, cl_captures := cl_captures C @ (if known = None then [capture_row_of q f] else [])\<rparr>)"
  proof (cases known)
    case None
    note fresh = new_capture_fresh [OF assms(1) [unfolded None]]
    have "cc_hash (capture_row_of q f) \<notin> cc_hash ` set (cl_captures C)" using fresh(1) by force
    moreover have "cc_unit (capture_row_of q f) \<notin> cc_unit ` set (cl_captures C)" using fresh(2) by force
    moreover have "(cc_account (capture_row_of q f), cc_sequence (capture_row_of q f)) \<notin>
        (\<lambda>x. (cc_account x, cc_sequence x)) ` set (cl_captures C)" using fresh(3) by force
    ultimately have "insert_capture_context (capture_row_of q f) (C\<lparr>cl_base := L\<rparr>) =
        Inr (C\<lparr>cl_base := L, cl_captures := cl_captures C @ [capture_row_of q f]\<rparr>)"
      using assms(2-5) by (simp add: insert_capture_context_def capture_row_of_def event_ids_def)
    then show ?thesis by (simp add: None)
  qed simp
  obtain c where c: "capture_at (C\<lparr>cl_captures := cl_captures C @ (if known = None then [capture_row_of q f] else [])\<rparr>) (qe_capture_hash q) = Some c"
    using stored_capture_found [OF assms(1), of "C\<lparr>cl_captures := cl_captures C @ (if known = None then [capture_row_of q f] else [])\<rparr>"]
    by (auto simp: capture_row_of_def)
  show "qe_capture_hash q \<in> cc_hash ` set (cl_captures C @ (if known = None then [capture_row_of q f] else []))"
    using find_Some_in [OF c [unfolded capture_at_def]] by force
qed

lemma row_versions:
  assumes "all_some (map (evidence_v2_row q) items) = Some rows"
  shows "map (\<lambda>r. Some (v_version_id (ev_row r))) rows = map (str_at ''evidence_version_id'') items"
  using assms
proof (induction items arbitrary: rows)
  case (Cons it items)
  then obtain r rs where "evidence_v2_row q it = Some r" "all_some (map (evidence_v2_row q) items) = Some rs" "rows = r # rs"
    by (auto simp: bind_eq_Some_conv)
  then show ?case using Cons.IH evidence_v2_row_fields(1) by simp
qed simp

lemma evidence_rows_written:
  assumes q: "valid_capture_event fl q" "qe_body q = EvidenceV2 items"
    and fresh: "list_all (minted_afresh C (qe_account_ref q) (qe_capture q)) items" and C1: "cl_evidence C1 = cl_evidence C"
      "qe_account_ref q \<in> a_account_ref ` set (lg_accounts (cl_base C1))" "qe_event_id q \<in> event_ids (cl_base C1)"
      "qe_capture_hash q \<in> cc_hash ` set (cl_captures C1)"
  obtains rows where "all_some (map (evidence_v2_row q) items) = Some rows"
    "insert_many insert_evidence_v2 rows C1 = Inr (C1\<lparr>cl_evidence := cl_evidence C1 @ rows\<rparr>)"
proof -
  let ?cap = "qe_capture q" and ?acct = "qe_account_ref q"
  have items: "distinct (map (str_at ''evidence_version_id'') items)" "\<forall>it\<in>set items. clean fl it \<and> plain it \<and> captured_item_fields it"
    using q by (simp_all add: valid_capture_event_def)
  obtain u where e: "clean fl ?cap" "validate_capture fl ?cap (qe_capture_hash q) = Inr u"
    "check_wire_evidence (dump_capture_event q) (JStr ?acct) (dump_capture_payload q) ?cap = Some ()"
    using q(2) by (auto intro: valid_capture_event_facts [OF q(1)])
  have "member ''items'' (dump_capture_payload q) = Some (JList items)" by (simp add: dump_capture_payload_def q(2))
  then obtain us where us: "all_some (map (check_wire_item (JStr ?acct) ?cap) items) = Some us"
    using e(3) by (auto simp: check_wire_evidence_def bind_eq_Some_conv split: if_splits)
  have "\<exists>r. evidence_v2_row q it = Some r" if it: "it \<in> set items" for it
  proof -
    have w: "check_wire_item (JStr ?acct) ?cap it = Some ()" using all_some_out [OF us it] by fastforce
    have f: "clean fl it" "plain it" "captured_item_fields it" using items(2) it by blast+
    show ?thesis by (rule evidence_row_exists [OF e(1,2) w f]) blast
  qed
  then have "\<exists>rows. all_some (map (evidence_v2_row q) items) = Some rows"
    using all_some_Some [of items "evidence_v2_row q" "\<lambda>it. the (evidence_v2_row q it)"] by fastforce
  then obtain rows where rows: "all_some (map (evidence_v2_row q) items) = Some rows" ..
  have "distinct (map (\<lambda>r. Some (v_version_id (ev_row r))) rows)" unfolding row_versions [OF rows] by (rule items(1))
  then have d: "distinct (map (v_version_id \<circ> ev_row) rows)" by (simp add: distinct_map inj_on_def)
  have row: "v_version_id (ev_row r) \<notin> (v_version_id \<circ> ev_row) ` set (cl_evidence C1)" "v_account_ref (ev_row r) = ?acct"
    "v_source_event (ev_row r) = qe_event_id q" "ev_capture r = qe_capture_hash q"
    "case v_supersedes (ev_row r) of None \<Rightarrow> True | Some s \<Rightarrow> s \<in> (v_version_id \<circ> ev_row) ` set (cl_evidence C1)"
    if "r \<in> set rows" for r
  proof -
    obtain it where it: "it \<in> set items" "evidence_v2_row q it = Some r" using all_some_in [OF rows \<open>r \<in> set rows\<close>] by blast
    note f = evidence_v2_row_fields [OF it(2)]
    show "v_account_ref (ev_row r) = ?acct" "v_source_event (ev_row r) = qe_event_id q" "ev_capture r = qe_capture_hash q"
      by (fact f)+
    have m: "minted_afresh C ?acct ?cap it" using fresh it(1) by (simp add: list_all_iff)
    then show "v_version_id (ev_row r) \<notin> (v_version_id \<circ> ev_row) ` set (cl_evidence C1)"
      using f(1) by (auto simp: minted_afresh_def evidence_v2_at_def find_None_iff C1(1) split: option.splits)
    have "v_supersedes (ev_row r) \<noteq> Some []" using items(2) it(1) f(5) by (auto simp: captured_item_fields_def)
    then show "case v_supersedes (ev_row r) of None \<Rightarrow> True | Some s \<Rightarrow> s \<in> (v_version_id \<circ> ev_row) ` set (cl_evidence C1)"
      using m f(1,5) by (auto simp: minted_afresh_def supersession_allowed_def evidence_v2_at_def C1(1)
          split: option.splits dest: find_Some_in intro!: rev_image_eqI)
  qed
  have "insert_many insert_evidence_v2 rows C1 = Inr (C1\<lparr>cl_evidence := cl_evidence C1 @ rows\<rparr>)"
  proof (rule insert_many_succeeds [where upd = "\<lambda>rs M. M\<lparr>cl_evidence := cl_evidence M @ rs\<rparr>" and M = C1])
    fix pre r post assume s: "rows = pre @ r # post"
    then have r: "r \<in> set rows" by simp
    have "v_version_id (ev_row r) \<notin> (v_version_id \<circ> ev_row) ` set pre" using d unfolding s by auto
    then show "insert_evidence_v2 r (C1\<lparr>cl_evidence := cl_evidence C1 @ pre\<rparr>) = Inr (C1\<lparr>cl_evidence := cl_evidence C1 @ (pre @ [r])\<rparr>)"
      using row [OF r] C1(2-4) by (auto simp: insert_evidence_v2_def foreign_opt_def event_ids_def split: option.splits)
  qed simp
  then show ?thesis by (rule that [OF rows])
qed

lemma decision_rows_written:
  assumes q: "valid_capture_event fl q" "qe_body q = DecisionV2 p" "capture_facts (qe_capture q) = Some f"
    and v: "validate_captured_decision fl q f p C = None" and inv: "capture_invariant fl C" "qe_event_id q \<notin> event_ids (cl_base C)"
    and fits: "list_all fits_int64 (payload_ints (DecisionRecorded p))" "fits_int64 s"
    and C1: "cl_evidence C1 = cl_evidence C" "cl_decisions C1 = cl_decisions C" "cl_context C1 = cl_context C"
      "cl_consumed C1 = cl_consumed C" "lg_artifacts (cl_base C1) = lg_artifacts (cl_base C)"
      "qe_account_ref q \<in> a_account_ref ` set (lg_accounts (cl_base C1))" "qe_event_id q \<in> event_ids (cl_base C1)"
      "qe_capture_hash q \<in> cc_hash ` set (cl_captures C1)"
  shows "\<exists>C2 C3 C4. insert_decision_v2 (decision_v2_row q f p s) C1 = Inr C2 \<and>
    insert_many insert_context_v2 (map (context_row_of (qe_event_id q)) (de_context p)) C2 = Inr C3 \<and>
    insert_many insert_consumed_v2 (map (consumed_row_of (qe_event_id q)) (de_consumed p)) C3 = Inr C4 \<and> cl_base C4 = cl_base C1"
proof -
  let ?d = "decision_v2_row q f p s" and ?V = "(v_version_id \<circ> ev_row) ` set (cl_evidence C)"
  let ?hs = "map (context_row_of (qe_event_id q)) (de_context p)" and ?us = "map (consumed_row_of (qe_event_id q)) (de_consumed p)"
  let ?C2 = "C1\<lparr>cl_decisions := cl_decisions C1 @ [?d]\<rparr>"
  let ?C3 = "?C2\<lparr>cl_context := cl_context ?C2 @ ?hs\<rparr>"
  have "valid_envelope (inherited_envelope q p)" using q by (simp add: valid_capture_event_def)
  then have "payload_validators (DecisionRecorded p) = None" by (simp add: valid_envelope_iff inherited_envelope_def envelope_fields_def)
  note dv = decision_validated [OF this]
  obtain expected res where ctx: "decision_of_unit C (cf_unit_id f) = None" "lineage C (qe_account_ref q) f"
    "verify_context fl C (qe_account_ref q) (qe_capture q) (map dump_context_entry (de_context p)) = Some expected"
    "evaluate_captured C p (qe_capture q) (cf_boundary f) expected = Inr res"
    using v by (auto simp: validate_captured_decision_def split: if_splits option.splits sum.splits)
  have versions: "ce_evidence e = Some k \<Longrightarrow> k \<in> ?V" if "e \<in> set (de_context p)" for e k
    using verified_versions [OF ctx(3) that] .
  have used: "ci_evidence c \<in> ?V" if "c \<in> set (de_consumed p)" for c using dv(4) that versions by (metis (no_types))
  have art: "ar_artifact_hash (de_artifact p) \<in> l_hash ` set (lg_artifacts (cl_base C1))"
  proof -
    let ?h = "ar_artifact_hash (de_artifact p)"
    obtain vf where "verify_artifact_row (load_artifact_row (cl_base C) ?h) ?h None = Inr vf"
      by (rule evaluate_captured_Inr [OF ctx(4)])
    then obtain l where "load_artifact_row (cl_base C) ?h = Some l" by (auto simp: verify_artifact_row_Inr)
    then have "l \<in> set (lg_artifacts (cl_base C1))" "l_hash l = ?h"
      using find_Some_in by (fastforce simp: load_artifact_row_def C1(5))+
    then show ?thesis by (metis imageI)
  qed
  have unit: "cf_unit_id f \<notin> dv_unit ` set (cl_decisions C)"
    using ctx(1) by (auto simp: decision_of_unit_def find_None_iff)
  have pred: "case cf_reprocesses f of None \<Rightarrow> True | Some u \<Rightarrow> u \<in> dv_unit ` set (cl_decisions C)"
    using ctx(2) find_Some_in [where xs = "cl_decisions C"] by (fastforce simp: lineage_iff decision_of_unit_def split: option.splits)
  have fresh: "qe_event_id q \<notin> (d_event_id \<circ> dv_row) ` set (cl_decisions C)" "qe_event_id q \<notin> h_decision ` set (cl_context C)"
    "qe_event_id q \<notin> u_decision ` set (cl_consumed C)"
    using inv by (auto simp: capture_invariant_def)
  have ints: "fits_int64 (dr_score (de_result p))" "fits_int64 (dr_threshold (de_result p))" using fits(1) by simp_all
  have "insert_decision_v2 ?d C1 = Inr ?C2"
    using ints fits(2) art unit pred fresh(1) C1(2,6-8)
    by (auto simp: insert_decision_v2_def decision_v2_row_fields decision_v2_row_def decision_row_of_def inherited_envelope_def
        foreign_opt_def event_ids_def split: option.splits)
  moreover have "insert_many insert_context_v2 ?hs ?C2 = Inr ?C3"
  proof (rule insert_many_succeeds [where upd = "\<lambda>rs M. M\<lparr>cl_context := cl_context M @ rs\<rparr>" and M = ?C2])
    fix pre r post assume s: "?hs = pre @ r # post"
    have "r \<in> set ?hs" by (simp only: s set_append) simp
    then obtain x where x: "x \<in> set (de_context p)" "r = context_row_of (qe_event_id q) x" by auto
    have "distinct (map h_input_key ?hs)" using dv(1) by (simp add: comp_def context_row_of_def)
    then have n: "h_input_key r \<notin> h_input_key ` set pre" unfolding s by auto
    have r: "h_decision r = qe_event_id q" "h_evidence r = ce_evidence x" by (simp_all add: x(2) context_row_of_def)
    have "(h_decision r, h_input_key r) \<notin> (\<lambda>x. (h_decision x, h_input_key x)) ` (set (cl_context C) \<union> set pre)"
      using n fresh(2) by (auto simp: r(1))
    moreover have "h_decision r \<in> (d_event_id \<circ> dv_row) ` set (cl_decisions ?C2)" by (simp add: r(1) decision_v2_row_fields)
    ultimately show "insert_context_v2 r (?C2\<lparr>cl_context := cl_context ?C2 @ pre\<rparr>) = Inr (?C2\<lparr>cl_context := cl_context ?C2 @ (pre @ [r])\<rparr>)"
      using versions [OF x(1)] C1(1,3) by (auto simp: insert_context_v2_def r(2) foreign_opt_def image_Un split: option.splits)
  qed simp
  moreover have "insert_many insert_consumed_v2 ?us ?C3 = Inr (?C3\<lparr>cl_consumed := cl_consumed ?C3 @ ?us\<rparr>)"
  proof (rule insert_many_succeeds [where upd = "\<lambda>rs M. M\<lparr>cl_consumed := cl_consumed M @ rs\<rparr>" and M = ?C3])
    fix pre r post assume s: "?us = pre @ r # post"
    have "r \<in> set ?us" by (simp only: s set_append) simp
    then obtain c where c: "c \<in> set (de_consumed p)" "r = consumed_row_of (qe_event_id q) c" by auto
    have "distinct (map u_input_key ?us)" using dv(2) by (simp add: comp_def consumed_row_of_def)
    then have n: "u_input_key r \<notin> u_input_key ` set pre" unfolding s by auto
    have r: "u_decision r = qe_event_id q" "u_evidence r \<in> ?V" "fits_int64 (u_contribution r)"
      using used [OF c(1)] fits(1) c(1) by (auto simp: c(2) consumed_row_of_def list_all_iff)
    have "(u_decision r, u_input_key r) \<notin> (\<lambda>x. (u_decision x, u_input_key x)) ` (set (cl_consumed C) \<union> set pre)"
      using n fresh(3) by (auto simp: r(1))
    moreover have "u_decision r \<in> (d_event_id \<circ> dv_row) ` set (cl_decisions ?C3)" by (simp add: r(1) decision_v2_row_fields)
    ultimately show "insert_consumed_v2 r (?C3\<lparr>cl_consumed := cl_consumed ?C3 @ pre\<rparr>) = Inr (?C3\<lparr>cl_consumed := cl_consumed ?C3 @ (pre @ [r])\<rparr>)"
      using r(2,3) C1(1,4) by (auto simp: insert_consumed_v2_def image_Un)
  qed simp
  ultimately show ?thesis by fastforce
qed

lemma write_captured_total:
  assumes r: "capture_reachable fl C" and q: "valid_capture_event fl q" and n: "qe_event_id q \<notin> event_ids (cl_base C)"
    and a: "account_at (cl_base C) (qe_account_ref q) \<noteq> None" and v: "validate_v2 fl q C = None"
    and i: "list_all fits_int64 (captured_ints q)" "fits_int64 (lg_seq (cl_base C) + 1)"
  obtains C' where "write_captured q C = Inr C'"
proof -
  obtain L where L: "insert_event (capture_event_row q) (cl_base C) = Inr L" "commit L = Inr L" "fits_int64 (lg_seq L)"
    "event_ids L = insert (qe_event_id q) (event_ids (cl_base C))" "lg_artifacts L = lg_artifacts (cl_base C)"
    "qe_account_ref q \<in> a_account_ref ` set (lg_accounts L)" by (rule captured_start [OF r n a i(2)])
  obtain f known where f: "capture_facts (qe_capture q) = Some f" "stored_capture (capture_row_of q f) C = Inr known"
    using v by (auto simp: validate_v2_def split: option.splits sum.splits)
  obtain u where "validate_capture fl (qe_capture q) (qe_capture_hash q) = Inr u" by (rule valid_capture_event_facts [OF q])
  then have "positive_at ''capture_sequence'' (qe_capture q)" by (auto simp: validate_capture_def split: if_splits)
  then have m: "0 < cf_sequence f" "fits_int64 (cf_sequence f)"
    using f(1) i(1) by (auto simp: positive_at_def capture_facts_def captured_ints_def bind_eq_Some_conv)
  let ?C1 = "C\<lparr>cl_base := L, cl_captures := cl_captures C @ (if known = None then [capture_row_of q f] else [])\<rparr>"
  have e: "qe_event_id q \<in> event_ids L" by (simp add: L(4))
  note w = capture_row_written [OF f(2) m L(6) e]
  have s: "stored_capture (capture_row_of q f) (C\<lparr>cl_base := L\<rparr>) = Inr known" using f(2) by (simp add: stored_capture_def)
  have "\<exists>C'. project_v2 q f (lg_seq L) (C\<lparr>cl_base := L\<rparr>) = Inr C' \<and> cl_base C' = L"
  proof (cases "qe_body q")
    case (EvidenceV2 items)
    then have "list_all (minted_afresh C (qe_account_ref q) (qe_capture q)) items"
      using v f by (simp add: validate_v2_def split: if_splits)
    then obtain rows where "all_some (map (evidence_v2_row q) items) = Some rows"
      "insert_many insert_evidence_v2 rows ?C1 = Inr (?C1\<lparr>cl_evidence := cl_evidence ?C1 @ rows\<rparr>)"
      by (rule evidence_rows_written [OF q EvidenceV2, where C = C and ?C1.0 = ?C1]) (use L(6) e w(2) in simp_all)
    then show ?thesis by (simp add: project_v2_def s w(1) EvidenceV2)
  next
    case (DecisionV2 p)
    then have "validate_captured_decision fl q f p C = None" using v f by (simp add: validate_v2_def)
    then obtain C2 C3 C4 where "insert_decision_v2 (decision_v2_row q f p (lg_seq L)) ?C1 = Inr C2"
      "insert_many insert_context_v2 (map (context_row_of (qe_event_id q)) (de_context p)) C2 = Inr C3"
      "insert_many insert_consumed_v2 (map (consumed_row_of (qe_event_id q)) (de_consumed p)) C3 = Inr C4" "cl_base C4 = cl_base ?C1"
      using decision_rows_written [OF q DecisionV2 f(1) _ reachable_capture_invariant [OF r] n, where ?C1.0 = ?C1] i(1) L(3,5,6) e w(2)
      by (fastforce simp: captured_ints_def DecisionV2)
    then show ?thesis by (simp add: project_v2_def s w(1) DecisionV2)
  qed
  then obtain C' where "project_v2 q f (lg_seq L) (C\<lparr>cl_base := L\<rparr>) = Inr C'" "cl_base C' = L" by blast
  then have "write_captured q C = Inr C'" by (simp add: write_captured_def L(1,2) f(1))
  then show ?thesis by (rule that)
qed

lemma captured_admitted:
  assumes "capture_reachable fl C" "valid_capture_event fl q" "jnorm (qe_capture q) = qe_capture q"
    "qe_event_id q \<notin> event_ids (cl_base C)" "account_at (cl_base C) (qe_account_ref q) \<noteq> None" "validate_v2 fl q C = None"
    "list_all fits_int64 (captured_ints q)" "fits_int64 (lg_seq (cl_base C) + 1)"
  obtains C' where "write_captured q C = Inr C'" "capture_reachable fl C'"
    "ingest_any fl (Captured q) C = Inr (\<lparr>ir_status = Created, ir_event_id = qe_event_id q, ir_hash = capture_event_hash q\<rparr>, C')"
proof -
  obtain C' where w: "write_captured q C = Inr C'" by (rule write_captured_total [OF assms(1,2,4-8)])
  have i: "ingest_any fl (Captured q) C = Inr (\<lparr>ir_status = Created, ir_event_id = qe_event_id q, ir_hash = capture_event_hash q\<rparr>, C')"
    using assms(4-6) w by (auto simp: ingest_captured_def Let_def event_at_None [THEN iffD2])
  have "capture_reachable fl C'" by (rule capture_reachable.step [OF assms(1) _ _ i]) (use assms(2,3) in simp_all)
  then show ?thesis by (rule that [OF w _ i])
qed

text \<open>A decision whose registered logic has a window of more than 999999999 days.\<close>

definition decides_on_overflow :: "capture_event \<Rightarrow> capture_ledger \<Rightarrow> bool" where
  "decides_on_overflow q C \<longleftrightarrow>
     (\<exists>p a. \<exists>row\<in>set (lg_artifacts (cl_base C)). qe_body q = DecisionV2 p \<and> l_hash row = ar_artifact_hash (de_artifact p) \<and>
        verified_row row a \<and> window_overflows a)"

lemma refusal_status: "error_status (evaluation_refusal e) \<in> {409, 422} \<or> e = RuleFailed PyOverflow"
  by (cases e rule: evaluation_refusal.cases) (simp_all add: invalid_provenance_def)

lemma opt_to_sum_Inl: "opt_to_sum e x = Inl err \<longleftrightarrow> x = None \<and> err = e"
  by (cases x) auto

lemma evaluate_captured_Inl:
  assumes "evaluate_captured C p cap (format_utc t) ctx = Inl err" "valid_utc t"
  shows "error_status err \<in> {409, 422} \<or> err = Uncaught ''OverflowError'' \<and>
    (\<exists>row\<in>set (lg_artifacts (cl_base C)). \<exists>a. l_hash row = ar_artifact_hash (de_artifact p) \<and> verified_row row a \<and> window_overflows a)"
proof (rule disjCI)
  let ?h = "ar_artifact_hash (de_artifact p)"
  assume n: "\<not> (err = Uncaught ''OverflowError'' \<and>
    (\<exists>row\<in>set (lg_artifacts (cl_base C)). \<exists>a. l_hash row = ?h \<and> verified_row row a \<and> window_overflows a))"
  show "error_status err \<in> {409, 422}"
  proof (rule ccontr)
    assume e: "error_status err \<notin> {409, 422}"
    then have inv: "err \<noteq> invalid_provenance" by (auto simp: invalid_provenance_def)
    obtain vf where vf: "verify_artifact_row (load_artifact_row (cl_base C) ?h) ?h None = Inr vf"
      using assms(1) inv unfolding evaluate_captured_def Let_def by (auto split: sum.splits)
    obtain inputs where i: "all_some (map (captured_input C) ctx) = Some inputs"
      using assms(1) inv vf unfolding evaluate_captured_def Let_def
      by (cases "all_some (map (captured_input C) ctx)") (simp_all split: if_splits)
    obtain x where x: "evaluate (vf_artifact vf) inputs (Aware t 0) = Inl x" "err = evaluation_refusal x"
      using assms(1) inv vf i unfolding evaluate_captured_def Let_def parse_datetime_format [OF assms(2)]
      by (cases "evaluate (vf_artifact vf) inputs (Aware t 0)")
        (auto simp: bindE_eq_Inl opt_to_sum_Inl simp del: typed_equal.simps split: if_splits)
    note v = vf x
    have "x = RuleFailed PyOverflow" using refusal_status [of x] e x(2) by simp
    then have "window_overflows (vf_artifact vf)" "err = Uncaught ''OverflowError''" using evaluate_overflows v(2,3) by simp_all
    moreover obtain row where "load_artifact_row (cl_base C) ?h = Some row" "verified_row row (vf_artifact vf)"
      using v(1) unfolding verify_artifact_row_Inr by blast
    ultimately show False using n find_Some_in unfolding load_artifact_row_def by fastforce
  qed
qed

lemma validate_v2_answers:
  assumes "validate_v2 fl q C = Some err" "valid_capture_event fl q"
  shows "error_status err \<in> {409, 422} \<or> err = Uncaught ''OverflowError'' \<and> decides_on_overflow q C"
proof (cases "\<exists>f p ctx. capture_facts (qe_capture q) = Some f \<and> qe_body q = DecisionV2 p \<and>
    evaluate_captured C p (qe_capture q) (cf_boundary f) ctx = Inl err")
  case True
  then obtain f p ctx where p: "capture_facts (qe_capture q) = Some f" "qe_body q = DecisionV2 p"
    "evaluate_captured C p (qe_capture q) (cf_boundary f) ctx = Inl err" by blast
  have w: "check_wire_decision (dump_capture_event q) (dump_capture_payload q) (qe_capture q) = Some ()"
    using p(2) by (auto intro: valid_capture_event_facts [OF assms(2)])
  have "valid_utc (de_boundary p)"
    using assms(2) p(2)
    by (simp add: valid_capture_event_def valid_envelope_iff inherited_envelope_def envelope_fields_def decision_fields_def)
  then show ?thesis
    using evaluate_captured_Inl [OF p(3) [unfolded decision_wire(1) [OF w p(2,1)]]] p(2) unfolding decides_on_overflow_def by blast
next
  case False
  then show ?thesis using assms(1)
    by (auto simp: validate_v2_def validate_captured_decision_def stored_capture_def invalid_provenance_def Let_def
        split: option.splits sum.splits if_splits capture_body.splits)
qed


end
