(* ===== verification/Capture_Example.thy ===== *)
theory Capture_Example
  imports Capture_Admission
begin

text \<open>
  The capture of \<open>Hubspot_Example\<close> sent through the collector: its account, the artifact it was bound to, the evidence
  it mints and the decision computed from it.  Digests stay symbolic.
\<close>

subsection \<open>The capture\<close>

definition demo_cap :: json where
  "demo_cap = with_sequence 1 (jnorm demo_document)"

definition demo_hash :: string where
  "demo_hash = canonical_hash demo_cap"

definition demo_acct :: string where
  "demo_acct = ''fr-account-v2-'' @ canonical_hash (JList [JInt 11, JInt 42])"

definition demo_facts :: captured_facts where
  "demo_facts = \<lparr>cf_unit_id = unit_id demo_unit, cf_sequence = 1, cf_logical_key = logical_key (pu_notification demo_unit),
     cf_processing_version = processing_version demo_unit, cf_reprocesses = None,
     cf_rule_hash = canonical_hash (dump_artifact demo_artifact), cf_evaluator_version = EVALUATOR_VERSION,
     cf_boundary = format_utc (iv_boundary demo_interval)\<rparr>"

lemma demo_cap_member:
  assumes "k \<noteq> ''capture_sequence''"
  shows "member k demo_cap = map_option jnorm (member k demo_document)"
  using assms by (simp add: demo_cap_def member_with_sequence clean_member_jnorm [OF demo_document_clean])

lemma demo_cap_facts: "capture_facts demo_cap = Some demo_facts"
proof -
  obtain kvs where kvs: "jnorm demo_document = JObj kvs" by (simp add: demo_document_def capture_document_def Let_def jnorm_object del: jnorm.simps)
  have n: "member ''capture_sequence'' demo_cap = Some (JInt 1)" by (simp add: demo_cap_def kvs with_sequence_def map_of_dict_set)
  have "str_at ''unit_id'' demo_cap = Some (unit_id demo_unit)" "str_at ''logical_key'' demo_cap = Some (logical_key (pu_notification demo_unit))"
    "str_at ''processing_version'' demo_cap = Some (processing_version demo_unit)" "optional_text (member ''reprocesses'' demo_cap) = Some None"
    "str_at ''rule_hash'' demo_cap = Some (canonical_hash (dump_artifact demo_artifact))"
    "str_at ''evaluator_version'' demo_cap = Some EVALUATOR_VERSION"
    "str_at ''capture_boundary'' demo_cap = Some (format_utc (iv_boundary demo_interval))"
    by (simp_all add: str_at_def demo_cap_member demo_document_def capture_document_def Let_def demo_rule_def demo_unit_def jstr_opt_def optional_text_def)
  moreover have "int_at ''capture_sequence'' demo_cap = Some 1" by (simp add: int_at_def n)
  ultimately show ?thesis by (simp add: capture_facts_def demo_facts_def)
qed

lemma demo_cap_canonical: "jnorm demo_cap = demo_cap"
proof -
  obtain kvs where kvs: "jnorm demo_document = JObj kvs" by (simp add: demo_document_def capture_document_def Let_def jnorm_object del: jnorm.simps)
  have "member ''capture_sequence'' (jnorm demo_document) = Some JNull"
    by (simp add: clean_member_jnorm [OF demo_document_clean]) (simp add: demo_document_def capture_document_def Let_def)
  then have "map_of kvs ''capture_sequence'' = Some JNull" by (simp add: kvs)
  then show ?thesis unfolding demo_cap_def by (rule sequenced(2) [OF demo_document_clean _ kvs])
qed

lemma demo_cap_valid:
  "clean demo_fl demo_cap" "\<exists>u. validate_capture demo_fl demo_cap demo_hash = Inr u" "available_keys demo_cap = Some [''employee_count'']"
  "account_identity demo_cap = Some demo_acct" "str_at ''read_finished_at'' demo_cap = Some (format_utc (iv_finished demo_interval))"
proof -
  obtain u where "clean demo_fl demo_cap" "validate_capture demo_fl demo_cap demo_hash = Inr u"
    using demo_validated unfolding demo_cap_def [symmetric] demo_hash_def [symmetric] by blast
  then show "clean demo_fl demo_cap" "\<exists>u. validate_capture demo_fl demo_cap demo_hash = Inr u" by blast+
  show "available_keys demo_cap = Some [''employee_count'']" unfolding demo_cap_def by (rule demo_available)
  show "account_identity demo_cap = Some demo_acct" unfolding demo_cap_def demo_acct_def by (rule demo_account)
  show "str_at ''read_finished_at'' demo_cap = Some (format_utc (iv_finished demo_interval))"
    by (simp add: str_at_def demo_cap_member demo_document_def document_texts)
qed

lemma demo_cap_input:
  "input_of demo_cap ''employee_count'' ''state'' = Some (JStr ''consumed'')" "input_of demo_cap ''employee_count'' ''value'' = Some (JInt 250)"
  "\<forall>k\<in>{''industry'', ''headquarters_country''}. input_of demo_cap k ''state'' = Some (JStr ''unavailable'')"
  "\<forall>k\<in>{''funding_event'', ''open_platform_engineering_roles'', ''head_of_platform_start_date'', ''verified_integration_pressure''}.
     input_of demo_cap k ''state'' = Some (JStr ''absent'')"
proof -
  have i: "member ''inputs'' demo_cap = Some (jnorm (inputs_json demo_states [Ignored (JFloat ''1.5'')]))"
    unfolding demo_cap_def by (rule demo_inputs)
  have "Option.bind (member ''employee_count'' (jnorm (inputs_json demo_states [Ignored (JFloat ''1.5'')]))) (member ''state'') = Some (JStr ''consumed'')"
    "Option.bind (member ''employee_count'' (jnorm (inputs_json demo_states [Ignored (JFloat ''1.5'')]))) (member ''value'') = Some (JInt 250)"
    "list_all (\<lambda>k. Option.bind (member k (jnorm (inputs_json demo_states [Ignored (JFloat ''1.5'')]))) (member ''state'') = Some (JStr ''unavailable''))
       [''industry'', ''headquarters_country'']"
    "list_all (\<lambda>k. Option.bind (member k (jnorm (inputs_json demo_states [Ignored (JFloat ''1.5'')]))) (member ''state'') = Some (JStr ''absent''))
       [''funding_event'', ''open_platform_engineering_roles'', ''head_of_platform_start_date'', ''verified_integration_pressure'']"
    by code_simp+
  then show "input_of demo_cap ''employee_count'' ''state'' = Some (JStr ''consumed'')" "input_of demo_cap ''employee_count'' ''value'' = Some (JInt 250)"
    "\<forall>k\<in>{''industry'', ''headquarters_country''}. input_of demo_cap k ''state'' = Some (JStr ''unavailable'')"
    "\<forall>k\<in>{''funding_event'', ''open_platform_engineering_roles'', ''head_of_platform_start_date'', ''verified_integration_pressure''}.
       input_of demo_cap k ''state'' = Some (JStr ''absent'')"
    by (simp_all add: input_of_def i del: jnorm.simps)
qed

text \<open>The identifiers a submission of the capture gives its events.\<close>

definition demo_evidence_id :: string where
  "demo_evidence_id = ''fr-submit-evidence-v1-'' @ unit_id demo_unit"

definition demo_decision_id :: string where
  "demo_decision_id = ''fr-submit-decision-v1-'' @ unit_id demo_unit"

lemma demo_event_ids [simp]:
  "demo_evidence_id \<noteq> []" "demo_evidence_id \<noteq> ''reg''" "demo_evidence_id \<noteq> ''disc''" "demo_decision_id \<noteq> []"
  "demo_decision_id \<noteq> ''reg''" "demo_decision_id \<noteq> ''disc''" "demo_decision_id \<noteq> demo_evidence_id" "demo_decision_id \<noteq> ''again''"
  "''reg'' \<noteq> demo_evidence_id" "''disc'' \<noteq> demo_evidence_id" "''reg'' \<noteq> demo_decision_id" "''disc'' \<noteq> demo_decision_id"
  by (simp_all add: demo_evidence_id_def demo_decision_id_def)

subsection \<open>The account and the artifact\<close>

definition demo_discovery :: envelope where
  "demo_discovery = run_discovery\<lparr>en_account_ref := demo_acct\<rparr>"

definition demo_capture_base :: ledger where
  "demo_capture_base = run1\<lparr>lg_seq := 2,
     lg_accounts := lg_accounts run1 @ [\<lparr>a_account_ref = demo_acct, a_name = ''Demo'', a_domain = ''demo.example'', a_first_seen = ''disc''\<rparr>],
     lg_events := lg_events run1 @ [(event_row_of demo_discovery)\<lparr>e_seq := 2\<rparr>]\<rparr>"

definition demo_start :: capture_ledger where
  "demo_start = empty_captures\<lparr>cl_base := demo_capture_base\<rparr>"

lemma demo_acct_text [simp]: "demo_acct \<noteq> []" "demo_acct \<noteq> SYSTEM_ACCOUNT_REF" "SYSTEM_ACCOUNT_REF \<noteq> demo_acct"
  by (simp_all add: demo_acct_def SYSTEM_ACCOUNT_REF_def)

lemma demo_start_posted:
  "valid_envelope demo_discovery"
  "ingest_any demo_fl (Legacy run_registration) empty_captures = Inr (created run_registration, empty_captures\<lparr>cl_base := run1\<rparr>)"
  "ingest_any demo_fl (Legacy demo_discovery) (empty_captures\<lparr>cl_base := run1\<rparr>) = Inr (created demo_discovery, demo_start)"
proof -
  show "valid_envelope demo_discovery"
    using run_valid(2) by (simp add: valid_envelope_iff envelope_fields_def demo_discovery_def run_discovery_def nonempty_def)
  have "ingest demo_discovery run1 = Inr (created demo_discovery, demo_capture_base)"
    by (rule ingest_created)
      (simp_all add: demo_discovery_def run_discovery_def account_at_def run1_def write_event_Inr insert_account_def
        insert_event_def commit_Inr event_row_of_def demo_capture_base_def event_ids_def empty_ledger_def run_registration_def)
  then show "ingest_any demo_fl (Legacy demo_discovery) (empty_captures\<lparr>cl_base := run1\<rparr>) = Inr (created demo_discovery, demo_start)"
    by (simp add: demo_start_def)
  show "ingest_any demo_fl (Legacy run_registration) empty_captures = Inr (created run_registration, empty_captures\<lparr>cl_base := run1\<rparr>)"
    using run_step1 by (simp add: empty_captures_def)
qed

lemma demo_start_reachable: "capture_reachable demo_fl demo_start"
  using capture_reachable.step [OF capture_reachable.step [OF capture_reachable.empty _ _ demo_start_posted(2)] _ _ demo_start_posted(3)]
    run_valid(1) demo_start_posted(1) by simp

subsection \<open>The evidence\<close>

definition demo_it :: "(string \<times> json) list" where
  "demo_it = [(''evidence_type'', JStr ''employee_count''), (''value'', JInt 250), (''supersedes_evidence_version_id'', JNull)]"

definition demo_version :: string where
  "demo_version = (case observation_body (JStr demo_acct) demo_cap demo_it of None \<Rightarrow> [] | Some b \<Rightarrow> ''fr-evidence-v2-'' @ canonical_hash b)"

definition demo_item :: "(string \<times> json) list" where
  "demo_item = demo_it @ [(''evidence_version_id'', JStr demo_version)]"

lemma demo_bound: "bound_item (JStr demo_acct) demo_cap ''employee_count'' JNull = Some demo_item" "demo_version \<noteq> []"
  "check_wire_item (JStr demo_acct) demo_cap (JObj demo_item) = Some ()"
proof -
  obtain u where u: "validate_capture demo_fl demo_cap demo_hash = Inr u" using demo_cap_valid(2) by blast
  have s: "semantic_item demo_cap ''employee_count'' JNull = Some demo_it" by (simp add: semantic_item_def demo_cap_input(2) demo_it_def Let_def)
  obtain bi where bi: "bound_item (JStr demo_acct) demo_cap ''employee_count'' JNull = Some bi"
    "check_wire_item (JStr demo_acct) demo_cap (JObj bi) = Some ()"
    by (rule bound_item_validates [OF demo_cap_valid(1) u demo_cap_valid(3), of "''employee_count''" JNull "JStr demo_acct"]) simp_all
  then obtain b where b: "observation_body (JStr demo_acct) demo_cap demo_it = Some b"
    "bi = dict_set ''evidence_version_id'' (JStr (''fr-evidence-v2-'' @ canonical_hash b)) demo_it"
    by (auto simp: bound_item_def s bind_eq_Some_conv)
  have v: "demo_version = ''fr-evidence-v2-'' @ canonical_hash b" by (simp add: demo_version_def b(1))
  then have "bi = demo_item" by (simp add: b(2) demo_item_def demo_it_def)
  then show "bound_item (JStr demo_acct) demo_cap ''employee_count'' JNull = Some demo_item" "demo_version \<noteq> []"
    "check_wire_item (JStr demo_acct) demo_cap (JObj demo_item) = Some ()"
    using bi by (simp_all add: v)
qed

definition demo_evidence :: capture_event where
  "demo_evidence = \<lparr>qe_event_id = demo_evidence_id, qe_account_ref = demo_acct, qe_occurred_at = iv_finished demo_interval,
     qe_recorded_at = iv_boundary demo_interval, qe_capture = demo_cap, qe_capture_hash = demo_hash,
     qe_body = EvidenceV2 [JObj demo_item]\<rparr>"

lemma demo_instants: "valid_utc (iv_finished demo_interval)" "valid_utc (iv_boundary demo_interval)"
  "iv_finished demo_interval \<le> iv_boundary demo_interval"
  by code_simp+

lemma demo_wire:
  assumes "qe_capture q = demo_cap" "qe_capture_hash q = demo_hash" "qe_account_ref q = demo_acct"
  shows "validate_wire demo_fl (dump_capture_event q) =
    (if capture_event_type q = ''evidence.recorded''
     then check_wire_evidence (dump_capture_event q) (JStr demo_acct) (dump_capture_payload q) demo_cap
     else check_wire_decision (dump_capture_event q) (dump_capture_payload q) demo_cap)"
  using demo_cap_valid(2,4) by (auto simp: validate_wire_def dump_members assms)

lemma demo_evidence_valid: "valid_capture_event demo_fl demo_evidence"
proof -
  have c: "check_wire_evidence (dump_capture_event demo_evidence) (JStr demo_acct) (dump_capture_payload demo_evidence) demo_cap = Some ()"
  proof -
    have "member ''read_finished_at'' demo_cap = Some (jtime (iv_finished demo_interval))"
      by (simp add: demo_cap_member demo_document_def document_texts jtime_def)
    moreover have "member ''items'' (dump_capture_payload demo_evidence) = Some (JList [JObj demo_item])"
      by (simp add: dump_capture_payload_def demo_evidence_def)
    moreover have "str_at ''evidence_type'' (JObj demo_item) = Some ''employee_count''" by (simp add: str_at_def demo_item_def demo_it_def)
    ultimately show ?thesis
      using demo_bound(3) unfolding check_wire_evidence_def dump_members by (simp add: demo_evidence_def)
  qed
  have "clean demo_fl (JObj demo_item)" "plain (JObj demo_item)" "captured_item_fields (JObj demo_item)"
    using demo_bound(2) by (simp_all add: demo_item_def demo_it_def captured_item_fields_def str_at_def optional_text_def)
  then show ?thesis
    using c demo_cap_valid(1) demo_instants
    by (simp add: valid_capture_event_def demo_wire demo_evidence_def capture_event_type_def nonempty_def del: valid_utc.simps clean_simps plain.simps)
qed

lemma demo_start_tables:
  "event_ids (cl_base demo_start) = {''reg'', ''disc''}" "account_at (cl_base demo_start) demo_acct \<noteq> None" "lg_seq (cl_base demo_start) = 2"
  "cl_captures demo_start = []" "cl_evidence demo_start = []" "cl_decisions demo_start = []" "cl_context demo_start = []" "cl_consumed demo_start = []"
  by (simp_all add: demo_start_def empty_captures_def demo_capture_base_def event_ids_def run1_def account_at_def event_row_of_def
      run_registration_def demo_discovery_def run_discovery_def empty_ledger_def)

lemma ingest_admitted:
  assumes "qe_event_id q \<notin> event_ids (cl_base C)" "account_at (cl_base C) (qe_account_ref q) \<noteq> None" "validate_v2 fl q C = None"
    "write_captured q C = Inr C'"
  shows "ingest_any fl (Captured q) C = Inr (\<lparr>ir_status = Created, ir_event_id = qe_event_id q, ir_hash = capture_event_hash q\<rparr>, C')"
  using assms by (simp add: ingest_captured_def event_at_None [symmetric])

lemma demo_minted:
  obtains C r where "capture_reachable demo_fl C" "event_ids (cl_base C) = {''reg'', ''disc'', demo_evidence_id}" "lg_seq (cl_base C) = 3"
    "account_at (cl_base C) demo_acct \<noteq> None" "lg_artifacts (cl_base C) = lg_artifacts run1" "cl_decisions C = []"
    "cl_captures C = [capture_row_of demo_evidence demo_facts]" "cl_evidence C = [r]" "evidence_v2_row demo_evidence (JObj demo_item) = Some r"
    "ingest_any demo_fl (Captured demo_evidence) demo_start =
       Inr (\<lparr>ir_status = Created, ir_event_id = demo_evidence_id, ir_hash = capture_event_hash demo_evidence\<rparr>, C)"
proof -
  have v: "validate_v2 demo_fl demo_evidence demo_start = None"
    using demo_cap_facts
    by (simp add: validate_v2_def demo_evidence_def stored_capture_def demo_start_tables minted_afresh_def demo_item_def demo_it_def str_at_def
        optional_text_def evidence_v2_at_def)
  have i: "list_all fits_int64 (captured_ints demo_evidence)"
    using demo_cap_facts by (auto simp: captured_ints_def demo_evidence_def capture_facts_def demo_facts_def bind_eq_Some_conv)
  obtain C where C: "write_captured demo_evidence demo_start = Inr C" "capture_reachable demo_fl C"
    by (rule captured_admitted [OF demo_start_reachable demo_evidence_valid _ _ _ v i])
      (use demo_cap_canonical in \<open>simp_all add: demo_evidence_def demo_start_tables fits_int64_def\<close>)
  obtain L f where t: "insert_event (capture_event_row demo_evidence) (cl_base demo_start) = Inr L" "cl_base C = L"
    "capture_facts demo_cap = Some f" "cl_captures C = cl_captures demo_start @ new_capture demo_evidence f demo_start"
    "\<exists>rows. all_some (map (evidence_v2_row demo_evidence) [JObj demo_item]) = Some rows \<and> cl_evidence C = cl_evidence demo_start @ rows \<and>
       cl_decisions C = cl_decisions demo_start"
    by (rule write_captured_tables [OF C(1)]) (auto simp: demo_evidence_def)
  obtain r where r: "evidence_v2_row demo_evidence (JObj demo_item) = Some r" "cl_evidence C = [r]"
    using t(5) by (auto simp: demo_start_tables bind_eq_Some_conv)
  have f: "f = demo_facts" using t(3) by (simp add: demo_cap_facts)
  have c: "cl_captures C = [capture_row_of demo_evidence demo_facts]"
    using t(4) by (simp add: f new_capture_def stored_capture_def demo_start_tables)
  have l: "lg_seq L = 3" using t(1) by (simp add: insert_event_def demo_start_tables)
  have i: "ingest_any demo_fl (Captured demo_evidence) demo_start =
      Inr (\<lparr>ir_status = Created, ir_event_id = demo_evidence_id, ir_hash = capture_event_hash demo_evidence\<rparr>, C)"
    using ingest_admitted [OF _ _ v C(1)] demo_start_tables(1,2) by (simp add: demo_evidence_def)
  show ?thesis
    using insert_event_L [OF t(1)] l c t(5) C(2) demo_start_tables
    by (intro that [OF C(2) _ _ _ _ _ c r(2,1) i])
      (auto simp: t(2) capture_event_row_def demo_evidence_def account_at_def demo_start_def demo_capture_base_def)
qed

subsection \<open>The decision\<close>

definition demo_entries :: "context_entry list" where
  "demo_entries =
     [\<lparr>ce_input_key = ''employee_count'', ce_value = JInt 250, ce_availability = ''available'', ce_evidence = Some demo_version\<rparr>,
      \<lparr>ce_input_key = ''headquarters_country'', ce_value = JNull, ce_availability = ''unavailable'', ce_evidence = None\<rparr>,
      \<lparr>ce_input_key = ''industry'', ce_value = JNull, ce_availability = ''unavailable'', ce_evidence = None\<rparr>]"

definition demo_decision_payload :: decision_recorded where
  "demo_decision_payload =
     \<lparr>de_decision_class = ''account_prioritization'', de_boundary = iv_boundary demo_interval,
      de_workflow_version = processing_version demo_unit, de_context = demo_entries,
      de_consumed = [\<lparr>ci_input_key = ''employee_count'', ci_value = JInt 250, ci_evidence = demo_version, ci_contribution = 25\<rparr>],
      de_artifact = \<lparr>ar_logic_version = ''v3.2'', ar_artifact_id = ''icp'',
        ar_artifact_hash = canonical_hash (dump_artifact demo_artifact), ar_evaluator_version = EVALUATOR_VERSION\<rparr>,
      de_result = \<lparr>dr_score = 25, dr_threshold = 75, dr_output = ''DO_NOT_PRIORITIZE''\<rparr>,
      de_explanation = None\<rparr>"

definition demo_decision :: capture_event where
  "demo_decision = \<lparr>qe_event_id = demo_decision_id, qe_account_ref = demo_acct, qe_occurred_at = iv_boundary demo_interval,
     qe_recorded_at = iv_boundary demo_interval, qe_capture = demo_cap, qe_capture_hash = demo_hash,
     qe_body = DecisionV2 demo_decision_payload\<rparr>"

lemma demo_processing_version: "processing_version demo_unit \<noteq> []"
proof -
  have "sha256_hex_string (processing_version demo_unit)" unfolding processing_version_def canonical_hash_def by (rule sha256_hex_shape)
  then show ?thesis by (auto simp: sha256_hex_string_def)
qed

lemma demo_decision_valid: "valid_capture_event demo_fl demo_decision"
proof -
  have "distinct [''employee_count'', ''headquarters_country'', ''industry'']" "iv_boundary demo_interval \<le> iv_boundary demo_interval"
    by simp_all
  then have e: "valid_envelope (inherited_envelope demo_decision demo_decision_payload)"
    using run_artifact_hash demo_instants demo_bound(2) demo_processing_version
    by (simp add: inherited_envelope_def valid_envelope_iff envelope_fields_def demo_decision_def demo_decision_payload_def demo_entries_def
        decision_fields_def context_entry_fields_def consumed_input_fields_def artifact_ref_fields_def result_fields_def nonempty_def
        nonempty_opt_def availability_is_coherent_def context_keys_are_unique_def consumed_keys_are_unique_def
        consumed_inputs_agree_with_context_def consumed_agrees_def same_scalar_eq SOURCE_CAPTURE_def EVALUATOR_VERSION_def
        del: first_failure.simps valid_utc.simps)
  have m: "member ''capture_boundary'' demo_cap = Some (jtime (iv_boundary demo_interval))"
    "member ''processing_version'' demo_cap = Some (JStr (processing_version demo_unit))"
    "member ''rule_hash'' demo_cap = Some (JStr (canonical_hash (dump_artifact demo_artifact)))"
    "member ''evaluator_version'' demo_cap = Some (JStr EVALUATOR_VERSION)"
    by (simp_all add: demo_cap_member demo_document_def document_texts jtime_def) (simp_all add: capture_document_def Let_def demo_rule_def)
  have b: "qe_body demo_decision = DecisionV2 demo_decision_payload" by (simp add: demo_decision_def)
  have "check_wire_decision (dump_capture_event demo_decision) (dump_capture_payload demo_decision) demo_cap = Some ()"
    unfolding check_wire_decision_def decision_members [OF b] dump_members m
    by (simp add: demo_decision_payload_def demo_decision_def dump_artifact_ref_def)
  then show ?thesis
    using e demo_cap_valid(1)
    by (simp add: valid_capture_event_def demo_wire b) (simp add: demo_decision_def capture_event_type_def demo_wire)
qed

lemma demo_expected: "expected_context (JStr demo_acct) demo_cap (map_of [(''employee_count'', JNull)]) = Some
  (map (\<lambda>e. JObj [(''input_key'', JStr (ce_input_key e)), (''value'', ce_value e), (''availability'', JStr (ce_availability e)),
     (''evidence_version_id'', jstr_opt (ce_evidence e))]) demo_entries)"
proof -
  have o: "sort owned_keys = [''employee_count'', ''funding_event'', ''head_of_platform_start_date'', ''headquarters_country'', ''industry'',
      ''open_platform_engineering_roles'', ''verified_integration_pressure'']" by code_simp
  show ?thesis
    unfolding expected_context_def o
    using demo_cap_input demo_bound(1)
    by (simp add: expected_entry_def demo_entries_def demo_item_def demo_it_def item_def jstr_opt_def)
qed

definition demo_inputs_of :: "string \<Rightarrow> context_input list" where
  "demo_inputs_of v =
     [\<lparr>cx_key = ''employee_count'', cx_availability = ''available'', cx_value = JInt 250, cx_evidence = Some v, cx_observed_at = None\<rparr>,
      \<lparr>cx_key = ''headquarters_country'', cx_availability = ''unavailable'', cx_value = JNull, cx_evidence = None, cx_observed_at = None\<rparr>,
      \<lparr>cx_key = ''industry'', cx_availability = ''unavailable'', cx_value = JNull, cx_evidence = None, cx_observed_at = None\<rparr>]"

definition demo_evaluated :: "string \<Rightarrow> evaluation_result" where
  "demo_evaluated v = \<lparr>rs_score = 25, rs_threshold = 75, rs_output = ''DO_NOT_PRIORITIZE'',
     rs_factors =
       [\<lparr>fr_key = ''employee_count'', fr_rule = ''employee_count at least 50'', fr_weight = 25,
         fr_state = input_state.Consumed, fr_matched = True, fr_contribution = 25, fr_evidence = Some v\<rparr>,
        \<lparr>fr_key = ''funding_event'', fr_rule = ''funding_event observed within 90 days before the decision boundary'',
         fr_weight = 18, fr_state = input_state.Absent, fr_matched = False, fr_contribution = 0, fr_evidence = None\<rparr>],
     rs_ignored = [],
     rs_states = [(''employee_count'', input_state.Consumed), (''headquarters_country'', input_state.Unavailable),
       (''industry'', input_state.Unavailable)]\<rparr>"

lemma demo_captured_evaluation:
  "evaluate demo_artifact (demo_inputs_of v) (Aware (iv_boundary demo_interval) 0) = Inr (demo_evaluated v)"
  by code_simp

lemma demo_verified:
  assumes "evidence_v2_row demo_evidence (JObj demo_item) = Some r"
  shows "verify_evidence (Some r) demo_acct demo_cap demo_item" "v_version_id (ev_row r) = demo_version" "v_supersedes (ev_row r) = None"
    "v_type (ev_row r) = ''employee_count''" "v_observed_at (ev_row r) = None"
proof -
  obtain u where u: "validate_capture demo_fl demo_cap demo_hash = Inr u" using demo_cap_valid(2) by blast
  show row: "v_version_id (ev_row r) = demo_version" "v_supersedes (ev_row r) = None" "v_type (ev_row r) = ''employee_count''"
    "v_observed_at (ev_row r) = None"
    using assms by (auto simp: evidence_v2_row_def bind_eq_Some_conv demo_item_def demo_it_def str_at_def optional_text_def)
  have "clean demo_fl (JObj demo_item)" "plain (JObj demo_item)" by (simp_all add: demo_item_def demo_it_def)
  then show "verify_evidence (Some r) demo_acct demo_cap demo_item"
    using minted_verifies [OF demo_cap_valid(1) u demo_bound(3) _ _ assms] demo_bound(1) row(2,3)
    by (simp add: demo_evidence_def jstr_opt_def del: clean_simps plain.simps)
qed

lemma demo_admits:
  assumes r: "capture_reachable demo_fl C" "lg_artifacts (cl_base C) = lg_artifacts run1" "cl_decisions C = []"
    and c: "cl_captures C = [capture_row_of demo_evidence demo_facts]" "cl_evidence C = [r]"
      "evidence_v2_row demo_evidence (JObj demo_item) = Some r"
  shows "validate_v2 demo_fl demo_decision C = None"
proof -
  let ?sub = "map dump_context_entry demo_entries"
  let ?exp = "map (\<lambda>e. JObj [(''input_key'', JStr (ce_input_key e)), (''value'', ce_value e), (''availability'', JStr (ce_availability e)),
     (''evidence_version_id'', jstr_opt (ce_evidence e))]) demo_entries"
  note f = evidence_v2_row_fields [OF c(3)] and row = demo_verified(2-5) [OF c(3)]
  have at: "evidence_v2_at C demo_version = Some r" by (simp add: evidence_v2_at_def c(2) row(1))
  have "verify_evidence (Some r) demo_acct demo_cap demo_item" by (rule demo_verified(1) [OF c(3)])
  moreover have "origin_intact demo_fl C demo_acct r ''employee_count''"
    using reachable_capture_invariant [OF r(1)] f(2) row(3) by (simp add: capture_invariant_def c(2) backed_def demo_evidence_def)
  moreover have k: "by_key ?sub ''employee_count'' = Some (dump_context_entry (hd demo_entries))"
    by (simp add: by_key_def demo_entries_def entry_key_of [unfolded dump_context_entry_def] dump_context_entry_def entry_key_def str_at_def)
  ultimately have v: "verified_entry demo_fl C demo_acct demo_cap (by_key ?sub) ''employee_count'' = Some (''employee_count'', JNull)"
    using at row(2) demo_bound(1) by (simp add: verified_entry_def) (simp add: demo_entries_def jstr_opt_def)
  have "sort_key entry_key ?sub = ?sub"
    by (simp add: demo_entries_def sort_key_id_if_sorted)
  moreover have "typed_equal (JList ?sub) (JList ?exp)" by (simp add: demo_entries_def dump_context_entry_def jstr_opt_def)
  ultimately have ctx: "verify_context demo_fl C demo_acct demo_cap ?sub = Some ?exp"
    using v demo_expected by (simp add: verify_context_def demo_cap_valid(3) del: typed_equal.simps)
  have "load_artifact_row (cl_base C) (canonical_hash (dump_artifact demo_artifact)) = Some (artifact_row_of run_registration demo_artifact)"
    by (simp add: load_artifact_row_def r(2) run1_def artifact_row_of_def)
  then have art: "verify_artifact_row (load_artifact_row (cl_base C) (canonical_hash (dump_artifact demo_artifact)))
      (canonical_hash (dump_artifact demo_artifact)) None = Inr \<lparr>vf_artifact = demo_artifact,
      vf_stored_hash = canonical_hash (dump_artifact demo_artifact), vf_recomputed_hash = canonical_hash (dump_artifact demo_artifact),
      vf_runtime = EVALUATOR_VERSION\<rparr>"
    using artifact_row_verified [OF run_valid_artifact, of run_registration]
    unfolding verify_artifact_row_Inr
    by (simp add: artifact_row_of_def, simp add: demo_artifact_def EVALUATOR_VERSION_def)
  have inputs: "all_some (map (captured_input C) ?exp) = Some (demo_inputs_of demo_version)"
    using at row(4) demo_bound(2)
    by (simp add: demo_entries_def demo_inputs_of_def captured_input_def str_at_def jstr_opt_def optional_text_def observed_date_def)
  have used: "used_inputs demo_cap ?exp (demo_evaluated demo_version) = Some [JObj [(''input_key'', JStr ''employee_count''), (''value'', JInt 250),
      (''evidence_version_id'', JStr demo_version), (''contribution'', JInt 25)]]"
    using demo_cap_input(1)
    by (simp add: used_inputs_def demo_evaluated_def used_input_def by_key_def demo_entries_def entry_key_def str_at_def jstr_opt_def)
  have "\<exists>res. evaluate_captured C demo_decision_payload demo_cap (cf_boundary demo_facts) ?exp = Inr res"
    using art inputs demo_captured_evaluation [of demo_version] used parse_datetime_format [OF demo_instants(2)]
    by (simp add: evaluate_captured_def Let_def demo_decision_payload_def demo_facts_def)
      (simp add: demo_artifact_def EVALUATOR_VERSION_def dump_consumed_def dump_result_def demo_evaluated_def)
  then show ?thesis
    using demo_cap_facts ctx
    by (auto simp: validate_v2_def demo_decision_def stored_capture_def c(1) capture_row_of_def shares_identity_def capture_identity_def
        demo_evidence_def validate_captured_decision_def decision_of_unit_def r(3) lineage_def demo_facts_def demo_decision_payload_def)
qed

lemma demo_decides:
  assumes m: "capture_reachable demo_fl C" "event_ids (cl_base C) = {''reg'', ''disc'', demo_evidence_id}" "lg_seq (cl_base C) = 3"
    "account_at (cl_base C) demo_acct \<noteq> None" "lg_artifacts (cl_base C) = lg_artifacts run1" "cl_decisions C = []"
    "cl_captures C = [capture_row_of demo_evidence demo_facts]" "cl_evidence C = [r]" "evidence_v2_row demo_evidence (JObj demo_item) = Some r"
  obtains C' d where "capture_reachable demo_fl C'" "cl_captures C' = [capture_row_of demo_evidence demo_facts]"
    "cl_evidence C' = [r]" "cl_decisions C' = [d]" "d_event_id (dv_row d) = demo_decision_id"
    "d_score (dv_row d) = 25" "d_threshold (dv_row d) = 75" "d_output (dv_row d) = ''DO_NOT_PRIORITIZE''" "lg_seq (cl_base C') = 4"
    "ingest_any demo_fl (Captured demo_decision) C =
       Inr (\<lparr>ir_status = Created, ir_event_id = demo_decision_id, ir_hash = capture_event_hash demo_decision\<rparr>, C')"
proof -
  have v: "validate_v2 demo_fl demo_decision C = None" by (rule demo_admits [OF m(1,5-9)])
  have i: "list_all fits_int64 (captured_ints demo_decision)"
    using demo_cap_facts by (auto simp: captured_ints_def demo_decision_def demo_decision_payload_def capture_facts_def demo_facts_def bind_eq_Some_conv)
  obtain C' where w: "write_captured demo_decision C = Inr C'" "capture_reachable demo_fl C'"
    by (rule captured_admitted [OF m(1) demo_decision_valid _ _ _ v i])
      (use demo_cap_canonical m(2-4) in \<open>simp_all add: demo_decision_def fits_int64_def\<close>)
  obtain L f where t: "insert_event (capture_event_row demo_decision) (cl_base C) = Inr L" "cl_base C' = L" "capture_facts demo_cap = Some f"
    "cl_captures C' = cl_captures C @ new_capture demo_decision f C" "cl_evidence C' = cl_evidence C"
    "cl_decisions C' = cl_decisions C @ [decision_v2_row demo_decision f demo_decision_payload (lg_seq L)]"
    by (rule write_captured_tables [OF w(1)]) (auto simp: demo_decision_def)
  have f: "f = demo_facts" using t(3) by (simp add: demo_cap_facts)
  have "new_capture demo_decision f C = []"
    by (simp add: f new_capture_def stored_capture_def m(7) capture_row_of_def shares_identity_def capture_identity_def demo_decision_def demo_evidence_def)
  then have c: "cl_captures C' = [capture_row_of demo_evidence demo_facts]" by (simp add: t(4) m(7))
  have d: "cl_decisions C' = [decision_v2_row demo_decision f demo_decision_payload (lg_seq L)]" by (simp add: t(6) m(6))
  have l: "lg_seq L = 4" using t(1) by (simp add: insert_event_def m(3))
  have g: "ingest_any demo_fl (Captured demo_decision) C =
       Inr (\<lparr>ir_status = Created, ir_event_id = demo_decision_id, ir_hash = capture_event_hash demo_decision\<rparr>, C')"
    using ingest_admitted [OF _ _ v w(1)] m(2,4) not_sym [OF demo_event_ids(7)] by (simp add: demo_decision_def)
  show ?thesis
    by (rule that [OF w(2) c _ d _ _ _ _ _ g])
      (simp_all add: t(2,5) m(8) l decision_v2_row_fields demo_decision_payload_def demo_decision_def)
qed

lemma demo_decided:
  obtains C r d where "capture_reachable demo_fl C" "cl_captures C = [capture_row_of demo_evidence demo_facts]"
    "cl_evidence C = [r]" "v_version_id (ev_row r) = demo_version" "cl_decisions C = [d]" "d_event_id (dv_row d) = demo_decision_id"
    "d_score (dv_row d) = 25" "lg_seq (cl_base C) = 4"
proof -
  obtain B r where m: "capture_reachable demo_fl B" "event_ids (cl_base B) = {''reg'', ''disc'', demo_evidence_id}" "lg_seq (cl_base B) = 3"
    "account_at (cl_base B) demo_acct \<noteq> None" "lg_artifacts (cl_base B) = lg_artifacts run1" "cl_decisions B = []"
    "cl_captures B = [capture_row_of demo_evidence demo_facts]" "cl_evidence B = [r]" "evidence_v2_row demo_evidence (JObj demo_item) = Some r"
    by (rule demo_minted)
  have v: "v_version_id (ev_row r) = demo_version"
    using evidence_v2_row_fields(1) [OF m(9)] by (simp add: demo_item_def demo_it_def str_at_def)
  show ?thesis by (rule demo_decides [OF m]) (rule that; (rule v)?; assumption)
qed

theorem captured_decision_replays_witness:
  "\<exists>C r. capture_reachable demo_fl C \<and> reconstruct_any demo_fl C demo_decision_id = Inr r \<and> rs_score (rc_result r) = 25"
proof -
  obtain C d where d: "capture_reachable demo_fl C" "cl_decisions C = [d]" "d_event_id (dv_row d) = demo_decision_id" "d_score (dv_row d) = 25"
    by (rule demo_decided)
  have "d \<in> set (cl_decisions C)" by (simp add: d(2))
  from captured_decision_replays [OF d(1) this] show ?thesis using d(1) unfolding d(3,4) by blast
qed

theorem captured_evidence_backed_witness:
  "\<exists>C r c. capture_reachable demo_fl C \<and> cl_evidence C = [r] \<and> v_version_id (ev_row r) = demo_version \<and> capture_at C (ev_capture r) = Some c"
proof -
  obtain C r where d: "capture_reachable demo_fl C" "cl_evidence C = [r]" "v_version_id (ev_row r) = demo_version" by (rule demo_decided)
  have "r \<in> set (cl_evidence C)" by (simp add: d(2))
  from captured_evidence_backed [OF d(1) this] show ?thesis using d by blast
qed

theorem captures_bound_once_witness:
  "\<exists>C. capture_reachable demo_fl C \<and> map cc_sequence (cl_captures C) = [1] \<and> distinct (map cc_hash (cl_captures C))"
proof -
  obtain C where d: "capture_reachable demo_fl C" "cl_captures C = [capture_row_of demo_evidence demo_facts]" by (rule demo_decided)
  have "distinct (map cc_hash (cl_captures C))" using captures_bound_once [OF d(1)] by blast
  then show ?thesis using d by (intro exI [of _ C]) (simp add: capture_row_of_def demo_facts_def)
qed


end
