(* ===== verification/Submission.thy ===== *)
theory Submission
  imports Capture_Replay
begin

text \<open>
  \<open>adapters/hubspot/submission_contracts.py\<close> and the preparation and verification of \<open>submit.py\<close>: from a published
  capture and the envelopes of its account and its logic, the plan of three or four events that submits it.
  Pydantic's decoding of a body is the parameter \<open>decode\<close>, as in \<open>Collector.ingest_json\<close>.  A
  \<open>SubmissionError\<close> is its reason.  A \<open>ValueError\<close>, \<open>KeyError\<close> or \<open>TypeError\<close> is
  \<open>''submission_preparation_refused''\<close>, which \<open>freeze_submission\<close> turns them into; any other exception passes
  through and is the name of its class.
\<close>

subsection \<open>Envelopes\<close>

fun dump_event :: "any_event \<Rightarrow> json" where
  "dump_event (Legacy e) = dump_envelope e"
| "dump_event (Captured q) = dump_capture_event q"

definition need :: "bool \<Rightarrow> string \<Rightarrow> string + unit" where
  "need c reason = (if c then Inr () else Inl reason)"

lemma need_Inr [simp]: "need c r = Inr u \<longleftrightarrow> c"
  by (simp add: need_def)

type_synonym decoder = "string \<Rightarrow> any_event option"

definition normalized :: "(string \<Rightarrow> string option) \<Rightarrow> decoder \<Rightarrow> string \<Rightarrow> json option" where
  "normalized fl decode body =
     (case strict_json_loads fl body of
        None \<Rightarrow> None
      | Some _ \<Rightarrow>
          (case decode body of
             None \<Rightarrow> None
           | Some e \<Rightarrow> if valid_event fl e then Some (dump_event e) else None))"

subsection \<open>The frozen plan\<close>

datatype stage_name = AccountStage | ArtifactStage | EvidenceStage | DecisionStage

record submission_stage =
  sg_name :: stage_name
  sg_event_id :: string
  sg_hash :: string
  sg_envelope :: json

record reuse_proof =
  rp_key :: string
  rp_version :: string
  rp_observation :: json
  rp_origin :: string

text \<open>A \<open>FrozenSubmission\<close> is the canonical bytes of this document; envelopes read back with their keys in order.\<close>

record frozen_submission =
  fs_unit :: string
  fs_capture_hash :: string
  fs_capture_digest :: string
  fs_account :: string
  fs_stages :: "submission_stage list"
  fs_reused :: "reuse_proof list"

fun stage_text :: "stage_name \<Rightarrow> string" where
  "stage_text AccountStage = ''account''"
| "stage_text ArtifactStage = ''artifact''"
| "stage_text EvidenceStage = ''evidence''"
| "stage_text DecisionStage = ''decision''"

definition stage_json :: "submission_stage \<Rightarrow> json" where
  "stage_json s = JObj [(''stage'', JStr (stage_text (sg_name s))), (''event_id'', JStr (sg_event_id s)),
     (''canonical_hash'', JStr (sg_hash s)), (''envelope'', sg_envelope s)]"

definition reuse_json :: "reuse_proof \<Rightarrow> json" where
  "reuse_json r = JObj [(''input_key'', JStr (rp_key r)), (''evidence_version_id'', JStr (rp_version r)),
     (''observation'', rp_observation r), (''origin_capture_hash'', JStr (rp_origin r))]"

definition frozen_bytes :: "frozen_submission \<Rightarrow> string" where
  "frozen_bytes f = canonical_text (JObj
     [(''format_version'', JInt 1), (''unit_id'', JStr (fs_unit f)), (''capture_hash'', JStr (fs_capture_hash f)),
      (''capture_bytes_sha256'', JStr (fs_capture_digest f)), (''account_ref'', JStr (fs_account f)),
      (''stages'', JList (map stage_json (fs_stages f))), (''reused_evidence'', JList (map reuse_json (fs_reused f)))])"

definition submission_hash :: "frozen_submission \<Rightarrow> string" where
  "submission_hash f = sha256_hex (frozen_bytes f)"

fun stage_event_type :: "stage_name \<Rightarrow> string" where
  "stage_event_type AccountStage = ''account.discovered''"
| "stage_event_type ArtifactStage = ''logic_artifact.registered''"
| "stage_event_type EvidenceStage = ''evidence.recorded''"
| "stage_event_type DecisionStage = ''decision.recorded''"

fun stage_schema_version :: "stage_name \<Rightarrow> string" where
  "stage_schema_version AccountStage = ''1''"
| "stage_schema_version ArtifactStage = ''1''"
| "stage_schema_version _ = ''2''"

definition captured_stage :: "stage_name \<Rightarrow> bool" where
  "captured_stage n \<longleftrightarrow> n = EvidenceStage \<or> n = DecisionStage"

text \<open>\<open>FrozenSubmission.document\<close>: the checks on one stage and on the whole plan.\<close>

definition stage_ok :: "(string \<Rightarrow> string option) \<Rightarrow> decoder \<Rightarrow> frozen_submission \<Rightarrow> submission_stage \<Rightarrow> bool" where
  "stage_ok fl decode f s =
     (case normalized fl decode (canonical_text (sg_envelope s)) of
        None \<Rightarrow> False
      | Some envelope \<Rightarrow>
          typed_equal envelope (sg_envelope s) \<and> sg_hash s = canonical_hash envelope \<and>
          str_at ''event_id'' envelope = Some (sg_event_id s) \<and>
          str_at ''event_type'' envelope = Some (stage_event_type (sg_name s)) \<and>
          str_at ''schema_version'' envelope = Some (stage_schema_version (sg_name s)) \<and>
          (sg_name s \<noteq> ArtifactStage \<longrightarrow> str_at ''account_ref'' envelope = Some (fs_account f)) \<and>
          (captured_stage (sg_name s) \<longrightarrow>
             sg_event_id s = ''fr-submit-'' @ stage_text (sg_name s) @ ''-v1-'' @ fs_unit f \<and>
             Option.bind (member ''payload'' envelope) (str_at ''capture_hash'') = Some (fs_capture_hash f)))"

definition frozen_ok :: "(string \<Rightarrow> string option) \<Rightarrow> decoder \<Rightarrow> frozen_submission \<Rightarrow> bool" where
  "frozen_ok fl decode f \<longleftrightarrow>
     sha256_hex_string (fs_unit f) \<and> sha256_hex_string (fs_capture_hash f) \<and> sha256_hex_string (fs_capture_digest f) \<and>
     (map sg_name (fs_stages f) = [AccountStage, ArtifactStage, EvidenceStage, DecisionStage] \<or>
      map sg_name (fs_stages f) = [AccountStage, ArtifactStage, DecisionStage]) \<and>
     list_all (stage_ok fl decode f) (fs_stages f) \<and>
     map rp_key (fs_reused f) = sort (remdups (map rp_key (fs_reused f)))"

definition from_plan :: "(string \<Rightarrow> string option) \<Rightarrow> decoder \<Rightarrow> frozen_submission \<Rightarrow> string + frozen_submission" where
  "from_plan fl decode f = bindE (need (frozen_ok fl decode f) ''invalid_frozen_submission'') (\<lambda>_. Inr f)"

subsection \<open>What the ledger holds\<close>

definition REFUSED_PREPARATION :: string where
  "REFUSED_PREPARATION = ''submission_preparation_refused''"

fun evaluation_raises :: "evaluation_error \<Rightarrow> string" where
  "evaluation_raises (UnsupportedMissingValueBehavior _) = ''UnsupportedMissingValueBehavior''"
| "evaluation_raises (DuplicateContextKey _) = ''DuplicateContextKey''"
| "evaluation_raises (RuleFailed (UnsupportedRule _ _)) = ''UnsupportedRule''"
| "evaluation_raises (RuleFailed (RuleKeyMismatch _ _ _)) = ''RuleKeyMismatch''"
| "evaluation_raises (RuleFailed (RuleTypeError _ _)) = ''RuleTypeError''"
| "evaluation_raises (RuleFailed (UnsupportedBoundary _ _)) = ''UnsupportedBoundary''"
| "evaluation_raises (RuleFailed PyOverflow) = ''OverflowError''"
| "evaluation_raises (RuleFailed PyValueError) = REFUSED_PREPARATION"

fun reconstruction_raises :: "reconstruction_error \<Rightarrow> string" where
  "reconstruction_raises (DecisionNotFound _) = ''DecisionNotFound''"
| "reconstruction_raises (ArtifactMissing _) = ''ArtifactMissing''"
| "reconstruction_raises (IntegrityFailure _) = ''IntegrityFailure''"
| "reconstruction_raises (ReconstructionMismatch _) = ''ReconstructionMismatch''"
| "reconstruction_raises (EvaluationFailed e) = evaluation_raises e"
| "reconstruction_raises (StoredValueError _) = REFUSED_PREPARATION"

text \<open>\<open>_event\<close>: a stored event read back as the envelope it dumps to.\<close>

definition row_json :: "(string \<Rightarrow> string option) \<Rightarrow> event_row \<Rightarrow> json option" where
  "row_json fl r = map_option (\<lambda>payload. JObj
     [(''event_id'', JStr (e_event_id r)), (''schema_version'', JStr (e_schema_version r)),
      (''event_type'', JStr (e_event_type r)), (''source'', JStr (e_source r)), (''account_ref'', JStr (e_account_ref r)),
      (''occurred_at'', JStr (e_occurred_at r)), (''recorded_at'', JStr (e_recorded_at r)), (''payload'', payload)])
     (strict_json_loads fl (e_payload r))"

definition stored_event ::
    "(string \<Rightarrow> string option) \<Rightarrow> decoder \<Rightarrow> capture_ledger \<Rightarrow> string \<Rightarrow> string + json option" where
  "stored_event fl decode C k =
     (case event_at (cl_base C) k of
        None \<Rightarrow> Inr None
      | Some r \<Rightarrow>
          (case row_json fl r of
             None \<Rightarrow> Inl REFUSED_PREPARATION
           | Some envelope \<Rightarrow>
               bindE (opt_to_sum ''invalid_submission_envelope'' (normalized fl decode (canonical_text envelope))) (\<lambda>checked.
               bindE (need (typed_equal envelope checked \<and> canonical_hash checked = e_hash r) ''ledger_event_integrity'') (\<lambda>_.
                 Inr (Some checked)))))"

text \<open>\<open>_artifact\<close>: a registration as the row it would become, verified against what the capture selected.\<close>

definition artifact_view :: "json \<Rightarrow> artifact_row option" where
  "artifact_view a =
     Option.bind (str_at ''artifact_id'' a) (\<lambda>i. Option.bind (str_at ''artifact_schema_version'' a) (\<lambda>s.
     Option.bind (str_at ''logic_version'' a) (\<lambda>v. Option.bind (str_at ''decision_class'' a) (\<lambda>c.
     Option.bind (str_at ''evaluator_version'' a) (\<lambda>e.
       Some \<lparr>l_hash = canonical_hash a, l_artifact_id = i, l_logic_version = v, l_decision_class = c, l_schema_version = s,
         l_evaluator_version = e, l_json = canonical_text a, l_source_event = []\<rparr>)))))"

definition selected_artifact :: "json \<Rightarrow> string \<Rightarrow> string \<Rightarrow> string + logic_artifact" where
  "selected_artifact registration rule_hash evaluator =
     bindE (need (str_at ''schema_version'' registration = Some ''1'' \<and>
       str_at ''event_type'' registration = Some ''logic_artifact.registered'') ''artifact_prerequisite_type'') (\<lambda>_.
     bindE (opt_to_sum REFUSED_PREPARATION
       (Option.bind (Option.bind (member ''payload'' registration) (member ''artifact'')) artifact_view)) (\<lambda>row.
       case verify_artifact_row (Some row) rule_hash None of
         Inl e \<Rightarrow> Inl (reconstruction_raises e)
       | Inr vf \<Rightarrow>
           bindE (need (l_hash row = rule_hash \<and> l_evaluator_version row = evaluator) ''selected_artifact_mismatch'') (\<lambda>_.
             Inr (vf_artifact vf))))"

text \<open>The four parts of \<open>_prerequisites\<close>: the two supplied envelopes are checked before either row is read.\<close>

definition supplied_account_ok :: "string \<Rightarrow> json \<Rightarrow> bool" where
  "supplied_account_ok account supplied \<longleftrightarrow>
     str_at ''schema_version'' supplied = Some ''1'' \<and> str_at ''event_type'' supplied = Some ''account.discovered'' \<and>
     str_at ''account_ref'' supplied = Some account"

definition chosen_account ::
    "(string \<Rightarrow> string option) \<Rightarrow> decoder \<Rightarrow> capture_ledger \<Rightarrow> string \<Rightarrow> json \<Rightarrow> string + json" where
  "chosen_account fl decode C account supplied =
     (case (account_at (cl_base C) account, member ''payload'' supplied, str_at ''event_id'' supplied) of
        (Some row, Some p, Some _) \<Rightarrow>
          bindE (need (Some (a_name row) = str_at ''name'' p \<and> Some (a_domain row) = str_at ''domain'' p) ''account_identity_mismatch'') (\<lambda>_.
          bindE (stored_event fl decode C (a_first_seen row)) (\<lambda>found.
            case found of
              None \<Rightarrow> Inl ''discovery_projection_integrity''
            | Some chosen \<Rightarrow>
                bindE (need (str_at ''event_type'' chosen = Some ''account.discovered'' \<and>
                  str_at ''account_ref'' chosen = Some account \<and>
                  (case member ''payload'' chosen of None \<Rightarrow> False | Some q \<Rightarrow> typed_equal q p)) ''discovery_projection_integrity'') (\<lambda>_.
                  Inr chosen)))
      | (None, Some _, Some k) \<Rightarrow>
          bindE (stored_event fl decode C k) (\<lambda>found.
          bindE (need (found = None) ''missing_account_projection'') (\<lambda>_. Inr supplied))
      | _ \<Rightarrow> Inl REFUSED_PREPARATION)"

definition chosen_artifact ::
    "(string \<Rightarrow> string option) \<Rightarrow> decoder \<Rightarrow> capture_ledger \<Rightarrow> string \<Rightarrow> string \<Rightarrow> json \<Rightarrow> string + json" where
  "chosen_artifact fl decode C rule_hash evaluator supplied =
     (case (load_artifact_row (cl_base C) rule_hash, member ''payload'' supplied, str_at ''event_id'' supplied) of
        (Some row, Some p, Some _) \<Rightarrow>
          (case verify_artifact_row (Some row) rule_hash None of
             Inl e \<Rightarrow> Inl (reconstruction_raises e)
           | Inr _ \<Rightarrow>
               bindE (stored_event fl decode C (l_source_event row)) (\<lambda>found.
                 case found of
                   None \<Rightarrow> Inl ''registration_projection_integrity''
                 | Some chosen \<Rightarrow>
                     bindE (need (case member ''payload'' chosen of None \<Rightarrow> False | Some q \<Rightarrow> typed_equal q p)
                       ''registration_projection_integrity'') (\<lambda>_.
                     bindE (selected_artifact chosen rule_hash evaluator) (\<lambda>_. Inr chosen))))
      | (None, Some _, Some k) \<Rightarrow>
          bindE (stored_event fl decode C k) (\<lambda>found.
          bindE (need (found = None) ''missing_artifact_projection'') (\<lambda>_. Inr supplied))
      | _ \<Rightarrow> Inl REFUSED_PREPARATION)"

definition prerequisites ::
    "(string \<Rightarrow> string option) \<Rightarrow> decoder \<Rightarrow> capture_ledger \<Rightarrow> string \<Rightarrow> string \<Rightarrow> string \<Rightarrow> json \<Rightarrow> json \<Rightarrow> string + json \<times> json" where
  "prerequisites fl decode C account rule_hash evaluator supplied_account supplied_artifact =
     bindE (need (supplied_account_ok account supplied_account) ''account_prerequisite_type_or_identity'') (\<lambda>_.
     bindE (selected_artifact supplied_artifact rule_hash evaluator) (\<lambda>_.
     bindE (chosen_account fl decode C account supplied_account) (\<lambda>a.
     bindE (chosen_artifact fl decode C rule_hash evaluator supplied_artifact) (\<lambda>r. Inr (a, r)))))"

text \<open>\<open>_reuse\<close>: the proof that a version the ledger holds is this very observation.\<close>

definition reuse ::
    "(string \<Rightarrow> string option) \<Rightarrow> capture_ledger \<Rightarrow> string \<Rightarrow> json \<Rightarrow> (string \<times> json) list \<Rightarrow> string + reuse_proof option" where
  "reuse fl C account cap it =
     (case (map_of it ''evidence_version_id'', map_of it ''evidence_type'', observation_body (JStr account) cap it) of
        (Some (JStr v), Some (JStr key), Some b) \<Rightarrow>
          (case evidence_v2_at C v of
             None \<Rightarrow> Inr None
           | Some row \<Rightarrow>
               bindE (need (verify_evidence (Some row) account cap it) REFUSED_PREPARATION) (\<lambda>_.
               bindE (opt_to_sum ''missing_evidence_origin'' (capture_at C (ev_capture row))) (\<lambda>origin.
               bindE (opt_to_sum REFUSED_PREPARATION (strict_json_loads fl (cc_body origin))) (\<lambda>old.
               bindE (need (case validate_capture fl old (cc_hash origin) of Inl _ \<Rightarrow> False | Inr _ \<Rightarrow> True) REFUSED_PREPARATION) (\<lambda>_.
               bindE (need (cc_body origin = canonical_text old \<and> cc_account origin = account \<and>
                 str_at ''unit_id'' old = Some (cc_unit origin) \<and> int_at ''capture_sequence'' old = Some (cc_sequence origin))
                 ''evidence_origin_integrity'') (\<lambda>_.
               bindE (need (case map_of it ''supersedes_evidence_version_id'' of
                   None \<Rightarrow> False
                 | Some s \<Rightarrow> (case bound_item (JStr account) old key s of
                     None \<Rightarrow> False | Some old_it \<Rightarrow> verify_evidence (Some row) account old old_it)) REFUSED_PREPARATION) (\<lambda>_.
                 Inr (Some \<lparr>rp_key = key, rp_version = v, rp_observation = b, rp_origin = ev_capture row\<rparr>))))))))
      | _ \<Rightarrow> Inl REFUSED_PREPARATION)"

subsection \<open>Preparation\<close>

record submission_prerequisites =
  sp_account :: string
  sp_artifact :: string
  sp_recorded_at :: string
  sp_supersessions :: string

definition supersession_text :: "json \<Rightarrow> bool" where
  "supersession_text x =
     (case x of
        JNull \<Rightarrow> True
      | JStr s \<Rightarrow> take 15 s = ''fr-evidence-v2-'' \<and> sha256_hex_string (drop 15 s)
      | _ \<Rightarrow> False)"

definition read_supersessions :: "(string \<Rightarrow> string option) \<Rightarrow> string list \<Rightarrow> string \<Rightarrow> string + (string \<times> json) list" where
  "read_supersessions fl available text =
     (case strict_json_loads fl text of
        Some (JObj kvs) \<Rightarrow>
          bindE (need (fst ` set kvs \<subseteq> set available) ''invalid_supersession_keys'') (\<lambda>_.
          bindE (need (list_all (\<lambda>(k, x). supersession_text x) kvs) ''invalid_supersession_reference'') (\<lambda>_. Inr kvs))
      | Some _ \<Rightarrow> Inl ''invalid_supersession_keys''
      | None \<Rightarrow> Inl REFUSED_PREPARATION)"

definition recorded_time :: "string \<Rightarrow> string \<Rightarrow> string + utc" where
  "recorded_time recorded_at boundary =
     (case (parse_datetime recorded_at, parse_datetime boundary) of
        (Some (Aware t off), Some b) \<Rightarrow>
          (case after_time b (Aware t off) of
             Some False \<Rightarrow> opt_to_sum ''OverflowError'' (to_utc t off)
           | Some True \<Rightarrow> Inl ''submission_recorded_before_capture''
           | None \<Rightarrow> Inl REFUSED_PREPARATION)
      | (Some (Naive t), _) \<Rightarrow> Inl ''aware_recorded_at_required''
      | _ \<Rightarrow> Inl REFUSED_PREPARATION)"

text \<open>The version a prepared item supersedes must be an earlier one of the same account and type.\<close>

definition supersession_lineage :: "capture_ledger \<Rightarrow> string \<Rightarrow> json \<Rightarrow> (string \<times> json) list \<Rightarrow> string + unit" where
  "supersession_lineage C account cap it =
     (case map_of it ''supersedes_evidence_version_id'' of
        Some (JStr s) \<Rightarrow>
          if s = [] then Inr ()
          else (case (evidence_v2_at C s, observation_body (JStr account) cap it) of
              (Some prior, Some b) \<Rightarrow>
                need (v_account_ref (ev_row prior) = account \<and> map_of it ''evidence_type'' = Some (JStr (v_type (ev_row prior))) \<and>
                  (case str_at ''eligible_at'' b of None \<Rightarrow> False | Some e \<Rightarrow> v_available_at (ev_row prior) \<le> e))
                  ''invalid_supersession_lineage''
            | _ \<Rightarrow> Inl ''invalid_supersession_lineage'')
      | _ \<Rightarrow> Inr ())"

primrec split_items ::
    "(string \<Rightarrow> string option) \<Rightarrow> capture_ledger \<Rightarrow> string \<Rightarrow> json \<Rightarrow> (string \<times> json) list list
      \<Rightarrow> string + ((string \<times> json) list list \<times> reuse_proof list)" where
  "split_items fl C account cap [] = Inr ([], [])"
| "split_items fl C account cap (it # its) =
     bindE (supersession_lineage C account cap it) (\<lambda>_.
     bindE (reuse fl C account cap it) (\<lambda>found.
     bindE (split_items fl C account cap its) (\<lambda>(new, reused).
       Inr (case found of None \<Rightarrow> (it # new, reused) | Some p \<Rightarrow> (new, p # reused)))))"

definition item_observed :: "(string \<times> json) list list \<Rightarrow> string \<Rightarrow> date option option" where
  "item_observed items key =
     (case map_of (map (\<lambda>it. (map_of it ''evidence_type'', it)) (rev items)) (Some (JStr key)) of
        None \<Rightarrow> None
      | Some it \<Rightarrow>
          (case map_of it ''observed_at'' of
             Some (JStr s) \<Rightarrow> if s = [] then Some None else map_option Some (parse_date s)
           | _ \<Rightarrow> Some None))"

definition prepared_input :: "(string \<times> json) list list \<Rightarrow> json \<Rightarrow> context_input option" where
  "prepared_input items x =
     Option.bind (str_at ''input_key'' x) (\<lambda>k.
     Option.bind (str_at ''availability'' x) (\<lambda>a.
     Option.bind (member ''value'' x) (\<lambda>w.
     Option.bind (optional_text (member ''evidence_version_id'' x)) (\<lambda>v.
     Option.bind (if a = ''available'' then item_observed items k else Some None) (\<lambda>t.
       Some \<lparr>cx_key = k, cx_availability = a, cx_value = w, cx_evidence = v, cx_observed_at = t\<rparr>)))))"

text \<open>\<open>_evaluation\<close>: the inputs the selected logic consumes, and its result.\<close>

definition prepared_evaluation ::
    "logic_artifact \<Rightarrow> json \<Rightarrow> string \<Rightarrow> json list \<Rightarrow> (string \<times> json) list list \<Rightarrow> string + json list \<times> json" where
  "prepared_evaluation a cap boundary context items =
     (case (all_some (map (prepared_input items) context), parse_datetime boundary) of
        (Some inputs, Some b) \<Rightarrow>
          (case evaluate a inputs b of
             Inl e \<Rightarrow> Inl (evaluation_raises e)
           | Inr res \<Rightarrow>
               (case used_inputs cap context res of
                  None \<Rightarrow> Inl ''explicit_ignore_conflicts_with_selected_logic''
                | Some used \<Rightarrow>
                    bindE (need (used \<noteq> []) ''no_usable_inputs'') (\<lambda>_.
                      Inr (used, JObj [(''score'', JInt (rs_score res)), (''threshold'', JInt (rs_threshold res)),
                        (''output'', JStr (rs_output res))]))))
      | _ \<Rightarrow> Inl REFUSED_PREPARATION)"

definition common_members :: "string \<Rightarrow> utc \<Rightarrow> (string \<times> json) list" where
  "common_members account recorded =
     [(''schema_version'', JStr ''2''), (''source'', JStr SOURCE_CAPTURE), (''account_ref'', JStr account),
      (''recorded_at'', jtime recorded)]"

definition evidence_envelope :: "string \<Rightarrow> utc \<Rightarrow> string \<Rightarrow> json \<Rightarrow> string \<Rightarrow> (string \<times> json) list list \<Rightarrow> json" where
  "evidence_envelope account recorded unit cap finished new = JObj (common_members account recorded @
     [(''event_type'', JStr ''evidence.recorded''), (''event_id'', JStr (''fr-submit-evidence-v1-'' @ unit)),
      (''occurred_at'', JStr finished),
      (''payload'', JObj [(''capture'', cap), (''capture_hash'', JStr (canonical_hash cap)), (''items'', JList (map JObj new))])])"

definition decision_envelope ::
    "string \<Rightarrow> utc \<Rightarrow> string \<Rightarrow> json \<Rightarrow> captured_facts \<Rightarrow> logic_artifact \<Rightarrow> json list \<Rightarrow> json list \<Rightarrow> json \<Rightarrow> json" where
  "decision_envelope account recorded unit cap f a context consumed result = JObj (common_members account recorded @
     [(''event_type'', JStr ''decision.recorded''), (''event_id'', JStr (''fr-submit-decision-v1-'' @ unit)),
      (''occurred_at'', JStr (cf_boundary f)),
      (''payload'', JObj
        [(''capture'', cap), (''capture_hash'', JStr (canonical_hash cap)),
         (''decision_class'', JStr ''account_prioritization''), (''decision_boundary'', JStr (cf_boundary f)),
         (''workflow_version'', JStr (cf_processing_version f)), (''historical_context'', JList context),
         (''consumed_inputs'', JList consumed),
         (''logic_artifact'', JObj [(''artifact_id'', JStr (la_artifact_id a)), (''logic_version'', JStr (la_logic_version a)),
           (''evaluator_version'', JStr (la_evaluator_version a)), (''artifact_hash'', JStr (cf_rule_hash f))]),
         (''result'', result), (''explanation'', JNull)])])"

text \<open>A stage of the plan: the envelope as the collector normalizes it.\<close>

definition plan_stage :: "(string \<Rightarrow> string option) \<Rightarrow> decoder \<Rightarrow> stage_name \<Rightarrow> json \<Rightarrow> string + submission_stage" where
  "plan_stage fl decode name envelope =
     bindE (opt_to_sum ''invalid_submission_envelope'' (normalized fl decode (canonical_text envelope))) (\<lambda>n.
     bindE (opt_to_sum REFUSED_PREPARATION (str_at ''event_id'' n)) (\<lambda>k.
       Inr \<lparr>sg_name = name, sg_event_id = k, sg_hash = canonical_hash n, sg_envelope = jnorm n\<rparr>))"

definition prepare ::
    "(string \<Rightarrow> string option) \<Rightarrow> decoder \<Rightarrow> capture_ledger \<Rightarrow> string \<Rightarrow> json \<Rightarrow> string \<Rightarrow> submission_prerequisites
      \<Rightarrow> string + frozen_submission" where
  "prepare fl decode C unit cap capture_bytes pre =
     bindE (opt_to_sum REFUSED_PREPARATION (capture_facts cap)) (\<lambda>f.
     bindE (opt_to_sum REFUSED_PREPARATION (account_identity cap)) (\<lambda>account.
     bindE (opt_to_sum REFUSED_PREPARATION (available_keys cap)) (\<lambda>available.
     bindE (opt_to_sum REFUSED_PREPARATION (str_at ''read_finished_at'' cap)) (\<lambda>finished.
     bindE (recorded_time (sp_recorded_at pre) (cf_boundary f)) (\<lambda>recorded.
     bindE (read_supersessions fl available (sp_supersessions pre)) (\<lambda>supersessions.
     bindE (opt_to_sum ''invalid_submission_envelope'' (normalized fl decode (sp_account pre))) (\<lambda>supplied_account.
     bindE (opt_to_sum ''invalid_submission_envelope'' (normalized fl decode (sp_artifact pre))) (\<lambda>supplied_artifact.
     bindE (prerequisites fl decode C account (cf_rule_hash f) (cf_evaluator_version f) supplied_account supplied_artifact)
       (\<lambda>(chosen, registration).
     bindE (need (lineage C account f) REFUSED_PREPARATION) (\<lambda>_.
     bindE (selected_artifact registration (cf_rule_hash f) (cf_evaluator_version f)) (\<lambda>artifact.
     bindE (opt_to_sum REFUSED_PREPARATION (all_some (map (\<lambda>k. bound_item (JStr account) cap k
       (case map_of supersessions k of None \<Rightarrow> JNull | Some s \<Rightarrow> s)) available))) (\<lambda>items.
     bindE (split_items fl C account cap items) (\<lambda>(new, reused).
     bindE (opt_to_sum REFUSED_PREPARATION (expected_context (JStr account) cap (map_of supersessions))) (\<lambda>context.
     bindE (prepared_evaluation artifact cap (cf_boundary f) context items) (\<lambda>(consumed, result).
     bindE (mapE (\<lambda>(n, e). plan_stage fl decode n e)
       ([(AccountStage, chosen), (ArtifactStage, registration)] @
        (if new = [] then [] else [(EvidenceStage, evidence_envelope account recorded unit cap finished new)]) @
        [(DecisionStage, decision_envelope account recorded unit cap f artifact context consumed result)])) (\<lambda>stages.
       from_plan fl decode
         \<lparr>fs_unit = unit, fs_capture_hash = canonical_hash cap, fs_capture_digest = sha256_hex capture_bytes, fs_account = account,
          fs_stages = stages, fs_reused = reused\<rparr>))))))))))))))))"

subsection \<open>Verification of an acknowledged stage\<close>

definition verify_account_stage ::
    "(string \<Rightarrow> string option) \<Rightarrow> decoder \<Rightarrow> capture_ledger \<Rightarrow> json \<Rightarrow> json \<Rightarrow> string + unit" where
  "verify_account_stage fl decode C envelope p =
     (case Option.bind (str_at ''account_ref'' envelope) (account_at (cl_base C)) of
        None \<Rightarrow> Inl ''acknowledged_account_missing_or_changed''
      | Some row \<Rightarrow>
          bindE (need (Some (a_name row) = str_at ''name'' p \<and> Some (a_domain row) = str_at ''domain'' p)
            ''acknowledged_account_missing_or_changed'') (\<lambda>_.
          bindE (stored_event fl decode C (a_first_seen row)) (\<lambda>found.
            case found of
              None \<Rightarrow> Inl ''discovery_projection_integrity''
            | Some origin \<Rightarrow> need (str_at ''event_type'' origin = Some ''account.discovered'' \<and>
                str_at ''account_ref'' origin = str_at ''account_ref'' envelope \<and>
                (case member ''payload'' origin of None \<Rightarrow> False | Some q \<Rightarrow> typed_equal q p)) ''discovery_projection_integrity'')))"

definition verify_artifact_stage :: "capture_ledger \<Rightarrow> json \<Rightarrow> json \<Rightarrow> string + unit" where
  "verify_artifact_stage C envelope p =
     (case Option.bind (member ''artifact'' p) (\<lambda>a. map_option (Pair a) (str_at ''evaluator_version'' a)) of
        None \<Rightarrow> Inl REFUSED_PREPARATION
      | Some (a, evaluator) \<Rightarrow>
          bindE (selected_artifact envelope (canonical_hash a) evaluator) (\<lambda>_.
            case verify_artifact_row (load_artifact_row (cl_base C) (canonical_hash a)) (canonical_hash a) None of
              Inl e \<Rightarrow> Inl (reconstruction_raises e)
            | Inr _ \<Rightarrow> Inr ()))"

definition verify_evidence_item ::
    "(string \<Rightarrow> string option) \<Rightarrow> capture_ledger \<Rightarrow> string \<Rightarrow> string \<Rightarrow> json \<Rightarrow> string \<Rightarrow> json \<Rightarrow> string + unit" where
  "verify_evidence_item fl C account k cap h it =
     bindE (reuse fl C account cap (object_members it)) (\<lambda>proof.
       case (proof, Option.bind (str_at ''evidence_version_id'' it) (evidence_v2_at C)) of
         (Some p, Some row) \<Rightarrow>
           bindE (need (rp_origin p = h) ''acknowledged_evidence_missing_or_changed'') (\<lambda>_.
             need (v_source_event (ev_row row) = k) ''evidence_event_link_changed'')
       | _ \<Rightarrow> Inl ''acknowledged_evidence_missing_or_changed'')"

definition verify_stage ::
    "(string \<Rightarrow> string option) \<Rightarrow> decoder \<Rightarrow> capture_ledger \<Rightarrow> submission_stage \<Rightarrow> string + unit" where
  "verify_stage fl decode C s =
     bindE (stored_event fl decode C (sg_event_id s)) (\<lambda>actual.
     bindE (need (case actual of None \<Rightarrow> False | Some e \<Rightarrow> typed_equal e (sg_envelope s)) ''acknowledged_event_missing_or_changed'') (\<lambda>_.
       case member ''payload'' (sg_envelope s) of
         None \<Rightarrow> Inl REFUSED_PREPARATION
       | Some p \<Rightarrow>
           (case sg_name s of
              AccountStage \<Rightarrow> verify_account_stage fl decode C (sg_envelope s) p
            | ArtifactStage \<Rightarrow> verify_artifact_stage C (sg_envelope s) p
            | EvidenceStage \<Rightarrow>
                (case (list_at ''items'' p, str_at ''account_ref'' (sg_envelope s), member ''capture'' p, str_at ''capture_hash'' p) of
                   (Some items, Some account, Some cap, Some h) \<Rightarrow>
                     bindE (mapE (verify_evidence_item fl C account (sg_event_id s) cap h) items) (\<lambda>_. Inr ())
                 | _ \<Rightarrow> Inl REFUSED_PREPARATION)
            | DecisionStage \<Rightarrow>
                (case (reconstruct_any fl C (sg_event_id s), member ''result'' p) of
                   (Inr r, Some result) \<Rightarrow>
                     need (typed_equal (JObj [(''score'', JInt (rs_score (rc_result r))), (''threshold'', JInt (rs_threshold (rc_result r))),
                       (''output'', JStr (rs_output (rc_result r)))]) result) ''acknowledged_decision_changed''
                 | (Inl e, _) \<Rightarrow> Inl (reconstruction_raises e)
                 | _ \<Rightarrow> Inl REFUSED_PREPARATION))))"

end
