(* ===== verification/Submission_Store.thy ===== *)
theory Submission_Store
  imports Submission
begin

text \<open>
  \<open>adapters/hubspot/submission_store.py\<close>: the append-only tables of submissions beside the capture store, and what
  their receipts say of a plan.  An operation raises (\<open>Inl\<close>, nothing written) or commits.  Reasons of a
  \<open>SubmissionError\<close> are the code's; \<open>INTEGRITY_ERROR\<close> is SQLite's refusal of a statement and \<open>UNREADABLE\<close> a
  \<open>ValueError\<close> of a stored text, which the code lets through.
\<close>

subsection \<open>Tables\<close>

record frozen_row =
  fr_unit :: string
  fr_capture_hash :: string
  fr_submission_hash :: string
  fr_plan :: frozen_submission

record attempt_row =
  at_id :: int
  at_unit :: string
  at_submission :: string
  at_stage :: string
  at_event_id :: string
  at_hash :: string

record observation_row =
  ob_id :: int
  ob_attempt :: int
  ob_disposition :: string
  ob_result :: string

text \<open>The one row of \<open>submission_target\<close> is an option; the \<open>body_bytes\<close> of a frozen row stand as the plan they encode.\<close>

record submission_store =
  ss_path :: string
  ss_captures :: capture_store
  ss_target :: "string option"
  ss_frozen :: "frozen_row list"
  ss_attempts :: "attempt_row list"
  ss_observations :: "observation_row list"

definition INTEGRITY_ERROR :: string where "INTEGRITY_ERROR = ''IntegrityError''"

definition UNREADABLE :: string where "UNREADABLE = ''ValueError''"

definition new_submission_store :: "string \<Rightarrow> capture_store \<Rightarrow> submission_store" where
  "new_submission_store path K = \<lparr>ss_path = path, ss_captures = K, ss_target = None, ss_frozen = [], ss_attempts = [], ss_observations = []\<rparr>"

subsection \<open>The capture of a unit\<close>

text \<open>
  \<open>_capture\<close>.  Python compares the company with \<open>==\<close>, after \<open>validate_capture\<close> has compared the whole document exactly.
\<close>

definition same_unit :: "processing_unit \<Rightarrow> processing_unit \<Rightarrow> bool" where
  "same_unit a b \<longleftrightarrow> unit_id a = unit_id b \<and> unit_fields a = unit_fields b \<and>
     typed_equal (body_json (sn_body (pu_notification a))) (body_json (sn_body (pu_notification b)))"

definition registered_as :: "(string \<Rightarrow> string option) \<Rightarrow> capture_store \<Rightarrow> processing_unit \<Rightarrow> string + unit" where
  "registered_as fl K u =
     bindE (opt_to_sum ''missing_processing_unit'' (st_units K (unit_id u))) (\<lambda>row.
     bindE (need (row = unit_fields u) ''processing_identity_mismatch'') (\<lambda>_.
     bindE (opt_to_sum ''source_identity_mismatch'' (st_identities K (logical_key (pu_notification u)))) (\<lambda>t.
     bindE (opt_to_sum UNREADABLE (strict_json_loads fl t)) (\<lambda>semantic.
       need (typed_equal semantic (body_json (sn_body (pu_notification u)))) ''source_identity_mismatch''))))"

definition original_raw :: "(string \<Rightarrow> string option) \<Rightarrow> capture_store \<Rightarrow> json \<Rightarrow> string + unit" where
  "original_raw fl K cap =
     (case str_at ''raw_notification_ref'' cap of
        None \<Rightarrow> Inl UNREADABLE
      | Some ref \<Rightarrow>
          (case st_raw K ref of
             None \<Rightarrow> Inl ''missing_or_corrupt_raw''
           | Some raw \<Rightarrow>
               bindE (need (raw_notification_ref raw = ref) ''missing_or_corrupt_raw'') (\<lambda>_.
               bindE (opt_to_sum ''invalid_original_raw'' (strict_json_loads fl raw)) (\<lambda>payload.
                 case from_payload fl payload raw of
                   Inl _ \<Rightarrow> Inl ''invalid_original_raw''
                 | Inr n \<Rightarrow>
                     need (case member ''notification'' cap of None \<Rightarrow> False | Some b \<Rightarrow> typed_equal (body_json (sn_body n)) b)
                       ''raw_semantic_mismatch''))))"

definition submitted_capture ::
    "(string \<Rightarrow> string option) \<Rightarrow> capture_store \<Rightarrow> processing_unit \<Rightarrow> string + (frozen_capture \<times> json)" where
  "submitted_capture fl K u =
     bindE (registered_as fl K u) (\<lambda>_.
     bindE (opt_to_sum ''missing_frozen_capture'' (find (\<lambda>r. cr_unit_id r = unit_id u) (st_captures K))) (\<lambda>row.
     bindE (opt_to_sum UNREADABLE (document fl (cr_body row))) (\<lambda>cap.
       case validate_capture fl cap (canonical_hash cap) of
         Inl _ \<Rightarrow> Inl ''invalid_capture''
       | Inr checked \<Rightarrow>
           bindE (need (same_unit checked u \<and>
             (case member ''company'' cap of
                None \<Rightarrow> False
              | Some c \<Rightarrow> typed_equal c (JObj [(''portal_id'', sb_portal_id (sn_body (pu_notification u))),
                  (''company_id'', sb_object_id (sn_body (pu_notification u)))]))) ''capture_unit_mismatch'') (\<lambda>_.
           bindE (need (int_at ''capture_sequence'' cap = Some (cr_sequence row) \<and> cr_company_key row = company_key u)
             ''capture_projection_mismatch'') (\<lambda>_.
           bindE (original_raw fl K cap) (\<lambda>_. Inr (cr_body row, cap)))))))"

subsection \<open>Frozen plans\<close>

text \<open>\<open>_load\<close>: the plan frozen for a unit, bound to its capture.\<close>

definition stage_capture :: "submission_stage \<Rightarrow> json option" where
  "stage_capture s = Option.bind (member ''payload'' (sg_envelope s)) (member ''capture'')"

definition plan_bound :: "frozen_row \<Rightarrow> processing_unit \<Rightarrow> frozen_capture \<Rightarrow> json \<Rightarrow> string + unit" where
  "plan_bound row u bytes cap =
     (let f = fr_plan row in
      bindE (need (submission_hash f = fr_submission_hash row \<and> fs_unit f = unit_id u \<and> fs_capture_hash f = fr_capture_hash row \<and>
        fr_capture_hash row = canonical_hash cap \<and> fs_capture_digest f = sha256_hex bytes \<and> Some (fs_account f) = account_identity cap)
        ''frozen_binding_mismatch'') (\<lambda>_.
      need (list_all (\<lambda>s. captured_stage (sg_name s) \<longrightarrow>
          (case stage_capture s of None \<Rightarrow> False | Some c \<Rightarrow> typed_equal c cap)) (fs_stages f)) ''frozen_capture_bytes_mismatch''))"

definition load_plan ::
    "(string \<Rightarrow> string option) \<Rightarrow> decoder \<Rightarrow> submission_store \<Rightarrow> processing_unit \<Rightarrow> string + frozen_submission option" where
  "load_plan fl decode S u =
     bindE (submitted_capture fl (ss_captures S) u) (\<lambda>(bytes, cap).
       case find (\<lambda>r. fr_unit r = unit_id u) (ss_frozen S) of
         None \<Rightarrow> Inr None
       | Some row \<Rightarrow>
           bindE (from_plan fl decode (fr_plan row)) (\<lambda>f.
           bindE (plan_bound row u bytes cap) (\<lambda>_. Inr (Some f))))"

definition target :: "string \<Rightarrow> bool \<Rightarrow> submission_store \<Rightarrow> string + submission_store" where
  "target ledger_path binding S =
     bindE (need (ledger_path \<noteq> ss_path S) ''domain_and_operational_store_must_differ'') (\<lambda>_.
       case ss_target S of
         Some p \<Rightarrow> bindE (need (p = ledger_path) ''submission_target_mismatch'') (\<lambda>_. Inr S)
       | None \<Rightarrow>
           if binding then Inr (S\<lparr>ss_target := Some ledger_path\<rparr>)
           else bindE (need (ss_frozen S = []) ''missing_target_binding'') (\<lambda>_. Inr S))"

definition insert_frozen :: "frozen_row \<Rightarrow> submission_store \<Rightarrow> string + submission_store" where
  "insert_frozen r S =
     bindE (need (fr_unit r \<notin> fr_unit ` set (ss_frozen S) \<and> st_units (ss_captures S) (fr_unit r) \<noteq> None) INTEGRITY_ERROR) (\<lambda>_.
       Inr (S\<lparr>ss_frozen := ss_frozen S @ [r]\<rparr>))"

definition freeze_plan ::
    "(string \<Rightarrow> string option) \<Rightarrow> decoder \<Rightarrow> processing_unit \<Rightarrow> frozen_submission \<Rightarrow> string \<Rightarrow> submission_store
      \<Rightarrow> string + frozen_submission option \<times> submission_store" where
  "freeze_plan fl decode u proposed ledger_path S =
     bindE (target ledger_path True S) (\<lambda>S1.
     bindE (load_plan fl decode S1 u) (\<lambda>found.
       case found of
         Some winner \<Rightarrow>
           bindE (need (submission_hash winner \<noteq> submission_hash proposed \<or> frozen_bytes winner = frozen_bytes proposed)
             ''submission_digest_collision'') (\<lambda>_. Inr (Some winner, S1))
       | None \<Rightarrow>
           bindE (from_plan fl decode proposed) (\<lambda>_.
           bindE (insert_frozen \<lparr>fr_unit = unit_id u, fr_capture_hash = fs_capture_hash proposed,
             fr_submission_hash = submission_hash proposed, fr_plan = proposed\<rparr> S1) (\<lambda>S2.
           bindE (load_plan fl decode S2 u) (\<lambda>f. Inr (f, S2))))))"

subsection \<open>Attempts and observations\<close>

definition attempt_stage :: "frozen_submission \<Rightarrow> submission_stage \<Rightarrow> submission_store \<Rightarrow> string + int \<times> submission_store" where
  "attempt_stage f s S =
     bindE (need (fs_unit f \<in> fr_unit ` set (ss_frozen S)) INTEGRITY_ERROR) (\<lambda>_.
       let k = int (length (ss_attempts S)) + 1 in
       Inr (k, S\<lparr>ss_attempts := ss_attempts S @ [\<lparr>at_id = k, at_unit = fs_unit f, at_submission = submission_hash f,
         at_stage = stage_text (sg_name s), at_event_id = sg_event_id s, at_hash = sg_hash s\<rparr>]\<rparr>))"

definition DISPOSITIONS :: "string list" where
  "DISPOSITIONS = [''accepted_created'', ''accepted_duplicate'', ''retryable'', ''rejected'', ''unknown'']"

definition observe :: "int \<Rightarrow> string \<Rightarrow> json \<Rightarrow> submission_store \<Rightarrow> string + submission_store" where
  "observe a disposition result S =
     bindE (need (disposition \<in> set DISPOSITIONS) ''invalid_observation_disposition'') (\<lambda>_.
       case find (\<lambda>r. ob_attempt r = a) (ss_observations S) of
         Some old \<Rightarrow>
           bindE (need (ob_disposition old = disposition \<and> ob_result old = canonical_text result)
             ''contradictory_terminal_observation'') (\<lambda>_. Inr S)
       | None \<Rightarrow>
           bindE (need (a \<in> at_id ` set (ss_attempts S)) INTEGRITY_ERROR) (\<lambda>_.
             Inr (S\<lparr>ss_observations := ss_observations S @ [\<lparr>ob_id = int (length (ss_observations S)) + 1, ob_attempt = a,
               ob_disposition = disposition, ob_result = canonical_text result\<rparr>]\<rparr>)))"

subsection \<open>History\<close>

text \<open>Identifiers ascend with the rows, so the rows are in the order of the query: attempts nobody observed come first.\<close>

definition submission_rows :: "submission_store \<Rightarrow> string \<Rightarrow> (attempt_row \<times> observation_row option) list" where
  "submission_rows S unit =
     (let mine = filter (\<lambda>a. at_unit a = unit) (ss_attempts S) in
      map (\<lambda>a. (a, None)) (filter (\<lambda>a. at_id a \<notin> ob_attempt ` set (ss_observations S)) mine) @
      concat (map (\<lambda>b. map (\<lambda>a. (a, Some b)) (filter (\<lambda>a. at_id a = ob_attempt b) mine)) (ss_observations S)))"

record submission_history =
  hs_accepted :: "string list"
  hs_failure :: "(string \<times> json) option"
  hs_latest :: "(string \<times> string \<times> json) option"

definition no_history :: submission_history where
  "no_history = \<lparr>hs_accepted = [], hs_failure = None, hs_latest = None\<rparr>"

definition stage_named :: "frozen_submission \<Rightarrow> string \<Rightarrow> submission_stage option" where
  "stage_named f t = find (\<lambda>s. stage_text (sg_name s) = t) (fs_stages f)"

definition predecessors :: "frozen_submission \<Rightarrow> string \<Rightarrow> string list" where
  "predecessors f t = takeWhile (\<lambda>n. n \<noteq> t) (map (stage_text \<circ> sg_name) (fs_stages f))"

definition receipt :: "string \<Rightarrow> submission_stage \<Rightarrow> json" where
  "receipt status s = JObj [(''status'', JStr status), (''event_id'', JStr (sg_event_id s)), (''canonical_hash'', JStr (sg_hash s)),
     (''http_status'', JInt (if status = ''created'' then 201 else 200))]"

definition accepted_disposition :: "string \<Rightarrow> bool" where
  "accepted_disposition d \<longleftrightarrow> take 9 d = ''accepted_''"

definition read_receipt :: "frozen_submission \<Rightarrow> submission_stage \<Rightarrow> string \<Rightarrow> json \<Rightarrow> submission_history \<Rightarrow> string + submission_history" where
  "read_receipt f s disposition result h =
     (let t = stage_text (sg_name s);
          h1 = h\<lparr>hs_latest := Some (t, disposition, result)\<rparr> in
      bindE (need (set (predecessors f t) \<subseteq> set (hs_accepted h)) ''receipt_skips_predecessor'') (\<lambda>_.
      if accepted_disposition disposition then
        bindE (need (typed_equal result (receipt (drop 9 disposition) s)) ''accepted_receipt_mismatch'') (\<lambda>_.
        bindE (need (hs_failure h = None) ''receipt_chain_contradiction'') (\<lambda>_.
          Inr (h1\<lparr>hs_accepted := hs_accepted h @ [t]\<rparr>)))
      else if disposition = ''rejected'' then Inr (h1\<lparr>hs_failure := Some (t, result)\<rparr>)
      else Inr h1))"

definition is_object :: "json \<Rightarrow> bool" where
  "is_object j = (case j of JObj _ \<Rightarrow> True | _ \<Rightarrow> False)"

fun history_row ::
    "(string \<Rightarrow> string option) \<Rightarrow> frozen_submission \<Rightarrow> attempt_row \<times> observation_row option \<Rightarrow> submission_history \<Rightarrow> string + submission_history" where
  "history_row fl f (a, b) h =
     (case stage_named f (at_stage a) of
        None \<Rightarrow> Inl ''attempt_binding_mismatch''
      | Some s \<Rightarrow>
          bindE (need (at_submission a = submission_hash f \<and> at_event_id a = sg_event_id s \<and> at_hash a = sg_hash s)
            ''attempt_binding_mismatch'') (\<lambda>_.
            case b of
              None \<Rightarrow> Inr h
            | Some r \<Rightarrow>
                bindE (opt_to_sum ''invalid_receipt_json'' (strict_json_loads fl (ob_result r))) (\<lambda>result.
                bindE (need (is_object result \<and> canonical_text result = ob_result r) ''invalid_receipt_shape'') (\<lambda>_.
                bindE (need (ob_disposition r \<in> set DISPOSITIONS) ''invalid_receipt_disposition'') (\<lambda>_.
                  read_receipt f s (ob_disposition r) result h)))))"

primrec history_rows ::
    "(string \<Rightarrow> string option) \<Rightarrow> frozen_submission \<Rightarrow> (attempt_row \<times> observation_row option) list \<Rightarrow> submission_history \<Rightarrow> string + submission_history" where
  "history_rows fl f [] h = Inr h"
| "history_rows fl f (r # rs) h = bindE (history_row fl f r h) (history_rows fl f rs)"

definition history :: "(string \<Rightarrow> string option) \<Rightarrow> frozen_submission \<Rightarrow> submission_store \<Rightarrow> string + submission_history" where
  "history fl f S = history_rows fl f (submission_rows S (fs_unit f)) no_history"

subsection \<open>Progress\<close>

record submission_progress =
  pg_unit :: string
  pg_submission :: string
  pg_state :: string
  pg_next :: "string option"
  pg_decision :: string
  pg_detail :: "json option"

definition next_stage :: "frozen_submission \<Rightarrow> submission_history \<Rightarrow> string option" where
  "next_stage f h = find (\<lambda>t. t \<notin> set (hs_accepted h)) (map (stage_text \<circ> sg_name) (fs_stages f))"

definition progress :: "frozen_submission \<Rightarrow> submission_history \<Rightarrow> submission_progress" where
  "progress f h =
     (let t = next_stage f h;
          p = (\<lambda>state t detail. \<lparr>pg_unit = fs_unit f, pg_submission = submission_hash f, pg_state = state, pg_next = t,
            pg_decision = sg_event_id (last (fs_stages f)), pg_detail = detail\<rparr>) in
      case hs_failure h of
        Some (failed, detail) \<Rightarrow> p ''failed'' (Some failed) (Some detail)
      | None \<Rightarrow>
          (case hs_latest h of
             Some (t', d, detail) \<Rightarrow>
               if Some t' = t \<and> d = ''retryable'' then p ''retryable'' t (Some detail)
               else p (if t = None then ''complete'' else ''incomplete'') t None
           | None \<Rightarrow> p (if t = None then ''complete'' else ''frozen'') t None))"

end
