(* ===== verification/Submission_Run.thy ===== *)
theory Submission_Run
  imports Submission_Store Capture_Admission
begin

text \<open>
  \<open>resume_submission\<close> of \<open>adapters/hubspot/submit.py\<close>, one transaction or one call of the collector per step, so that
  the steps of several workers, of other clients of the collector and of the capture adapter interleave.  Outside
  \<open>freeze_submission\<close> a \<open>ValueError\<close>, \<open>KeyError\<close> or \<open>TypeError\<close> reaches the caller as it is; the model keeps the
  label \<open>REFUSED_PREPARATION\<close> for it.
\<close>

subsection \<open>Freezing\<close>

text \<open>\<open>freeze_submission\<close>: the reads and the insertion are transactions of their own, and the ledger is only read.\<close>

definition refused_value :: "string + 'a \<Rightarrow> string + 'a" where
  "refused_value m = (case m of Inl e \<Rightarrow> Inl (if e = UNREADABLE then REFUSED_PREPARATION else e) | Inr x \<Rightarrow> Inr x)"

definition freeze_submission ::
    "(string \<Rightarrow> string option) \<Rightarrow> decoder \<Rightarrow> capture_ledger \<Rightarrow> processing_unit \<Rightarrow> submission_prerequisites \<Rightarrow> string \<Rightarrow> submission_store
      \<Rightarrow> string + frozen_submission option \<times> submission_store" where
  "freeze_submission fl decode C u pre path S =
     bindE (target path False S) (\<lambda>_.
     bindE (load_plan fl decode S u) (\<lambda>existing.
       case existing of
         Some f \<Rightarrow> Inr (Some f, S)
       | None \<Rightarrow>
           bindE (submitted_capture fl (ss_captures S) u) (\<lambda>(bytes, cap).
           bindE (prepare fl decode C (unit_id u) cap bytes pre) (\<lambda>f.
             refused_value (freeze_plan fl decode u f path S)))))"

subsection \<open>The domain\<close>

definition verify_reused :: "(string \<Rightarrow> string option) \<Rightarrow> capture_ledger \<Rightarrow> string \<Rightarrow> json \<Rightarrow> reuse_proof \<Rightarrow> string + unit" where
  "verify_reused fl C account cap p =
     bindE (opt_to_sum UNREADABLE (Option.bind (member ''supersedes_evidence_version_id'' (rp_observation p))
       (bound_item (JStr account) cap (rp_key p)))) (\<lambda>it.
     bindE (reuse fl C account cap it) (\<lambda>found.
       need (case found of None \<Rightarrow> False | Some q \<Rightarrow> typed_equal (reuse_json q) (reuse_json p)) ''reused_evidence_integrity''))"

definition domain_stage ::
    "(string \<Rightarrow> string option) \<Rightarrow> decoder \<Rightarrow> capture_ledger \<Rightarrow> string list \<Rightarrow> submission_stage \<Rightarrow> string + unit" where
  "domain_stage fl decode C accepted s =
     bindE (if stage_text (sg_name s) \<in> set accepted then Inr True
       else bindE (stored_event fl decode C (sg_event_id s)) (\<lambda>found. Inr (found \<noteq> None))) (\<lambda>known.
       if known then verify_stage fl decode C s else Inr ())"

definition verify_domain ::
    "(string \<Rightarrow> string option) \<Rightarrow> decoder \<Rightarrow> capture_ledger \<Rightarrow> frozen_submission \<Rightarrow> string list \<Rightarrow> string + unit" where
  "verify_domain fl decode C f accepted =
     bindE (opt_to_sum UNREADABLE (stage_capture (last (fs_stages f)))) (\<lambda>cap.
     bindE (mapE (verify_reused fl C (fs_account f) cap) (fs_reused f)) (\<lambda>_.
     bindE (mapE (domain_stage fl decode C accepted) (fs_stages f)) (\<lambda>_.
     bindE (opt_to_sum UNREADABLE (account_identity cap)) (\<lambda>account.
     bindE (opt_to_sum UNREADABLE (capture_facts cap)) (\<lambda>c.
     bindE (prerequisites fl decode C account (cf_rule_hash c) (cf_evaluator_version c)
       (sg_envelope (fs_stages f ! 0)) (sg_envelope (fs_stages f ! 1))) (\<lambda>_. Inr ()))))))"

subsection \<open>A call of the collector\<close>

definition ingest_text :: "(string \<Rightarrow> string option) \<Rightarrow> decoder \<Rightarrow> string \<Rightarrow> capture_ledger \<Rightarrow> collector_error + (ingest_result \<times> capture_ledger)" where
  "ingest_text fl decode body C =
     (case decode body of
        None \<Rightarrow> Inl (Rejected ''invalid_envelope'' [])
      | Some e \<Rightarrow> if valid_event fl e then ingest_any fl e C else Inl (Rejected ''invalid_envelope'' []))"

text \<open>
  What becomes of a call: the collector serves it, SQLite is busy, or an exception reaches the caller before or
  after the transaction committed.
\<close>

datatype call_fate = Served | Contended | Lost bool

datatype call_answer = Acknowledged ingest_result | Declined collector_error | Raised

definition after_call :: "(string \<Rightarrow> string option) \<Rightarrow> decoder \<Rightarrow> string \<Rightarrow> capture_ledger \<Rightarrow> capture_ledger" where
  "after_call fl decode body C = (case ingest_text fl decode body C of Inl _ \<Rightarrow> C | Inr (_, C') \<Rightarrow> C')"

fun call_collector ::
    "(string \<Rightarrow> string option) \<Rightarrow> decoder \<Rightarrow> call_fate \<Rightarrow> submission_stage \<Rightarrow> capture_ledger \<Rightarrow> call_answer \<times> capture_ledger" where
  "call_collector fl decode Served s C =
     (case ingest_text fl decode (canonical_text (sg_envelope s)) C of
        Inr (r, C') \<Rightarrow> (Acknowledged r, C')
      | Inl err \<Rightarrow> (if error_status err = 500 then Raised else Declined err, C))"
| "call_collector fl decode Contended s C =
     (if captured_stage (sg_name s) then Declined (Conflict ''v2_admission_contended'' [sg_event_id s]) else Raised, C)"
| "call_collector fl decode (Lost committed) s C =
     (Raised, if committed then after_call fl decode (canonical_text (sg_envelope s)) C else C)"

definition valid_ack :: "submission_stage \<Rightarrow> ingest_result \<Rightarrow> bool" where
  "valid_ack s r \<longleftrightarrow> ir_event_id r = sg_event_id s \<and> ir_hash r = sg_hash s"

fun retryable :: "collector_error \<Rightarrow> bool" where
  "retryable (Conflict reason _) = (reason = ''v2_admission_contended'')"
| "retryable _ = False"

definition status_text :: "ingest_result \<Rightarrow> string" where
  "status_text r = (case ir_status r of Created \<Rightarrow> ''created'' | Duplicate \<Rightarrow> ''duplicate'')"

subsection \<open>A worker\<close>

text \<open>Where a worker stands in \<open>resume_submission\<close>: the plan it loaded, the stages it has left, what it has read.\<close>

datatype worker =
    Starting processing_unit
  | Looking frozen_submission "submission_stage list"
  | Checking frozen_submission "submission_stage list" submission_history
  | Sending frozen_submission "submission_stage list" submission_stage
  | Calling frozen_submission "submission_stage list" submission_stage int
  | Answered frozen_submission "submission_stage list" submission_stage int call_answer
  | Observing frozen_submission "submission_stage list" submission_stage int ingest_result
  | Reporting frozen_submission
  | Finished "string + submission_progress"

record submission_world =
  sw_store :: submission_store
  sw_ledger :: capture_ledger
  sw_path :: string

definition reason_json :: "string \<Rightarrow> json" where
  "reason_json r = JObj [(''reason'', JStr r)]"

text \<open>An observation that raises ends the worker, except after an exception of the collector.\<close>

definition observed :: "int \<Rightarrow> string \<Rightarrow> json \<Rightarrow> worker \<Rightarrow> submission_world \<Rightarrow> submission_world \<times> worker" where
  "observed a disposition result continue W =
     (case observe a disposition result (sw_store W) of
        Inl e \<Rightarrow> (W, Finished (Inl e))
      | Inr S \<Rightarrow> (W\<lparr>sw_store := S\<rparr>, continue))"

definition settle ::
    "(string \<Rightarrow> string option) \<Rightarrow> decoder \<Rightarrow> (collector_error \<Rightarrow> json) \<Rightarrow> frozen_submission \<Rightarrow> submission_stage list \<Rightarrow> submission_stage
      \<Rightarrow> int \<Rightarrow> call_answer \<Rightarrow> submission_world \<Rightarrow> submission_world \<times> worker" where
  "settle fl decode error_body f rest s a ans W =
     (case ans of
        Declined err \<Rightarrow> observed a (if retryable err then ''retryable'' else ''rejected'') (error_body err) (Reporting f) W
      | Raised \<Rightarrow> (fst (observed a ''unknown'' (reason_json ''collector_return_unknown'') (Reporting f) W), Finished (Inl ''Exception''))
      | Acknowledged r \<Rightarrow>
          if \<not> valid_ack s r then observed a ''rejected'' (reason_json ''invalid_collector_ack'') (Reporting f) W
          else (case verify_stage fl decode (sw_ledger W) s of
              Inl e \<Rightarrow> (W, Finished (Inl e))
            | Inr _ \<Rightarrow> (W, Observing f rest s a r)))"

definition checked ::
    "(string \<Rightarrow> string option) \<Rightarrow> decoder \<Rightarrow> frozen_submission \<Rightarrow> submission_stage list \<Rightarrow> submission_history \<Rightarrow> capture_ledger \<Rightarrow> worker" where
  "checked fl decode f left h C =
     (case verify_domain fl decode C f (hs_accepted h) of
        Inl e \<Rightarrow> Finished (Inl e)
      | Inr _ \<Rightarrow>
          (case left of
             [] \<Rightarrow> Finished (Inr (progress f h))
           | s # rest \<Rightarrow>
               if hs_failure h \<noteq> None then Finished (Inr (progress f h))
               else if stage_text (sg_name s) \<in> set (hs_accepted h) then Looking f rest
               else Sending f rest s))"

definition started_worker :: "(string \<Rightarrow> string option) \<Rightarrow> decoder \<Rightarrow> processing_unit \<Rightarrow> submission_world \<Rightarrow> worker" where
  "started_worker fl decode u W =
     (case bindE (target (sw_path W) False (sw_store W)) (\<lambda>_. load_plan fl decode (sw_store W) u) of
        Inl e \<Rightarrow> Finished (Inl e)
      | Inr None \<Rightarrow> Finished (Inl ''missing_frozen_submission'')
      | Inr (Some f) \<Rightarrow> Looking f (fs_stages f))"

fun worker_step ::
    "(string \<Rightarrow> string option) \<Rightarrow> decoder \<Rightarrow> (collector_error \<Rightarrow> json) \<Rightarrow> call_fate \<Rightarrow> submission_world \<Rightarrow> worker
      \<Rightarrow> submission_world \<times> worker" where
  "worker_step fl decode body fate W (Starting u) = (W, started_worker fl decode u W)"
| "worker_step fl decode body fate W (Looking f left) =
     (W, case history fl f (sw_store W) of Inl e \<Rightarrow> Finished (Inl e) | Inr h \<Rightarrow> Checking f left h)"
| "worker_step fl decode body fate W (Checking f left h) = (W, checked fl decode f left h (sw_ledger W))"
| "worker_step fl decode body fate W (Sending f rest s) =
     (case attempt_stage f s (sw_store W) of
        Inl e \<Rightarrow> (W, Finished (Inl e))
      | Inr (a, S) \<Rightarrow> (W\<lparr>sw_store := S\<rparr>, Calling f rest s a))"
| "worker_step fl decode body fate W (Calling f rest s a) =
     (case call_collector fl decode fate s (sw_ledger W) of (ans, C) \<Rightarrow> (W\<lparr>sw_ledger := C\<rparr>, Answered f rest s a ans))"
| "worker_step fl decode body fate W (Answered f rest s a ans) = settle fl decode body f rest s a ans W"
| "worker_step fl decode body fate W (Observing f rest s a r) =
     observed a (''accepted_'' @ status_text r) (receipt (status_text r) s) (Looking f rest) W"
| "worker_step fl decode body fate W (Reporting f) =
     (W, Finished (case history fl f (sw_store W) of Inl e \<Rightarrow> Inl e | Inr h \<Rightarrow> Inr (progress f h)))"
| "worker_step fl decode body fate W (Finished r) = (W, Finished r)"

text \<open>\<open>resume_submission\<close> without interference: every stage takes at most six steps, the start and the last look
  three, and a plan has at most four stages: \<open>resume_submission_returns\<close> in \<open>Submission_Safety\<close>.\<close>

primrec work :: "(string \<Rightarrow> string option) \<Rightarrow> decoder \<Rightarrow> (collector_error \<Rightarrow> json) \<Rightarrow> (nat \<Rightarrow> call_fate) \<Rightarrow> nat
    \<Rightarrow> submission_world \<times> worker \<Rightarrow> submission_world \<times> worker" where
  "work fl decode body fate 0 x = x"
| "work fl decode body fate (Suc n) x = work fl decode body fate n (worker_step fl decode body (fate n) (fst x) (snd x))"

definition resume_submission ::
    "(string \<Rightarrow> string option) \<Rightarrow> decoder \<Rightarrow> (collector_error \<Rightarrow> json) \<Rightarrow> (nat \<Rightarrow> call_fate) \<Rightarrow> processing_unit \<Rightarrow> submission_world
      \<Rightarrow> submission_world \<times> worker" where
  "resume_submission fl decode body fate u W = work fl decode body fate 27 (W, Starting u)"

subsection \<open>Everyone at once\<close>

text \<open>
  Any worker takes its next step with any fate of its call; anyone starts a worker or freezes a plan; the capture
  adapter works on; other clients post valid events.
\<close>

inductive fleet_step ::
    "(string \<Rightarrow> string option) \<Rightarrow> decoder \<Rightarrow> (collector_error \<Rightarrow> json) \<Rightarrow> submission_world \<times> worker list \<Rightarrow> submission_world \<times> worker list \<Rightarrow> bool"
  for fl decode body where
  working: "i < length ws \<Longrightarrow> worker_step fl decode body fate W (ws ! i) = (W', w) \<Longrightarrow> fleet_step fl decode body (W, ws) (W', ws[i := w])"
| starting: "fleet_step fl decode body (W, ws) (W, ws @ [Starting u])"
| freezing: "freeze_plan fl decode u f (sw_path W) (sw_store W) = Inr (r, S) \<Longrightarrow> fleet_step fl decode body (W, ws) (W\<lparr>sw_store := S\<rparr>, ws)"
| capturing: "store_run fl (ss_captures (sw_store W)) K \<Longrightarrow>
    fleet_step fl decode body (W, ws) (W\<lparr>sw_store := (sw_store W)\<lparr>ss_captures := K\<rparr>\<rparr>, ws)"
| posting: "valid_event fl e \<Longrightarrow> posted_canonically e \<Longrightarrow> ingest_any fl e (sw_ledger W) = Inr (res, C) \<Longrightarrow>
    fleet_step fl decode body (W, ws) (W\<lparr>sw_ledger := C\<rparr>, ws)"

inductive fleet ::
    "(string \<Rightarrow> string option) \<Rightarrow> decoder \<Rightarrow> (collector_error \<Rightarrow> json) \<Rightarrow> submission_world \<times> worker list \<Rightarrow> bool" for fl decode body where
  fresh: "fleet fl decode body (\<lparr>sw_store = new_submission_store path empty_store, sw_ledger = empty_captures, sw_path = ledger_path\<rparr>, [])"
| step: "fleet fl decode body x \<Longrightarrow> fleet_step fl decode body x y \<Longrightarrow> fleet fl decode body y"

end
