(* ===== verification/Submission_Fleet.thy ===== *)
theory Submission_Fleet
  imports Submission_Run
begin

text \<open>
  The invariant of any number of submissions at once, over one submission store and one ledger: plans are frozen
  once, stages are sent in the order of the plan, and a receipt that says accepted is backed by the ledger for good.
\<close>

subsection \<open>What a stage leaves in the ledger\<close>

definition event_recorded :: "capture_ledger \<Rightarrow> string \<Rightarrow> string \<Rightarrow> bool" where
  "event_recorded C k h \<longleftrightarrow> (\<exists>e\<in>set (lg_events (cl_base C)). e_event_id e = k \<and> e_hash e = h)"

definition result_json :: "int \<Rightarrow> int \<Rightarrow> string \<Rightarrow> json" where
  "result_json score threshold output = JObj [(''score'', JInt score), (''threshold'', JInt threshold), (''output'', JStr output)]"

definition planned_result :: "submission_stage \<Rightarrow> int \<Rightarrow> int \<Rightarrow> string \<Rightarrow> bool" where
  "planned_result s score threshold output \<longleftrightarrow>
     (case Option.bind (member ''payload'' (sg_envelope s)) (member ''result'') of
        None \<Rightarrow> False
      | Some j \<Rightarrow> typed_equal (result_json score threshold output) j)"

definition decided_as :: "capture_ledger \<Rightarrow> submission_stage \<Rightarrow> bool" where
  "decided_as C s \<longleftrightarrow> (\<exists>d\<in>set (cl_decisions C). d_event_id (dv_row d) = sg_event_id s \<and>
     planned_result s (d_score (dv_row d)) (d_threshold (dv_row d)) (d_output (dv_row d)))"

definition stage_settled :: "capture_ledger \<Rightarrow> submission_stage \<Rightarrow> bool" where
  "stage_settled C s \<longleftrightarrow> event_recorded C (sg_event_id s) (sg_hash s) \<and> (sg_name s = DecisionStage \<longrightarrow> decided_as C s)"

lemma cextends_sets:
  assumes "cextends C C'"
  shows "set (lg_events (cl_base C)) \<subseteq> set (lg_events (cl_base C'))" "set (cl_decisions C) \<subseteq> set (cl_decisions C')"
  using assms unfolding cextends_def extends_def by (blast dest: grown_subset)+

text \<open>A decision of schema version 1 has an event of schema version 1.\<close>

lemma insert_event_rows:
  assumes "insert_event r L = Inr L'"
  shows "\<exists>n. lg_events L' = lg_events L @ [r\<lparr>e_seq := n\<rparr>]"
  using assms by (auto simp: insert_event_def)

definition legacy_versions :: "ledger \<Rightarrow> bool" where
  "legacy_versions L \<longleftrightarrow> (\<forall>d\<in>set (lg_decisions L). \<forall>e\<in>set (lg_events L). e_event_id e = d_event_id d \<longrightarrow> e_schema_version e = ''1'')"

lemma legacy_versions_write:
  assumes "legacy_versions L" "ledger_refs L" "en_event_id e \<notin> event_ids L" "write_event e L = Inr L'"
  shows "legacy_versions L'"
proof -
  have ids: "d_event_id d \<in> event_ids L" if "d \<in> set (lg_decisions L)" for d using refs_decision_events [OF assms(2)] that by blast
  have new: "d_event_id d = en_event_id e \<and> schema_version (en_payload e) = ''1''" if "d \<in> set (new_decisions e (en_payload e) n)" for d n
    using that by (cases "en_payload e") (simp_all add: decision_row_of_def)
  have old: "e_event_id x \<in> event_ids L" if "x \<in> set (lg_events L)" for x using that by (simp add: event_ids_def)
  show ?thesis
    unfolding legacy_versions_def write_event_tables(2,5) [OF assms(4)]
  proof (intro ballI impI)
    fix d x
    assume d: "d \<in> set (lg_decisions L @ new_decisions e (en_payload e) (lg_seq L + 1))"
      and x: "x \<in> set (lg_events L @ [(event_row_of e)\<lparr>e_seq := lg_seq L + 1\<rparr>])" and k: "e_event_id x = d_event_id d"
    show "e_schema_version x = ''1''"
    proof (cases "d \<in> set (lg_decisions L)")
      case True
      then have "e_event_id x \<noteq> en_event_id e" using ids assms(3) k by metis
      then have "x \<in> set (lg_events L)" using x by (auto simp: event_row_of_def)
      then show ?thesis using assms(1) True k by (simp add: legacy_versions_def)
    next
      case False
      then have n: "d_event_id d = en_event_id e" "schema_version (en_payload e) = ''1''" using d new by auto
      then have "x \<notin> set (lg_events L)" using old assms(3) k by metis
      then show ?thesis using x n by (auto simp: event_row_of_def)
    qed
  qed
qed

lemma legacy_versions_reachable: "capture_reachable fl C \<Longrightarrow> legacy_versions (cl_base C)"
proof (induction rule: capture_reachable_write)
  case empty
  show ?case by (simp add: legacy_versions_def empty_captures_def empty_ledger_def)
next
  case (legacy C e L)
  then have "ledger_refs (cl_base C)" using reachable_capture_invariant capture_invariant_def by blast
  with legacy show ?case using legacy_versions_write by simp
next
  case (captured C q C')
  have ids: "d_event_id ` set (lg_decisions (cl_base C)) \<subseteq> event_ids (cl_base C)"
    using captured(1) reachable_capture_invariant refs_decision_events by (auto simp: capture_invariant_def)
  obtain L where L: "insert_event (capture_event_row q) (cl_base C) = Inr L" "cl_base C' = L"
    by (rule write_captured_tables [OF captured(7)])
  obtain n where n: "lg_events L = lg_events (cl_base C) @ [(capture_event_row q)\<lparr>e_seq := n\<rparr>]" using insert_event_rows [OF L(1)] by blast
  show ?case
    using captured.IH ids captured(4)
    by (auto simp: legacy_versions_def L(2) insert_event_L(2) [OF L(1)] n capture_event_row_def)
qed

text \<open>What \<open>_verify_stage\<close> has seen of a decision is in the capture tables.\<close>

lemma stored_event_version:
  assumes "stored_event fl decode C k = Inr (Some e)"
  obtains r where "event_at (cl_base C) k = Some r" "str_at ''schema_version'' e = Some (e_schema_version r)"
proof -
  obtain r row where r: "event_at (cl_base C) k = Some r" "row_json fl r = Some row" "typed_equal row e"
    using assms(1) by (auto simp: stored_event_def split: option.splits)
  have "member ''schema_version'' row = Some (JStr (e_schema_version r))" using r(2) by (auto simp: row_json_def)
  then have "member ''schema_version'' e = Some (JStr (e_schema_version r))" by (rule typed_member [OF r(3)]) simp
  then show ?thesis using that r(1) by (simp add: str_at_def)
qed

lemma str_at_typed:
  assumes "typed_equal x y" "str_at k x = Some v"
  shows "str_at k y = Some v"
proof -
  have "member k x = Some (JStr v)" using assms(2) by (auto simp: str_at_def split: option.splits json.splits)
  then show ?thesis using typed_member [OF assms(1)] by (simp add: str_at_def)
qed

lemma stage_ok_version:
  assumes "stage_ok fl decode f s"
  shows "str_at ''schema_version'' (sg_envelope s) = Some (stage_schema_version (sg_name s))"
proof -
  obtain n where n: "typed_equal n (sg_envelope s)" "str_at ''schema_version'' n = Some (stage_schema_version (sg_name s))"
    using assms by (auto simp: stage_ok_def split: option.splits)
  show ?thesis by (rule str_at_typed [OF n])
qed

lemma verified_decision:
  assumes C: "capture_reachable fl C" and s: "stage_ok fl decode f s" "sg_name s = DecisionStage"
    and v: "verify_stage fl decode C s = Inr u"
  shows "decided_as C s"
proof -
  let ?k = "sg_event_id s"
  obtain e where e: "stored_event fl decode C ?k = Inr (Some e)" "typed_equal e (sg_envelope s)"
    using v by (auto simp: verify_stage_def split: option.splits)
  obtain p where p: "member ''payload'' (sg_envelope s) = Some p" using v by (auto simp: verify_stage_def split: option.splits)
  obtain r j where r: "reconstruct_any fl C ?k = Inr r" "member ''result'' p = Some j"
    "typed_equal (result_json (rs_score (rc_result r)) (rs_threshold (rc_result r)) (rs_output (rc_result r))) j"
    using v by (auto simp: verify_stage_def p s(2) result_json_def split: sum.splits option.splits)
  have "str_at ''schema_version'' (sg_envelope s) = Some ''2''" using stage_ok_version [OF s(1)] by (simp add: s(2))
  moreover obtain row where row: "event_at (cl_base C) ?k = Some row" "str_at ''schema_version'' e = Some (e_schema_version row)"
    by (rule stored_event_version [OF e(1)])
  moreover have "str_at ''schema_version'' (sg_envelope s) = Some (e_schema_version row)" by (rule str_at_typed [OF e(2) row(2)])
  ultimately have two: "e_schema_version row = ''2''" by simp
  have n: "find (\<lambda>d. d_event_id d = ?k) (lg_decisions (cl_base C)) = None"
    using legacy_versions_reachable [OF C] row(1) two find_Some_in
    by (fastforce simp: legacy_versions_def find_None_iff event_at_def)
  then obtain d where d: "decision_v2_at C ?k = Some d" using r(1) by (auto simp: reconstruct_any_def load_decision_any_def)
  then have m: "d \<in> set (cl_decisions C)" "d_event_id (dv_row d) = ?k" using find_Some_in by (force simp: decision_v2_at_def)+
  note c = captured_decision_found [OF reachable_capture_invariant [OF C] m(1)]
  from reconstruct_captured [OF c(2,1) refl c(3)] r(1)
  have "rs_score (rc_result r) = d_score (dv_row d)" "rs_threshold (rc_result r) = d_threshold (dv_row d)" "rs_output (rc_result r) = d_output (dv_row d)"
    by (auto simp: as_recorded_def m(2))
  then have "planned_result s (d_score (dv_row d)) (d_threshold (dv_row d)) (d_output (dv_row d))"
    using r(2,3) by (simp add: planned_result_def p)
  then show ?thesis unfolding decided_as_def using m by blast
qed

subsection \<open>Plans, attempts and receipts\<close>

definition planned :: "submission_store \<Rightarrow> frozen_submission \<Rightarrow> bool" where
  "planned S f \<longleftrightarrow> f \<in> fr_plan ` set (ss_frozen S)"

definition attempt_of :: "attempt_row \<Rightarrow> frozen_submission \<Rightarrow> submission_stage \<Rightarrow> bool" where
  "attempt_of a f s \<longleftrightarrow> at_unit a = fs_unit f \<and> at_submission a = submission_hash f \<and>
     at_stage a = stage_text (sg_name s) \<and> at_event_id a = sg_event_id s \<and> at_hash a = sg_hash s"

definition accepted_by :: "submission_store \<Rightarrow> frozen_submission \<Rightarrow> submission_stage \<Rightarrow> attempt_row \<Rightarrow> bool" where
  "accepted_by S f s a \<longleftrightarrow> a \<in> set (ss_attempts S) \<and> attempt_of a f s \<and>
     (\<exists>b\<in>set (ss_observations S). ob_attempt b = at_id a \<and> accepted_disposition (ob_disposition b))"

definition stage_accepted :: "submission_store \<Rightarrow> frozen_submission \<Rightarrow> submission_stage \<Rightarrow> bool" where
  "stage_accepted S f s \<longleftrightarrow> (\<exists>a. accepted_by S f s a)"

text \<open>The stages before the one an attempt is for were accepted by earlier attempts.\<close>

definition in_order :: "submission_store \<Rightarrow> attempt_row \<Rightarrow> bool" where
  "in_order S a \<longleftrightarrow> (\<exists>f before s after. planned S f \<and> fs_stages f = before @ s # after \<and> attempt_of a f s \<and>
     (\<forall>p\<in>set before. \<exists>b. accepted_by S f p b \<and> at_id b < at_id a))"

definition receipt_backed :: "submission_store \<Rightarrow> capture_ledger \<Rightarrow> observation_row \<Rightarrow> bool" where
  "receipt_backed S C b \<longleftrightarrow> accepted_disposition (ob_disposition b) \<longrightarrow>
     (\<exists>a f s. a \<in> set (ss_attempts S) \<and> at_id a = ob_attempt b \<and> planned S f \<and> s \<in> set (fs_stages f) \<and> attempt_of a f s \<and> stage_settled C s)"

definition plans_ok :: "(string \<Rightarrow> string option) \<Rightarrow> decoder \<Rightarrow> submission_store \<Rightarrow> bool" where
  "plans_ok fl decode S \<longleftrightarrow> distinct (map fr_unit (ss_frozen S)) \<and>
     (\<forall>r\<in>set (ss_frozen S). fr_unit r = fs_unit (fr_plan r) \<and> fr_submission_hash r = submission_hash (fr_plan r) \<and>
        frozen_ok fl decode (fr_plan r))"

definition rows_linked :: "submission_store \<Rightarrow> bool" where
  "rows_linked S \<longleftrightarrow> map at_id (ss_attempts S) = map int [1..<Suc (length (ss_attempts S))] \<and>
     (\<forall>b\<in>set (ss_observations S). ob_attempt b \<in> at_id ` set (ss_attempts S)) \<and> distinct (map ob_attempt (ss_observations S))"

subsection \<open>Where a worker stands\<close>

definition done_before :: "submission_store \<Rightarrow> frozen_submission \<Rightarrow> submission_stage list \<Rightarrow> bool" where
  "done_before S f left \<longleftrightarrow> planned S f \<and> (\<exists>before. fs_stages f = before @ left \<and> (\<forall>p\<in>set before. stage_accepted S f p))"

definition attempted :: "submission_store \<Rightarrow> frozen_submission \<Rightarrow> submission_stage \<Rightarrow> int \<Rightarrow> bool" where
  "attempted S f s k \<longleftrightarrow> (\<exists>a\<in>set (ss_attempts S). at_id a = k \<and> attempt_of a f s)"

definition accepted_texts :: "submission_store \<Rightarrow> frozen_submission \<Rightarrow> submission_history \<Rightarrow> bool" where
  "accepted_texts S f h \<longleftrightarrow> (\<forall>s\<in>set (fs_stages f). stage_text (sg_name s) \<in> set (hs_accepted h) \<longrightarrow> stage_accepted S f s)"

definition progress_true :: "submission_store \<Rightarrow> submission_progress \<Rightarrow> bool" where
  "progress_true S p \<longleftrightarrow> (\<exists>f. planned S f \<and> pg_unit p = fs_unit f \<and> pg_submission p = submission_hash f \<and>
     pg_decision p = sg_event_id (last (fs_stages f)) \<and> (pg_state p = ''complete'' \<longrightarrow> (\<forall>s\<in>set (fs_stages f). stage_accepted S f s)))"

fun answer_true :: "capture_ledger \<Rightarrow> call_answer \<Rightarrow> bool" where
  "answer_true C (Acknowledged r) = event_recorded C (ir_event_id r) (ir_hash r)"
| "answer_true C _ = True"

fun worker_ok :: "submission_store \<Rightarrow> capture_ledger \<Rightarrow> worker \<Rightarrow> bool" where
  "worker_ok S C (Starting u) = True"
| "worker_ok S C (Looking f left) = done_before S f left"
| "worker_ok S C (Checking f left h) = (done_before S f left \<and> accepted_texts S f h)"
| "worker_ok S C (Sending f rest s) = done_before S f (s # rest)"
| "worker_ok S C (Calling f rest s a) = (done_before S f (s # rest) \<and> attempted S f s a)"
| "worker_ok S C (Answered f rest s a ans) = (done_before S f (s # rest) \<and> attempted S f s a \<and> answer_true C ans)"
| "worker_ok S C (Observing f rest s a r) = (done_before S f (s # rest) \<and> attempted S f s a \<and> stage_settled C s)"
| "worker_ok S C (Reporting f) = planned S f"
| "worker_ok S C (Finished (Inl e)) = True"
| "worker_ok S C (Finished (Inr p)) = progress_true S p"

definition store_ok :: "(string \<Rightarrow> string option) \<Rightarrow> decoder \<Rightarrow> submission_store \<Rightarrow> capture_ledger \<Rightarrow> bool" where
  "store_ok fl decode S C \<longleftrightarrow> plans_ok fl decode S \<and> rows_linked S \<and> (\<forall>a\<in>set (ss_attempts S). in_order S a) \<and>
     (\<forall>b\<in>set (ss_observations S). receipt_backed S C b)"

text \<open>Tables only grow, and everything but \<open>plans_ok\<close> and \<open>rows_linked\<close> only asks for rows.\<close>

definition store_grows :: "submission_store \<Rightarrow> submission_store \<Rightarrow> bool" where
  "store_grows S S' \<longleftrightarrow> set (ss_frozen S) \<subseteq> set (ss_frozen S') \<and> set (ss_attempts S) \<subseteq> set (ss_attempts S') \<and>
     set (ss_observations S) \<subseteq> set (ss_observations S')"

definition ledger_grows :: "capture_ledger \<Rightarrow> capture_ledger \<Rightarrow> bool" where
  "ledger_grows C C' \<longleftrightarrow> set (lg_events (cl_base C)) \<subseteq> set (lg_events (cl_base C')) \<and> set (cl_decisions C) \<subseteq> set (cl_decisions C')"

lemma grows_refl [simp]: "store_grows S S" "ledger_grows C C"
  by (simp_all add: store_grows_def ledger_grows_def)

lemma cextends_grows: "cextends C C' \<Longrightarrow> ledger_grows C C'"
  using cextends_sets by (simp add: ledger_grows_def)

lemma settled_mono: "ledger_grows C C' \<Longrightarrow> stage_settled C s \<Longrightarrow> stage_settled C' s"
  unfolding ledger_grows_def stage_settled_def event_recorded_def decided_as_def by blast

lemma answer_mono: "ledger_grows C C' \<Longrightarrow> answer_true C ans \<Longrightarrow> answer_true C' ans"
  by (cases ans) (auto simp: ledger_grows_def event_recorded_def)

lemma store_mono:
  assumes "store_grows S S'"
  shows "planned S f \<Longrightarrow> planned S' f" "accepted_by S f s a \<Longrightarrow> accepted_by S' f s a" "stage_accepted S f s \<Longrightarrow> stage_accepted S' f s"
    "attempted S f s k \<Longrightarrow> attempted S' f s k"
  using assms unfolding store_grows_def planned_def stage_accepted_def accepted_by_def attempted_def by blast+

lemma store_mono_more:
  assumes "store_grows S S'"
  shows "in_order S a \<Longrightarrow> in_order S' a" "done_before S f left \<Longrightarrow> done_before S' f left" "accepted_texts S f h \<Longrightarrow> accepted_texts S' f h"
    "progress_true S p \<Longrightarrow> progress_true S' p"
  unfolding in_order_def done_before_def accepted_texts_def progress_true_def using store_mono [OF assms] by meson+

lemma receipt_mono:
  assumes "store_grows S S'" "ledger_grows C C'" "receipt_backed S C b"
  shows "receipt_backed S' C' b"
proof -
  have "a \<in> set (ss_attempts S) \<Longrightarrow> a \<in> set (ss_attempts S')" for a using assms(1) by (auto simp: store_grows_def)
  then show ?thesis using assms(3) store_mono(1) [OF assms(1)] settled_mono [OF assms(2)] unfolding receipt_backed_def by meson
qed

lemma worker_mono:
  assumes "store_grows S S'" "ledger_grows C C'" "worker_ok S C w"
  shows "worker_ok S' C' w"
proof (cases w)
  case (Finished r)
  then show ?thesis using assms(3) store_mono_more(4) [OF assms(1)] by (cases r) simp_all
qed (use assms(3) store_mono [OF assms(1)] store_mono_more [OF assms(1)] settled_mono [OF assms(2)] answer_mono [OF assms(2)] in simp_all)

end
