(* ===== verification/Submission_Safety.thy ===== *)
theory Submission_Safety
  imports Submission_Fleet
begin

text \<open>
  Every step of a fleet keeps the invariant, and what it gives: a plan is frozen once, stages go out in the
  order of the plan, an accepted stage is in the ledger, and a submission reported complete has its decision there.
\<close>

subsection \<open>The stages of a plan\<close>

lemma stage_text_inj: "stage_text m = stage_text n \<longleftrightarrow> m = n"
  by (cases m; cases n) auto

lemma frozen_names: "frozen_ok fl decode f \<Longrightarrow> distinct (map sg_name (fs_stages f))"
  by (auto simp: frozen_ok_def)

lemma frozen_stage_unique:
  assumes "frozen_ok fl decode f" "s \<in> set (fs_stages f)" "t \<in> set (fs_stages f)" "stage_text (sg_name s) = stage_text (sg_name t)"
  shows "s = t"
  using frozen_names [OF assms(1)] assms(2-4) by (auto simp: stage_text_inj distinct_map dest: inj_onD)

lemma frozen_stage_ok: "frozen_ok fl decode f \<Longrightarrow> s \<in> set (fs_stages f) \<Longrightarrow> stage_ok fl decode f s"
  by (simp add: frozen_ok_def list_all_iff)

lemma planned_ok: "plans_ok fl decode S \<Longrightarrow> planned S f \<Longrightarrow> frozen_ok fl decode f"
  by (auto simp: plans_ok_def planned_def)

lemma planned_unique:
  assumes "plans_ok fl decode S" "planned S f" "planned S g" "fs_unit f = fs_unit g"
  shows "f = g"
proof -
  obtain r q where r: "r \<in> set (ss_frozen S)" "f = fr_plan r" "q \<in> set (ss_frozen S)" "g = fr_plan q"
    using assms(2,3) by (auto simp: planned_def)
  then have "fr_unit r = fr_unit q" using assms(1,4) by (simp add: plans_ok_def)
  moreover have "inj_on fr_unit (set (ss_frozen S))" using assms(1) by (simp add: plans_ok_def distinct_map)
  ultimately have "r = q" using r by (meson inj_onD)
  then show ?thesis using r by simp
qed

subsection \<open>Reading the history\<close>

lemma history_row_accepted:
  assumes "history_row fl f (a, b) h = Inr h'" "t \<in> set (hs_accepted h')" "t \<notin> set (hs_accepted h)"
  obtains r s where "b = Some r" "accepted_disposition (ob_disposition r)" "stage_named f t = Some s" "at_stage a = t"
    "at_submission a = submission_hash f" "at_event_id a = sg_event_id s" "at_hash a = sg_hash s"
proof -
  have c: "(if c then x else y) = z \<longleftrightarrow> (c \<and> x = z) \<or> (\<not> c \<and> y = z)" for c and x y z :: "string + submission_history" by auto
  obtain s where s: "stage_named f (at_stage a) = Some s" using assms(1) by (auto split: option.splits)
  then have b: "at_submission a = submission_hash f" "at_event_id a = sg_event_id s" "at_hash a = sg_hash s"
    using assms(1) by auto
  obtain r where r: "b = Some r" using assms s by (cases b) auto
  then obtain result where q: "read_receipt f s (ob_disposition r) result h = Inr h'" using assms(1) s by auto
  have "stage_text (sg_name s) = at_stage a" using s find_Some_in by (force simp: stage_named_def)
  then have "accepted_disposition (ob_disposition r) \<and> at_stage a = t"
    using q assms(2,3) unfolding read_receipt_def Let_def by (auto split: if_splits)
  then show ?thesis using that r s b by blast
qed

lemma history_rows_accepted:
  assumes "history_rows fl f rs h = Inr h'" "t \<in> set (hs_accepted h')" "t \<notin> set (hs_accepted h)"
  shows "\<exists>a r s. (a, Some r) \<in> set rs \<and> accepted_disposition (ob_disposition r) \<and> stage_named f t = Some s \<and> at_stage a = t \<and>
    at_submission a = submission_hash f \<and> at_event_id a = sg_event_id s \<and> at_hash a = sg_hash s"
  using assms
proof (induction rs arbitrary: h)
  case (Cons x rs)
  obtain a b where x: "x = (a, b)" by (cases x)
  obtain h1 where h1: "history_row fl f (a, b) h = Inr h1" "history_rows fl f rs h1 = Inr h'" using Cons.prems(1) by (auto simp: x)
  show ?case
  proof (cases "t \<in> set (hs_accepted h1)")
    case True
    then show ?thesis using history_row_accepted [OF h1(1) True Cons.prems(3)] by (metis x list.set_intros(1))
  next
    case False
    then show ?thesis using Cons.IH [OF h1(2) Cons.prems(2)] by auto
  qed
qed simp

lemma history_accepted:
  assumes h: "history fl f S = Inr h" and f: "frozen_ok fl decode f"
  shows "accepted_texts S f h"
  unfolding accepted_texts_def
proof (intro ballI impI)
  fix s assume s: "s \<in> set (fs_stages f)" "stage_text (sg_name s) \<in> set (hs_accepted h)"
  let ?t = "stage_text (sg_name s)"
  obtain a r s' where a: "(a, Some r) \<in> set (submission_rows S (fs_unit f))" "accepted_disposition (ob_disposition r)"
    "stage_named f ?t = Some s'" "at_stage a = ?t" "at_submission a = submission_hash f" "at_event_id a = sg_event_id s'" "at_hash a = sg_hash s'"
    using history_rows_accepted [OF h [unfolded history_def] s(2)] by (auto simp: no_history_def)
  have "s' \<in> set (fs_stages f)" "stage_text (sg_name s') = ?t" using a(3) find_Some_in by (force simp: stage_named_def)+
  then have "s' = s" using frozen_stage_unique [OF f _ s(1)] by blast
  moreover have "r \<in> set (ss_observations S)" "a \<in> set (ss_attempts S)" "at_unit a = fs_unit f" "ob_attempt r = at_id a"
    using a(1) by (auto simp: submission_rows_def Let_def)
  ultimately show "stage_accepted S f s"
    using a(2,4-7) unfolding stage_accepted_def accepted_by_def attempt_of_def by blast
qed

lemma progress_complete:
  assumes "pg_state (progress f h) = ''complete''" "s \<in> set (fs_stages f)"
  shows "stage_text (sg_name s) \<in> set (hs_accepted h)"
proof -
  have "next_stage f h = None"
    using assms(1) unfolding progress_def Let_def by (auto split: option.splits prod.splits if_splits)
  then show ?thesis using assms(2) by (auto simp: next_stage_def find_None_iff)
qed

lemma progress_fields:
  "pg_unit (progress f h) = fs_unit f" "pg_submission (progress f h) = submission_hash f"
  "pg_decision (progress f h) = sg_event_id (last (fs_stages f))"
  unfolding progress_def Let_def by (auto split: option.splits)

lemma progress_reported:
  assumes "planned S f" "accepted_texts S f h"
  shows "progress_true S (progress f h)"
  unfolding progress_true_def
proof (intro exI [of _ f] conjI impI ballI)
  fix s assume "pg_state (progress f h) = ''complete''" "s \<in> set (fs_stages f)"
  then show "stage_accepted S f s" using progress_complete assms(2) by (simp add: accepted_texts_def)
qed (simp_all add: assms(1) progress_fields)

subsection \<open>Calls of the collector\<close>

text \<open>Pydantic leaves the members of an object in the order they were read, and canonical text has them in order.\<close>

definition keeps_order :: "decoder \<Rightarrow> bool" where
  "keeps_order decode \<longleftrightarrow> (\<forall>j e. decode (canonical_text j) = Some e \<longrightarrow> posted_canonically e)"

lemma event_at_recorded: "event_at (cl_base C) k = Some r \<Longrightarrow> event_recorded C k (e_hash r)"
  using find_Some_in unfolding event_at_def event_recorded_def by fastforce

lemma ingest_any_records:
  assumes "ingest_any fl e C = Inr (r, C')"
  shows "event_recorded C' (ir_event_id r) (ir_hash r)"
proof (cases e)
  case (Legacy x)
  then obtain L where L: "ingest x (cl_base C) = Inr (r, L)" "C' = C\<lparr>cl_base := L\<rparr>" using assms by auto
  from L(1) show ?thesis
  proof (cases rule: ingest_Inr_cases)
    case (duplicate row)
    then show ?thesis using event_at_recorded [of C' _ row] by (simp add: L(2))
  next
    case created
    then show ?thesis by (simp add: event_recorded_def L(2) write_event_tables(2) [OF created(4)] event_row_of_def)
  qed
next
  case (Captured q)
  then have "ingest_captured fl q C = Inr (r, C')" using assms by simp
  then show ?thesis
  proof (cases rule: ingest_captured_cases)
    case (duplicate row)
    then show ?thesis using event_at_recorded [of C' _ row] by simp
  next
    case created
    obtain L where L: "insert_event (capture_event_row q) (cl_base C) = Inr L" "cl_base C' = L" by (rule write_captured_tables [OF created(4)])
    then show ?thesis using insert_event_rows [OF L(1)] created(6,7) by (auto simp: event_recorded_def capture_event_row_def)
  qed
qed

subsection \<open>The steps\<close>

lemma observe_Inr:
  assumes "observe k d res S = Inr S'"
  obtains (known) "S' = S" "\<exists>b\<in>set (ss_observations S). ob_attempt b = k \<and> ob_disposition b = d"
    | (new) b where "S' = S\<lparr>ss_observations := ss_observations S @ [b]\<rparr>" "ob_attempt b = k" "ob_disposition b = d"
        "k \<in> at_id ` set (ss_attempts S)" "k \<notin> ob_attempt ` set (ss_observations S)"
proof (cases "find (\<lambda>r. ob_attempt r = k) (ss_observations S)")
  case None
  then have "k \<notin> ob_attempt ` set (ss_observations S)" by (auto simp: find_None_iff)
  then show ?thesis using assms None that(2) by (auto simp: observe_def)
next
  case (Some old)
  then have "old \<in> set (ss_observations S)" "ob_attempt old = k" using find_Some_in by force+
  then show ?thesis using assms Some that(1) by (auto simp: observe_def)
qed

lemma observe_keeps:
  assumes "observe k d res S = Inr S'" and S: "store_ok fl decode S C"
    and d: "accepted_disposition d \<Longrightarrow> \<exists>f s. planned S f \<and> s \<in> set (fs_stages f) \<and> attempted S f s k \<and> stage_settled C s"
  shows "store_ok fl decode S' C" "store_grows S S'" "\<exists>b\<in>set (ss_observations S'). ob_attempt b = k \<and> ob_disposition b = d"
    "ss_attempts S' = ss_attempts S" "ss_captures S' = ss_captures S" "ss_frozen S' = ss_frozen S"
proof -
  have "store_ok fl decode S' C \<and> store_grows S S' \<and> (\<exists>b\<in>set (ss_observations S'). ob_attempt b = k \<and> ob_disposition b = d) \<and>
    ss_attempts S' = ss_attempts S \<and> ss_captures S' = ss_captures S \<and> ss_frozen S' = ss_frozen S"
    using assms(1)
  proof (cases rule: observe_Inr)
    case known
    then show ?thesis using S by simp
  next
    case (new b)
    have g: "store_grows S S'" by (auto simp: store_grows_def new(1))
    have "receipt_backed S' C b"
      unfolding receipt_backed_def
    proof
      assume "accepted_disposition (ob_disposition b)"
      then obtain f s a where a: "planned S f" "s \<in> set (fs_stages f)" "a \<in> set (ss_attempts S)" "at_id a = k" "attempt_of a f s" "stage_settled C s"
        using d unfolding new(3) attempted_def by blast
      then show "\<exists>a f s. a \<in> set (ss_attempts S') \<and> at_id a = ob_attempt b \<and> planned S' f \<and> s \<in> set (fs_stages f) \<and> attempt_of a f s \<and> stage_settled C s"
        using store_mono(1) [OF g] new(1,2) by (metis (no_types, lifting) submission_store.ext_inject submission_store.surjective submission_store.update_convs(6))
    qed
    moreover have "\<forall>x\<in>set (ss_observations S). receipt_backed S' C x" using S receipt_mono [OF g grows_refl(2)] by (simp add: store_ok_def)
    moreover have "\<forall>a\<in>set (ss_attempts S'). in_order S' a" using S store_mono_more(1) [OF g] by (simp add: store_ok_def new(1))
    moreover have "plans_ok fl decode S'" "rows_linked S'" using S new(2,4,5) by (simp_all add: store_ok_def plans_ok_def rows_linked_def new(1))
    ultimately have "store_ok fl decode S' C" by (simp add: store_ok_def new(1))
    then show ?thesis using g new(1-3) by simp
  qed
  then show "store_ok fl decode S' C" "store_grows S S'" "\<exists>b\<in>set (ss_observations S'). ob_attempt b = k \<and> ob_disposition b = d"
    "ss_attempts S' = ss_attempts S" "ss_captures S' = ss_captures S" "ss_frozen S' = ss_frozen S" by blast+
qed

lemma attempt_keeps:
  assumes a: "attempt_stage f s S = Inr (k, S')" and S: "store_ok fl decode S C" and f: "done_before S f (s # rest)"
  shows "store_ok fl decode S' C" "store_grows S S'" "attempted S' f s k" "ss_captures S' = ss_captures S" "ss_frozen S' = ss_frozen S"
proof -
  let ?n = "int (length (ss_attempts S)) + 1"
  let ?a = "\<lparr>at_id = ?n, at_unit = fs_unit f, at_submission = submission_hash f, at_stage = stage_text (sg_name s),
    at_event_id = sg_event_id s, at_hash = sg_hash s\<rparr>"
  have S': "S' = S\<lparr>ss_attempts := ss_attempts S @ [?a]\<rparr>" "k = ?n" using a by (auto simp: attempt_stage_def Let_def)
  have g: "store_grows S S'" by (auto simp: store_grows_def S')
  have of_: "attempt_of ?a f s" by (simp add: attempt_of_def)
  have num: "map at_id (ss_attempts S) = map int [1..<Suc (length (ss_attempts S))]" using S by (simp add: store_ok_def rows_linked_def)
  have small: "at_id x < ?n" if "x \<in> set (ss_attempts S)" for x
  proof -
    have "at_id x \<in> set (map int [1..<Suc (length (ss_attempts S))])" using that by (metis image_eqI list.set_map num)
    then show ?thesis by auto
  qed
  obtain before where b: "fs_stages f = before @ s # rest" "\<forall>p\<in>set before. stage_accepted S f p" "planned S f"
    using f by (auto simp: done_before_def)
  have "\<forall>p\<in>set before. \<exists>x. accepted_by S' f p x \<and> at_id x < at_id ?a"
  proof
    fix p assume "p \<in> set before"
    then obtain x where x: "accepted_by S f p x" using b(2) by (auto simp: stage_accepted_def)
    then have "x \<in> set (ss_attempts S)" by (simp add: accepted_by_def)
    then show "\<exists>x. accepted_by S' f p x \<and> at_id x < at_id ?a" using store_mono(2) [OF g x] small by auto
  qed
  then have "in_order S' ?a" unfolding in_order_def using b(1) of_ store_mono(1) [OF g b(3)] by blast
  moreover have "\<forall>x\<in>set (ss_attempts S). in_order S' x" using S store_mono_more(1) [OF g] by (simp add: store_ok_def)
  moreover have "\<forall>x\<in>set (ss_observations S'). receipt_backed S' C x"
    using S receipt_mono [OF g grows_refl(2)] by (simp add: store_ok_def S')
  moreover have "rows_linked S'" using S num by (auto simp: store_ok_def rows_linked_def S')
  moreover have "plans_ok fl decode S'" using S by (simp add: store_ok_def plans_ok_def S')
  ultimately show "store_ok fl decode S' C" by (simp add: store_ok_def S')
  show "attempted S' f s k" using of_ by (auto simp: attempted_def S')
  show "store_grows S S'" by (rule g)
  show "ss_captures S' = ss_captures S" "ss_frozen S' = ss_frozen S" by (simp_all add: S')
qed

lemma call_keeps:
  assumes C: "capture_reachable fl C" and law: "keeps_order decode" and "call_collector fl decode fate s C = (ans, C')"
  shows "capture_reachable fl C' \<and> cextends C C' \<and> answer_true C' ans"
proof -
  have t: "capture_reachable fl C1 \<and> cextends C C1 \<and> event_recorded C1 (ir_event_id r) (ir_hash r)"
    if i: "ingest_text fl decode (canonical_text (sg_envelope s)) C = Inr (r, C1)" for r C1
  proof -
    obtain e where e: "decode (canonical_text (sg_envelope s)) = Some e" "valid_event fl e" "ingest_any fl e C = Inr (r, C1)"
      using i by (auto simp: ingest_text_def split: option.splits if_splits)
    have "posted_canonically e" using law e(1) by (auto simp: keeps_order_def)
    then have "capture_reachable fl C1" using capture_reachable.step [OF C e(2) _ e(3)] by blast
    then show ?thesis using ingest_any_extends [OF e(3)] ingest_any_records [OF e(3)] by blast
  qed
  show ?thesis
    using assms(3) C t
    by (cases fate) (auto simp: after_call_def split: sum.splits prod.splits if_splits)
qed

lemma store_ok_cong:
  assumes "ss_frozen S' = ss_frozen S" "ss_attempts S' = ss_attempts S" "ss_observations S' = ss_observations S"
  shows "store_ok fl decode S' C = store_ok fl decode S C" "worker_ok S' C w = worker_ok S C w"
proof -
  have g: "store_grows S S'" "store_grows S' S" using assms by (simp_all add: store_grows_def)
  show "store_ok fl decode S' C = store_ok fl decode S C"
    using receipt_mono [OF g(1) grows_refl(2)] receipt_mono [OF g(2) grows_refl(2)] store_mono_more(1) [OF g(1)] store_mono_more(1) [OF g(2)]
    unfolding store_ok_def plans_ok_def rows_linked_def assms by blast
  show "worker_ok S' C w = worker_ok S C w" using worker_mono [OF g(1) grows_refl(2)] worker_mono [OF g(2) grows_refl(2)] by blast
qed

lemma target_Inr:
  assumes "target path b S = Inr S'"
  shows "ss_frozen S' = ss_frozen S" "ss_attempts S' = ss_attempts S" "ss_observations S' = ss_observations S" "ss_captures S' = ss_captures S"
  using assms by (auto simp: target_def split: option.splits if_splits)

lemma load_plan_Some:
  assumes "load_plan fl decode S u = Inr (Some f)"
  obtains r where "find (\<lambda>r. fr_unit r = unit_id u) (ss_frozen S) = Some r" "fr_plan r = f" "frozen_ok fl decode f"
    "submission_hash f = fr_submission_hash r" "fs_unit f = unit_id u"
  using assms by (auto simp: load_plan_def from_plan_def plan_bound_def Let_def split: option.splits)

lemma freeze_Inr:
  assumes "freeze_plan fl decode u proposed path S = Inr (w, S')"
  obtains (won) f where "w = Some f" "ss_frozen S' = ss_frozen S" "ss_attempts S' = ss_attempts S" "ss_observations S' = ss_observations S"
      "f \<in> fr_plan ` set (ss_frozen S)" "fs_unit f = unit_id u"
    | (inserted) r where "w = Some proposed" "ss_frozen S' = ss_frozen S @ [r]" "ss_attempts S' = ss_attempts S" "ss_observations S' = ss_observations S"
      "fr_unit r = unit_id u" "fr_plan r = proposed" "fr_submission_hash r = submission_hash proposed" "fs_unit proposed = unit_id u"
      "unit_id u \<notin> fr_unit ` set (ss_frozen S)" "frozen_ok fl decode proposed"
proof -
  obtain S1 found where t: "target path True S = Inr S1" "load_plan fl decode S1 u = Inr found"
    using assms by (auto simp: freeze_plan_def)
  note e = target_Inr [OF t(1)]
  show ?thesis
  proof (cases found)
    case (Some f)
    then have "w = Some f" "S' = S1" using assms t by (auto simp: freeze_plan_def)
    moreover obtain r where "find (\<lambda>r. fr_unit r = unit_id u) (ss_frozen S1) = Some r" "fr_plan r = f" "fs_unit f = unit_id u"
      using load_plan_Some t(2) Some by metis
    ultimately show ?thesis using won e find_Some_in by (metis image_eqI)
  next
    case None
    let ?r = "\<lparr>fr_unit = unit_id u, fr_capture_hash = fs_capture_hash proposed,
      fr_submission_hash = submission_hash proposed, fr_plan = proposed\<rparr>"
    obtain S2 where i: "insert_frozen ?r S1 = Inr S2" "load_plan fl decode S2 u = Inr w" "S' = S2"
      using assms t None by (auto simp: freeze_plan_def)
    have S2: "S2 = S1\<lparr>ss_frozen := ss_frozen S1 @ [?r]\<rparr>" and n: "unit_id u \<notin> fr_unit ` set (ss_frozen S1)"
      using i(1) by (auto simp: insert_frozen_def)
    have fd: "find (\<lambda>r. fr_unit r = unit_id u) (ss_frozen S2) = Some ?r"
      using t(2) None n find_key_None [of fr_unit "unit_id u" "ss_frozen S1"] by (simp add: S2 find_append)
    have "w \<noteq> None" using i(2) fd by (auto simp: load_plan_def from_plan_def)
    then obtain f where f: "load_plan fl decode S2 u = Inr (Some f)" "w = Some f" using i(2) by auto
    obtain r where "fr_plan r = f" "frozen_ok fl decode f" "fs_unit f = unit_id u" "r = ?r" using load_plan_Some [OF f(1)] fd by auto
    then show ?thesis using inserted [of ?r] e n f(2) by (simp add: i(3) S2)
  qed
qed

lemma freeze_keeps:
  assumes "freeze_plan fl decode u proposed path S = Inr (w, S')" and S: "store_ok fl decode S C"
  shows "store_ok fl decode S' C" "store_grows S S'"
proof -
  have "store_ok fl decode S' C \<and> store_grows S S'"
    using assms(1)
  proof (cases rule: freeze_Inr)
    case (won f)
    then show ?thesis using S store_ok_cong(1) [of S' S] by (simp add: store_grows_def)
  next
    case (inserted r)
    have g: "store_grows S S'" using inserted(2-4) by (auto simp: store_grows_def)
    have "plans_ok fl decode S'" "rows_linked S'"
      using S inserted(2-) by (auto simp: store_ok_def plans_ok_def rows_linked_def)
    then show ?thesis
      using S g receipt_mono [OF g grows_refl(2)] store_mono_more(1) [OF g] inserted(3,4) by (simp add: store_ok_def)
  qed
  then show "store_ok fl decode S' C" "store_grows S S'" by blast+
qed

subsection \<open>The fleet\<close>

definition fleet_ok :: "(string \<Rightarrow> string option) \<Rightarrow> decoder \<Rightarrow> submission_world \<Rightarrow> worker list \<Rightarrow> bool" where
  "fleet_ok fl decode W ws \<longleftrightarrow> capture_reachable fl (sw_ledger W) \<and> store_ok fl decode (sw_store W) (sw_ledger W) \<and>
     list_all (worker_ok (sw_store W) (sw_ledger W)) ws"

text \<open>A step that grows the store and the ledger leaves every other worker where it stood.\<close>

lemma fleet_grows:
  assumes "fleet_ok fl decode W ws" "store_grows (sw_store W) (sw_store W')" "cextends (sw_ledger W) (sw_ledger W')"
    "capture_reachable fl (sw_ledger W')" "store_ok fl decode (sw_store W') (sw_ledger W')"
  shows "fleet_ok fl decode W' ws"
  using assms worker_mono [OF assms(2) cextends_grows [OF assms(3)]] by (auto simp: fleet_ok_def list_all_iff)

lemma store_ok_ledger:
  assumes "store_ok fl decode S C" "cextends C C'"
  shows "store_ok fl decode S C'"
  using assms(1) receipt_mono [OF grows_refl(1) cextends_grows [OF assms(2)]] by (simp add: store_ok_def)

lemma settle_keeps:
  assumes ok: "capture_reachable fl (sw_ledger W)" "store_ok fl decode (sw_store W) (sw_ledger W)"
    and w: "worker_ok (sw_store W) (sw_ledger W) (Answered f rest s a ans)"
    and st: "settle fl decode body f rest s a ans W = (W', w')"
  shows "store_ok fl decode (sw_store W') (sw_ledger W) \<and> store_grows (sw_store W) (sw_store W') \<and> sw_ledger W' = sw_ledger W \<and>
    worker_ok (sw_store W') (sw_ledger W) w'"
proof -
  let ?S = "sw_store W" and ?C = "sw_ledger W"
  have f: "planned ?S f" using w by (simp add: done_before_def)
  have obs: "store_ok fl decode (sw_store V) ?C \<and> store_grows ?S (sw_store V) \<and> sw_ledger V = ?C \<and> worker_ok (sw_store V) ?C x"
    if o: "observed a d res (Reporting f) W = (V, x)" and d: "d \<in> {''retryable'', ''rejected'', ''unknown''}" for d res V x
  proof (cases "observe a d res ?S")
    case (Inl e)
    then show ?thesis using o ok by (auto simp: observed_def)
  next
    case (Inr S1)
    have "\<not> accepted_disposition d" using d by (auto simp: accepted_disposition_def)
    then have k: "store_ok fl decode S1 ?C" "store_grows ?S S1" using observe_keeps [OF Inr ok(2)] by blast+
    then show ?thesis using o Inr store_mono(1) [OF k(2) f] by (auto simp: observed_def)
  qed
  show ?thesis
  proof (cases ans)
    case (Declined err)
    then show ?thesis using st obs [of "if retryable err then ''retryable'' else ''rejected''" "body err" W' w'] by (simp add: settle_def)
  next
    case Raised
    have "store_ok fl decode (sw_store W') ?C \<and> store_grows ?S (sw_store W') \<and> sw_ledger W' = ?C"
      using st obs [of "''unknown''" "reason_json ''collector_return_unknown''" "fst (observed a ''unknown'' (reason_json ''collector_return_unknown'') (Reporting f) W)"]
      by (simp add: settle_def Raised) (metis prod.collapse)
    then show ?thesis using st by (auto simp: settle_def Raised)
  next
    case (Acknowledged r)
    show ?thesis
    proof (cases "valid_ack s r")
      case False
      then show ?thesis using st obs [of "''rejected''" "reason_json ''invalid_collector_ack''" W' w'] by (simp add: settle_def Acknowledged)
    next
      case True
      show ?thesis
      proof (cases "verify_stage fl decode ?C s")
        case (Inl e)
        then show ?thesis using st True ok by (auto simp: settle_def Acknowledged)
      next
        case (Inr u)
        have "event_recorded ?C (sg_event_id s) (sg_hash s)" using w True by (simp add: Acknowledged valid_ack_def)
        moreover have "stage_ok fl decode f s"
          using frozen_stage_ok planned_ok ok(2) f w by (auto simp: store_ok_def done_before_def)
        then have "sg_name s = DecisionStage \<longrightarrow> decided_as ?C s" using verified_decision [OF ok(1) _ _ Inr] by blast
        ultimately show ?thesis using st True Inr ok w by (auto simp: settle_def Acknowledged stage_settled_def)
      qed
    qed
  qed
qed

lemma observing_keeps:
  assumes ok: "store_ok fl decode (sw_store W) (sw_ledger W)" and w: "worker_ok (sw_store W) (sw_ledger W) (Observing f rest s a r)"
    and st: "worker_step fl decode body fate W (Observing f rest s a r) = (W', w')"
  shows "store_ok fl decode (sw_store W') (sw_ledger W) \<and> store_grows (sw_store W) (sw_store W') \<and> sw_ledger W' = sw_ledger W \<and>
    worker_ok (sw_store W') (sw_ledger W) w'"
proof (cases "observe a (''accepted_'' @ status_text r) (receipt (status_text r) s) (sw_store W)")
  case (Inl e)
  then show ?thesis using st ok by (auto simp: observed_def)
next
  case (Inr S')
  have f: "planned (sw_store W) f" "s \<in> set (fs_stages f)" "attempted (sw_store W) f s a" "stage_settled (sw_ledger W) s"
    using w by (auto simp: done_before_def)
  have k: "store_ok fl decode S' (sw_ledger W)" "store_grows (sw_store W) S'"
    "\<exists>b\<in>set (ss_observations S'). ob_attempt b = a \<and> ob_disposition b = ''accepted_'' @ status_text r"
    using observe_keeps [OF Inr ok] f by blast+
  have W': "W' = W\<lparr>sw_store := S'\<rparr>" "w' = Looking f rest" using st Inr by (auto simp: observed_def)
  have "accepted_disposition (''accepted_'' @ status_text r)" by (simp add: accepted_disposition_def)
  then have "stage_accepted S' f s"
    using k(3) store_mono(4) [OF k(2) f(3)] unfolding stage_accepted_def accepted_by_def attempted_def by metis
  moreover have "done_before S' f (s # rest)" using store_mono_more(2) [OF k(2)] w by simp
  ultimately have "done_before S' f rest" unfolding done_before_def by (force intro: exI [of _ "_ @ [s]"])
  then show ?thesis using k(1,2) by (simp add: W')
qed

lemma started_ok:
  assumes "store_ok fl decode (sw_store W) (sw_ledger W)"
  shows "worker_ok (sw_store W) (sw_ledger W) (started_worker fl decode u W)"
proof (cases "bindE (target (sw_path W) False (sw_store W)) (\<lambda>_. load_plan fl decode (sw_store W) u)")
  case (Inr found)
  show ?thesis
  proof (cases found)
    case None
    then show ?thesis using Inr by (simp only: started_worker_def) simp
  next
    case (Some f)
    then obtain r where "find (\<lambda>r. fr_unit r = unit_id u) (ss_frozen (sw_store W)) = Some r" "fr_plan r = f"
      using Inr by (auto elim: load_plan_Some)
    then have "planned (sw_store W) f" using find_Some_in by (force simp: planned_def)
    then show ?thesis using Inr by (simp only: started_worker_def Some) (simp add: done_before_def)
  qed
qed (simp add: started_worker_def)

lemma checked_ok:
  assumes "worker_ok S C (Checking f left h)"
  shows "worker_ok S C (checked fl decode f left h C)"
proof -
  have d: "done_before S f left" "accepted_texts S f h" "planned S f" using assms by (auto simp: done_before_def)
  note p = progress_reported [OF d(3,2)]
  show ?thesis
  proof (cases left)
    case Nil
    then show ?thesis using p by (simp add: checked_def split: sum.split)
  next
    case (Cons s rest)
    have "done_before S f rest" if "stage_text (sg_name s) \<in> set (hs_accepted h)"
      using that d(1,2) unfolding done_before_def accepted_texts_def Cons by (force intro: exI [of _ "_ @ [s]"])
    then show ?thesis using p d(1) by (simp add: checked_def Cons split: sum.split)
  qed
qed

lemma worker_step_keeps:
  assumes ok: "capture_reachable fl (sw_ledger W)" "store_ok fl decode (sw_store W) (sw_ledger W)" and law: "keeps_order decode"
    and w: "worker_ok (sw_store W) (sw_ledger W) w" and st: "worker_step fl decode body fate W w = (W', w')"
  shows "capture_reachable fl (sw_ledger W') \<and> store_ok fl decode (sw_store W') (sw_ledger W') \<and> store_grows (sw_store W) (sw_store W') \<and>
    cextends (sw_ledger W) (sw_ledger W') \<and> worker_ok (sw_store W') (sw_ledger W') w'"
proof -
  have pl: "plans_ok fl decode (sw_store W)" using ok(2) by (simp add: store_ok_def)
  have hist: "accepted_texts (sw_store W) f h" if "history fl f (sw_store W) = Inr h" "planned (sw_store W) f" for f h
    by (rule history_accepted [OF that(1) planned_ok [OF pl that(2)]])
  show ?thesis
  proof (cases w)
    case (Starting u)
    then show ?thesis using st ok started_ok [OF ok(2)] by auto
  next
    case (Looking f left)
    then have "planned (sw_store W) f" using w by (simp add: done_before_def)
    then show ?thesis using st ok w hist by (auto simp: Looking split: sum.splits)
  next
    case (Checking f left h)
    then show ?thesis using st ok checked_ok w by auto
  next
    case (Sending f rest s)
    show ?thesis
    proof (cases "attempt_stage f s (sw_store W)")
      case (Inl e)
      then show ?thesis using st ok by (auto simp: Sending)
    next
      case (Inr x)
      obtain k S' where x: "x = (k, S')" by (cases x)
      have d: "done_before (sw_store W) f (s # rest)" using w by (simp add: Sending)
      note a = attempt_keeps [OF Inr [unfolded x] ok(2) d]
      show ?thesis using st ok a store_mono_more(2) [OF a(2) d] by (auto simp: Sending Inr x)
    qed
  next
    case (Calling f rest s a)
    obtain ans C where c: "call_collector fl decode fate s (sw_ledger W) = (ans, C)" by (cases "call_collector fl decode fate s (sw_ledger W)")
    then show ?thesis
      using st w ok(2) call_keeps [OF ok(1) law c] store_ok_ledger [OF ok(2)] by (auto simp: Calling)
  next
    case (Answered f rest s a ans)
    then show ?thesis using st w settle_keeps [OF ok, of f rest s a ans] ok(1) by (auto simp: Answered)
  next
    case (Observing f rest s a r)
    then show ?thesis using st w observing_keeps [OF ok(2), of f rest s a r] ok(1) by auto
  next
    case (Reporting f)
    have "planned (sw_store W) f" using w by (simp add: Reporting)
    then show ?thesis using st ok hist progress_reported by (auto simp: Reporting split: sum.splits)
  next
    case (Finished r)
    then show ?thesis using st ok w by simp
  qed
qed

lemma fleet_step_keeps:
  assumes "fleet_step fl decode body (W, ws) (W', ws')" "keeps_order decode" "fleet_ok fl decode W ws"
  shows "fleet_ok fl decode W' ws' \<and> store_grows (sw_store W) (sw_store W') \<and> cextends (sw_ledger W) (sw_ledger W')"
  using assms(1)
proof cases
  case (working i fate w)
  have ok: "capture_reachable fl (sw_ledger W)" "store_ok fl decode (sw_store W) (sw_ledger W)" "worker_ok (sw_store W) (sw_ledger W) (ws ! i)"
    using assms(3) working(2) by (simp_all add: fleet_ok_def list_all_length)
  note k = worker_step_keeps [OF ok(1,2) assms(2) ok(3) working(3)]
  then have "fleet_ok fl decode W' ws" using fleet_grows [OF assms(3)] by blast
  then show ?thesis using k set_update_subset_insert [of ws i w] unfolding working(1) fleet_ok_def list_all_iff by auto
next
  case (starting u)
  then show ?thesis using assms(3) by (simp add: fleet_ok_def)
next
  case (freezing u f r S)
  have ok: "store_ok fl decode (sw_store W) (sw_ledger W)" "capture_reachable fl (sw_ledger W)" using assms(3) by (simp_all add: fleet_ok_def)
  note k = freeze_keeps [OF freezing(3) ok(1)]
  show ?thesis using fleet_grows [OF assms(3), of W'] ok(2) k freezing(1,2) by simp
next
  case (capturing K)
  have "store_grows (sw_store W) (sw_store W')" by (simp add: capturing store_grows_def)
  then show ?thesis
    using fleet_grows [OF assms(3), of W'] assms(3) store_ok_cong(1) [of "sw_store W'" "sw_store W"] capturing(1,2) by (simp add: fleet_ok_def)
next
  case (posting e res C)
  have "cextends (sw_ledger W) C" by (rule ingest_any_extends [OF posting(5)])
  moreover have "capture_reachable fl C" using capture_reachable.step [OF _ posting(3-5)] assms(3) by (simp add: fleet_ok_def)
  ultimately show ?thesis
    using fleet_grows [OF assms(3), of W'] assms(3) store_ok_ledger posting(1,2) by (auto simp: fleet_ok_def)
qed

lemma fleet_invariant:
  assumes "fleet fl decode body x" "keeps_order decode"
  shows "fleet_ok fl decode (fst x) (snd x)"
  using assms(1)
proof induction
  case (fresh path ledger_path)
  show ?case
    using capture_reachable.empty
    by (simp add: fleet_ok_def store_ok_def plans_ok_def rows_linked_def new_submission_store_def)
next
  case (step x y)
  then show ?case using fleet_step_keeps [of fl decode body "fst x" "snd x" "fst y" "snd y"] assms(2) by simp
qed

subsection \<open>What it gives\<close>

lemma grows_run:
  assumes "rtranclp (fleet_step fl decode body) x y" "fleet fl decode body x" "keeps_order decode"
  shows "fleet fl decode body y \<and> store_grows (sw_store (fst x)) (sw_store (fst y))"
  using assms(1)
proof induction
  case base
  show ?case using assms(2) by simp
next
  case (step y z)
  have "fleet fl decode body z" by (rule fleet.step [OF conjunct1 [OF step.IH] step.hyps(2)])
  moreover have "store_grows (sw_store (fst y)) (sw_store (fst z))"
    using fleet_step_keeps [of fl decode body "fst y" "snd y" "fst z" "snd z"] step.hyps(2) assms(3)
      fleet_invariant [OF conjunct1 [OF step.IH] assms(3)] by simp
  ultimately show ?case using step.IH by (auto simp: store_grows_def)
qed

text \<open>C18: The plan of a unit is frozen once: whatever workers, clients and captures did since, freezing the unit again
  returns the first plan and adds no row.\<close>
theorem plan_frozen_once:
  assumes "fleet fl decode body (W, ws)" "keeps_order decode" "rtranclp (fleet_step fl decode body) (W, ws) (W', ws')"
    "r \<in> set (ss_frozen (sw_store W))" "fr_unit r = unit_id u"
    "freeze_plan fl decode u proposed path (sw_store W') = Inr (winner, S)"
  shows "winner = Some (fr_plan r) \<and> ss_frozen S = ss_frozen (sw_store W')"
proof -
  have run: "fleet fl decode body (W', ws')" "store_grows (sw_store W) (sw_store W')" using grows_run [OF assms(3,1,2)] by simp_all
  have ok: "plans_ok fl decode (sw_store W')" using fleet_invariant [OF run(1) assms(2)] by (simp add: fleet_ok_def store_ok_def)
  have r: "r \<in> set (ss_frozen (sw_store W'))" using run(2) assms(4) by (auto simp: store_grows_def)
  then have f: "planned (sw_store W') (fr_plan r)" "fs_unit (fr_plan r) = unit_id u"
    using ok assms(5) by (auto simp: planned_def plans_ok_def)
  from assms(6) show ?thesis
  proof (cases rule: freeze_Inr)
    case (won f)
    then have "f = fr_plan r" using planned_unique [OF ok _ f(1)] f(2) by (simp add: planned_def)
    then show ?thesis using won by simp
  next
    case (inserted q)
    then show ?thesis using r assms(5) by (metis image_eqI)
  qed
qed

text \<open>C17: A stage goes out only after every stage before it in the frozen plan was accepted by an earlier attempt, however
  many workers submit at once.\<close>
theorem stages_sent_in_order:
  assumes "fleet fl decode body (W, ws)" "keeps_order decode" "a \<in> set (ss_attempts (sw_store W))"
  shows "\<exists>r before s after. r \<in> set (ss_frozen (sw_store W)) \<and> fr_unit r = at_unit a \<and> fs_stages (fr_plan r) = before @ s # after \<and>
    attempt_of a (fr_plan r) s \<and> (\<forall>p\<in>set before. \<exists>b. accepted_by (sw_store W) (fr_plan r) p b \<and> at_id b < at_id a)"
proof -
  have ok: "plans_ok fl decode (sw_store W)" "in_order (sw_store W) a"
    using fleet_invariant [OF assms(1,2)] assms(3) by (simp_all add: fleet_ok_def store_ok_def)
  then obtain f before s after where f: "planned (sw_store W) f" "fs_stages f = before @ s # after" "attempt_of a f s"
    "\<forall>p\<in>set before. \<exists>b. accepted_by (sw_store W) f p b \<and> at_id b < at_id a" unfolding in_order_def by blast
  obtain r where r: "r \<in> set (ss_frozen (sw_store W))" "f = fr_plan r" using f(1) by (auto simp: planned_def)
  then have "fr_unit r = at_unit a" using ok(1) f(3) by (simp add: plans_ok_def attempt_of_def)
  then show ?thesis using r f by blast
qed

text \<open>C16: An accepted receipt is true for good: the ledger holds the event under the planned identifier and digest, and
  behind the decision of the plan a stored decision with the planned result.\<close>
theorem accepted_receipt_settled:
  assumes "fleet fl decode body (W, ws)" "keeps_order decode" "b \<in> set (ss_observations (sw_store W))"
    "accepted_disposition (ob_disposition b)"
  shows "\<exists>a r s. a \<in> set (ss_attempts (sw_store W)) \<and> at_id a = ob_attempt b \<and> r \<in> set (ss_frozen (sw_store W)) \<and>
    s \<in> set (fs_stages (fr_plan r)) \<and> attempt_of a (fr_plan r) s \<and> stage_settled (sw_ledger W) s"
proof -
  have "receipt_backed (sw_store W) (sw_ledger W) b" using fleet_invariant [OF assms(1,2)] assms(3) by (simp add: fleet_ok_def store_ok_def)
  then show ?thesis using assms(4) unfolding receipt_backed_def planned_def by blast
qed

lemma accepted_settled:
  assumes "fleet_ok fl decode W ws" "planned (sw_store W) f" "s \<in> set (fs_stages f)" "stage_accepted (sw_store W) f s"
  shows "stage_settled (sw_ledger W) s"
proof -
  let ?S = "sw_store W"
  have ok: "plans_ok fl decode ?S" "rows_linked ?S" "\<forall>b\<in>set (ss_observations ?S). receipt_backed ?S (sw_ledger W) b"
    using assms(1) by (simp_all add: fleet_ok_def store_ok_def)
  obtain a b where a: "a \<in> set (ss_attempts ?S)" "attempt_of a f s" "b \<in> set (ss_observations ?S)" "ob_attempt b = at_id a"
    "accepted_disposition (ob_disposition b)" using assms(4) by (auto simp: stage_accepted_def accepted_by_def)
  obtain a' f' s' where r: "a' \<in> set (ss_attempts ?S)" "at_id a' = at_id a" "planned ?S f'" "s' \<in> set (fs_stages f')" "attempt_of a' f' s'"
    "stage_settled (sw_ledger W) s'" using ok(3) a(3-5) unfolding receipt_backed_def by metis
  have "inj_on at_id (set (ss_attempts ?S))"
    using ok(2) by (metis distinct_map distinct_upt inj_on_of_nat rows_linked_def of_nat_eq_iff inj_onI)
  then have "a' = a" using r(1,2) a(1) by (meson inj_onD)
  then have "fs_unit f' = fs_unit f" "stage_text (sg_name s') = stage_text (sg_name s)" using r(5) a(2) by (simp_all add: attempt_of_def)
  then have "f' = f" using planned_unique [OF ok(1) r(3) assms(2)] by simp
  then have "s' = s"
    using frozen_stage_unique [OF planned_ok [OF ok(1) assms(2)]] r(4) assms(3) \<open>stage_text (sg_name s') = stage_text (sg_name s)\<close> by blast
  then show ?thesis using r(6) by simp
qed

text \<open>C15: A submission that reports complete is complete: every event of its frozen plan is in the ledger under the planned
  identifier and digest, and its decision replays there to the planned score, threshold and output.\<close>
theorem complete_submission_replays:
  assumes "fleet fl decode body (W, ws)" "keeps_order decode" "Finished (Inr p) \<in> set ws" "pg_state p = ''complete''"
  shows "\<exists>r\<in>set (ss_frozen (sw_store W)). fr_unit r = pg_unit p \<and> fr_submission_hash r = pg_submission p \<and>
    (\<forall>s\<in>set (fs_stages (fr_plan r)). event_recorded (sw_ledger W) (sg_event_id s) (sg_hash s)) \<and>
    (\<exists>x. reconstruct_any fl (sw_ledger W) (pg_decision p) = Inr x \<and>
       planned_result (last (fs_stages (fr_plan r))) (rs_score (rc_result x)) (rs_threshold (rc_result x)) (rs_output (rc_result x)))"
proof -
  let ?C = "sw_ledger W"
  have ok: "fleet_ok fl decode W ws" using fleet_invariant [OF assms(1,2)] by simp
  then have pl: "plans_ok fl decode (sw_store W)" and C: "capture_reachable fl ?C" and "progress_true (sw_store W) p"
    using assms(3) by (auto simp: fleet_ok_def store_ok_def list_all_iff)
  then obtain f where f: "planned (sw_store W) f" "pg_unit p = fs_unit f" "pg_submission p = submission_hash f"
    "pg_decision p = sg_event_id (last (fs_stages f))" "\<forall>s\<in>set (fs_stages f). stage_accepted (sw_store W) f s"
    using assms(4) by (auto simp: progress_true_def)
  have st: "stage_settled ?C s" if "s \<in> set (fs_stages f)" for s using accepted_settled [OF ok f(1) that] f(5) that by blast
  obtain r where r: "r \<in> set (ss_frozen (sw_store W))" "f = fr_plan r" using f(1) by (auto simp: planned_def)
  have fo: "frozen_ok fl decode f" by (rule planned_ok [OF pl f(1)])
  then have "last (map sg_name (fs_stages f)) = DecisionStage" "fs_stages f \<noteq> []" by (auto simp: frozen_ok_def)
  then have l: "sg_name (last (fs_stages f)) = DecisionStage" "last (fs_stages f) \<in> set (fs_stages f)" by (simp_all add: last_map)
  then obtain d where d: "d \<in> set (cl_decisions ?C)" "d_event_id (dv_row d) = pg_decision p"
    "planned_result (last (fs_stages f)) (d_score (dv_row d)) (d_threshold (dv_row d)) (d_output (dv_row d))"
    using st [OF l(2)] f(4) by (auto simp: stage_settled_def decided_as_def)
  note c = captured_decision_found [OF reachable_capture_invariant [OF C] d(1)]
  obtain x where x: "reconstruct_any fl ?C (pg_decision p) = Inr x" "rs_score (rc_result x) = d_score (dv_row d)"
    "rs_threshold (rc_result x) = d_threshold (dv_row d)" "rs_output (rc_result x) = d_output (dv_row d)"
    using reconstruct_captured [OF c(2,1) refl c(3)] by (auto simp: as_recorded_def d(2))
  have "fr_unit r = pg_unit p" "fr_submission_hash r = pg_submission p" using pl r f(2,3) by (simp_all add: plans_ok_def)
  moreover have "\<forall>s\<in>set (fs_stages f). event_recorded ?C (sg_event_id s) (sg_hash s)" using st by (simp add: stage_settled_def)
  ultimately show ?thesis using r x d(3) by (intro bexI [of _ r]) auto
qed

subsection \<open>A worker comes to an end\<close>

text \<open>The steps a worker has left at most: six for a stage, two for the last look, one for the report.\<close>

fun steps_left :: "worker \<Rightarrow> nat" where
  "steps_left (Starting u) = 27"
| "steps_left (Looking f left) = 6 * length left + 2"
| "steps_left (Checking f left h) = 6 * length left + 1"
| "steps_left (Sending f rest s) = 6 * length rest + 6"
| "steps_left (Calling f rest s a) = 6 * length rest + 5"
| "steps_left (Answered f rest s a ans) = 6 * length rest + 4"
| "steps_left (Observing f rest s a r) = 6 * length rest + 3"
| "steps_left (Reporting f) = 1"
| "steps_left (Finished r) = 0"

lemma started_steps: "steps_left (started_worker fl decode u W) < 27"
proof (cases "bindE (target (sw_path W) False (sw_store W)) (\<lambda>_. load_plan fl decode (sw_store W) u)")
  case (Inr x)
  show ?thesis
  proof (cases x)
    case (Some f)
    then have "frozen_ok fl decode f" using Inr by (auto elim: load_plan_Some)
    then have "length (map sg_name (fs_stages f)) \<le> 4" unfolding frozen_ok_def by (elim conjE disjE) simp_all
    then show ?thesis using Inr by (simp only: started_worker_def Some) simp
  qed (simp add: started_worker_def Inr)
qed (simp add: started_worker_def)

lemma worker_step_steps: "steps_left (snd (worker_step fl decode body fate W w)) \<le> steps_left w - 1"
proof (cases w)
  case (Starting u)
  then show ?thesis using started_steps [of fl decode u W] by simp
next
  case (Checking f left h)
  then show ?thesis by (auto simp: checked_def split: sum.split list.split)
next
  case (Sending f rest s)
  then show ?thesis by (auto split: sum.split prod.split)
next
  case (Answered f rest s a ans)
  then show ?thesis by (auto simp: settle_def observed_def split: sum.split call_answer.split)
next
  case (Observing f rest s a r)
  then show ?thesis by (auto simp: observed_def split: sum.split)
qed (auto split: sum.split prod.split)

lemma work_steps: "steps_left (snd (work fl decode body fate n x)) \<le> steps_left (snd x) - n"
proof (induction n arbitrary: x)
  case (Suc n)
  show ?case using Suc.IH [of "worker_step fl decode body (fate n) (fst x) (snd x)"] worker_step_steps [of fl decode body "fate n" "fst x" "snd x"]
    by simp
qed simp

text \<open>\<open>resume_submission\<close> returns: whatever the tables hold and whatever becomes of its calls, 27 steps are enough.\<close>
theorem resume_submission_returns: "\<exists>r. snd (resume_submission fl decode body fate u W) = Finished r"
proof -
  have "steps_left (snd (resume_submission fl decode body fate u W)) = 0"
    using work_steps [of fl decode body fate 27 "(W, Starting u)"] by (simp add: resume_submission_def)
  then show ?thesis by (cases "snd (resume_submission fl decode body fate u W)") simp_all
qed

end
