(* ===== verification/Submission_Example.thy ===== *)
theory Submission_Example
  imports Capture_Example Submission_Safety
begin

text \<open>
  The capture of \<open>Hubspot_Example\<close> submitted: its plan is frozen, a worker resumes it, and every stage is accepted.
  The theorems of \<open>Submission_Safety\<close> are applied to the fleet this leaves.
\<close>

subsection \<open>The envelopes\<close>

definition demo_events :: "any_event list" where
  "demo_events = [Legacy demo_discovery, Legacy run_registration, Captured demo_evidence, Captured demo_decision]"

definition demo_decode :: decoder where
  "demo_decode t = find (\<lambda>e. canonical_text (dump_event e) = t) demo_events"

lemma demo_keeps_order: "keeps_order demo_decode"
proof -
  have "\<forall>e\<in>set demo_events. posted_canonically e"
    using demo_cap_canonical by (simp add: demo_events_def) (simp add: demo_evidence_def demo_decision_def)
  then show ?thesis using find_Some_in unfolding keeps_order_def demo_decode_def by metis
qed

lemma demo_events_valid: "e \<in> set demo_events \<Longrightarrow> valid_event demo_fl e"
  using run_valid(1) demo_start_posted(1) demo_evidence_valid demo_decision_valid by (auto simp: demo_events_def)

fun payload_of :: "any_event \<Rightarrow> json" where
  "payload_of (Legacy e) = dump_payload (en_payload e)"
| "payload_of (Captured q) = dump_capture_payload q"

fun row_of :: "any_event \<Rightarrow> event_row" where
  "row_of (Legacy e) = event_row_of e"
| "row_of (Captured q) = capture_event_row q"

lemma demo_event_clean:
  assumes "e \<in> set demo_events"
  shows "clean demo_fl (dump_event e)"
proof -
  have "clean demo_fl (dump_envelope demo_discovery)" "clean demo_fl (dump_envelope run_registration)"
    by (simp_all add: dump_envelope_def demo_discovery_def run_discovery_def run_registration_def demo_artifact_def dump_artifact_def
        dump_factor_def dump_activation_def dump_output_mapping_def jtime_def)
  moreover have "clean demo_fl (dump_capture_event demo_evidence)"
    using demo_cap_valid(1)
    by (simp add: dump_capture_event_def dump_capture_payload_def demo_evidence_def jtime_def demo_item_def demo_it_def)
  moreover have "clean demo_fl (dump_capture_event demo_decision)"
    using demo_cap_valid(1)
    by (simp add: dump_capture_event_def dump_capture_payload_def demo_decision_def demo_decision_payload_def demo_entries_def
        jtime_def object_members_def dump_context_entry_def dump_consumed_def dump_artifact_ref_def dump_result_def jstr_opt_def)
  ultimately show ?thesis using assms by (auto simp: demo_events_def)
qed

lemma demo_event_texts:
  assumes "e \<in> set demo_events"
  shows "str_at ''event_id'' (dump_event e) = Some (event_key e)" "member ''payload'' (dump_event e) = Some (payload_of e)"
    "event_hash e = canonical_hash (dump_event e)"
  using assms by (auto simp: demo_events_def str_at_def dump_envelope_def dump_capture_event_def envelope_hash_def capture_event_hash_def)

lemma demo_keys: "distinct (map event_key demo_events)"
  using not_sym [OF demo_event_ids(7)]
  by (simp add: demo_events_def demo_discovery_def run_discovery_def run_registration_def demo_evidence_def demo_decision_def)

lemma demo_decoded:
  assumes e: "e \<in> set demo_events"
  shows "demo_decode (canonical_text (dump_event e)) = Some e"
proof (cases "demo_decode (canonical_text (dump_event e))")
  case None
  then show ?thesis using e by (auto simp: demo_decode_def find_None_iff)
next
  case (Some x)
  then have x: "x \<in> set demo_events" "canonical_text (dump_event x) = canonical_text (dump_event e)"
    using find_Some_in [OF Some [unfolded demo_decode_def]] by simp_all
  then have "jnorm (dump_event x) = jnorm (dump_event e)" using clean_text_eq demo_event_clean e by blast
  then have "str_at ''event_id'' (dump_event x) = str_at ''event_id'' (dump_event e)"
    using clean_str_at demo_event_clean e x(1) by metis
  then have "event_key x = event_key e" using demo_event_texts(1) e x(1) by simp
  then have "x = e" using demo_keys e x(1) by (auto simp: distinct_map dest: inj_onD)
  then show ?thesis using Some by simp
qed

lemma demo_normalized:
  assumes "e \<in> set demo_events" "jnorm x = jnorm (dump_event e)"
  shows "normalized demo_fl demo_decode (canonical_text x) = Some (dump_event e)"
proof -
  have t: "canonical_text x = canonical_text (dump_event e)" by (rule jnorm_text [OF assms(2)])
  show ?thesis
    unfolding normalized_def t using clean_strict [OF demo_event_clean [OF assms(1)]] demo_decoded [OF assms(1)] demo_events_valid [OF assms(1)]
    by (simp del: jnorm.simps)
qed

lemma jnorm_same_set:
  assumes "distinct (map fst a)" "distinct (map fst b)" "set a = set b"
  shows "jnorm (JObj a) = jnorm (JObj b)"
proof -
  have "inj_on fst (set a)" using assms(1) by (simp add: distinct_map)
  then have "sort_key fst a = sort_key fst b"
    using assms by (intro map_sorted_distinct_set_unique [of fst]) (auto simp: distinct_sort_fst)
  then show ?thesis unfolding jnorm_object by simp
qed

text \<open>An event of the demo that is stored reads back as itself.\<close>

lemma demo_stored:
  assumes e: "e \<in> set demo_events" and r: "event_at (cl_base C) (event_key e) = Some r" "r = (row_of e)\<lparr>e_seq := n\<rparr>"
  shows "stored_event demo_fl demo_decode C (event_key e) = Inr (Some (dump_event e))"
proof -
  have p: "clean demo_fl (payload_of e)" by (rule clean_nested [OF demo_event_clean [OF e] demo_event_texts(2) [OF e]])
  let ?row = "\<lambda>w. JObj
     [(''event_id'', JStr (e_event_id r)), (''schema_version'', JStr (e_schema_version r)),
      (''event_type'', JStr (e_event_type r)), (''source'', JStr (e_source r)), (''account_ref'', JStr (e_account_ref r)),
      (''occurred_at'', JStr (e_occurred_at r)), (''recorded_at'', JStr (e_recorded_at r)), (''payload'', w)]"
  have t: "e_payload r = canonical_text (payload_of e)" by (cases e) (simp_all add: r(2) event_row_of_def capture_event_row_def)
  have row: "row_json demo_fl r = Some (?row (jnorm (payload_of e)))" unfolding row_json_def t clean_strict [OF p] by simp
  have "jnorm (?row (payload_of e)) = jnorm (dump_event e)"
  proof (cases e)
    case (Legacy x)
    then show ?thesis
      unfolding r(2) by (simp only: dump_event.simps dump_envelope_def) (rule jnorm_same_set, simp, simp, auto simp: event_row_of_def jtime_def)
  next
    case (Captured q)
    then show ?thesis
      unfolding r(2) by (simp only: dump_event.simps dump_capture_event_def) (rule jnorm_same_set, simp, simp, auto simp: capture_event_row_def jtime_def)
  qed
  moreover have "jnorm (?row (jnorm (payload_of e))) = jnorm (?row (payload_of e))" unfolding jnorm_object by simp
  ultimately have n: "jnorm (?row (jnorm (payload_of e))) = jnorm (dump_event e)" by (rule trans [rotated])
  have "clean demo_fl (?row (jnorm (payload_of e)))" using p by simp
  then have "typed_equal (?row (jnorm (payload_of e))) (dump_event e)" by (rule clean_typed_equal [OF _ demo_event_clean [OF e] n])
  moreover have "canonical_hash (dump_event e) = e_hash r"
    using demo_event_texts(3) [OF e] by (cases e) (simp_all add: r(2) event_row_of_def capture_event_row_def)
  ultimately show ?thesis
    unfolding stored_event_def r(1) option.case row demo_normalized [OF e n] by (simp del: typed_equal.simps)
qed

subsection \<open>The plan\<close>

definition demo_stage :: "stage_name \<Rightarrow> any_event \<Rightarrow> submission_stage" where
  "demo_stage n e = \<lparr>sg_name = n, sg_event_id = event_key e, sg_hash = event_hash e, sg_envelope = jnorm (dump_event e)\<rparr>"

definition demo_stages :: "submission_stage list" where
  "demo_stages = [demo_stage AccountStage (Legacy demo_discovery), demo_stage ArtifactStage (Legacy run_registration),
     demo_stage EvidenceStage (Captured demo_evidence), demo_stage DecisionStage (Captured demo_decision)]"

definition demo_plan :: frozen_submission where
  "demo_plan = \<lparr>fs_unit = unit_id demo_unit, fs_capture_hash = demo_hash, fs_capture_digest = sha256_hex (canonical_text demo_cap),
     fs_account = demo_acct, fs_stages = demo_stages, fs_reused = []\<rparr>"

lemma demo_in_events:
  "Legacy demo_discovery \<in> set demo_events" "Legacy run_registration \<in> set demo_events" "Captured demo_evidence \<in> set demo_events"
  "Captured demo_decision \<in> set demo_events"
  by (simp_all add: demo_events_def)

lemma demo_dump_norm:
  assumes "e \<in> set demo_events"
  shows "typed_equal (dump_event e) (jnorm (dump_event e))" "canonical_hash (jnorm (dump_event e)) = event_hash e"
    "str_at k (jnorm (dump_event e)) = str_at k (dump_event e)" "member ''payload'' (jnorm (dump_event e)) = Some (jnorm (payload_of e))"
    "clean demo_fl (payload_of e)"
proof -
  note c = demo_event_clean [OF assms]
  show "typed_equal (dump_event e) (jnorm (dump_event e))" by (rule clean_typed_equal [OF c]) (use c in simp_all)
  show "canonical_hash (jnorm (dump_event e)) = event_hash e" using demo_event_texts(3) [OF assms] by (simp add: canonical_hash_def)
  show "str_at k (jnorm (dump_event e)) = str_at k (dump_event e)" by (rule clean_str_at [OF c])
  show "member ''payload'' (jnorm (dump_event e)) = Some (jnorm (payload_of e))"
    using clean_member_jnorm [OF c] demo_event_texts(2) [OF assms] by simp
  show "clean demo_fl (payload_of e)" by (rule clean_nested [OF c demo_event_texts(2) [OF assms]])
qed

lemma demo_dump_texts:
  "str_at ''event_type'' (dump_event (Legacy e)) = Some (event_type (en_payload e))"
  "str_at ''schema_version'' (dump_event (Legacy e)) = Some (schema_version (en_payload e))"
  "str_at ''account_ref'' (dump_event (Legacy e)) = Some (en_account_ref e)"
  "str_at ''event_type'' (dump_event (Captured q)) = Some (capture_event_type q)"
  "str_at ''schema_version'' (dump_event (Captured q)) = Some ''2''"
  "str_at ''account_ref'' (dump_event (Captured q)) = Some (qe_account_ref q)"
  by (simp_all add: str_at_def dump_envelope_def dump_capture_event_def)

lemma demo_stage_ok: "s \<in> set demo_stages \<Longrightarrow> stage_ok demo_fl demo_decode demo_plan s"
proof -
  have ok: "stage_ok demo_fl demo_decode demo_plan (demo_stage n e)"
    if "e \<in> set demo_events" "str_at ''event_type'' (dump_event e) = Some (stage_event_type n)"
      "str_at ''schema_version'' (dump_event e) = Some (stage_schema_version n)"
      "n \<noteq> ArtifactStage \<longrightarrow> str_at ''account_ref'' (dump_event e) = Some demo_acct"
      "captured_stage n \<longrightarrow> event_key e = ''fr-submit-'' @ stage_text n @ ''-v1-'' @ unit_id demo_unit \<and>
         str_at ''capture_hash'' (payload_of e) = Some demo_hash" for n e
    using that demo_normalized [OF that(1), of "jnorm (dump_event e)"] demo_dump_norm(1) [OF that(1)] demo_event_texts [OF that(1)]
    by (simp add: stage_ok_def demo_stage_def demo_plan_def del: typed_equal.simps jnorm.simps)
  have k: "capture_event_type demo_evidence = ''evidence.recorded''" "capture_event_type demo_decision = ''decision.recorded''"
    "en_payload demo_discovery = AccountDiscovered \<lparr>ad_name = ''Demo'', ad_domain = ''demo.example''\<rparr>" "en_account_ref demo_discovery = demo_acct"
    "en_payload run_registration = LogicArtifactRegistered demo_artifact"
    by (simp_all add: capture_event_type_def demo_evidence_def demo_decision_def demo_discovery_def run_discovery_def run_registration_def)
  have q: "qe_account_ref demo_evidence = demo_acct" "qe_account_ref demo_decision = demo_acct" "qe_capture_hash demo_evidence = demo_hash"
    "qe_capture_hash demo_decision = demo_hash" "qe_event_id demo_evidence = demo_evidence_id" "qe_event_id demo_decision = demo_decision_id"
    by (simp_all add: demo_evidence_def demo_decision_def)
  have "stage_ok demo_fl demo_decode demo_plan (demo_stage AccountStage (Legacy demo_discovery))"
    by (rule ok [OF demo_in_events(1)]) (simp_all add: demo_dump_texts k captured_stage_def del: dump_event.simps)
  moreover have "stage_ok demo_fl demo_decode demo_plan (demo_stage ArtifactStage (Legacy run_registration))"
    by (rule ok [OF demo_in_events(2)]) (simp_all add: demo_dump_texts k captured_stage_def del: dump_event.simps)
  moreover have "stage_ok demo_fl demo_decode demo_plan (demo_stage EvidenceStage (Captured demo_evidence))"
    by (rule ok [OF demo_in_events(3)])
      (simp_all add: demo_dump_texts k q captured_stage_def dump_members demo_evidence_id_def del: dump_event.simps)
  moreover have "stage_ok demo_fl demo_decode demo_plan (demo_stage DecisionStage (Captured demo_decision))"
    by (rule ok [OF demo_in_events(4)])
      (simp_all add: demo_dump_texts k q captured_stage_def dump_members demo_decision_id_def del: dump_event.simps)
  ultimately show "s \<in> set demo_stages \<Longrightarrow> stage_ok demo_fl demo_decode demo_plan s" by (auto simp: demo_stages_def)
qed

lemma demo_frozen_ok: "frozen_ok demo_fl demo_decode demo_plan"
proof -
  have "sha256_hex_string (unit_id demo_unit)" unfolding unit_id_def canonical_hash_def by (rule sha256_hex_shape)
  moreover have "sha256_hex_string demo_hash" unfolding demo_hash_def canonical_hash_def by (rule sha256_hex_shape)
  moreover have "list_all (stage_ok demo_fl demo_decode demo_plan) demo_stages" using demo_stage_ok by (simp add: list_all_iff)
  moreover have "map sg_name demo_stages = [AccountStage, ArtifactStage, EvidenceStage, DecisionStage]"
    by (simp add: demo_stages_def demo_stage_def)
  ultimately show ?thesis using sha256_hex_shape by (simp add: frozen_ok_def demo_plan_def)
qed

subsection \<open>What the ledger holds\<close>

definition demo_has :: "capture_ledger \<Rightarrow> any_event \<Rightarrow> bool" where
  "demo_has C e \<longleftrightarrow> (\<exists>n. event_at (cl_base C) (event_key e) = Some ((row_of e)\<lparr>e_seq := n\<rparr>))"

lemma captured_event_kept: "cextends C C' \<Longrightarrow> event_at (cl_base C) k = Some r \<Longrightarrow> event_at (cl_base C') k = Some r"
  unfolding cextends_def extends_def event_at_def by (blast intro: grown_find_kept)

lemma account_at_kept: "cextends C C' \<Longrightarrow> account_at (cl_base C) k = Some r \<Longrightarrow> account_at (cl_base C') k = Some r"
  unfolding cextends_def extends_def account_at_def by (blast intro: grown_find_kept)

lemma demo_has_kept: "cextends C C' \<Longrightarrow> demo_has C e \<Longrightarrow> demo_has C' e"
  using captured_event_kept by (auto simp: demo_has_def)

lemma demo_has_stored: "e \<in> set demo_events \<Longrightarrow> demo_has C e \<Longrightarrow> stored_event demo_fl demo_decode C (event_key e) = Inr (Some (dump_event e))"
  using demo_stored by (auto simp: demo_has_def)

lemma demo_has_created:
  assumes "ingest_any fl (Captured q) C = Inr (r, C')" "ir_status r = Created"
  shows "demo_has C' (Captured q)"
proof -
  have "ingest_captured fl q C = Inr (r, C')" using assms(1) by simp
  then show ?thesis
  proof (cases rule: ingest_captured_cases)
    case duplicate
    then show ?thesis using assms(2) by simp
  next
    case created
    obtain L where L: "insert_event (capture_event_row q) (cl_base C) = Inr L" "cl_base C' = L" by (rule write_captured_tables [OF created(4)])
    obtain n where n: "lg_events L = lg_events (cl_base C) @ [(capture_event_row q)\<lparr>e_seq := n\<rparr>]" using insert_event_rows [OF L(1)] by blast
    have "event_at (cl_base C) (qe_event_id q) = None" using created(1) event_at_None by blast
    then show ?thesis by (auto simp: demo_has_def event_at_def L(2) n find_append capture_event_row_def)
  qed
qed

text \<open>A ledger that has grown from the account and the artifact of the demo.\<close>

definition demo_row :: account_row where
  "demo_row = \<lparr>a_account_ref = demo_acct, a_name = ''Demo'', a_domain = ''demo.example'', a_first_seen = ''disc''\<rparr>"

lemma demo_start_rows:
  "account_at (cl_base demo_start) demo_acct = Some demo_row" "demo_has demo_start (Legacy demo_discovery)" "demo_has demo_start (Legacy run_registration)"
  "load_artifact_row (cl_base demo_start) (canonical_hash (dump_artifact demo_artifact)) = Some (artifact_row_of run_registration demo_artifact)"
  by (simp_all add: demo_has_def demo_start_def empty_captures_def demo_capture_base_def run1_def account_at_def event_at_def event_row_of_def
      run_registration_def demo_discovery_def run_discovery_def empty_ledger_def demo_row_def load_artifact_row_def artifact_row_of_def exI [of _ 1] exI [of _ 2])

lemma demo_grown_rows:
  assumes "cextends demo_start C"
  shows "account_at (cl_base C) demo_acct = Some demo_row" "demo_has C (Legacy demo_discovery)" "demo_has C (Legacy run_registration)"
    "load_artifact_row (cl_base C) (canonical_hash (dump_artifact demo_artifact)) = Some (artifact_row_of run_registration demo_artifact)"
    "stored_event demo_fl demo_decode C ''disc'' = Inr (Some (dump_event (Legacy demo_discovery)))"
    "stored_event demo_fl demo_decode C ''reg'' = Inr (Some (dump_event (Legacy run_registration)))"
proof -
  show h: "demo_has C (Legacy demo_discovery)" "demo_has C (Legacy run_registration)" using demo_has_kept [OF assms] demo_start_rows(2,3) by blast+
  show "account_at (cl_base C) demo_acct = Some demo_row" by (rule account_at_kept [OF assms demo_start_rows(1)])
  show "load_artifact_row (cl_base C) (canonical_hash (dump_artifact demo_artifact)) = Some (artifact_row_of run_registration demo_artifact)"
    by (rule cextends_lookups(5) [OF assms demo_start_rows(4)])
  show "stored_event demo_fl demo_decode C ''disc'' = Inr (Some (dump_event (Legacy demo_discovery)))"
    using demo_has_stored [OF demo_in_events(1) h(1)] by (simp add: demo_discovery_def run_discovery_def del: dump_event.simps)
  show "stored_event demo_fl demo_decode C ''reg'' = Inr (Some (dump_event (Legacy run_registration)))"
    using demo_has_stored [OF demo_in_events(2) h(2)] by (simp add: run_registration_def del: dump_event.simps)
qed

lemma demo_row_verified:
  "\<exists>vf. verify_artifact_row (Some (artifact_row_of e demo_artifact)) (canonical_hash (dump_artifact demo_artifact)) None = Inr vf"
proof -
  have "verify_artifact_row (Some (artifact_row_of e demo_artifact)) (canonical_hash (dump_artifact demo_artifact)) None =
      Inr \<lparr>vf_artifact = demo_artifact, vf_stored_hash = l_hash (artifact_row_of e demo_artifact),
        vf_recomputed_hash = l_hash (artifact_row_of e demo_artifact), vf_runtime = EVALUATOR_VERSION\<rparr>"
    using artifact_row_verified [OF run_valid_artifact, of e] unfolding verify_artifact_row_Inr
    by simp (simp add: demo_artifact_def EVALUATOR_VERSION_def)
  then show ?thesis by blast
qed

lemma demo_selected:
  assumes "x = dump_event (Legacy run_registration) \<or> x = jnorm (dump_event (Legacy run_registration))"
  shows "\<exists>a. selected_artifact x (canonical_hash (dump_artifact demo_artifact)) EVALUATOR_VERSION = Inr a"
proof -
  let ?a = "dump_artifact demo_artifact" and ?r = "Legacy run_registration"
  note c = demo_event_clean [OF demo_in_events(2)]
  have p: "member ''payload'' (dump_event ?r) = Some (JObj [(''artifact'', ?a)])"
    using demo_event_texts(2) [OF demo_in_events(2)] by (simp add: run_registration_def del: dump_event.simps)
  have a: "clean demo_fl ?a" using clean_nested [OF c p] by simp
  have m: "Option.bind (member ''payload'' x) (member ''artifact'') \<in> {Some ?a, Some (jnorm ?a)}"
    using assms p clean_member_jnorm [OF c] by (auto simp del: dump_event.simps)
  moreover have view: "artifact_view y = Some ((artifact_row_of (run_registration\<lparr>en_event_id := []\<rparr>) demo_artifact))" if "y = ?a \<or> y = jnorm ?a" for y
  proof -
    have "canonical_hash y = canonical_hash ?a" "canonical_text y = canonical_text ?a" "str_at k y = str_at k ?a" for k
      using that clean_str_at [OF a] by (auto simp: canonical_hash_def)
    then show ?thesis by (simp add: artifact_view_def artifact_row_of_def) (simp add: str_at_def dump_artifact_def)
  qed
  moreover have "str_at ''schema_version'' x = Some ''1''" "str_at ''event_type'' x = Some ''logic_artifact.registered''"
    using assms demo_dump_texts(1,2) [of run_registration] demo_dump_norm(3) [OF demo_in_events(2)]
    by (auto simp: run_registration_def simp del: dump_event.simps)
  moreover have "l_evaluator_version (artifact_row_of e demo_artifact) = EVALUATOR_VERSION"
    "l_hash (artifact_row_of e demo_artifact) = canonical_hash ?a" for e
    by (simp_all add: artifact_row_of_def) (simp add: demo_artifact_def EVALUATOR_VERSION_def)
  moreover have "Option.bind (Option.bind (member ''payload'' x) (member ''artifact'')) artifact_view =
      Some (artifact_row_of (run_registration\<lparr>en_event_id := []\<rparr>) demo_artifact)"
    using m view by (elim insertE) (simp_all del: bind_assoc)
  ultimately show ?thesis using demo_row_verified [of "run_registration\<lparr>en_event_id := []\<rparr>"] by (auto simp: selected_artifact_def simp del: bind_assoc)
qed

lemma demo_payload_norm:
  assumes "e \<in> set demo_events"
  shows "typed_equal (payload_of e) (jnorm (payload_of e))"
  by (rule clean_typed_equal [OF demo_dump_norm(5) [OF assms]]) (use demo_dump_norm(5) [OF assms] in simp_all)

lemma demo_discovery_texts:
  "str_at ''name'' (jnorm (payload_of (Legacy demo_discovery))) = Some ''Demo''"
  "str_at ''domain'' (jnorm (payload_of (Legacy demo_discovery))) = Some ''demo.example''"
  "str_at ''account_ref'' (dump_event (Legacy demo_discovery)) = Some demo_acct"
  "str_at ''event_type'' (dump_event (Legacy demo_discovery)) = Some ''account.discovered''"
  "str_at ''schema_version'' (dump_event (Legacy demo_discovery)) = Some ''1''"
  "str_at ''event_id'' (dump_event (Legacy demo_discovery)) = Some ''disc''"
  using demo_dump_norm(5) [OF demo_in_events(1)] demo_event_texts(1) [OF demo_in_events(1)]
  by (simp_all add: demo_dump_texts del: dump_event.simps) (simp_all add: str_at_def demo_discovery_def run_discovery_def)

lemma demo_prerequisites:
  assumes "cextends demo_start C"
  shows "\<exists>z. prerequisites demo_fl demo_decode C demo_acct (canonical_hash (dump_artifact demo_artifact)) EVALUATOR_VERSION
    (jnorm (dump_event (Legacy demo_discovery))) (jnorm (dump_event (Legacy run_registration))) = Inr z"
proof -
  let ?d = "Legacy demo_discovery" and ?r = "Legacy run_registration"
  note g = demo_grown_rows [OF assms] and n = demo_dump_norm [OF demo_in_events(1)] and m = demo_dump_norm [OF demo_in_events(2)]
  have "chosen_account demo_fl demo_decode C demo_acct (jnorm (dump_event ?d)) = Inr (dump_event ?d)"
    using g(1,5) n(3,4) demo_discovery_texts demo_event_texts(2) [OF demo_in_events(1)] demo_payload_norm [OF demo_in_events(1)]
    by (simp add: chosen_account_def demo_row_def del: dump_event.simps payload_of.simps jnorm.simps typed_equal.simps)
  moreover have "\<exists>z. chosen_artifact demo_fl demo_decode C (canonical_hash (dump_artifact demo_artifact)) EVALUATOR_VERSION (jnorm (dump_event ?r)) = Inr z"
  proof -
    obtain a b where ab: "selected_artifact (jnorm (dump_event ?r)) (canonical_hash (dump_artifact demo_artifact)) EVALUATOR_VERSION = Inr a"
      "selected_artifact (dump_event ?r) (canonical_hash (dump_artifact demo_artifact)) EVALUATOR_VERSION = Inr b"
      using demo_selected by blast
    obtain vf where vf: "verify_artifact_row (Some (artifact_row_of run_registration demo_artifact)) (canonical_hash (dump_artifact demo_artifact)) None = Inr vf"
      using demo_row_verified by blast
    have "l_source_event (artifact_row_of run_registration demo_artifact) = ''reg''" by (simp add: artifact_row_of_def run_registration_def)
    then show ?thesis
      using g(4,6) m(3,4) vf ab demo_event_texts(1,2) [OF demo_in_events(2)] demo_payload_norm [OF demo_in_events(2)]
      by (simp add: chosen_artifact_def del: dump_event.simps payload_of.simps jnorm.simps typed_equal.simps)
  qed
  moreover have "supplied_account_ok demo_acct (jnorm (dump_event ?d))"
    using n(3) demo_discovery_texts by (simp add: supplied_account_ok_def del: dump_event.simps jnorm.simps)
  moreover obtain a where "selected_artifact (jnorm (dump_event ?r)) (canonical_hash (dump_artifact demo_artifact)) EVALUATOR_VERSION = Inr a"
    using demo_selected by blast
  ultimately show ?thesis by (auto simp: prerequisites_def simp del: dump_event.simps jnorm.simps)
qed

subsection \<open>Every stage verifies\<close>

lemma demo_stage_stored:
  assumes "e \<in> set demo_events" "demo_has C e"
  shows "stored_event demo_fl demo_decode C (sg_event_id (demo_stage n e)) = Inr (Some (dump_event e))"
    "typed_equal (dump_event e) (sg_envelope (demo_stage n e))"
    "member ''payload'' (sg_envelope (demo_stage n e)) = Some (jnorm (payload_of e))"
  using demo_has_stored [OF assms] demo_dump_norm(1,4) [OF assms(1)] by (simp_all add: demo_stage_def del: dump_event.simps jnorm.simps typed_equal.simps)

lemma demo_verify_account:
  assumes "cextends demo_start C"
  shows "verify_stage demo_fl demo_decode C (demo_stage AccountStage (Legacy demo_discovery)) = Inr ()"
proof -
  let ?d = "Legacy demo_discovery"
  note g = demo_grown_rows [OF assms] and n = demo_dump_norm [OF demo_in_events(1)]
  note s = demo_stage_stored [OF demo_in_events(1) g(2), of AccountStage]
  have "verify_account_stage demo_fl demo_decode C (jnorm (dump_event ?d)) (jnorm (payload_of ?d)) = Inr ()"
    using g(1,5) n(3) demo_discovery_texts demo_event_texts(2) [OF demo_in_events(1)] demo_payload_norm [OF demo_in_events(1)]
    by (simp add: verify_account_stage_def demo_row_def del: dump_event.simps payload_of.simps jnorm.simps typed_equal.simps)
  then show ?thesis
    unfolding verify_stage_def s(1,3) using s(2)
    by (simp add: demo_stage_def del: dump_event.simps payload_of.simps jnorm.simps typed_equal.simps)
qed

lemma demo_verify_artifact:
  assumes "cextends demo_start C"
  shows "verify_stage demo_fl demo_decode C (demo_stage ArtifactStage (Legacy run_registration)) = Inr ()"
proof -
  let ?r = "Legacy run_registration" and ?a = "dump_artifact demo_artifact"
  note g = demo_grown_rows [OF assms] and n = demo_dump_norm [OF demo_in_events(2)]
  note s = demo_stage_stored [OF demo_in_events(2) g(3), of ArtifactStage]
  obtain a where a: "selected_artifact (jnorm (dump_event ?r)) (canonical_hash ?a) EVALUATOR_VERSION = Inr a" using demo_selected by blast
  obtain vf where vf: "verify_artifact_row (Some (artifact_row_of run_registration demo_artifact)) (canonical_hash ?a) None = Inr vf"
    using demo_row_verified by blast
  have p: "payload_of ?r = JObj [(''artifact'', ?a)]" by (simp add: run_registration_def)
  have c: "clean demo_fl ?a" using n(5) unfolding p by simp
  have "member ''artifact'' (jnorm (payload_of ?r)) = Some (jnorm ?a)" unfolding p by simp
  moreover have "str_at ''evaluator_version'' (jnorm ?a) = Some EVALUATOR_VERSION"
    unfolding clean_str_at [OF c] by (simp add: str_at_def dump_artifact_def) (simp add: demo_artifact_def EVALUATOR_VERSION_def)
  moreover have "canonical_hash (jnorm ?a) = canonical_hash ?a" by (simp add: canonical_hash_def)
  ultimately have "verify_artifact_stage C (jnorm (dump_event ?r)) (jnorm (payload_of ?r)) = Inr ()"
    using a vf g(4) by (simp add: verify_artifact_stage_def del: dump_event.simps payload_of.simps jnorm.simps)
  then show ?thesis
    unfolding verify_stage_def s(1,3) using s(2)
    by (simp add: demo_stage_def del: dump_event.simps payload_of.simps jnorm.simps typed_equal.simps)
qed

text \<open>The item of the evidence with its keys in order.\<close>

definition demo_sorted :: "(string \<times> json) list" where
  "demo_sorted = [(''evidence_type'', JStr ''employee_count''), (''evidence_version_id'', JStr demo_version),
     (''supersedes_evidence_version_id'', JNull), (''value'', JInt 250)]"

lemma demo_item_norm: "jnorm (JObj demo_item) = JObj demo_sorted"
  by (simp add: demo_item_def demo_it_def demo_sorted_def)

lemma demo_sorted_same:
  "observation_body a c demo_sorted = observation_body a c demo_item" "verify_evidence row account c demo_sorted = verify_evidence row account c demo_item"
proof -
  have f: "filter (\<lambda>(k, v). k \<notin> set [''evidence_type'', ''evidence_version_id'', ''supersedes_evidence_version_id'']) demo_sorted =
      filter (\<lambda>(k, v). k \<notin> set [''evidence_type'', ''evidence_version_id'', ''supersedes_evidence_version_id'']) demo_item"
    by (simp add: demo_sorted_def demo_item_def demo_it_def)
  have m: "map_of demo_sorted k = map_of demo_item k" for k
    by (simp add: demo_sorted_def demo_item_def demo_it_def)
  show b: "observation_body a c demo_sorted = observation_body a c demo_item" for a c unfolding observation_body_def f m ..
  show "verify_evidence row account c demo_sorted = verify_evidence row account c demo_item" unfolding verify_evidence_def b m ..
qed

lemma demo_reuse:
  assumes r: "evidence_v2_at C demo_version = Some r" "evidence_v2_row demo_evidence (JObj demo_item) = Some r"
    and c: "capture_at C demo_hash = Some (capture_row_of demo_evidence demo_facts)"
  shows "\<exists>p. reuse demo_fl C demo_acct demo_cap demo_sorted = Inr (Some p) \<and> rp_origin p = demo_hash"
proof -
  obtain u where u: "validate_capture demo_fl demo_cap demo_hash = Inr u" using demo_cap_valid(2) by blast
  note v = demo_verified(1) [OF r(2)]
  obtain b where b: "observation_body (JStr demo_acct) demo_cap demo_item = Some b" using v by (auto simp: verify_evidence_def split: option.splits)
  have m: "map_of demo_sorted ''evidence_version_id'' = Some (JStr demo_version)" "map_of demo_sorted ''evidence_type'' = Some (JStr ''employee_count'')"
    "map_of demo_sorted ''supersedes_evidence_version_id'' = Some JNull"
    by (simp_all add: demo_sorted_def)
  have o: "ev_capture r = demo_hash" using evidence_v2_row_fields(4) [OF r(2)] by (simp add: demo_evidence_def)
  have row: "cc_hash (capture_row_of demo_evidence demo_facts) = demo_hash" "cc_body (capture_row_of demo_evidence demo_facts) = canonical_text demo_cap"
    "cc_account (capture_row_of demo_evidence demo_facts) = demo_acct" "cc_unit (capture_row_of demo_evidence demo_facts) = cf_unit_id demo_facts"
    "cc_sequence (capture_row_of demo_evidence demo_facts) = cf_sequence demo_facts"
    by (simp_all add: capture_row_of_def demo_evidence_def)
  have "strict_json_loads demo_fl (canonical_text demo_cap) = Some demo_cap" using clean_strict [OF demo_cap_valid(1)] by (simp only: demo_cap_canonical)
  moreover have "str_at ''unit_id'' demo_cap = Some (cf_unit_id demo_facts)" "int_at ''capture_sequence'' demo_cap = Some (cf_sequence demo_facts)"
    using demo_cap_facts by (auto simp: capture_facts_def bind_eq_Some_conv demo_facts_def)
  ultimately show ?thesis
    using v b u r(1) c demo_bound(1) by (simp add: reuse_def m demo_sorted_same o row)
qed

lemma demo_verify_evidence:
  assumes h: "demo_has C (Captured demo_evidence)" and r: "evidence_v2_at C demo_version = Some r" "evidence_v2_row demo_evidence (JObj demo_item) = Some r"
    and c: "capture_at C demo_hash = Some (capture_row_of demo_evidence demo_facts)"
  shows "verify_stage demo_fl demo_decode C (demo_stage EvidenceStage (Captured demo_evidence)) = Inr ()"
proof -
  let ?e = "Captured demo_evidence"
  let ?p = "jnorm (payload_of ?e)"
  note n = demo_dump_norm [OF demo_in_events(3)] and s = demo_stage_stored [OF demo_in_events(3) h, of EvidenceStage]
  have q: "payload_of ?e = JObj [(''items'', JList [JObj demo_item]), (''capture'', demo_cap), (''capture_hash'', JStr demo_hash)]"
    by (simp add: dump_capture_payload_def demo_evidence_def)
  have m: "member k ?p = map_option jnorm (member k (payload_of ?e))" for k by (rule clean_member_jnorm [OF n(5)])
  have "member ''items'' ?p = Some (JList [JObj demo_sorted])" unfolding m unfolding q by (simp add: demo_item_norm del: jnorm.simps(2))
  then have "list_at ''items'' ?p = Some [JObj demo_sorted]" unfolding list_at_def by simp
  moreover have "member ''capture'' ?p = Some demo_cap" unfolding m unfolding q by (simp add: demo_cap_canonical)
  moreover have "str_at ''capture_hash'' ?p = Some demo_hash" unfolding clean_str_at [OF n(5)] unfolding q by (simp add: str_at_def)
  moreover have "str_at ''account_ref'' (jnorm (dump_event ?e)) = Some demo_acct" unfolding n(3) demo_dump_texts by (simp add: demo_evidence_def)
  moreover have "verify_evidence_item demo_fl C demo_acct demo_evidence_id demo_cap demo_hash (JObj demo_sorted) = Inr ()"
  proof -
    obtain p where p: "reuse demo_fl C demo_acct demo_cap demo_sorted = Inr (Some p)" "rp_origin p = demo_hash" using demo_reuse [OF r c] by blast
    have "v_source_event (ev_row r) = demo_evidence_id" using evidence_v2_row_fields(3) [OF r(2)] by (simp add: demo_evidence_def)
    then show ?thesis using p r(1) by (simp add: verify_evidence_item_def object_members_def str_at_def) (simp add: demo_sorted_def)
  qed
  moreover have "sg_event_id (demo_stage EvidenceStage ?e) = demo_evidence_id" "sg_name (demo_stage EvidenceStage ?e) = EvidenceStage"
    "sg_envelope (demo_stage EvidenceStage ?e) = jnorm (dump_event ?e)"
    by (simp_all add: demo_stage_def demo_evidence_def)
  ultimately show ?thesis
    unfolding verify_stage_def s(1,3) using s(2) by (simp del: dump_event.simps payload_of.simps jnorm.simps typed_equal.simps)
qed

lemma demo_verify_decision:
  assumes C: "capture_reachable demo_fl C" and h: "demo_has C (Captured demo_decision)"
    and d: "d \<in> set (cl_decisions C)" "d_event_id (dv_row d) = demo_decision_id" "d_score (dv_row d) = 25" "d_threshold (dv_row d) = 75"
      "d_output (dv_row d) = ''DO_NOT_PRIORITIZE''"
  shows "verify_stage demo_fl demo_decode C (demo_stage DecisionStage (Captured demo_decision)) = Inr ()"
proof -
  let ?e = "Captured demo_decision"
  let ?p = "jnorm (payload_of ?e)"
  note n = demo_dump_norm [OF demo_in_events(4)] and s = demo_stage_stored [OF demo_in_events(4) h, of DecisionStage]
  note f = captured_decision_found [OF reachable_capture_invariant [OF C] d(1)]
  obtain x where x: "reconstruct_any demo_fl C demo_decision_id = Inr x" "rs_score (rc_result x) = 25" "rs_threshold (rc_result x) = 75"
    "rs_output (rc_result x) = ''DO_NOT_PRIORITIZE''"
    using reconstruct_captured [OF f(2,1) refl f(3)] d(2-5) by (auto simp: as_recorded_def)
  have "member ''result'' (payload_of ?e) = Some (JObj [(''score'', JInt 25), (''threshold'', JInt 75), (''output'', JStr ''DO_NOT_PRIORITIZE'')])"
    by (simp add: dump_capture_payload_def demo_decision_def object_members_def demo_decision_payload_def dump_result_def)
  then have "member ''result'' ?p = Some (jnorm (JObj [(''score'', JInt 25), (''threshold'', JInt 75), (''output'', JStr ''DO_NOT_PRIORITIZE'')]))"
    using clean_member_jnorm [OF n(5)] by simp
  moreover have "sg_event_id (demo_stage DecisionStage ?e) = demo_decision_id" "sg_name (demo_stage DecisionStage ?e) = DecisionStage"
    by (simp_all add: demo_stage_def demo_decision_def)
  ultimately show ?thesis
    unfolding verify_stage_def s(1,3) using s(2) x by (simp del: dump_event.simps payload_of.simps typed_equal.simps) auto
qed

subsection \<open>The domain verifies\<close>

lemma demo_stage_capture:
  "stage_capture (demo_stage n (Captured demo_evidence)) = Some demo_cap" "stage_capture (demo_stage n (Captured demo_decision)) = Some demo_cap"
proof -
  have m: "member ''capture'' (jnorm (payload_of (Captured q))) = Some demo_cap" if "Captured q \<in> set demo_events" "qe_capture q = demo_cap" for q
    unfolding clean_member_jnorm [OF demo_dump_norm(5) [OF that(1)]]
    unfolding payload_of.simps dump_members using that(2) demo_cap_canonical by simp
  show "stage_capture (demo_stage n (Captured demo_evidence)) = Some demo_cap"
    using m [OF demo_in_events(3)] demo_dump_norm(4) [OF demo_in_events(3)]
    by (simp add: stage_capture_def demo_stage_def demo_evidence_def del: dump_event.simps payload_of.simps jnorm.simps)
  show "stage_capture (demo_stage n (Captured demo_decision)) = Some demo_cap"
    using m [OF demo_in_events(4)] demo_dump_norm(4) [OF demo_in_events(4)]
    by (simp add: stage_capture_def demo_stage_def demo_decision_def del: dump_event.simps payload_of.simps jnorm.simps)
qed

lemma domain_stage_verified:
  assumes "verify_stage fl decode C s = Inr ()"
  shows "domain_stage fl decode C accepted s = Inr ()"
proof -
  have "\<exists>e. stored_event fl decode C (sg_event_id s) = Inr (Some e)" using assms by (auto simp: verify_stage_def split: option.splits)
  then show ?thesis using assms by (auto simp: domain_stage_def)
qed

lemma domain_stage_absent:
  "stage_text (sg_name s) \<notin> set accepted \<Longrightarrow> event_at (cl_base C) (sg_event_id s) = None \<Longrightarrow> domain_stage fl decode C accepted s = Inr ()"
  by (simp add: domain_stage_def stored_event_def)

lemma demo_domain:
  assumes x: "cextends demo_start C" and rest: "\<forall>s\<in>set (drop 2 demo_stages). domain_stage demo_fl demo_decode C accepted s = Inr ()"
  shows "verify_domain demo_fl demo_decode C demo_plan accepted = Inr ()"
proof -
  have "\<forall>s\<in>set demo_stages. domain_stage demo_fl demo_decode C accepted s = Inr ()"
    using rest domain_stage_verified [OF demo_verify_account [OF x]] domain_stage_verified [OF demo_verify_artifact [OF x]]
    by (simp add: demo_stages_def)
  then have "mapE (domain_stage demo_fl demo_decode C accepted) demo_stages = Inr (map (\<lambda>_. ()) demo_stages)" by (intro mapE_Inr_map) simp
  moreover obtain z where "prerequisites demo_fl demo_decode C demo_acct (canonical_hash (dump_artifact demo_artifact)) EVALUATOR_VERSION
    (jnorm (dump_event (Legacy demo_discovery))) (jnorm (dump_event (Legacy run_registration))) = Inr z" using demo_prerequisites [OF x] by blast
  moreover have "stage_capture (last demo_stages) = Some demo_cap" "sg_envelope (demo_stages ! 0) = jnorm (dump_event (Legacy demo_discovery))"
    "sg_envelope (demo_stages ! 1) = jnorm (dump_event (Legacy run_registration))"
    using demo_stage_capture(2) by (simp_all add: demo_stages_def demo_stage_def del: dump_event.simps)
  ultimately show ?thesis
    using demo_cap_valid(4) demo_cap_facts
    by (simp add: verify_domain_def demo_plan_def demo_facts_def del: dump_event.simps jnorm.simps)
qed

subsection \<open>The store\<close>

lemma demo_submitted:
  obtains T where "store_run demo_fl empty_store T" "submitted_capture demo_fl T demo_unit = Inr (canonical_text demo_cap, demo_cap)"
    "st_units T (unit_id demo_unit) \<noteq> None"
proof -
  obtain c T where d: "capture_once demo_fl (\<lambda>_ V. V) demo_unit (\<lambda>_. Inr (Some demo_read)) (Inr (Some demo_rule)) demo_clock
      empty_store = (Inr c, T)" "store_run demo_fl empty_store T"
    "st_captures T = [\<lparr>cr_unit_id = unit_id demo_unit, cr_company_key = company_key demo_unit, cr_sequence = 1, cr_body = c\<rparr>]"
    "c = canonical_text (with_sequence 1 (jnorm demo_document))" by (rule demo_capture_document)
  have c: "c = canonical_text demo_cap" by (simp only: d(4) demo_cap_def)
  obtain ref S where r: "record_receipt demo_unit empty_store = (Inr ref, S)" "store_run demo_fl S T"
    using capture_once_received [OF d(1)] store_run_refl by metis
  note e = receipt_effect(5) [OF r(1) refl]
  have k: "kept S T" by (rule run_kept [OF r(2)])
  have tables: "st_raw T ref = Some (sn_raw_body demo_notification)" "ref = raw_notification_ref (sn_raw_body demo_notification)"
    "st_units T (unit_id demo_unit) = Some (unit_fields demo_unit)"
    "st_identities T (logical_key demo_notification) = Some (semantic_json demo_notification)"
    using e k by (auto simp: kept_def map_le_def dom_def demo_unit_def)
  have n: "sn_body (pu_notification demo_unit) = demo_body" "pu_notification demo_unit = demo_notification" "sn_body demo_notification = demo_body"
    by (simp_all add: demo_unit_def demo_notification_def)
  have body: "clean demo_fl (body_json demo_body)" by (rule clean_body [OF demo_body_ok])
  have "strict_json_loads demo_fl (semantic_json demo_notification) = Some (jnorm (body_json demo_body))"
    using clean_strict [OF body] by (simp add: semantic_json_def demo_notification_def)
  moreover have "typed_equal (jnorm (body_json demo_body)) (body_json demo_body)" by (rule clean_typed_equal [where fl = demo_fl]) (use body in simp_all)
  ultimately have reg: "registered_as demo_fl T demo_unit = Inr ()" using tables(3,4) by (simp add: registered_as_def n)
  have u: "captured_unit demo_fl demo_cap = Some (rebuilt demo_unit)"
  proof -
    have "make_unit demo_notification (pu_mapping_identity demo_unit) (pu_selection_identity demo_unit) (pu_adapter_identity demo_unit)
        (pu_reprocesses demo_unit) = Inr demo_unit" using demo_proper by (simp add: proper_unit_def n)
    then show ?thesis unfolding demo_cap_def
      by (intro captured_unit_rebuilt [OF demo_empty(3) _ _ _ demo_document_clean demo_document_def]) (simp_all add: n demo_body_ok)
  qed
  obtain w where w: "validate_capture demo_fl demo_cap demo_hash = Inr w" using demo_cap_valid(2) by blast
  then have "w = rebuilt demo_unit" using u by (auto simp: validate_capture_def split: if_splits option.splits failure.splits)
  then have val: "validate_capture demo_fl demo_cap demo_hash = Inr (rebuilt demo_unit)" using w by simp
  have "typed_equal (body_json (normal_body demo_body)) (body_json demo_body)"
    by (rule clean_typed_equal [where fl = demo_fl]) (use body clean_body demo_body_ok normal_body_json in simp_all)
  then have same: "same_unit (rebuilt demo_unit) demo_unit" by (simp add: same_unit_def unit_fields_def n)
  have "member ''company'' demo_cap = Some (jnorm (JObj [(''portal_id'', JInt 11), (''company_id'', JInt 42)]))"
    by (simp add: demo_cap_member demo_document_def capture_document_def Let_def n demo_body_def)
  then have company: "case member ''company'' demo_cap of None \<Rightarrow> False
      | Some c \<Rightarrow> typed_equal c (JObj [(''portal_id'', sb_portal_id (sn_body (pu_notification demo_unit))),
          (''company_id'', sb_object_id (sn_body (pu_notification demo_unit)))])"
    by (simp add: n demo_body_def insert_commute)
  have "str_at ''raw_notification_ref'' demo_cap = Some ref"
    by (simp add: str_at_def demo_cap_member demo_document_def capture_document_def Let_def tables(2))
  moreover have "member ''notification'' demo_cap = Some (jnorm (body_json demo_body))"
    by (simp add: demo_cap_member demo_document_def capture_document_def Let_def n del: jnorm.simps)
  moreover have "typed_equal (body_json demo_body) (jnorm (body_json demo_body))"
    by (rule clean_typed_equal [where fl = demo_fl]) (use body in simp_all)
  ultimately have raw: "original_raw demo_fl T demo_cap = Inr ()"
    using tables(1,2) demo_strict demo_from_payload by (simp add: original_raw_def n del: jnorm.simps typed_equal.simps)
  have doc: "document demo_fl c = Some demo_cap" using clean_loads [OF demo_cap_valid(1)] by (simp only: document_def c demo_cap_canonical)
  have num: "int_at ''capture_sequence'' demo_cap = Some 1" using demo_cap_facts by (auto simp: capture_facts_def bind_eq_Some_conv demo_facts_def)
  have "submitted_capture demo_fl T demo_unit = Inr (canonical_text demo_cap, demo_cap)"
    using reg doc val same company raw num
    by (simp add: submitted_capture_def d(3) c [symmetric] demo_hash_def del: typed_equal.simps)
  then show ?thesis using that d(2) tables(3) by simp
qed

end
