(* ===== verification/Submission_Complete.thy ===== *)
theory Submission_Complete
  imports Submission_Example
begin

text \<open>
  The whole run: the account and the artifact are registered by other clients, the capture is published, its plan frozen,
  and one worker resumes it to the end.  The first two stages are answered as duplicates, the last two create events.
\<close>

subsection \<open>The tables after each stage\<close>

definition demo_status :: "nat \<Rightarrow> string" where
  "demo_status i = (if i < 2 then ''duplicate'' else ''created'')"

definition demo_attempt :: "nat \<Rightarrow> attempt_row" where
  "demo_attempt i = \<lparr>at_id = int i + 1, at_unit = unit_id demo_unit, at_submission = submission_hash demo_plan,
     at_stage = stage_text (sg_name (demo_stages ! i)), at_event_id = sg_event_id (demo_stages ! i), at_hash = sg_hash (demo_stages ! i)\<rparr>"

definition demo_observation :: "nat \<Rightarrow> observation_row" where
  "demo_observation i = \<lparr>ob_id = int i + 1, ob_attempt = int i + 1, ob_disposition = ''accepted_'' @ demo_status i,
     ob_result = canonical_text (receipt (demo_status i) (demo_stages ! i))\<rparr>"

definition demo_frozen :: frozen_row where
  "demo_frozen = \<lparr>fr_unit = unit_id demo_unit, fr_capture_hash = demo_hash, fr_submission_hash = submission_hash demo_plan, fr_plan = demo_plan\<rparr>"

definition demo_store :: "capture_store \<Rightarrow> nat \<Rightarrow> submission_store" where
  "demo_store T k = \<lparr>ss_path = ''operations.db'', ss_captures = T, ss_target = Some ''ledger.db'', ss_frozen = [demo_frozen],
     ss_attempts = map demo_attempt [0..<k], ss_observations = map demo_observation [0..<k]\<rparr>"

definition demo_world :: "capture_store \<Rightarrow> nat \<Rightarrow> capture_ledger \<Rightarrow> submission_world" where
  "demo_world T k C = \<lparr>sw_store = demo_store T k, sw_ledger = C, sw_path = ''ledger.db''\<rparr>"

lemma demo_plan_fields: "fs_unit demo_plan = unit_id demo_unit" "fs_stages demo_plan = demo_stages" "fs_capture_hash demo_plan = demo_hash"
  by (simp_all add: demo_plan_def)

lemma less_four: "i < 4 \<longleftrightarrow> i = 0 \<or> i = 1 \<or> i = 2 \<or> i = (3::nat)"
  by auto

lemma demo_length: "length demo_stages = 4"
  by (simp add: demo_stages_def)

lemma demo_stage_name [simp]: "sg_name (demo_stage n e) = n"
  by (simp add: demo_stage_def)

lemma demo_stage_differ: "n \<noteq> m \<Longrightarrow> demo_stage n e \<noteq> demo_stage m g"
  by (metis demo_stage_name)

subsection \<open>The history\<close>

lemma demo_stage_named: "i < 4 \<Longrightarrow> stage_named demo_plan (stage_text (sg_name (demo_stages ! i))) = Some (demo_stages ! i)"
  unfolding less_four stage_named_def demo_plan_fields demo_stages_def by (elim disjE) simp_all

lemma demo_predecessors:
  "i < 4 \<Longrightarrow> predecessors demo_plan (stage_text (sg_name (demo_stages ! i))) = map (stage_text \<circ> sg_name) (take i demo_stages)"
  unfolding less_four predecessors_def demo_plan_fields demo_stages_def by (elim disjE) simp_all

lemma demo_row:
  assumes i: "i < 4" and h: "hs_failure h = None" "hs_accepted h = map (stage_text \<circ> sg_name) (take i demo_stages)"
  shows "\<exists>h'. history_row demo_fl demo_plan (demo_attempt i, Some (demo_observation i)) h = Inr h' \<and> hs_failure h' = None \<and>
    hs_accepted h' = map (stage_text \<circ> sg_name) (take (Suc i) demo_stages)"
proof -
  let ?s = "demo_stages ! i"
  let ?r = "receipt (demo_status i) ?s"
  have c: "clean demo_fl ?r" by (simp add: receipt_def)
  have l: "strict_json_loads demo_fl (canonical_text ?r) = Some (jnorm ?r)" by (rule clean_strict [OF c])
  have t: "typed_equal (jnorm ?r) ?r" by (rule clean_typed_equal [where fl = demo_fl]) (use c in simp_all)
  have o: "is_object (jnorm ?r)" by (simp add: is_object_def receipt_def)
  have d: "''accepted_'' @ demo_status i \<in> set DISPOSITIONS" by (simp add: demo_status_def DISPOSITIONS_def)
  have take_Suc: "take (Suc i) demo_stages = take i demo_stages @ [?s]" by (simp add: take_Suc_conv_app_nth demo_length i)
  have st: "stage_text (sg_name ?s) = at_stage (demo_attempt i)" by (simp add: demo_attempt_def)
  have "\<exists>h'. read_receipt demo_plan ?s (''accepted_'' @ demo_status i) (jnorm ?r) h = Inr h' \<and> hs_failure h' = None \<and>
    hs_accepted h' = map (stage_text \<circ> sg_name) (take (Suc i) demo_stages)"
    using t h demo_predecessors [OF i] by (simp add: read_receipt_def accepted_disposition_def take_Suc Let_def need_def del: jnorm.simps typed_equal.simps)
  then show ?thesis
    using l o d demo_stage_named [OF i]
    by (simp add: st [symmetric] del: jnorm.simps) (simp add: demo_attempt_def demo_observation_def del: jnorm.simps)
qed

lemma history_rows_append: "history_rows fl f (xs @ ys) h = bindE (history_rows fl f xs h) (history_rows fl f ys)"
  by (induction xs arbitrary: h) (auto simp: bindE_def split: sum.split)

lemma demo_history_rows:
  "k \<le> 4 \<Longrightarrow> \<exists>h. history_rows demo_fl demo_plan (map (\<lambda>i. (demo_attempt i, Some (demo_observation i))) [0..<k]) no_history = Inr h \<and>
    hs_failure h = None \<and> hs_accepted h = map (stage_text \<circ> sg_name) (take k demo_stages)"
proof (induction k)
  case 0
  show ?case by (simp add: no_history_def)
next
  case (Suc k)
  then obtain h where h: "history_rows demo_fl demo_plan (map (\<lambda>i. (demo_attempt i, Some (demo_observation i))) [0..<k]) no_history = Inr h"
    "hs_failure h = None" "hs_accepted h = map (stage_text \<circ> sg_name) (take k demo_stages)" by auto
  obtain h' where "history_row demo_fl demo_plan (demo_attempt k, Some (demo_observation k)) h = Inr h'" "hs_failure h' = None"
    "hs_accepted h' = map (stage_text \<circ> sg_name) (take (Suc k) demo_stages)" using demo_row [OF _ h(2,3)] Suc.prems by auto
  then show ?case using h(1) by (auto simp: history_rows_append simp del: history_row.simps)
qed

lemma demo_rows: "submission_rows (demo_store T k) (unit_id demo_unit) = map (\<lambda>i. (demo_attempt i, Some (demo_observation i))) [0..<k]"
proof -
  have mine: "filter (\<lambda>a. at_unit a = unit_id demo_unit) (map demo_attempt [0..<k]) = map demo_attempt [0..<k]"
    by (simp add: filter_id_conv demo_attempt_def)
  have seen: "filter (\<lambda>a. at_id a \<notin> ob_attempt ` set (map demo_observation [0..<k])) (map demo_attempt [0..<k]) = []"
    by (force simp: filter_empty_conv demo_attempt_def demo_observation_def image_iff)
  have one: "filter (\<lambda>a. at_id a = ob_attempt (demo_observation i)) (map demo_attempt [0..<n]) = (if i < n then [demo_attempt i] else [])" for i n
    by (induction n) (auto simp: demo_attempt_def demo_observation_def)
  have "concat (map (\<lambda>b. map (\<lambda>a. (a, Some b)) (filter (\<lambda>a. at_id a = ob_attempt b) (map demo_attempt [0..<k]))) (map demo_observation [0..<k])) =
      concat (map (\<lambda>i. [(demo_attempt i, Some (demo_observation i))]) [0..<k])"
    by (simp only: map_map comp_def one) (intro arg_cong [of _ _ concat] map_cong; simp)
  also have "\<dots> = map (\<lambda>i. (demo_attempt i, Some (demo_observation i))) [0..<k]" by simp
  finally show ?thesis
    using mine seen by (simp only: submission_rows_def demo_store_def submission_store.simps Let_def) simp
qed

lemma demo_history:
  assumes "k \<le> 4"
  obtains h where "history demo_fl demo_plan (demo_store T k) = Inr h" "hs_failure h = None"
    "hs_accepted h = map (stage_text \<circ> sg_name) (take k demo_stages)"
  using demo_history_rows [OF assms] that by (auto simp: history_def demo_plan_fields demo_rows)

subsection \<open>Freezing\<close>

lemma demo_load:
  assumes "submitted_capture demo_fl T demo_unit = Inr (canonical_text demo_cap, demo_cap)"
  shows "load_plan demo_fl demo_decode (demo_store T k) demo_unit = Inr (Some demo_plan)"
proof -
  have e: "\<forall>s\<in>set demo_stages. captured_stage (sg_name s) \<longrightarrow> stage_capture s = Some demo_cap"
    using demo_stage_capture by (simp add: demo_stages_def captured_stage_def)
  have t: "typed_equal demo_cap demo_cap" by (rule clean_typed_refl [OF demo_cap_valid(1)])
  have "\<forall>s\<in>set demo_stages. captured_stage (sg_name s) \<longrightarrow> (case stage_capture s of None \<Rightarrow> False | Some c \<Rightarrow> typed_equal c demo_cap)"
  proof (intro ballI impI)
    fix s assume "s \<in> set demo_stages" "captured_stage (sg_name s)"
    then have "stage_capture s = Some demo_cap" using e by blast
    then show "case stage_capture s of None \<Rightarrow> False | Some c \<Rightarrow> typed_equal c demo_cap" using t by simp
  qed
  then have "plan_bound demo_frozen demo_unit (canonical_text demo_cap) demo_cap = Inr ()"
    using demo_cap_valid(4) by (simp add: plan_bound_def demo_frozen_def Let_def demo_plan_fields list_all_iff) (simp add: demo_plan_def demo_hash_def)
  then show ?thesis
    using demo_frozen_ok assms by (simp add: load_plan_def demo_store_def from_plan_def) (simp add: demo_frozen_def)
qed

lemma demo_freeze:
  assumes "submitted_capture demo_fl T demo_unit = Inr (canonical_text demo_cap, demo_cap)" "st_units T (unit_id demo_unit) \<noteq> None"
  shows "freeze_plan demo_fl demo_decode demo_unit demo_plan ''ledger.db''
      ((new_submission_store ''operations.db'' empty_store)\<lparr>ss_captures := T\<rparr>) = Inr (Some demo_plan, demo_store T 0)"
proof -
  let ?S = "(new_submission_store ''operations.db'' empty_store)\<lparr>ss_captures := T, ss_target := Some ''ledger.db''\<rparr>"
  have t: "target ''ledger.db'' True ((new_submission_store ''operations.db'' empty_store)\<lparr>ss_captures := T\<rparr>) = Inr ?S"
    by (simp add: target_def new_submission_store_def)
  have n: "load_plan demo_fl demo_decode ?S demo_unit = Inr None" using assms(1) by (simp add: load_plan_def new_submission_store_def)
  have i: "insert_frozen demo_frozen ?S = Inr (demo_store T 0)"
    using assms(2) by (simp add: insert_frozen_def demo_frozen_def demo_store_def new_submission_store_def need_def)
  show ?thesis
    unfolding freeze_plan_def t bindE_simps n
    using demo_frozen_ok i demo_load [OF assms(1), of 0] by (simp add: from_plan_def demo_frozen_def demo_plan_fields)
qed

subsection \<open>One stage\<close>

lemma demo_not_accepted: "i < 4 \<Longrightarrow> stage_text (sg_name (demo_stages ! i)) \<notin> set (map (stage_text \<circ> sg_name) (take i demo_stages))"
  unfolding less_four demo_stages_def by (elim disjE) simp_all

lemma demo_attempt_step:
  "attempt_stage demo_plan (demo_stages ! i) (demo_store T i) =
     Inr (int i + 1, (demo_store T i)\<lparr>ss_attempts := map demo_attempt [0..<Suc i]\<rparr>)"
  by (simp add: attempt_stage_def demo_store_def demo_frozen_def demo_plan_fields need_def Let_def) (simp add: demo_attempt_def)

lemma demo_observe_step:
  "observe (int i + 1) (''accepted_'' @ demo_status i) (receipt (demo_status i) (demo_stages ! i))
     ((demo_store T i)\<lparr>ss_attempts := map demo_attempt [0..<Suc i]\<rparr>) = Inr (demo_store T (Suc i))"
proof -
  have "find (\<lambda>r. ob_attempt r = int i + 1) (map demo_observation [0..<i]) = None" by (auto simp: find_None_iff demo_observation_def)
  moreover have "''accepted_'' @ demo_status i \<in> set DISPOSITIONS" by (simp add: demo_status_def DISPOSITIONS_def)
  moreover have "int i + 1 \<in> at_id ` set (map demo_attempt [0..<Suc i])" by (simp add: demo_attempt_def)
  ultimately show ?thesis by (simp add: observe_def demo_store_def need_def) (simp add: demo_observation_def)
qed

lemma demo_stage_run:
  assumes i: "i < 4" and dom: "verify_domain demo_fl demo_decode C demo_plan (map (stage_text \<circ> sg_name) (take i demo_stages)) = Inr ()"
    and call: "ingest_text demo_fl demo_decode (canonical_text (sg_envelope (demo_stages ! i))) C = Inr (r, C')"
    and ack: "valid_ack (demo_stages ! i) r" "status_text r = demo_status i"
    and ver: "verify_stage demo_fl demo_decode C' (demo_stages ! i) = Inr ()"
  shows "work demo_fl demo_decode body (\<lambda>_. Served) 6 (demo_world T i C, Looking demo_plan (drop i demo_stages)) =
    (demo_world T (Suc i) C', Looking demo_plan (drop (Suc i) demo_stages))"
proof -
  let ?s = "demo_stages ! i" and ?rest = "drop (Suc i) demo_stages" and ?A = "(demo_store T i)\<lparr>ss_attempts := map demo_attempt [0..<Suc i]\<rparr>"
  note step = worker_step.simps demo_world_def submission_world.simps submission_world.update_convs
  obtain h where h: "history demo_fl demo_plan (demo_store T i) = Inr h" "hs_failure h = None"
    "hs_accepted h = map (stage_text \<circ> sg_name) (take i demo_stages)" using demo_history i by (metis less_imp_le)
  have d: "drop i demo_stages = ?s # ?rest" using i by (simp add: Cons_nth_drop_Suc demo_length)
  have "worker_step demo_fl demo_decode body Served (demo_world T i C) (Looking demo_plan (drop i demo_stages)) =
      (demo_world T i C, Checking demo_plan (drop i demo_stages) h)" by (simp add: step h(1))
  moreover have "checked demo_fl demo_decode demo_plan (drop i demo_stages) h C = Sending demo_plan ?rest ?s"
    using h(2) dom demo_not_accepted [OF i] by (simp add: checked_def d h(3))
  then have "worker_step demo_fl demo_decode body Served (demo_world T i C) (Checking demo_plan (drop i demo_stages) h) =
      (demo_world T i C, Sending demo_plan ?rest ?s)" by (simp add: step)
  moreover have "worker_step demo_fl demo_decode body Served (demo_world T i C) (Sending demo_plan ?rest ?s) =
      (\<lparr>sw_store = ?A, sw_ledger = C, sw_path = ''ledger.db''\<rparr>, Calling demo_plan ?rest ?s (int i + 1))"
    by (simp add: step demo_attempt_step)
  moreover have "worker_step demo_fl demo_decode body Served \<lparr>sw_store = ?A, sw_ledger = C, sw_path = ''ledger.db''\<rparr> (Calling demo_plan ?rest ?s (int i + 1)) =
      (\<lparr>sw_store = ?A, sw_ledger = C', sw_path = ''ledger.db''\<rparr>, Answered demo_plan ?rest ?s (int i + 1) (Acknowledged r))"
    by (simp add: call)
  moreover have "worker_step demo_fl demo_decode body Served \<lparr>sw_store = ?A, sw_ledger = C', sw_path = ''ledger.db''\<rparr>
        (Answered demo_plan ?rest ?s (int i + 1) (Acknowledged r)) =
      (\<lparr>sw_store = ?A, sw_ledger = C', sw_path = ''ledger.db''\<rparr>, Observing demo_plan ?rest ?s (int i + 1) r)"
    using ack(1) ver by (simp add: settle_def)
  moreover have "worker_step demo_fl demo_decode body Served \<lparr>sw_store = ?A, sw_ledger = C', sw_path = ''ledger.db''\<rparr>
        (Observing demo_plan ?rest ?s (int i + 1) r) = (demo_world T (Suc i) C', Looking demo_plan ?rest)"
    using demo_observe_step [of i T] by (simp only: worker_step.simps observed_def ack(2) submission_world.simps) (simp add: demo_world_def)
  ultimately show ?thesis by (simp only: eval_nat_numeral BitM.simps work.simps fst_conv snd_conv)
qed

subsection \<open>The whole run\<close>

lemma work_add: "work fl decode body (\<lambda>_. x) (m + n) y = work fl decode body (\<lambda>_. x) m (work fl decode body (\<lambda>_. x) n y)"
  by (induction n arbitrary: y) simp_all

lemma fleet_work:
  assumes "fleet fl decode body (W, [w])"
  shows "rtranclp (fleet_step fl decode body) (W, [w]) (fst (work fl decode body fate n (W, w)), [snd (work fl decode body fate n (W, w))])"
  using assms
proof (induction n arbitrary: W w)
  case (Suc n)
  obtain W' w' where s: "worker_step fl decode body (fate n) W w = (W', w')" by (cases "worker_step fl decode body (fate n) W w")
  have one: "fleet_step fl decode body (W, [w]) (W', [w'])"
    using fleet_step.working [of 0 "[w]" fl decode body "fate n" W W' w'] s by simp
  show ?case using Suc.IH [OF fleet.step [OF Suc.prems one]] one by (simp add: s)
qed simp

lemma demo_ingest_text:
  assumes "e \<in> set demo_events"
  shows "ingest_text demo_fl demo_decode (canonical_text (sg_envelope (demo_stage n e))) C = ingest_any demo_fl e C"
  using demo_decoded [OF assms] demo_events_valid [OF assms] by (simp add: ingest_text_def demo_stage_def del: ingest_any.simps dump_event.simps)

lemma demo_duplicate:
  assumes "demo_has C (Legacy x)"
  shows "ingest_any fl (Legacy x) C = Inr (\<lparr>ir_status = Duplicate, ir_event_id = en_event_id x, ir_hash = envelope_hash x\<rparr>, C)"
  using assms by (auto simp: demo_has_def ingest_def event_row_of_def Let_def)

lemma demo_prefix:
  "take 0 demo_stages = []" "map (stage_text \<circ> sg_name) (take 1 demo_stages) = [''account'']"
  "map (stage_text \<circ> sg_name) (take 2 demo_stages) = [''account'', ''artifact'']"
  "map (stage_text \<circ> sg_name) (take 3 demo_stages) = [''account'', ''artifact'', ''evidence'']"
  "drop 2 demo_stages = [demo_stage EvidenceStage (Captured demo_evidence), demo_stage DecisionStage (Captured demo_decision)]"
  by (simp_all add: demo_stages_def)

lemma demo_event_run:
  assumes "i < 4" "demo_stages ! i = demo_stage n e" "e \<in> set demo_events"
    "verify_domain demo_fl demo_decode C demo_plan (map (stage_text \<circ> sg_name) (take i demo_stages)) = Inr ()"
    "ingest_any demo_fl e C = Inr (\<lparr>ir_status = st, ir_event_id = event_key e, ir_hash = event_hash e\<rparr>, C')"
    "demo_status i = (case st of Created \<Rightarrow> ''created'' | Duplicate \<Rightarrow> ''duplicate'')"
    "verify_stage demo_fl demo_decode C' (demo_stage n e) = Inr ()"
  shows "work demo_fl demo_decode body (\<lambda>_. Served) 6 (demo_world T i C, Looking demo_plan (drop i demo_stages)) =
    (demo_world T (Suc i) C', Looking demo_plan (drop (Suc i) demo_stages))"
proof -
  have "ingest_text demo_fl demo_decode (canonical_text (sg_envelope (demo_stages ! i))) C =
      Inr (\<lparr>ir_status = st, ir_event_id = event_key e, ir_hash = event_hash e\<rparr>, C')"
    unfolding assms(2) demo_ingest_text [OF assms(3)] by (rule assms(5))
  moreover have "valid_ack (demo_stages ! i) \<lparr>ir_status = st, ir_event_id = event_key e, ir_hash = event_hash e\<rparr>"
    unfolding assms(2) by (simp add: valid_ack_def demo_stage_def)
  moreover have "status_text \<lparr>ir_status = st, ir_event_id = event_key e, ir_hash = event_hash e\<rparr> = demo_status i"
    unfolding assms(6) by (simp add: status_text_def)
  moreover have "verify_stage demo_fl demo_decode C' (demo_stages ! i) = Inr ()" unfolding assms(2) by (rule assms(7))
  ultimately show ?thesis by (rule demo_stage_run [OF assms(1,4)])
qed

lemma demo_resumed:
  assumes T: "submitted_capture demo_fl T demo_unit = Inr (canonical_text demo_cap, demo_cap)"
  obtains C p where "resume_submission demo_fl demo_decode body (\<lambda>_. Served) demo_unit (demo_world T 0 demo_start) =
      (demo_world T 4 C, Finished (Inr p))" "pg_state p = ''complete''" "pg_unit p = unit_id demo_unit" "pg_decision p = demo_decision_id"
proof -
  let ?w = "work demo_fl demo_decode body (\<lambda>_. Served)" and ?E = "demo_stage EvidenceStage (Captured demo_evidence)"
    and ?D = "demo_stage DecisionStage (Captured demo_decision)"
  obtain C1 r where m: "capture_reachable demo_fl C1" "event_ids (cl_base C1) = {''reg'', ''disc'', demo_evidence_id}" "lg_seq (cl_base C1) = 3"
    "account_at (cl_base C1) demo_acct \<noteq> None" "lg_artifacts (cl_base C1) = lg_artifacts run1" "cl_decisions C1 = []"
    "cl_captures C1 = [capture_row_of demo_evidence demo_facts]" "cl_evidence C1 = [r]" "evidence_v2_row demo_evidence (JObj demo_item) = Some r"
    "ingest_any demo_fl (Captured demo_evidence) demo_start =
       Inr (\<lparr>ir_status = Created, ir_event_id = demo_evidence_id, ir_hash = capture_event_hash demo_evidence\<rparr>, C1)"
    by (rule demo_minted)
  obtain C2 d where t: "capture_reachable demo_fl C2" "cl_captures C2 = [capture_row_of demo_evidence demo_facts]"
    "cl_evidence C2 = [r]" "cl_decisions C2 = [d]" "d_event_id (dv_row d) = demo_decision_id"
    "d_score (dv_row d) = 25" "d_threshold (dv_row d) = 75" "d_output (dv_row d) = ''DO_NOT_PRIORITIZE''" "lg_seq (cl_base C2) = 4"
    "ingest_any demo_fl (Captured demo_decision) C1 =
       Inr (\<lparr>ir_status = Created, ir_event_id = demo_decision_id, ir_hash = capture_event_hash demo_decision\<rparr>, C2)"
    by (rule demo_decides [OF m(1-9)])
  have x1: "cextends demo_start C1" by (rule ingest_any_extends [OF m(10)])
  have x12: "cextends C1 C2" by (rule ingest_any_extends [OF t(10)])
  have x2: "cextends demo_start C2" by (rule cextends_trans [OF x1 x12])
  have he: "demo_has C1 (Captured demo_evidence)" by (rule demo_has_created [OF m(10)]) simp
  have hd: "demo_has C2 (Captured demo_decision)" by (rule demo_has_created [OF t(10)]) simp
  note v = demo_verified(2) [OF m(9)]
  have cap: "cc_hash (capture_row_of demo_evidence demo_facts) = demo_hash" by (simp add: capture_row_of_def demo_evidence_def)
  have e1: "verify_stage demo_fl demo_decode C1 ?E = Inr ()"
    by (rule demo_verify_evidence [OF he _ m(9)]) (simp_all add: evidence_v2_at_def capture_at_def m(7,8) v cap)
  have e2: "verify_stage demo_fl demo_decode C2 ?E = Inr ()"
    by (rule demo_verify_evidence [OF demo_has_kept [OF x12 he] _ m(9)]) (simp_all add: evidence_v2_at_def capture_at_def t(2,3) v cap)
  have d2: "verify_stage demo_fl demo_decode C2 ?D = Inr ()" by (rule demo_verify_decision [OF t(1) hd _ t(5-8)]) (simp add: t(4))
  have ids: "sg_event_id ?E = demo_evidence_id" "sg_event_id ?D = demo_decision_id" by (simp_all add: demo_stage_def demo_evidence_def demo_decision_def)
  have absent: "event_at (cl_base demo_start) demo_evidence_id = None" "event_at (cl_base demo_start) demo_decision_id = None"
    "event_at (cl_base C1) demo_decision_id = None"
    using demo_start_tables(1) m(2) by (simp_all add: event_at_None)
  have dom0: "verify_domain demo_fl demo_decode demo_start demo_plan accepted = Inr ()" if "''evidence'' \<notin> set accepted" "''decision'' \<notin> set accepted" for accepted
    by (rule demo_domain [OF cextends_refl]) (use domain_stage_absent ids absent that in \<open>simp add: demo_prefix\<close>)
  have dom1: "verify_domain demo_fl demo_decode C1 demo_plan [''account'', ''artifact'', ''evidence''] = Inr ()"
    by (rule demo_domain [OF x1]) (use domain_stage_absent ids absent domain_stage_verified [OF e1] in \<open>simp add: demo_prefix\<close>)
  have dom2: "verify_domain demo_fl demo_decode C2 demo_plan accepted = Inr ()" for accepted
    by (rule demo_domain [OF x2]) (use domain_stage_verified [OF e2] domain_stage_verified [OF d2] in \<open>simp add: demo_prefix\<close>)
  have nth: "demo_stages ! 0 = demo_stage AccountStage (Legacy demo_discovery)" "demo_stages ! 1 = demo_stage ArtifactStage (Legacy run_registration)"
    "demo_stages ! 2 = ?E" "demo_stages ! 3 = ?D" by (simp_all add: demo_stages_def)
  have s0: "?w 6 (demo_world T 0 demo_start, Looking demo_plan (drop 0 demo_stages)) = (demo_world T (Suc 0) demo_start, Looking demo_plan (drop (Suc 0) demo_stages))"
    by (rule demo_event_run [OF _ nth(1) demo_in_events(1) _ _ _ demo_verify_account [OF cextends_refl], where st = Duplicate])
      (use dom0 [of "[]"] demo_duplicate [OF demo_start_rows(2)] in \<open>simp_all add: demo_status_def del: ingest_any.simps\<close>)
  have s1: "?w 6 (demo_world T 1 demo_start, Looking demo_plan (drop 1 demo_stages)) = (demo_world T (Suc 1) demo_start, Looking demo_plan (drop (Suc 1) demo_stages))"
    by (rule demo_event_run [OF _ nth(2) demo_in_events(2) _ _ _ demo_verify_artifact [OF cextends_refl], where st = Duplicate])
      (unfold demo_prefix(2), use dom0 [of "[''account'']"] demo_duplicate [OF demo_start_rows(3)] in \<open>simp_all add: demo_status_def del: ingest_any.simps\<close>)
  have s2: "?w 6 (demo_world T 2 demo_start, Looking demo_plan (drop 2 demo_stages)) = (demo_world T (Suc 2) C1, Looking demo_plan (drop (Suc 2) demo_stages))"
    by (rule demo_event_run [OF _ nth(3) demo_in_events(3) _ _ _ e1, where st = Created])
      (unfold demo_prefix(3), use dom0 [of "[''account'', ''artifact'']"] m(10) in \<open>simp_all add: demo_status_def demo_evidence_def\<close>)
  have s3: "?w 6 (demo_world T 3 C1, Looking demo_plan (drop 3 demo_stages)) = (demo_world T (Suc 3) C2, Looking demo_plan (drop (Suc 3) demo_stages))"
    by (rule demo_event_run [OF _ nth(4) demo_in_events(4) _ _ _ d2, where st = Created])
      (unfold demo_prefix(4), use dom1 t(10) in \<open>simp_all add: demo_status_def demo_decision_def\<close>)
  obtain h where h: "history demo_fl demo_plan (demo_store T 4) = Inr h" "hs_failure h = None"
    "hs_accepted h = map (stage_text \<circ> sg_name) (take 4 demo_stages)" using demo_history by (metis order_refl)
  let ?p = "progress demo_plan h"
  have last: "?w 2 (demo_world T 4 C2, Looking demo_plan []) = (demo_world T 4 C2, Finished (Inr ?p))"
    using h(1) dom2 by (simp add: eval_nat_numeral demo_world_def checked_def)
  have start: "?w 1 (demo_world T 0 demo_start, Starting demo_unit) = (demo_world T 0 demo_start, Looking demo_plan (drop 0 demo_stages))"
  proof -
    have "target ''ledger.db'' False (demo_store T 0) = Inr (demo_store T 0)" by (simp add: target_def demo_store_def need_def)
    then show ?thesis using demo_load [OF T, of 0] by (simp add: started_worker_def demo_world_def demo_plan_fields)
  qed
  have four: "drop 4 demo_stages = []" by (simp add: demo_stages_def)
  have num: "(27::nat) = 2 + (6 + (6 + (6 + (6 + 1))))" "Suc 0 = 1" "Suc 1 = 2" "Suc 2 = 3" "Suc 3 = 4" by simp_all
  have run: "resume_submission demo_fl demo_decode body (\<lambda>_. Served) demo_unit (demo_world T 0 demo_start) = (demo_world T 4 C2, Finished (Inr ?p))"
    unfolding resume_submission_def num(1) work_add
    by (simp only: start s0 [unfolded num(2)] s1 [unfolded num(3)] s2 [unfolded num(4)] s3 [unfolded num(5)] four last)
  have "next_stage demo_plan h = None" by (simp add: next_stage_def h(3) find_None_iff demo_plan_fields demo_length)
  then have "pg_state ?p = ''complete''" using h(2) by (simp add: progress_def Let_def split: option.split)
  moreover have "pg_unit ?p = unit_id demo_unit" "pg_decision ?p = demo_decision_id"
    by (simp_all add: progress_fields demo_plan_fields) (simp add: demo_stages_def demo_stage_def demo_decision_def)
  ultimately show ?thesis using that run by blast
qed

subsection \<open>The fleet, and the theorems applied to it\<close>

lemma demo_fleet:
  obtains T C p where "fleet demo_fl demo_decode body (demo_world T 0 demo_start, [Starting demo_unit])"
    "rtranclp (fleet_step demo_fl demo_decode body) (demo_world T 0 demo_start, [Starting demo_unit]) (demo_world T 4 C, [Finished (Inr p)])"
    "fleet demo_fl demo_decode body (demo_world T 4 C, [Finished (Inr p)])" "pg_state p = ''complete''" "pg_unit p = unit_id demo_unit"
    "pg_decision p = demo_decision_id" "load_plan demo_fl demo_decode (demo_store T 4) demo_unit = Inr (Some demo_plan)"
proof -
  obtain T where T: "store_run demo_fl empty_store T" "submitted_capture demo_fl T demo_unit = Inr (canonical_text demo_cap, demo_cap)"
    "st_units T (unit_id demo_unit) \<noteq> None" by (rule demo_submitted)
  let ?new = "new_submission_store ''operations.db'' empty_store"
  let ?W = "\<lambda>S C. \<lparr>sw_store = S, sw_ledger = C, sw_path = ''ledger.db''\<rparr>"
  have "fleet demo_fl demo_decode body (?W ?new empty_captures, [])" by (rule fleet.fresh)
  moreover have "fleet_step demo_fl demo_decode body (?W ?new empty_captures, []) (?W ?new (empty_captures\<lparr>cl_base := run1\<rparr>), [])"
    using fleet_step.posting [of demo_fl "Legacy run_registration" "?W ?new empty_captures"] demo_start_posted(2) run_valid(1) by simp
  ultimately have "fleet demo_fl demo_decode body (?W ?new (empty_captures\<lparr>cl_base := run1\<rparr>), [])" by (rule fleet.step)
  moreover have "fleet_step demo_fl demo_decode body (?W ?new (empty_captures\<lparr>cl_base := run1\<rparr>), []) (?W ?new demo_start, [])"
    using fleet_step.posting [of demo_fl "Legacy demo_discovery" "?W ?new (empty_captures\<lparr>cl_base := run1\<rparr>)"] demo_start_posted(1,3) by simp
  ultimately have "fleet demo_fl demo_decode body (?W ?new demo_start, [])" by (rule fleet.step)
  moreover have "fleet_step demo_fl demo_decode body (?W ?new demo_start, []) (?W (?new\<lparr>ss_captures := T\<rparr>) demo_start, [])"
    using fleet_step.capturing [of demo_fl "?W ?new demo_start" T demo_decode body "[]"] T(1) by (simp add: new_submission_store_def)
  ultimately have "fleet demo_fl demo_decode body (?W (?new\<lparr>ss_captures := T\<rparr>) demo_start, [])" by (rule fleet.step)
  moreover have "fleet_step demo_fl demo_decode body (?W (?new\<lparr>ss_captures := T\<rparr>) demo_start, []) (demo_world T 0 demo_start, [])"
    using fleet_step.freezing [of demo_fl demo_decode demo_unit demo_plan "?W (?new\<lparr>ss_captures := T\<rparr>) demo_start"] demo_freeze [OF T(2,3)]
    by (simp add: demo_world_def)
  ultimately have "fleet demo_fl demo_decode body (demo_world T 0 demo_start, [])" by (rule fleet.step)
  moreover have "fleet_step demo_fl demo_decode body (demo_world T 0 demo_start, []) (demo_world T 0 demo_start, [Starting demo_unit])"
    using fleet_step.starting [of demo_fl demo_decode body "demo_world T 0 demo_start" "[]" demo_unit] by simp
  ultimately have f: "fleet demo_fl demo_decode body (demo_world T 0 demo_start, [Starting demo_unit])" by (rule fleet.step)
  obtain C p where c: "resume_submission demo_fl demo_decode body (\<lambda>_. Served) demo_unit (demo_world T 0 demo_start) =
      (demo_world T 4 C, Finished (Inr p))" "pg_state p = ''complete''" "pg_unit p = unit_id demo_unit" "pg_decision p = demo_decision_id"
    by (rule demo_resumed [OF T(2)])
  have r: "rtranclp (fleet_step demo_fl demo_decode body) (demo_world T 0 demo_start, [Starting demo_unit]) (demo_world T 4 C, [Finished (Inr p)])"
    using fleet_work [OF f, of "\<lambda>_. Served" 27] c(1) by (simp add: resume_submission_def)
  show ?thesis
    by (rule that [OF f r _ c(2-4) demo_load [OF T(2)]]) (use grows_run [OF r f demo_keeps_order] in blast)
qed

theorem plan_frozen_once_witness:
  "\<exists>T C ws S. fleet demo_fl demo_decode (\<lambda>_. JNull) (demo_world T 4 C, ws) \<and>
     freeze_plan demo_fl demo_decode demo_unit demo_plan ''ledger.db'' (demo_store T 4) = Inr (Some demo_plan, S) \<and> ss_frozen S = [demo_frozen]"
proof -
  obtain T C p where f: "fleet demo_fl demo_decode (\<lambda>_. JNull) (demo_world T 0 demo_start, [Starting demo_unit])"
    "rtranclp (fleet_step demo_fl demo_decode (\<lambda>_. JNull)) (demo_world T 0 demo_start, [Starting demo_unit]) (demo_world T 4 C, [Finished (Inr p)])"
    "fleet demo_fl demo_decode (\<lambda>_. JNull) (demo_world T 4 C, [Finished (Inr p)])"
    "load_plan demo_fl demo_decode (demo_store T 4) demo_unit = Inr (Some demo_plan)" by (rule demo_fleet)
  have t: "target ''ledger.db'' True (demo_store T 4) = Inr (demo_store T 4)" by (simp add: target_def demo_store_def need_def)
  have z: "freeze_plan demo_fl demo_decode demo_unit demo_plan ''ledger.db'' (demo_store T 4) = Inr (Some demo_plan, demo_store T 4)"
    unfolding freeze_plan_def t bindE_simps f(4) by (simp add: need_def)
  have r: "demo_frozen \<in> set (ss_frozen (sw_store (demo_world T 0 demo_start)))" "fr_unit demo_frozen = unit_id demo_unit"
    "sw_store (demo_world T 4 C) = demo_store T 4"
    by (simp_all add: demo_world_def demo_store_def) (simp add: demo_frozen_def)
  have "Some demo_plan = Some (fr_plan demo_frozen) \<and> ss_frozen (demo_store T 4) = ss_frozen (sw_store (demo_world T 4 C))"
    by (rule plan_frozen_once [OF f(1) demo_keeps_order f(2) r(1,2)]) (use z r(3) in simp)
  then have "ss_frozen (demo_store T 4) = [demo_frozen]" by (simp add: demo_store_def)
  then show ?thesis using f(3) z by blast
qed

theorem stages_sent_in_order_witness:
  "\<exists>T C ws b. fleet demo_fl demo_decode (\<lambda>_. JNull) (demo_world T 4 C, ws) \<and>
     accepted_by (demo_store T 4) demo_plan (demo_stages ! 2) b \<and> at_id b < at_id (demo_attempt 3)"
proof -
  obtain T C p where f: "fleet demo_fl demo_decode (\<lambda>_. JNull) (demo_world T 4 C, [Finished (Inr p)])" by (rule demo_fleet)
  have w: "sw_store (demo_world T 4 C) = demo_store T 4" by (simp add: demo_world_def)
  have "demo_attempt 3 \<in> set (ss_attempts (sw_store (demo_world T 4 C)))" by (simp add: w demo_store_def)
  from stages_sent_in_order [OF f demo_keeps_order this] obtain r before s after where r: "r \<in> set (ss_frozen (demo_store T 4))"
    "fs_stages (fr_plan r) = before @ s # after" "attempt_of (demo_attempt 3) (fr_plan r) s"
    "\<forall>p\<in>set before. \<exists>b. accepted_by (demo_store T 4) (fr_plan r) p b \<and> at_id b < at_id (demo_attempt 3)" unfolding w by blast
  have p: "fr_plan r = demo_plan" using r(1) by (simp add: demo_store_def demo_frozen_def)
  have "stage_text (sg_name s) = ''decision''" using r(3) by (simp add: attempt_of_def demo_attempt_def demo_stages_def)
  then have t: "stage_text (sg_name s) = stage_text (sg_name (demo_stages ! 3))" by (simp add: demo_stages_def)
  have "s \<in> set (fs_stages demo_plan)" using r(2) p by simp
  moreover have "demo_stages ! 3 \<in> set (fs_stages demo_plan)" unfolding demo_plan_fields by (simp add: demo_length)
  ultimately have "s = demo_stages ! 3" using frozen_stage_unique [OF demo_frozen_ok _ _ t] by blast
  then have "demo_stages ! 2 \<in> set before"
    using r(2) demo_stage_differ by (auto simp: p demo_plan_fields demo_stages_def Cons_eq_append_conv)
  then show ?thesis using r(4) f unfolding p by blast
qed

theorem accepted_receipt_settled_witness:
  "\<exists>T C ws s. fleet demo_fl demo_decode (\<lambda>_. JNull) (demo_world T 4 C, ws) \<and> s \<in> set demo_stages \<and> sg_name s = DecisionStage \<and>
     stage_settled C s"
proof -
  obtain T C p where f: "fleet demo_fl demo_decode (\<lambda>_. JNull) (demo_world T 4 C, [Finished (Inr p)])" by (rule demo_fleet)
  have w: "sw_store (demo_world T 4 C) = demo_store T 4" "sw_ledger (demo_world T 4 C) = C" by (simp_all add: demo_world_def)
  have b: "demo_observation 3 \<in> set (ss_observations (sw_store (demo_world T 4 C)))" "accepted_disposition (ob_disposition (demo_observation 3))"
    by (simp_all add: w demo_store_def) (simp add: demo_observation_def accepted_disposition_def)
  from accepted_receipt_settled [OF f demo_keeps_order b] obtain a r s where r: "a \<in> set (ss_attempts (demo_store T 4))"
    "at_id a = ob_attempt (demo_observation 3)" "r \<in> set (ss_frozen (demo_store T 4))" "s \<in> set (fs_stages (fr_plan r))"
    "attempt_of a (fr_plan r) s" "stage_settled C s" unfolding w by blast
  have "a = demo_attempt 3" using r(1,2) by (auto simp: demo_store_def demo_attempt_def demo_observation_def)
  then have "stage_text (sg_name s) = ''decision''" using r(5) by (simp add: attempt_of_def demo_attempt_def demo_stages_def)
  then have "sg_name s = DecisionStage" by (cases "sg_name s") simp_all
  moreover have "s \<in> set demo_stages" using r(3,4) by (simp add: demo_store_def demo_frozen_def demo_plan_fields)
  ultimately show ?thesis using f r(6) by blast
qed

theorem complete_submission_replays_witness:
  "\<exists>T C p x. fleet demo_fl demo_decode (\<lambda>_. JNull) (demo_world T 4 C, [Finished (Inr p)]) \<and> pg_state p = ''complete'' \<and>
     pg_unit p = unit_id demo_unit \<and> reconstruct_any demo_fl C demo_decision_id = Inr x"
proof -
  obtain T C p where f: "fleet demo_fl demo_decode (\<lambda>_. JNull) (demo_world T 4 C, [Finished (Inr p)])" "pg_state p = ''complete''"
    "pg_unit p = unit_id demo_unit" "pg_decision p = demo_decision_id" by (rule demo_fleet)
  have w: "sw_ledger (demo_world T 4 C) = C" by (simp add: demo_world_def)
  have "Finished (Inr p) \<in> set [Finished (Inr p)]" by simp
  from complete_submission_replays [OF f(1) demo_keeps_order this f(2)] show ?thesis using f(1-3) unfolding w f(4) by blast
qed

end
