(* ===== verification/Spec2Isabelle.thy ===== *)
theory Spec2Isabelle
  imports FR_Prelude Decimal Py_Time Timestamp Json Json_Roundtrip Sha256 Rules Schema Schema_Json Evaluator
    Ledger Policy Projections Collector Collector_Steps Reachable Ledger_Soundness Snapshots Example_Run
    Attribution_Chains Reconstruct Counterfactual Insights Collector_Properties Collector_Progress
    Attribution_Service Attribution_Run Digest_Shape Hubspot_Contracts Hubspot_Capture Hubspot_Reading Fencing
    Hubspot_Store Hubspot_Runs Hubspot_Once Hubspot_Example Capture_Contract Capture_Wire
    Capture_Ledger Provenance Provenance_Growth Provenance_Steps Provenance_Replay Provenance_Sound Provenance_Evidence
    Capture_Replay Capture_Admission Capture_Example Submission Submission_Store Submission_Run Submission_Fleet
    Submission_Safety Submission_Example Submission_Complete
begin

text \<open>
  The GTM Flight Recorder (\<open>src/src/flight_recorder/\<close>) records why a go-to-market decision was made and
  replays it later.  Clients post event envelopes to a collector, which validates them against an
  append-only ledger and projects each into the tables of the domain.  A decision event preserves the
  inputs it used, the identity of the scoring logic and its result.  From the ledger alone the program
  reconstructs a decision, replays it against other logic, attributes outcomes to actions and decisions,
  and computes metrics, all at a fixed point of the event sequence.

  \<^bold>\<open>The parts and their theories.\<close>

  \<^item> \<open>FR_Prelude\<close>: errors as values (\<open>bindE\<close>, \<open>mapE\<close>, \<open>first_failure\<close>, \<open>raise_if\<close>), lookups in lists with
    distinct keys, repeated keys; a \<open>string\<close> holds the UTF-8 bytes of a text.  \<open>Decimal\<close>: decimal numerals, what
    \<open>\<backslash>d\<close> and \<open>int\<close> read (every decimal digit of Unicode 15.1, at most 4300 of them).
    \<open>Py_Time\<close>: the \<open>date\<close>, \<open>datetime\<close> and \<open>timedelta\<close> of the standard library on the proleptic Gregorian
    calendar.
  \<^item> \<open>Rules\<close> (\<open>logic/rules.py\<close>): the four rule shapes, the regular expressions of \<open>parse_rule\<close>, \<open>matches\<close> with
    its type checks, the temporal window, \<open>require_aware_boundary\<close>.  \<open>Evaluator\<close> (\<open>logic/evaluator.py\<close>):
    \<open>R(L, H)\<close>, factor states and contributions, score, threshold, output.
  \<^item> \<open>Json\<close>, \<open>Json_Roundtrip\<close>, \<open>Sha256\<close> (\<open>collector/canonical.py\<close> and the \<open>json\<close>/\<open>hashlib\<close> it calls): canonical
    text, its reader, and SHA-256 on \<open>32 word\<close>.
  \<^item> \<open>Schema\<close>, \<open>Schema_Json\<close>, \<open>Timestamp\<close> (\<open>collector/schema.py\<close>): payload records, the \<open>envelope\<close>, field
    constraints and model validators, the JSON dump and the strict reading of an artifact, stored instants.
  \<^item> \<open>Ledger\<close> (\<open>ledger/schema.py\<close>): a \<open>ledger\<close> record with one list per table; every \<open>INSERT\<close> is a function
    that checks the unique constraints, foreign keys and the 64-bit binding of integers and appends.
    The append-only triggers leave no other statement.
  \<^item> \<open>Projections\<close> (\<open>collector/projections.py\<close>) and \<open>Collector\<close> (\<open>collector/service.py\<close>, \<open>collector/errors.py\<close>):
    the cross-event checks, the projected rows, and \<open>ingest\<close> as one transaction.
  \<^item> \<open>Policy\<close> (\<open>attribution/policy.py\<close>): reads of a snapshot, the attribution rules, effective versions.
    \<open>Attribution_Service\<close> (\<open>attribution/service.py\<close>): the command that computes results and submits them to
    the collector, with requests and answers that can be lost; \<open>Attribution_Run\<close>: what a whole run does.
  \<^item> \<open>Reconstruct\<close>, \<open>Counterfactual\<close> (\<open>replay/\<close>): reconstruction, replay and comparison.
  \<^item> \<open>Insights\<close> (\<open>analytics/insights.py\<close>): observations, decision facts, rates, the metrics at a cutoff.
  \<^item> \<open>Hubspot_Contracts\<close> (\<open>adapters/hubspot/contracts.py\<close>, \<open>identity.py\<close>), \<open>Hubspot_Capture\<close> (\<open>capture.py\<close>) and
    \<open>Hubspot_Store\<close> (\<open>store.py\<close>): the capture of a notified company.  A \<open>source_notification\<close> and the three
    processing identities make a \<open>processing_unit\<close>; a supplied \<open>read_result\<close> is mapped to input states and frozen
    as a canonical document; the \<open>capture_store\<close> record has one component per table, and each operation is one
    transaction.  \<open>Hubspot_Once\<close> has \<open>capture_once\<close>, which drives the store.
  \<^item> \<open>Capture_Contract\<close> (\<open>collector/capture_contract.py\<close>): the collector's check of a published capture and of the
    evidence and decisions that carry one.
  \<^item> \<open>Capture_Ledger\<close> (the capture tables of \<open>ledger/schema.py\<close>, the version 2 envelopes of \<open>collector/schema.py\<close>) and
    \<open>Provenance\<close> (\<open>collector/provenance.py\<close>): a \<open>capture_ledger\<close> is the \<open>ledger\<close> with the five capture tables beside it;
    \<open>validate_v2\<close>, \<open>project_v2\<close>, \<open>ingest_any\<close> for events of both kinds, and \<open>reconstruct_any\<close>, which replays a captured
    decision after \<open>load_captured\<close> has verified its capture, lineage, context and evidence again.
  \<^item> \<open>Submission\<close>, \<open>Submission_Store\<close> and \<open>Submission_Run\<close> (\<open>adapters/hubspot/submission_contracts.py\<close>,
    \<open>submission_store.py\<close>, \<open>submit.py\<close>): a published capture becomes a \<open>frozen_submission\<close>, the plan of the three or
    four events that submit it; the \<open>submission_store\<close> keeps plans, attempts and observations beside the capture
    store; \<open>resume_submission\<close> posts the stages one by one.  A \<open>worker\<close> is a position in that function, a step
    is one transaction or one call of the collector, and \<open>fleet\<close> is whatever any number of workers make of one store
    and one ledger, with other clients posting and the capture adapter working on.

  \<^bold>\<open>How they interact.\<close>  \<open>ingest\<close> calls \<open>validate_references\<close>, which for an attribution runs \<open>attribute\<close> on the
  ledger and compares (the collector recomputes the policy), then \<open>project\<close>.  \<open>reachable\<close> (theory
  \<open>Reachable\<close>) is the set of ledgers that accepted, valid envelopes produce from the empty database.
  \<open>reconstruct\<close> and \<open>replay\<close> run \<open>evaluate\<close> on the context the collector preserved; \<open>insights\<close> reconstructs
  every decision of its population and reads the policy's effective selections.  A capture is published by
  \<open>freeze\<close> in a file of its own, never the ledger; its bytes reach the collector inside an envelope, where
  \<open>validate_capture\<close> rebuilds the unit from the document and runs the adapter's \<open>validate_pending_capture\<close> again.

  \<^bold>\<open>What the lemmas show.\<close>  The rule and evaluator theories: the accepted grammar exactly, round trips, the
  meaning of each rule, consumption, bounds and failures of evaluation.  The JSON theories: canonical text
  reads back as the same value, so equal texts mean equal envelopes.  \<open>Collector_Steps\<close> gives the exact rows
  an accepted envelope adds (\<open>write_event_tables\<close>) and the locale \<open>write_invariant\<close>: what every statement
  keeps, a transaction keeps; its instances \<open>keys\<close>, \<open>refs\<close> and \<open>grows\<close> are the schema, referential integrity
  and append-only growth.  \<open>Ledger\<close> states the contract of a table as the locale \<open>append_table\<close>, \<open>Snapshots\<close>
  that of a read at a cutoff as \<open>snapshot_read\<close>.  \<open>Ledger_Soundness\<close> and \<open>Attribution_Chains\<close> are the invariants
  of reachable ledgers; \<open>Collector_Properties\<close> the client's view (retries, conflicts, growth, refinement of a
  write-once map); \<open>Collector_Progress\<close> shows that the collector always answers.  \<open>Attribution_Run\<close> shows
  that the collector accepts whatever an ordinary run submits (invariant \<open>run_inv\<close>).  \<open>Example_Run\<close> is a run
  of seven envelopes from the empty database, on which the witnesses rest; hashes stay symbolic there.
  \<open>Hubspot_Contracts\<close> shows that documents read back and that typed equality is canonical identity;
  \<open>Hubspot_Reading\<close> that a candidate the adapter builds passes its own validation.  \<open>Hubspot_Runs\<close> gives the
  effect of every operation and instantiates the locale \<open>fence\<close> (theory \<open>Fencing\<close>) with the companies of the
  store; \<open>Hubspot_Once\<close> has the exactly-once results, \<open>Capture_Contract\<close> and \<open>Capture_Wire\<close> what the collector can
  rely on.  \<open>Hubspot_Example\<close> is the run their witnesses use.  \<open>Provenance_Growth\<close> and \<open>Provenance_Steps\<close> show what a
  growing \<open>capture_ledger\<close> keeps and the exact rows of an accepted captured event; \<open>Provenance_Replay\<close>, \<open>Provenance_Sound\<close>
  and \<open>Provenance_Evidence\<close> that what the checks admit verifies again from its stored rows, whence the invariants of
  \<open>Capture_Replay\<close>.  \<open>Capture_Admission\<close> shows that what the checks admit the database takes, and that
  only the overflow of a rule's window gets past the collector's refusals, and \<open>Capture_Example\<close> sends
  the capture of \<open>Hubspot_Example\<close> through the collector.  \<open>Submission_Fleet\<close> and \<open>Submission_Safety\<close> have the invariant
  of every fleet: plans are frozen once, stages go out in order, accepted receipts are backed by the ledger;
  \<open>Submission_Example\<close> and \<open>Submission_Complete\<close> submit that capture to the end.

  \<^bold>\<open>Other workers and other code.\<close>  The store is shared by processes: \<open>store_run\<close> is any sequence of its
  operations with any arguments, and \<open>capture_once\<close> takes as a parameter \<open>env\<close> what others do between its
  transactions.  The reading of properties, the selection of logic and the clock are callbacks in the code and
  arguments here.  Python's floats enter the adapter through the parameter \<open>fl\<close>, the text of
  \<open>repr(float(token))\<close>; the law \<open>repr_law\<close> says that this text is a number token that reads back as itself.
  Bodies are taken as decoded UTF-8 text.  Timestamps in an ISO form other than the extended one with seconds
  are refused by the model's \<open>parse_datetime\<close>; documents never hold such a form.  \<open>posted_canonically\<close> says that the
  capture of an event arrives with its keys in canonical order, as every client of the repository posts it.

  \<^bold>\<open>Bounds and loops.\<close>  The supersession walk \<open>follow\<close> terminates because it collects recorded outcome
  versions; SHA-256 processes \<open>length div 64\<close> blocks.  The JSON reader counts its calls: the length of the
  text is enough for every canonical text (\<open>canonical_fuel\<close>), the only texts it is given.  \<open>resume_submission\<close> runs a
  worker for 27 steps, enough for the four stages of a plan (\<open>resume_submission_returns\<close>).  Integers of JSON
  are unbounded as in Python; its reader refuses those of more than 4300 digits, and documents that hold one are
  outside the model, unlike rule texts, where \<open>py_int\<close> has the limit.  Integers bound to a column must fit 64 bits
  (\<open>fits_int64\<close>), and the event sequence ends at \<open>2^63 - 1\<close> (\<open>DatabaseFull\<close>).

  \<^bold>\<open>Not modelled.\<close>  The capture forms of envelope schema version 3 and the operation events of the CRM
  and HubSpot adapters, with their tables and the branches of the collector and of replay that serve them;
  the write-back store of the HubSpot adapter and the CRM adapter; \<open>SQLITE_BUSY\<close> inside the collector (a submission
  sees it as the fate \<open>Contended\<close> of its call); HTTP, templates, the command line and the generated dataset; SQLite beyond the
  constraints and the atomicity of a transaction.  Pydantic's decoding of a request body is the parameter
  \<open>decode\<close> of \<open>ingest_json\<close> and of the submission, where the law \<open>keeps_order\<close> says that it leaves the members of a
  canonical document in order; its field constraints and the validators of the models are definitions.  The JSON body
  of a collector error is the parameter \<open>body\<close> of a submission.
\<close>

section \<open>Invariants of every ledger the collector produces\<close>

text \<open>C30: Every reachable ledger satisfies its declared schema: keys and unique constraints hold in every
  table, every foreign key resolves, the one deferred to COMMIT included, every column that holds an instant holds
  canonical text of a valid instant, and every observation date canonical text of a valid date.\<close>
theorem ledger_integrity:
  assumes "reachable L"
  shows "ledger_keys L \<and> ledger_refs L \<and> deferred_refs L \<and> ledger_times L"
  using reachable_keys [OF assms] reachable_refs [OF assms] reachable_deferred [OF assms] reachable_times [OF assms] by blast

theorem ledger_integrity_witness: "ledger_keys run7 \<and> ledger_refs run7 \<and> deferred_refs run7 \<and> ledger_times run7"
  by (rule ledger_integrity [OF run7_reachable])

text \<open>C3: No stored decision rests on evidence from after its boundary: every available context entry and
  every consumed input of a decision names an evidence version of the same account and type that was
  recorded no later than the boundary and still holds the preserved value.\<close>
theorem decision_evidence_by_boundary:
  assumes "reachable L" "d \<in> set (lg_decisions L)"
  shows "(\<forall>h\<in>set (lg_context L). h_decision h = d_event_id d \<longrightarrow> h_availability h = ''available'' \<longrightarrow>
       (\<exists>x\<in>set (lg_evidence L). \<exists>j. h_evidence h = Some (v_version_id x) \<and> v_account_ref x = d_account_ref d \<and>
          v_type x = h_input_key h \<and> v_available_at x \<le> d_boundary d \<and>
          stored_evidence_value (v_value_json x) = Some j \<and> h_value_text h = Some (canonical_text j))) \<and>
    (\<forall>u\<in>set (lg_consumed L). u_decision u = d_event_id d \<longrightarrow>
       (\<exists>x\<in>set (lg_evidence L). \<exists>j. v_version_id x = u_evidence u \<and> v_account_ref x = d_account_ref d \<and>
          v_type x = u_input_key u \<and> v_available_at x \<le> d_boundary d \<and>
          stored_evidence_value (v_value_json x) = Some j \<and> u_value_text u = canonical_text j))"
proof (intro conjI ballI impI)
  have s: "decision_sound L d" using reachable_decisions [OF assms(1)] assms(2) by blast
  fix h assume h: "h \<in> set (lg_context L)" "h_decision h = d_event_id d" "h_availability h = ''available''"
  then obtain v t where v: "h_evidence h = Some v" "h_value_text h = Some t" "reference_sound L d v (h_input_key h) t"
    using s unfolding decision_sound_def by blast
  show "\<exists>x\<in>set (lg_evidence L). \<exists>j. h_evidence h = Some (v_version_id x) \<and> v_account_ref x = d_account_ref d \<and>
      v_type x = h_input_key h \<and> v_available_at x \<le> d_boundary d \<and>
      stored_evidence_value (v_value_json x) = Some j \<and> h_value_text h = Some (canonical_text j)"
    using v(3) unfolding reference_sound_def v(1,2) by blast
next
  have s: "decision_sound L d" using reachable_decisions [OF assms(1)] assms(2) by blast
  fix u assume u: "u \<in> set (lg_consumed L)" "u_decision u = d_event_id d"
  then have "reference_sound L d (u_evidence u) (u_input_key u) (u_value_text u)"
    using s unfolding decision_sound_def by blast
  then show "\<exists>x\<in>set (lg_evidence L). \<exists>j. v_version_id x = u_evidence u \<and> v_account_ref x = d_account_ref d \<and>
      v_type x = u_input_key u \<and> v_available_at x \<le> d_boundary d \<and>
      stored_evidence_value (v_value_json x) = Some j \<and> u_value_text u = canonical_text j"
    unfolding reference_sound_def by blast
qed

theorem decision_evidence_by_boundary_witness:
  "\<exists>x\<in>set (lg_evidence run6). v_version_id x = ''ev-1'' \<and> v_available_at x \<le> ''2026-04-17T10:05:02.000000Z''"
proof -
  have "consumed_row_of ''dec'' (hd (de_consumed run_decision_payload)) \<in> set (lg_consumed run6)"
    by (simp add: run_tables run_decision_payload_def)
  from decision_evidence_by_boundary [OF run_reachable(6) run_in, THEN conjunct2, rule_format, OF this]
  show ?thesis
    by (auto simp: decision_row_of_def run_decision_def run_decision_payload_def consumed_row_of_def run_times)
qed

text \<open>C9: Every stored attribution is reproducible: its event id is derived from its operation, and the
  policy, run again at its cutoff on the ledger as it is now, computes the same result.\<close>
theorem stored_attribution_reproducible:
  assumes "reachable L" "t \<in> set (lg_attributions L)"
  shows "t_event_id t = attribution_event_id (t_outcome t) (t_policy_version t) (t_cutoff t) \<and>
    (\<exists>r. attribute L (t_outcome t) (t_cutoff t) (t_policy_version t) = Inr r \<and>
       policy_result r = stored_policy_result t)"
  using reachable_attributions [OF assms(1)] assms(2) by (auto simp: attribution_sound_def)

theorem stored_attribution_reproducible_witness:
  "\<exists>r. attribute run7 ''out'' 6 POLICY_VERSION = Inr r \<and> rr_status r = ''direct''"
proof -
  have "attribution_row_of run_attribution run_attribution_payload \<in> set (lg_attributions run7)"
    by (simp add: run7_def)
  from stored_attribution_reproducible [OF run7_reachable this] show ?thesis
    by (auto simp: attribution_row_of_def run_attribution_payload_def policy_result_def stored_policy_result_def)
qed

end
